(* ===== verification/Prelude.thy ===== *)
theory Prelude
  imports "HOL-Library.Word" "HOL-Library.Monad_Syntax"
begin

unbundle bit_operations_syntax

section \<open>Prelude: machine words, shared memory, interference\<close>

text \<open>
  What every component of the runtime shares: the machine types of the ia32 build
  (\<open>include/arch/ia32/arch.h\<close>), lvalues of the shared memory, the interference of the
  other executors, the compare-and-set retry loop, and linked lists in memory.

  Every routine of the model is a function \<open>'s conc \<Rightarrow> ('a \<times> 's conc) option\<close>. A
  \<open>conc\<close> state is the memory together with the list of what the other executors are
  still going to do to it; before each access to a shared location the next of these
  interferences happens. \<open>None\<close> says that the C function does not return: a memory
  fault (NULL or unmapped address), a call of \<open>panic\<close>, or a loop that never ends.
\<close>

named_theorems wp \<open>weakest-precondition equations of \<open>returns\<close>\<close>
named_theorems envs \<open>facts about the interference of other executors\<close>

subsection \<open>Machine types\<close>

type_synonym u8 = "8 word"
type_synonym u32 = "32 word"
type_synonym u64 = "64 word"
type_synonym ptr = "32 word"

abbreviation NULL :: ptr where "NULL \<equiv> 0"

subsection \<open>Shared memory and interference\<close>

type_synonym 's conc = "'s \<times> ('s \<Rightarrow> 's) list"

text \<open>An lvalue: how to load it (\<open>None\<close> when its address is not mapped) and store it.\<close>

datatype ('s, 'v) loc = Loc (load: "'s \<Rightarrow> 'v option") (store: "'v \<Rightarrow> 's \<Rightarrow> 's")

text \<open>
  The lvalue of a global variable, and that of a field of the structure at address \<open>p\<close> of
  a heap, each from the record's selector and update. NULL is never mapped.
\<close>

definition global_loc :: "('s \<Rightarrow> 'v) \<Rightarrow> (('v \<Rightarrow> 'v) \<Rightarrow> 's \<Rightarrow> 's) \<Rightarrow> ('s, 'v) loc" where
  "global_loc get upd = Loc (\<lambda>s. Some (get s)) (\<lambda>v. upd (\<lambda>_. v))"

definition field_loc ::
  "('s \<Rightarrow> ptr \<Rightarrow> 'r option) \<Rightarrow> (((ptr \<Rightarrow> 'r option) \<Rightarrow> ptr \<Rightarrow> 'r option) \<Rightarrow> 's \<Rightarrow> 's) \<Rightarrow>
   ('r \<Rightarrow> 'v) \<Rightarrow> (('v \<Rightarrow> 'v) \<Rightarrow> 'r \<Rightarrow> 'r) \<Rightarrow> ptr \<Rightarrow> ('s, 'v) loc" where
  "field_loc heap heap_upd get upd p =
     Loc (\<lambda>s. if p = NULL then None else map_option get (heap s p))
         (\<lambda>v s. heap_upd (\<lambda>_. (heap s)(p := map_option (upd (\<lambda>_. v)) (heap s p))) s)"

lemma global_loc_simps [simp]:
  "load (global_loc get upd) s = Some (get s)"
  "store (global_loc get upd) v = upd (\<lambda>_. v)"
  by (simp_all add: global_loc_def)

lemma field_loc_simps [simp]:
  "load (field_loc heap hu get upd p) s = (if p = NULL then None else map_option get (heap s p))"
  "store (field_loc heap hu get upd p) v s =
    hu (\<lambda>_. (heap s)(p := map_option (upd (\<lambda>_. v)) (heap s p))) s"
  by (simp_all add: field_loc_def)

text \<open>A pointer with a valid bit, the result of one attempt of a lock-free operation.\<close>

record opt_t =
  o_value :: ptr
  o_valid :: bool

fun interfere :: "'s conc \<Rightarrow> 's conc" where
  "interfere (s, []) = (s, [])"
| "interfere (s, f # fs) = (f s, fs)"

definition rd :: "('s, 'v) loc \<Rightarrow> 's conc \<Rightarrow> ('v \<times> 's conc) option" where
  "rd l c = (let c' = interfere c in
     case load l (fst c') of None \<Rightarrow> None | Some v \<Rightarrow> Some (v, c'))"

definition wr :: "('s, 'v) loc \<Rightarrow> 'v \<Rightarrow> 's conc \<Rightarrow> (unit \<times> 's conc) option" where
  "wr l v c = (let c' = interfere c in
     case load l (fst c') of None \<Rightarrow> None
     | Some _ \<Rightarrow> Some ((), (store l v (fst c'), snd c')))"

definition cas :: "'v \<Rightarrow> 'v \<Rightarrow> ('s, 'v) loc \<Rightarrow> 's conc \<Rightarrow> (bool \<times> 's conc) option" where
  "cas expect val l c = (let c' = interfere c in
     case load l (fst c') of None \<Rightarrow> None
     | Some v \<Rightarrow> if v = expect then Some (True, (store l val (fst c'), snd c'))
                 else Some (False, c'))"

text \<open>Accesses to memory that no other executor reads or writes at that moment.\<close>

definition prd :: "('s, 'v) loc \<Rightarrow> 's conc \<Rightarrow> ('v \<times> 's conc) option" where
  "prd l c = (case load l (fst c) of None \<Rightarrow> None | Some v \<Rightarrow> Some (v, c))"

definition pwr :: "('s, 'v) loc \<Rightarrow> 'v \<Rightarrow> 's conc \<Rightarrow> (unit \<times> 's conc) option" where
  "pwr l v c = (case load l (fst c) of None \<Rightarrow> None
     | Some _ \<Rightarrow> Some ((), (store l v (fst c), snd c)))"

subsection \<open>Loops\<close>

text \<open>\<open>for(i = 1; !try(); i++) backoff_delay(i);\<close> and its variant with a result.\<close>

partial_function (option) retry_until ::
  "('c \<Rightarrow> (bool \<times> 'c) option) \<Rightarrow> 'c \<Rightarrow> (unit \<times> 'c) option" where
  "retry_until body c = do {
     (ok, c') \<leftarrow> body c;
     if ok then Some ((), c') else retry_until body c' }"

partial_function (option) retry ::
  "('c \<Rightarrow> ('a option \<times> 'c) option) \<Rightarrow> 'c \<Rightarrow> ('a \<times> 'c) option" where
  "retry body c = do {
     (r, c') \<leftarrow> body c;
     case r of Some a \<Rightarrow> Some (a, c') | None \<Rightarrow> retry body c' }"

text \<open>\<open>for(i = 1; !(res = try()).o_valid; i++) backoff_delay(i); return res.o_value;\<close>\<close>

definition retry_valid :: "('c \<Rightarrow> (opt_t \<times> 'c) option) \<Rightarrow> 'c \<Rightarrow> (ptr \<times> 'c) option" where
  "retry_valid try = retry (\<lambda>c. do {
     (res, c) \<leftarrow> try c;
     Some (if o_valid res then Some (o_value res) else None, c) })"

text \<open>\<open>for(i = 1; NULL == (res = try()); i++) backoff_delay(i); return res;\<close>\<close>

definition retry_nonnull :: "('c \<Rightarrow> (ptr \<times> 'c) option) \<Rightarrow> 'c \<Rightarrow> (ptr \<times> 'c) option" where
  "retry_nonnull try = retry (\<lambda>c. do {
     (res, c) \<leftarrow> try c;
     Some (if res = NULL then None else Some res, c) })"

declare retry_until.simps [code] retry.simps [code]

text \<open>A loop over a list of indexes whose body may fail.\<close>

fun foreach :: "('x \<Rightarrow> 'c \<Rightarrow> (unit \<times> 'c) option) \<Rightarrow> 'x list \<Rightarrow> 'c \<Rightarrow> (unit \<times> 'c) option" where
  "foreach f [] c = Some ((), c)"
| "foreach f (x # xs) c = do { (_, c) \<leftarrow> f x c; foreach f xs c }"

subsection \<open>Total correctness\<close>

text \<open>\<open>returns m Q\<close>: the routine returns, and \<open>Q\<close> holds of its result and state.\<close>

definition returns :: "('a \<times> 'c) option \<Rightarrow> ('a \<Rightarrow> 'c \<Rightarrow> bool) \<Rightarrow> bool" where
  "returns m Q = (case m of None \<Rightarrow> False | Some r \<Rightarrow> Q (fst r) (snd r))"

lemma returns_Some [wp, simp]: "returns (Some r) Q = Q (fst r) (snd r)"
  by (simp add: returns_def)

lemma returns_None [wp, simp]: "\<not> returns None Q"
  by (simp add: returns_def)

lemma returns_bind [wp]: "returns (m \<bind> f) Q = returns m (\<lambda>a c. returns (f (a, c)) Q)"
  by (auto simp: returns_def split: option.splits)

lemma returns_if [wp]:
  "returns (if b then m else n) Q = (if b then returns m Q else returns n Q)"
  by simp

lemma returns_mono: "returns m Q \<Longrightarrow> (\<And>a c. Q a c \<Longrightarrow> R a c) \<Longrightarrow> returns m R"
  by (auto simp: returns_def split: option.splits)

lemma returns_ex: "returns m Q = (\<exists>a c. m = Some (a, c) \<and> Q a c)"
  by (auto simp: returns_def split: option.splits)

lemma returnsI: "m = Some (a, c) \<Longrightarrow> Q a c \<Longrightarrow> returns m Q"
  by simp

lemma returns_rd [wp]:
  "returns (rd l c) Q =
     (\<exists>v. load l (fst (interfere c)) = Some v \<and> Q v (interfere c))"
  by (auto simp: rd_def Let_def split: option.splits)

lemma returns_wr [wp]:
  "returns (wr l v c) Q =
     (load l (fst (interfere c)) \<noteq> None \<and>
      Q () (store l v (fst (interfere c)), snd (interfere c)))"
  by (auto simp: wr_def Let_def split: option.splits)

lemma returns_cas [wp]:
  "returns (cas e v l c) Q =
     (\<exists>x. load l (fst (interfere c)) = Some x \<and>
       (if x = e then Q True (store l v (fst (interfere c)), snd (interfere c))
        else Q False (interfere c)))"
  by (auto simp: cas_def Let_def split: option.splits)

lemma returns_prd [wp]:
  "returns (prd l c) Q = (\<exists>v. load l (fst c) = Some v \<and> Q v c)"
  by (auto simp: prd_def split: option.splits)

lemma returns_pwr [wp]:
  "returns (pwr l v c) Q =
     (load l (fst c) \<noteq> None \<and> Q () (store l v (fst c), snd c))"
  by (auto simp: pwr_def split: option.splits)

subsection \<open>The environment\<close>

text \<open>\<open>env_to c d\<close>: from \<open>c\<close> to \<open>d\<close> only other executors have acted.\<close>

definition run_env :: "('s \<Rightarrow> 's) list \<Rightarrow> 's \<Rightarrow> 's" where
  "run_env fs s = fold (\<lambda>f. f) fs s"

definition env_to :: "'s conc \<Rightarrow> 's conc \<Rightarrow> bool" where
  "env_to c d \<longleftrightarrow> (\<exists>pre. snd c = pre @ snd d \<and> fst d = run_env pre (fst c))"

lemma run_env_simps [simp]: "run_env [] s = s" "run_env (f # fs) s = run_env fs (f s)"
  by (simp_all add: run_env_def)

lemma run_env_append [simp]: "run_env (fs @ gs) s = run_env gs (run_env fs s)"
  by (simp add: run_env_def)

lemma env_to_refl [simp, envs]: "env_to c c"
  by (simp add: env_to_def)

lemma env_to_trans [trans]: "env_to c d \<Longrightarrow> env_to d e \<Longrightarrow> env_to c e"
  by (force simp: env_to_def)

lemma env_to_interfere [envs]: "env_to c (interfere c)"
proof (cases c)
  case (Pair s fs)
  then show ?thesis
    by (cases fs) (auto simp: env_to_def intro: exI [of _ "[hd fs]"])
qed

lemma interfere_quiet [simp]: "snd c = [] \<Longrightarrow> interfere c = c"
  by (cases c) auto

lemma length_interfere: "length (snd (interfere c)) = length (snd c) - 1"
proof (cases c)
  case (Pair s fs)
  then show ?thesis by (cases fs) auto
qed

lemma interfere_shorter:
  "interfere c \<noteq> c \<Longrightarrow> length (snd (interfere c)) < length (snd c)"
proof (cases c)
  case (Pair s fs)
  then show "interfere c \<noteq> c \<Longrightarrow> ?thesis" by (cases fs) auto
qed

lemma env_to_quiet: "snd c = [] \<Longrightarrow> env_to c d \<longleftrightarrow> d = c"
  by (cases c; cases d) (auto simp: env_to_def)

text \<open>\<open>env_inv I c\<close>: each interference still to come keeps the invariant \<open>I\<close>.\<close>

definition env_inv :: "('s \<Rightarrow> bool) \<Rightarrow> 's conc \<Rightarrow> bool" where
  "env_inv I c \<longleftrightarrow> (\<forall>f \<in> set (snd c). \<forall>s. I s \<longrightarrow> I (f s))"

lemma env_inv_quiet [simp]: "env_inv I (s, [])"
  by (simp add: env_inv_def)

lemma run_env_inv: "\<forall>f \<in> set fs. \<forall>s. I s \<longrightarrow> I (f s) \<Longrightarrow> I s \<Longrightarrow> I (run_env fs s)"
  by (induction fs arbitrary: s) auto

lemma env_to_inv: "env_to c d \<Longrightarrow> env_inv I c \<Longrightarrow> I (fst c) \<Longrightarrow> I (fst d) \<and> env_inv I d"
  by (auto simp: env_to_def env_inv_def intro!: run_env_inv [of _ I])

subsection \<open>Retry loops return\<close>

text \<open>
  Lock-freedom: when every failed attempt has consumed an interference, the loop
  returns, whatever finite interference there is.
\<close>

lemma retry_until_rule:
  assumes body: "\<And>c. P c \<Longrightarrow> returns (body c) (\<lambda>ok c'.
      if ok then Q () c' else P c' \<and> length (snd c') < length (snd c))"
    and pre: "P c"
  shows "returns (retry_until body c) Q"
  using pre
proof (induction "length (snd c)" arbitrary: c rule: less_induct)
  case less
  from body [OF less.prems] obtain ok c' where b: "body c = Some (ok, c')"
    and q: "if ok then Q () c' else P c' \<and> length (snd c') < length (snd c)"
    by (auto simp: returns_ex)
  show ?case
  proof (cases ok)
    case True
    with b q show ?thesis by (simp add: retry_until.simps [of body c])
  next
    case False
    with q have "returns (retry_until body c') Q" by (intro less.hyps) auto
    with b False show ?thesis by (simp add: retry_until.simps [of body c])
  qed
qed

lemma retry_rule:
  assumes body: "\<And>c. P c \<Longrightarrow> returns (body c) (\<lambda>r c'.
      case r of Some a \<Rightarrow> Q a c' | None \<Rightarrow> P c' \<and> length (snd c') < length (snd c))"
    and pre: "P c"
  shows "returns (retry body c) Q"
  using pre
proof (induction "length (snd c)" arbitrary: c rule: less_induct)
  case less
  from body [OF less.prems] obtain r c' where b: "body c = Some (r, c')"
    and q: "case r of Some a \<Rightarrow> Q a c' | None \<Rightarrow> P c' \<and> length (snd c') < length (snd c)"
    by (auto simp: returns_ex)
  show ?case
  proof (cases r)
    case (Some a)
    with b q show ?thesis by (simp add: retry.simps [of body c])
  next
    case None
    with q have "returns (retry body c') Q" by (intro less.hyps) auto
    with b None show ?thesis by (simp add: retry.simps [of body c])
  qed
qed

lemma retry_until_now:
  "returns (body c) (\<lambda>ok c'. ok \<and> Q () c') \<Longrightarrow> returns (retry_until body c) Q"
  by (auto simp: retry_until.simps [of body c] returns_ex)

lemma retry_now:
  "returns (body c) (\<lambda>r c'. \<exists>a. r = Some a \<and> Q a c') \<Longrightarrow> returns (retry body c) Q"
  by (auto simp: retry.simps [of body c] returns_ex)

lemma retry_valid_now:
  "returns (try c) (\<lambda>r c'. o_valid r \<and> Q (o_value r) c') \<Longrightarrow> returns (retry_valid try c) Q"
  by (auto simp: retry_valid_def retry.simps returns_ex)

lemma retry_valid_again:
  "try c = Some (r, d) \<Longrightarrow> \<not> o_valid r \<Longrightarrow> retry_valid try c = retry_valid try d"
  by (simp add: retry_valid_def retry.simps [of _ c])

lemma retry_nonnull_now:
  "returns (try c) (\<lambda>r c'. r \<noteq> NULL \<and> Q r c') \<Longrightarrow> returns (retry_nonnull try c) Q"
  by (auto simp: retry_nonnull_def retry.simps returns_ex)

lemma retry_nonnull_again:
  "try c = Some (NULL, d) \<Longrightarrow> retry_nonnull try c = retry_nonnull try d"
  by (simp add: retry_nonnull_def retry.simps [of _ c])

lemma returns_foreach [wp]:
  "returns (foreach f (x # xs) c) Q = returns (f x c) (\<lambda>_ c. returns (foreach f xs c) Q)"
  by (simp add: wp)

lemma filter_set_length:
  assumes "distinct xs"
  shows "length (filter (\<lambda>y. y \<in> set hs) xs) \<le> length hs"
proof -
  have "length (filter (\<lambda>y. y \<in> set hs) xs) = card (set (filter (\<lambda>y. y \<in> set hs) xs))"
    using assms by (metis distinct_card distinct_filter)
  also have "\<dots> \<le> card (set hs)" by (intro card_mono) auto
  also have "\<dots> \<le> length hs" by (rule card_length)
  finally show ?thesis .
qed

lemma foreach_rule:
  assumes step: "\<And>i c. a \<le> i \<Longrightarrow> i < b \<Longrightarrow> P i c \<Longrightarrow> returns (f i c) (\<lambda>_ c'. P (Suc i) c')"
    and "P a c" "a \<le> b"
  shows "returns (foreach f [a..<b] c) (\<lambda>_ c'. P b c')"
  using assms
proof (induction "b - a" arbitrary: a c)
  case 0
  then show ?case by simp
next
  case (Suc k)
  then have ab: "a < b" by simp
  have ih: "returns (foreach f [Suc a..<b] d) (\<lambda>_ c'. P b c')" if "P (Suc a) d" for d
    by (rule Suc.hyps(1)) (use Suc that in auto)
  have "returns (f a c) (\<lambda>_ c'. P (Suc a) c')" using Suc.prems ab by simp
  then show ?case unfolding upt_conv_Cons [OF ab] returns_foreach
    by (rule returns_mono) (rule ih)
qed

lemma foreach_cong: "(\<And>x. x \<in> set xs \<Longrightarrow> f x = g x) \<Longrightarrow> foreach f xs = foreach g xs"
proof (induction xs)
  case Nil
  show ?case by (simp add: fun_eq_iff)
next
  case (Cons x xs)
  then have eq: "f x = g x" "foreach f xs = foreach g xs" by simp_all
  show ?case by (rule ext) (simp only: foreach.simps eq)
qed

subsection \<open>Linked lists in memory\<close>

text \<open>
  \<open>chain n p xs q\<close>: following the next pointers \<open>n\<close> from \<open>p\<close> visits the nodes \<open>xs\<close>
  and ends at \<open>q\<close>.
\<close>

fun chain :: "(ptr \<Rightarrow> ptr option) \<Rightarrow> ptr \<Rightarrow> ptr list \<Rightarrow> ptr \<Rightarrow> bool" where
  "chain n p [] q = (p = q)"
| "chain n p (x # xs) q = (p = x \<and> x \<noteq> NULL \<and>
     (case n x of None \<Rightarrow> False | Some y \<Rightarrow> chain n y xs q))"

lemma chain_append [simp]:
  "chain n p (xs @ ys) q = (\<exists>r. chain n p xs r \<and> chain n r ys q)"
  by (induction xs arbitrary: p) (auto split: option.splits)

lemma chain_upd [simp]:
  "x \<notin> set xs \<Longrightarrow> chain (n(x := v)) p xs q = chain n p xs q"
  by (induction xs arbitrary: p) (auto split: option.splits)

lemma chain_upd_if [simp]:
  "x \<notin> set xs \<Longrightarrow> chain (\<lambda>a. if a = x then v else n a) p xs q = chain n p xs q"
  using chain_upd [of x xs n v] by (simp add: fun_upd_def)

lemma chain_cong:
  "(\<And>x. x \<in> set xs \<Longrightarrow> n x = m x) \<Longrightarrow> chain n p xs q = chain m p xs q"
  by (induction xs arbitrary: p) (auto split: option.splits)

lemma chain_NULL [simp]: "chain n NULL xs q = (xs = [] \<and> q = NULL)"
  by (cases xs) auto

lemma chain_not_NULL: "chain n p xs q \<Longrightarrow> NULL \<notin> set xs"
  by (induction xs arbitrary: p) (auto split: option.splits)

lemma chain_dom: "chain n p xs q \<Longrightarrow> x \<in> set xs \<Longrightarrow> n x \<noteq> None"
  by (induction xs arbitrary: p) (auto split: option.splits)

lemma chain_unique: "chain n p xs NULL \<Longrightarrow> chain n p ys NULL \<Longrightarrow> xs = ys"
proof (induction xs arbitrary: p ys)
  case Nil
  then show ?case by (cases ys) auto
next
  case (Cons x xs)
  then show ?case by (cases ys) (auto split: option.splits)
qed

lemma chain_distinct: "chain n p xs NULL \<Longrightarrow> distinct xs"
proof (induction xs arbitrary: p)
  case Nil
  then show ?case by simp
next
  case (Cons x xs)
  then obtain y where y: "n x = Some y" "chain n y xs NULL" and x: "x \<noteq> NULL"
    by (auto split: option.splits)
  have "x \<notin> set xs"
  proof
    assume "x \<in> set xs"
    then obtain as bs where xs: "xs = as @ x # bs" by (auto simp: in_set_conv_decomp)
    with y have "chain n x (x # bs) NULL" by (auto split: option.splits)
    with y x xs have "x # bs = x # xs" by (intro chain_unique [of n x]) auto
    with xs show False by simp
  qed
  with y Cons.IH show ?case by auto
qed

lemma chain_nonempty:
  "chain n p xs q \<Longrightarrow> p \<noteq> q \<Longrightarrow> \<exists>y ys. xs = p # ys \<and> n p = Some y \<and> chain n y ys q \<and> p \<noteq> NULL"
  by (cases xs) (auto split: option.splits)

lemma chain_array:
  "(\<And>i. a \<le> i \<Longrightarrow> i < b \<Longrightarrow> n (f i) = Some (f (Suc i)) \<and> f i \<noteq> NULL) \<Longrightarrow> a \<le> b \<Longrightarrow>
   chain n (f a) (map f [a..<b]) (f b)"
proof (induction "b - a" arbitrary: a)
  case 0
  then show ?case by simp
next
  case (Suc k)
  then have "a < b" by simp
  moreover have "chain n (f (Suc a)) (map f [Suc a..<b]) (f b)"
    using Suc by (intro Suc.hyps) auto
  ultimately show ?case using Suc.prems(1) [of a] by (simp add: upt_conv_Cons)
qed

text \<open>
  Nodes that have a next pointer, and the loop that links the nodes of an array before
  anybody else can see them.
\<close>

locale linked_nodes =
  fixes nx :: "ptr \<Rightarrow> ('s, ptr) loc"
  assumes nx_store: "load (nx p) s \<noteq> None \<Longrightarrow>
      load (nx q) (store (nx p) v s) = (if q = p then Some v else load (nx q) s)"
begin

lemma link_loop:
  assumes "inj_on f (set ks)" "distinct ks" "\<And>i. i \<in> set ks \<Longrightarrow> load (nx (f i)) (fst c) \<noteq> None"
    and "I (fst c)" "\<And>p v s. I s \<Longrightarrow> I (store (nx p) v s)"
  shows "returns (foreach (\<lambda>i. pwr (nx (f i)) (g i)) ks c) (\<lambda>_ c'.
    snd c' = snd c \<and> I (fst c') \<and> (\<forall>i \<in> set ks. load (nx (f i)) (fst c') = Some (g i)) \<and>
    (\<forall>p. p \<notin> f ` set ks \<longrightarrow> load (nx p) (fst c') = load (nx p) (fst c)))"
  using assms
proof (induction ks arbitrary: c)
  case Nil
  then show ?case by simp
next
  case (Cons i ks)
  let ?d = "(store (nx (f i)) (g i) (fst c), snd c)"
  have ld: "load (nx (f i)) (fst c) \<noteq> None" using Cons.prems(3) by simp
  have "returns (foreach (\<lambda>i. pwr (nx (f i)) (g i)) ks ?d) (\<lambda>_ c'.
    snd c' = snd ?d \<and> I (fst c') \<and> (\<forall>i \<in> set ks. load (nx (f i)) (fst c') = Some (g i)) \<and>
    (\<forall>p. p \<notin> f ` set ks \<longrightarrow> load (nx p) (fst c') = load (nx p) (fst ?d)))"
    by (rule Cons.IH) (use Cons.prems nx_store [OF ld] in auto)
  then have "returns (foreach (\<lambda>i. pwr (nx (f i)) (g i)) ks ?d) (\<lambda>_ c'.
    snd c' = snd c \<and> I (fst c') \<and> (\<forall>i \<in> set (i # ks). load (nx (f i)) (fst c') = Some (g i)) \<and>
    (\<forall>p. p \<notin> f ` set (i # ks) \<longrightarrow> load (nx p) (fst c') = load (nx p) (fst c)))"
    by (rule returns_mono) (use nx_store [OF ld] Cons.prems(1,2) in auto)
  then show ?case using ld by (simp add: wp)
qed

end

end
