(* ===== verification/Atomic.thy ===== *)
theory Atomic
  imports Prelude
begin

unbundle bit_operations_syntax

section \<open>Atomic operations (\<open>src/arch/ia32/atomic.c\<close>)\<close>

text \<open>
  The ia32 atomic instructions, the bitmap operations built from them and the backoff
  delay. A compare-and-set is one access to its location: the interference of other
  executors can come before it, never inside it. The locale \<open>shared_cell\<close> proves once
  that a compare-and-set retry loop is linearizable and lock-free; every counter of the
  runtime interprets it.
\<close>

subsection \<open>Compare-and-set, fetch-and-add\<close>

definition atomic_compare_and_set_uint ::
  "u32 \<Rightarrow> u32 \<Rightarrow> ('s, u32) loc \<Rightarrow> 's conc \<Rightarrow> (bool \<times> 's conc) option" where
  "atomic_compare_and_set_uint expect val p c = cas expect val p c"

definition atomic_compare_and_set_uint64 ::
  "u64 \<Rightarrow> u64 \<Rightarrow> ('s, u64) loc \<Rightarrow> 's conc \<Rightarrow> (bool \<times> 's conc) option" where
  "atomic_compare_and_set_uint64 expect val p c = cas expect val p c"

definition atomic_compare_and_set_ptr ::
  "ptr \<Rightarrow> ptr \<Rightarrow> ('s, ptr) loc \<Rightarrow> 's conc \<Rightarrow> (bool \<times> 's conc) option" where
  "atomic_compare_and_set_ptr expect val p c = cas expect val p c"

definition atomic_read_uint64 :: "('s, u64) loc \<Rightarrow> 's conc \<Rightarrow> (u64 \<times> 's conc) option" where
  "atomic_read_uint64 p c = rd p c"

text \<open>\<open>lock xadd\<close>: \<open>out\<close> is the old value, and the function returns \<open>out + 1\<close>.\<close>

definition atomic_fetch_inc_uint :: "('s, u32) loc \<Rightarrow> 's conc \<Rightarrow> (u32 \<times> 's conc) option" where
  "atomic_fetch_inc_uint p c = (let c' = interfere c in
     case load p (fst c') of None \<Rightarrow> None
     | Some out \<Rightarrow> Some (out + 1, (store p (out + 1) (fst c'), snd c')))"

definition atomic_fetch_dec_uint :: "('s, u32) loc \<Rightarrow> 's conc \<Rightarrow> (u32 \<times> 's conc) option" where
  "atomic_fetch_dec_uint p c = (let c' = interfere c in
     case load p (fst c') of None \<Rightarrow> None
     | Some out \<Rightarrow> Some (out - 1, (store p (out - 1) (fst c'), snd c')))"

definition atomic_increment_uint :: "('s, u32) loc \<Rightarrow> 's conc \<Rightarrow> (unit \<times> 's conc) option" where
  "atomic_increment_uint p c = (let c' = interfere c in
     case load p (fst c') of None \<Rightarrow> None
     | Some v \<Rightarrow> Some ((), (store p (v + 1) (fst c'), snd c')))"

definition atomic_decrement_uint :: "('s, u32) loc \<Rightarrow> 's conc \<Rightarrow> (unit \<times> 's conc) option" where
  "atomic_decrement_uint p c = (let c' = interfere c in
     case load p (fst c') of None \<Rightarrow> None
     | Some v \<Rightarrow> Some ((), (store p (v - 1) (fst c'), snd c')))"

lemmas atomic_cas_defs [wp] =
  atomic_compare_and_set_uint_def atomic_compare_and_set_uint64_def
  atomic_compare_and_set_ptr_def atomic_read_uint64_def

lemma returns_atomic_increment [wp]:
  "returns (atomic_increment_uint p c) Q =
     (\<exists>v. load p (fst (interfere c)) = Some v \<and>
          Q () (store p (v + 1) (fst (interfere c)), snd (interfere c)))"
  by (auto simp: atomic_increment_uint_def Let_def split: option.splits)

lemma returns_atomic_decrement [wp]:
  "returns (atomic_decrement_uint p c) Q =
     (\<exists>v. load p (fst (interfere c)) = Some v \<and>
          Q () (store p (v - 1) (fst (interfere c)), snd (interfere c)))"
  by (auto simp: atomic_decrement_uint_def Let_def split: option.splits)

lemma returns_atomic_fetch_inc [wp]:
  "returns (atomic_fetch_inc_uint p c) Q =
     (\<exists>v. load p (fst (interfere c)) = Some v \<and>
          Q (v + 1) (store p (v + 1) (fst (interfere c)), snd (interfere c)))"
  by (auto simp: atomic_fetch_inc_uint_def Let_def split: option.splits)

subsection \<open>Bitmaps\<close>

text \<open>
  \<open>bsf\<close> finds the lowest set bit; on 0 the destination register keeps whatever the
  uninitialised \<open>out\<close> had, which is the parameter \<open>junk\<close>.
\<close>

definition bsf :: "u32 \<Rightarrow> u32 \<Rightarrow> u32" where
  "bsf junk val =
     (case filter (bit val) [0..<32] of [] \<Rightarrow> junk | i # _ \<Rightarrow> of_nat i)"

definition atomic_bitmap_alloc ::
  "u32 \<Rightarrow> ('s, u32) loc \<Rightarrow> u32 \<Rightarrow> bool \<Rightarrow> 's conc \<Rightarrow> (int \<times> 's conc) option" where
  "atomic_bitmap_alloc junk bitmap bits clear c = do {
     (val, c) \<leftarrow> rd bitmap c;
     let bt = bsf junk val;
     if bt \<noteq> 0 then
       (if 32 \<le> bt then None
        else do {
          let msk = push_bit (unat bt) (1 :: u32);
          let newvalue = val OR msk;
          (succeed, c) \<leftarrow> cas val newvalue bitmap c;
          Some (if succeed then uint bt else - 2, c) })
     else Some (- 1, c) }"

definition try_atomic_bitmap_free ::
  "('s, u32) loc \<Rightarrow> u32 \<Rightarrow> 's conc \<Rightarrow> (bool \<times> 's conc) option" where
  "try_atomic_bitmap_free bitmap msk c = do {
     (val, c) \<leftarrow> rd bitmap c;
     cas val (val AND NOT msk) bitmap c }"

text \<open>
  The bitmap is an array of words: \<open>bitmap i\<close> is the location of \<open>bitmap[i]\<close>. A shift
  by 32 or more has no defined result.
\<close>

definition atomic_bitmap_free ::
  "(u32 \<Rightarrow> ('s, u32) loc) \<Rightarrow> u32 \<Rightarrow> bool \<Rightarrow> 's conc \<Rightarrow> (unit \<times> 's conc) option" where
  "atomic_bitmap_free bitmap bt clear c =
     (let byte_index = bt div 4
      in if 32 \<le> bt then None
         else retry_until (try_atomic_bitmap_free (bitmap byte_index)
                (push_bit (unat bt) 1)) c)"

subsection \<open>Backoff\<close>

text \<open>
  The number of iterations of the spin loop of \<open>backoff_delay\<close>, 0 where there is only a
  \<open>pause\<close>. \<open>rnd\<close> is the value of \<open>random()\<close>.
\<close>

definition backoff_delay_spin :: "u32 \<Rightarrow> u32 \<Rightarrow> u32" where
  "backoff_delay_spin rnd n =
     (if n < 8 then 0
      else if n < 64 then
        (let e = n div 8
         in push_bit (unat (e + ((n AND 7) XOR 5))) 1)
      else
        (let e = n div 8;
             spin = push_bit (unat (if e < 13 then e else 13)) 1;
             rand = rnd AND (drop_bit 1 spin - 1)
         in spin + rand))"

text \<open>The loop \<open>sub $1, %0; jnz\<close>: it decrements first, and stops at 0.\<close>

fun spin_loop :: "nat \<Rightarrow> u32 \<Rightarrow> nat option" where
  "spin_loop 0 x = None"
| "spin_loop (Suc fuel) x =
     (if x - 1 = 0 then Some 1 else map_option Suc (spin_loop fuel (x - 1)))"

subsection \<open>Retry loops over one cell\<close>

definition modify :: "('v \<Rightarrow> 'v) \<Rightarrow> ('s, 'v) loc \<Rightarrow> 's \<Rightarrow> 's" where
  "modify f l s = (case load l s of None \<Rightarrow> s | Some v \<Rightarrow> store l (f v) s)"

text \<open>
  \<open>atomically op c c'\<close>: between \<open>c\<close> and \<open>c'\<close> the routine did exactly \<open>op\<close>, at one
  moment, with the other executors' actions before it.
\<close>

definition atomically :: "('s \<Rightarrow> 's) \<Rightarrow> 's conc \<Rightarrow> 's conc \<Rightarrow> bool" where
  "atomically op c c' \<longleftrightarrow> (\<exists>d. env_to c d \<and> c' = (op (fst d), snd d))"

definition modify_attempt ::
  "('v \<Rightarrow> 'v) \<Rightarrow> ('s, 'v) loc \<Rightarrow> 's conc \<Rightarrow> (bool \<times> 's conc) option" where
  "modify_attempt f l c = do { (old, c) \<leftarrow> rd l c; cas old (f old) l c }"

lemma atomicallyI: "env_to c d \<Longrightarrow> c' = (op (fst d), snd d) \<Longrightarrow> atomically op c c'"
  unfolding atomically_def by blast

lemma atomically_quiet [simp]: "atomically op (s, []) c' \<longleftrightarrow> c' = (op s, [])"
  by (auto simp: atomically_def env_to_quiet)

lemma atomically_env: "env_to c d \<Longrightarrow> atomically op d e \<Longrightarrow> atomically op c e"
  unfolding atomically_def by (blast intro: env_to_trans)

lemma atomically_weaken: "atomically op c c' \<Longrightarrow> \<exists>s. fst c' = op s"
  by (auto simp: atomically_def)

locale shared_cell =
  fixes l :: "('s, 'v) loc"
  assumes load_some: "load l s \<noteq> None"
    and load_store: "load l (store l v s) = Some v"
begin

lemma modify_loop:
  "returns (retry_until (modify_attempt f l) c) (\<lambda>_ c'. atomically (modify f l) c c')"
proof (rule retry_until_rule [where P = "env_to c"])
  fix d assume d: "env_to c d"
  let ?d1 = "interfere d" and ?d2 = "interfere (interfere d)"
  obtain v1 where v1: "load l (fst ?d1) = Some v1" using load_some [of "fst ?d1"] by auto
  obtain v2 where v2: "load l (fst ?d2) = Some v2" using load_some [of "fst ?d2"] by auto
  have to2: "env_to c ?d2" using d env_to_interfere env_to_trans by blast
  show "returns (modify_attempt f l d) (\<lambda>ok c'. if ok
      then atomically (modify f l) c c'
      else env_to c c' \<and> length (snd c') < length (snd d))"
  proof (cases "v2 = v1")
    case True
    then show ?thesis
      using v1 v2 atomicallyI [OF to2, of _ "modify f l"]
      by (auto simp: modify_attempt_def wp modify_def)
  next
    case False
    then have "?d2 \<noteq> ?d1" using v1 v2 by auto
    then have "length (snd ?d2) < length (snd d)"
      using interfere_shorter [of ?d1] by (simp add: length_interfere)
    then show ?thesis using v1 v2 to2 False by (auto simp: modify_attempt_def wp)
  qed
qed (rule env_to_refl)

lemma modify_twice:
  "modify g l (modify f l s) = store l (g (f (the (load l s)))) (store l (f (the (load l s))) s)"
  using load_some [of s] by (auto simp: modify_def load_store split: option.splits)

end

subsection \<open>Lemmas on bitmaps and delays\<close>

lemma bsf_bit: "val \<noteq> 0 \<Longrightarrow> unat (bsf junk val) < 32 \<and> bit val (unat (bsf junk val))"
proof -
  assume "val \<noteq> 0"
  then obtain k where k: "bit val k" using bit_eq_iff [of val 0] by auto
  then have "k < 32" using bit_imp_le_length by fastforce
  with k have "filter (bit val) [0..<32] \<noteq> []" by (auto simp: filter_empty_conv)
  then obtain i js where i: "filter (bit val) [0..<32] = i # js" by (cases "filter (bit val) [0..<32]") auto
  then have "i \<in> set (filter (bit val) [0..<32])" by simp
  then have "i < 32" "bit val i" by auto
  with i show ?thesis by (simp add: bsf_def unat_of_nat)
qed

lemma or_set_bit: "bit (v :: u32) n \<Longrightarrow> v OR push_bit n 1 = v"
  by (rule bit_word_eqI) (auto simp: bit_simps)

lemma spin_loop_unat: "0 < unat x \<Longrightarrow> unat x \<le> fuel \<Longrightarrow> spin_loop fuel x = Some (unat x)"
proof (induction fuel arbitrary: x)
  case 0
  then show ?case by simp
next
  case (Suc fuel)
  then have x: "x \<noteq> 0" by auto
  then have u: "unat (x - 1) = unat x - 1" by (simp add: unat_minus_one)
  show ?case
  proof (cases "x - 1 = 0")
    case True
    then have "unat x = 1" using u Suc.prems by simp
    then show ?thesis using True by simp
  next
    case False
    then have "0 < unat (x - 1)" by (simp add: unat_gt_0)
    then have "spin_loop fuel (x - 1) = Some (unat (x - 1))"
      using Suc u by (intro Suc.IH) auto
    then show ?thesis using False u Suc.prems by simp
  qed
qed

lemma le_7_cases: "(x :: u32) \<le> 7 \<Longrightarrow> x = 0 \<or> x = 1 \<or> x = 2 \<or> x = 3 \<or> x = 4 \<or> x = 5 \<or> x = 6 \<or> x = 7"
proof -
  assume "x \<le> 7"
  then have "unat x \<le> 7" by (simp add: word_le_nat_alt)
  then have "unat x = 0 \<or> unat x = 1 \<or> unat x = 2 \<or> unat x = 3 \<or> unat x = 4 \<or> unat x = 5 \<or>
      unat x = 6 \<or> unat x = 7" by arith
  moreover have "x = of_nat k" if "unat x = k" for k using that by auto
  ultimately show ?thesis by (elim disjE) fastforce+
qed

lemma and_7_xor_5: "((n :: u32) AND 7) XOR 5 \<le> 7"
  using le_7_cases [OF word_and_le1 [of n 7]] by (elim disjE) simp_all

lemma push_bit_1_unat: "k < 32 \<Longrightarrow> unat (push_bit k 1 :: u32) = 2 ^ k"
proof -
  assume "k < 32"
  then have "2 ^ k < (2 :: nat) ^ 32" by (intro power_strict_increasing) auto
  then show ?thesis
    by (simp only: unsigned_push_bit_eq) (simp add: take_bit_nat_def push_bit_eq_mult)
qed

lemma unat_drop_bit_1: "unat (drop_bit 1 w) = unat w div 2" for w :: u32
proof -
  have "drop_bit 1 w = w div 2" by (simp only: drop_bit_eq_div power_one_right)
  then show ?thesis by (simp only: unat_div) simp
qed

lemma bound_exp: "k \<le> b \<Longrightarrow> b < 32 \<Longrightarrow>
  0 < unat (push_bit k 1 :: u32) \<and> unat (push_bit k 1 :: u32) \<le> 2 ^ b"
  by (simp only: push_bit_1_unat) (simp add: power_increasing)

lemma backoff_small:
  assumes "8 \<le> n" "n < 64"
  shows "0 < unat (backoff_delay_spin rnd n) \<and> unat (backoff_delay_spin rnd n) \<le> 2 ^ 14"
proof -
  let ?e = "n div 8" and ?x = "(n AND 7) XOR 5"
  have "unat ?e \<le> 7" using assms by (simp add: unat_div word_less_nat_alt)
  moreover have "unat ?x \<le> 7" using and_7_xor_5 [of n] by (simp add: word_le_nat_alt)
  ultimately have "unat (?e + ?x) \<le> 14" by (simp add: unat_word_ariths)
  from bound_exp [OF this] show ?thesis using assms
    by (simp add: backoff_delay_spin_def Let_def not_less [symmetric])
qed

lemma backoff_large:
  assumes "64 \<le> n"
  shows "0 < unat (backoff_delay_spin rnd n) \<and> unat (backoff_delay_spin rnd n) \<le> 2 ^ 14"
proof -
  let ?e = "if n div 8 < 13 then n div 8 else 13 :: u32"
  let ?spin = "push_bit (unat ?e) 1 :: u32"
  have e: "unat ?e \<le> 13" by (auto simp: word_less_nat_alt)
  have e8: "8 \<le> unat ?e" using assms by (auto simp: unat_div word_le_nat_alt)
  have spin: "unat ?spin = 2 ^ unat ?e" using e by (intro push_bit_1_unat) simp
  then have bounds: "unat ?spin \<le> 2 ^ 13" "2 ^ 8 \<le> unat ?spin"
    using e e8 by (metis one_le_numeral power_increasing)+
  have "unat (drop_bit 1 ?spin) = unat ?spin div 2"
    by (rule unat_drop_bit_1)
  then have "unat (drop_bit 1 ?spin - 1) \<le> 2 ^ 12"
    using bounds by (simp add: unat_sub word_le_nat_alt)
  then have "unat (rnd AND (drop_bit 1 ?spin - 1)) \<le> 2 ^ 12"
    using word_and_le1 [of rnd "drop_bit 1 ?spin - 1"] by (simp add: word_le_nat_alt)
  then have "unat (?spin + (rnd AND (drop_bit 1 ?spin - 1))) \<le> 2 ^ 14 \<and>
      0 < unat (?spin + (rnd AND (drop_bit 1 ?spin - 1)))"
    using bounds by (simp add: unat_word_ariths)
  then show ?thesis using assms
    by (simp add: backoff_delay_spin_def Let_def word_le_nat_alt word_less_nat_alt)
qed

subsection \<open>Properties\<close>

text \<open>
  A call of \<open>backoff_delay\<close> only pauses for the first 7 attempts and
  otherwise spins between 1 and \<open>2 ^ 14\<close> times, whatever \<open>random()\<close> returns; the spin
  loop, which decrements before it tests, ends after exactly that many rounds.
\<close>

theorem backoff_delay_bounded:
  "if n < 8 then backoff_delay_spin rnd n = 0
   else 0 < unat (backoff_delay_spin rnd n) \<and> unat (backoff_delay_spin rnd n) \<le> 2 ^ 14 \<and>
     spin_loop (2 ^ 14) (backoff_delay_spin rnd n) = Some (unat (backoff_delay_spin rnd n))"
proof (cases "n < 8")
  case True
  then show ?thesis by (simp add: backoff_delay_spin_def)
next
  case False
  then have "0 < unat (backoff_delay_spin rnd n) \<and> unat (backoff_delay_spin rnd n) \<le> 2 ^ 14"
    using backoff_small [of n rnd] backoff_large [of n rnd] by (cases "n < 64") auto
  then show ?thesis using False spin_loop_unat by auto
qed

lemma bsf_zero_iff: "v \<noteq> 0 \<Longrightarrow> bsf junk v = 0 \<longleftrightarrow> bit v 0"
proof
  assume "v \<noteq> 0" "bsf junk v = 0"
  then show "bit v 0" using bsf_bit [of v junk] by auto
next
  assume "bit v 0"
  then show "bsf junk v = 0" by (simp add: bsf_def upt_rec [of 0 32])
qed

lemma bsf_lowest:
  assumes "i < unat (bsf junk v)" "v \<noteq> 0"
  shows "\<not> bit v i"
proof
  assume b: "bit v i"
  let ?xs = "filter (bit v) [0..<32]"
  have s: "sorted ?xs" by (rule sorted_wrt_filter) simp
  have "unat (bsf junk v) < 32" using bsf_bit [OF assms(2)] by blast
  then have i: "i \<in> set ?xs" using b assms(1) by simp
  then obtain j js where j: "?xs = j # js" by (cases ?xs) auto
  then have "j \<le> i" using s i by auto
  moreover have "j < 32" using j by (metis atLeastLessThan_iff filter_is_subset list.set_intros(1) set_upt subsetD)
  ultimately show False using assms(1) j by (simp add: bsf_def unat_of_nat)
qed

text \<open>
  C40 [atomic_bitmap_alloc]. \<open>atomic_bitmap_alloc\<close> looks for a set bit and sets it again. On a word
  that is not zero, whatever the other executors and the uninitialised register of \<open>bsf\<close> do, it
  never changes the word: it returns the lowest set bit, or -2 when the word has changed since it was read, or -1
  when that bit is bit 0. Only on zero does it claim a bit, and there the bit is what the register
  happened to hold: bit 0 counts as exhausted, and a value of 32 or more has no defined result.
\<close>

theorem atomic_bitmap_alloc_takes_set_bit:
  defines "seen c \<equiv> interfere c" and "swap c \<equiv> interfere (interfere c)"
  assumes v: "load l (fst (seen c)) = Some v" and w: "load l (fst (swap c)) = Some w"
  shows "atomic_bitmap_alloc junk l bits clear c =
     (if v = 0 then
        if junk = 0 then Some (- 1, seen c)
        else if 32 \<le> junk then None
        else if w = 0 then Some (uint junk, (store l (push_bit (unat junk) 1) (fst (swap c)), snd (swap c)))
        else Some (- 2, swap c)
      else if bit v 0 then Some (- 1, seen c)
      else if w = v then Some (uint (bsf junk v), (store l v (fst (swap c)), snd (swap c)))
      else Some (- 2, swap c)) \<and>
    (v \<noteq> 0 \<longrightarrow> bit v (unat (bsf junk v)) \<and> (\<forall>i < unat (bsf junk v). \<not> bit v i))"
proof -
  have b: "v \<noteq> 0 \<Longrightarrow> \<not> 32 \<le> bsf junk v" "v \<noteq> 0 \<Longrightarrow> v OR push_bit (unat (bsf junk v)) 1 = v"
    using bsf_bit [of v junk] or_set_bit by (auto simp: word_le_nat_alt)
  have z: "bsf junk 0 = junk" by (simp add: bsf_def)
  have "v \<noteq> 0 \<Longrightarrow> bit v (unat (bsf junk v)) \<and> (\<forall>i < unat (bsf junk v). \<not> bit v i)"
    using bsf_bit [of v junk] bsf_lowest [of _ junk v] by blast
  then show ?thesis
    using v w b z bsf_zero_iff [of v junk]
    by (auto simp: assms(1,2) atomic_bitmap_alloc_def rd_def cas_def Let_def)
qed

lemma atomic_bitmap_alloc_witness:
  "atomic_bitmap_alloc 7 (Loc Some (\<lambda>v _. v)) 32 True (0, [\<lambda>_. 12, id]) = Some (2, (12 :: u32, []))"
  using atomic_bitmap_alloc_takes_set_bit [of "Loc Some (\<lambda>v _. v)" "(0, [\<lambda>_. 12, id])" 12 12 7 32 True]
  by (simp add: bsf_def upt_rec)

end
