(* ===== verification/Stack.thy ===== *)
theory Stack
  imports Atomic
begin

section \<open>The lock-free stack interface\<close>

text \<open>
  Free lists all over the runtime are Treiber stacks: a head pointer changed by
  compare-and-set and a next pointer in each node (slice descriptors, malloc descriptors,
  queue nodes, arrays of the collector, GC slices). This theory holds the contract, the
  two attempts every such stack makes, and the theorems of the contract, proved once in
  the locale \<open>lf_stack\<close>. The components interpret it on their own locations.
\<close>

definition stack_is :: "('s, ptr) loc \<Rightarrow> (ptr \<Rightarrow> ('s, ptr) loc) \<Rightarrow> 's \<Rightarrow> ptr list \<Rightarrow> bool" where
  "stack_is hp nx s xs \<longleftrightarrow> (case load hp s of None \<Rightarrow> False
     | Some h \<Rightarrow> chain (\<lambda>p. load (nx p) s) h xs NULL)"

lemma stack_is_distinct: "stack_is hp nx s xs \<Longrightarrow> distinct xs \<and> NULL \<notin> set xs"
  by (auto simp: stack_is_def split: option.splits dest: chain_distinct chain_not_NULL)

text \<open>\<open>old = hp; node->next = old; CAS(old, node, &hp)\<close>.\<close>

definition push_attempt ::
  "('s, ptr) loc \<Rightarrow> (ptr \<Rightarrow> ('s, ptr) loc) \<Rightarrow> ptr \<Rightarrow> 's conc \<Rightarrow> (bool \<times> 's conc) option" where
  "push_attempt hp nx node c = do {
     (old, c) \<leftarrow> rd hp c;
     (_, c) \<leftarrow> pwr (nx node) old c;
     cas old node hp c }"

text \<open>\<open>old = hp; if(NULL != old) ok = CAS(old, old->next, &hp)\<close>.\<close>

definition pop_attempt ::
  "('s, ptr) loc \<Rightarrow> (ptr \<Rightarrow> ('s, ptr) loc) \<Rightarrow> 's conc \<Rightarrow> (ptr option \<times> 's conc) option" where
  "pop_attempt hp nx c = do {
     (old, c) \<leftarrow> rd hp c;
     if old \<noteq> NULL then do {
       (next, c) \<leftarrow> rd (nx old) c;
       (ok, c) \<leftarrow> cas old next hp c;
       Some (if ok then Some old else None, c) }
     else Some (Some NULL, c) }"

text \<open>
  What the other executors must keep for a push: the stack stays a stack, and the node
  being pushed, which they do not have, stays off it and is not written.
\<close>

definition push_rely ::
  "('s, ptr) loc \<Rightarrow> (ptr \<Rightarrow> ('s, ptr) loc) \<Rightarrow> ptr \<Rightarrow> 's \<Rightarrow> 's \<Rightarrow> bool" where
  "push_rely hp nx node s t \<longleftrightarrow> load (nx node) t = load (nx node) s \<and>
     (\<forall>xs. stack_is hp nx s xs \<and> node \<notin> set xs \<longrightarrow>
        (\<exists>ys. stack_is hp nx t ys \<and> node \<notin> set ys))"

text \<open>
  What they must keep for a pop: the stack stays a stack, no node that has left it comes
  back (the absence of the ABA sequence), and the next pointer of a node that stays on
  the stack does not change.
\<close>

definition pop_rely ::
  "('s, ptr) loc \<Rightarrow> (ptr \<Rightarrow> ('s, ptr) loc) \<Rightarrow> 's \<Rightarrow> 's \<Rightarrow> bool" where
  "pop_rely hp nx s t \<longleftrightarrow> (\<forall>xs. stack_is hp nx s xs \<longrightarrow>
     (\<exists>ys. stack_is hp nx t ys \<and>
       (\<forall>p. load (nx p) s \<noteq> None \<longrightarrow> load (nx p) t \<noteq> None \<and>
          (p \<in> set ys \<longrightarrow> p \<in> set xs \<and> load (nx p) t = load (nx p) s))))"

definition env_rely :: "('s \<Rightarrow> 's \<Rightarrow> bool) \<Rightarrow> 's conc \<Rightarrow> bool" where
  "env_rely R c \<longleftrightarrow> (\<forall>f \<in> set (snd c). \<forall>s. R s (f s))"

lemma env_rely_quiet [simp]: "env_rely R (s, [])"
  by (simp add: env_rely_def)

lemma env_rely_to: "env_to c d \<Longrightarrow> env_rely R c \<Longrightarrow> env_rely R d"
  by (auto simp: env_to_def env_rely_def)

lemma env_rely_interfere:
  "env_rely R c \<Longrightarrow> interfere c = c \<or> R (fst c) (fst (interfere c))"
  by (cases c; cases "snd c") (auto simp: env_rely_def)

lemma env_rely_step:
  "env_rely R c \<Longrightarrow> (\<And>s. R s s) \<Longrightarrow> R (fst c) (fst (interfere c))"
  using env_rely_interfere [of R c] by auto

lemma env_rely_cong: "env_rely R c \<Longrightarrow> snd d = snd c \<Longrightarrow> env_rely R d"
  by (simp add: env_rely_def)

lemma push_rely_refl: "push_rely hp nx node s s"
  by (auto simp: push_rely_def)

lemma pop_rely_refl: "pop_rely hp nx s s"
  by (auto simp: pop_rely_def)

lemma push_rely_off:
  "push_rely hp nx node s t \<Longrightarrow> \<exists>xs. stack_is hp nx s xs \<and> node \<notin> set xs \<Longrightarrow>
    \<exists>ys. stack_is hp nx t ys \<and> node \<notin> set ys"
  unfolding push_rely_def by blast

lemma push_rely_nx: "push_rely hp nx node s t \<Longrightarrow> load (nx node) t = load (nx node) s"
  unfolding push_rely_def by blast

lemma pop_rely_stack:
  "pop_rely hp nx s t \<Longrightarrow> \<exists>xs. stack_is hp nx s xs \<Longrightarrow> \<exists>ys. stack_is hp nx t ys"
  unfolding pop_rely_def by blast

lemma env_inv_interfere:
  "env_inv I c \<Longrightarrow> I (fst c) \<Longrightarrow> I (fst (interfere c)) \<and> env_inv I (interfere c)"
  using env_to_inv env_to_interfere by blast

lemma env_inv_same: "env_inv I c \<Longrightarrow> snd d = snd c \<Longrightarrow> env_inv I d"
  by (simp add: env_inv_def)

locale lf_stack = linked_nodes nx for nx :: "ptr \<Rightarrow> ('s, ptr) loc" +
  fixes hp :: "('s, ptr) loc"
  assumes hp_load: "load hp s \<noteq> None"
    and hp_store: "load hp (store hp v s) = Some v"
    and nx_hp: "load (nx p) (store hp v s) = load (nx p) s"
    and hp_nx: "load hp (store (nx p) v s) = load hp s"
begin

lemma stack_unique: "stack_is hp nx s xs \<Longrightarrow> stack_is hp nx s ys \<Longrightarrow> xs = ys"
  by (auto simp: stack_is_def split: option.splits dest: chain_unique)

lemma stack_push:
  assumes "stack_is hp nx s xs" "node \<notin> set xs" "node \<noteq> NULL"
    "load hp s = Some h" "load (nx node) s = Some h"
  shows "stack_is hp nx (store hp node s) (node # xs)"
  using assms by (auto simp: stack_is_def hp_store nx_hp)

lemma stack_nx_off:
  assumes "stack_is hp nx s xs" "node \<notin> set xs" "load (nx node) s \<noteq> None"
  shows "stack_is hp nx (store (nx node) v s) xs"
proof -
  have "chain (\<lambda>p. load (nx p) (store (nx node) v s)) h xs NULL = chain (\<lambda>p. load (nx p) s) h xs NULL"
    for h using assms by (intro chain_cong) (auto simp: nx_store)
  with assms show ?thesis by (auto simp: stack_is_def hp_nx split: option.splits)
qed

lemma stack_pop:
  assumes "stack_is hp nx s xs" "load hp s = Some p" "p \<noteq> NULL" "load (nx p) s = Some q"
  shows "\<exists>ys. xs = p # ys \<and> stack_is hp nx (store hp q s) ys"
  using assms by (cases xs) (auto simp: stack_is_def hp_store nx_hp split: option.splits)

lemma push_quiet:
  "load hp s = Some h \<Longrightarrow> load (nx node) s \<noteq> None \<Longrightarrow>
   retry_until (push_attempt hp nx node) (s, []) =
     Some ((), (store hp node (store (nx node) h s), []))"
  by (auto simp: retry_until.simps push_attempt_def rd_def pwr_def cas_def Let_def hp_nx)

lemma push_quiet_stack:
  assumes "stack_is hp nx s xs" "node \<notin> set xs" "load (nx node) s \<noteq> None" "node \<noteq> NULL"
    "load hp s = Some h"
  shows "stack_is hp nx (store hp node (store (nx node) h s)) (node # xs)"
  using assms by (intro stack_push stack_nx_off) (auto simp: hp_nx nx_store)

lemma pop_quiet_empty:
  "stack_is hp nx s [] \<Longrightarrow> retry (pop_attempt hp nx) (s, []) = Some (NULL, (s, []))"
  by (auto simp: retry.simps pop_attempt_def rd_def Let_def stack_is_def split: option.splits)

lemma pop_quiet:
  assumes "stack_is hp nx s (p # xs)"
  shows "\<exists>q. load (nx p) s = Some q \<and> stack_is hp nx (store hp q s) xs \<and>
    retry (pop_attempt hp nx) (s, []) = Some (p, (store hp q s, []))"
proof -
  from assms obtain q where p: "load hp s = Some p" "p \<noteq> NULL" "load (nx p) s = Some q"
    by (auto simp: stack_is_def split: option.splits)
  with stack_pop [OF assms] show ?thesis
    by (auto simp: retry.simps pop_attempt_def rd_def cas_def Let_def)
qed

text \<open>A whole segment of private nodes, linked from \<open>h\<close> to its last node \<open>t\<close>, pushed at once.\<close>

lemma push_segment:
  assumes stk: "stack_is hp nx s xs" and seg: "chain (\<lambda>p. load (nx p) s) h ys t" "t \<noteq> NULL"
    and off: "set (ys @ [t]) \<inter> set xs = {}" "t \<notin> set ys" "load (nx t) s \<noteq> None"
    and old: "load hp s = Some old"
  shows "stack_is hp nx (store hp h (store (nx t) old s)) (ys @ t # xs)"
proof -
  let ?n = "\<lambda>p. load (nx p) (store hp h (store (nx t) old s))"
  have n: "?n = (\<lambda>p. if p = t then Some old else load (nx p) s)"
    using nx_store [OF off(3)] by (simp add: nx_hp fun_eq_iff)
  have "chain ?n h ys t = chain (\<lambda>p. load (nx p) s) h ys t"
    unfolding n by (rule chain_cong) (use off in auto)
  moreover have "chain ?n old xs NULL = chain (\<lambda>p. load (nx p) s) old xs NULL"
    unfolding n by (rule chain_cong) (use off in auto)
  moreover have "chain (\<lambda>p. load (nx p) s) old xs NULL"
    using stk old by (simp add: stack_is_def)
  ultimately have "chain ?n h (ys @ t # xs) NULL"
    using seg n by simp
  then show ?thesis by (simp add: stack_is_def hp_store)
qed

text \<open>A push ends with the node on top of the stack it found at that moment.\<close>

lemma push_loop:
  assumes off: "stack_is hp nx (fst c) xs0" "node \<notin> set xs0" "load (nx node) (fst c) \<noteq> None"
    and rely: "env_rely (push_rely hp nx node) c" and node: "node \<noteq> NULL"
  shows "returns (retry_until (push_attempt hp nx node) c) (\<lambda>_ c'.
    \<exists>s xs. stack_is hp nx s xs \<and> node \<notin> set xs \<and> fst c' = store hp node s \<and>
      stack_is hp nx (fst c') (node # xs))"
    (is "returns _ ?Q")
proof (rule retry_until_rule [where P = "\<lambda>c. (\<exists>xs. stack_is hp nx (fst c) xs \<and> node \<notin> set xs) \<and>
      load (nx node) (fst c) \<noteq> None \<and> env_rely (push_rely hp nx node) c"])
  fix c :: "'s conc"
  let ?off = "\<lambda>s. \<exists>xs. stack_is hp nx s xs \<and> node \<notin> set xs"
  let ?P = "\<lambda>c. ?off (fst c) \<and> load (nx node) (fst c) \<noteq> None \<and> env_rely (push_rely hp nx node) c"
  assume c: "?P c"
  have step: "?P (interfere d) \<and> load (nx node) (fst (interfere d)) = load (nx node) (fst d)"
    if "?P d" for d
  proof -
    from that have r: "env_rely (push_rely hp nx node) d" by blast
    have s: "push_rely hp nx node (fst d) (fst (interfere d))"
      by (rule env_rely_step [OF r push_rely_refl])
    from that have o: "?off (fst d)" by blast
    have "?off (fst (interfere d))" by (rule push_rely_off [OF s o])
    moreover note push_rely_nx [OF s] env_rely_to [OF env_to_interfere r]
    moreover from that have "load (nx node) (fst d) \<noteq> None" by blast
    ultimately show ?thesis by presburger
  qed
  let ?c1 = "interfere c"
  have c1: "?P ?c1" using step [OF c] by blast
  obtain old where old: "load hp (fst ?c1) = Some old" using hp_load [of "fst ?c1"] by auto
  let ?c2 = "(store (nx node) old (fst ?c1), snd ?c1)"
  from c1 obtain xs1 where xs1: "stack_is hp nx (fst ?c1) xs1" "node \<notin> set xs1" by blast
  have c2: "?P ?c2"
    using c1 xs1 stack_nx_off [OF xs1, of old] by (auto simp: nx_store env_rely_def)
  let ?c3 = "interfere ?c2"
  have c3: "?P ?c3" "load (nx node) (fst ?c3) = Some old"
    using step [OF c2] c1 by (auto simp: nx_store)
  obtain v where v: "load hp (fst ?c3) = Some v" using hp_load [of "fst ?c3"] by auto
  have quiet: "?c3 = ?c2 \<or> length (snd ?c3) < length (snd c)"
  proof (cases "?c3 = ?c2")
    case False
    from interfere_shorter [OF this] have "length (snd ?c3) < length (snd ?c1)" by simp
    then show ?thesis unfolding length_interfere by linarith
  qed simp
  show "returns (push_attempt hp nx node c) (\<lambda>ok c'. if ok then ?Q () c'
      else ?P c' \<and> length (snd c') < length (snd c))"
  proof (cases "v = old")
    case True
    from c3 obtain xs where "stack_is hp nx (fst ?c3) xs" "node \<notin> set xs" by blast
    then have "?Q () (store hp node (fst ?c3), snd ?c3)"
      using stack_push [of "fst ?c3" xs node old] True v c3 node by auto
    with True v old c1 show ?thesis by (auto simp: push_attempt_def wp)
  next
    case False
    then have "?c3 \<noteq> ?c2" using v old by (metis fst_conv option.inject hp_nx)
    with quiet have "length (snd ?c3) < length (snd c)" by simp
    with False old v c1 c3 show ?thesis by (auto simp: push_attempt_def wp)
  qed
qed (use off rely in blast)

text \<open>
  A pop takes the top node of the stack it finds at the moment of its compare-and-set, or
  returns NULL at a moment when the stack is empty, when no node that left the stack can
  come back meanwhile.
\<close>

lemma pop_loop:
  assumes stk: "stack_is hp nx (fst c) xs0" and rely: "env_rely (pop_rely hp nx) c"
  shows "returns (retry (pop_attempt hp nx) c) (\<lambda>r c'.
    if r = NULL then env_to c c' \<and> stack_is hp nx (fst c') []
    else \<exists>d xs q. env_to c d \<and> stack_is hp nx (fst d) (r # xs) \<and> load (nx r) (fst d) = Some q \<and>
      c' = (store hp q (fst d), snd d) \<and> stack_is hp nx (fst c') xs)"
    (is "returns _ ?Q")
proof (rule retry_rule [where P = "\<lambda>d. env_to c d \<and> (\<exists>xs. stack_is hp nx (fst d) xs) \<and>
      env_rely (pop_rely hp nx) d"])
  let ?P = "\<lambda>d. env_to c d \<and> (\<exists>xs. stack_is hp nx (fst d) xs) \<and> env_rely (pop_rely hp nx) d"
  fix c :: "'s conc"
  assume c: "?P c"
  have step: "pop_rely hp nx (fst d) (fst (interfere d)) \<and> ?P (interfere d)" if "?P d" for d
  proof -
    from that have r: "env_rely (pop_rely hp nx) d" and o: "\<exists>xs. stack_is hp nx (fst d) xs"
      by blast+
    note s = env_rely_step [OF r pop_rely_refl]
    show ?thesis
      by (intro conjI s pop_rely_stack [OF s o] env_rely_to [OF env_to_interfere r]
          env_to_trans [OF _ env_to_interfere]) (use that in blast)
  qed
  let ?c1 = "interfere c" and ?c2 = "interfere (interfere c)"
  let ?c3 = "interfere ?c2"
  have P1: "?P ?c1" and P2: "?P ?c2" and P3: "?P ?c3"
    and r12: "pop_rely hp nx (fst ?c1) (fst ?c2)" and r23: "pop_rely hp nx (fst ?c2) (fst ?c3)"
    using step c by blast+
  obtain xs1 where xs1: "stack_is hp nx (fst ?c1) xs1" using P1 by blast
  obtain xs2 where xs2: "stack_is hp nx (fst ?c2) xs2" using P2 by blast
  obtain xs3 where xs3: "stack_is hp nx (fst ?c3) xs3" using P3 by blast
  obtain old where old: "load hp (fst ?c1) = Some old" using hp_load [of "fst ?c1"] by auto
  show "returns (pop_attempt hp nx c) (\<lambda>r c'. case r of Some a \<Rightarrow> ?Q a c'
      | None \<Rightarrow> ?P c' \<and> length (snd c') < length (snd c))"
  proof (cases "old = NULL")
    case True
    then have "stack_is hp nx (fst ?c1) []" using old xs1 by (auto simp: stack_is_def)
    with True old P1 show ?thesis by (auto simp: pop_attempt_def wp)
  next
    case False
    then have nx1: "load (nx old) (fst ?c1) \<noteq> None"
      using old xs1 by (cases xs1) (auto simp: stack_is_def split: option.splits)
    then have nx2: "load (nx old) (fst ?c2) \<noteq> None" and nx3: "load (nx old) (fst ?c3) \<noteq> None"
      using r12 r23 xs1 xs2 unfolding pop_rely_def by blast+
    then obtain q where q: "load (nx old) (fst ?c2) = Some q" by blast
    obtain v where v: "load hp (fst ?c3) = Some v" using hp_load [of "fst ?c3"] by auto
    show ?thesis
    proof (cases "v = old")
      case True
      then have mem: "old \<in> set xs3"
        using v xs3 False by (cases xs3) (auto simp: stack_is_def split: option.splits)
      have "load (nx old) (fst ?c3) = load (nx old) (fst ?c2)"
        using r23 xs2 xs3 nx2 mem stack_unique unfolding pop_rely_def by metis
      then have "load (nx old) (fst ?c3) = Some q" using q by simp
      then obtain ys where ys: "xs3 = old # ys" "stack_is hp nx (store hp q (fst ?c3)) ys"
        using stack_pop [OF xs3 _ False] v True by blast
      then have "?Q old (store hp q (fst ?c3), snd ?c3)"
        using xs3 P3 False \<open>load (nx old) (fst ?c3) = Some q\<close>
        by (simp only: if_False) (intro exI [of _ ?c3] exI [of _ ys] exI [of _ q], simp)
      then show ?thesis using old False q v True by (auto simp: pop_attempt_def wp)
    next
      case neq: False
      have "?c2 \<noteq> ?c1 \<or> ?c3 \<noteq> ?c2" using v old neq by (metis option.inject)
      then have "length (snd ?c3) < length (snd c)"
        using interfere_shorter [of ?c1] interfere_shorter [of ?c2]
        by (auto simp: length_interfere)
      then show ?thesis using old False q v neq P3 by (auto simp: pop_attempt_def wp)
    qed
  qed
qed (use stk rely env_to_refl in blast)

end

end
