(* ===== verification/Slice.thy ===== *)
theory Slice
  imports Stack
begin

section \<open>Slices (\<open>src/mm/slice.c\<close>, \<open>src/os/posix/os_mem.c\<close>)\<close>

text \<open>
  The slice allocator: a table of 256 slice descriptors kept in a lock-free stack, three
  counters of reserved bytes with their limits, and the memory of the slices obtained from
  the operating system. \<open>mmap\<close> answers from outside the program, so it is an argument of
  the definitions: it gives the address for the calls made so far, the last one first.
  Locals the C code leaves uninitialised are arguments named \<open>junk\<close>.
\<close>

subsection \<open>Data\<close>

datatype slice_type_t = SLICE_TYPE_GC | SLICE_TYPE_MALLOC | SLICE_TYPE_CUSTOM | SLICE_TYPE_STATIC

datatype slice_usage_t = SLICE_USAGE_USED | SLICE_USAGE_UNUSED | SLICE_USAGE_BLANK

datatype slice_prot_t =
    SLICE_PROT_NONE | SLICE_PROT_R | SLICE_PROT_W | SLICE_PROT_RW
  | SLICE_PROT_X | SLICE_PROT_RX | SLICE_PROT_WX | SLICE_PROT_RWX

record slice_t =
  s_size :: u32
  s_ptr :: ptr
  s_type :: slice_type_t
  s_usage :: slice_usage_t
  s_prot :: slice_prot_t
  s_next :: ptr

datatype prot_flag = PROT_READ | PROT_WRITE | PROT_EXEC

datatype madvice = MADV_WILLNEED | MADV_DONTNEED | MADV_FREE

datatype os_call =
    Mmap u32 "prot_flag set"
  | Munmap ptr u32
  | Mprotect ptr u32 "prot_flag set"
  | Madvise ptr u32 madvice

text \<open>
  \<open>words\<close> is the memory of the mapped slices, one 32-bit word at each address; an address
  outside every mapping has none.
\<close>

record slice_state =
  words :: "ptr \<Rightarrow> u32 option"
  slices :: "ptr \<Rightarrow> slice_t option"
  slice_free_list :: ptr
  total_size :: u32
  malloc_size :: u32
  gc_size :: u32
  slice_size :: u32
  total_limit :: u32
  malloc_limit :: u32
  gc_limit :: u32
  os_log :: "os_call list"

definition slice_max_size :: u32 where "slice_max_size = 0x40000"
definition slice_min_size :: u32 where "slice_min_size = 0x1000"

abbreviation "slice_free_list_loc \<equiv> global_loc slice_free_list slice_free_list_update"
abbreviation "total_size_loc \<equiv> global_loc total_size total_size_update"
abbreviation "malloc_size_loc \<equiv> global_loc malloc_size malloc_size_update"
abbreviation "gc_size_loc \<equiv> global_loc gc_size gc_size_update"
abbreviation "s_next_loc \<equiv> field_loc slices slices_update s_next s_next_update"
abbreviation "s_ptr_loc \<equiv> field_loc slices slices_update s_ptr s_ptr_update"
abbreviation "s_size_loc \<equiv> field_loc slices slices_update s_size s_size_update"
abbreviation "s_type_loc \<equiv> field_loc slices slices_update s_type s_type_update"
abbreviation "s_usage_loc \<equiv> field_loc slices slices_update s_usage s_usage_update"
abbreviation "s_prot_loc \<equiv> field_loc slices slices_update s_prot s_prot_update"

subsection \<open>Memory of the operating system\<close>

fun slice_prot_index :: "slice_prot_t \<Rightarrow> nat" where
  "slice_prot_index SLICE_PROT_NONE = 0"
| "slice_prot_index SLICE_PROT_R = 1"
| "slice_prot_index SLICE_PROT_W = 2"
| "slice_prot_index SLICE_PROT_RW = 3"
| "slice_prot_index SLICE_PROT_X = 4"
| "slice_prot_index SLICE_PROT_RX = 5"
| "slice_prot_index SLICE_PROT_WX = 6"
| "slice_prot_index SLICE_PROT_RWX = 7"

definition prot_map :: "prot_flag set list" where
  "prot_map =
    [{},
     {PROT_EXEC},
     {PROT_WRITE},
     {PROT_WRITE, PROT_EXEC},
     {PROT_READ},
     {PROT_READ, PROT_EXEC},
     {PROT_READ, PROT_WRITE},
     {PROT_READ, PROT_WRITE, PROT_EXEC}]"

definition os_call :: "os_call \<Rightarrow> 'a slice_state_scheme conc \<Rightarrow> (unit \<times> 'a slice_state_scheme conc) option" where
  "os_call k c = Some ((), (fst c\<lparr>os_log := k # os_log (fst c)\<rparr>, snd c))"

text \<open>An anonymous mapping is filled with zeros; an unmapped range is gone.\<close>

definition map_words :: "ptr \<Rightarrow> u32 \<Rightarrow> (ptr \<Rightarrow> u32 option) \<Rightarrow> ptr \<Rightarrow> u32 option" where
  "map_words p sz w = (\<lambda>a. if a - p < sz then Some 0 else w a)"

definition unmap_words :: "ptr \<Rightarrow> u32 \<Rightarrow> (ptr \<Rightarrow> u32 option) \<Rightarrow> ptr \<Rightarrow> u32 option" where
  "unmap_words p sz w = (\<lambda>a. if a - p < sz then None else w a)"

definition os_mem_map ::
  "(os_call list \<Rightarrow> ptr) \<Rightarrow> u32 \<Rightarrow> slice_prot_t \<Rightarrow> 'a slice_state_scheme conc \<Rightarrow>
   (ptr \<times> 'a slice_state_scheme conc) option" where
  "os_mem_map mmap sz prot c = do {
     (_, c) \<leftarrow> os_call (Mmap sz (prot_map ! slice_prot_index prot)) c;
     let out = mmap (os_log (fst c));
     if - 1 \<noteq> out then Some (out, (fst c\<lparr>words := map_words out sz (words (fst c))\<rparr>, snd c))
     else Some (NULL, c) }"

definition os_mem_unmap ::
  "ptr \<Rightarrow> u32 \<Rightarrow> 'a slice_state_scheme conc \<Rightarrow> (unit \<times> 'a slice_state_scheme conc) option" where
  "os_mem_unmap p sz c = do {
     (_, c) \<leftarrow> os_call (Munmap p sz) c;
     Some ((), (fst c\<lparr>words := unmap_words p sz (words (fst c))\<rparr>, snd c)) }"

definition os_mem_remap ::
  "ptr \<Rightarrow> u32 \<Rightarrow> slice_prot_t \<Rightarrow> 'a slice_state_scheme conc \<Rightarrow>
   (unit \<times> 'a slice_state_scheme conc) option" where
  "os_mem_remap p sz prot c = os_call (Mprotect p sz (prot_map ! slice_prot_index prot)) c"

definition os_mem_willneed ::
  "ptr \<Rightarrow> u32 \<Rightarrow> 'a slice_state_scheme conc \<Rightarrow> (unit \<times> 'a slice_state_scheme conc) option" where
  "os_mem_willneed p sz c = os_call (Madvise p sz MADV_WILLNEED) c"

definition os_mem_dontneed ::
  "ptr \<Rightarrow> u32 \<Rightarrow> 'a slice_state_scheme conc \<Rightarrow> (unit \<times> 'a slice_state_scheme conc) option" where
  "os_mem_dontneed p sz c = os_call (Madvise p sz MADV_DONTNEED) c"

definition os_mem_release ::
  "ptr \<Rightarrow> u32 \<Rightarrow> 'a slice_state_scheme conc \<Rightarrow> (unit \<times> 'a slice_state_scheme conc) option" where
  "os_mem_release p sz c = os_call (Madvise p sz MADV_FREE) c"

subsection \<open>Initialisation\<close>

text \<open>\<open>slice_tab + i\<close>; a descriptor takes 24 bytes.\<close>

definition slice_tab_at :: "ptr \<Rightarrow> nat \<Rightarrow> ptr" where
  "slice_tab_at slice_tab i = slice_tab + of_nat (24 * i)"

definition slice_init ::
  "ptr \<Rightarrow> u32 \<Rightarrow> u32 \<Rightarrow> u32 \<Rightarrow> u32 \<Rightarrow> 'a slice_state_scheme conc \<Rightarrow>
   (unit \<times> 'a slice_state_scheme conc) option" where
  "slice_init slice_tab max_sz defaultsize malloc_max gc_max c = do {
     (_, c) \<leftarrow> pwr (global_loc slice_size slice_size_update) defaultsize c;
     (_, c) \<leftarrow> pwr (global_loc total_limit total_limit_update) max_sz c;
     (_, c) \<leftarrow> pwr (global_loc malloc_limit malloc_limit_update) malloc_max c;
     (_, c) \<leftarrow> pwr (global_loc gc_limit gc_limit_update) gc_max c;
     (_, c) \<leftarrow> pwr total_size_loc 0 c;
     (_, c) \<leftarrow> foreach (\<lambda>i. pwr (s_next_loc (slice_tab_at slice_tab i)) (slice_tab_at slice_tab (i + 1)))
        [0..<0x100 - 1] c;
     (_, c) \<leftarrow> pwr (s_next_loc (slice_tab_at slice_tab (0x100 - 1))) NULL c;
     pwr slice_free_list_loc slice_tab c }"

subsection \<open>Slice descriptors\<close>

definition slice_entry_try_alloc ::
  "'a slice_state_scheme conc \<Rightarrow> (opt_t \<times> 'a slice_state_scheme conc) option" where
  "slice_entry_try_alloc c = do {
     (oldlist, c) \<leftarrow> rd slice_free_list_loc c;
     let out = \<lparr>o_value = oldlist, o_valid = True\<rparr>;
     if oldlist \<noteq> NULL then do {
       (next, c) \<leftarrow> rd (s_next_loc oldlist) c;
       (ok, c) \<leftarrow> atomic_compare_and_set_ptr oldlist next slice_free_list_loc c;
       Some (out\<lparr>o_valid := ok\<rparr>, c) }
     else Some (out, c) }"

definition slice_entry_alloc ::
  "'a slice_state_scheme conc \<Rightarrow> (ptr \<times> 'a slice_state_scheme conc) option" where
  "slice_entry_alloc c = retry_valid slice_entry_try_alloc c"

definition slice_entry_try_free ::
  "ptr \<Rightarrow> 'a slice_state_scheme conc \<Rightarrow> (bool \<times> 'a slice_state_scheme conc) option" where
  "slice_entry_try_free slc c = do {
     (oldlist, c) \<leftarrow> rd slice_free_list_loc c;
     (_, c) \<leftarrow> pwr (s_next_loc slc) oldlist c;
     atomic_compare_and_set_ptr oldlist slc slice_free_list_loc c }"

subsection \<open>Space counters\<close>

definition slice_try_release_total_space ::
  "u32 \<Rightarrow> 'a slice_state_scheme conc \<Rightarrow> (bool \<times> 'a slice_state_scheme conc) option" where
  "slice_try_release_total_space sz c = do {
     (oldspace, c) \<leftarrow> rd total_size_loc c;
     atomic_compare_and_set_uint oldspace (oldspace - sz) total_size_loc c }"

definition slice_release_total_space ::
  "u32 \<Rightarrow> 'a slice_state_scheme conc \<Rightarrow> (unit \<times> 'a slice_state_scheme conc) option" where
  "slice_release_total_space sz c = retry_until (slice_try_release_total_space sz) c"

text \<open>\<open>failures\<close> is not initialised; its first value is the argument of the loop.\<close>

partial_function (option) slice_reserve_total_loop ::
  "u32 \<Rightarrow> u32 \<Rightarrow> 'a slice_state_scheme conc \<Rightarrow> (bool \<times> 'a slice_state_scheme conc) option" where
  "slice_reserve_total_loop failures sz c = do {
     (oldspace, c) \<leftarrow> rd total_size_loc c;
     if total_limit (fst c) \<le> oldspace + sz then do {
       (out, c) \<leftarrow> atomic_compare_and_set_uint oldspace (oldspace + sz) total_size_loc c;
       if out then Some (True, c) else slice_reserve_total_loop failures sz c }
     else if 3 \<le> failures + 1 then Some (False, c)
     else slice_reserve_total_loop (failures + 1) sz c }"

definition slice_reserve_total_space ::
  "u32 \<Rightarrow> u32 \<Rightarrow> 'a slice_state_scheme conc \<Rightarrow> (bool \<times> 'a slice_state_scheme conc) option" where
  "slice_reserve_total_space junk_failures sz c = slice_reserve_total_loop junk_failures sz c"

definition slice_try_release_gc_space ::
  "u32 \<Rightarrow> 'a slice_state_scheme conc \<Rightarrow> (bool \<times> 'a slice_state_scheme conc) option" where
  "slice_try_release_gc_space sz c = do {
     (oldspace, c) \<leftarrow> rd gc_size_loc c;
     atomic_compare_and_set_uint oldspace (oldspace - sz) gc_size_loc c }"

definition slice_release_gc_space ::
  "u32 \<Rightarrow> 'a slice_state_scheme conc \<Rightarrow> (unit \<times> 'a slice_state_scheme conc) option" where
  "slice_release_gc_space sz c = retry_until (slice_try_release_total_space sz) c"

definition slice_reserve_gc_space ::
  "u32 \<Rightarrow> 'a slice_state_scheme conc \<Rightarrow> (bool \<times> 'a slice_state_scheme conc) option" where
  "slice_reserve_gc_space sz c = retry (\<lambda>c. do {
     (oldspace, c) \<leftarrow> rd gc_size_loc c;
     if gc_limit (fst c) \<le> oldspace + sz then do {
       (out, c) \<leftarrow> atomic_compare_and_set_uint oldspace (oldspace + sz) gc_size_loc c;
       Some (if out then Some True else None, c) }
     else Some (Some False, c) }) c"

definition slice_try_release_malloc_space ::
  "u32 \<Rightarrow> 'a slice_state_scheme conc \<Rightarrow> (bool \<times> 'a slice_state_scheme conc) option" where
  "slice_try_release_malloc_space sz c = do {
     (oldspace, c) \<leftarrow> rd malloc_size_loc c;
     atomic_compare_and_set_uint oldspace (oldspace - sz) malloc_size_loc c }"

definition slice_release_malloc_space ::
  "u32 \<Rightarrow> 'a slice_state_scheme conc \<Rightarrow> (unit \<times> 'a slice_state_scheme conc) option" where
  "slice_release_malloc_space sz c = retry_until (slice_try_release_total_space sz) c"

definition slice_reserve_malloc_space ::
  "u32 \<Rightarrow> 'a slice_state_scheme conc \<Rightarrow> (bool \<times> 'a slice_state_scheme conc) option" where
  "slice_reserve_malloc_space sz c = retry (\<lambda>c. do {
     (oldspace, c) \<leftarrow> rd malloc_size_loc c;
     if malloc_limit (fst c) \<le> oldspace + sz then do {
       (out, c) \<leftarrow> atomic_compare_and_set_uint oldspace (oldspace + sz) malloc_size_loc c;
       Some (if out then Some True else None, c) }
     else Some (Some False, c) }) c"

definition slice_reserve_space ::
  "u32 \<Rightarrow> u32 \<Rightarrow> slice_type_t \<Rightarrow> 'a slice_state_scheme conc \<Rightarrow>
   (bool \<times> 'a slice_state_scheme conc) option" where
  "slice_reserve_space junk_failures sz type c = do {
     (total, c) \<leftarrow> slice_reserve_total_space junk_failures sz c;
     if total then
       (case type of
          SLICE_TYPE_GC \<Rightarrow> do {
            (ok, c) \<leftarrow> slice_reserve_gc_space sz c;
            if ok then Some (True, c)
            else do { (_, c) \<leftarrow> slice_release_total_space sz c; Some (False, c) } }
        | SLICE_TYPE_MALLOC \<Rightarrow> do {
            (ok, c) \<leftarrow> slice_reserve_malloc_space sz c;
            if ok then Some (True, c)
            else do { (_, c) \<leftarrow> slice_release_total_space sz c; Some (False, c) } }
        | _ \<Rightarrow> Some (True, c))
     else Some (False, c) }"

definition slice_release_space ::
  "u32 \<Rightarrow> slice_type_t \<Rightarrow> 'a slice_state_scheme conc \<Rightarrow>
   (unit \<times> 'a slice_state_scheme conc) option" where
  "slice_release_space sz type c = do {
     (_, c) \<leftarrow> slice_release_total_space sz c;
     (case type of
        SLICE_TYPE_GC \<Rightarrow> slice_release_gc_space sz c
      | SLICE_TYPE_MALLOC \<Rightarrow> slice_release_malloc_space sz c
      | _ \<Rightarrow> Some ((), c)) }"

subsection \<open>Slices\<close>

text \<open>
  The local \<open>out\<close> is read in the failure branch also when \<open>slice_reserve_space\<close> failed and
  nothing was assigned to it: \<open>junk_out\<close> is the value it has then.
\<close>

definition slice_alloc ::
  "(os_call list \<Rightarrow> ptr) \<Rightarrow> u32 \<Rightarrow> ptr \<Rightarrow> slice_type_t \<Rightarrow> slice_prot_t \<Rightarrow> u32 \<Rightarrow>
   'a slice_state_scheme conc \<Rightarrow> (ptr \<times> 'a slice_state_scheme conc) option" where
  "slice_alloc mmap junk_failures junk_out type prot sz c = do {
     (reserved, c) \<leftarrow> slice_reserve_space junk_failures sz type c;
     (out, c) \<leftarrow> (if reserved then slice_entry_alloc c else Some (junk_out, c));
     (mapped, c) \<leftarrow>
       (if reserved \<and> out \<noteq> NULL then do {
          (p, c) \<leftarrow> os_mem_map mmap sz prot c;
          (_, c) \<leftarrow> pwr (s_ptr_loc out) p c;
          Some (p \<noteq> NULL, c) }
        else Some (False, c));
     if mapped then do {
       (_, c) \<leftarrow> pwr (s_type_loc out) type c;
       (_, c) \<leftarrow> pwr (s_usage_loc out) SLICE_USAGE_BLANK c;
       (_, c) \<leftarrow> pwr (s_size_loc out) sz c;
       Some (out, c) }
     else if out \<noteq> NULL then do {
       (_, c) \<leftarrow> retry_until (slice_entry_try_free out) c;
       Some (NULL, c) }
     else Some (NULL, c) }"

text \<open>
  What a caller of \<open>slice_alloc\<close> inherits from outside: the answers of the operating system
  and the contents of the uninitialised locals, for the calls made so far.
\<close>

record slice_env =
  env_mmap :: "os_call list \<Rightarrow> ptr"
  env_failures :: "os_call list \<Rightarrow> u32"
  env_out :: "os_call list \<Rightarrow> ptr"

definition slice_alloc_in ::
  "'e slice_env_scheme \<Rightarrow> slice_type_t \<Rightarrow> slice_prot_t \<Rightarrow> u32 \<Rightarrow>
   'a slice_state_scheme conc \<Rightarrow> (ptr \<times> 'a slice_state_scheme conc) option" where
  "slice_alloc_in E type prot sz c =
     slice_alloc (env_mmap E) (env_failures E (os_log (fst c))) (env_out E (os_log (fst c)))
       type prot sz c"

text \<open>The lvalue of a field of a structure that lives in the memory of a slice.\<close>

definition mem_loc ::
  "('a slice_state_scheme \<Rightarrow> ptr \<Rightarrow> 'r) \<Rightarrow>
   (((ptr \<Rightarrow> 'r) \<Rightarrow> ptr \<Rightarrow> 'r) \<Rightarrow> 'a slice_state_scheme \<Rightarrow> 'a slice_state_scheme) \<Rightarrow>
   ('r \<Rightarrow> 'v) \<Rightarrow> (('v \<Rightarrow> 'v) \<Rightarrow> 'r \<Rightarrow> 'r) \<Rightarrow> ptr \<Rightarrow> ('a slice_state_scheme, 'v) loc" where
  "mem_loc heap heap_upd get upd p =
     Loc (\<lambda>s. if p = NULL \<or> words s p = None then None else Some (get (heap s p)))
         (\<lambda>v s. heap_upd (\<lambda>_. (heap s)(p := upd (\<lambda>_. v) (heap s p))) s)"

lemma mem_loc_simps [simp]:
  "load (mem_loc heap hu get upd p) s =
     (if p = NULL \<or> words s p = None then None else Some (get (heap s p)))"
  "store (mem_loc heap hu get upd p) v s = hu (\<lambda>_. (heap s)(p := upd (\<lambda>_. v) (heap s p))) s"
  by (simp_all add: mem_loc_def)

text \<open>A word of that memory.\<close>

definition word_loc :: "ptr \<Rightarrow> ('a slice_state_scheme, u32) loc" where
  "word_loc p = Loc (\<lambda>s. if p = NULL then None else words s p)
     (\<lambda>v s. s\<lparr>words := (words s)(p \<mapsto> v)\<rparr>)"

lemma word_loc_simps [simp]:
  "load (word_loc p) s = (if p = NULL then None else words s p)"
  "store (word_loc p) v s = s\<lparr>words := (words s)(p \<mapsto> v)\<rparr>"
  by (simp_all add: word_loc_def)

definition slice_free ::
  "ptr \<Rightarrow> 'a slice_state_scheme conc \<Rightarrow> (unit \<times> 'a slice_state_scheme conc) option" where
  "slice_free slc c = do {
     (p, c) \<leftarrow> prd (s_ptr_loc slc) c;
     (sz, c) \<leftarrow> prd (s_size_loc slc) c;
     (_, c) \<leftarrow> os_mem_unmap p sz c;
     retry_until (slice_entry_try_free slc) c }"

definition slice_set_usage ::
  "ptr \<Rightarrow> slice_usage_t \<Rightarrow> 'a slice_state_scheme conc \<Rightarrow>
   (unit \<times> 'a slice_state_scheme conc) option" where
  "slice_set_usage slc usage c = do {
     (old, c) \<leftarrow> prd (s_usage_loc slc) c;
     if old \<noteq> usage then do {
       (_, c) \<leftarrow> pwr (s_usage_loc slc) usage c;
       (p, c) \<leftarrow> prd (s_ptr_loc slc) c;
       (sz, c) \<leftarrow> prd (s_size_loc slc) c;
       (case usage of
          SLICE_USAGE_USED \<Rightarrow> os_mem_willneed p sz c
        | SLICE_USAGE_UNUSED \<Rightarrow> os_mem_dontneed p sz c
        | SLICE_USAGE_BLANK \<Rightarrow> os_mem_release p sz c) }
     else Some ((), c) }"

definition slice_set_prot ::
  "ptr \<Rightarrow> slice_prot_t \<Rightarrow> 'a slice_state_scheme conc \<Rightarrow>
   (unit \<times> 'a slice_state_scheme conc) option" where
  "slice_set_prot slc prot c = do {
     (old, c) \<leftarrow> prd (s_prot_loc slc) c;
     if old \<noteq> prot then do {
       (p, c) \<leftarrow> prd (s_ptr_loc slc) c;
       (sz, c) \<leftarrow> prd (s_size_loc slc) c;
       (_, c) \<leftarrow> os_mem_remap p sz prot c;
       pwr (s_prot_loc slc) prot c }
     else Some ((), c) }"

definition mm_total_limit :: "'a slice_state_scheme \<Rightarrow> u32" where "mm_total_limit s = total_limit s"
definition mm_total_size :: "'a slice_state_scheme \<Rightarrow> u32" where "mm_total_size s = total_size s"
definition mm_slice_size :: "'a slice_state_scheme \<Rightarrow> u32" where "mm_slice_size s = slice_size s"
definition mm_malloc_limit :: "'a slice_state_scheme \<Rightarrow> u32" where "mm_malloc_limit s = malloc_limit s"
definition mm_malloc_size :: "'a slice_state_scheme \<Rightarrow> u32" where "mm_malloc_size s = malloc_size s"
definition mm_gc_limit :: "'a slice_state_scheme \<Rightarrow> u32" where "mm_gc_limit s = gc_limit s"
definition mm_gc_size :: "'a slice_state_scheme \<Rightarrow> u32" where "mm_gc_size s = gc_size s"

subsection \<open>The interfaces of the allocator\<close>

interpretation slice_stack: lf_stack s_next_loc slice_free_list_loc
  by unfold_locales (auto split: option.splits)

interpretation total_cell: shared_cell total_size_loc by unfold_locales auto
interpretation gc_cell: shared_cell gc_size_loc by unfold_locales auto
interpretation malloc_cell: shared_cell malloc_size_loc by unfold_locales auto

lemma slice_entry_try_free_push:
  "slice_entry_try_free = push_attempt slice_free_list_loc s_next_loc"
  by (intro ext) (simp add: slice_entry_try_free_def push_attempt_def atomic_cas_defs)

lemma slice_entry_try_alloc_pop:
  "do { (res, c) \<leftarrow> slice_entry_try_alloc c; Some (if o_valid res then Some (o_value res) else None, c) }
    = pop_attempt slice_free_list_loc s_next_loc c"
  by (auto simp: slice_entry_try_alloc_def pop_attempt_def atomic_cas_defs rd_def cas_def Let_def
      split: option.splits)

lemma slice_entry_alloc_pop:
  "slice_entry_alloc = retry (pop_attempt slice_free_list_loc s_next_loc)"
  by (intro ext) (simp add: slice_entry_alloc_def retry_valid_def slice_entry_try_alloc_pop)

lemma slice_try_release_modify:
  "slice_try_release_total_space sz = modify_attempt (\<lambda>v. v - sz) total_size_loc"
  by (intro ext) (simp add: slice_try_release_total_space_def modify_attempt_def atomic_cas_defs)

subsection \<open>Reserving and releasing space\<close>

lemma release_total_loop:
  "returns (slice_release_total_space sz c) (\<lambda>_ c'.
     atomically (\<lambda>s. s\<lparr>total_size := total_size s - sz\<rparr>) c c')"
  using total_cell.modify_loop [of "\<lambda>v. v - sz" c]
  by (simp add: slice_release_total_space_def slice_try_release_modify modify_def [abs_def])

lemma release_total_quiet:
  "slice_release_total_space sz (s, []) = Some ((), (s\<lparr>total_size := total_size s - sz\<rparr>, []))"
  using release_total_loop [of sz "(s, [])"] by (auto simp: returns_ex)

definition failures_left :: "u32 \<Rightarrow> nat" where
  "failures_left f = (if unat f = 2 ^ 32 - 1 then 3 else 2 - unat f)"

lemma failures_left_less: "\<not> 3 \<le> f + 1 \<Longrightarrow> failures_left (f + 1) < failures_left f"
proof -
  assume "\<not> 3 \<le> f + 1"
  moreover have "unat f < 2 ^ 32" using unsigned_less [of f] by simp
  ultimately show ?thesis
    by (auto simp: failures_left_def word_le_nat_alt unat_word_ariths mod_if)
qed

text \<open>
  The routine returns whatever the other executors do; when it says yes, it added \<open>sz\<close> at
  a moment when the sum was at or above the limit, and when it says no it did nothing, and the
  sum is below the limit at that moment.
\<close>

lemma reserve_total_loop:
  assumes "env_rely (\<lambda>s t. total_limit t = total_limit s) c"
  shows "returns (slice_reserve_total_loop f sz c) (\<lambda>r c'. if r
    then \<exists>d. env_to c d \<and> total_limit (fst d) \<le> total_size (fst d) + sz \<and>
      c' = (fst d\<lparr>total_size := total_size (fst d) + sz\<rparr>, snd d)
    else env_to c c' \<and> \<not> total_limit (fst c') \<le> total_size (fst c') + sz)"
  using assms
proof (induction "length (snd c) + failures_left f" arbitrary: c f rule: less_induct)
  case less
  let ?c1 = "interfere c" and ?c2 = "interfere (interfere c)"
  let ?R = "\<lambda>s t. total_limit t = total_limit (s :: 'a slice_state_scheme)"
  have to: "env_to c ?c1" "env_to c ?c2"
    using env_to_interfere env_to_trans by blast+
  have r1: "env_rely ?R ?c1" and r2: "env_rely ?R ?c2"
    using less.prems to by (blast intro: env_rely_to)+
  have lim: "total_limit (fst ?c2) = total_limit (fst ?c1)"
    using env_rely_step [OF r1] by simp
  let ?Q = "\<lambda>c r c'. if r
    then \<exists>d. env_to c d \<and> total_limit (fst d) \<le> total_size (fst d) + sz \<and>
      c' = (fst d\<lparr>total_size := total_size (fst d) + sz\<rparr>, snd d)
    else env_to c c' \<and> \<not> total_limit (fst c') \<le> total_size (fst c') + sz"
  have weaken: "returns (slice_reserve_total_loop g sz d) (?Q c)"
    if "env_to c d" "env_rely ?R d"
      "length (snd d) + failures_left g < length (snd c) + failures_left f" for g d
  proof (rule returns_mono [OF less.hyps [OF that(3) that(2)]])
    show "?Q c r c'" if "?Q d r c'" for r c'
      using that env_to_trans [OF \<open>env_to c d\<close>] by (cases r) (simp, blast, simp)
  qed
  show ?case
  proof (cases "total_limit (fst ?c1) \<le> total_size (fst ?c1) + sz")
    case True
    show ?thesis
    proof (cases "total_size (fst ?c2) = total_size (fst ?c1)")
      case same: True
      then have "?Q c True (fst ?c2\<lparr>total_size := total_size (fst ?c1) + sz\<rparr>, snd ?c2)"
        unfolding if_True by (intro exI [of _ ?c2]) (use True lim to in simp)
      then show ?thesis using True same
        by (subst slice_reserve_total_loop.simps) (simp add: wp)
    next
      case False
      then have "?c2 \<noteq> ?c1" by auto
      then have "length (snd ?c2) + failures_left f < length (snd c) + failures_left f"
        using interfere_shorter [of ?c1] by (simp add: length_interfere)
      from weaken [OF to(2) r2 this] show ?thesis using True False
        by (subst slice_reserve_total_loop.simps) (simp add: wp)
    qed
  next
    case no: False
    show ?thesis
    proof (cases "3 \<le> f + 1")
      case True
      then show ?thesis using no to
        by (subst slice_reserve_total_loop.simps) (simp add: wp)
    next
      case False
      then have "length (snd ?c1) + failures_left (f + 1) < length (snd c) + failures_left f"
        using failures_left_less [OF False] by (simp add: length_interfere)
      from weaken [OF to(1) r1 this] show ?thesis using no False
        by (subst slice_reserve_total_loop.simps) (simp add: wp)
    qed
  qed
qed

lemma reserve_total_quiet:
  "slice_reserve_total_space junk sz (s, []) = Some (if total_limit s \<le> total_size s + sz
     then (True, (s\<lparr>total_size := total_size s + sz\<rparr>, [])) else (False, (s, [])))"
proof (cases "total_limit s \<le> total_size s + sz")
  case True
  then show ?thesis
    by (simp add: slice_reserve_total_space_def slice_reserve_total_loop.simps rd_def cas_def
        atomic_cas_defs Let_def)
next
  case False
  have "\<exists>c'. slice_reserve_total_loop junk sz (s, []) = Some (False, c') \<and> env_to (s, []) c'"
    using reserve_total_loop [of "(s, [])" junk sz] False
    by (auto simp: returns_ex env_to_quiet split: if_splits)
  then show ?thesis using False by (auto simp: slice_reserve_total_space_def env_to_quiet)
qed

text \<open>
  The quotas of the collector and of malloc: a counter whose reservation succeeds at or
  above its limit. Both reservation loops are instances of one loop.
\<close>

definition reserve_loop ::
  "('s \<Rightarrow> u32) \<Rightarrow> ('s, u32) loc \<Rightarrow> u32 \<Rightarrow> 's conc \<Rightarrow> (bool \<times> 's conc) option" where
  "reserve_loop lim l sz c = retry (\<lambda>c. do {
     (oldspace, c) \<leftarrow> rd l c;
     if lim (fst c) \<le> oldspace + sz then do {
       (out, c) \<leftarrow> cas oldspace (oldspace + sz) l c;
       Some (if out then Some True else None, c) }
     else Some (Some False, c) }) c"

locale quota = shared_cell l for l :: "('s, u32) loc" +
  fixes lim :: "'s \<Rightarrow> u32"
  assumes lim_store: "lim (store l v s) = lim s"
begin

lemma reserve_returns:
  "returns (reserve_loop lim l sz c) (\<lambda>r c'. if r
     then atomically (modify (\<lambda>v. v + sz) l) c c' else env_to c c')"
  unfolding reserve_loop_def
proof (rule retry_rule [where P = "env_to c"])
  fix d assume d: "env_to c d"
  let ?d1 = "interfere d" and ?d2 = "interfere (interfere d)"
  obtain v1 where v1: "load l (fst ?d1) = Some v1" using load_some [of "fst ?d1"] by auto
  obtain v2 where v2: "load l (fst ?d2) = Some v2" using load_some [of "fst ?d2"] by auto
  have to1: "env_to c ?d1" and to2: "env_to c ?d2"
    using d env_to_interfere env_to_trans by blast+
  have shorter: "length (snd ?d2) < length (snd d)" if "v2 \<noteq> v1"
  proof -
    from that v1 v2 have "?d2 \<noteq> ?d1" by auto
    then show ?thesis using interfere_shorter [of ?d1] by (simp add: length_interfere)
  qed
  show "returns (do { (oldspace, c) \<leftarrow> rd l d;
      if lim (fst c) \<le> oldspace + sz then do {
        (out, c) \<leftarrow> cas oldspace (oldspace + sz) l c;
        Some (if out then Some True else None, c) }
      else Some (Some False, c) })
    (\<lambda>r c'. case r of
        Some a \<Rightarrow> if a then atomically (modify (\<lambda>v. v + sz) l) c c' else env_to c c'
      | None \<Rightarrow> env_to c c' \<and> length (snd c') < length (snd d))"
    using v1 v2 to1 to2 shorter atomicallyI [OF to2, of _ "modify (\<lambda>v. v + sz) l"]
    by (auto simp: wp modify_def)
qed simp

lemma reserve_quiet:
  "load l s = Some v \<Longrightarrow> reserve_loop lim l sz (s, []) = Some (if lim s \<le> v + sz
     then (True, (store l (v + sz) s, [])) else (False, (s, [])))"
  by (simp add: reserve_loop_def retry.simps rd_def cas_def Let_def)

end

interpretation gc_quota: quota gc_size_loc gc_limit by unfold_locales simp
interpretation malloc_quota: quota malloc_size_loc malloc_limit by unfold_locales simp

lemma slice_reserve_gc_loop:
  "slice_reserve_gc_space sz = reserve_loop gc_limit gc_size_loc sz"
  by (intro ext) (unfold slice_reserve_gc_space_def reserve_loop_def atomic_cas_defs, rule refl)

lemma slice_reserve_malloc_loop:
  "slice_reserve_malloc_space sz = reserve_loop malloc_limit malloc_size_loc sz"
  by (intro ext) (unfold slice_reserve_malloc_space_def reserve_loop_def atomic_cas_defs, rule refl)

lemmas reserve_quiets = reserve_total_quiet slice_reserve_gc_loop slice_reserve_malloc_loop
  gc_quota.reserve_quiet malloc_quota.reserve_quiet

text \<open>What \<open>slice_reserve_space\<close> decides and does when nobody interferes.\<close>

definition type_limit_ok :: "'a slice_state_scheme \<Rightarrow> slice_type_t \<Rightarrow> u32 \<Rightarrow> bool" where
  "type_limit_ok s type sz = (case type of
      SLICE_TYPE_GC \<Rightarrow> gc_limit s \<le> gc_size s + sz
    | SLICE_TYPE_MALLOC \<Rightarrow> malloc_limit s \<le> malloc_size s + sz
    | _ \<Rightarrow> True)"

definition reserved :: "slice_type_t \<Rightarrow> u32 \<Rightarrow> 'a slice_state_scheme \<Rightarrow> 'a slice_state_scheme" where
  "reserved type sz s = (case type of
      SLICE_TYPE_GC \<Rightarrow> s\<lparr>total_size := total_size s + sz, gc_size := gc_size s + sz\<rparr>
    | SLICE_TYPE_MALLOC \<Rightarrow> s\<lparr>total_size := total_size s + sz, malloc_size := malloc_size s + sz\<rparr>
    | _ \<Rightarrow> s\<lparr>total_size := total_size s + sz\<rparr>)"

lemma reserve_space_quiet:
  "slice_reserve_space junk sz type (s, []) =
     Some (if total_limit s \<le> total_size s + sz \<and> type_limit_ok s type sz
       then (True, (reserved type sz s, [])) else (False, (s, [])))"
  by (cases type)
    (auto simp: slice_reserve_space_def reserve_quiets type_limit_ok_def reserved_def
      release_total_quiet)

lemma reserved_simps [simp]:
  "slices (reserved type sz s) = slices s"
  "slice_free_list (reserved type sz s) = slice_free_list s"
  "os_log (reserved type sz s) = os_log s"
  "words (reserved type sz s) = words s"
  "total_size (reserved type sz s) = total_size s + sz"
  "total_limit (reserved type sz s) = total_limit s" "malloc_limit (reserved type sz s) = malloc_limit s"
  "slice_state.more (reserved type sz s) = slice_state.more s"
  by (simp_all add: reserved_def split: slice_type_t.splits)

subsection \<open>Allocating and freeing slices\<close>

abbreviation slice_free_is :: "'a slice_state_scheme \<Rightarrow> ptr list \<Rightarrow> bool" where
  "slice_free_is \<equiv> stack_is slice_free_list_loc s_next_loc"

lemma slice_free_is_cong:
  "slice_free_list t = slice_free_list s \<Longrightarrow>
   (\<And>p. map_option s_next (slices t p) = map_option s_next (slices s p)) \<Longrightarrow>
   slice_free_is t xs = slice_free_is s xs"
  by (simp add: stack_is_def cong: if_cong)

text \<open>The descriptor \<open>p\<close> pushed on the free list.\<close>

definition slice_freed :: "ptr \<Rightarrow> 'a slice_state_scheme \<Rightarrow> 'a slice_state_scheme" where
  "slice_freed p s = s\<lparr>slices := (slices s)(p := map_option (\<lambda>d. d\<lparr>s_next := slice_free_list s\<rparr>) (slices s p)),
     slice_free_list := p\<rparr>"

lemma slice_freed_simps [simp]:
  "total_size (slice_freed p s) = total_size s" "malloc_size (slice_freed p s) = malloc_size s"
  "gc_size (slice_freed p s) = gc_size s" "os_log (slice_freed p s) = os_log s"
  by (simp_all add: slice_freed_def)

lemma entry_free_quiet:
  assumes "slice_free_is s xs" "p \<notin> set xs" "p \<noteq> NULL" "slices s p \<noteq> None"
  shows "retry_until (slice_entry_try_free p) (s, []) = Some ((), (slice_freed p s, []))"
    and "slice_free_is (slice_freed p s) (p # xs)"
  using assms slice_stack.push_quiet [of s "slice_free_list s" p]
    slice_stack.push_quiet_stack [of s xs p "slice_free_list s"]
  by (auto simp: slice_entry_try_free_push slice_freed_def)

lemma entry_alloc_quiet:
  assumes "slice_free_is s (p # xs)"
  shows "\<exists>d. slices s p = Some d \<and> p \<noteq> NULL \<and>
    slice_entry_alloc (s, []) = Some (p, (s\<lparr>slice_free_list := s_next d\<rparr>, [])) \<and>
    slice_free_is (s\<lparr>slice_free_list := s_next d\<rparr>) xs"
  using slice_stack.pop_quiet [OF assms] assms
  by (auto simp: slice_entry_alloc_pop stack_is_def split: option.splits if_splits)

lemma entry_alloc_empty:
  "slice_free_is s [] \<Longrightarrow> slice_entry_alloc (s, []) = Some (NULL, (s, []))"
  by (simp add: slice_entry_alloc_pop slice_stack.pop_quiet_empty)

lemma os_mem_map_quiet:
  "os_mem_map mmap sz prot (s, []) =
    (let k = Mmap sz (prot_map ! slice_prot_index prot); out = mmap (k # os_log s)
     in if - 1 \<noteq> out
        then Some (out, (s\<lparr>os_log := k # os_log s, words := map_words out sz (words s)\<rparr>, []))
        else Some (NULL, (s\<lparr>os_log := k # os_log s\<rparr>, [])))"
  by (simp add: os_mem_map_def os_call_def Let_def)

text \<open>The answer of the operating system to the mapping of a slice, NULL for a failure.\<close>

definition mapped_at ::
  "(os_call list \<Rightarrow> ptr) \<Rightarrow> u32 \<Rightarrow> slice_prot_t \<Rightarrow> 'a slice_state_scheme \<Rightarrow> ptr" where
  "mapped_at mmap sz prot s = (let out = mmap (Mmap sz (prot_map ! slice_prot_index prot) # os_log s)
     in if - 1 \<noteq> out then out else NULL)"

lemma slice_alloc_mapped:
  assumes free: "slice_free_is s (p # xs)"
    and res: "total_limit s \<le> total_size s + sz" "type_limit_ok s type sz"
    and m: "mapped_at mmap sz prot s \<noteq> NULL"
  shows "\<exists>t d. slice_alloc mmap junk_failures junk_out type prot sz (s, []) = Some (p, (t, [])) \<and>
    slice_free_is t xs \<and> slices s p = Some d \<and>
    slices t p = Some (d\<lparr>s_ptr := mapped_at mmap sz prot s, s_type := type,
      s_usage := SLICE_USAGE_BLANK, s_size := sz\<rparr>) \<and>
    total_size t = total_size s + sz \<and> slice_state.more t = slice_state.more s \<and>
    words t = map_words (mapped_at mmap sz prot s) sz (words s) \<and> (\<forall>q. q \<noteq> p \<longrightarrow> slices t q = slices s q) \<and>
    total_limit t = total_limit s \<and> malloc_limit t = malloc_limit s \<and>
    os_log t = Mmap sz (prot_map ! slice_prot_index prot) # os_log s"
proof -
  let ?r = "reserved type sz s"
  have "slice_free_is ?r (p # xs)" using free by (simp add: slice_free_is_cong [of ?r s])
  then obtain d where d: "slices ?r p = Some d" "p \<noteq> NULL"
    "slice_entry_alloc (?r, []) = Some (p, (?r\<lparr>slice_free_list := s_next d\<rparr>, []))"
    "slice_free_is (?r\<lparr>slice_free_list := s_next d\<rparr>) xs"
    using entry_alloc_quiet by blast
  have x: "slice_free_is t xs"
    if "slice_free_list t = s_next d"
      "\<And>q. map_option s_next (slices t q) = map_option s_next (slices s q)"
    for t :: "'a slice_state_scheme"
    using d(4) slice_free_is_cong [of t "?r\<lparr>slice_free_list := s_next d\<rparr>" xs] that by simp
  show ?thesis
    using d res m
    by (auto simp: slice_alloc_def reserve_space_quiet os_mem_map_quiet mapped_at_def Let_def
        pwr_def split: if_splits intro!: x)
qed

text \<open>The same for the callers, which read the size and the address back.\<close>

lemma slice_alloc_in_mapped:
  assumes "slice_free_is s (slc # ss)" "total_limit s \<le> total_size s + sz" "type_limit_ok s type sz"
    and "p = mapped_at (env_mmap E) sz prot s" "p \<noteq> NULL"
  obtains t where "slice_alloc_in E type prot sz (s, []) = Some (slc, (t, []))" "slc \<noteq> NULL" "slice_free_is t ss"
    "load (s_size_loc slc) t = Some sz" "load (s_ptr_loc slc) t = Some p" "slice_state.more t = slice_state.more s"
    "words t = map_words p sz (words s)" "\<forall>q. q \<noteq> slc \<longrightarrow> slices t q = slices s q"
    "total_limit t = total_limit s" "malloc_limit t = malloc_limit s"
    "os_log t = Mmap sz (prot_map ! slice_prot_index prot) # os_log s"
proof -
  have "slc \<noteq> NULL" using assms(1) by (auto simp: stack_is_def)
  moreover obtain t d where "slice_alloc (env_mmap E) (env_failures E (os_log s)) (env_out E (os_log s)) type prot sz (s, []) =
      Some (slc, (t, []))" "slice_free_is t ss" "slices t slc = Some (d\<lparr>s_ptr := p, s_type := type,
      s_usage := SLICE_USAGE_BLANK, s_size := sz\<rparr>)" "slice_state.more t = slice_state.more s"
      "words t = map_words p sz (words s)" "\<forall>q. q \<noteq> slc \<longrightarrow> slices t q = slices s q"
      "total_limit t = total_limit s" "malloc_limit t = malloc_limit s"
      "os_log t = Mmap sz (prot_map ! slice_prot_index prot) # os_log s"
    using slice_alloc_mapped [OF assms(1-3)] assms(4,5) by blast
  ultimately show thesis by (intro that [of t]) (simp_all add: slice_alloc_in_def)
qed

lemma slice_alloc_unmapped:
  assumes free: "slice_free_is s (p # xs)"
    and res: "total_limit s \<le> total_size s + sz" "type_limit_ok s type sz"
    and m: "mmap (Mmap sz (prot_map ! slice_prot_index prot) # os_log s) = - 1"
  shows "\<exists>t. slice_alloc mmap junk_failures junk_out type prot sz (s, []) = Some (NULL, (t, [])) \<and>
    slice_free_is t (p # xs) \<and> total_size t = total_size s + sz"
proof -
  let ?r = "reserved type sz s"
  let ?k = "Mmap sz (prot_map ! slice_prot_index prot)"
  have "slice_free_is ?r (p # xs)" using free by (simp add: slice_free_is_cong [of ?r s])
  then obtain d where d: "slices ?r p = Some d" "p \<noteq> NULL"
    "slice_entry_alloc (?r, []) = Some (p, (?r\<lparr>slice_free_list := s_next d\<rparr>, []))"
    "slice_free_is (?r\<lparr>slice_free_list := s_next d\<rparr>) xs"
    using entry_alloc_quiet by blast
  let ?t = "?r\<lparr>slice_free_list := s_next d, os_log := ?k # os_log s,
    slices := (slices s)(p \<mapsto> d\<lparr>s_ptr := NULL\<rparr>)\<rparr>"
  have "p \<notin> set xs"
    using stack_is_distinct [OF free] by simp
  moreover have "slice_free_is ?t xs"
    using d slice_free_is_cong [of ?t "?r\<lparr>slice_free_list := s_next d\<rparr>" xs] by simp
  ultimately have "retry_until (slice_entry_try_free p) (?t, []) = Some ((), (slice_freed p ?t, []))"
    "slice_free_is (slice_freed p ?t) (p # xs)"
    using entry_free_quiet [of ?t xs p] d by auto
  then show ?thesis
    using d res m
    by (auto simp: slice_alloc_def reserve_space_quiet os_mem_map_quiet mapped_at_def Let_def
        pwr_def split: if_splits)
qed

lemma slice_tab_at_0 [simp]: "slice_tab_at tab 0 = tab"
  by (simp add: slice_tab_at_def)

lemma slice_tab_inj: "inj_on (slice_tab_at tab) {0..<0x100}"
proof (rule inj_onI)
  fix i j assume "i \<in> {0..<0x100}" "j \<in> {0..<0x100}" "slice_tab_at tab i = slice_tab_at tab j"
  then have "i < 0x100" "j < 0x100" "(of_nat (24 * i) :: u32) = of_nat (24 * j)"
    by (auto simp: slice_tab_at_def)
  then have "unat (of_nat (24 * i) :: u32) = unat (of_nat (24 * j) :: u32)" by simp
  then have "24 * i = 24 * j"
    using \<open>i < 0x100\<close> \<open>j < 0x100\<close> unfolding unat_of_nat by simp
  then show "i = j" by simp
qed

lemma slice_init_returns:
  assumes tab: "\<And>i. i < 0x100 \<Longrightarrow> slice_tab_at tab i \<noteq> NULL \<and> slices s (slice_tab_at tab i) \<noteq> None"
  shows "returns (slice_init tab mx df mm gm (s, fs)) (\<lambda>_ c'.
    slice_free_is (fst c') (map (slice_tab_at tab) [0..<0x100]) \<and> snd c' = fs \<and>
    slice_size (fst c') = df \<and> total_limit (fst c') = mx \<and> malloc_limit (fst c') = mm \<and>
    gc_limit (fst c') = gm \<and> total_size (fst c') = 0 \<and>
    malloc_size (fst c') = malloc_size s \<and> gc_size (fst c') = gc_size s \<and>
    words (fst c') = words s \<and> os_log (fst c') = os_log s \<and> slice_state.more (fst c') = slice_state.more s)"
proof -
  let ?s = "s\<lparr>slice_size := df, total_limit := mx, malloc_limit := mm, gc_limit := gm, total_size := 0\<rparr>"
  let ?at = "slice_tab_at tab" and ?ks = "[0..<255]"
  let ?I = "\<lambda>t. \<exists>h. t = ?s\<lparr>slices := h\<rparr>"
  have link: "returns (foreach (\<lambda>i. pwr (s_next_loc (?at i)) (?at (i + 1))) ?ks (?s, fs))
    (\<lambda>_ c'. snd c' = snd (?s, fs) \<and> ?I (fst c') \<and>
      (\<forall>i \<in> set ?ks. load (s_next_loc (?at i)) (fst c') = Some (?at (i + 1))) \<and>
      (\<forall>p. p \<notin> ?at ` set ?ks \<longrightarrow> load (s_next_loc p) (fst c') = load (s_next_loc p) (fst (?s, fs))))"
  proof (rule slice_stack.link_loop)
    show "inj_on ?at (set ?ks)"
      by (rule inj_on_subset [OF slice_tab_inj]) auto
    show "?I (fst (?s, fs))" by (intro exI [of _ "slices s"]) simp
    show "load (s_next_loc (?at i)) (fst (?s, fs)) \<noteq> None" if "i \<in> set ?ks" for i
      using that tab [of i] by auto
    show "?I (store (s_next_loc p) v t)" if "?I t" for p v t using that by auto
  qed simp
  have last: "?at 255 \<notin> ?at ` set ?ks"
    using inj_onD [OF slice_tab_inj, of tab 255] by force
  have fin: "slice_free_is (t\<lparr>slices := (slices t)(?at 255 := map_option (s_next_update (\<lambda>_. NULL))
      (slices t (?at 255))), slice_free_list := tab\<rparr>) (map ?at [0..<0x100])" (is "slice_free_is ?t _")
    and fin': "slices t (?at 255) \<noteq> None"
    if "\<forall>i \<in> set ?ks. load (s_next_loc (?at i)) t = Some (?at (i + 1))"
      "\<forall>p. p \<notin> ?at ` set ?ks \<longrightarrow> load (s_next_loc p) t = load (s_next_loc p) ?s"
    for t :: "'a slice_state_scheme"
  proof -
    from that(2) last tab [of 255] show n: "slices t (?at 255) \<noteq> None" by fastforce
    have neq: "?at i \<noteq> ?at 255" if "i < 255" for i
      using inj_onD [OF slice_tab_inj, of tab i 255] that by auto
    have "chain (\<lambda>p. load (s_next_loc p) ?t) (?at 0) (map ?at [0..<255]) (?at 255)"
      by (rule chain_array) (use that(1) neq tab in auto)
    moreover have "[0..<0x100] = [0..<255] @ [255]" using upt_Suc_append [of 0 255] by simp
    ultimately show "slice_free_is ?t (map ?at [0..<0x100])"
      using n tab [of 255] by (auto simp: stack_is_def)
  qed
  show ?thesis
    unfolding slice_init_def
  proof (simp add: wp del: One_nat_def, rule returns_mono [OF link])
    fix a c' assume c': "snd c' = snd (?s, fs) \<and> ?I (fst c') \<and>
      (\<forall>i \<in> set ?ks. load (s_next_loc (?at i)) (fst c') = Some (?at (i + 1))) \<and>
      (\<forall>p. p \<notin> ?at ` set ?ks \<longrightarrow> load (s_next_loc p) (fst c') = load (s_next_loc p) (fst (?s, fs)))"
    then obtain h where h: "fst c' = ?s\<lparr>slices := h\<rparr>" by blast
    from c' have k: "\<forall>i \<in> set ?ks. load (s_next_loc (?at i)) (fst c') = Some (?at (i + 1))"
      "\<forall>p. p \<notin> ?at ` set ?ks \<longrightarrow> load (s_next_loc p) (fst c') = load (s_next_loc p) ?s"
      unfolding fst_conv by blast+
    note fin' [OF k]
    moreover have "slice_free_is (fst c'\<lparr>slices := (slices (fst c'))(?at 255 := map_option (s_next_update (\<lambda>_. NULL))
        (slices (fst c') (?at 255))), slice_free_list := tab\<rparr>) (map ?at [0..<0x100])"
      by (rule fin [OF k])
    ultimately show "?at 255 \<noteq> NULL \<and> (?at 255 \<noteq> NULL \<longrightarrow> (\<exists>z. slices (fst c') (?at 255) = Some z) \<and>
      slice_free_is (fst c'\<lparr>slices := (slices (fst c'))(?at 255 := map_option (s_next_update (\<lambda>_. NULL))
        (slices (fst c') (?at 255))), slice_free_list := tab\<rparr>) (map ?at [0..<0x100]) \<and> snd c' = fs \<and>
      slice_size (fst c') = df \<and> total_limit (fst c') = mx \<and> malloc_limit (fst c') = mm \<and>
      gc_limit (fst c') = gm \<and> total_size (fst c') = 0 \<and>
      malloc_size (fst c') = malloc_size s \<and> gc_size (fst c') = gc_size s \<and>
      words (fst c') = words s \<and> os_log (fst c') = os_log s \<and> slice_state.more (fst c') = slice_state.more s)"
      using c' tab [of 255] h by auto
  qed
qed

subsection \<open>Properties\<close>

text \<open>
  After \<open>slice_init\<close> on a mapped table the free list is the table, all 256
  descriptors in order, the four limits are the arguments and \<open>total_size\<close> is 0; but
  \<open>malloc_size\<close> and \<open>gc_size\<close> keep their old values.
\<close>

theorem slice_init_free_list:
  assumes "\<And>i. i < 0x100 \<Longrightarrow> slice_tab_at tab i \<noteq> NULL \<and> slices s (slice_tab_at tab i) \<noteq> None"
  shows "returns (slice_init tab mx df mm gm (s, fs)) (\<lambda>_ c'.
    slice_free_is (fst c') (map (slice_tab_at tab) [0..<0x100]) \<and> snd c' = fs \<and>
    slice_size (fst c') = df \<and> total_limit (fst c') = mx \<and> malloc_limit (fst c') = mm \<and>
    gc_limit (fst c') = gm \<and> total_size (fst c') = 0 \<and>
    malloc_size (fst c') = malloc_size s \<and> gc_size (fst c') = gc_size s)"
  by (rule returns_mono [OF slice_init_returns [OF assms]]) blast+

text \<open>A descriptor and a state for the examples.\<close>

definition ex_slice :: "ptr \<Rightarrow> slice_t" where
  "ex_slice n = \<lparr>s_size = 0, s_ptr = NULL, s_type = SLICE_TYPE_GC, s_usage = SLICE_USAGE_BLANK,
     s_prot = SLICE_PROT_NONE, s_next = n\<rparr>"

definition ex_slices :: slice_state where
  "ex_slices = \<lparr>words = (\<lambda>_. None), slices = (\<lambda>p. if p = 24 then Some (ex_slice 48)
       else if p = 48 then Some (ex_slice NULL) else None),
     slice_free_list = 24, total_size = 0x4000, malloc_size = 0x1000, gc_size = 0x2000,
     slice_size = 0x1000, total_limit = 0x3000, malloc_limit = 0x1000, gc_limit = 0x2000,
     os_log = []\<rparr>"

lemma ex_slices_free: "slice_free_is ex_slices [24, 48]"
  by (simp add: stack_is_def ex_slices_def ex_slice_def)

lemma slice_tab_at_ex: "i < 0x100 \<Longrightarrow> slice_tab_at 24 i \<noteq> NULL"
proof
  assume i: "i < 0x100" and "slice_tab_at 24 i = NULL"
  then have "unat (of_nat (24 * (i + 1)) :: u32) = 0" by (simp add: slice_tab_at_def algebra_simps)
  then show False using i unfolding unat_of_nat by simp
qed

lemma slice_init_free_list_witness:
  "slice_init 24 9 8 7 6 (ex_slices\<lparr>slices := \<lambda>_. Some (ex_slice NULL)\<rparr>, []) \<noteq> None"
proof -
  have "returns (slice_init 24 9 8 7 6 (ex_slices\<lparr>slices := \<lambda>_. Some (ex_slice NULL)\<rparr>, [])) (\<lambda>_ _. True)"
    by (rule returns_mono [OF slice_init_free_list]) (use slice_tab_at_ex in auto)
  then show ?thesis by (auto simp: returns_def split: option.splits)
qed

text \<open>
  C32 [slice_reserve_total]. \<open>slice_reserve_total_space\<close> always returns, whatever the other
  executors and the uninitialised \<open>failures\<close> do, as long as they leave the limit. It grants a
  request at a moment when the new total is at or above \<open>total_limit\<close>, the opposite of what a
  limit is for, and adds the request to the total at that moment; it refuses one only at a moment
  when the new total would be below the limit, and changes nothing.
\<close>

theorem slice_reserve_total_space_returns:
  assumes "env_rely (\<lambda>s t. total_limit t = total_limit s) c"
  shows "returns (slice_reserve_total_space junk_failures sz c) (\<lambda>r c'. if r
    then \<exists>d. env_to c d \<and> total_limit (fst d) \<le> total_size (fst d) + sz \<and>
      c' = (fst d\<lparr>total_size := total_size (fst d) + sz\<rparr>, snd d)
    else env_to c c' \<and> \<not> total_limit (fst c') \<le> total_size (fst c') + sz)"
  unfolding slice_reserve_total_space_def by (rule reserve_total_loop [OF assms])

lemma slice_reserve_total_space_witness:
  "returns (slice_reserve_total_space 7 0x1000
      (ex_slices\<lparr>total_limit := 0x9000\<rparr>, [\<lambda>s. s\<lparr>total_size := 0\<rparr>, id, \<lambda>s. s\<lparr>total_size := 0x9000\<rparr>]))
    (\<lambda>r c'. r = (total_limit (fst c') \<le> total_size (fst c') + (if r then 0 else 0x1000)))"
  by (rule returns_mono [OF slice_reserve_total_space_returns]) (auto simp: env_rely_def)

text \<open>
  C31 [slice_release]. Releasing space is one atomic subtraction, whatever the other
  executors do meanwhile, and it always returns.
\<close>

theorem slice_release_total_space_atomic:
  "returns (slice_release_total_space sz c) (\<lambda>_ c'.
     atomically (\<lambda>s. s\<lparr>total_size := total_size s - sz\<rparr>) c c')"
  by (rule release_total_loop)

text \<open>
  C33 [slice_alloc]. With a free descriptor and enough reservation, \<open>slice_alloc\<close> takes the
  first free descriptor and fills it in with the mapped memory, its type, size and blank
  usage, and \<open>slice_free\<close> of it unmaps the memory and puts the descriptor back. The space
  the allocation reserved is still counted after the slice has been freed.
\<close>

theorem slice_alloc_free:
  assumes free: "slice_free_is s (p # xs)"
    and res: "total_limit s \<le> total_size s + sz" "type_limit_ok s type sz"
    and m: "mapped_at mmap sz prot s \<noteq> NULL"
  shows "\<exists>t d. slice_alloc mmap junk_failures junk_out type prot sz (s, []) = Some (p, (t, [])) \<and>
    slice_free_is t xs \<and> slices t p = Some d \<and> s_ptr d = mapped_at mmap sz prot s \<and>
    s_type d = type \<and> s_size d = sz \<and> s_usage d = SLICE_USAGE_BLANK \<and>
    (\<exists>u. slice_free p (t, []) = Some ((), (u, [])) \<and> slice_free_is u (p # xs) \<and>
      os_log u = Munmap (s_ptr d) sz # os_log t \<and> total_size u = total_size s + sz)"
proof -
  obtain t d where t: "slice_alloc mmap junk_failures junk_out type prot sz (s, []) = Some (p, (t, []))"
    "slice_free_is t xs" "total_size t = total_size s + sz"
    "slices t p = Some (d\<lparr>s_ptr := mapped_at mmap sz prot s, s_type := type,
      s_usage := SLICE_USAGE_BLANK, s_size := sz\<rparr>)" (is "_ = Some ?d")
    using slice_alloc_mapped [OF free res m] by blast
  let ?t = "t\<lparr>os_log := Munmap (s_ptr ?d) sz # os_log t, words := unmap_words (s_ptr ?d) sz (words t)\<rparr>"
  have p: "p \<notin> set xs" "p \<noteq> NULL" using stack_is_distinct [OF free] by auto
  moreover have "slice_free_is ?t xs" using t(2) slice_free_is_cong [of ?t t xs] by simp
  ultimately have "retry_until (slice_entry_try_free p) (?t, []) = Some ((), (slice_freed p ?t, []))"
    "slice_free_is (slice_freed p ?t) (p # xs)"
    using entry_free_quiet [of ?t xs p] t(4) by auto
  then have "slice_free p (t, []) = Some ((), (slice_freed p ?t, []))"
    using t(4) p by (simp add: slice_free_def os_mem_unmap_def os_call_def prd_def)
  then show ?thesis
    using t \<open>slice_free_is (slice_freed p ?t) (p # xs)\<close> by (intro exI [of _ t] exI [of _ ?d]) auto
qed

lemma slice_alloc_free_witness:
  "\<exists>t. slice_alloc (\<lambda>_. 0x10000) 0 NULL SLICE_TYPE_GC SLICE_PROT_RW 0x1000 (ex_slices, []) = Some (24, (t, []))"
proof -
  have "mapped_at (\<lambda>_. 0x10000) 0x1000 SLICE_PROT_RW ex_slices \<noteq> NULL"
    by (simp add: mapped_at_def Let_def)
  from slice_alloc_free [OF ex_slices_free _ _ this, of SLICE_TYPE_GC 0 NULL] show ?thesis
    by (auto simp: ex_slices_def type_limit_ok_def)
qed

text \<open>
  When the operating system refuses the memory, \<open>slice_alloc\<close>
  returns NULL and the free list is what it was, but the reserved space stays counted; when
  the space is refused, the uninitialised \<open>out\<close> decides: a value that is the address of a
  descriptor in use puts that descriptor on the free list.
\<close>

theorem slice_alloc_failure:
  assumes free: "slice_free_is s (p # xs)"
  shows "(total_limit s \<le> total_size s + sz \<and> type_limit_ok s type sz \<and>
      mmap (Mmap sz (prot_map ! slice_prot_index prot) # os_log s) = - 1
     \<longrightarrow> (\<exists>t. slice_alloc mmap junk_failures junk_out type prot sz (s, []) = Some (NULL, (t, [])) \<and>
       slice_free_is t (p # xs) \<and> total_size t = total_size s + sz)) \<and>
    (\<not> (total_limit s \<le> total_size s + sz \<and> type_limit_ok s type sz) \<and>
      slices s junk_out \<noteq> None \<and> junk_out \<noteq> NULL \<and> junk_out \<notin> set (p # xs)
     \<longrightarrow> (\<exists>t. slice_alloc mmap junk_failures junk_out type prot sz (s, []) = Some (NULL, (t, [])) \<and>
       slice_free_is t (junk_out # p # xs)))"
proof (intro conjI impI; elim conjE)
  assume a: "total_limit s \<le> total_size s + sz" "type_limit_ok s type sz"
    "mmap (Mmap sz (prot_map ! slice_prot_index prot) # os_log s) = - 1"
  show "\<exists>t. slice_alloc mmap junk_failures junk_out type prot sz (s, []) = Some (NULL, (t, [])) \<and>
       slice_free_is t (p # xs) \<and> total_size t = total_size s + sz"
    using slice_alloc_unmapped [OF free a(1,2), of mmap prot] a(3) by blast
next
  assume a: "\<not> (total_limit s \<le> total_size s + sz \<and> type_limit_ok s type sz)"
    "slices s junk_out \<noteq> None" "junk_out \<noteq> NULL" "junk_out \<notin> set (p # xs)"
  show "\<exists>t. slice_alloc mmap junk_failures junk_out type prot sz (s, []) = Some (NULL, (t, [])) \<and>
       slice_free_is t (junk_out # p # xs)"
    using a entry_free_quiet [OF free a(4,3,2)]
    by (auto simp: slice_alloc_def reserve_space_quiet)
qed

lemma slice_alloc_failure_witness:
  "(\<exists>t. slice_alloc (\<lambda>_. - 1) 0 NULL SLICE_TYPE_GC SLICE_PROT_RW 0x1000 (ex_slices, []) =
      Some (NULL, (t, [])) \<and> total_size t = 0x5000) \<and>
   (\<exists>t. slice_alloc (\<lambda>_. - 1) 0 72 SLICE_TYPE_GC SLICE_PROT_RW 0x1000
      (ex_slices\<lparr>total_limit := 0x9000, slices := (slices ex_slices)(72 \<mapsto> ex_slice NULL)\<rparr>, []) =
      Some (NULL, (t, [])) \<and> slice_free_is t [72, 24, 48])"
proof
  from slice_alloc_failure [OF ex_slices_free, where sz = "0x1000" and type = SLICE_TYPE_GC and
      junk_out = NULL and mmap = "\<lambda>_. - 1" and junk_failures = 0 and prot = SLICE_PROT_RW]
  show "\<exists>t. slice_alloc (\<lambda>_. - 1) 0 NULL SLICE_TYPE_GC SLICE_PROT_RW 0x1000 (ex_slices, []) =
      Some (NULL, (t, [])) \<and> total_size t = 0x5000"
    by (auto simp: ex_slices_def type_limit_ok_def)
  let ?s = "ex_slices\<lparr>total_limit := 0x9000, slices := (slices ex_slices)(72 \<mapsto> ex_slice NULL)\<rparr>"
  have "slice_free_is ?s [24, 48]"
    by (simp add: stack_is_def ex_slices_def ex_slice_def)
  from slice_alloc_failure [OF this, where sz = "0x1000" and type = SLICE_TYPE_GC and
      junk_out = 72 and mmap = "\<lambda>_. - 1" and junk_failures = 0 and prot = SLICE_PROT_RW]
  show "\<exists>t. slice_alloc (\<lambda>_. - 1) 0 72 SLICE_TYPE_GC SLICE_PROT_RW 0x1000 (?s, []) =
      Some (NULL, (t, [])) \<and> slice_free_is t [72, 24, 48]"
    by (auto simp: ex_slices_def)
qed

text \<open>
  C34 [slice_entry_alloc]. While no descriptor that left the free list comes back,
  \<open>slice_entry_alloc\<close> returns whatever the other executors do: the descriptor on top of the free
  list at the moment of its compare-and-set, when only they have acted, and the compare-and-set
  takes that descriptor off and changes nothing else; or NULL, having changed nothing, at a moment
  when the list is empty.
\<close>

theorem slice_entry_alloc_concurrent:
  assumes "slice_free_is (fst c) xs0" "env_rely (pop_rely slice_free_list_loc s_next_loc) c"
  shows "returns (slice_entry_alloc c) (\<lambda>r c'.
    if r = NULL then env_to c c' \<and> slice_free_is (fst c') []
    else \<exists>d xs x. env_to c d \<and> slice_free_is (fst d) (r # xs) \<and> slices (fst d) r = Some x \<and>
      c' = ((fst d)\<lparr>slice_free_list := s_next x\<rparr>, snd d) \<and> slice_free_is (fst c') xs)"
  unfolding slice_entry_alloc_pop
  by (rule returns_mono [OF slice_stack.pop_loop [OF assms]]) (auto split: if_splits)

lemma slice_entry_alloc_concurrent_witness:
  "returns (slice_entry_alloc (ex_slices, [id, \<lambda>s. s\<lparr>total_size := 1\<rparr>])) (\<lambda>r c'.
    r = NULL \<or> (\<exists>d xs. env_to (ex_slices, [id, \<lambda>s. s\<lparr>total_size := 1\<rparr>]) d \<and> slice_free_is (fst d) (r # xs) \<and> slice_free_is (fst c') xs))"
proof (rule returns_mono [OF slice_entry_alloc_concurrent])
  show "slice_free_is (fst (ex_slices, [id, \<lambda>s. s\<lparr>total_size := 1\<rparr>])) [24, 48]"
    by (simp add: ex_slices_free)
  have "pop_rely slice_free_list_loc s_next_loc s (s\<lparr>total_size := 1\<rparr>)" for s :: slice_state
    by (auto simp: pop_rely_def stack_is_def cong: if_cong)
  then show "env_rely (pop_rely slice_free_list_loc s_next_loc) (ex_slices, [id, \<lambda>s. s\<lparr>total_size := 1\<rparr>])"
    by (auto simp: env_rely_def pop_rely_refl)
qed (auto split: if_splits)

text \<open>Two allocations and a free, run by another executor.\<close>

definition other_executor :: "slice_state \<Rightarrow> slice_state" where
  "other_executor s = (case (do {
      (a, c) \<leftarrow> slice_entry_alloc (s, []);
      (b, c) \<leftarrow> slice_entry_alloc c;
      retry_until (slice_entry_try_free a) c }) of
     None \<Rightarrow> s | Some (_, c) \<Rightarrow> fst c)"

text \<open>
  Without that proviso it fails: between the read of \<open>s_next\<close> and the
  compare-and-set another executor allocates two descriptors and frees the first again,
  running the very code of this file. The compare-and-set still succeeds, and the free list
  then holds a descriptor that the other executor is using.
\<close>

theorem slice_entry_alloc_aba:
  "slice_free_is (other_executor ex_slices) [24] \<and>
   (\<exists>c'. slice_entry_alloc (ex_slices, [id, id, other_executor]) = Some (24, c') \<and>
      slice_free_is (fst c') [48])"
proof -
  have free: "slice_free_is ex_slices (24 # [48])" by (rule ex_slices_free)
  have 1: "slice_entry_alloc (ex_slices, []) = Some (24, (ex_slices\<lparr>slice_free_list := 48\<rparr>, []))"
    using entry_alloc_quiet [OF free] by (auto simp: ex_slices_def ex_slice_def)
  have f2: "slice_free_is (ex_slices\<lparr>slice_free_list := 48\<rparr>) [48]"
    by (simp add: stack_is_def ex_slices_def ex_slice_def)
  have 2: "slice_entry_alloc (ex_slices\<lparr>slice_free_list := 48\<rparr>, []) =
      Some (48, (ex_slices\<lparr>slice_free_list := 0\<rparr>, []))"
    using entry_alloc_quiet [OF f2] by (auto simp: ex_slices_def ex_slice_def)
  have f3: "slice_free_is (ex_slices\<lparr>slice_free_list := 0\<rparr>) []"
    by (simp add: stack_is_def)
  have 3: "retry_until (slice_entry_try_free 24) (ex_slices\<lparr>slice_free_list := 0\<rparr>, []) =
      Some ((), (slice_freed 24 (ex_slices\<lparr>slice_free_list := 0\<rparr>), []))"
    "slice_free_is (slice_freed 24 (ex_slices\<lparr>slice_free_list := 0\<rparr>)) [24]"
    by (rule entry_free_quiet [OF f3]; simp add: ex_slices_def)+
  have other: "other_executor ex_slices = slice_freed 24 (ex_slices\<lparr>slice_free_list := 0\<rparr>)"
    by (simp add: other_executor_def 1 2 3)
  have top: "slice_free_list ex_slices = 24" "slices ex_slices 24 = Some (ex_slice 48)"
    "s_next (ex_slice 48) = 48"
    by (simp_all add: ex_slices_def ex_slice_def)
  show ?thesis
  proof
    show "slice_free_is (other_executor ex_slices) [24]"
      using 3 by (simp add: other)
    have "slice_entry_alloc (ex_slices, [id, id, other_executor]) =
        Some (24, ((slice_freed 24 (ex_slices\<lparr>slice_free_list := 0\<rparr>))\<lparr>slice_free_list := 48\<rparr>, []))"
      by (simp add: slice_entry_alloc_pop retry.simps pop_attempt_def rd_def cas_def Let_def
          top slice_freed_def other [unfolded slice_freed_def])
    then show "\<exists>c'. slice_entry_alloc (ex_slices, [id, id, other_executor]) = Some (24, c') \<and>
        slice_free_is (fst c') [48]"
      by (simp add: stack_is_def ex_slices_def ex_slice_def slice_freed_def)
  qed
qed

text \<open>
  What each protection grants, from its documentation, and the protections ordered by it.
\<close>

fun grants :: "slice_prot_t \<Rightarrow> prot_flag set" where
  "grants SLICE_PROT_NONE = {}"
| "grants SLICE_PROT_R = {PROT_READ}"
| "grants SLICE_PROT_W = {PROT_WRITE}"
| "grants SLICE_PROT_RW = {PROT_READ, PROT_WRITE}"
| "grants SLICE_PROT_X = {PROT_EXEC}"
| "grants SLICE_PROT_RX = {PROT_READ, PROT_EXEC}"
| "grants SLICE_PROT_WX = {PROT_WRITE, PROT_EXEC}"
| "grants SLICE_PROT_RWX = {PROT_READ, PROT_WRITE, PROT_EXEC}"

lemma grants_inj: "grants p = grants q \<Longrightarrow> p = q"
  by (cases p; cases q) auto

instantiation slice_prot_t :: order_bot
begin

definition less_eq_slice_prot_t :: "slice_prot_t \<Rightarrow> slice_prot_t \<Rightarrow> bool" where
  "less_eq_slice_prot_t p q \<longleftrightarrow> grants p \<subseteq> grants q"

definition less_slice_prot_t :: "slice_prot_t \<Rightarrow> slice_prot_t \<Rightarrow> bool" where
  "less_slice_prot_t p q \<longleftrightarrow> grants p \<subset> grants q"

definition bot_slice_prot_t :: slice_prot_t where
  "bot_slice_prot_t = SLICE_PROT_NONE"

instance
  by standard (auto simp: less_eq_slice_prot_t_def less_slice_prot_t_def bot_slice_prot_t_def
      intro: grants_inj)

end

text \<open>
  The table that turns a protection into the argument of \<open>mmap\<close> and
  \<open>mprotect\<close> exchanges reading and executing: memory asked for as readable is mapped
  executable and the other way round. It is right exactly for the protections that have
  both or neither.
\<close>

theorem prot_map_swaps_read_exec:
  "slice_prot_index prot < length prot_map \<and>
   (PROT_READ \<in> prot_map ! slice_prot_index prot) = (PROT_EXEC \<in> grants prot) \<and>
   (PROT_EXEC \<in> prot_map ! slice_prot_index prot) = (PROT_READ \<in> grants prot) \<and>
   (PROT_WRITE \<in> prot_map ! slice_prot_index prot) = (PROT_WRITE \<in> grants prot) \<and>
   (prot_map ! slice_prot_index prot = grants prot) =
     (SLICE_PROT_RX \<le> prot \<or> prot \<le> SLICE_PROT_W)"
  by (cases prot) (auto simp: prot_map_def less_eq_slice_prot_t_def)

fun usage_advice :: "slice_usage_t \<Rightarrow> madvice" where
  "usage_advice SLICE_USAGE_USED = MADV_WILLNEED"
| "usage_advice SLICE_USAGE_UNUSED = MADV_DONTNEED"
| "usage_advice SLICE_USAGE_BLANK = MADV_FREE"

text \<open>
  \<open>slice_set_prot\<close> makes one \<open>mprotect\<close> call when the recorded
  protection differs and none otherwise, and \<open>slice_set_usage\<close> one \<open>madvise\<close> call when the
  recorded usage differs; both leave the new value recorded, so repeating them does nothing.
  The recorded protection of a new slice is not the one it was mapped with: \<open>slice_alloc\<close>
  never writes it.
\<close>

theorem slice_set_prot_usage:
  assumes "slices s p = Some d" "p \<noteq> NULL"
  shows "slice_set_prot p prot (s, fs) = Some ((), (if s_prot d = prot then s else
      s\<lparr>slices := (slices s)(p \<mapsto> d\<lparr>s_prot := prot\<rparr>),
        os_log := Mprotect (s_ptr d) (s_size d) (prot_map ! slice_prot_index prot) # os_log s\<rparr>, fs)) \<and>
    slice_set_usage p usage (s, fs) = Some ((), (if s_usage d = usage then s else
      s\<lparr>slices := (slices s)(p \<mapsto> d\<lparr>s_usage := usage\<rparr>),
        os_log := Madvise (s_ptr d) (s_size d) (usage_advice usage) # os_log s\<rparr>, fs))"
  using assms
  by (cases usage)
    (simp_all add: slice_set_prot_def slice_set_usage_def prd_def pwr_def os_mem_remap_def
      os_mem_willneed_def os_mem_dontneed_def os_mem_release_def os_call_def)

lemma slice_set_prot_usage_witness:
  "slice_set_prot 24 SLICE_PROT_NONE (ex_slices, []) = Some ((), (ex_slices, [])) \<and>
   slice_set_usage 24 SLICE_USAGE_BLANK (ex_slices, []) = Some ((), (ex_slices, []))"
  using slice_set_prot_usage [of ex_slices 24 "ex_slice 48"]
  by (simp add: ex_slices_def) (simp add: ex_slice_def)

end
