(* ===== verification/MS_Queue.thy ===== *)
theory MS_Queue
  imports Atomic
begin

section \<open>The queue of Michael and Scott, with hazard pointers\<close>

text \<open>
  Three queues of the runtime are the same algorithm over different nodes: the block queue
  of malloc, the thread queue of the schedulers and the object queue of the collector. This
  theory holds the two attempts over arbitrary locations (head, tail, next pointer and data
  of a node, the two hazard pointers of the calling executor, the retiring of a node), the
  contract of a queue, and the proof that the attempts implement it. Each component shows
  that its own code is these attempts on its own locations.
\<close>

definition ms_try_enqueue ::
  "('s, ptr) loc \<Rightarrow> (ptr \<Rightarrow> ('s, ptr) loc) \<Rightarrow> (nat \<Rightarrow> ('s, ptr) loc) \<Rightarrow> ptr \<Rightarrow>
   's conc \<Rightarrow> (ptr \<times> 's conc) option" where
  "ms_try_enqueue tll nx hz node c = do {
     (tail, c) \<leftarrow> rd tll c;
     (_, c) \<leftarrow> wr (hz 0) tail c;
     (tail2, c) \<leftarrow> rd tll c;
     if tail = tail2 then do {
       (next, c) \<leftarrow> rd (nx tail) c;
       (tail3, c) \<leftarrow> rd tll c;
       if tail = tail3 then
         (if next \<noteq> NULL then do {
            (_, c) \<leftarrow> atomic_compare_and_set_ptr tail next tll c;
            Some (NULL, c) }
          else do {
            (ok, c) \<leftarrow> atomic_compare_and_set_ptr NULL node (nx tail) c;
            Some (if ok then tail else NULL, c) })
       else Some (NULL, c) }
     else Some (NULL, c) }"

definition ms_try_dequeue ::
  "('s, ptr) loc \<Rightarrow> ('s, ptr) loc \<Rightarrow> (ptr \<Rightarrow> ('s, ptr) loc) \<Rightarrow> (ptr \<Rightarrow> ('s, ptr) loc) \<Rightarrow>
   (nat \<Rightarrow> ('s, ptr) loc) \<Rightarrow> (ptr \<Rightarrow> 's conc \<Rightarrow> (unit \<times> 's conc) option) \<Rightarrow>
   's conc \<Rightarrow> (opt_t \<times> 's conc) option" where
  "ms_try_dequeue hdl tll nx dt hz retire c = do {
     (head, c) \<leftarrow> rd hdl c;
     let out = \<lparr>o_value = NULL, o_valid = False\<rparr>;
     (_, c) \<leftarrow> wr (hz 0) head c;
     (head2, c) \<leftarrow> rd hdl c;
     if head = head2 then do {
       (tail, c) \<leftarrow> rd tll c;
       (next, c) \<leftarrow> rd (nx head) c;
       (_, c) \<leftarrow> wr (hz 1) next c;
       (head3, c) \<leftarrow> rd hdl c;
       if head = head3 then
         (if next \<noteq> NULL then
            (if head \<noteq> tail then do {
               (ok, c) \<leftarrow> atomic_compare_and_set_ptr head next hdl c;
               if ok then do {
                 (data, c) \<leftarrow> rd (dt next) c;
                 (_, c) \<leftarrow> wr (hz 1) NULL c;
                 (_, c) \<leftarrow> retire head c;
                 (_, c) \<leftarrow> wr (hz 0) NULL c;
                 Some (\<lparr>o_value = data, o_valid = True\<rparr>, c) }
               else Some (out, c) }
             else do {
               (_, c) \<leftarrow> atomic_compare_and_set_ptr tail next tll c;
               Some (out, c) })
          else do {
            (_, c) \<leftarrow> wr (hz 0) NULL c;
            (_, c) \<leftarrow> wr (hz 1) NULL c;
            Some (out\<lparr>o_valid := True\<rparr>, c) })
       else Some (out, c) }
     else Some (out, c) }"

text \<open>
  The nodes of a queue: a sentinel, then the nodes that hold data, linked to NULL; the tail
  pointer may lag behind the last node.
\<close>

definition ms_queue ::
  "('s, ptr) loc \<Rightarrow> ('s, ptr) loc \<Rightarrow> (ptr \<Rightarrow> ('s, ptr) loc) \<Rightarrow> (ptr \<Rightarrow> ('s, ptr) loc) \<Rightarrow>
   's \<Rightarrow> ptr \<Rightarrow> ptr list \<Rightarrow> ptr list \<Rightarrow> bool" where
  "ms_queue hdl tll nx dt s sent nodes vals \<longleftrightarrow> load hdl s = Some sent \<and>
     chain (\<lambda>p. load (nx p) s) sent (sent # nodes) NULL \<and>
     (\<exists>t \<in> set (sent # nodes). load tll s = Some t) \<and>
     map (\<lambda>p. load (dt p) s) nodes = map Some vals"

lemma ms_queue_distinct: "ms_queue hdl tll nx dt s sent nodes vals \<Longrightarrow> distinct (sent # nodes)"
  unfolding ms_queue_def using chain_distinct by blast

lemma ms_queue_not_NULL: "ms_queue hdl tll nx dt s sent nodes vals \<Longrightarrow> NULL \<notin> set (sent # nodes)"
  unfolding ms_queue_def using chain_not_NULL by blast

lemma ms_queue_cong:
  assumes "load hdl t = load hdl s" "load tll t = load tll s"
    and "\<And>p. p \<in> set (sent # nodes) \<Longrightarrow> load (nx p) t = load (nx p) s"
    and "\<And>p. p \<in> set nodes \<Longrightarrow> load (dt p) t = load (dt p) s"
  shows "ms_queue hdl tll nx dt t sent nodes vals = ms_queue hdl tll nx dt s sent nodes vals"
proof -
  have c: "chain (\<lambda>p. load (nx p) t) sent (sent # nodes) NULL =
      chain (\<lambda>p. load (nx p) s) sent (sent # nodes) NULL"
    by (rule chain_cong) (use assms(3) in auto)
  have m: "map (\<lambda>p. load (dt p) t) nodes = map (\<lambda>p. load (dt p) s) nodes"
    using assms(4) by auto
  show ?thesis unfolding ms_queue_def assms(1,2) c m by (rule refl)
qed

locale ms_locs = linked_nodes nx for nx :: "ptr \<Rightarrow> ('s, ptr) loc" +
  fixes hdl tll :: "('s, ptr) loc" and dt :: "ptr \<Rightarrow> ('s, ptr) loc" and hz :: "nat \<Rightarrow> ('s, ptr) loc"
    and live :: "'s \<Rightarrow> bool"
  assumes live_load: "live s \<Longrightarrow> load hdl s \<noteq> None \<and> load tll s \<noteq> None \<and> load (hz 0) s \<noteq> None \<and> load (hz 1) s \<noteq> None"
    and live_store: "live s \<Longrightarrow> live (store hdl v s)" "live s \<Longrightarrow> live (store tll v s)"
      "live s \<Longrightarrow> live (store (nx p) v s)" "live s \<Longrightarrow> i < 2 \<Longrightarrow> live (store (hz i) v s)"
    and hd_laws: "live s \<Longrightarrow> load hdl (store hdl v s) = Some v" "load hdl (store tll v s) = load hdl s"
      "load hdl (store (nx p) v s) = load hdl s" "load hdl (store (hz i) v s) = load hdl s"
    and tl_laws: "load tll (store hdl v s) = load tll s" "live s \<Longrightarrow> load tll (store tll v s) = Some v"
      "load tll (store (nx p) v s) = load tll s" "load tll (store (hz i) v s) = load tll s"
    and nx_laws: "load (nx p) (store hdl v s) = load (nx p) s"
      "load (nx p) (store tll v s) = load (nx p) s" "load (nx p) (store (hz i) v s) = load (nx p) s"
    and dt_laws: "load (dt p) (store hdl v s) = load (dt p) s"
      "load (dt p) (store tll v s) = load (dt p) s" "load (dt p) (store (hz i) v s) = load (dt p) s"
      "load (dt p) (store (nx q) v s) = load (dt p) s"
begin

lemmas laws = hd_laws tl_laws nx_laws dt_laws

abbreviation "is_queue \<equiv> ms_queue hdl tll nx dt"

lemma hz_wr: "live s \<Longrightarrow> i < 2 \<Longrightarrow> wr (hz i) v (s, []) = Some ((), (store (hz i) v s, []))"
  using live_load [of s] by (cases "i = 0") (auto simp: wr_def Let_def less_2_cases_iff)

lemma is_queue_hz: "is_queue (store (hz i) v s) sent nodes vals = is_queue s sent nodes vals"
  by (rule ms_queue_cong) (simp_all add: laws)

lemma is_queue_tl:
  assumes "is_queue s sent nodes vals" "live s" "t \<in> set (sent # nodes)"
  shows "is_queue (store tll t s) sent nodes vals"
  using assms unfolding ms_queue_def by (auto simp: laws)

lemma attempt_enqueue_advances:
  assumes q: "is_queue s sent nodes vals" and lv: "live s"
    and t: "load tll s = Some t" "sent # nodes = as @ t # n # bs"
  shows "ms_try_enqueue tll nx hz node (s, []) =
    Some (NULL, (store tll n (store (hz 0) t s), []))"
proof -
  have "chain (\<lambda>p. load (nx p) s) sent (as @ t # n # bs) NULL"
    using q t unfolding ms_queue_def by simp
  then have "load (nx t) s = Some n" "n \<noteq> NULL"
    by (auto split: option.splits)
  then show ?thesis using t lv live_load [OF lv]
    by (auto simp: ms_try_enqueue_def atomic_cas_defs rd_def wr_def cas_def laws live_store Let_def)
qed

lemma attempt_enqueue_links:
  assumes q: "is_queue s sent nodes vals" and lv: "live s"
    and t: "load tll s = Some t" "sent # nodes = as @ [t]"
  shows "ms_try_enqueue tll nx hz node (s, []) =
      Some (t, (store (nx t) node (store (hz 0) t s), [])) \<and> load (nx t) s = Some NULL \<and> t \<noteq> NULL"
proof -
  have "chain (\<lambda>p. load (nx p) s) sent (as @ [t]) NULL"
    using q t unfolding ms_queue_def by simp
  then have "load (nx t) s = Some NULL" "t \<noteq> NULL"
    by (auto split: option.splits)
  then show ?thesis using t lv live_load [OF lv]
    by (auto simp: ms_try_enqueue_def atomic_cas_defs rd_def wr_def cas_def laws live_store Let_def)
qed

text \<open>
  An enqueue that nobody disturbs links its node after the last one, whatever the lag of
  the tail pointer, and leaves alone what does not depend on the tail, the hazard pointer
  and the next pointers of the queue's own nodes.
\<close>

lemma is_queue_link:
  assumes q: "is_queue s sent nodes vals" and t: "sent # nodes = as @ [t]"
    and node: "node \<notin> set (sent # nodes)" "node \<noteq> NULL" "load (nx node) s = Some NULL"
      "load (dt node) s = Some d"
  shows "is_queue (store (nx t) node s) sent (nodes @ [node]) (vals @ [d])"
proof -
  have ch: "chain (\<lambda>p. load (nx p) s) sent (as @ [t]) NULL"
    using q t unfolding ms_queue_def by simp
  then obtain r where r: "chain (\<lambda>p. load (nx p) s) sent as r" "r = t" "t \<noteq> NULL"
    "load (nx t) s = Some NULL"
    by (auto split: option.splits)
  have dist: "t \<notin> set as" using ms_queue_distinct [OF q] t by auto
  have nt: "node \<noteq> t" using node(1) t by auto
  have ld: "load (nx t) s \<noteq> None" using r by simp
  have "chain (\<lambda>p. load (nx p) (store (nx t) node s)) sent as t =
      chain (\<lambda>p. load (nx p) s) sent as t"
    by (rule chain_cong) (use dist nx_store [OF ld] in auto)
  then have "chain (\<lambda>p. load (nx p) (store (nx t) node s)) sent ((as @ [t]) @ [node]) NULL"
    using r node nt nx_store [OF ld] by (auto split: option.splits)
  moreover have "(as @ [t]) @ [node] = sent # (nodes @ [node])" using t by simp
  ultimately have "chain (\<lambda>p. load (nx p) (store (nx t) node s)) sent (sent # (nodes @ [node])) NULL"
    by metis
  then show ?thesis
    using q node(4) unfolding ms_queue_def by (auto simp: laws)
qed

lemma enqueue_loop:
  assumes q: "is_queue s sent nodes vals" and lv: "live s"
    and node: "node \<notin> set (sent # nodes)" "node \<noteq> NULL" "load (nx node) s = Some NULL"
      "load (dt node) s = Some d"
    and I: "I s" "\<And>v s. I s \<Longrightarrow> I (store tll v s)" "\<And>v s. I s \<Longrightarrow> I (store (hz 0) v s)"
      "\<And>p v s. p \<in> set (sent # nodes) \<Longrightarrow> I s \<Longrightarrow> I (store (nx p) v s)"
  shows "returns (retry_nonnull (ms_try_enqueue tll nx hz node) (s, [])) (\<lambda>t c'.
    snd c' = [] \<and> load tll (fst c') = Some t \<and> live (fst c') \<and> I (fst c') \<and>
    is_queue (fst c') sent (nodes @ [node]) (vals @ [d]))"
proof -
  have "returns (retry_nonnull (ms_try_enqueue tll nx hz node) (s, [])) (\<lambda>t c'.
      snd c' = [] \<and> load tll (fst c') = Some t \<and> live (fst c') \<and> I (fst c') \<and>
      is_queue (fst c') sent (nodes @ [node]) (vals @ [d]))"
    if "sent # nodes = as @ t # bs" "load tll s = Some t" "is_queue s sent nodes vals" "live s"
      "load (nx node) s = Some NULL" "load (dt node) s = Some d" "I s" for as t bs s
    using that
  proof (induction bs arbitrary: as t s)
    case Nil
    note att = attempt_enqueue_links [OF Nil.prems(3,4,2,1)]
    let ?s = "store (hz 0) t s"
    have "is_queue (store (nx t) node ?s) sent (nodes @ [node]) (vals @ [d])"
      by (rule is_queue_link) (use Nil.prems node in \<open>simp_all add: is_queue_hz laws\<close>)
    moreover have "t \<in> set (sent # nodes)" using Nil.prems by simp
    ultimately show ?case
      using att Nil.prems I by (intro retry_nonnull_now) (auto simp: laws live_store)
  next
    case (Cons n bs)
    note att = attempt_enqueue_advances [OF Cons.prems(3,4,2,1)]
    let ?s = "store tll n (store (hz 0) t s)"
    have "n \<in> set (sent # nodes)" using Cons.prems by simp
    then have "is_queue ?s sent nodes vals"
      using Cons.prems by (intro is_queue_tl) (auto simp: is_queue_hz live_store)
    then have "returns (retry_nonnull (ms_try_enqueue tll nx hz node) (?s, [])) (\<lambda>t c'.
      snd c' = [] \<and> load tll (fst c') = Some t \<and> live (fst c') \<and> I (fst c') \<and>
      is_queue (fst c') sent (nodes @ [node]) (vals @ [d]))"
      using Cons.prems I by (intro Cons.IH [of "as @ [t]" n ?s]) (auto simp: laws live_store)
    then show ?case using retry_nonnull_again [of "ms_try_enqueue tll nx hz node", OF att] by simp
  qed
  note gen = this
  obtain t where "t \<in> set (sent # nodes)" and t: "load tll s = Some t"
    using q unfolding ms_queue_def by blast
  then obtain as bs where "sent # nodes = as @ t # bs" using split_list by fast
  then show ?thesis by (rule gen) (use t q lv node I(1) in auto)
qed

text \<open>A dequeue that nobody disturbs.\<close>

lemma attempt_dequeue_empty:
  assumes q: "is_queue s sent [] []" and lv: "live s"
  shows "ms_try_dequeue hdl tll nx dt hz retire (s, []) = Some (\<lparr>o_value = NULL, o_valid = True\<rparr>,
    (store (hz 1) NULL (store (hz 0) NULL (store (hz 1) NULL (store (hz 0) sent s))), []))"
proof -
  from q have "load hdl s = Some sent" "load (nx sent) s = Some NULL" "load tll s = Some sent"
    unfolding ms_queue_def by (auto split: option.splits)
  then show ?thesis using lv
    by (simp add: ms_try_dequeue_def atomic_cas_defs rd_def cas_def laws live_store Let_def hz_wr)
qed

lemma attempt_dequeue_lags:
  assumes q: "is_queue s sent (n # ns) vals" and lv: "live s" and t: "load tll s = Some sent"
  shows "ms_try_dequeue hdl tll nx dt hz retire (s, []) = Some (\<lparr>o_value = NULL, o_valid = False\<rparr>,
    (store tll n (store (hz 1) n (store (hz 0) sent s)), []))"
proof -
  from q have "load hdl s = Some sent" "load (nx sent) s = Some n" "n \<noteq> NULL"
    unfolding ms_queue_def by (auto split: option.splits)
  then show ?thesis using lv t
    by (simp add: ms_try_dequeue_def atomic_cas_defs rd_def cas_def laws live_store Let_def hz_wr)
qed

lemma attempt_dequeue_takes:
  assumes q: "is_queue s sent (n # ns) (v # vs)" and lv: "live s"
    and t: "load tll s = Some t" "t \<noteq> sent"
  defines "u \<equiv> store (hz 1) NULL (store hdl n (store (hz 1) n (store (hz 0) sent s)))"
  shows "ms_try_dequeue hdl tll nx dt hz retire (s, []) = do {
      (_, c) \<leftarrow> retire sent (u, []);
      (_, c) \<leftarrow> wr (hz 0) NULL c;
      Some (\<lparr>o_value = v, o_valid = True\<rparr>, c) }"
    and "is_queue u n ns vs" and "live u"
proof -
  from q have h: "load hdl s = Some sent" "load (nx sent) s = Some n" "n \<noteq> NULL"
    "load (dt n) s = Some v"
    unfolding ms_queue_def by (auto split: option.splits)
  then show "ms_try_dequeue hdl tll nx dt hz retire (s, []) = do {
      (_, c) \<leftarrow> retire sent (u, []);
      (_, c) \<leftarrow> wr (hz 0) NULL c;
      Some (\<lparr>o_value = v, o_valid = True\<rparr>, c) }"
    using lv t unfolding u_def
    by (simp add: ms_try_dequeue_def atomic_cas_defs rd_def [of hdl] rd_def [of tll]
        rd_def [of "nx _"] rd_def [of "dt _"] cas_def laws live_store Let_def hz_wr)
  show "live u" unfolding u_def using lv by (simp add: live_store)
  have "load hdl u = Some n" "load tll u = Some t" "\<And>p. load (nx p) u = load (nx p) s"
    "\<And>p. load (dt p) u = load (dt p) s"
    unfolding u_def using lv t by (simp_all add: laws live_store)
  moreover have "t \<in> set (n # ns)" using q t unfolding ms_queue_def by auto
  moreover have "chain (\<lambda>p. load (nx p) s) n (n # ns) NULL"
    using q h unfolding ms_queue_def by simp
  moreover have "map (\<lambda>p. load (dt p) s) ns = map Some vs"
    using q unfolding ms_queue_def by simp
  ultimately show "is_queue u n ns vs" unfolding ms_queue_def by simp
qed

lemma dequeue_loop:
  assumes q: "is_queue s sent (n # ns) (v # vs)" and lv: "live s"
    and I: "I s" "\<And>v s. I s \<Longrightarrow> I (store hdl v s)" "\<And>v s. I s \<Longrightarrow> I (store tll v s)"
      "\<And>i v s. i < 2 \<Longrightarrow> I s \<Longrightarrow> I (store (hz i) v s)"
    and retire: "\<And>u. is_queue u n ns vs \<Longrightarrow> live u \<Longrightarrow> I u \<Longrightarrow>
      returns (retire sent (u, [])) (\<lambda>_ c'. snd c' = [] \<and> live (fst c') \<and> Q (store (hz 0) NULL (fst c')))"
  shows "returns (retry_valid (ms_try_dequeue hdl tll nx dt hz retire) (s, []))
    (\<lambda>r c'. r = v \<and> snd c' = [] \<and> Q (fst c'))"
proof -
  have takes: "returns (retry_valid (ms_try_dequeue hdl tll nx dt hz retire) (s, []))
      (\<lambda>r c'. r = v \<and> snd c' = [] \<and> Q (fst c'))"
    if "is_queue s sent (n # ns) (v # vs)" "live s" "I s" "load tll s = Some t" "t \<noteq> sent" for s t
  proof (rule retry_valid_now)
    let ?u = "store (hz 1) NULL (store hdl n (store (hz 1) n (store (hz 0) sent s)))"
    note att = attempt_dequeue_takes [OF that(1,2,4,5)]
    have "I ?u" using that(3) I by simp
    from retire [OF att(2,3) this]
    show "returns (ms_try_dequeue hdl tll nx dt hz retire (s, []))
        (\<lambda>r c'. o_valid r \<and> o_value r = v \<and> snd c' = [] \<and> Q (fst c'))"
      by (auto simp: att(1) returns_ex hz_wr)
  qed
  obtain t where t: "t \<in> set (sent # n # ns)" "load tll s = Some t"
    using q unfolding ms_queue_def by blast
  show ?thesis
  proof (cases "t = sent")
    case True
    then have ts: "load tll s = Some sent" using t by simp
    note att = attempt_dequeue_lags [OF q lv ts]
    let ?s = "store tll n (store (hz 1) n (store (hz 0) sent s))"
    have "is_queue ?s sent (n # ns) (v # vs)"
      using q lv by (intro is_queue_tl) (auto simp: is_queue_hz live_store)
    moreover have "n \<noteq> sent" using ms_queue_distinct [OF q] by auto
    ultimately have "returns (retry_valid (ms_try_dequeue hdl tll nx dt hz retire) (?s, []))
        (\<lambda>r c'. r = v \<and> snd c' = [] \<and> Q (fst c'))"
      using lv I by (intro takes [of ?s n]) (auto simp: live_store laws)
    then show ?thesis
      using retry_valid_again [of "ms_try_dequeue hdl tll nx dt hz retire", OF att] by simp
  next
    case False
    then show ?thesis using takes [OF q lv I(1) t(2)] by simp
  qed
qed

end

end
