(* ===== verification/MS_Rely.thy ===== *)
theory MS_Rely
  imports MS_Queue Stack
begin

section \<open>The enqueue of Michael and Scott under interference\<close>

text \<open>
  Between any two accesses of an enqueue the other executors may change the queue in every way
  that leaves a queue and respects the hazard pointer of the caller. The loop then returns, and
  its node is linked behind the last node of the queue by one compare-and-set. The attempts are
  those of \<open>MS_Queue\<close>; the interference is the rely condition \<open>ms_rely\<close>.
\<close>

text \<open>The state in which \<open>node\<close>, which holds \<open>v\<close>, is ready to be enqueued.\<close>

definition ms_in_queue ::
  "('s, ptr) loc \<Rightarrow> ('s, ptr) loc \<Rightarrow> (ptr \<Rightarrow> ('s, ptr) loc) \<Rightarrow> (ptr \<Rightarrow> ('s, ptr) loc) \<Rightarrow> 's \<Rightarrow> ptr \<Rightarrow> bool" where
  "ms_in_queue hdl tll nx dt s p \<longleftrightarrow> (\<exists>sent nodes vals. ms_queue hdl tll nx dt s sent nodes vals \<and> p \<in> set (sent # nodes))"

definition ms_ready ::
  "('s, ptr) loc \<Rightarrow> ('s, ptr) loc \<Rightarrow> (ptr \<Rightarrow> ('s, ptr) loc) \<Rightarrow> (ptr \<Rightarrow> ('s, ptr) loc) \<Rightarrow> ('s \<Rightarrow> bool) \<Rightarrow> ptr \<Rightarrow> ptr \<Rightarrow> 's \<Rightarrow> bool" where
  "ms_ready hdl tll nx dt live node v s \<longleftrightarrow> live s \<and> (\<exists>sent nodes vals. ms_queue hdl tll nx dt s sent nodes vals) \<and>
     node \<noteq> NULL \<and> \<not> ms_in_queue hdl tll nx dt s node \<and> load (nx node) s = Some NULL \<and> load (dt node) s = Some v"

text \<open>
  What a hazard pointer to a node with the link \<open>n\<close> (NULL for none) is worth: while the node is
  in the queue a link is not changed, and when it has left, its link is not NULL.
\<close>

definition ms_held ::
  "('s, ptr) loc \<Rightarrow> ('s, ptr) loc \<Rightarrow> (ptr \<Rightarrow> ('s, ptr) loc) \<Rightarrow> (ptr \<Rightarrow> ('s, ptr) loc) \<Rightarrow> ptr \<Rightarrow> ptr \<Rightarrow> 's \<Rightarrow> bool" where
  "ms_held hdl tll nx dt p n s \<longleftrightarrow> (if ms_in_queue hdl tll nx dt s p then n \<noteq> NULL \<longrightarrow> load (nx p) s = Some n
     else \<exists>m. load (nx p) s = Some m \<and> m \<noteq> NULL)"

text \<open>What the other executors must keep for an enqueue of \<open>node\<close>.\<close>

definition ms_rely ::
  "('s, ptr) loc \<Rightarrow> ('s, ptr) loc \<Rightarrow> (ptr \<Rightarrow> ('s, ptr) loc) \<Rightarrow> (ptr \<Rightarrow> ('s, ptr) loc) \<Rightarrow> (nat \<Rightarrow> ('s, ptr) loc) \<Rightarrow> ('s \<Rightarrow> bool) \<Rightarrow>
   ptr \<Rightarrow> ptr \<Rightarrow> 's \<Rightarrow> 's \<Rightarrow> bool" where
  "ms_rely hdl tll nx dt hz live node v s t \<longleftrightarrow> (ms_ready hdl tll nx dt live node v s \<longrightarrow>
     ms_ready hdl tll nx dt live node v t \<and> load (hz 0) t = load (hz 0) s \<and>
     (\<forall>p n. load (hz 0) s = Some p \<and> ms_held hdl tll nx dt p n s \<longrightarrow> ms_held hdl tll nx dt p n t))"

text \<open>The outcome: the node was put behind the last one, in one step.\<close>

definition ms_linked ::
  "('s, ptr) loc \<Rightarrow> ('s, ptr) loc \<Rightarrow> (ptr \<Rightarrow> ('s, ptr) loc) \<Rightarrow> (ptr \<Rightarrow> ('s, ptr) loc) \<Rightarrow> ptr \<Rightarrow> ptr \<Rightarrow> ptr \<Rightarrow> 's \<Rightarrow> bool" where
  "ms_linked hdl tll nx dt node v t s' \<longleftrightarrow> (\<exists>s sent nodes vals. ms_queue hdl tll nx dt s sent nodes vals \<and>
     last (sent # nodes) = t \<and> s' = store (nx t) node s \<and>
     ms_queue hdl tll nx dt s' sent (nodes @ [node]) (vals @ [v]))"

lemma ms_rely_refl: "ms_rely hdl tll nx dt hz live node v s s"
  by (simp add: ms_rely_def)

locale ms_hazard = ms_locs nx hdl tll dt hz live
  for nx :: "ptr \<Rightarrow> ('s, ptr) loc" and hdl tll :: "('s, ptr) loc" and dt :: "ptr \<Rightarrow> ('s, ptr) loc"
    and hz :: "nat \<Rightarrow> ('s, ptr) loc" and live :: "'s \<Rightarrow> bool" +
  assumes hz_load: "live s \<Longrightarrow> load (hz 0) (store (hz 0) v s) = Some v"
    and hz_frame: "load (hz 0) (store hdl v s) = load (hz 0) s" "load (hz 0) (store tll v s) = load (hz 0) s"
      "load (hz 0) (store (nx p) v s) = load (hz 0) s"
begin

abbreviation "in_queue \<equiv> ms_in_queue hdl tll nx dt"
abbreviation "ready \<equiv> ms_ready hdl tll nx dt live"
abbreviation "held \<equiv> ms_held hdl tll nx dt"
abbreviation "rely \<equiv> ms_rely hdl tll nx dt hz live"
abbreviation "linked \<equiv> ms_linked hdl tll nx dt"

lemma ready_live: "ready node v s \<Longrightarrow> live s"
  by (simp add: ms_ready_def)

lemma queue_is_one:
  assumes "is_queue s sent nodes vals" "is_queue s sent' nodes' vals'"
  shows "sent' = sent \<and> nodes' = nodes \<and> vals' = vals"
proof -
  have "sent' = sent" using assms unfolding ms_queue_def by simp
  moreover from this have "sent # nodes' = sent # nodes"
    using assms unfolding ms_queue_def by (intro chain_unique) auto
  moreover from this have "map Some vals' = map Some vals"
    using assms unfolding ms_queue_def by auto
  ultimately show ?thesis by (simp add: inj_map_eq_map)
qed

lemma in_queue_iff: "is_queue s sent nodes vals \<Longrightarrow> in_queue s p = (p \<in> set (sent # nodes))"
  unfolding ms_in_queue_def using queue_is_one by blast

lemma ready_iff:
  assumes "is_queue s sent nodes vals"
  shows "ready node v s \<longleftrightarrow> live s \<and> node \<noteq> NULL \<and> node \<notin> set (sent # nodes) \<and>
    load (nx node) s = Some NULL \<and> load (dt node) s = Some v"
  using assms unfolding ms_ready_def in_queue_iff [OF assms] by blast

lemma ready_tail: "ready node v s \<Longrightarrow> \<exists>t. load tll s = Some t \<and> in_queue s t"
  unfolding ms_ready_def ms_in_queue_def ms_queue_def by fastforce

lemma ready_hz:
  assumes "ready node v s"
  shows "ready node v (store (hz 0) w s)"
proof -
  obtain sent nodes vals where q: "is_queue s sent nodes vals" using assms by (auto simp: ms_ready_def)
  have q': "is_queue (store (hz 0) w s) sent nodes vals" using q by (simp add: is_queue_hz)
  show ?thesis using assms live_store(4) [of s 0 w] by (simp add: ready_iff [OF q] ready_iff [OF q'] laws)
qed

lemma in_queue_link:
  assumes "is_queue s sent nodes vals" "p \<in> set (sent # nodes)"
  obtains n where "load (nx p) s = Some n" "n \<noteq> NULL \<Longrightarrow> n \<in> set (sent # nodes)"
    "n = NULL \<Longrightarrow> last (sent # nodes) = p"
proof -
  obtain as bs where ab: "sent # nodes = as @ p # bs" using assms(2) split_list by metis
  then have ch: "chain (\<lambda>p. load (nx p) s) sent (as @ p # bs) NULL"
    using assms(1) unfolding ms_queue_def by simp
  then obtain n where n: "load (nx p) s = Some n" "chain (\<lambda>p. load (nx p) s) n bs NULL"
    by (auto split: option.splits)
  show thesis
  proof (rule that [OF n(1)])
    show "n \<in> set (sent # nodes)" if "n \<noteq> NULL" using that n(2) ab by (cases bs) auto
    show "last (sent # nodes) = p" if "n = NULL" using that n(2) unfolding ab by (cases bs) auto
  qed
qed

lemma ready_advance:
  assumes r: "ready node v s" and t: "load tll s = Some t" "load (nx t) s = Some n" "n \<noteq> NULL"
  shows "ready node v (store tll n s)"
proof -
  obtain sent nodes vals where q: "is_queue s sent nodes vals" using r by (auto simp: ms_ready_def)
  have tq: "t \<in> set (sent # nodes)" using q t(1) unfolding ms_queue_def by auto
  have "n \<in> set (sent # nodes)" by (rule in_queue_link [OF q tq]) (use t in simp)
  with q r have q': "is_queue (store tll n s) sent nodes vals"
    by (intro is_queue_tl) (auto simp: ms_ready_def)
  show ?thesis using r live_store(2) [of s n] by (simp add: ready_iff [OF q] ready_iff [OF q'] laws)
qed

lemma ready_link:
  assumes r: "ready node v s" and t: "in_queue s t" "load (nx t) s = Some NULL"
  shows "linked node v t (store (nx t) node s)"
proof -
  obtain sent nodes vals where q: "is_queue s sent nodes vals" using r by (auto simp: ms_ready_def)
  have tq: "t \<in> set (sent # nodes)" using t(1) in_queue_iff [OF q] by simp
  have l: "last (sent # nodes) = t" by (rule in_queue_link [OF q tq]) (use t(2) in simp)
  then obtain as where "sent # nodes = as @ [t]" by (metis append_butlast_last_id list.distinct(1))
  from is_queue_link [OF q this] r have "is_queue (store (nx t) node s) sent (nodes @ [node]) (vals @ [v])"
    by (simp add: ready_iff [OF q])
  then show ?thesis using q l unfolding ms_linked_def by blast
qed

text \<open>
  What the other executors do to a queue satisfies the rely condition: they link a node,
  advance the tail, advance the head, and overwrite the link of a node that has left, if it is
  not with NULL.
\<close>

lemma relyI:
  assumes "ready node v s \<Longrightarrow> ready node v t" "load (hz 0) t = load (hz 0) s"
    and "\<And>p n. ready node v s \<Longrightarrow> held p n s \<Longrightarrow> held p n t"
  shows "rely node v s t"
  using assms unfolding ms_rely_def by blast

lemma held_iff:
  assumes "is_queue s sent nodes vals"
  shows "held p n s \<longleftrightarrow> (if p \<in> set (sent # nodes) then n \<noteq> NULL \<longrightarrow> load (nx p) s = Some n
    else \<exists>m. load (nx p) s = Some m \<and> m \<noteq> NULL)"
  unfolding ms_held_def in_queue_iff [OF assms] by (rule refl)

lemma rely_link:
  assumes q: "is_queue s sent nodes vals" and t: "sent # nodes = as @ [t]"
    and m: "ready m d s" "m \<noteq> node"
  shows "rely node v s (store (nx t) m s)"
proof (rule relyI)
  have r: "node' \<noteq> NULL" "node' \<notin> set (sent # nodes)" "load (nx node') s = Some NULL" "load (dt node') s = Some v'"
    if "ready node' v' s" for node' v' using that by (simp_all add: ready_iff [OF q])
  have q': "is_queue (store (nx t) m s) sent (nodes @ [m]) (vals @ [d])"
    by (rule is_queue_link [OF q t]) (use r [OF m(1)] in auto)
  have tq: "t \<in> set (sent # nodes)" using t by simp
  have "chain (\<lambda>p. load (nx p) s) sent (as @ [t]) NULL" using q t unfolding ms_queue_def by simp
  then have lt: "load (nx t) s = Some NULL" by (auto split: option.splits)
  show "ready node v (store (nx t) m s)" if "ready node v s"
    using that m tq lt live_store(3) [of s t m] by (auto simp: ready_iff [OF q] ready_iff [OF q'] laws nx_store)
  show "load (hz 0) (store (nx t) m s) = load (hz 0) s" by (rule hz_frame)
  show "held p n (store (nx t) m s)" if "held p n s" for p n
    using that r [OF m(1)] tq lt by (auto simp: held_iff [OF q] held_iff [OF q'] nx_store split: if_splits)
qed

lemma rely_tail:
  assumes q: "is_queue s sent nodes vals" and t: "t \<in> set (sent # nodes)"
  shows "rely node v s (store tll t s)"
proof (rule relyI)
  have q': "is_queue (store tll t s) sent nodes vals" if "ready node v s"
    using is_queue_tl [OF q ready_live [OF that] t] .
  show "ready node v (store tll t s)" if r: "ready node v s"
    using r live_store(2) [of s t] by (simp add: ready_iff [OF q] ready_iff [OF q' [OF r]] laws)
  show "load (hz 0) (store tll t s) = load (hz 0) s" by (rule hz_frame)
  show "held p n (store tll t s)" if "ready node v s" "held p n s" for p n
    using that by (simp add: held_iff [OF q] held_iff [OF q' [OF that(1)]] laws)
qed

lemma rely_head:
  assumes q: "is_queue s sent (n # ns) (d # ds)" and t: "load tll s = Some t" "t \<noteq> sent"
  shows "rely node v s (store hdl n s)"
proof (rule relyI)
  have h: "load (nx sent) s = Some n" "n \<noteq> NULL" "sent \<notin> set (n # ns)"
    using q ms_queue_distinct [OF q] unfolding ms_queue_def by (auto split: option.splits)
  have q': "is_queue (store hdl n s) n ns ds" if "ready node v s"
    using q t h ready_live [OF that] unfolding ms_queue_def by (auto simp: laws split: option.splits)
  show "ready node v (store hdl n s)" if r: "ready node v s"
    using r live_store(1) [of s n] by (simp add: ready_iff [OF q] ready_iff [OF q' [OF r]] laws)
  show "load (hz 0) (store hdl n s) = load (hz 0) s" by (rule hz_frame)
  show "held p m (store hdl n s)" if "ready node v s" "held p m s" for p m
    using that h by (auto simp: held_iff [OF q] held_iff [OF q' [OF that(1)]] laws split: if_splits)
qed

lemma rely_retire:
  assumes q: "is_queue s sent nodes vals" and r: "r \<notin> set (sent # nodes)" "r \<noteq> node"
    and m: "m \<noteq> NULL" "load (nx r) s \<noteq> None"
  shows "rely node v s (store (nx r) m s)"
proof (rule relyI)
  have q': "is_queue (store (nx r) m s) sent nodes vals"
    using q r m by (subst ms_queue_cong [of hdl _ s]) (auto simp: laws nx_store)
  show "ready node v (store (nx r) m s)" if "ready node v s"
    using that r m live_store(3) [of s r m] by (simp add: ready_iff [OF q] ready_iff [OF q'] laws nx_store)
  show "load (hz 0) (store (nx r) m s) = load (hz 0) s" by (rule hz_frame)
  show "held p n (store (nx r) m s)" if "held p n s" for p n
    using that r m by (auto simp: held_iff [OF q] held_iff [OF q'] laws nx_store split: if_splits)
qed

text \<open>One interference.\<close>

lemma rely_step:
  assumes "env_rely (rely node v) c" "ready node v (fst c)"
  shows "env_rely (rely node v) (interfere c)" "ready node v (fst (interfere c))"
    "load (hz 0) (fst (interfere c)) = load (hz 0) (fst c)"
    "load (hz 0) (fst c) = Some p \<Longrightarrow> held p n (fst c) \<Longrightarrow> held p n (fst (interfere c))"
proof -
  have "rely node v (fst c) (fst (interfere c))" by (rule env_rely_step [OF assms(1) ms_rely_refl])
  then show "ready node v (fst (interfere c))" "load (hz 0) (fst (interfere c)) = load (hz 0) (fst c)"
    "load (hz 0) (fst c) = Some p \<Longrightarrow> held p n (fst c) \<Longrightarrow> held p n (fst (interfere c))"
    using assms(2) unfolding ms_rely_def by blast+
  show "env_rely (rely node v) (interfere c)" by (rule env_rely_to [OF env_to_interfere assms(1)])
qed

lemma held_link:
  assumes "ready node v s" "held p n s"
  obtains m where "load (nx p) s = Some m" "held p m s"
proof (cases "in_queue s p")
  case True
  then obtain sent nodes vals where q: "is_queue s sent nodes vals" "p \<in> set (sent # nodes)"
    by (auto simp: ms_in_queue_def)
  show thesis by (rule in_queue_link [OF q]) (use True that in \<open>auto simp: ms_held_def\<close>)
next
  case False
  then show thesis using assms(2) that by (auto simp: ms_held_def)
qed

lemma held_NULL: "held p n s \<Longrightarrow> load (nx p) s = Some NULL \<Longrightarrow> in_queue s p"
  by (auto simp: ms_held_def split: if_splits)

text \<open>What an attempt leaves: the node linked, or everything ready for the next attempt.\<close>

definition attempted :: "ptr \<Rightarrow> ptr \<Rightarrow> nat \<Rightarrow> ptr \<Rightarrow> 's conc \<Rightarrow> bool" where
  "attempted node v k r d \<longleftrightarrow> env_rely (rely node v) d \<and> length (snd d) \<le> k \<and>
     (if r = NULL then ready node v (fst d) else linked node v r (fst d))"

lemma length_interfere_le [simp]: "length (snd c) \<le> k \<Longrightarrow> length (snd (interfere c)) \<le> k"
  by (simp add: length_interfere)

text \<open>The last compare-and-set, and the one that advances the tail.\<close>

lemma attempt_links:
  assumes c: "env_rely (rely node v) c" "ready node v (fst c)" "length (snd c) \<le> k"
    and p: "load (hz 0) (fst c) = Some p" "held p NULL (fst c)"
  shows "returns (do {
      (ok, c) \<leftarrow> atomic_compare_and_set_ptr NULL node (nx p) c;
      Some (if ok then p else NULL, c) }) (attempted node v k)"
proof -
  note r = rely_step [OF c(1,2)]
  obtain m where m: "load (nx p) (fst (interfere c)) = Some m" using held_link [OF r(2) r(4) [OF p]] by blast
  have "p \<noteq> NULL \<and> linked node v p (store (nx p) node (fst (interfere c)))" if "m = NULL"
  proof
    have iq: "in_queue (fst (interfere c)) p" using held_NULL [OF r(4) [OF p]] m that by simp
    then show "p \<noteq> NULL" using ms_queue_not_NULL unfolding ms_in_queue_def by metis
    show "linked node v p (store (nx p) node (fst (interfere c)))"
      using ready_link [OF r(2) iq] m that by simp
  qed
  then show ?thesis
    using r c m by (auto simp: wp atomic_cas_defs attempted_def intro: env_rely_cong)
qed

lemma attempt_advances:
  assumes c: "env_rely (rely node v) c" "ready node v (fst c)" "length (snd c) \<le> k"
    and p: "load (hz 0) (fst c) = Some p" "held p n (fst c)" "n \<noteq> NULL"
  shows "returns (do {
      (_, c) \<leftarrow> atomic_compare_and_set_ptr p n tll c;
      Some (NULL, c) }) (attempted node v k)"
proof -
  note r = rely_step [OF c(1,2)]
  obtain t where t: "load tll (fst (interfere c)) = Some t" "in_queue (fst (interfere c)) t"
    using ready_tail [OF r(2)] by blast
  have "ready node v (store tll n (fst (interfere c)))" if "t = p"
    using ready_advance [OF r(2)] r(4) [OF p(1,2)] t p(3) that by (auto simp: ms_held_def)
  then show ?thesis
    using r c t by (auto simp: wp atomic_cas_defs attempted_def intro: env_rely_cong)
qed

text \<open>The hazard pointer is set, and the tail has been checked again.\<close>

lemma attempt_secured:
  assumes c: "env_rely (rely node v) c" "ready node v (fst c)" "length (snd c) \<le> k"
    and p: "load (hz 0) (fst c) = Some p" "held p NULL (fst c)"
  shows "returns (do {
       (next, c) \<leftarrow> rd (nx p) c;
       (tail3, c) \<leftarrow> rd tll c;
       if p = tail3 then
         (if next \<noteq> NULL then do {
            (_, c) \<leftarrow> atomic_compare_and_set_ptr p next tll c;
            Some (NULL, c) }
          else do {
            (ok, c) \<leftarrow> atomic_compare_and_set_ptr NULL node (nx p) c;
            Some (if ok then p else NULL, c) })
       else Some (NULL, c) }) (attempted node v k)"
proof -
  note r1 = rely_step [OF c(1,2)]
  obtain n where n: "load (nx p) (fst (interfere c)) = Some n" "held p n (fst (interfere c))"
    using held_link [OF r1(2) r1(4) [OF p]] by blast
  note r2 = rely_step [OF r1(1,2)]
  obtain t where t: "load tll (fst (interfere (interfere c))) = Some t"
    using ready_tail [OF r2(2)] by blast
  have hz: "load (hz 0) (fst (interfere c)) = Some p" "load (hz 0) (fst (interfere (interfere c))) = Some p"
    using r1(3) r2(3) p(1) by simp_all
  have h: "held p n (fst (interfere (interfere c)))" by (rule r2(4) [OF hz(1) n(2)])
  note last = attempt_links [OF r2(1,2) _ hz(2)] attempt_advances [OF r2(1,2) _ hz(2) h]
  show ?thesis
    using n(1) t r2 h last [of k] c(3)
    by (cases "n = NULL"; cases "p = t") (auto simp: wp attempted_def)
qed

lemma attempt_enqueue:
  assumes c: "env_rely (rely node v) c" "ready node v (fst c)"
  shows "returns (ms_try_enqueue tll nx hz node c) (attempted node v (length (snd (interfere c))))"
proof -
  let ?k = "length (snd (interfere c))"
  note r1 = rely_step [OF c]
  obtain p where p: "load tll (fst (interfere c)) = Some p" using ready_tail [OF r1(2)] by blast
  note r2 = rely_step [OF r1(1,2)]
  let ?d = "(store (hz 0) p (fst (interfere (interfere c))), snd (interfere (interfere c)))"
  have hz: "load (hz 0) (fst (interfere (interfere c))) \<noteq> None" "load (hz 0) (fst ?d) = Some p"
    using live_load hz_load ready_live [OF r2(2)] by auto
  have d: "env_rely (rely node v) ?d" "ready node v (fst ?d)"
    using env_rely_cong [OF r2(1)] ready_hz [OF r2(2)] by auto
  note r3 = rely_step [OF d]
  obtain t where t: "load tll (fst (interfere ?d)) = Some t" "in_queue (fst (interfere ?d)) t"
    using ready_tail [OF r3(2)] by blast
  have k: "length (snd (interfere ?d)) \<le> ?k" by (simp add: length_interfere)
  show ?thesis
  proof (cases "t = p")
    case True
    then have "held p NULL (fst (interfere ?d))" using t by (simp add: ms_held_def)
    from attempt_secured [OF r3(1,2) k _ this] have "returns (do {
       (next, c) \<leftarrow> rd (nx p) (interfere ?d);
       (tail3, c) \<leftarrow> rd tll c;
       if p = tail3 then
         (if next \<noteq> NULL then do {
            (_, c) \<leftarrow> atomic_compare_and_set_ptr p next tll c;
            Some (NULL, c) }
          else do {
            (ok, c) \<leftarrow> atomic_compare_and_set_ptr NULL node (nx p) c;
            Some (if ok then p else NULL, c) })
       else Some (NULL, c) }) (attempted node v ?k)"
      using hz(2) r3(3) by simp
    then show ?thesis using p hz(1) t True
      by (simp add: ms_try_enqueue_def returns_bind returns_rd [of tll] returns_wr cong: if_cong)
  next
    case False
    then show ?thesis using p hz(1) t r3 k
      by (simp add: ms_try_enqueue_def wp attempted_def)
  qed
qed

text \<open>Undisturbed, as in \<open>MS_Queue\<close>.\<close>

lemma links_quiet:
  assumes "is_queue s sent nodes vals" "sent # nodes = as @ t # bs" "load tll s = Some t" "ready node v s"
  shows "returns (retry_nonnull (ms_try_enqueue tll nx hz node) (s, [])) (\<lambda>r d. linked node v r (fst d) \<and> snd d = [])"
  using assms
proof (induction bs arbitrary: as t s)
  case Nil
  note lv = ready_live [OF Nil.prems(4)]
  note att = attempt_enqueue_links [OF Nil.prems(1) lv Nil.prems(3,2)]
  let ?s = "store (hz 0) t s"
  have q: "is_queue ?s sent nodes vals" using Nil.prems(1) by (simp add: is_queue_hz)
  then have "in_queue ?s t" using Nil.prems(2) by (simp add: in_queue_iff)
  then have "linked node v t (store (nx t) node ?s)"
    using att by (intro ready_link ready_hz Nil.prems) (simp_all add: laws)
  then show ?case using att by (intro retry_nonnull_now) simp
next
  case (Cons n bs)
  note lv = ready_live [OF Cons.prems(4)]
  note att = attempt_enqueue_advances [OF Cons.prems(1) lv Cons.prems(3,2)]
  let ?s = "store (hz 0) t s"
  have q: "is_queue ?s sent nodes vals" using Cons.prems(1) by (simp add: is_queue_hz)
  have "n \<in> set (sent # nodes)" using Cons.prems(2) by simp
  then have q': "is_queue (store tll n ?s) sent nodes vals"
    using q lv by (intro is_queue_tl) (auto simp: live_store)
  have "ready node v (store tll n ?s)"
    using Cons.prems(4) lv by (simp add: ready_iff [OF Cons.prems(1)] ready_iff [OF q'] laws live_store)
  from Cons.IH [OF q' _ _ this, of "as @ [t]"] show ?case
    using Cons.prems(2) lv retry_nonnull_again [of "ms_try_enqueue tll nx hz node", OF att]
    by (simp add: laws live_store)
qed

lemma enqueue_links:
  assumes "env_rely (rely node v) c" "ready node v (fst c)"
  shows "returns (retry_nonnull (ms_try_enqueue tll nx hz node) c) (\<lambda>r d. linked node v r (fst d))"
  using assms
proof (induction "length (snd c)" arbitrary: c rule: less_induct)
  case less
  show ?case
  proof (cases "snd c = []")
    case True
    obtain sent nodes vals where q: "is_queue (fst c) sent nodes vals"
      using less.prems(2) by (auto simp: ms_ready_def)
    then obtain t where t: "load tll (fst c) = Some t" "t \<in> set (sent # nodes)"
      unfolding ms_queue_def by blast
    then obtain as bs where "sent # nodes = as @ t # bs" using split_list by metis
    from links_quiet [OF q this t(1) less.prems(2)] show ?thesis
      using True by (cases c) (auto intro: returns_mono)
  next
    case False
    obtain r d where a: "ms_try_enqueue tll nx hz node c = Some (r, d)"
      "attempted node v (length (snd (interfere c))) r d"
      using attempt_enqueue [OF less.prems] by (auto simp: returns_ex)
    show ?thesis
    proof (cases "r = NULL")
      case True
      have "length (snd d) < length (snd c)"
        using a(2) False unfolding attempted_def length_interfere by (cases "snd c") auto
      then have "returns (retry_nonnull (ms_try_enqueue tll nx hz node) d) (\<lambda>r d. linked node v r (fst d))"
        using a(2) True by (intro less.hyps) (simp_all add: attempted_def)
      then show ?thesis using a(1) True retry_nonnull_again [of "ms_try_enqueue tll nx hz node" c d] by simp
    next
      case False
      then show ?thesis using a by (intro retry_nonnull_now) (simp add: attempted_def)
    qed
  qed
qed

end

end
