(* ===== verification/Hazard.thy ===== *)
theory Hazard
  imports Prelude
begin

unbundle bit_operations_syntax

section \<open>The table of hazard pointers\<close>

text \<open>
  Before an executor frees the nodes it has retired, it copies every hazard pointer of every
  executor in a hash table with chaining, built in arrays on its stack, and looks each
  retired node up in it. The three lock-free queues have the same code for this. A node of
  the table is named by its index in the array of nodes; the theorem is that a lookup in the
  table answers membership in what was inserted.
\<close>

record ptab_node_t =
  pn_next :: "nat option"
  pn_addr :: ptr

type_synonym ptab = "ptab_node_t list \<times> nat option list"

text \<open>\<open>(addr >> (CACHE_LINE_SIZE / 8)) % size\<close>\<close>

definition ptab_index :: "ptr \<Rightarrow> u32 \<Rightarrow> nat" where
  "ptab_index addr sz = unat (drop_bit (32 div 8) addr mod sz)"

text \<open>\<open>while(NULL != curr && !out) { out = node == curr->pn_addr; curr = curr->pn_next; }\<close>\<close>

partial_function (option) ptab_walk ::
  "ptab_node_t list \<Rightarrow> ptr \<Rightarrow> nat option \<Rightarrow> bool \<Rightarrow> bool option" where
  "ptab_walk nodes node cur out =
     (if out then Some out
      else case cur of None \<Rightarrow> Some out
      | Some k \<Rightarrow> ptab_walk nodes node (pn_next (nodes ! k)) (node = pn_addr (nodes ! k)))"

definition ptab_lookup :: "ptab \<Rightarrow> ptr \<Rightarrow> u32 \<Rightarrow> bool option" where
  "ptab_lookup t node sz = (case t of (nodes, ptab) \<Rightarrow>
     ptab_walk nodes node (ptab ! ptab_index node sz) False)"

definition ptab_insert :: "ptab \<Rightarrow> nat \<Rightarrow> u32 \<Rightarrow> ptab" where
  "ptab_insert t k sz = (case t of (nodes, ptab) \<Rightarrow>
     let i = ptab_index (pn_addr (nodes ! k)) sz
     in (nodes[k := (nodes ! k)\<lparr>pn_next := ptab ! i\<rparr>], ptab[i := Some k]))"

text \<open>\<open>nodes[i][j].pn_addr = v; insert(ptab, nodes[i] + j, size)\<close>, node \<open>k\<close> being \<open>nodes[i][j]\<close>.\<close>

definition ptab_add :: "ptab \<Rightarrow> nat \<Rightarrow> ptr \<Rightarrow> u32 \<Rightarrow> ptab" where
  "ptab_add t k v sz = (case t of (nodes, ptab) \<Rightarrow>
     ptab_insert (nodes[k := (nodes ! k)\<lparr>pn_addr := v\<rparr>], ptab) k sz)"

text \<open>The two \<open>memset\<close>s.\<close>

definition ptab_empty :: "nat \<Rightarrow> u32 \<Rightarrow> ptab" where
  "ptab_empty n sz = (replicate n \<lparr>pn_next = None, pn_addr = NULL\<rparr>, replicate (unat sz) None)"

text \<open>The pointers \<open>vs\<close> added one after the other, the first in node \<open>k\<close>.\<close>

fun ptab_add_all :: "ptab \<Rightarrow> nat \<Rightarrow> ptr list \<Rightarrow> u32 \<Rightarrow> ptab" where
  "ptab_add_all t k [] sz = t"
| "ptab_add_all t k (v # vs) sz = ptab_add_all (ptab_add t k v sz) (Suc k) vs sz"

subsection \<open>A lookup answers membership\<close>

fun pchain :: "ptab_node_t list \<Rightarrow> nat option \<Rightarrow> nat list \<Rightarrow> bool" where
  "pchain nodes p [] = (p = None)"
| "pchain nodes p (k # ks) = (p = Some k \<and> k < length nodes \<and> pchain nodes (pn_next (nodes ! k)) ks)"

lemma pchain_upd [simp]:
  "k \<notin> set ks \<Longrightarrow> pchain (nodes[k := x]) p ks = pchain nodes p ks"
  by (induction ks arbitrary: p) auto

lemma ptab_walk_pchain:
  "pchain nodes p ks \<Longrightarrow> ptab_walk nodes node p out =
     Some (out \<or> node \<in> (\<lambda>k. pn_addr (nodes ! k)) ` set ks)"
proof (induction ks arbitrary: p out)
  case Nil
  then show ?case by (simp add: ptab_walk.simps)
next
  case (Cons k ks)
  then have p: "p = Some k" by simp
  show ?case using Cons unfolding p
    by (cases out) (simp_all add: ptab_walk.simps [of nodes node "Some k"])
qed

text \<open>
  The table holds the pointers \<open>vs\<close>, in its first nodes: the chain of each bucket visits
  the nodes whose pointer hashes to it.
\<close>

definition ptab_holds :: "ptab \<Rightarrow> ptr list \<Rightarrow> u32 \<Rightarrow> bool" where
  "ptab_holds t vs sz \<longleftrightarrow> length (snd t) = unat sz \<and> length vs \<le> length (fst t) \<and>
     (\<forall>k < length vs. pn_addr (fst t ! k) = vs ! k) \<and>
     (\<forall>i < unat sz. \<exists>ks. pchain (fst t) (snd t ! i) ks \<and>
        set ks = {k. k < length vs \<and> ptab_index (vs ! k) sz = i})"

lemma ptab_index_less: "sz \<noteq> 0 \<Longrightarrow> ptab_index addr sz < unat sz"
  by (simp add: ptab_index_def unat_mod word_neq_0_conv unat_gt_0)

lemma ptab_holds_empty: "ptab_holds (ptab_empty n sz) [] sz"
  by (auto simp: ptab_holds_def ptab_empty_def intro: exI [of _ "[]"])

lemma ptab_holds_lookup:
  assumes "ptab_holds t vs sz" "sz \<noteq> 0"
  shows "ptab_lookup t node sz = Some (node \<in> set vs)"
proof -
  let ?i = "ptab_index node sz"
  obtain ks where ks: "pchain (fst t) (snd t ! ?i) ks"
    "set ks = {k. k < length vs \<and> ptab_index (vs ! k) sz = ?i}"
    using assms ptab_index_less [OF assms(2), of node] unfolding ptab_holds_def by blast
  have "node \<in> (\<lambda>k. pn_addr (fst t ! k)) ` set ks \<longleftrightarrow> node \<in> set vs"
    using assms(1) unfolding ks(2) ptab_holds_def by (auto simp: in_set_conv_nth image_iff)
  then show ?thesis
    using ptab_walk_pchain [OF ks(1)] by (cases t) (simp add: ptab_lookup_def)
qed

lemma bucket_snoc:
  "{k. k < length (vs @ [v]) \<and> f ((vs @ [v]) ! k) = i} =
     (if f v = i then insert (length vs) else id) {k. k < length vs \<and> f (vs ! k) = i}"
  by (auto simp: nth_append less_Suc_eq)

lemma ptab_holds_add:
  assumes h: "ptab_holds t vs sz" and sz: "sz \<noteq> 0" and k: "length vs < length (fst t)"
  shows "ptab_holds (ptab_add t (length vs) v sz) (vs @ [v]) sz"
    and "length (fst (ptab_add t (length vs) v sz)) = length (fst t)"
proof -
  let ?k = "length vs" and ?j = "ptab_index v sz"
  obtain nodes ptab where t: "t = (nodes, ptab)" by (cases t)
  let ?nodes = "nodes[?k := (nodes ! ?k)\<lparr>pn_addr := v, pn_next := ptab ! ?j\<rparr>]"
  let ?ptab = "ptab[?j := Some ?k]"
  have add: "ptab_add t ?k v sz = (?nodes, ?ptab)"
    using k t by (simp add: ptab_add_def ptab_insert_def Let_def)
  have j: "?j < unat sz" using ptab_index_less [OF sz] .
  have len: "length ptab = unat sz" using h t unfolding ptab_holds_def by simp
  have bucket: "\<exists>ks. pchain ?nodes (?ptab ! i) ks \<and>
      set ks = {k. k < length (vs @ [v]) \<and> ptab_index ((vs @ [v]) ! k) sz = i}"
    if i: "i < unat sz" for i
  proof -
    obtain ks where ks: "pchain nodes (ptab ! i) ks"
      "set ks = {k. k < length vs \<and> ptab_index (vs ! k) sz = i}"
      using h t i unfolding ptab_holds_def by auto
    then have fresh: "?k \<notin> set ks" by auto
    show ?thesis
    proof (cases "i = ?j")
      case True
      have "set (?k # ks) = {k. k < length (vs @ [v]) \<and> ptab_index ((vs @ [v]) ! k) sz = i}"
        using ks(2) bucket_snoc [of vs v "\<lambda>x. ptab_index x sz" i] True by simp
      moreover have "pchain ?nodes (?ptab ! i) (?k # ks)"
        using True ks(1) fresh k t j len by simp
      ultimately show ?thesis by blast
    next
      case False
      have "set ks = {k. k < length (vs @ [v]) \<and> ptab_index ((vs @ [v]) ! k) sz = i}"
        using ks(2) bucket_snoc [of vs v "\<lambda>x. ptab_index x sz" i] False by simp
      moreover have "pchain ?nodes (?ptab ! i) ks" using False ks(1) fresh by simp
      ultimately show ?thesis by blast
    qed
  qed
  show "ptab_holds (ptab_add t ?k v sz) (vs @ [v]) sz"
    unfolding add ptab_holds_def fst_conv snd_conv
  proof (intro conjI allI impI)
    show "length ?ptab = unat sz" using len by simp
    show "length (vs @ [v]) \<le> length ?nodes" using k t by simp
    show "pn_addr (?nodes ! m) = (vs @ [v]) ! m" if "m < length (vs @ [v])" for m
      using that h k t unfolding ptab_holds_def
      by (cases "m = ?k") (auto simp: nth_append less_Suc_eq)
  qed (rule bucket)
  show "length (fst (ptab_add t ?k v sz)) = length (fst t)"
    using t add by simp
qed

lemma ptab_holds_add_all:
  assumes "ptab_holds t us sz" "sz \<noteq> 0" "length us + length vs \<le> length (fst t)"
  shows "ptab_holds (ptab_add_all t (length us) vs sz) (us @ vs) sz"
  using assms
proof (induction vs arbitrary: t us)
  case Nil
  then show ?case by simp
next
  case (Cons v vs)
  have "length us < length (fst t)" using Cons.prems by simp
  note add = ptab_holds_add [OF Cons.prems(1,2) this, of v]
  have "ptab_holds (ptab_add_all (ptab_add t (length us) v sz) (length (us @ [v])) vs sz)
      ((us @ [v]) @ vs) sz"
    by (rule Cons.IH) (use add Cons.prems in auto)
  then show ?case by simp
qed

lemma ptab_lookup_all:
  assumes "sz \<noteq> 0" "length vs \<le> n"
  shows "ptab_lookup (ptab_add_all (ptab_empty n sz) 0 vs sz) node sz = Some (node \<in> set vs)"
proof (rule ptab_holds_lookup)
  have "length (fst (ptab_empty n sz)) = n" by (simp add: ptab_empty_def)
  then show "ptab_holds (ptab_add_all (ptab_empty n sz) 0 vs sz) vs sz"
    using ptab_holds_add_all [OF ptab_holds_empty, of sz vs n] assms by simp
qed (rule assms(1))

end
