(* ===== verification/Fifo.thy ===== *)
theory Fifo
  imports Prelude
begin

section \<open>The contract of a queue\<close>

text \<open>
  What every queue of the runtime promises, over whatever state holds it: first in, first
  out. \<open>queue s k xs\<close> says that the state \<open>s\<close> holds the elements \<open>xs\<close>, oldest first, and
  has room for at least \<open>k\<close> more without asking anybody for memory. The theorem of the
  locale is the refinement: a run of operations gives the results that a list gives.
\<close>

datatype 'a fifo_op = Enq 'a | Deq

fun run_fifo ::
  "('a \<Rightarrow> 's \<Rightarrow> 's option) \<Rightarrow> ('s \<Rightarrow> ('a option \<times> 's) option) \<Rightarrow> 'a fifo_op list \<Rightarrow> 's \<Rightarrow>
   ('a option list \<times> 's) option" where
  "run_fifo enq deq [] s = Some ([], s)"
| "run_fifo enq deq (Enq x # ops) s = do { s \<leftarrow> enq x s; run_fifo enq deq ops s }"
| "run_fifo enq deq (Deq # ops) s = do {
     (r, s) \<leftarrow> deq s;
     (rs, s) \<leftarrow> run_fifo enq deq ops s;
     Some (r # rs, s) }"

fun run_list :: "'a fifo_op list \<Rightarrow> 'a list \<Rightarrow> 'a option list \<times> 'a list" where
  "run_list [] xs = ([], xs)"
| "run_list (Enq x # ops) xs = run_list ops (xs @ [x])"
| "run_list (Deq # ops) [] = (let (rs, ys) = run_list ops [] in (None # rs, ys))"
| "run_list (Deq # ops) (x # xs) = (let (rs, ys) = run_list ops xs in (Some x # rs, ys))"

fun enqueued :: "'a fifo_op list \<Rightarrow> 'a list" where
  "enqueued [] = []"
| "enqueued (Enq x # ops) = x # enqueued ops"
| "enqueued (Deq # ops) = enqueued ops"

text \<open>Each element that is enqueued fits behind those that are in the queue at that moment.\<close>

fun fits_run :: "('a list \<Rightarrow> 'a \<Rightarrow> bool) \<Rightarrow> 'a fifo_op list \<Rightarrow> 'a list \<Rightarrow> bool" where
  "fits_run fits [] xs = True"
| "fits_run fits (Enq x # ops) xs = (fits xs x \<and> fits_run fits ops (xs @ [x]))"
| "fits_run fits (Deq # ops) xs = fits_run fits ops (tl xs)"

lemma fits_run_all: "\<forall>x \<in> set (enqueued ops). P x \<Longrightarrow> fits_run (\<lambda>_. P) ops xs"
  by (induction ops arbitrary: xs rule: enqueued.induct) auto

text \<open>The list specification is first in, first out: what comes out is what went in, in order.\<close>

lemma run_list_order:
  "xs @ enqueued ops = map the (filter (\<lambda>r. r \<noteq> None) (fst (run_list ops xs))) @ snd (run_list ops xs)"
  by (induction ops xs rule: run_list.induct) (auto simp: split_def Let_def)

locale fifo_queue =
  fixes enq :: "'a \<Rightarrow> 's \<Rightarrow> 's option"
    and deq :: "'s \<Rightarrow> ('a option \<times> 's) option"
    and queue :: "'s \<Rightarrow> nat \<Rightarrow> 'a list \<Rightarrow> bool"
    and fits :: "'a list \<Rightarrow> 'a \<Rightarrow> bool"
  assumes enq_law: "queue s (Suc k) xs \<Longrightarrow> fits xs x \<Longrightarrow> \<exists>t. enq x s = Some t \<and> queue t k (xs @ [x])"
    and deq_empty_law: "queue s k [] \<Longrightarrow> \<exists>t. deq s = Some (None, t) \<and> queue t k []"
    and deq_law: "queue s k (x # xs) \<Longrightarrow> \<exists>t. deq s = Some (Some x, t) \<and> queue t k xs"
    and room_law: "queue s k xs \<Longrightarrow> j \<le> k \<Longrightarrow> queue s j xs"
begin

theorem runs_as_list:
  "queue s (length (enqueued ops)) xs \<Longrightarrow> fits_run fits ops xs \<Longrightarrow>
   \<exists>t. run_fifo enq deq ops s = Some (fst (run_list ops xs), t) \<and> queue t 0 (snd (run_list ops xs))"
proof (induction ops xs arbitrary: s rule: run_list.induct)
  case (1 xs)
  then show ?case by simp
next
  case (2 x ops xs)
  then obtain t where "enq x s = Some t" "queue t (length (enqueued ops)) (xs @ [x])"
    using enq_law by fastforce
  with 2 show ?case by fastforce
next
  case (3 ops)
  then obtain t where t: "deq s = Some (None, t)" "queue t (length (enqueued ops)) []"
    using deq_empty_law by fastforce
  with 3 obtain u where "run_fifo enq deq ops t = Some (fst (run_list ops []), u)"
    "queue u 0 (snd (run_list ops []))" by fastforce
  with t show ?case by (auto simp: split_def Let_def)
next
  case (4 ops x xs)
  then obtain t where t: "deq s = Some (Some x, t)" "queue t (length (enqueued ops)) xs"
    using deq_law by fastforce
  with 4 obtain u where "run_fifo enq deq ops t = Some (fst (run_list ops xs), u)"
    "queue u 0 (snd (run_list ops xs))" by fastforce
  with t show ?case by (auto simp: split_def Let_def)
qed

end

end
