(* ===== verification/Block_Queue.thy ===== *)
theory Block_Queue
  imports Slice MS_Rely Hazard Fifo
begin

unbundle bit_operations_syntax

section \<open>The block queue of malloc (\<open>src/mm/malloc/lf_block_queue.c\<close>)\<close>

text \<open>
  A Michael-Scott queue with hazard pointers, one per size class, holding the partially full
  superblock descriptors. Its nodes come from slices, are shared by all queues through one
  lock-free stack, and return there when no hazard pointer names them any more. The queues
  and their nodes live in mapped memory; the hazard pointers of a queue are an array with
  one entry per executor.
\<close>

subsection \<open>Data\<close>

record lf_block_queue_node_t =
  lfn_next :: ptr
  lfn_data :: ptr

record lf_block_queue_hazard_ptrs_t =
  bhp_rcount :: u32
  bhp_rlist :: ptr
  bhp_ptrs :: "nat \<Rightarrow> ptr"

record lf_block_queue_t =
  lf_head :: ptr
  lf_tail :: ptr
  lf_hptrs :: "lf_block_queue_hazard_ptrs_t list"

record block_queue_state = slice_state +
  qnodes :: "ptr \<Rightarrow> lf_block_queue_node_t"
  queues :: "ptr \<Rightarrow> lf_block_queue_t"
  lf_block_queue_hptrs :: u32
  lf_block_queue_hptr_threshold :: u32
  lf_block_queue_nodes :: ptr

abbreviation "bq_nodes_loc \<equiv> global_loc lf_block_queue_nodes lf_block_queue_nodes_update"
abbreviation "bn_next_loc \<equiv> mem_loc qnodes qnodes_update lfn_next lfn_next_update"
abbreviation "bn_data_loc \<equiv> mem_loc qnodes qnodes_update lfn_data lfn_data_update"
abbreviation "bq_head_loc \<equiv> mem_loc queues queues_update lf_head lf_head_update"
abbreviation "bq_tail_loc \<equiv> mem_loc queues queues_update lf_tail lf_tail_update"

text \<open>A field of \<open>fifo->lf_hptrs[exec]\<close>.\<close>

definition bhp_loc ::
  "(lf_block_queue_hazard_ptrs_t \<Rightarrow> 'v) \<Rightarrow>
   (('v \<Rightarrow> 'v) \<Rightarrow> lf_block_queue_hazard_ptrs_t \<Rightarrow> lf_block_queue_hazard_ptrs_t) \<Rightarrow>
   ptr \<Rightarrow> u32 \<Rightarrow> ('a block_queue_state_scheme, 'v) loc" where
  "bhp_loc get upd fifo exec = Loc
     (\<lambda>s. if fifo = NULL \<or> words s fifo = None \<or> length (lf_hptrs (queues s fifo)) \<le> unat exec
        then None else Some (get (lf_hptrs (queues s fifo) ! unat exec)))
     (\<lambda>v s. s\<lparr>queues := (queues s)(fifo := (queues s fifo)\<lparr>lf_hptrs :=
        (lf_hptrs (queues s fifo))[unat exec := upd (\<lambda>_. v) (lf_hptrs (queues s fifo) ! unat exec)]\<rparr>)\<rparr>)"

abbreviation "bhp_rcount_loc \<equiv> bhp_loc bhp_rcount bhp_rcount_update"
abbreviation "bhp_rlist_loc \<equiv> bhp_loc bhp_rlist bhp_rlist_update"
abbreviation "bhp_ptrs_loc fifo exec j \<equiv>
  bhp_loc (\<lambda>h. bhp_ptrs h j) (\<lambda>f. bhp_ptrs_update (\<lambda>ps. ps(j := f (ps j)))) fifo exec"

subsection \<open>Nodes\<close>

definition lf_block_queue_try_alloc_node ::
  "'e slice_env_scheme \<Rightarrow> 'a block_queue_state_scheme conc \<Rightarrow> (opt_t \<times> 'a block_queue_state_scheme conc) option" where
  "lf_block_queue_try_alloc_node E c = do {
     (node, c) \<leftarrow> rd bq_nodes_loc c;
     let out = \<lparr>o_value = node, o_valid = False\<rparr>;
     if node \<noteq> NULL then do {
       (next, c) \<leftarrow> rd (bn_next_loc node) c;
       (ok, c) \<leftarrow> atomic_compare_and_set_ptr node next bq_nodes_loc c;
       Some (out\<lparr>o_valid := ok\<rparr>, c) }
     else do {
       (slc, c) \<leftarrow> slice_alloc_in E SLICE_TYPE_MALLOC SLICE_PROT_RWX 0x10000 c;
       if slc \<noteq> NULL then do {
         (p, c) \<leftarrow> prd (s_ptr_loc slc) c;
         (sz, c) \<leftarrow> prd (s_size_loc slc) c;
         let limit = unat (sz div 8);
         let at = (\<lambda>i. p + of_nat (8 * i));
         (_, c) \<leftarrow> foreach (\<lambda>i. pwr (bn_next_loc (at i)) (at (i + 1))) [1..<limit] c;
         (_, c) \<leftarrow> pwr (bn_next_loc (at (limit - 1))) NULL c;
         (ok, c) \<leftarrow> atomic_compare_and_set_ptr NULL (at 1) bq_nodes_loc c;
         if ok then Some (\<lparr>o_value = p, o_valid = True\<rparr>, c)
         else do {
           (_, c) \<leftarrow> slice_free slc c;
           Some (out, c) } }
       else Some (out\<lparr>o_valid := True\<rparr>, c) } }"

definition lf_block_queue_alloc_node ::
  "'e slice_env_scheme \<Rightarrow> 'a block_queue_state_scheme conc \<Rightarrow> (ptr \<times> 'a block_queue_state_scheme conc) option" where
  "lf_block_queue_alloc_node E c = retry_valid (lf_block_queue_try_alloc_node E) c"

text \<open>The panic of a failed allocation is \<open>None\<close>.\<close>

definition lf_block_queue_init ::
  "'e slice_env_scheme \<Rightarrow> ptr \<Rightarrow> u32 \<Rightarrow> 'a block_queue_state_scheme conc \<Rightarrow>
   (unit \<times> 'a block_queue_state_scheme conc) option" where
  "lf_block_queue_init E fifo execs c = do {
     (sentinel, c) \<leftarrow> lf_block_queue_alloc_node E c;
     if sentinel \<noteq> NULL then do {
       (_, c) \<leftarrow> pwr (global_loc lf_block_queue_hptrs lf_block_queue_hptrs_update) execs c;
       (_, c) \<leftarrow> pwr (global_loc lf_block_queue_hptr_threshold lf_block_queue_hptr_threshold_update)
         (execs * 2) c;
       (_, c) \<leftarrow> pwr (bn_next_loc sentinel) NULL c;
       (_, c) \<leftarrow> pwr (bn_data_loc sentinel) NULL c;
       (_, c) \<leftarrow> pwr (bq_head_loc fifo) sentinel c;
       (_, c) \<leftarrow> pwr (bq_tail_loc fifo) sentinel c;
       pwr (mem_loc queues queues_update lf_hptrs lf_hptrs_update fifo)
         (replicate (unat execs) \<lparr>bhp_rcount = 0, bhp_rlist = NULL, bhp_ptrs = (\<lambda>_. NULL)\<rparr>) c }
     else None }"

subsection \<open>Hazard pointers\<close>

definition lf_block_queue_ptab_lookup :: "ptab \<Rightarrow> ptr \<Rightarrow> u32 \<Rightarrow> bool option" where
  "lf_block_queue_ptab_lookup t node sz = ptab_lookup t node sz"

definition lf_block_queue_ptab_insert :: "ptab \<Rightarrow> nat \<Rightarrow> u32 \<Rightarrow> ptab" where
  "lf_block_queue_ptab_insert t k sz = ptab_insert t k sz"

definition lf_block_queue_try_free_nodes ::
  "ptr \<Rightarrow> ptr \<Rightarrow> 'a block_queue_state_scheme conc \<Rightarrow> (bool \<times> 'a block_queue_state_scheme conc) option" where
  "lf_block_queue_try_free_nodes free_head free_tail c = do {
     (list, c) \<leftarrow> rd bq_nodes_loc c;
     (_, c) \<leftarrow> pwr (bn_next_loc free_tail) list c;
     atomic_compare_and_set_ptr list free_head bq_nodes_loc c }"

text \<open>The loop over the retired list: what is hazardous stays, the rest is linked up.\<close>

partial_function (option) lf_block_queue_scan_rlist_loop ::
  "ptr \<Rightarrow> u32 \<Rightarrow> ptab \<Rightarrow> u32 \<Rightarrow> ptr \<Rightarrow> ptr \<Rightarrow> ptr \<Rightarrow> 'a block_queue_state_scheme conc \<Rightarrow>
   ((ptr \<times> ptr) \<times> 'a block_queue_state_scheme conc) option" where
  "lf_block_queue_scan_rlist_loop fifo exec t sz cur free_head free_tail c =
     (if cur \<noteq> NULL then do {
        (next, c) \<leftarrow> prd (bn_next_loc cur) c;
        hazard \<leftarrow> lf_block_queue_ptab_lookup t cur sz;
        if hazard then do {
          (rlist, c) \<leftarrow> prd (bhp_rlist_loc fifo exec) c;
          (_, c) \<leftarrow> pwr (bn_next_loc cur) rlist c;
          (_, c) \<leftarrow> pwr (bhp_rlist_loc fifo exec) cur c;
          (rcount, c) \<leftarrow> prd (bhp_rcount_loc fifo exec) c;
          (_, c) \<leftarrow> pwr (bhp_rcount_loc fifo exec) (rcount + 1) c;
          lf_block_queue_scan_rlist_loop fifo exec t sz next free_head free_tail c }
        else if free_head = NULL then
          lf_block_queue_scan_rlist_loop fifo exec t sz next cur cur c
        else do {
          (_, c) \<leftarrow> pwr (bn_next_loc free_tail) cur c;
          lf_block_queue_scan_rlist_loop fifo exec t sz next free_head cur c } }
      else Some ((free_head, free_tail), c))"

definition lf_block_queue_scan_free_rlist ::
  "ptr \<Rightarrow> u32 \<Rightarrow> ptab \<Rightarrow> 'a block_queue_state_scheme conc \<Rightarrow>
   (unit \<times> 'a block_queue_state_scheme conc) option" where
  "lf_block_queue_scan_free_rlist fifo exec t c = do {
     let sz = lf_block_queue_hptrs (fst c) * 4 - 1;
     (cur, c) \<leftarrow> prd (bhp_rlist_loc fifo exec) c;
     (_, c) \<leftarrow> pwr (bhp_rlist_loc fifo exec) NULL c;
     (_, c) \<leftarrow> pwr (bhp_rcount_loc fifo exec) 0 c;
     ((free_head, free_tail), c) \<leftarrow>
       lf_block_queue_scan_rlist_loop fifo exec t sz cur NULL NULL c;
     retry_until (lf_block_queue_try_free_nodes free_head free_tail) c }"

fun lf_block_queue_build_loop ::
  "ptr \<Rightarrow> u32 \<Rightarrow> (nat \<times> nat) list \<Rightarrow> ptab \<Rightarrow> 'a block_queue_state_scheme conc \<Rightarrow>
   (ptab \<times> 'a block_queue_state_scheme conc) option" where
  "lf_block_queue_build_loop fifo sz [] t c = Some (t, c)"
| "lf_block_queue_build_loop fifo sz ((i, j) # ijs) t c = do {
     (v, c) \<leftarrow> rd (bhp_ptrs_loc fifo (of_nat i) j) c;
     lf_block_queue_build_loop fifo sz ijs (ptab_add t (2 * i + j) v sz) c }"

definition lf_block_queue_scan_build_ptab ::
  "ptr \<Rightarrow> 'a block_queue_state_scheme conc \<Rightarrow> (ptab \<times> 'a block_queue_state_scheme conc) option" where
  "lf_block_queue_scan_build_ptab fifo c = (
     let hptrs = lf_block_queue_hptrs (fst c);
         sz = hptrs * 4 - 1
     in lf_block_queue_build_loop fifo sz
          (concat (map (\<lambda>i. [(i, 0), (i, 1)]) [0..<unat hptrs]))
          (ptab_empty (2 * unat hptrs) sz) c)"

definition lf_block_queue_scan ::
  "ptr \<Rightarrow> u32 \<Rightarrow> 'a block_queue_state_scheme conc \<Rightarrow> (unit \<times> 'a block_queue_state_scheme conc) option" where
  "lf_block_queue_scan fifo exec c = do {
     (t, c) \<leftarrow> lf_block_queue_scan_build_ptab fifo c;
     lf_block_queue_scan_free_rlist fifo exec t c }"

definition lf_block_queue_node_retire ::
  "ptr \<Rightarrow> u32 \<Rightarrow> ptr \<Rightarrow> 'a block_queue_state_scheme conc \<Rightarrow>
   (unit \<times> 'a block_queue_state_scheme conc) option" where
  "lf_block_queue_node_retire fifo exec node c = do {
     (rlist, c) \<leftarrow> prd (bhp_rlist_loc fifo exec) c;
     (_, c) \<leftarrow> wr (bn_next_loc node) rlist c;
     (_, c) \<leftarrow> pwr (bhp_rlist_loc fifo exec) node c;
     (rcount, c) \<leftarrow> prd (bhp_rcount_loc fifo exec) c;
     (_, c) \<leftarrow> pwr (bhp_rcount_loc fifo exec) (rcount + 1) c;
     if lf_block_queue_hptr_threshold (fst c) \<le> rcount then lf_block_queue_scan fifo exec c
     else Some ((), c) }"

definition lf_block_queue_destroy ::
  "ptr \<Rightarrow> u32 \<Rightarrow> 'a block_queue_state_scheme conc \<Rightarrow> (unit \<times> 'a block_queue_state_scheme conc) option" where
  "lf_block_queue_destroy fifo exec c = do {
     (head, c) \<leftarrow> rd (bq_head_loc fifo) c;
     (_, c) \<leftarrow> lf_block_queue_node_retire fifo exec head c;
     lf_block_queue_scan fifo exec c }"

subsection \<open>Enqueueing and dequeueing\<close>

definition lf_block_queue_try_enqueue ::
  "ptr \<Rightarrow> ptr \<Rightarrow> u32 \<Rightarrow> 'a block_queue_state_scheme conc \<Rightarrow>
   (ptr \<times> 'a block_queue_state_scheme conc) option" where
  "lf_block_queue_try_enqueue fifo node exec c = do {
     (tail, c) \<leftarrow> rd (bq_tail_loc fifo) c;
     (_, c) \<leftarrow> wr (bhp_ptrs_loc fifo exec 0) tail c;
     (tail2, c) \<leftarrow> rd (bq_tail_loc fifo) c;
     if tail = tail2 then do {
       (next, c) \<leftarrow> rd (bn_next_loc tail) c;
       (tail3, c) \<leftarrow> rd (bq_tail_loc fifo) c;
       if tail = tail3 then
         (if next \<noteq> NULL then do {
            (_, c) \<leftarrow> atomic_compare_and_set_ptr tail next (bq_tail_loc fifo) c;
            Some (NULL, c) }
          else do {
            (ok, c) \<leftarrow> atomic_compare_and_set_ptr NULL node (bn_next_loc tail) c;
            Some (if ok then tail else NULL, c) })
       else Some (NULL, c) }
     else Some (NULL, c) }"

definition lf_block_queue_enqueue ::
  "'e slice_env_scheme \<Rightarrow> ptr \<Rightarrow> ptr \<Rightarrow> u32 \<Rightarrow> 'a block_queue_state_scheme conc \<Rightarrow>
   (unit \<times> 'a block_queue_state_scheme conc) option" where
  "lf_block_queue_enqueue E fifo block exec c = do {
     (node, c) \<leftarrow> lf_block_queue_alloc_node E c;
     if node \<noteq> NULL then do {
       (_, c) \<leftarrow> pwr (bn_data_loc node) block c;
       (_, c) \<leftarrow> pwr (bn_next_loc node) NULL c;
       (tail, c) \<leftarrow> retry_nonnull (lf_block_queue_try_enqueue fifo node exec) c;
       (_, c) \<leftarrow> atomic_compare_and_set_ptr tail node (bq_tail_loc fifo) c;
       wr (bhp_ptrs_loc fifo exec 0) NULL c }
     else None }"

definition lf_block_queue_try_dequeue ::
  "ptr \<Rightarrow> u32 \<Rightarrow> 'a block_queue_state_scheme conc \<Rightarrow>
   (opt_t \<times> 'a block_queue_state_scheme conc) option" where
  "lf_block_queue_try_dequeue fifo exec c = do {
     (head, c) \<leftarrow> rd (bq_head_loc fifo) c;
     let out = \<lparr>o_value = NULL, o_valid = False\<rparr>;
     (_, c) \<leftarrow> wr (bhp_ptrs_loc fifo exec 0) head c;
     (head2, c) \<leftarrow> rd (bq_head_loc fifo) c;
     if head = head2 then do {
       (tail, c) \<leftarrow> rd (bq_tail_loc fifo) c;
       (next, c) \<leftarrow> rd (bn_next_loc head) c;
       (_, c) \<leftarrow> wr (bhp_ptrs_loc fifo exec 1) next c;
       (head3, c) \<leftarrow> rd (bq_head_loc fifo) c;
       if head = head3 then
         (if next \<noteq> NULL then
            (if head \<noteq> tail then do {
               (ok, c) \<leftarrow> atomic_compare_and_set_ptr head next (bq_head_loc fifo) c;
               if ok then do {
                 (data, c) \<leftarrow> rd (bn_data_loc next) c;
                 (_, c) \<leftarrow> wr (bhp_ptrs_loc fifo exec 1) NULL c;
                 (_, c) \<leftarrow> lf_block_queue_node_retire fifo exec head c;
                 (_, c) \<leftarrow> wr (bhp_ptrs_loc fifo exec 0) NULL c;
                 Some (\<lparr>o_value = data, o_valid = True\<rparr>, c) }
               else Some (out, c) }
             else do {
               (_, c) \<leftarrow> atomic_compare_and_set_ptr tail next (bq_tail_loc fifo) c;
               Some (out, c) })
          else do {
            (_, c) \<leftarrow> wr (bhp_ptrs_loc fifo exec 0) NULL c;
            (_, c) \<leftarrow> wr (bhp_ptrs_loc fifo exec 1) NULL c;
            Some (out\<lparr>o_valid := True\<rparr>, c) })
       else Some (out, c) }
     else Some (out, c) }"

definition lf_block_queue_dequeue ::
  "ptr \<Rightarrow> u32 \<Rightarrow> 'a block_queue_state_scheme conc \<Rightarrow> (ptr \<times> 'a block_queue_state_scheme conc) option" where
  "lf_block_queue_dequeue fifo exec c = retry_valid (lf_block_queue_try_dequeue fifo exec) c"

subsection \<open>The interfaces\<close>

interpretation bq_stack: lf_stack bn_next_loc bq_nodes_loc
  by unfold_locales (auto split: if_splits)

definition bq_live :: "ptr \<Rightarrow> u32 \<Rightarrow> 'a block_queue_state_scheme \<Rightarrow> bool" where
  "bq_live fifo exec s \<longleftrightarrow> fifo \<noteq> NULL \<and> words s fifo \<noteq> None \<and>
     unat exec < length (lf_hptrs (queues s fifo))"

lemma bhp_load [simp]:
  "bq_live fifo exec s \<Longrightarrow> load (bhp_loc get upd fifo exec) s = Some (get (lf_hptrs (queues s fifo) ! unat exec))"
  by (auto simp: bhp_loc_def bq_live_def)

lemma bhp_load_cong:
  "queues t fifo = queues s fifo \<Longrightarrow> words t = words s \<Longrightarrow>
   load (bhp_loc get upd fifo exec) t = load (bhp_loc get upd fifo exec) s"
  by (simp add: bhp_loc_def)

lemma bhp_store_frame [simp]:
  "words (store (bhp_loc get upd fifo exec) v s) = words s"
  "qnodes (store (bhp_loc get upd fifo exec) v s) = qnodes s"
  "lf_block_queue_nodes (store (bhp_loc get upd fifo exec) v s) = lf_block_queue_nodes s"
  "lf_block_queue_hptrs (store (bhp_loc get upd fifo exec) v s) = lf_block_queue_hptrs s"
  "lf_block_queue_hptr_threshold (store (bhp_loc get upd fifo exec) v s) = lf_block_queue_hptr_threshold s"
  "lf_head (queues (store (bhp_loc get upd fifo exec) v s) q) = lf_head (queues s q)"
  "lf_tail (queues (store (bhp_loc get upd fifo exec) v s) q) = lf_tail (queues s q)"
  "length (lf_hptrs (queues (store (bhp_loc get upd fifo exec) v s) q)) = length (lf_hptrs (queues s q))"
  "bq_live f e (store (bhp_loc get upd fifo exec) v s) = bq_live f e s"
  by (simp_all add: bhp_loc_def bq_live_def)

interpretation bq_ms: ms_locs bn_next_loc "bq_head_loc fifo" "bq_tail_loc fifo" bn_data_loc
    "\<lambda>j. bhp_ptrs_loc fifo exec j" "bq_live fifo exec" for fifo exec
  by unfold_locales (auto simp: bq_live_def split: if_splits)

interpretation bq_hz: ms_hazard bn_next_loc "bq_head_loc fifo" "bq_tail_loc fifo" bn_data_loc
    "\<lambda>j. bhp_ptrs_loc fifo exec j" "bq_live fifo exec" for fifo exec
  by unfold_locales (auto simp: bq_live_def bhp_loc_def)

lemma lf_block_queue_try_enqueue_ms:
  "lf_block_queue_try_enqueue fifo node exec =
     ms_try_enqueue (bq_tail_loc fifo) bn_next_loc (\<lambda>j. bhp_ptrs_loc fifo exec j) node"
  by (intro ext) (unfold lf_block_queue_try_enqueue_def ms_try_enqueue_def, rule refl)

lemma lf_block_queue_try_dequeue_ms:
  "lf_block_queue_try_dequeue fifo exec =
     ms_try_dequeue (bq_head_loc fifo) (bq_tail_loc fifo) bn_next_loc bn_data_loc
       (\<lambda>j. bhp_ptrs_loc fifo exec j) (lf_block_queue_node_retire fifo exec)"
  by (intro ext) (unfold lf_block_queue_try_dequeue_def ms_try_dequeue_def, rule refl)

subsection \<open>Retiring and freeing nodes\<close>

text \<open>Every hazard pointer of the queue, in the order the scan reads them.\<close>

definition hazards_from :: "'a block_queue_state_scheme \<Rightarrow> ptr \<Rightarrow> nat list \<Rightarrow> ptr list" where
  "hazards_from s fifo is' = concat (map (\<lambda>i. [bhp_ptrs (lf_hptrs (queues s fifo) ! i) 0,
     bhp_ptrs (lf_hptrs (queues s fifo) ! i) 1]) is')"

definition hazards :: "'a block_queue_state_scheme \<Rightarrow> ptr \<Rightarrow> ptr list" where
  "hazards s fifo = hazards_from s fifo [0..<unat (lf_block_queue_hptrs s)]"

lemma length_hazards [simp]: "length (hazards s fifo) = 2 * unat (lf_block_queue_hptrs s)"
proof -
  have "length (hazards_from s fifo is') = 2 * length is'" for is'
    by (induction is') (simp_all add: hazards_from_def)
  then show ?thesis by (simp add: hazards_def)
qed

lemma build_loop:
  assumes "\<And>i. i \<in> set [a..<b] \<Longrightarrow> bq_live fifo (of_nat i) s \<and> unat (of_nat i :: u32) = i"
  shows "lf_block_queue_build_loop fifo sz (concat (map (\<lambda>i. [(i, 0), (i, 1)]) [a..<b])) t (s, []) =
    Some (ptab_add_all t (2 * a) (hazards_from s fifo [a..<b]) sz, (s, []))"
  using assms
proof (induction "b - a" arbitrary: a t)
  case 0
  then show ?case by (simp add: hazards_from_def)
next
  case (Suc k)
  then have ab: "a < b" by simp
  have "lf_block_queue_build_loop fifo sz (concat (map (\<lambda>i. [(i, 0), (i, 1)]) [Suc a..<b])) t (s, []) =
      Some (ptab_add_all t (2 * Suc a) (hazards_from s fifo [Suc a..<b]) sz, (s, []))" for t
    by (rule Suc.hyps) (use Suc in auto)
  moreover have "bq_live fifo (of_nat a) s \<and> unat (of_nat a :: u32) = a"
    using Suc.prems ab by simp
  ultimately show ?case
    using ab by (simp add: upt_conv_Cons [OF ab] rd_def Let_def hazards_from_def)
qed

lemma ptab_size: "h * 4 - 1 \<noteq> (0 :: u32)"
proof
  assume "h * 4 - 1 = 0"
  then have "even (1 :: u32)" by (metis dvd_triv_right eq_iff_diff_eq_0 dvd_mult
    even_numeral)
  then show False by simp
qed

lemma scan_build_quiet:
  assumes "fifo \<noteq> NULL" "words s fifo \<noteq> None"
    "unat (lf_block_queue_hptrs s) = length (lf_hptrs (queues s fifo))"
  shows "\<exists>t. lf_block_queue_scan_build_ptab fifo (s, []) = Some (t, (s, [])) \<and>
    (\<forall>x. lf_block_queue_ptab_lookup t x (lf_block_queue_hptrs s * 4 - 1) = Some (x \<in> set (hazards s fifo)))"
proof -
  let ?n = "unat (lf_block_queue_hptrs s)" and ?sz = "lf_block_queue_hptrs s * 4 - 1"
  let ?t = "ptab_add_all (ptab_empty (2 * ?n) ?sz) 0 (hazards s fifo) ?sz"
  have "?n < 2 ^ 32" using unsigned_less [of "lf_block_queue_hptrs s"] by simp
  then have "lf_block_queue_scan_build_ptab fifo (s, []) = Some (?t, (s, []))"
    using assms build_loop [of 0 ?n fifo s ?sz "ptab_empty (2 * ?n) ?sz"]
    by (simp add: lf_block_queue_scan_build_ptab_def Let_def hazards_def bq_live_def unat_of_nat)
  moreover have "lf_block_queue_ptab_lookup ?t x ?sz = Some (x \<in> set (hazards s fifo))" for x
    unfolding lf_block_queue_ptab_lookup_def by (rule ptab_lookup_all [OF ptab_size]) simp
  ultimately show ?thesis by blast
qed

text \<open>The next pointer of a node, and writing it.\<close>

definition bnext :: "'a block_queue_state_scheme \<Rightarrow> ptr \<Rightarrow> ptr option" where
  "bnext s p = load (bn_next_loc p) s"

definition set_next :: "ptr \<Rightarrow> ptr \<Rightarrow> 'a block_queue_state_scheme \<Rightarrow> 'a block_queue_state_scheme" where
  "set_next p v s = store (bn_next_loc p) v s"

lemma bnext_set [simp]:
  "bnext s p \<noteq> None \<Longrightarrow> bnext (set_next p v s) = (bnext s)(p \<mapsto> v)"
  by (auto simp: bnext_def set_next_def fun_eq_iff split: if_splits)

lemma chain_set_next [simp]:
  "x \<notin> set xs \<Longrightarrow> chain (bnext (set_next x v s)) p xs q = chain (bnext s) p xs q"
  by (rule chain_cong) (auto simp: bnext_def set_next_def)

lemma bnext_nodes [simp]:
  "bnext (s\<lparr>lf_block_queue_nodes := v\<rparr>) = bnext s"
  "bq_live fifo exec (s\<lparr>lf_block_queue_nodes := v\<rparr>) = bq_live fifo exec s"
  by (simp_all add: bnext_def fun_eq_iff bq_live_def)

lemma bnext_NULL [simp]: "bnext s NULL = None"
  by (simp add: bnext_def)

lemma bnext_bhp [simp]: "bnext (store (bhp_loc get upd fifo exec) v s) = bnext s"
  by (simp add: bnext_def fun_eq_iff)

lemma set_next_frame [simp]:
  "queues (set_next p v s) = queues s" "words (set_next p v s) = words s"
  "lf_block_queue_nodes (set_next p v s) = lf_block_queue_nodes s"
  "lf_block_queue_hptrs (set_next p v s) = lf_block_queue_hptrs s"
  "lf_block_queue_hptr_threshold (set_next p v s) = lf_block_queue_hptr_threshold s"
  "bq_live fifo exec (set_next p v s) = bq_live fifo exec s"
  by (simp_all add: set_next_def bq_live_def)

lemma bnext_access [simp]:
  "prd (bn_next_loc p) (s, fs) = (case bnext s p of None \<Rightarrow> None | Some v \<Rightarrow> Some (v, (s, fs)))"
  "pwr (bn_next_loc p) v (s, fs) = (case bnext s p of None \<Rightarrow> None | Some _ \<Rightarrow> Some ((), (set_next p v s, fs)))"
  "wr (bn_next_loc p) v (s, []) = (case bnext s p of None \<Rightarrow> None | Some _ \<Rightarrow> Some ((), (set_next p v s, [])))"
  by (auto simp: prd_def pwr_def wr_def bnext_def set_next_def)

lemma free_is_bnext:
  "stack_is bq_nodes_loc bn_next_loc s xs = chain (bnext s) (lf_block_queue_nodes s) xs NULL"
  by (simp add: stack_is_def bnext_def [abs_def])

text \<open>The retired list of an executor; a private segment of nodes to free.\<close>

abbreviation rlist_of :: "'a block_queue_state_scheme \<Rightarrow> ptr \<Rightarrow> u32 \<Rightarrow> ptr" where
  "rlist_of s fifo exec \<equiv> bhp_rlist (lf_hptrs (queues s fifo) ! unat exec)"

abbreviation rcount_of :: "'a block_queue_state_scheme \<Rightarrow> ptr \<Rightarrow> u32 \<Rightarrow> u32" where
  "rcount_of s fifo exec \<equiv> bhp_rcount (lf_hptrs (queues s fifo) ! unat exec)"

definition retired :: "'a block_queue_state_scheme \<Rightarrow> ptr \<Rightarrow> u32 \<Rightarrow> ptr list \<Rightarrow> bool" where
  "retired s fifo exec rl \<longleftrightarrow> bq_live fifo exec s \<and>
     chain (bnext s) (rlist_of s fifo exec) rl NULL \<and> rcount_of s fifo exec = of_nat (length rl)"

definition segment :: "'a block_queue_state_scheme \<Rightarrow> ptr \<Rightarrow> ptr \<Rightarrow> ptr list \<Rightarrow> bool" where
  "segment s h t fs \<longleftrightarrow> (if fs = [] then h = NULL \<and> t = NULL
     else \<exists>ys. fs = ys @ [t] \<and> chain (bnext s) h ys t \<and> t \<noteq> NULL \<and> bnext s t \<noteq> None)"

lemma segment_head: "segment s h t fs \<Longrightarrow> (h = NULL) = (fs = [])"
  by (auto simp: segment_def split: if_splits elim: chain.elims)

lemma segment_one: "bnext s x \<noteq> None \<Longrightarrow> x \<noteq> NULL \<Longrightarrow> segment s x x [x]"
  by (simp add: segment_def)

lemma segment_snoc:
  assumes "segment s h t fs" "fs \<noteq> []" "x \<notin> set fs" "bnext s x \<noteq> None" "x \<noteq> NULL" "distinct fs"
  shows "segment (set_next t x s) h x (fs @ [x])"
  using assms by (auto simp: segment_def)

lemma segment_set [simp]: "x \<notin> set fs \<Longrightarrow> bnext s x \<noteq> None \<Longrightarrow> segment (set_next x v s) h t fs = segment s h t fs"
  unfolding segment_def by auto

lemma segment_bhp [simp]: "segment (store (bhp_loc get upd fifo exec) v s) h t fs = segment s h t fs"
  by (simp add: segment_def)

lemma bhp_rlist_store [simp]:
  assumes "bq_live fifo exec s"
  shows "rlist_of (store (bhp_rlist_loc fifo exec) v s) fifo exec = v"
    "rcount_of (store (bhp_rlist_loc fifo exec) v s) fifo exec = rcount_of s fifo exec"
    "rcount_of (store (bhp_rcount_loc fifo exec) w s) fifo exec = w"
    "rlist_of (store (bhp_rcount_loc fifo exec) w s) fifo exec = rlist_of s fifo exec"
  using assms by (simp_all add: bhp_loc_def bq_live_def)

text \<open>One hazardous node put back on the retired list.\<close>

definition retire_one :: "ptr \<Rightarrow> u32 \<Rightarrow> ptr \<Rightarrow> 'a block_queue_state_scheme \<Rightarrow> 'a block_queue_state_scheme" where
  "retire_one fifo exec x s = (let h = lf_hptrs (queues s fifo) ! unat exec in
     store (bhp_rcount_loc fifo exec) (bhp_rcount h + 1)
       (store (bhp_rlist_loc fifo exec) x (set_next x (bhp_rlist h) s)))"

lemma retire_one_frame [simp]:
  "bnext s x \<noteq> None \<Longrightarrow> bnext (retire_one fifo exec x s) = (bnext s)(x \<mapsto> rlist_of s fifo exec)"
  "bq_live f e (retire_one fifo exec x s) = bq_live f e s"
  by (simp_all add: retire_one_def Let_def)

lemma retired_push:
  assumes "retired s fifo exec rl" "x \<notin> set rl" "x \<noteq> NULL" "bnext s x \<noteq> None"
  shows "retired (retire_one fifo exec x s) fifo exec (x # rl)"
  using assms by (simp add: retired_def retire_one_def Let_def)

lemma retired_set [simp]:
  "x \<notin> set rl \<Longrightarrow> bnext s x \<noteq> None \<Longrightarrow> retired (set_next x v s) fifo exec rl = retired s fifo exec rl"
  by (simp add: retired_def)

lemma segment_retire [simp]:
  "x \<notin> set fs \<Longrightarrow> bnext s x \<noteq> None \<Longrightarrow> segment (retire_one fifo exec x s) h t fs = segment s h t fs"
  by (simp add: retire_one_def Let_def)

text \<open>
  The loop over the retired list: hazardous nodes go back on it, in reverse, and the others
  are appended to the segment, in order. \<open>I\<close> is anything that holds before and that the
  writes of the loop keep.
\<close>

lemma scan_rlist_loop:
  assumes H: "\<And>x. x \<in> set xs \<Longrightarrow> lf_block_queue_ptab_lookup t x sz = Some (H x)"
    and r: "retired s fifo exec rl" and xs: "chain (bnext s) cur xs NULL"
    and seg: "segment s fh ft fs" and dist: "distinct (xs @ rl @ fs)"
    and I: "I s" "\<And>x s. x \<in> set xs \<Longrightarrow> I s \<Longrightarrow> I (retire_one fifo exec x s)"
      "\<And>x v s. x \<in> set xs \<union> set fs \<Longrightarrow> I s \<Longrightarrow> I (set_next x v s)"
  shows "returns (lf_block_queue_scan_rlist_loop fifo exec t sz cur fh ft (s, [])) (\<lambda>seg c'.
    snd c' = [] \<and> retired (fst c') fifo exec (rev (filter H xs) @ rl) \<and>
    segment (fst c') (fst seg) (snd seg) (fs @ filter (\<lambda>x. \<not> H x) xs) \<and> I (fst c'))"
  using assms
proof (induction xs arbitrary: s rl cur fh ft fs)
  case Nil
  then show ?case by (simp add: lf_block_queue_scan_rlist_loop.simps [of fifo exec t sz NULL])
next
  case (Cons x xs)
  then obtain y where x: "cur = x" "x \<noteq> NULL" "bnext s x = Some y" "chain (bnext s) y xs NULL"
    by (auto split: option.splits)
  have look: "lf_block_queue_ptab_lookup t x sz = Some (H x)" using Cons.prems(1) by simp
  have lv: "bq_live fifo exec s" using Cons.prems(2) by (simp add: retired_def)
  have xx: "x \<notin> set xs" "x \<notin> set rl" "x \<notin> set fs" using Cons.prems(5) by auto
  have step: "lf_block_queue_scan_rlist_loop fifo exec t sz x fh ft (s, []) =
     (if H x then lf_block_queue_scan_rlist_loop fifo exec t sz y fh ft (retire_one fifo exec x s, [])
      else if fh = NULL then lf_block_queue_scan_rlist_loop fifo exec t sz y x x (s, [])
      else lf_block_queue_scan_rlist_loop fifo exec t sz y fh x (set_next ft x s, []))"
    using x look lv segment_head [OF Cons.prems(4)] Cons.prems(4)
    by (subst lf_block_queue_scan_rlist_loop.simps)
      (auto simp: retire_one_def Let_def prd_def [of "bhp_loc _ _ _ _"] pwr_def [of "bhp_loc _ _ _ _"]
        segment_def split: if_splits)
  show ?case
  proof (cases "H x")
    case True
    have "returns (lf_block_queue_scan_rlist_loop fifo exec t sz y fh ft (retire_one fifo exec x s, []))
      (\<lambda>seg c'. snd c' = [] \<and> retired (fst c') fifo exec (rev (filter H xs) @ (x # rl)) \<and>
        segment (fst c') (fst seg) (snd seg) (fs @ filter (\<lambda>x. \<not> H x) xs) \<and> I (fst c'))"
      by (rule Cons.IH) (use Cons.prems x xx in \<open>auto intro: retired_push\<close>)
    then show ?thesis using step True x(1) by simp
  next
    case False
    show ?thesis
    proof (cases "fs = []")
      case True
      then have fh: "fh = NULL" using segment_head [OF Cons.prems(4)] by simp
      have "returns (lf_block_queue_scan_rlist_loop fifo exec t sz y x x (s, []))
        (\<lambda>seg c'. snd c' = [] \<and> retired (fst c') fifo exec (rev (filter H xs) @ rl) \<and>
          segment (fst c') (fst seg) (snd seg) ([x] @ filter (\<lambda>x. \<not> H x) xs) \<and> I (fst c'))"
        by (rule Cons.IH) (use Cons.prems x xx in \<open>auto intro: segment_one\<close>)
      then show ?thesis using step False True fh x(1) by simp
    next
      case ne: False
      then have fh: "fh \<noteq> NULL" and ft: "ft \<in> set fs" "bnext s ft \<noteq> None" "ft \<noteq> x"
        "ft \<notin> set xs" "ft \<notin> set rl"
        using segment_head [OF Cons.prems(4)] Cons.prems(4,5) by (auto simp: segment_def)
      have "returns (lf_block_queue_scan_rlist_loop fifo exec t sz y fh x (set_next ft x s, []))
        (\<lambda>seg c'. snd c' = [] \<and> retired (fst c') fifo exec (rev (filter H xs) @ rl) \<and>
          segment (fst c') (fst seg) (snd seg) ((fs @ [x]) @ filter (\<lambda>x. \<not> H x) xs) \<and> I (fst c'))"
        by (rule Cons.IH) (use Cons.prems x xx ft ne in \<open>auto intro!: segment_snoc\<close>)
      then show ?thesis using step False fh x(1) by simp
    qed
  qed
qed

lemma free_segment_quiet:
  assumes seg: "segment s fh ft fs" "fs \<noteq> []" and dist: "distinct (fs @ free)"
    and free: "stack_is bq_nodes_loc bn_next_loc s free"
  shows "\<exists>u. retry_until (lf_block_queue_try_free_nodes fh ft) (s, []) = Some ((), (u, [])) \<and>
    u = (set_next ft (lf_block_queue_nodes s) s)\<lparr>lf_block_queue_nodes := fh\<rparr> \<and>
    stack_is bq_nodes_loc bn_next_loc u (fs @ free)"
proof -
  from seg obtain ys where ys: "fs = ys @ [ft]" "chain (bnext s) fh ys ft" "ft \<noteq> NULL" "bnext s ft \<noteq> None"
    by (auto simp: segment_def)
  let ?u = "(set_next ft (lf_block_queue_nodes s) s)\<lparr>lf_block_queue_nodes := fh\<rparr>"
  have "retry_until (lf_block_queue_try_free_nodes fh ft) (s, []) = Some ((), (?u, []))"
    using ys by (auto simp: retry_until.simps lf_block_queue_try_free_nodes_def rd_def cas_def
        atomic_cas_defs Let_def)
  moreover have "stack_is bq_nodes_loc bn_next_loc ?u (ys @ ft # free)"
  proof -
    have "stack_is bq_nodes_loc bn_next_loc
        (store bq_nodes_loc fh (store (bn_next_loc ft) (lf_block_queue_nodes s) s)) (ys @ ft # free)"
      by (rule bq_stack.push_segment)
        (use ys dist free in \<open>auto simp: bnext_def [symmetric] bnext_def [abs_def, symmetric]
          simp del: mem_loc_simps\<close>)
    then show ?thesis by (simp add: set_next_def)
  qed
  ultimately show ?thesis using ys by simp
qed

text \<open>
  The state of a queue and of the calling executor, when nobody else is in an operation: the
  free nodes, the retired nodes and the nodes of the queue are apart, the counters count, and
  the retired list is below the threshold that starts a scan.
\<close>

definition bq_pool :: "'a block_queue_state_scheme \<Rightarrow> ptr \<Rightarrow> u32 \<Rightarrow> ptr list \<Rightarrow> ptr list \<Rightarrow> bool" where
  "bq_pool s fifo exec free rl \<longleftrightarrow>
     stack_is bq_nodes_loc bn_next_loc s free \<and> retired s fifo exec rl \<and> distinct (free @ rl) \<and>
     unat (lf_block_queue_hptrs s) = length (lf_hptrs (queues s fifo)) \<and>
     unat (lf_block_queue_hptrs s) < 2 ^ 30 \<and>
     lf_block_queue_hptr_threshold s = lf_block_queue_hptrs s * 2"

lemma scan_quiet:
  assumes p: "stack_is bq_nodes_loc bn_next_loc s free" "retired s fifo exec rl" "distinct (free @ rl)"
      "unat (lf_block_queue_hptrs s) = length (lf_hptrs (queues s fifo))"
    and some: "\<exists>x \<in> set rl. x \<notin> set (hazards s fifo)"
    and I: "I s" "\<And>x s. x \<in> set rl \<Longrightarrow> I s \<Longrightarrow> I (retire_one fifo exec x s)"
      "\<And>x v s. x \<in> set rl \<Longrightarrow> I s \<Longrightarrow> I (set_next x v s)"
      "\<And>v s. I s \<Longrightarrow> I (store (bhp_rlist_loc fifo exec) v s)"
      "\<And>v s. I s \<Longrightarrow> I (store (bhp_rcount_loc fifo exec) v s)"
      "\<And>v s. I s \<Longrightarrow> I (s\<lparr>lf_block_queue_nodes := v\<rparr>)"
  shows "returns (lf_block_queue_scan fifo exec (s, [])) (\<lambda>_ c'. snd c' = [] \<and> I (fst c') \<and>
    stack_is bq_nodes_loc bn_next_loc (fst c')
      (filter (\<lambda>x. x \<notin> set (hazards s fifo)) rl @ free) \<and>
    retired (fst c') fifo exec (rev (filter (\<lambda>x. x \<in> set (hazards s fifo)) rl)))"
proof -
  let ?H = "\<lambda>x. x \<in> set (hazards s fifo)"
  have lv: "bq_live fifo exec s" using p(2) by (simp add: retired_def)
  obtain t where t: "lf_block_queue_scan_build_ptab fifo (s, []) = Some (t, (s, []))"
    "\<And>x. lf_block_queue_ptab_lookup t x (lf_block_queue_hptrs s * 4 - 1) = Some (?H x)"
    using scan_build_quiet [of fifo s] p(4) lv by (auto simp: bq_live_def)
  let ?s = "store (bhp_rcount_loc fifo exec) 0 (store (bhp_rlist_loc fifo exec) NULL s)"
  let ?J = "\<lambda>u. I u \<and> chain (bnext u) (lf_block_queue_nodes u) free NULL"
  have "returns (lf_block_queue_scan_rlist_loop fifo exec t (lf_block_queue_hptrs s * 4 - 1)
      (rlist_of s fifo exec) NULL NULL (?s, [])) (\<lambda>seg c'.
      snd c' = [] \<and> retired (fst c') fifo exec (rev (filter ?H rl) @ []) \<and>
      segment (fst c') (fst seg) (snd seg) ([] @ filter (\<lambda>x. \<not> ?H x) rl) \<and> ?J (fst c'))"
  proof (rule scan_rlist_loop)
    show "retired ?s fifo exec []" using lv by (simp add: retired_def)
    show "chain (bnext ?s) (rlist_of s fifo exec) rl NULL" using p(2) by (simp add: retired_def)
    show "segment ?s NULL NULL []" by (simp add: segment_def)
    show "?J ?s" using I p(1) by (simp add: free_is_bnext)
    show "?J (retire_one fifo exec x u)" if "x \<in> set rl" "?J u" for x u
    proof -
      have "x \<notin> set free" using p(3) that(1) by auto
      then show ?thesis
        using that I(2) by (simp add: retire_one_def Let_def)
    qed
    show "?J (set_next x v u)" if "x \<in> set rl \<union> set []" "?J u" for x v u
    proof -
      have "x \<notin> set free" using p(3) that(1) by auto
      then show ?thesis
        using that I(3) by simp
    qed
  qed (use t p in auto)
  then obtain fh ft u where u: "lf_block_queue_scan_rlist_loop fifo exec t (lf_block_queue_hptrs s * 4 - 1)
      (rlist_of s fifo exec) NULL NULL (?s, []) = Some ((fh, ft), (u, []))"
    "retired u fifo exec (rev (filter ?H rl))" "segment u fh ft (filter (\<lambda>x. \<not> ?H x) rl)" "?J u"
    by (auto simp: returns_ex)
  have "filter (\<lambda>x. \<not> ?H x) rl \<noteq> []" using some by (auto simp: filter_empty_conv)
  moreover from this u(3) have ft: "ft \<in> set (filter (\<lambda>x. \<not> ?H x) rl)" "bnext u ft \<noteq> None"
    unfolding segment_def by (metis in_set_conv_decomp)+
  moreover have "distinct (filter (\<lambda>x. \<not> ?H x) rl @ free)" using p(3) by auto
  ultimately obtain w where w: "retry_until (lf_block_queue_try_free_nodes fh ft) (u, []) = Some ((), (w, []))"
    "w = (set_next ft (lf_block_queue_nodes u) u)\<lparr>lf_block_queue_nodes := fh\<rparr>"
    "stack_is bq_nodes_loc bn_next_loc w (filter (\<lambda>x. \<not> ?H x) rl @ free)"
    using free_segment_quiet [OF u(3), of free] u(4) by (auto simp: free_is_bnext)
  have "retired w fifo exec (rev (filter ?H rl))"
    using u(2) ft by (simp add: w(2) retired_def)
  moreover have "I w" using u(4) I w(2) ft by auto
  ultimately show ?thesis using t u w lv
    by (simp add: lf_block_queue_scan_def lf_block_queue_scan_free_rlist_def
        prd_def [of "bhp_loc _ _ _ _"] pwr_def [of "bhp_loc _ _ _ _"] Let_def)
qed

text \<open>What the retiring of a node keeps of everything else.\<close>

definition pool_step :: "ptr \<Rightarrow> u32 \<Rightarrow> ptr set \<Rightarrow> ('a block_queue_state_scheme \<Rightarrow> bool) \<Rightarrow> bool" where
  "pool_step fifo exec A I \<longleftrightarrow>
     (\<forall>x v s. x \<in> A \<longrightarrow> I s \<longrightarrow> I (set_next x v s)) \<and>
     (\<forall>v s. I s \<longrightarrow> I (store (bhp_rlist_loc fifo exec) v s)) \<and>
     (\<forall>v s. I s \<longrightarrow> I (store (bhp_rcount_loc fifo exec) v s)) \<and>
     (\<forall>v s. I s \<longrightarrow> I (s\<lparr>lf_block_queue_nodes := v\<rparr>))"

lemma pool_stepI:
  assumes "\<And>x v s. x \<in> A \<Longrightarrow> I s \<Longrightarrow> I (set_next x v s)"
    and "\<And>v s. I s \<Longrightarrow> I (store (bhp_rlist_loc fifo exec) v s)"
    and "\<And>v s. I s \<Longrightarrow> I (store (bhp_rcount_loc fifo exec) v s)"
    and "\<And>v s. I s \<Longrightarrow> I (s\<lparr>lf_block_queue_nodes := v\<rparr>)"
  shows "pool_step fifo exec A I"
  using assms unfolding pool_step_def by (intro conjI allI impI)

lemma pool_step_retire_one: "pool_step fifo exec A I \<Longrightarrow> x \<in> A \<Longrightarrow> I s \<Longrightarrow> I (retire_one fifo exec x s)"
  by (simp add: pool_step_def retire_one_def Let_def)

lemma retire_one_more [simp]:
  "lf_block_queue_hptrs (retire_one fifo exec x s) = lf_block_queue_hptrs s"
  "lf_block_queue_hptr_threshold (retire_one fifo exec x s) = lf_block_queue_hptr_threshold s"
  "lf_block_queue_nodes (retire_one fifo exec x s) = lf_block_queue_nodes s"
  "length (lf_hptrs (queues (retire_one fifo exec x s) q)) = length (lf_hptrs (queues s q))"
  by (simp_all add: retire_one_def Let_def)

lemma hazards_bhp [simp]:
  "hazards (store (bhp_rlist_loc fifo exec) v s) fifo = hazards s fifo"
  "hazards (store (bhp_rcount_loc fifo exec) w s) fifo = hazards s fifo"
  "hazards (set_next x v s) fifo = hazards s fifo"
proof -
  have eq: "bhp_ptrs (hs[e := upd (hs ! e)] ! i) = bhp_ptrs (hs ! i)"
    if "\<And>h. bhp_ptrs (upd h) = bhp_ptrs h" for hs e i and upd :: "lf_block_queue_hazard_ptrs_t \<Rightarrow> lf_block_queue_hazard_ptrs_t"
    using that by (cases "e < length hs") (auto simp: nth_list_update list_update_beyond not_less)
  show "hazards (store (bhp_rlist_loc fifo exec) v s) fifo = hazards s fifo"
    "hazards (store (bhp_rcount_loc fifo exec) w s) fifo = hazards s fifo"
    using eq [where upd = "bhp_rlist_update (\<lambda>_. v)"] eq [where upd = "bhp_rcount_update (\<lambda>_. w)"]
    by (simp_all add: hazards_def hazards_from_def bhp_loc_def)
  show "hazards (set_next x v s) fifo = hazards s fifo"
    by (simp add: hazards_def hazards_from_def)
qed

lemma hazards_retire_one [simp]: "hazards (retire_one fifo exec x s) fifo = hazards s fifo"
  by (simp add: retire_one_def Let_def)

text \<open>
  Retiring a node always returns: when the scan starts there is one more retired node than
  hazard pointers, so some node can be freed. Afterwards the nodes are the same, freed or
  retired, and no freed one is hazardous.
\<close>

text \<open>A node is added to the retired list, and a full list is scanned.\<close>

lemma retire_run:
  assumes p: "bq_pool s fifo exec free rl" and x: "bnext s x \<noteq> None" and len: "length rl \<le> 2 * unat (lf_block_queue_hptrs s)"
  shows "lf_block_queue_node_retire fifo exec x (s, []) = (if length rl = 2 * unat (lf_block_queue_hptrs s)
    then lf_block_queue_scan fifo exec (retire_one fifo exec x s, []) else Some ((), (retire_one fifo exec x s, [])))"
proof -
  let ?e = "lf_block_queue_hptrs s"
  have r: "retired s fifo exec rl" and lv: "bq_live fifo exec s" using p by (auto simp: bq_pool_def retired_def)
  have "unat (?e * 2) = 2 * unat ?e" "unat (of_nat (length rl) :: u32) = length rl"
    using p len by (auto simp: bq_pool_def unat_word_ariths unat_of_nat)
  then have "lf_block_queue_hptr_threshold s \<le> rcount_of s fifo exec \<longleftrightarrow> length rl = 2 * unat ?e"
    using p r len by (auto simp: bq_pool_def retired_def word_le_nat_alt)
  then show ?thesis
    using lv x by (auto simp: lf_block_queue_node_retire_def prd_def [of "bhp_loc _ _ _ _"]
        pwr_def [of "bhp_loc _ _ _ _"] retire_one_def Let_def)
qed

lemma retire_scan:
  assumes p: "bq_pool s fifo exec free rl" and x: "x \<notin> set (free @ rl)" "bnext s x \<noteq> None"
    and full: "length rl = 2 * unat (lf_block_queue_hptrs s)"
    and I: "I s" "pool_step fifo exec (insert x (set rl)) I"
  shows "returns (lf_block_queue_scan fifo exec (retire_one fifo exec x s, [])) (\<lambda>_ c'. snd c' = [] \<and> I (fst c') \<and>
    bq_pool (fst c') fifo exec (filter (\<lambda>y. y \<notin> set (hazards s fifo)) (x # rl) @ free)
      (rev (filter (\<lambda>y. y \<in> set (hazards s fifo)) (x # rl))))"
proof -
  let ?s = "retire_one fifo exec x s" and ?e = "lf_block_queue_hptrs s"
  have r: "retired s fifo exec rl" and fr: "stack_is bq_nodes_loc bn_next_loc s free"
    and dist: "distinct (x # rl)" and few: "length (hazards s fifo) \<le> 2 * unat ?e"
    using p x(1) by (auto simp: bq_pool_def)
  have x0: "x \<noteq> NULL" using x(2) by auto
  have r1: "retired ?s fifo exec (x # rl)" using retired_push [OF r _ x0 x(2)] x(1) by simp
  have fr1: "stack_is bq_nodes_loc bn_next_loc ?s free"
    using fr x by (simp add: free_is_bnext)
  have "length (filter (\<lambda>y. y \<in> set (hazards s fifo)) (x # rl)) < length (x # rl)"
    using filter_set_length [OF dist, of "hazards s fifo"] full few by simp
  then have some: "\<exists>y \<in> set (x # rl). y \<notin> set (hazards ?s fifo)"
    using length_filter_less by (metis filter_True less_irrefl hazards_retire_one)
  let ?J = "\<lambda>u. I u \<and> lf_block_queue_hptrs u = ?e \<and>
    lf_block_queue_hptr_threshold u = lf_block_queue_hptr_threshold s \<and>
    length (lf_hptrs (queues u fifo)) = length (lf_hptrs (queues s fifo))"
  have "returns (lf_block_queue_scan fifo exec (?s, [])) (\<lambda>_ c'. snd c' = [] \<and> ?J (fst c') \<and>
    stack_is bq_nodes_loc bn_next_loc (fst c') (filter (\<lambda>y. y \<notin> set (hazards ?s fifo)) (x # rl) @ free) \<and>
    retired (fst c') fifo exec (rev (filter (\<lambda>y. y \<in> set (hazards ?s fifo)) (x # rl))))"
    by (rule scan_quiet [OF fr1 r1 _ _ some])
      (use p x I pool_step_retire_one [OF I(2)] in \<open>auto simp: bq_pool_def pool_step_def\<close>)
  then show ?thesis using p dist x by (auto simp: bq_pool_def elim!: returns_mono)
qed

lemma retire_quiet:
  assumes p: "bq_pool s fifo exec free rl" and x: "x \<notin> set (free @ rl)" "bnext s x \<noteq> None"
    and len: "length rl \<le> 2 * unat (lf_block_queue_hptrs s)"
    and I: "I s" "pool_step fifo exec (insert x (set rl)) I"
  shows "returns (lf_block_queue_node_retire fifo exec x (s, [])) (\<lambda>_ c'. snd c' = [] \<and> I (fst c') \<and>
    (\<exists>frees rl'. bq_pool (fst c') fifo exec (frees @ free) rl' \<and>
      set frees \<union> set rl' = insert x (set rl) \<and> set frees \<inter> set (hazards s fifo) = {} \<and>
      length rl' \<le> 2 * unat (lf_block_queue_hptrs s)))"
proof -
  let ?s = "retire_one fifo exec x s" and ?e = "lf_block_queue_hptrs s"
  have r: "retired s fifo exec rl" and fr: "stack_is bq_nodes_loc bn_next_loc s free" and few: "length (hazards s fifo) \<le> 2 * unat ?e"
    using p by (auto simp: bq_pool_def)
  have x0: "x \<noteq> NULL" using x(2) by auto
  note run = retire_run [OF p x(2) len]
  show ?thesis
  proof (cases "length rl = 2 * unat ?e")
    case False
    have "retired ?s fifo exec (x # rl)" using retired_push [OF r _ x0 x(2)] x(1) by simp
    moreover have "stack_is bq_nodes_loc bn_next_loc ?s free" using fr x by (simp add: free_is_bnext)
    ultimately have "bq_pool ?s fifo exec ([] @ free) (x # rl)"
      using p x by (auto simp: bq_pool_def)
    then have "\<exists>frees rl'. bq_pool ?s fifo exec (frees @ free) rl' \<and>
        set frees \<union> set rl' = insert x (set rl) \<and> set frees \<inter> set (hazards s fifo) = {} \<and> length rl' \<le> 2 * unat ?e"
      using False len by (intro exI [of _ "[]"] exI [of _ "x # rl"]) simp
    moreover have "I ?s" using pool_step_retire_one [OF I(2)] I(1) by simp
    ultimately show ?thesis using run False by simp
  next
    case True
    let ?frees = "filter (\<lambda>y. y \<notin> set (hazards s fifo)) (x # rl)"
    let ?rl = "rev (filter (\<lambda>y. y \<in> set (hazards s fifo)) (x # rl))"
    have "distinct (x # rl)" using p x(1) by (auto simp: bq_pool_def)
    from filter_set_length [OF this, of "hazards s fifo"] few have "length ?rl \<le> 2 * unat ?e" by simp
    moreover have "set ?frees \<union> set ?rl = insert x (set rl)" "set ?frees \<inter> set (hazards s fifo) = {}" by auto
    ultimately show ?thesis unfolding run if_P [OF True]
      by (intro returns_mono [OF retire_scan [OF p x True I]]) blast
  qed
qed

subsection \<open>First in, first out\<close>

abbreviation bq_nodes_are :: "'a block_queue_state_scheme \<Rightarrow> ptr \<Rightarrow> ptr \<Rightarrow> ptr list \<Rightarrow> ptr list \<Rightarrow> bool" where
  "bq_nodes_are s fifo \<equiv> ms_queue (bq_head_loc fifo) (bq_tail_loc fifo) bn_next_loc bn_data_loc s"

definition bq_ok ::
  "'a block_queue_state_scheme \<Rightarrow> ptr \<Rightarrow> u32 \<Rightarrow> ptr list \<Rightarrow> ptr list \<Rightarrow> ptr \<Rightarrow> ptr list \<Rightarrow> ptr list \<Rightarrow> bool" where
  "bq_ok s fifo exec free rl sent nodes vals \<longleftrightarrow> bq_pool s fifo exec free rl \<and>
     length rl \<le> 2 * unat (lf_block_queue_hptrs s) \<and> bq_nodes_are s fifo sent nodes vals \<and>
     distinct (free @ rl @ sent # nodes)"

lemma bq_pool_frame:
  "bq_pool (store (bq_tail_loc fifo) v s) fifo exec free rl = bq_pool s fifo exec free rl"
  "bq_pool (store (bq_head_loc fifo) v s) fifo exec free rl = bq_pool s fifo exec free rl"
  "bq_pool (store (bhp_ptrs_loc fifo exec j) v s) fifo exec free rl = bq_pool s fifo exec free rl"
  "x \<notin> set (free @ rl) \<Longrightarrow> bq_pool (store (bn_data_loc x) v s) fifo exec free rl = bq_pool s fifo exec free rl"
  "x \<notin> set (free @ rl) \<Longrightarrow> bq_pool (set_next x v s) fifo exec free rl = bq_pool s fifo exec free rl"
proof -
  have n: "bnext (store (bq_tail_loc fifo) v s) = bnext s" "bnext (store (bq_head_loc fifo) v s) = bnext s"
    "bnext (store (bn_data_loc x) v s) = bnext s"
    by (auto simp: bnext_def fun_eq_iff)
  show "bq_pool (store (bq_tail_loc fifo) v s) fifo exec free rl = bq_pool s fifo exec free rl"
    using n by (simp add: bq_pool_def free_is_bnext retired_def bq_live_def)
  show "bq_pool (store (bq_head_loc fifo) v s) fifo exec free rl = bq_pool s fifo exec free rl"
    using n by (simp add: bq_pool_def free_is_bnext retired_def bq_live_def)
  show "bq_pool (store (bn_data_loc x) v s) fifo exec free rl = bq_pool s fifo exec free rl"
    if "x \<notin> set (free @ rl)"
    using n by (simp add: bq_pool_def free_is_bnext retired_def bq_live_def)
  show "bq_pool (set_next x v s) fifo exec free rl = bq_pool s fifo exec free rl"
    if "x \<notin> set (free @ rl)"
    using that by (auto simp: bq_pool_def free_is_bnext retired_def)
  have "rlist_of (store (bhp_ptrs_loc fifo exec j) v s) fifo exec = rlist_of s fifo exec"
    "rcount_of (store (bhp_ptrs_loc fifo exec j) v s) fifo exec = rcount_of s fifo exec" if "bq_live fifo exec s"
    using that by (simp_all add: bhp_loc_def bq_live_def)
  then show "bq_pool (store (bhp_ptrs_loc fifo exec j) v s) fifo exec free rl = bq_pool s fifo exec free rl"
    by (auto simp: bq_pool_def free_is_bnext retired_def)
qed

lemma hptrs_frame:
  "lf_block_queue_hptrs (store (bq_tail_loc fifo) p s) = lf_block_queue_hptrs s"
  "lf_block_queue_hptrs (store (bq_head_loc fifo) p s) = lf_block_queue_hptrs s"
  by simp_all

lemma alloc_node_quiet:
  assumes "bq_pool s fifo exec (f # free) rl"
  shows "\<exists>y. bnext s f = Some y \<and> f \<noteq> NULL \<and>
    lf_block_queue_alloc_node E (s, []) = Some (f, (s\<lparr>lf_block_queue_nodes := y\<rparr>, [])) \<and>
    bq_pool (s\<lparr>lf_block_queue_nodes := y\<rparr>) fifo exec free rl"
proof -
  from assms obtain y where y: "lf_block_queue_nodes s = f" "f \<noteq> NULL" "bnext s f = Some y"
    "chain (bnext s) y free NULL"
    by (auto simp: bq_pool_def free_is_bnext split: option.splits)
  have "bq_pool (s\<lparr>lf_block_queue_nodes := y\<rparr>) fifo exec free rl"
    using assms y by (auto simp: bq_pool_def free_is_bnext retired_def)
  moreover have "lf_block_queue_alloc_node E (s, []) = Some (f, (s\<lparr>lf_block_queue_nodes := y\<rparr>, []))"
    using y by (simp add: lf_block_queue_alloc_node_def retry_valid_def retry.simps
        lf_block_queue_try_alloc_node_def rd_def cas_def atomic_cas_defs Let_def bnext_def split: if_splits)
  ultimately show ?thesis using y by blast
qed

lemma enqueue_quiet:
  assumes ok: "bq_ok s fifo exec (f # free) rl sent nodes vals"
  shows "returns (lf_block_queue_enqueue E fifo block exec (s, [])) (\<lambda>_ c'. snd c' = [] \<and>
    bq_ok (fst c') fifo exec free rl sent (nodes @ [f]) (vals @ [block]))"
proof -
  obtain y where y: "bnext s f = Some y" "f \<noteq> NULL"
    "lf_block_queue_alloc_node E (s, []) = Some (f, (s\<lparr>lf_block_queue_nodes := y\<rparr>, []))"
    "bq_pool (s\<lparr>lf_block_queue_nodes := y\<rparr>) fifo exec free rl"
    using alloc_node_quiet [of s fifo exec f free rl E] ok by (auto simp: bq_ok_def)
  let ?s1 = "store (bn_data_loc f) block (s\<lparr>lf_block_queue_nodes := y\<rparr>)"
  let ?s = "set_next f NULL ?s1"
  have dist: "distinct (f # free @ rl @ sent # nodes)" using ok by (simp add: bq_ok_def)
  have pool: "bq_pool ?s fifo exec free rl" using y(4) dist by (simp add: bq_pool_frame del: mem_loc_simps)
  have lv: "bq_live fifo exec ?s" using pool by (simp add: bq_pool_def retired_def)
  have q: "bq_nodes_are ?s fifo sent nodes vals"
  proof -
    have "bq_nodes_are ?s fifo sent nodes vals = bq_nodes_are s fifo sent nodes vals"
      by (rule ms_queue_cong) (use dist in \<open>auto simp: set_next_def\<close>)
    then show ?thesis using ok by (simp add: bq_ok_def)
  qed
  have hptrs: "length rl \<le> 2 * unat (lf_block_queue_hptrs ?s)" using ok by (simp add: bq_ok_def)
  let ?I = "\<lambda>u. bq_pool u fifo exec free rl \<and> length rl \<le> 2 * unat (lf_block_queue_hptrs u)"
  have loop: "returns (retry_nonnull (lf_block_queue_try_enqueue fifo f exec) (?s, [])) (\<lambda>t c'.
      snd c' = [] \<and> load (bq_tail_loc fifo) (fst c') = Some t \<and> bq_live fifo exec (fst c') \<and> ?I (fst c') \<and>
      bq_nodes_are (fst c') fifo sent (nodes @ [f]) (vals @ [block]))"
    unfolding lf_block_queue_try_enqueue_ms
  proof (rule bq_ms.enqueue_loop [OF q lv])
    show "f \<notin> set (sent # nodes)" using dist by auto
    show "load (bn_next_loc f) ?s = Some NULL" "load (bn_data_loc f) ?s = Some block"
      using y by (auto simp: bnext_def set_next_def split: if_splits)
    show "?I (store (bn_next_loc p) v u)" if "p \<in> set (sent # nodes)" "?I u" for p v u
    proof -
      have "p \<notin> set (free @ rl)" using dist that(1) by auto
      then show ?thesis using that(2) bq_pool_frame(5) [of p free rl v u fifo exec]
        by (simp add: set_next_def)
    qed
  qed (use y pool hptrs in \<open>auto simp: bq_pool_frame hptrs_frame simp del: mem_loc_simps\<close>)
  have fin: "bq_ok (store (bhp_ptrs_loc fifo exec 0) NULL (store (bq_tail_loc fifo) f u)) fifo exec free rl
      sent (nodes @ [f]) (vals @ [block])"
    if "?I u" "bq_live fifo exec u" "bq_nodes_are u fifo sent (nodes @ [f]) (vals @ [block])" for u
    using that dist bq_ms.is_queue_tl [OF that(3,2), of f]
    by (auto simp: bq_ok_def bq_pool_frame hptrs_frame bq_ms.is_queue_hz simp del: mem_loc_simps)
  have step: "lf_block_queue_enqueue E fifo block exec (s, []) = do {
      (tail, c) \<leftarrow> retry_nonnull (lf_block_queue_try_enqueue fifo f exec) (?s, []);
      (_, c) \<leftarrow> atomic_compare_and_set_ptr tail f (bq_tail_loc fifo) c;
      wr (bhp_ptrs_loc fifo exec 0) NULL c }"
    using y by (auto simp: lf_block_queue_enqueue_def pwr_def [of "bn_data_loc _"] bnext_def split: if_splits)
  show ?thesis unfolding step returns_bind
  proof (rule returns_mono [OF loop])
    fix t and c' :: "'a block_queue_state_scheme conc"
    assume c': "snd c' = [] \<and> load (bq_tail_loc fifo) (fst c') = Some t \<and>
      bq_live fifo exec (fst c') \<and> ?I (fst c') \<and>
      bq_nodes_are (fst c') fifo sent (nodes @ [f]) (vals @ [block])"
    then obtain u where u: "c' = (u, [])" by (cases c') auto
    from c' have "bq_live fifo exec (store (bq_tail_loc fifo) f u)" by (simp add: bq_live_def u)
    then show "returns (case (t, c') of (tail, c) \<Rightarrow>
        atomic_compare_and_set_ptr tail f (bq_tail_loc fifo) c \<bind>
          (\<lambda>(_, c). wr (bhp_ptrs_loc fifo exec 0) NULL c))
      (\<lambda>_ c'. snd c' = [] \<and> bq_ok (fst c') fifo exec free rl sent (nodes @ [f]) (vals @ [block]))"
      using fin [of u] c' by (simp add: u wp atomic_cas_defs del: mem_loc_simps)
  qed
qed

lemma dequeue_empty_quiet:
  assumes ok: "bq_ok s fifo exec free rl sent [] []"
  shows "returns (lf_block_queue_dequeue fifo exec (s, [])) (\<lambda>r c'. r = NULL \<and> snd c' = [] \<and>
    bq_ok (fst c') fifo exec free rl sent [] [])"
proof -
  have lv: "bq_live fifo exec s" and q: "bq_nodes_are s fifo sent [] []"
    using ok by (auto simp: bq_ok_def bq_pool_def retired_def)
  show ?thesis
    unfolding lf_block_queue_dequeue_def lf_block_queue_try_dequeue_ms
  proof (rule retry_valid_now)
    show "returns (ms_try_dequeue (bq_head_loc fifo) (bq_tail_loc fifo) bn_next_loc bn_data_loc
        (bhp_ptrs_loc fifo exec) (lf_block_queue_node_retire fifo exec) (s, []))
      (\<lambda>r c'. o_valid r \<and> o_value r = NULL \<and> snd c' = [] \<and> bq_ok (fst c') fifo exec free rl sent [] [])"
      unfolding bq_ms.attempt_dequeue_empty [OF q lv]
      using ok by (simp add: bq_ok_def bq_pool_frame bq_ms.is_queue_hz)
  qed
qed

text \<open>After the head has moved on, the old sentinel is retired.\<close>

lemma dequeue_retire:
  assumes u: "bq_nodes_are u fifo n ns vs" "bq_pool u fifo exec free rl" "length rl \<le> 2 * unat (lf_block_queue_hptrs u)"
      "bnext u sent \<noteq> None" and dist: "distinct (free @ rl @ sent # n # ns)"
  shows "returns (lf_block_queue_node_retire fifo exec sent (u, [])) (\<lambda>_ c'. snd c' = [] \<and> bq_live fifo exec (fst c') \<and>
    (\<exists>frees rl'. bq_ok (store (bhp_ptrs_loc fifo exec 0) NULL (fst c')) fifo exec (frees @ free) rl' n ns vs))"
proof -
  let ?J = "\<lambda>w. bq_nodes_are w fifo n ns vs \<and> lf_block_queue_hptrs w = lf_block_queue_hptrs u"
  have "returns (lf_block_queue_node_retire fifo exec sent (u, [])) (\<lambda>_ c'. snd c' = [] \<and> ?J (fst c') \<and>
    (\<exists>frees rl'. bq_pool (fst c') fifo exec (frees @ free) rl' \<and>
      set frees \<union> set rl' = insert sent (set rl) \<and> set frees \<inter> set (hazards u fifo) = {} \<and>
      length rl' \<le> 2 * unat (lf_block_queue_hptrs u)))"
  proof (rule retire_quiet)
    show "sent \<notin> set (free @ rl)" using dist by auto
    have a: "?J (set_next x w z)" if x: "x \<in> insert sent (set rl)" and z: "?J z" for x w z
    proof -
      have "bq_nodes_are (set_next x w z) fifo n ns vs = bq_nodes_are z fifo n ns vs"
        by (rule ms_queue_cong) (use dist x in \<open>auto simp: set_next_def\<close>)
      then show ?thesis using z by simp
    qed
    have b: "?J (store (bhp_loc get upd fifo exec) w z)" if "?J z" for z w
      and get :: "lf_block_queue_hazard_ptrs_t \<Rightarrow> 'v" and upd
      using that ms_queue_cong [of "bq_head_loc fifo" "store (bhp_loc get upd fifo exec) w z" z
        "bq_tail_loc fifo" n ns bn_next_loc bn_data_loc vs] by simp
    have d: "?J (z\<lparr>lf_block_queue_nodes := w\<rparr>)" if "?J z" for z w
      using that ms_queue_cong [of "bq_head_loc fifo" "z\<lparr>lf_block_queue_nodes := w\<rparr>" z
        "bq_tail_loc fifo" n ns bn_next_loc bn_data_loc vs] by simp
    show "pool_step fifo exec (insert sent (set rl)) ?J"
    proof (rule pool_stepI)
      show "?J (set_next x w z)" if "x \<in> insert sent (set rl)" "?J z" for x w z
        by (rule a [OF that])
      show "?J (store (bhp_rlist_loc fifo exec) w z)" "?J (store (bhp_rcount_loc fifo exec) w' z)"
        if "?J z" for w w' z
        using that by (rule b)+
      show "?J (z\<lparr>lf_block_queue_nodes := w\<rparr>)" if "?J z" for w z
        by (rule d [OF that])
    qed
  qed (use u in auto)
  then show ?thesis
  proof (rule returns_mono)
    fix a c' assume c': "snd c' = [] \<and> ?J (fst c') \<and>
      (\<exists>frees rl'. bq_pool (fst c') fifo exec (frees @ free) rl' \<and>
        set frees \<union> set rl' = insert sent (set rl) \<and> set frees \<inter> set (hazards u fifo) = {} \<and>
        length rl' \<le> 2 * unat (lf_block_queue_hptrs u))"
    then obtain frees rl' where f: "bq_pool (fst c') fifo exec (frees @ free) rl'"
      "set frees \<union> set rl' = insert sent (set rl)" "length rl' \<le> 2 * unat (lf_block_queue_hptrs u)"
      by blast
    have "(set (frees @ free) \<union> set rl') \<inter> set (n # ns) = {}" using f(2) dist by auto
    moreover have "distinct ((frees @ free) @ rl')" "distinct (n # ns)"
      using f(1) dist by (auto simp: bq_pool_def)
    ultimately have "distinct ((frees @ free) @ rl' @ n # ns)" by auto
    then have "bq_ok (store (bhp_ptrs_loc fifo exec 0) NULL (fst c')) fifo exec (frees @ free) rl' n ns vs"
      using c' f by (simp add: bq_ok_def bq_pool_frame bq_ms.is_queue_hz)
    then show "snd c' = [] \<and> bq_live fifo exec (fst c') \<and> (\<exists>frees rl'. bq_ok (store (bhp_ptrs_loc fifo exec 0) NULL (fst c')) fifo exec (frees @ free) rl' n ns vs)"
      using c' f(1) by (auto simp: bq_pool_def retired_def)
  qed
qed

lemma dequeue_quiet:
  assumes ok: "bq_ok s fifo exec free rl sent (n # ns) (v # vs)"
  shows "returns (lf_block_queue_dequeue fifo exec (s, [])) (\<lambda>r c'. r = v \<and> snd c' = [] \<and>
    (\<exists>frees rl'. bq_ok (fst c') fifo exec (frees @ free) rl' n ns vs))"
proof -
  have lv: "bq_live fifo exec s" and q: "bq_nodes_are s fifo sent (n # ns) (v # vs)"
    and dist: "distinct (free @ rl @ sent # n # ns)"
    using ok by (auto simp: bq_ok_def bq_pool_def retired_def)
  let ?I = "\<lambda>u. bq_pool u fifo exec free rl \<and> length rl \<le> 2 * unat (lf_block_queue_hptrs u) \<and>
    bnext u sent \<noteq> None"
  let ?Q = "\<lambda>u. \<exists>frees rl'. bq_ok u fifo exec (frees @ free) rl' n ns vs"
  have sent: "bnext s sent \<noteq> None"
    using q unfolding ms_queue_def bnext_def by (auto split: option.splits simp del: mem_loc_simps)
  have keep: "bnext (store (bq_head_loc fifo) w u) = bnext u" "bnext (store (bq_tail_loc fifo) w u) = bnext u"
    for w and u :: "'a block_queue_state_scheme"
    by (auto simp: bnext_def fun_eq_iff)
  show ?thesis
    unfolding lf_block_queue_dequeue_def lf_block_queue_try_dequeue_ms
  proof (rule bq_ms.dequeue_loop [OF q lv, where I = ?I and Q = ?Q])
    fix u assume u: "bq_nodes_are u fifo n ns vs" "bq_live fifo exec u" "?I u"
    show "returns (lf_block_queue_node_retire fifo exec sent (u, []))
        (\<lambda>_ c'. snd c' = [] \<and> bq_live fifo exec (fst c') \<and> ?Q (store (bhp_ptrs_loc fifo exec 0) NULL (fst c')))"
      by (rule dequeue_retire [OF u(1) _ _ _ dist]) (use u(3) in auto)
  qed (use ok sent in \<open>auto simp: bq_ok_def bq_pool_frame keep hptrs_frame simp del: mem_loc_simps\<close>)
qed

text \<open>The queue as the contract sees it: one executor, nobody interfering.\<close>

definition bq_enq ::
  "'e slice_env_scheme \<Rightarrow> ptr \<Rightarrow> u32 \<Rightarrow> ptr \<Rightarrow> 'a block_queue_state_scheme \<Rightarrow> 'a block_queue_state_scheme option" where
  "bq_enq E fifo exec block s = map_option (\<lambda>r. fst (snd r)) (lf_block_queue_enqueue E fifo block exec (s, []))"

definition bq_deq ::
  "ptr \<Rightarrow> u32 \<Rightarrow> 'a block_queue_state_scheme \<Rightarrow> (ptr option \<times> 'a block_queue_state_scheme) option" where
  "bq_deq fifo exec s = map_option (\<lambda>r. (if fst r = NULL then None else Some (fst r), fst (snd r)))
     (lf_block_queue_dequeue fifo exec (s, []))"

definition bq_holds :: "ptr \<Rightarrow> u32 \<Rightarrow> 'a block_queue_state_scheme \<Rightarrow> nat \<Rightarrow> ptr list \<Rightarrow> bool" where
  "bq_holds fifo exec s k vals \<longleftrightarrow> NULL \<notin> set vals \<and>
     (\<exists>free rl sent nodes. bq_ok s fifo exec free rl sent nodes vals \<and> k \<le> length free)"

interpretation bq: fifo_queue "bq_enq E fifo exec" "bq_deq fifo exec" "bq_holds fifo exec" "\<lambda>_ x. x \<noteq> NULL"
  for E :: "'e slice_env_scheme" and fifo exec
proof unfold_locales
  fix s :: "'a block_queue_state_scheme" and k xs and x :: ptr
  show "\<exists>t. bq_enq E fifo exec x s = Some t \<and> bq_holds fifo exec t k (xs @ [x])"
    if "bq_holds fifo exec s (Suc k) xs" "x \<noteq> NULL"
  proof -
    from that(1) obtain free rl sent nodes where
      ok: "bq_ok s fifo exec free rl sent nodes xs" "Suc k \<le> length free" "NULL \<notin> set xs"
      by (auto simp: bq_holds_def)
    then obtain f fs where "free = f # fs" by (cases free) auto
    with ok enqueue_quiet [of s fifo exec f fs rl sent nodes xs E x] that(2) show ?thesis
      by (fastforce simp: returns_ex bq_enq_def bq_holds_def)
  qed
  show "\<exists>t. bq_deq fifo exec s = Some (None, t) \<and> bq_holds fifo exec t k []"
    if "bq_holds fifo exec s k []"
  proof -
    from that obtain free rl sent nodes where
      ok: "bq_ok s fifo exec free rl sent nodes []" "k \<le> length free"
      by (auto simp: bq_holds_def)
    then have "nodes = []" by (auto simp: bq_ok_def ms_queue_def)
    with ok dequeue_empty_quiet [of s fifo exec free rl sent] show ?thesis
      by (fastforce simp: returns_ex bq_deq_def bq_holds_def)
  qed
  show "\<exists>t. bq_deq fifo exec s = Some (Some x, t) \<and> bq_holds fifo exec t k xs"
    if "bq_holds fifo exec s k (x # xs)"
  proof -
    from that obtain free rl sent nodes where
      ok: "bq_ok s fifo exec free rl sent nodes (x # xs)" "k \<le> length free" "NULL \<notin> set (x # xs)"
      by (auto simp: bq_holds_def)
    then obtain n ns where "nodes = n # ns" by (cases nodes) (auto simp: bq_ok_def ms_queue_def)
    with ok dequeue_quiet [of s fifo exec free rl sent n ns x xs]
    obtain u frees rl' where "lf_block_queue_dequeue fifo exec (s, []) = Some (x, (u, []))"
      "bq_ok u fifo exec (frees @ free) rl' n ns xs"
      by (auto simp: returns_ex)
    moreover have "k \<le> length (frees @ free)" using ok(2) by simp
    ultimately show ?thesis using ok(3) unfolding bq_deq_def bq_holds_def by (simp, blast)
  qed
  show "bq_holds fifo exec s j xs" if "bq_holds fifo exec s k xs" "j \<le> k" for j
    using that by (auto simp: bq_holds_def intro: le_trans)
qed

subsection \<open>Properties\<close>

text \<open>A queue of one executor with three free nodes, for the examples.\<close>

definition ex_bq :: block_queue_state where
  "ex_bq = \<lparr>words = (\<lambda>_. Some 0), slices = (\<lambda>_. None), slice_free_list = NULL,
     total_size = 0, malloc_size = 0, gc_size = 0, slice_size = 0, total_limit = 0,
     malloc_limit = 0, gc_limit = 0, os_log = [],
     qnodes = (\<lambda>p. \<lparr>lfn_next = (if p = 0x210 then 0x218 else if p = 0x218 then 0x220 else NULL),
       lfn_data = NULL\<rparr>),
     queues = (\<lambda>_. \<lparr>lf_head = 0x200, lf_tail = 0x200,
       lf_hptrs = [\<lparr>bhp_rcount = 0, bhp_rlist = NULL, bhp_ptrs = (\<lambda>_. NULL)\<rparr>]\<rparr>),
     lf_block_queue_hptrs = 1, lf_block_queue_hptr_threshold = 2, lf_block_queue_nodes = 0x210\<rparr>"

lemma ex_bq_ok: "bq_ok ex_bq 0x100 0 [0x210, 0x218, 0x220] [] 0x200 [] []"
  by (simp add: bq_ok_def bq_pool_def retired_def bq_live_def free_is_bnext bnext_def ms_queue_def
      ex_bq_def)

lemma ex_bq_holds: "bq_holds 0x100 0 ex_bq 3 []"
  using ex_bq_ok unfolding bq_holds_def by force

text \<open>
  C3 [block_queue_fifo]. Run by one executor on any sequence of operations for which there
  are nodes, the block queue gives what a list gives, in order, across lagging tail pointers,
  retirements and scans; no operation faults and every retry loop ends.
\<close>

theorem block_queue_refines_list:
  assumes "bq_holds fifo exec s (length (enqueued ops)) xs" "NULL \<notin> set (enqueued ops)"
  shows "\<exists>t. run_fifo (bq_enq E fifo exec) (bq_deq fifo exec) ops s = Some (fst (run_list ops xs), t) \<and>
    bq_holds fifo exec t 0 (snd (run_list ops xs))"
  using bq.runs_as_list [of fifo exec s ops xs E] fits_run_all [of ops "\<lambda>x. x \<noteq> NULL"] assms by metis

lemma block_queue_refines_list_witness:
  "\<forall>E. \<exists>t. run_fifo (bq_enq E 0x100 0) (bq_deq 0x100 0) [Deq, Enq 7, Enq 9, Deq, Enq 5, Deq, Deq, Deq] ex_bq =
    Some ([None, Some 7, Some 9, Some 5, None], t)"
  using block_queue_refines_list [of "0x100" 0 ex_bq
      "[Deq, Enq 7, Enq 9, Deq, Enq 5, Deq, Deq, Deq]" "[]"] ex_bq_holds
  by (auto simp: numeral_3_eq_3 Let_def)

text \<open>
  C9 [node_retire]. Retiring a node always returns, although \<open>lf_block_queue_try_free_nodes\<close>
  dereferences NULL when there is nothing to free: a scan starts only with one retired node
  more than there are hazard pointers. No node that a hazard pointer names is freed, none is
  lost, and the retired list stays within its bound.
\<close>

theorem node_retire_safe:
  assumes "bq_pool s fifo exec free rl" "x \<notin> set (free @ rl)" "x \<noteq> NULL" "words s x \<noteq> None"
    and "length rl \<le> 2 * unat (lf_block_queue_hptrs s)"
  shows "returns (lf_block_queue_node_retire fifo exec x (s, [])) (\<lambda>_ c'.
    \<exists>frees rl'. bq_pool (fst c') fifo exec (frees @ free) rl' \<and>
      set frees \<union> set rl' = insert x (set rl) \<and> set frees \<inter> set (hazards s fifo) = {} \<and>
      length rl' \<le> 2 * unat (lf_block_queue_hptrs s))"
proof -
  have "bnext s x \<noteq> None" using assms by (simp add: bnext_def)
  moreover have "pool_step fifo exec (insert x (set rl)) (\<lambda>_. True)"
    by (simp add: pool_step_def)
  ultimately show ?thesis
    using retire_quiet [of s fifo exec free rl x "\<lambda>_. True"] assms
    by (auto intro: returns_mono)
qed

lemma node_retire_safe_witness:
  "returns (lf_block_queue_node_retire 0x100 0 0x300 (ex_bq, [])) (\<lambda>_ _. True)"
proof -
  have "bq_pool ex_bq 0x100 0 [0x210, 0x218, 0x220] []" using ex_bq_ok by (simp add: bq_ok_def)
  from node_retire_safe [OF this, of "0x300"] show ?thesis
    by (auto simp: ex_bq_def intro: returns_mono)
qed

text \<open>
  C37 [scan_ptab]. The hash table of a scan answers exactly the question whether a hazard
  pointer of some executor names a node.
\<close>

theorem scan_table_is_hazards:
  assumes "fifo \<noteq> NULL" "words s fifo \<noteq> None"
    "unat (lf_block_queue_hptrs s) = length (lf_hptrs (queues s fifo))"
  shows "\<exists>t. lf_block_queue_scan_build_ptab fifo (s, []) = Some (t, (s, [])) \<and>
    (\<forall>x. lf_block_queue_ptab_lookup t x (lf_block_queue_hptrs s * 4 - 1) =
       Some (\<exists>e < length (lf_hptrs (queues s fifo)). \<exists>j < 2. bhp_ptrs (lf_hptrs (queues s fifo) ! e) j = x))"
proof -
  have "(x \<in> set (hazards s fifo)) =
      (\<exists>e < length (lf_hptrs (queues s fifo)). \<exists>j < 2. bhp_ptrs (lf_hptrs (queues s fifo) ! e) j = x)" for x
    using assms(3) by (auto simp: hazards_def hazards_from_def less_2_cases_iff)
  then show ?thesis using scan_build_quiet [OF assms] by simp
qed

lemma scan_table_is_hazards_witness:
  "\<exists>t. lf_block_queue_scan_build_ptab 0x100 (ex_bq, []) = Some (t, (ex_bq, [])) \<and>
    lf_block_queue_ptab_lookup t 0x210 3 = Some False"
  using scan_table_is_hazards [of "0x100" ex_bq] by (auto simp: ex_bq_def)

end
