(* ===== verification/Size_Class.thy ===== *)
theory Size_Class
  imports Prelude
begin

unbundle bit_operations_syntax

section \<open>Size classes (\<open>src/mm/malloc/lf_malloc.c\<close>)\<close>

text \<open>
  The tables of block sizes, each with the size of its superblocks, and the functions that pick a class
  by a cascade of shifts: one pair for each size of cache lines the file is written for. \<open>malloc\<close> is
  modelled in the build for 32 bytes, that of the architecture. The theorem says for which sizes the class
  is in the table and its blocks are larger.
\<close>

definition NUM_SIZE_CLASSES :: nat where "NUM_SIZE_CLASSES = 32"

definition malloc_sizeclass_table :: "(u32 \<times> u32) list" where
  "malloc_sizeclass_table =
    [(0x20, 0x10000), (0x40, 0x10000), (0x60, 0x10000), (0x80, 0x10000),
     (0xa0, 0x10000), (0xc0, 0x10000), (0xe0, 0x10000), (0x100, 0x10000),
     (0x140, 0x10000), (0x180, 0x10000), (0x1c0, 0x10000), (0x200, 0x10000),
     (0x280, 0x10000), (0x300, 0x10000), (0x380, 0x10000), (0x400, 0x10000),
     (0x500, 0x10000), (0x600, 0x10000), (0x700, 0x10000), (0x800, 0x10000),
     (0xa00, 0x10000), (0xc00, 0x10000), (0xe00, 0x10000), (0x1000, 0x10000),
     (0x1400, 0x10000), (0x1800, 0x10000), (0x1c00, 0x10000), (0x2000, 0x10000),
     (0x2800, 0x10000), (0x3000, 0x10000), (0x3800, 0x10000), (0x4000, 0x10000)]"

definition malloc_big_size_class :: "u32 \<Rightarrow> u32 \<Rightarrow> u32" where
  "malloc_big_size_class sz base =
     (let size_div128 = drop_bit 6 sz in
      if size_div128 < 4 then base + size_div128
      else let size_div256 = drop_bit 1 (size_div128 - 4) in
        if size_div256 < 4 then base + 4 + size_div256
        else let size_div512 = drop_bit 1 (size_div256 - 4) in
          if size_div512 < 4 then base + 8 + size_div512
          else let size_div1024 = drop_bit 1 (size_div512 - 4) in
            if size_div1024 < 4 then base + 12 + size_div1024
            else let size_div2048 = drop_bit 1 (size_div1024 - 4) in
              if size_div2048 < 4 then base + 16 + size_div2048
              else let size_div4096 = drop_bit 1 (size_div2048 - 4) in
                base + 20 + size_div4096)"

definition malloc_size_class :: "u32 \<Rightarrow> u32" where
  "malloc_size_class sz =
     (let size_div32 = drop_bit 5 sz in
      if size_div32 < 8 then size_div32 else malloc_big_size_class sz 8)"

text \<open>The tables and the functions of the builds for smaller and for larger cache lines.\<close>

definition malloc_sizeclass_table_16 :: "(u32 \<times> u32) list" where
  "malloc_sizeclass_table_16 =
    [(0x10, 0x10000), (0x20, 0x10000), (0x30, 0x10000), (0x40, 0x10000),
     (0x50, 0x10000), (0x60, 0x10000), (0x70, 0x10000), (0x80, 0x10000),
     (0xa0, 0x10000), (0xc0, 0x10000), (0xe0, 0x10000), (0x100, 0x10000),
     (0x140, 0x10000), (0x180, 0x10000), (0x1c0, 0x10000), (0x200, 0x10000),
     (0x280, 0x10000), (0x300, 0x10000), (0x380, 0x10000), (0x400, 0x10000),
     (0x500, 0x10000), (0x600, 0x10000), (0x700, 0x10000), (0x800, 0x10000),
     (0xa00, 0x10000), (0xc00, 0x10000), (0xe00, 0x10000), (0x1000, 0x10000),
     (0x1400, 0x10000), (0x1800, 0x10000), (0x1c00, 0x10000), (0x2000, 0x10000),
     (0x2800, 0x10000), (0x3000, 0x10000), (0x3800, 0x10000), (0x4000, 0x10000)]"

definition malloc_size_class_16 :: "u32 \<Rightarrow> u32" where
  "malloc_size_class_16 sz =
     (let size_div16 = drop_bit 4 sz in
      if size_div16 < 8 then size_div16
      else let size_div32 = drop_bit 1 (size_div16 - 8) in
        if size_div32 < 4 then 8 + size_div32 else malloc_big_size_class sz 12)"

definition malloc_sizeclass_table_64 :: "(u32 \<times> u32) list" where
  "malloc_sizeclass_table_64 =
    [(0x40, 0x10000), (0x80, 0x10000), (0xc0, 0x10000), (0x100, 0x10000),
     (0x140, 0x10000), (0x180, 0x10000), (0x1c0, 0x10000), (0x200, 0x10000),
     (0x280, 0x10000), (0x300, 0x10000), (0x380, 0x10000), (0x400, 0x10000),
     (0x500, 0x10000), (0x600, 0x10000), (0x700, 0x10000), (0x800, 0x10000),
     (0xa00, 0x10000), (0xc00, 0x10000), (0xe00, 0x10000), (0x1000, 0x10000),
     (0x1400, 0x10000), (0x1800, 0x10000), (0x1c00, 0x10000), (0x2000, 0x10000),
     (0x2800, 0x10000), (0x3000, 0x10000), (0x3800, 0x10000), (0x4000, 0x10000)]"

definition malloc_size_class_64 :: "u32 \<Rightarrow> u32" where
  "malloc_size_class_64 sz =
     (let size_div64 = drop_bit 6 sz in
      if size_div64 < 4 then size_div64 else malloc_big_size_class sz 4)"

subsection \<open>The class is the first larger one\<close>

text \<open>The same cascade on naturals.\<close>

definition nat_class :: "nat \<Rightarrow> nat" where
  "nat_class n =
     (if n < 256 then n div 32
      else if n < 768 then 12 + (n - 256) div 128
      else if n < 1792 then 16 + (n - 768) div 256
      else if n < 3840 then 20 + (n - 1792) div 512
      else if n < 7936 then 24 + (n - 3840) div 1024
      else 28 + (n - 7936) div 2048)"

lemma unat_shifts:
  "unat (drop_bit 1 w) = unat w div 2" "unat (drop_bit 5 w) = unat w div 32"
  "unat (drop_bit 6 w) = unat w div 64" for w :: u32
  by (simp_all only: drop_bit_eq_div power_one_right unat_div) simp_all

lemma unat_less_nums: "(w < 4) = (unat w < 4)" "(w < 8) = (unat w < 8)" for w :: u32
  by (simp_all add: word_less_nat_alt)

lemma unat_minus4: "\<not> unat w < 4 \<Longrightarrow> unat (w - 4) = unat w - 4" for w :: u32
  by (subst unat_sub) (simp_all add: word_le_nat_alt)

lemma unat_plus_small: "unat w < 2 ^ 27 \<Longrightarrow> unat b < 64 \<Longrightarrow> unat (b + w) = unat b + unat w" for w :: u32
  by (simp add: unat_word_ariths)

lemma unat_div64_small: "unat sz div 64 < 134217728" for sz :: u32
proof -
  have "unat sz < 4294967296" using unsigned_less [of sz, where 'a = nat] by simp
  then show ?thesis by simp
qed

text \<open>One step of the cascade: the next shift is a division by twice the width.\<close>

lemma cascade_step:
  fixes w :: u32
  assumes "unat w = m div k" "0 < k" "\<not> m div k < 4"
  shows "unat (drop_bit 1 (w - 4)) = (m - 4 * k) div (2 * k)"
proof -
  have "4 * k \<le> m" using assms by (simp add: not_less less_eq_div_iff_mult_less_eq)
  then have "m div k = (m - 4 * k + 4 * k) div k" by simp
  then have "(m - 4 * k) div k = m div k - 4" using assms(2) by simp
  then have "(m - 4 * k) div (k * 2) = (m div k - 4) div 2" by (simp only: div_mult2_eq)
  then show ?thesis using assms
    by (simp only: unat_shifts unat_minus4 not_False_eq_True mult.commute [of 2])
qed

lemma diff_less_eq_add: "0 < b \<Longrightarrow> (n - a < b) = (n < b + a)" for a b n :: nat
  by arith

lemmas class_simps = unat_less_nums unat_shifts unat_plus_small div_less_iff_less_mult diff_less_eq_add

lemma unat_malloc_size_class: "unat (malloc_size_class sz) = nat_class (unat sz)"
proof -
  let ?n = "unat sz"
  define a where "a = drop_bit 6 sz"
  define b where "b = drop_bit 1 (a - 4)"
  define d where "d = drop_bit 1 (b - 4)"
  define e where "e = drop_bit 1 (d - 4)"
  define f where "f = drop_bit 1 (e - 4)"
  define g where "g = drop_bit 1 (f - 4)"
  have cls: "malloc_size_class sz = (if drop_bit 5 sz < 8 then drop_bit 5 sz
      else if a < 4 then 8 + a else if b < 4 then 12 + b else if d < 4 then 16 + d
      else if e < 4 then 20 + e else if f < 4 then 24 + f else 28 + g)"
    by (simp add: malloc_size_class_def malloc_big_size_class_def a_def b_def d_def e_def f_def g_def Let_def)
  have a: "unat a = ?n div 64" by (simp add: a_def unat_shifts)
  have b: "unat b = (?n - 256) div 128" if "\<not> ?n < 256"
    using cascade_step [OF a] that by (simp add: b_def)
  have d: "unat d = (?n - 768) div 256" if "\<not> ?n < 768"
    using cascade_step [OF b] that by (simp add: d_def)
  have e: "unat e = (?n - 1792) div 512" if "\<not> ?n < 1792"
    using cascade_step [OF d] that by (simp add: e_def)
  have f: "unat f = (?n - 3840) div 1024" if "\<not> ?n < 3840"
    using cascade_step [OF e] that by (simp add: f_def)
  have g: "unat g = (?n - 7936) div 2048" if "\<not> ?n < 7936"
    using cascade_step [OF f] that by (simp add: g_def)
  have n: "?n < 4294967296" using unsigned_less [of sz, where 'a = nat] by simp
  consider "?n < 256" | "\<not> ?n < 256" "?n < 768" | "\<not> ?n < 768" "?n < 1792" |
    "\<not> ?n < 1792" "?n < 3840" | "\<not> ?n < 3840" "?n < 7936" | "\<not> ?n < 7936"
    by linarith
  then show ?thesis
  proof cases
    case 1
    then show ?thesis by (simp add: cls nat_class_def class_simps)
  next
    case 2
    with b have "unat b < 4" by (simp add: class_simps)
    with 2 a b show ?thesis
      by (simp add: cls nat_class_def class_simps)
  next
    case 3
    with d have "unat d < 4" by (simp add: class_simps)
    with 3 a b d show ?thesis
      by (simp add: cls nat_class_def class_simps)
  next
    case 4
    with e have "unat e < 4" by (simp add: class_simps)
    with 4 a b d e show ?thesis
      by (simp add: cls nat_class_def class_simps)
  next
    case 5
    with f have "unat f < 4" by (simp add: class_simps)
    with 5 a b d e f show ?thesis
      by (simp add: cls nat_class_def class_simps)
  next
    case 6
    with g n have "unat g < 4294967296 div 2048" by simp
    with 6 a b d e f g show ?thesis
      by (simp add: cls nat_class_def class_simps)
  qed
qed

lemma nat_class_range: "nat_class n < 32 \<longleftrightarrow> n < 0x3f00"
  by (simp add: nat_class_def class_simps)

lemma nat_class_unused: "nat_class n < 8 \<or> 12 \<le> nat_class n"
  by (simp add: nat_class_def class_simps)

text \<open>The sizes of the table in closed form, where the classes are used.\<close>

definition class_bound :: "nat \<Rightarrow> nat" where
  "class_bound k =
    (if k < 8 then 32 * k + 32
     else if k < 16 then 128 * (k - 12) + 640
     else if k < 20 then 256 * (k - 16) + 1280
     else if k < 24 then 512 * (k - 20) + 2560
     else if k < 28 then 1024 * (k - 24) + 5120
     else 2048 * (k - 28) + 10240)"

lemma class_bound_table:
  assumes "k < 32" "k < 8 \<or> 12 \<le> k"
  shows "unat (fst (malloc_sizeclass_table ! k)) = class_bound k"
proof -
  have "\<forall>k \<in> set ([0..<8] @ [12..<32]). unat (fst (malloc_sizeclass_table ! k)) = class_bound k"
    by (simp add: upt_rec class_bound_def malloc_sizeclass_table_def)
  moreover have "k \<in> set ([0..<8] @ [12..<32])" using assms unfolding set_append set_upt by simp
  ultimately show ?thesis by blast
qed

lemma nat_class_bound: "n < class_bound (nat_class n)"
proof -
  have quot: "m < k * (m div k) + k" if "0 < k" for m k :: nat
    using that by (metis add.commute dividend_less_times_div mult.commute)
  consider "n < 256" | "256 \<le> n" "n < 768" | "768 \<le> n" "n < 1792" | "1792 \<le> n" "n < 3840" |
    "3840 \<le> n" "n < 7936" | "7936 \<le> n"
    by linarith
  then show ?thesis
  proof cases
    case 1
    then show ?thesis using quot [of 32 n] by (simp add: nat_class_def class_bound_def class_simps)
  next
    case 2
    then show ?thesis using quot [of 128 "n - 256"]
      by (simp add: nat_class_def class_bound_def class_simps)
  next
    case 3
    then show ?thesis using quot [of 256 "n - 768"]
      by (simp add: nat_class_def class_bound_def class_simps)
  next
    case 4
    then show ?thesis using quot [of 512 "n - 1792"]
      by (simp add: nat_class_def class_bound_def class_simps)
  next
    case 5
    then show ?thesis using quot [of 1024 "n - 3840"]
      by (simp add: nat_class_def class_bound_def class_simps)
  next
    case 6
    then show ?thesis using quot [of 2048 "n - 7936"]
      by (simp add: nat_class_def class_bound_def class_simps)
  qed
qed

lemma size_class_fits:
  "malloc_size_class sz < 32 \<longleftrightarrow> sz < 0x3f00"
  "sz < 0x3f00 \<Longrightarrow> sz < fst (malloc_sizeclass_table ! unat (malloc_size_class sz))"
  "malloc_size_class sz \<notin> {8..11}"
proof -
  let ?k = "nat_class (unat sz)"
  show "malloc_size_class sz < 32 \<longleftrightarrow> sz < 0x3f00"
    using nat_class_range [of "unat sz"] by (simp add: word_less_nat_alt unat_malloc_size_class)
  show "malloc_size_class sz \<notin> {8..11}"
    using nat_class_unused [of "unat sz"] by (auto simp: word_le_nat_alt unat_malloc_size_class)
  assume "sz < 0x3f00"
  then have "?k < 32" using nat_class_range [of "unat sz"] by (simp add: word_less_nat_alt)
  from class_bound_table [OF this nat_class_unused] nat_class_bound [of "unat sz"]
  show "sz < fst (malloc_sizeclass_table ! unat (malloc_size_class sz))"
    by (simp add: word_less_nat_alt unat_malloc_size_class)
qed

subsection \<open>The other builds\<close>

text \<open>From 256 bytes on the classes are those above, moved by the difference of the bases.\<close>

lemma big_class_base: "malloc_big_size_class sz base = base + malloc_big_size_class sz 0"
  by (simp add: malloc_big_size_class_def Let_def)

lemma big_class_32: "256 \<le> unat sz \<Longrightarrow> malloc_size_class sz = 8 + malloc_big_size_class sz 0"
  by (simp add: malloc_size_class_def class_simps big_class_base [of sz 8])

lemma unat_big_classes:
  assumes "256 \<le> unat sz"
  shows "unat (malloc_big_size_class sz 12) = nat_class (unat sz) + 4"
    "unat (malloc_big_size_class sz 4) = nat_class (unat sz) - 4" "12 \<le> nat_class (unat sz)"
proof -
  have n: "unat sz < 4294967296" using unsigned_less [of sz, where 'a = nat] by simp
  then show c: "12 \<le> nat_class (unat sz)" using assms by (simp add: nat_class_def)
  have small: "nat_class (unat sz) < 2 ^ 27" using n by (simp add: nat_class_def class_simps)
  have "malloc_big_size_class sz 12 = 4 + malloc_size_class sz"
    using big_class_32 [OF assms] big_class_base [of sz 12] by simp
  then show "unat (malloc_big_size_class sz 12) = nat_class (unat sz) + 4"
    using small by (simp add: unat_plus_small unat_malloc_size_class)
  have "malloc_big_size_class sz 4 = malloc_size_class sz - 4"
    using big_class_32 [OF assms] big_class_base [of sz 4] by simp
  then show "unat (malloc_big_size_class sz 4) = nat_class (unat sz) - 4"
    using c by (simp add: unat_minus4 unat_malloc_size_class)
qed

lemma big_tables:
  assumes "8 \<le> k" "k < 32"
  shows "malloc_sizeclass_table_16 ! (k + 4) = malloc_sizeclass_table ! k"
    "malloc_sizeclass_table_64 ! (k - 4) = malloc_sizeclass_table ! k"
proof -
  obtain i where i: "k = 8 + i" using assms(1) le_Suc_ex by blast
  have "drop 12 malloc_sizeclass_table_16 = drop 8 malloc_sizeclass_table"
    "drop 4 malloc_sizeclass_table_64 = drop 8 malloc_sizeclass_table"
    by (simp_all add: malloc_sizeclass_table_16_def malloc_sizeclass_table_64_def malloc_sizeclass_table_def)
  from arg_cong [OF this(1), of "\<lambda>xs. xs ! i"] arg_cong [OF this(2), of "\<lambda>xs. xs ! i"]
  show "malloc_sizeclass_table_16 ! (k + 4) = malloc_sizeclass_table ! k"
    "malloc_sizeclass_table_64 ! (k - 4) = malloc_sizeclass_table ! k"
    by (simp_all add: i nth_drop malloc_sizeclass_table_16_def malloc_sizeclass_table_64_def malloc_sizeclass_table_def
        del: nth_Cons_numeral nth_Cons_Suc nth_Cons_0 drop_Suc_Cons drop_Cons_numeral)
qed

text \<open>What the three builds have in common: a class that is in the table has blocks larger than the size.\<close>

definition class_fits :: "(u32 \<Rightarrow> u32) \<Rightarrow> (u32 \<times> u32) list \<Rightarrow> u32 \<Rightarrow> bool" where
  "class_fits class table sz \<longleftrightarrow> (unat (class sz) < length table \<longleftrightarrow> sz < 0x3f00) \<and>
     (sz < 0x3f00 \<longrightarrow> sz < fst (table ! unat (class sz)))"

lemma table_lengths:
  "length malloc_sizeclass_table_16 = 36" "length malloc_sizeclass_table = 32" "length malloc_sizeclass_table_64 = 28"
  by (simp_all add: malloc_sizeclass_table_16_def malloc_sizeclass_table_def malloc_sizeclass_table_64_def)

lemma class_fits_32: "class_fits malloc_size_class malloc_sizeclass_table sz"
  using size_class_fits(1,2) [of sz] by (simp add: class_fits_def table_lengths word_less_nat_alt)

lemma class_fits_moved:
  assumes "256 \<le> unat sz" "unat (class sz) = f (nat_class (unat sz))"
    and "\<And>k. 8 \<le> k \<Longrightarrow> k < 32 \<Longrightarrow> table ! f k = malloc_sizeclass_table ! k"
    and "f (nat_class (unat sz)) < length table \<longleftrightarrow> nat_class (unat sz) < 32"
  shows "class_fits class table sz"
proof -
  let ?k = "nat_class (unat sz)"
  have r: "?k < 32 \<longleftrightarrow> sz < 0x3f00" using nat_class_range [of "unat sz"] by (simp add: word_less_nat_alt)
  moreover have "12 \<le> ?k" by (rule unat_big_classes(3) [OF assms(1)])
  ultimately show ?thesis
    using assms(2-4) size_class_fits(2) [of sz] unat_malloc_size_class [of sz] by (simp add: class_fits_def)
qed

lemma small_tables:
  "k < 8 \<Longrightarrow> unat (fst (malloc_sizeclass_table_16 ! k)) = 16 * k + 16"
  "8 \<le> k \<Longrightarrow> k < 12 \<Longrightarrow> unat (fst (malloc_sizeclass_table_16 ! k)) = 32 * (k - 8) + 160"
  "k < 4 \<Longrightarrow> unat (fst (malloc_sizeclass_table_64 ! k)) = 64 * k + 64"
proof -
  have "\<forall>k \<in> set [0..<8]. unat (fst (malloc_sizeclass_table_16 ! k)) = 16 * k + 16"
    "\<forall>k \<in> set [8..<12]. unat (fst (malloc_sizeclass_table_16 ! k)) = 32 * (k - 8) + 160"
    "\<forall>k \<in> set [0..<4]. unat (fst (malloc_sizeclass_table_64 ! k)) = 64 * k + 64"
    by (simp_all add: upt_rec malloc_sizeclass_table_16_def malloc_sizeclass_table_64_def)
  then show "k < 8 \<Longrightarrow> unat (fst (malloc_sizeclass_table_16 ! k)) = 16 * k + 16"
    "8 \<le> k \<Longrightarrow> k < 12 \<Longrightarrow> unat (fst (malloc_sizeclass_table_16 ! k)) = 32 * (k - 8) + 160"
    "k < 4 \<Longrightarrow> unat (fst (malloc_sizeclass_table_64 ! k)) = 64 * k + 64"
    unfolding set_upt by auto
qed

lemma class_fits_16: "class_fits malloc_size_class_16 malloc_sizeclass_table_16 sz"
proof (cases "unat sz < 256")
  case True
  have lt: "sz < 0x3f00" using True by (simp add: word_less_nat_alt)
  have d4: "unat (drop_bit 4 sz) = unat sz div 16" by (simp only: drop_bit_eq_div power_one_right unat_div) simp
  show ?thesis
  proof (cases "unat sz < 128")
    case small: True
    then have "unat (malloc_size_class_16 sz) = unat sz div 16" by (simp add: malloc_size_class_16_def d4 class_simps)
    moreover have "unat sz < 16 * (unat sz div 16) + 16" "unat sz div 16 < 8" using small by simp_all
    ultimately show ?thesis using lt small_tables(1) by (simp add: class_fits_def table_lengths word_less_nat_alt)
  next
    case False
    have m8: "unat (drop_bit 4 sz - 8) = unat sz div 16 - 8" using False
      by (subst unat_sub) (simp_all add: word_le_nat_alt d4 less_eq_div_iff_mult_less_eq)
    have "(unat sz div 16 - 8) div 2 = (unat sz - 128) div 32" using False by arith
    then have u: "unat (drop_bit 1 (drop_bit 4 sz - 8)) = (unat sz - 128) div 32" by (simp only: unat_shifts m8)
    have k: "(unat sz - 128) div 32 < 4" "unat sz < 32 * ((unat sz - 128) div 32) + 160" using True False by (arith, arith)
    then have "unat (malloc_size_class_16 sz) = 8 + (unat sz - 128) div 32"
      using False u by (simp add: malloc_size_class_16_def d4 class_simps)
    then show ?thesis using lt k small_tables(2) [of "8 + (unat sz - 128) div 32"]
      by (simp add: class_fits_def table_lengths word_less_nat_alt)
  qed
next
  case False
  then have b: "256 \<le> unat sz" by simp
  have d4: "unat (drop_bit 4 sz) = unat sz div 16" by (simp only: drop_bit_eq_div power_one_right unat_div) simp
  have m8: "unat (drop_bit 4 sz - 8) = unat sz div 16 - 8" using b
    by (subst unat_sub) (simp_all add: word_le_nat_alt d4 less_eq_div_iff_mult_less_eq)
  have "4 \<le> (unat sz div 16 - 8) div 2" "8 \<le> unat sz div 16" using b by (arith, arith)
  moreover have "unat (drop_bit 1 (drop_bit 4 sz - 8)) = (unat sz div 16 - 8) div 2" by (simp only: unat_shifts m8)
  ultimately have "malloc_size_class_16 sz = malloc_big_size_class sz 12"
    by (simp add: malloc_size_class_16_def Let_def unat_less_nums d4)
  then have "unat (malloc_size_class_16 sz) = nat_class (unat sz) + 4" using unat_big_classes(1) [OF b] by simp
  then show ?thesis
    by (rule class_fits_moved [where f = "\<lambda>k. k + 4", OF b]) (use big_tables(1) in \<open>auto simp: table_lengths\<close>)
qed

lemma class_fits_64: "class_fits malloc_size_class_64 malloc_sizeclass_table_64 sz"
proof (cases "unat sz < 256")
  case True
  then have "unat (malloc_size_class_64 sz) = unat sz div 64" by (simp add: malloc_size_class_64_def class_simps)
  moreover have "unat sz < 64 * (unat sz div 64) + 64" "unat sz div 64 < 4" using True by simp_all
  moreover have "sz < 0x3f00" using True by (simp add: word_less_nat_alt)
  ultimately show ?thesis using small_tables(3) by (simp add: class_fits_def table_lengths word_less_nat_alt)
next
  case False
  then have b: "256 \<le> unat sz" by simp
  then have "unat (malloc_size_class_64 sz) = nat_class (unat sz) - 4"
    using unat_big_classes(2) [OF b] by (simp add: malloc_size_class_64_def class_simps)
  then show ?thesis
    by (rule class_fits_moved [where f = "\<lambda>k. k - 4", OF b])
      (use big_tables(2) unat_big_classes(3) [OF b] in \<open>auto simp: table_lengths less_diff_conv2\<close>)
qed

text \<open>
  C36 [size_class]. In each of the three builds: for every size below \<open>0x3f00\<close> the class is in the table and its
  blocks are larger than the size; from \<open>0x3f00\<close> on the class is outside the table, although the routine
  is written for sizes up to \<open>0x4000\<close>. In the build for 32-byte lines the four classes 8 to 11
  (blocks of \<open>0x140\<close> to \<open>0x200\<close> bytes) are never chosen.
\<close>

theorem malloc_size_class_fits:
  "class_fits malloc_size_class_16 malloc_sizeclass_table_16 sz \<and>
   class_fits malloc_size_class malloc_sizeclass_table sz \<and>
   class_fits malloc_size_class_64 malloc_sizeclass_table_64 sz \<and>
   malloc_size_class sz \<notin> {8..11}"
  using class_fits_16 class_fits_32 class_fits_64 size_class_fits(3) by blast

lemma malloc_size_class_fits_witness:
  "0x1000 < fst (malloc_sizeclass_table ! unat (malloc_size_class 0x1000)) \<and> \<not> unat (malloc_size_class 0x3f00) < 32"
  using malloc_size_class_fits [of "0x1000"] malloc_size_class_fits [of "0x3f00"] by (simp add: class_fits_def table_lengths)

end
