(* ===== verification/Malloc_Data.thy ===== *)
theory Malloc_Data
  imports Prelude
begin

unbundle bit_operations_syntax

section \<open>Packed words of the allocator (\<open>src/mm/arch/ia32/lf_malloc_data.c\<close>)\<close>

text \<open>
  The anchor of a superblock packs the index of its first free block (\<open>avail\<close>, 10 bits),
  the number of free blocks that nobody has reserved (\<open>credits\<close>, 10 bits), a state (2 bits)
  and a tag (42 bits) in a 64-bit word, so that one compare-and-set changes them together.
  The active word of a heap packs the address of a 64-aligned descriptor and 6 bits of
  credits. The lemmas give every bit of each operation; the laws of the fields follow.
\<close>

type_synonym anchor_t = u64
type_synonym active_t = u32

definition MAX_CREDITS :: u32 where "MAX_CREDITS = 64"

definition anchor_avail_mask :: u64 where "anchor_avail_mask = 0xffc0000000000000"
definition anchor_credits_mask :: u64 where "anchor_credits_mask = 0x003ff00000000000"
definition anchor_state_mask :: u64 where "anchor_state_mask = 0x00000c0000000000"
definition anchor_tag_mask :: u64 where "anchor_tag_mask = 0x000003ffffffffff"
definition anchor_avail_shift :: nat where "anchor_avail_shift = 54"
definition anchor_credits_shift :: nat where "anchor_credits_shift = 44"
definition anchor_state_shift :: nat where "anchor_state_shift = 42"
definition active_credits_mask :: u32 where "active_credits_mask = 0x0000003f"
definition active_ptr_mask :: u32 where "active_ptr_mask = 0xffffffc0"

definition anchor_create :: "u32 \<Rightarrow> u32 \<Rightarrow> u32 \<Rightarrow> anchor_t" where
  "anchor_create avail credits state =
     (let avail64 = ucast avail; credits64 = ucast credits; state64 = ucast state;
          avail_val = push_bit anchor_avail_shift avail64 AND anchor_avail_mask;
          credits_val = push_bit anchor_credits_shift credits64 AND anchor_credits_mask;
          state_val = push_bit anchor_state_shift state64 AND anchor_state_mask;
          tag_val = 0
      in avail_val OR credits_val OR state_val OR tag_val)"

definition anchor_get_avail :: "anchor_t \<Rightarrow> u32" where
  "anchor_get_avail anchor = ucast (drop_bit anchor_avail_shift (anchor AND anchor_avail_mask))"

definition anchor_set_avail :: "anchor_t \<Rightarrow> u32 \<Rightarrow> anchor_t" where
  "anchor_set_avail anchor avail =
     (let avail64 = ucast avail;
          avail_val = push_bit anchor_avail_shift avail64 AND anchor_avail_mask;
          credits_val = anchor AND anchor_credits_mask;
          state_val = anchor AND anchor_state_mask;
          tag_val = anchor AND anchor_tag_mask
      in avail_val OR credits_val OR state_val OR tag_val)"

definition anchor_get_credits :: "anchor_t \<Rightarrow> u32" where
  "anchor_get_credits anchor = ucast (drop_bit anchor_credits_shift (anchor AND anchor_credits_mask))"

definition anchor_set_credits :: "anchor_t \<Rightarrow> u32 \<Rightarrow> anchor_t" where
  "anchor_set_credits anchor credits =
     (let credits64 = ucast credits;
          avail_val = anchor AND anchor_avail_mask;
          credits_val = push_bit anchor_credits_shift credits64 AND anchor_credits_mask;
          state_val = anchor AND anchor_state_mask;
          tag_val = anchor AND anchor_tag_mask
      in avail_val OR credits_val OR state_val OR tag_val)"

definition anchor_get_state :: "anchor_t \<Rightarrow> u32" where
  "anchor_get_state anchor = ucast (drop_bit anchor_state_shift (anchor AND anchor_state_mask))"

definition anchor_set_state :: "anchor_t \<Rightarrow> u32 \<Rightarrow> anchor_t" where
  "anchor_set_state anchor state =
     (let state64 = ucast state;
          avail_val = anchor AND anchor_avail_mask;
          credits_val = anchor AND anchor_credits_mask;
          state_val = push_bit anchor_state_shift state64 AND anchor_state_mask;
          tag_val = anchor AND anchor_tag_mask
      in avail_val OR credits_val OR state_val OR tag_val)"

definition anchor_get_tag :: "anchor_t \<Rightarrow> u64" where
  "anchor_get_tag anchor = anchor AND anchor_tag_mask"

definition anchor_set_tag :: "anchor_t \<Rightarrow> u64 \<Rightarrow> anchor_t" where
  "anchor_set_tag anchor tag =
     (let avail_val = anchor AND anchor_avail_mask;
          credits_val = anchor AND anchor_credits_mask;
          state_val = anchor AND anchor_state_mask;
          tag_val = tag AND anchor_tag_mask
      in avail_val OR credits_val OR state_val OR tag_val)"

definition active_create :: "ptr \<Rightarrow> u32 \<Rightarrow> active_t" where
  "active_create p credits =
     (let ptr_val = p AND active_ptr_mask; credits_val = credits AND active_credits_mask
      in ptr_val OR credits_val)"

definition active_get_credits :: "active_t \<Rightarrow> u32" where
  "active_get_credits active = active AND active_credits_mask"

definition active_set_credits :: "active_t \<Rightarrow> u32 \<Rightarrow> active_t" where
  "active_set_credits active credits =
     (let ptr_val = active AND active_ptr_mask; credits_val = credits AND active_credits_mask
      in ptr_val OR credits_val)"

definition active_get_ptr :: "active_t \<Rightarrow> ptr" where
  "active_get_ptr active = active AND active_ptr_mask"

definition active_set_ptr :: "active_t \<Rightarrow> ptr \<Rightarrow> active_t" where
  "active_set_ptr active p =
     (let ptr_val = p AND active_ptr_mask; credits_val = active AND active_credits_mask
      in ptr_val OR credits_val)"

subsection \<open>The bits of every operation\<close>

named_theorems anchor_bits \<open>the bits of the packed words\<close>

lemma masks:
  "anchor_avail_mask = push_bit 54 (mask 10)" "anchor_credits_mask = push_bit 44 (mask 10)"
  "anchor_state_mask = push_bit 42 (mask 2)" "anchor_tag_mask = mask 42"
  "active_credits_mask = mask 6" "active_ptr_mask = push_bit 6 (mask 26)"
  by (simp_all add: anchor_avail_mask_def anchor_credits_mask_def anchor_state_mask_def
      anchor_tag_mask_def active_credits_mask_def active_ptr_mask_def mask_eq_exp_minus_1
      push_bit_eq_mult)

lemma mask_bits [anchor_bits]:
  "bit anchor_avail_mask n \<longleftrightarrow> 54 \<le> n \<and> n < 64"
  "bit anchor_credits_mask n \<longleftrightarrow> 44 \<le> n \<and> n < 54"
  "bit anchor_state_mask n \<longleftrightarrow> 42 \<le> n \<and> n < 44"
  "bit anchor_tag_mask n \<longleftrightarrow> n < 42"
  "bit active_credits_mask n \<longleftrightarrow> n < 6"
  "bit active_ptr_mask n \<longleftrightarrow> 6 \<le> n \<and> n < 32"
  unfolding masks by (auto simp: bit_simps)

lemmas anchor_shifts = anchor_avail_shift_def anchor_credits_shift_def anchor_state_shift_def

lemma anchor_get_bits [anchor_bits]:
  "bit (anchor_get_avail a) n \<longleftrightarrow> n < 10 \<and> bit a (n + 54)"
  "bit (anchor_get_credits a) n \<longleftrightarrow> n < 10 \<and> bit a (n + 44)"
  "bit (anchor_get_state a) n \<longleftrightarrow> n < 2 \<and> bit a (n + 42)"
  "bit (anchor_get_tag a) n \<longleftrightarrow> n < 42 \<and> bit a n"
  by (auto simp: anchor_get_avail_def anchor_get_credits_def anchor_get_state_def
      anchor_get_tag_def anchor_shifts bit_simps anchor_bits add.commute)

lemma anchor_set_bits [anchor_bits]:
  "bit (anchor_set_avail a v) n \<longleftrightarrow> n < 64 \<and> (if 54 \<le> n then bit v (n - 54) else bit a n)"
  "bit (anchor_set_credits a v) n \<longleftrightarrow>
     n < 64 \<and> (if 44 \<le> n \<and> n < 54 then bit v (n - 44) else bit a n)"
  "bit (anchor_set_state a v) n \<longleftrightarrow>
     n < 64 \<and> (if 42 \<le> n \<and> n < 44 then bit v (n - 42) else bit a n)"
  "bit (anchor_set_tag a w) n \<longleftrightarrow> n < 64 \<and> (if n < 42 then bit w n else bit a n)"
  by (auto simp: anchor_set_avail_def anchor_set_credits_def anchor_set_state_def
      anchor_set_tag_def anchor_shifts bit_simps anchor_bits Let_def not_less not_le
      dest: bit_imp_le_length)

lemma anchor_create_bits [anchor_bits]:
  "bit (anchor_create v c s) n \<longleftrightarrow> n < 64 \<and>
     (if 54 \<le> n then bit v (n - 54) else if 44 \<le> n then bit c (n - 44)
      else 42 \<le> n \<and> bit s (n - 42))"
  by (auto simp: anchor_create_def anchor_shifts bit_simps anchor_bits Let_def not_less not_le
      dest: bit_imp_le_length)

lemma active_bits [anchor_bits]:
  "bit (active_create p c) n \<longleftrightarrow> n < 32 \<and> (if n < 6 then bit c n else bit p n)"
  "bit (active_get_credits a) n \<longleftrightarrow> n < 6 \<and> bit a n"
  "bit (active_get_ptr a) n \<longleftrightarrow> 6 \<le> n \<and> bit a n"
  "bit (active_set_credits a c) n \<longleftrightarrow> n < 32 \<and> (if n < 6 then bit c n else bit a n)"
  "bit (active_set_ptr a p) n \<longleftrightarrow> n < 32 \<and> (if n < 6 then bit a n else bit p n)"
  by (auto simp: active_create_def active_get_credits_def active_get_ptr_def
      active_set_credits_def active_set_ptr_def bit_simps anchor_bits Let_def not_less
      dest: bit_imp_le_length)

lemma and_mask_small: "unat w < 2 ^ k \<Longrightarrow> w AND mask k = w" for w :: u32
  by (simp add: take_bit_eq_mask [symmetric] word_unat_eq_iff unsigned_take_bit_eq
      take_bit_nat_eq_self)

text \<open>The laws of the fields.\<close>

lemma anchor_laws [simp]:
  "anchor_get_avail (anchor_set_avail a v) = v AND mask 10"
  "anchor_get_credits (anchor_set_avail a v) = anchor_get_credits a"
  "anchor_get_state (anchor_set_avail a v) = anchor_get_state a"
  "anchor_get_tag (anchor_set_avail a v) = anchor_get_tag a"
  "anchor_get_credits (anchor_set_credits a v) = v AND mask 10"
  "anchor_get_avail (anchor_set_credits a v) = anchor_get_avail a"
  "anchor_get_state (anchor_set_credits a v) = anchor_get_state a"
  "anchor_get_tag (anchor_set_credits a v) = anchor_get_tag a"
  "anchor_get_state (anchor_set_state a v) = v AND mask 2"
  "anchor_get_avail (anchor_set_state a v) = anchor_get_avail a"
  "anchor_get_credits (anchor_set_state a v) = anchor_get_credits a"
  "anchor_get_tag (anchor_set_state a v) = anchor_get_tag a"
  "anchor_get_tag (anchor_set_tag a w) = w AND mask 42"
  "anchor_get_avail (anchor_set_tag a w) = anchor_get_avail a"
  "anchor_get_credits (anchor_set_tag a w) = anchor_get_credits a"
  "anchor_get_state (anchor_set_tag a w) = anchor_get_state a"
  by (rule bit_word_eqI; auto simp: anchor_bits bit_simps)+

lemma anchor_create_laws [simp]:
  "anchor_get_avail (anchor_create avail credits state) = avail AND mask 10"
  "anchor_get_credits (anchor_create avail credits state) = credits AND mask 10"
  "anchor_get_state (anchor_create avail credits state) = state AND mask 2"
  "anchor_get_tag (anchor_create avail credits state) = 0"
  by (rule bit_word_eqI; auto simp: anchor_bits bit_simps)+

lemma aligned_bits: "p AND mask 6 = 0 \<Longrightarrow> n < 6 \<Longrightarrow> \<not> bit p n" for p :: u32
proof -
  assume p: "p AND mask 6 = 0" and n: "n < 6"
  have "\<not> bit (p AND mask 6) n" using p by simp
  then show "\<not> bit p n" using n by (simp add: bit_simps)
qed

lemma active_get_create:
  "active_get_credits (active_create p c) = c AND mask 6"
  "p AND mask 6 = 0 \<Longrightarrow> active_get_ptr (active_create p c) = p"
  by (rule bit_word_eqI; use aligned_bits [of p] in \<open>auto simp: anchor_bits not_less bit_simps\<close>)+

lemma active_set_create:
  "active_set_credits (active_create p c) d = active_create p d"
  "active_set_ptr (active_create p c) q = active_create q c"
  by (rule bit_word_eqI; auto simp: anchor_bits bit_simps)+

lemma active_create_null: "active_create 0 0 = 0"
  by (rule bit_word_eqI) (auto simp: anchor_bits bit_simps)

lemma anchor_get_less:
  "anchor_get_avail a < 0x400" "anchor_get_credits a < 0x400"
proof -
  have "anchor_get_avail a = take_bit 10 (anchor_get_avail a)"
    "anchor_get_credits a = take_bit 10 (anchor_get_credits a)"
    by (rule bit_word_eqI; auto simp: anchor_bits bit_simps)+
  moreover have "take_bit 10 w < 0x400" for w :: u32
    using take_bit_nat_less_exp [of 10 "unat w"] by (simp add: word_less_nat_alt unsigned_take_bit_eq)
  ultimately show "anchor_get_avail a < 0x400" "anchor_get_credits a < 0x400" by metis+
qed

subsection \<open>Properties\<close>

text \<open>
  Each anchor setter writes the low bits of its argument in its own
  field and leaves the three other fields as they are.
\<close>

theorem anchor_fields_independent:
  "anchor_get_avail (anchor_set_avail a v) = v AND mask 10 \<and>
   anchor_get_credits (anchor_set_avail a v) = anchor_get_credits a \<and>
   anchor_get_state (anchor_set_avail a v) = anchor_get_state a \<and>
   anchor_get_tag (anchor_set_avail a v) = anchor_get_tag a \<and>
   anchor_get_credits (anchor_set_credits a v) = v AND mask 10 \<and>
   anchor_get_avail (anchor_set_credits a v) = anchor_get_avail a \<and>
   anchor_get_state (anchor_set_credits a v) = anchor_get_state a \<and>
   anchor_get_tag (anchor_set_credits a v) = anchor_get_tag a \<and>
   anchor_get_state (anchor_set_state a v) = v AND mask 2 \<and>
   anchor_get_avail (anchor_set_state a v) = anchor_get_avail a \<and>
   anchor_get_credits (anchor_set_state a v) = anchor_get_credits a \<and>
   anchor_get_tag (anchor_set_state a v) = anchor_get_tag a \<and>
   anchor_get_tag (anchor_set_tag a w) = w AND mask 42 \<and>
   anchor_get_avail (anchor_set_tag a w) = anchor_get_avail a \<and>
   anchor_get_credits (anchor_set_tag a w) = anchor_get_credits a \<and>
   anchor_get_state (anchor_set_tag a w) = anchor_get_state a"
  by simp

text \<open>
  An anchor created from values that fit their fields gives them back,
  with tag 0, and an anchor is determined by its four fields.
\<close>

theorem anchor_roundtrip:
  "(avail < 2 ^ 10 \<and> credits < 2 ^ 10 \<and> state < 2 ^ 2 \<longrightarrow>
     anchor_get_avail (anchor_create avail credits state) = avail \<and>
     anchor_get_credits (anchor_create avail credits state) = credits \<and>
     anchor_get_state (anchor_create avail credits state) = state \<and>
     anchor_get_tag (anchor_create avail credits state) = 0) \<and>
   anchor_set_tag (anchor_create (anchor_get_avail a) (anchor_get_credits a) (anchor_get_state a))
     (anchor_get_tag a) = a"
proof
  show "avail < 2 ^ 10 \<and> credits < 2 ^ 10 \<and> state < 2 ^ 2 \<longrightarrow>
     anchor_get_avail (anchor_create avail credits state) = avail \<and>
     anchor_get_credits (anchor_create avail credits state) = credits \<and>
     anchor_get_state (anchor_create avail credits state) = state \<and>
     anchor_get_tag (anchor_create avail credits state) = 0"
    using and_mask_small [of _ 10] and_mask_small [of _ 2] by (simp add: word_less_nat_alt)
  show "anchor_set_tag (anchor_create (anchor_get_avail a) (anchor_get_credits a) (anchor_get_state a))
     (anchor_get_tag a) = a"
    by (rule bit_word_eqI) (auto simp: anchor_bits bit_simps dest: bit_imp_le_length)
qed

lemma anchor_roundtrip_witness:
  "anchor_get_credits (anchor_create 1 62 0) = 62"
  using anchor_roundtrip [of 1 62 0 0] by simp

text \<open>
  An active word made from a 64-aligned descriptor and fewer than 64 credits
  gives both back, each setter leaves the other field alone, and setting both fields of any
  word is creating it.
\<close>

theorem active_roundtrip:
  "(p AND mask 6 = 0 \<and> c < MAX_CREDITS \<longrightarrow>
     active_get_ptr (active_create p c) = p \<and> active_get_credits (active_create p c) = c) \<and>
   active_get_ptr (active_set_credits a c) = active_get_ptr a \<and>
   active_get_credits (active_set_ptr a p) = active_get_credits a \<and>
   active_set_ptr (active_set_credits a c) p = active_create p c \<and>
   active_create (active_get_ptr a) (active_get_credits a) = a"
proof (intro conjI impI)
  assume pc: "p AND mask 6 = 0 \<and> c < MAX_CREDITS"
  then show "active_get_ptr (active_create p c) = p" by (simp add: active_get_create)
  have "c AND mask 6 = c"
    using pc by (intro and_mask_small) (simp add: MAX_CREDITS_def word_less_nat_alt)
  then show "active_get_credits (active_create p c) = c" by (simp add: active_get_create)
qed (rule bit_word_eqI; auto simp: anchor_bits bit_simps dest: bit_imp_le_length)+

lemma active_roundtrip_witness:
  "active_get_ptr (active_create 0x12340 63) = 0x12340 \<and> active_get_credits (active_create 0x12340 63) = 63"
  using active_roundtrip [of "0x12340" 63] by (simp add: MAX_CREDITS_def mask_eq_exp_minus_1)

end
