(* ===== verification/Malloc.thy ===== *)
theory Malloc
  imports Block_Queue Size_Class Malloc_Data
begin

unbundle bit_operations_syntax

section \<open>The lock-free allocator (\<open>src/mm/malloc/lf_malloc.c\<close>)\<close>

text \<open>
  Maged Michael's allocator. Blocks are cut from superblocks, slices with one descriptor
  each; the anchor of a descriptor packs the index of its first free block, its credits, its
  state and a tag, and the free blocks are linked by indexes stored in the blocks. Each
  executor has one processor heap per size class with an active superblock and one partially
  used one; further partially used superblocks wait in the block queue of the size class.

  \<open>min\<close> is a macro from outside the repository and an argument \<open>mn\<close> of the routines that use
  it; the theorems take it to be the minimum. Arithmetic is that of \<open>unsigned int\<close>.
\<close>

subsection \<open>Data\<close>

record descriptor_t =
  des_anchor :: anchor_t
  des_next :: ptr
  des_slice :: ptr
  des_heap :: ptr
  des_size :: u32
  des_maxcount :: u32

text \<open>\<open>ph_sizeclass\<close> points into the array \<open>malloc_sizeclasses\<close> and is modelled by the index.\<close>

record procheap_t =
  ph_partial :: ptr
  ph_active :: u64
  ph_sizeclass :: nat

record sizeclass_t =
  sc_size :: u32
  sc_block_size :: u32
  sc_partial :: ptr

record malloc_state = block_queue_state +
  descs :: "ptr \<Rightarrow> descriptor_t"
  procheaps :: "ptr \<Rightarrow> procheap_t"
  malloc_sizeclasses :: "sizeclass_t list"
  malloc_desc_avail :: ptr
  malloc_procheaps :: ptr

definition ANC_ACTIVE :: u32 where "ANC_ACTIVE = 0"
definition ANC_FULL :: u32 where "ANC_FULL = 1"
definition ANC_PARTIAL :: u32 where "ANC_PARTIAL = 2"
definition ANC_EMPTY :: u32 where "ANC_EMPTY = 3"

abbreviation "CACHE_LINE_SIZE \<equiv> 32 :: u32"

abbreviation "desc_avail_loc \<equiv> global_loc malloc_desc_avail malloc_desc_avail_update"
abbreviation "anchor_loc \<equiv> mem_loc descs descs_update des_anchor des_anchor_update"
abbreviation "des_next_loc \<equiv> mem_loc descs descs_update des_next des_next_update"
abbreviation "des_slice_loc \<equiv> mem_loc descs descs_update des_slice des_slice_update"
abbreviation "des_heap_loc \<equiv> mem_loc descs descs_update des_heap des_heap_update"
abbreviation "des_size_loc \<equiv> mem_loc descs descs_update des_size des_size_update"
abbreviation "des_maxcount_loc \<equiv> mem_loc descs descs_update des_maxcount des_maxcount_update"
abbreviation "ph_partial_loc \<equiv> mem_loc procheaps procheaps_update ph_partial ph_partial_update"
abbreviation "ph_active_loc \<equiv> mem_loc procheaps procheaps_update ph_active ph_active_update"
abbreviation "ph_sizeclass_loc \<equiv> mem_loc procheaps procheaps_update ph_sizeclass ph_sizeclass_update"

text \<open>A field of \<open>malloc_sizeclasses[k]\<close>.\<close>

definition sc_loc ::
  "(sizeclass_t \<Rightarrow> 'v) \<Rightarrow> (('v \<Rightarrow> 'v) \<Rightarrow> sizeclass_t \<Rightarrow> sizeclass_t) \<Rightarrow> nat \<Rightarrow>
   ('a malloc_state_scheme, 'v) loc" where
  "sc_loc get upd k = Loc
     (\<lambda>s. if k < length (malloc_sizeclasses s) then Some (get (malloc_sizeclasses s ! k)) else None)
     (\<lambda>v s. s\<lparr>malloc_sizeclasses :=
        (malloc_sizeclasses s)[k := upd (\<lambda>_. v) (malloc_sizeclasses s ! k)]\<rparr>)"

lemma sc_loc_simps [simp]:
  "load (sc_loc get upd k) s =
     (if k < length (malloc_sizeclasses s) then Some (get (malloc_sizeclasses s ! k)) else None)"
  "store (sc_loc get upd k) v s = s\<lparr>malloc_sizeclasses :=
     (malloc_sizeclasses s)[k := upd (\<lambda>_. v) (malloc_sizeclasses s ! k)]\<rparr>"
  by (simp_all add: sc_loc_def)

abbreviation "sc_size_loc \<equiv> sc_loc sc_size sc_size_update"
abbreviation "sc_block_size_loc \<equiv> sc_loc sc_block_size sc_block_size_update"
abbreviation "sc_partial_loc \<equiv> sc_loc sc_partial sc_partial_update"

subsection \<open>Initialisation\<close>

text \<open>
  \<open>sizeof(procheap_t)\<close> is 16, \<open>sizeof(lf_block_queue_t)\<close> 12 and
  \<open>sizeof(lf_block_queue_hazard_ptrs_t)\<close> 16 in the ia32 layout.
\<close>

definition cache_align :: "u32 \<Rightarrow> u32" where
  "cache_align sz = ((sz - 1) AND NOT (CACHE_LINE_SIZE - 1)) + CACHE_LINE_SIZE"

definition mm_malloc_request :: "u32 \<Rightarrow> u32" where
  "mm_malloc_request execs =
     (let procheap_size = 16 * execs * of_nat NUM_SIZE_CLASSES;
          procheap_aligned_size = cache_align procheap_size;
          one_blockqueue_size = 12 + execs * 16;
          one_blockqueue_aligned_size = cache_align one_blockqueue_size;
          blockqueues_aligned_size = one_blockqueue_aligned_size * of_nat NUM_SIZE_CLASSES
      in procheap_aligned_size + blockqueues_aligned_size)"

text \<open>\<open>malloc_procheaps[exec] + k\<close>\<close>

definition procheap_at :: "ptr \<Rightarrow> u32 \<Rightarrow> u32 \<Rightarrow> ptr" where
  "procheap_at base exec k = base + (exec * of_nat NUM_SIZE_CLASSES + k) * 16"

definition mm_malloc_init ::
  "'e slice_env_scheme \<Rightarrow> u32 \<Rightarrow> ptr \<Rightarrow> 'a malloc_state_scheme conc \<Rightarrow> (ptr \<times> 'a malloc_state_scheme conc) option" where
  "mm_malloc_init E execs mem c = do {
     let procheap_aligned_size = cache_align (16 * execs * of_nat NUM_SIZE_CLASSES);
     let one_blockqueue_aligned_size = cache_align (12 + execs * 16);
     let queues_ptr = mem + procheap_aligned_size;
     let out = queues_ptr + one_blockqueue_aligned_size * of_nat NUM_SIZE_CLASSES;
     (_, c) \<leftarrow> pwr (global_loc malloc_procheaps malloc_procheaps_update) mem c;
     (_, c) \<leftarrow> foreach (\<lambda>i. foreach (\<lambda>j c. do {
         let heap = procheap_at mem (of_nat i) (of_nat j);
         (_, c) \<leftarrow> pwr (ph_partial_loc heap) NULL c;
         (_, c) \<leftarrow> pwr (ph_active_loc heap) 0 c;
         pwr (ph_sizeclass_loc heap) j c }) [0..<NUM_SIZE_CLASSES]) [0..<unat execs] c;
     (_, c) \<leftarrow> foreach (\<lambda>i c. do {
         let queue = queues_ptr + of_nat i * one_blockqueue_aligned_size;
         (_, c) \<leftarrow> pwr (sc_partial_loc i) queue c;
         lf_block_queue_init E queue execs c }) [0..<NUM_SIZE_CLASSES] c;
     Some (out, c) }"

subsection \<open>Descriptors\<close>

text \<open>\<open>dessize\<close> is 64: \<open>sizeof(descriptor_t)\<close> is 28.\<close>

definition try_desc_alloc ::
  "'e slice_env_scheme \<Rightarrow> 'a malloc_state_scheme conc \<Rightarrow> (ptr \<times> 'a malloc_state_scheme conc) option" where
  "try_desc_alloc E c = do {
     (desc, c) \<leftarrow> rd desc_avail_loc c;
     if desc \<noteq> NULL then do {
       (next, c) \<leftarrow> rd (des_next_loc desc) c;
       (ok, c) \<leftarrow> atomic_compare_and_set_ptr desc next desc_avail_loc c;
       Some (if ok then desc else NULL, c) }
     else do {
       (slc, c) \<leftarrow> slice_alloc_in E SLICE_TYPE_MALLOC SLICE_PROT_RWX 0x10000 c;
       if slc \<noteq> NULL then do {
         (sz, c) \<leftarrow> prd (s_size_loc slc) c;
         (p, c) \<leftarrow> prd (s_ptr_loc slc) c;
         let count = sz div 64;
         let at = (\<lambda>i. p + of_nat i * 64);
         let newlist = p + 64;
         (_, c) \<leftarrow> foreach (\<lambda>i. pwr (des_next_loc (at i)) (at i + 64)) [0..<unat (count - 1)] c;
         let addr = at (unat (count - 1)) - 64;
         (_, c) \<leftarrow> pwr (des_next_loc addr) NULL c;
         (ok, c) \<leftarrow> atomic_compare_and_set_ptr NULL newlist desc_avail_loc c;
         if ok then Some (addr, c)
         else do { (_, c) \<leftarrow> slice_free slc c; Some (NULL, c) } }
       else Some (NULL, c) } }"

definition desc_alloc ::
  "'e slice_env_scheme \<Rightarrow> 'a malloc_state_scheme conc \<Rightarrow> (ptr \<times> 'a malloc_state_scheme conc) option" where
  "desc_alloc E c = retry_nonnull (try_desc_alloc E) c"

definition malloc_try_desc_retire ::
  "ptr \<Rightarrow> 'a malloc_state_scheme conc \<Rightarrow> (bool \<times> 'a malloc_state_scheme conc) option" where
  "malloc_try_desc_retire desc c = do {
     (oldhead, c) \<leftarrow> rd desc_avail_loc c;
     (_, c) \<leftarrow> pwr (des_next_loc desc) oldhead c;
     atomic_compare_and_set_ptr oldhead desc desc_avail_loc c }"

definition malloc_desc_retire ::
  "ptr \<Rightarrow> 'a malloc_state_scheme conc \<Rightarrow> (unit \<times> 'a malloc_state_scheme conc) option" where
  "malloc_desc_retire desc c = retry_until (malloc_try_desc_retire desc) c"

subsection \<open>Processor heaps\<close>

definition find_heap :: "u32 \<Rightarrow> u32 \<Rightarrow> 'a malloc_state_scheme \<Rightarrow> ptr" where
  "find_heap sz exec s =
     (if sz \<le> 0x40000 then procheap_at (malloc_procheaps s) exec (malloc_size_class sz) else NULL)"

definition try_reserve_from_active ::
  "ptr \<Rightarrow> active_t \<Rightarrow> 'a malloc_state_scheme conc \<Rightarrow> (bool \<times> 'a malloc_state_scheme conc) option" where
  "try_reserve_from_active heap active c =
     (let credits = active_get_credits active;
          newactive = (if credits = 0 then active_set_ptr active NULL
                       else active_set_credits active (credits - 1))
      in atomic_compare_and_set_uint64 (ucast active) (ucast newactive) (ph_active_loc heap) c)"

definition reserve_from_active ::
  "ptr \<Rightarrow> 'a malloc_state_scheme conc \<Rightarrow> (active_t \<times> 'a malloc_state_scheme conc) option" where
  "reserve_from_active heap c = retry (\<lambda>c. do {
     (a, c) \<leftarrow> atomic_read_uint64 (ph_active_loc heap) c;
     let active = (ucast a :: active_t);
     if active_get_ptr active \<noteq> NULL then do {
       (ok, c) \<leftarrow> try_reserve_from_active heap active c;
       Some (if ok then Some active else None, c) }
     else Some (Some active, c) }) c"

text \<open>\<open>heap->ph_sizeclass->sc_partial\<close>\<close>

definition heap_queue ::
  "ptr \<Rightarrow> 'a malloc_state_scheme conc \<Rightarrow> (ptr \<times> 'a malloc_state_scheme conc) option" where
  "heap_queue heap c = do {
     (k, c) \<leftarrow> prd (ph_sizeclass_loc heap) c;
     prd (sc_partial_loc k) c }"

definition try_heap_put_partial ::
  "'e slice_env_scheme \<Rightarrow> ptr \<Rightarrow> u32 \<Rightarrow> 'a malloc_state_scheme conc \<Rightarrow>
   (bool \<times> 'a malloc_state_scheme conc) option" where
  "try_heap_put_partial E desc exec c = do {
     (heap, c) \<leftarrow> rd (des_heap_loc desc) c;
     (prev, c) \<leftarrow> rd (ph_partial_loc heap) c;
     (heap', c) \<leftarrow> rd (des_heap_loc desc) c;
     (out, c) \<leftarrow> atomic_compare_and_set_ptr prev desc (ph_partial_loc heap') c;
     if out \<and> prev \<noteq> NULL then do {
       (queue, c) \<leftarrow> heap_queue heap c;
       (_, c) \<leftarrow> lf_block_queue_enqueue E queue prev exec c;
       Some (out, c) }
     else Some (out, c) }"

definition heap_put_partial ::
  "'e slice_env_scheme \<Rightarrow> ptr \<Rightarrow> u32 \<Rightarrow> 'a malloc_state_scheme conc \<Rightarrow>
   (unit \<times> 'a malloc_state_scheme conc) option" where
  "heap_put_partial E desc exec c = retry_until (try_heap_put_partial E desc exec) c"

definition update_partial ::
  "'e slice_env_scheme \<Rightarrow> ptr \<Rightarrow> u32 \<Rightarrow> u32 \<Rightarrow> 'a malloc_state_scheme conc \<Rightarrow>
   (bool \<times> 'a malloc_state_scheme conc) option" where
  "update_partial E desc morecredits exec c = do {
     (oldanchor, c) \<leftarrow> atomic_read_uint64 (anchor_loc desc) c;
     let partial = anchor_set_state oldanchor ANC_PARTIAL;
     let newanchor = anchor_set_credits partial (anchor_get_credits oldanchor + morecredits);
     (out, c) \<leftarrow> atomic_compare_and_set_uint64 oldanchor newanchor (anchor_loc desc) c;
     if out then do { (_, c) \<leftarrow> heap_put_partial E desc exec c; Some (out, c) }
     else Some (out, c) }"

definition update_active ::
  "'e slice_env_scheme \<Rightarrow> ptr \<Rightarrow> ptr \<Rightarrow> u32 \<Rightarrow> u32 \<Rightarrow> 'a malloc_state_scheme conc \<Rightarrow>
   (unit \<times> 'a malloc_state_scheme conc) option" where
  "update_active E heap desc morecredits exec c = do {
     let active = active_create desc (morecredits - 1);
     (ok, c) \<leftarrow> atomic_compare_and_set_uint64 0 (ucast active) (ph_active_loc heap) c;
     if ok then Some ((), c)
     else retry_until (update_partial E desc morecredits exec) c }"

subsection \<open>Allocation\<close>

text \<open>\<open>(char*)desc->des_slice->s_ptr + anchor_get_avail(anchor) * desc->des_size\<close>\<close>

definition block_addr ::
  "ptr \<Rightarrow> anchor_t \<Rightarrow> 'a malloc_state_scheme conc \<Rightarrow> (ptr \<times> 'a malloc_state_scheme conc) option" where
  "block_addr desc anchor c = do {
     (slc, c) \<leftarrow> rd (des_slice_loc desc) c;
     (p, c) \<leftarrow> rd (s_ptr_loc slc) c;
     (sz, c) \<leftarrow> rd (des_size_loc desc) c;
     Some (p + anchor_get_avail anchor * sz, c) }"

definition pop_from_active ::
  "'e slice_env_scheme \<Rightarrow> (u32 \<Rightarrow> u32 \<Rightarrow> u32) \<Rightarrow> ptr \<Rightarrow> active_t \<Rightarrow> u32 \<Rightarrow> 'a malloc_state_scheme conc \<Rightarrow>
   (ptr \<times> 'a malloc_state_scheme conc) option" where
  "pop_from_active E mn heap active exec c = do {
     let desc = active_get_ptr active;
     (oldanchor, c) \<leftarrow> atomic_read_uint64 (anchor_loc desc) c;
     (addr, c) \<leftarrow> block_addr desc oldanchor c;
     (next, c) \<leftarrow> rd (word_loc addr) c;
     let credits = anchor_get_credits oldanchor;
     let morecredits = mn credits MAX_CREDITS;
     let avail = anchor_set_avail oldanchor next;
     let newanchor = anchor_set_tag avail (anchor_get_tag oldanchor + 1);
     let newanchor =
       (if active_get_credits active = 0 then
          (if anchor_get_credits oldanchor = 0 then anchor_set_state newanchor ANC_FULL
           else anchor_set_credits newanchor (anchor_get_credits newanchor - morecredits))
        else newanchor);
     (ok, c) \<leftarrow> atomic_compare_and_set_uint64 oldanchor newanchor (anchor_loc desc) c;
     if ok then do {
       (_, c) \<leftarrow> (if active_get_credits active = 0 \<and> 0 < anchor_get_credits oldanchor
                  then update_active E heap desc morecredits exec c else Some ((), c));
       (_, c) \<leftarrow> wr (word_loc addr) desc c;
       Some (addr + CACHE_LINE_SIZE, c) }
     else Some (NULL, c) }"

definition malloc_from_active ::
  "'e slice_env_scheme \<Rightarrow> (u32 \<Rightarrow> u32 \<Rightarrow> u32) \<Rightarrow> ptr \<Rightarrow> u32 \<Rightarrow> 'a malloc_state_scheme conc \<Rightarrow>
   (ptr \<times> 'a malloc_state_scheme conc) option" where
  "malloc_from_active E mn heap exec c = do {
     (active, c) \<leftarrow> reserve_from_active heap c;
     if active_get_ptr active \<noteq> NULL then retry_nonnull (pop_from_active E mn heap active exec) c
     else Some (NULL, c) }"

definition heap_get_partial ::
  "ptr \<Rightarrow> u32 \<Rightarrow> 'a malloc_state_scheme conc \<Rightarrow> (ptr \<times> 'a malloc_state_scheme conc) option" where
  "heap_get_partial heap exec c = retry (\<lambda>c. do {
     (out, c) \<leftarrow> rd (ph_partial_loc heap) c;
     if out \<noteq> NULL then do {
       (ok, c) \<leftarrow> atomic_compare_and_set_ptr out NULL (ph_partial_loc heap) c;
       Some (if ok then Some out else None, c) }
     else do {
       (queue, c) \<leftarrow> heap_queue heap c;
       (out, c) \<leftarrow> lf_block_queue_dequeue queue exec c;
       Some (Some out, c) } }) c"

definition pop_from_partial ::
  "ptr \<Rightarrow> 'a malloc_state_scheme conc \<Rightarrow> (ptr \<times> 'a malloc_state_scheme conc) option" where
  "pop_from_partial desc c = do {
     (oldanchor, c) \<leftarrow> atomic_read_uint64 (anchor_loc desc) c;
     (addr, c) \<leftarrow> block_addr desc oldanchor c;
     (next, c) \<leftarrow> rd (word_loc addr) c;
     let avail = anchor_set_avail oldanchor next;
     let newanchor = anchor_set_tag avail (anchor_get_tag oldanchor + 1);
     (ok, c) \<leftarrow> atomic_compare_and_set_uint64 oldanchor newanchor (anchor_loc desc) c;
     Some (if ok then addr else NULL, c) }"

text \<open>
  The inner loop of \<open>malloc_from_partial\<close>: \<open>Some credits\<close> when it claimed credits from the
  descriptor, \<open>None\<close> when the descriptor was empty.
\<close>

definition claim_credits ::
  "(u32 \<Rightarrow> u32 \<Rightarrow> u32) \<Rightarrow> ptr \<Rightarrow> 'a malloc_state_scheme conc \<Rightarrow>
   (u32 option \<times> 'a malloc_state_scheme conc) option" where
  "claim_credits mn desc c = retry (\<lambda>c. do {
     (oldanchor, c) \<leftarrow> atomic_read_uint64 (anchor_loc desc) c;
     if anchor_get_state oldanchor \<noteq> ANC_EMPTY then do {
       let credits = mn (anchor_get_credits oldanchor - 1) MAX_CREDITS;
       let active = anchor_set_state oldanchor (if 0 < credits then ANC_ACTIVE else ANC_FULL);
       let newanchor = anchor_set_credits active (anchor_get_credits oldanchor - (credits + 1));
       (ok, c) \<leftarrow> atomic_compare_and_set_uint64 oldanchor newanchor (anchor_loc desc) c;
       Some (if ok then Some (Some credits) else None, c) }
     else Some (Some None, c) }) c"

partial_function (option) claim_partial ::
  "(u32 \<Rightarrow> u32 \<Rightarrow> u32) \<Rightarrow> ptr \<Rightarrow> u32 \<Rightarrow> 'a malloc_state_scheme conc \<Rightarrow>
   ((ptr \<times> u32) \<times> 'a malloc_state_scheme conc) option" where
  "claim_partial mn heap exec c = do {
     (desc, c) \<leftarrow> heap_get_partial heap exec c;
     if desc \<noteq> NULL then do {
       (r, c) \<leftarrow> claim_credits mn desc c;
       case r of Some credits \<Rightarrow> Some ((desc, credits), c)
       | None \<Rightarrow> claim_partial mn heap exec c }
     else Some ((NULL, 0), c) }"

definition malloc_from_partial ::
  "'e slice_env_scheme \<Rightarrow> (u32 \<Rightarrow> u32 \<Rightarrow> u32) \<Rightarrow> ptr \<Rightarrow> u32 \<Rightarrow> 'a malloc_state_scheme conc \<Rightarrow>
   (ptr \<times> 'a malloc_state_scheme conc) option" where
  "malloc_from_partial E mn heap exec c = do {
     ((desc, morecredits), c) \<leftarrow> claim_partial mn heap exec c;
     if desc \<noteq> NULL then do {
       (addr, c) \<leftarrow> retry_nonnull (pop_from_partial desc) c;
       (_, c) \<leftarrow> (if 0 < morecredits then update_active E heap desc morecredits exec c
                  else Some ((), c));
       (_, c) \<leftarrow> wr (word_loc addr) desc c;
       Some (addr + CACHE_LINE_SIZE, c) }
     else Some (NULL, c) }"

definition malloc_from_new_sb ::
  "'e slice_env_scheme \<Rightarrow> (u32 \<Rightarrow> u32 \<Rightarrow> u32) \<Rightarrow> ptr \<Rightarrow> 'a malloc_state_scheme conc \<Rightarrow>
   (ptr \<times> 'a malloc_state_scheme conc) option" where
  "malloc_from_new_sb E mn heap c = do {
     (k, c) \<leftarrow> prd (ph_sizeclass_loc heap) c;
     (block_size, c) \<leftarrow> prd (sc_block_size_loc k) c;
     (slc, c) \<leftarrow> slice_alloc_in E SLICE_TYPE_MALLOC SLICE_PROT_RWX block_size c;
     if slc \<noteq> NULL then do {
       (desc, c) \<leftarrow> desc_alloc E c;
       (sz, c) \<leftarrow> prd (sc_size_loc k) c;
       if sz = 0 then None else do {
       let maxcount = block_size div sz;
       let credits = mn (maxcount - 1) MAX_CREDITS - 1;
       let newactive = active_create desc credits;
       (addr, c) \<leftarrow> prd (s_ptr_loc slc) c;
       (_, c) \<leftarrow> foreach (\<lambda>i. pwr (word_loc (addr + sz * of_nat i)) (of_nat (i + 1)))
         [1..<unat (maxcount - 1)] c;
       (_, c) \<leftarrow> pwr (des_slice_loc desc) slc c;
       (_, c) \<leftarrow> pwr (des_heap_loc desc) heap c;
       (_, c) \<leftarrow> pwr (des_size_loc desc) sz c;
       (_, c) \<leftarrow> pwr (des_maxcount_loc desc) maxcount c;
       (_, c) \<leftarrow> pwr (anchor_loc desc) (anchor_create 1 ((maxcount - 1) - (credits + 1)) ANC_ACTIVE) c;
       (ok, c) \<leftarrow> atomic_compare_and_set_uint64 0 (ucast newactive) (ph_active_loc heap) c;
       if ok then do {
         (_, c) \<leftarrow> pwr (word_loc addr) desc c;
         Some (addr + CACHE_LINE_SIZE, c) }
       else do {
         (_, c) \<leftarrow> slice_free slc c;
         (_, c) \<leftarrow> malloc_desc_retire desc c;
         Some (NULL, c) } } }
     else Some (NULL, c) }"

definition try_alloc ::
  "'e slice_env_scheme \<Rightarrow> (u32 \<Rightarrow> u32 \<Rightarrow> u32) \<Rightarrow> ptr \<Rightarrow> u32 \<Rightarrow> 'a malloc_state_scheme conc \<Rightarrow>
   (ptr \<times> 'a malloc_state_scheme conc) option" where
  "try_alloc E mn heap exec c = do {
     (out, c) \<leftarrow> malloc_from_active E mn heap exec c;
     if out \<noteq> NULL then Some (out, c)
     else do {
       (out, c) \<leftarrow> malloc_from_partial E mn heap exec c;
       if out \<noteq> NULL then Some (out, c) else malloc_from_new_sb E mn heap c } }"

definition malloc_lf ::
  "'e slice_env_scheme \<Rightarrow> (u32 \<Rightarrow> u32 \<Rightarrow> u32) \<Rightarrow> u32 \<Rightarrow> u32 \<Rightarrow> 'a malloc_state_scheme conc \<Rightarrow>
   (ptr \<times> 'a malloc_state_scheme conc) option" where
  "malloc_lf E mn req_size exec c =
     (if req_size \<noteq> 0 then
        (let sz = req_size + CACHE_LINE_SIZE; heap = find_heap sz exec (fst c) in
         if heap \<noteq> NULL then retry_nonnull (try_alloc E mn heap exec) c
         else do {
           let slice_sz = (sz - 1) mod 4096 + 4096;
           (slc, c) \<leftarrow> slice_alloc_in E SLICE_TYPE_MALLOC SLICE_PROT_RWX slice_sz c;
           if slc \<noteq> NULL then do {
             (p, c) \<leftarrow> prd (s_ptr_loc slc) c;
             (_, c) \<leftarrow> pwr (word_loc p) (p OR 1) c;
             Some (p + CACHE_LINE_SIZE, c) }
           else Some (NULL, c) })
      else Some (NULL, c))"

subsection \<open>Freeing\<close>

text \<open>\<open>while(NULL != (curr = dequeue()) && ANC_EMPTY != state(curr));\<close>\<close>

partial_function (option) find_empty_desc ::
  "ptr \<Rightarrow> u32 \<Rightarrow> 'a malloc_state_scheme conc \<Rightarrow> (ptr \<times> 'a malloc_state_scheme conc) option" where
  "find_empty_desc queue exec c = do {
     (cur, c) \<leftarrow> lf_block_queue_dequeue queue exec c;
     if cur \<noteq> NULL then do {
       (anchor, c) \<leftarrow> atomic_read_uint64 (anchor_loc cur) c;
       if anchor_get_state anchor \<noteq> ANC_EMPTY then find_empty_desc queue exec c
       else Some (cur, c) }
     else Some (NULL, c) }"

definition remove_empty_desc ::
  "'e slice_env_scheme \<Rightarrow> ptr \<Rightarrow> ptr \<Rightarrow> u32 \<Rightarrow> 'a malloc_state_scheme conc \<Rightarrow>
   (unit \<times> 'a malloc_state_scheme conc) option" where
  "remove_empty_desc E heap desc exec c = do {
     (ok, c) \<leftarrow> atomic_compare_and_set_ptr desc NULL (ph_partial_loc heap) c;
     if ok then malloc_desc_retire desc c
     else do {
       (queue, c) \<leftarrow> heap_queue heap c;
       (cur, c) \<leftarrow> find_empty_desc queue exec c;
       if cur \<noteq> NULL then lf_block_queue_enqueue E queue cur exec c else Some ((), c) } }"

text \<open>\<open>heap\<close> stays NULL unless the superblock becomes empty. Dividing by zero traps.\<close>

definition try_free ::
  "'e slice_env_scheme \<Rightarrow> ptr \<Rightarrow> ptr \<Rightarrow> u32 \<Rightarrow> 'a malloc_state_scheme conc \<Rightarrow>
   (bool \<times> 'a malloc_state_scheme conc) option" where
  "try_free E desc p exec c = do {
     (oldanchor, c) \<leftarrow> atomic_read_uint64 (anchor_loc desc) c;
     (slc, c) \<leftarrow> rd (des_slice_loc desc) c;
     (base, c) \<leftarrow> rd (s_ptr_loc slc) c;
     (sz, c) \<leftarrow> rd (des_size_loc desc) c;
     if sz = 0 then None else do {
     let offset = (p - base) div sz;
     let newanchor = anchor_set_avail
       (if anchor_get_state oldanchor = ANC_FULL then anchor_set_state oldanchor ANC_PARTIAL
        else oldanchor) offset;
     (_, c) \<leftarrow> wr (word_loc p) (anchor_get_avail oldanchor) c;
     (maxcount, c) \<leftarrow> rd (des_maxcount_loc desc) c;
     ((heap, newanchor), c) \<leftarrow>
       (if anchor_get_credits oldanchor = maxcount - 1 then do {
          (heap, c) \<leftarrow> rd (des_heap_loc desc) c;
          Some ((heap, anchor_set_state newanchor ANC_EMPTY), c) }
        else Some ((NULL, anchor_set_credits newanchor (anchor_get_credits newanchor + 1)), c));
     (out, c) \<leftarrow> atomic_compare_and_set_uint64 oldanchor newanchor (anchor_loc desc) c;
     if out then
       (if anchor_get_state newanchor = ANC_EMPTY then do {
          (slc, c) \<leftarrow> rd (des_slice_loc desc) c;
          (_, c) \<leftarrow> slice_free slc c;
          (_, c) \<leftarrow> remove_empty_desc E heap desc exec c;
          Some (out, c) }
        else if anchor_get_state oldanchor = ANC_FULL then do {
          (_, c) \<leftarrow> heap_put_partial E desc exec c;
          Some (out, c) }
        else Some (out, c))
     else Some (out, c) } }"

definition free_lf ::
  "'e slice_env_scheme \<Rightarrow> ptr \<Rightarrow> u32 \<Rightarrow> 'a malloc_state_scheme conc \<Rightarrow>
   (unit \<times> 'a malloc_state_scheme conc) option" where
  "free_lf E p exec c =
     (if p \<noteq> NULL then do {
        let prefix = p - CACHE_LINE_SIZE;
        (tag_val, c) \<leftarrow> rd (word_loc prefix) c;
        let large_block = (tag_val AND 1 \<noteq> 0);
        let tag_ptr = tag_val AND NOT 1;
        if \<not> large_block then retry_until (try_free E tag_ptr prefix exec) c
        else slice_free tag_ptr c }
      else Some ((), c))"

subsection \<open>The C library's interface\<close>

text \<open>The identifier \<open>cc_executor_id\<close> gives is the argument \<open>exec\<close>.\<close>

definition malloc ::
  "'e slice_env_scheme \<Rightarrow> (u32 \<Rightarrow> u32 \<Rightarrow> u32) \<Rightarrow> u32 \<Rightarrow> u32 \<Rightarrow> 'a malloc_state_scheme conc \<Rightarrow>
   (ptr \<times> 'a malloc_state_scheme conc) option" where
  "malloc E mn exec sz c = malloc_lf E mn sz exec c"

definition c_free ::
  "'e slice_env_scheme \<Rightarrow> u32 \<Rightarrow> ptr \<Rightarrow> 'a malloc_state_scheme conc \<Rightarrow>
   (unit \<times> 'a malloc_state_scheme conc) option" where
  "c_free E exec p c = free_lf E p exec c"

text \<open>
  \<open>memset(p, 0, n)\<close> and \<open>memcpy(p, q, n)\<close>: whole words, then the low bytes of a last one.
\<close>

definition low_bytes :: "u32 \<Rightarrow> u32" where
  "low_bytes n = push_bit (8 * unat (n mod 4)) 1 - 1"

definition memset_zero ::
  "ptr \<Rightarrow> u32 \<Rightarrow> 'a slice_state_scheme conc \<Rightarrow> (unit \<times> 'a slice_state_scheme conc) option" where
  "memset_zero p n c = do {
     (_, c) \<leftarrow> foreach (\<lambda>i. wr (word_loc (p + of_nat (4 * i))) 0) [0..<unat n div 4] c;
     if n mod 4 = 0 then Some ((), c)
     else do {
       let last = p + of_nat (4 * (unat n div 4));
       (w, c) \<leftarrow> rd (word_loc last) c;
       wr (word_loc last) (w AND NOT (low_bytes n)) c } }"

definition memcpy ::
  "ptr \<Rightarrow> ptr \<Rightarrow> u32 \<Rightarrow> 'a slice_state_scheme conc \<Rightarrow> (unit \<times> 'a slice_state_scheme conc) option" where
  "memcpy p q n c = do {
     (_, c) \<leftarrow> foreach (\<lambda>i c. do {
         (w, c) \<leftarrow> rd (word_loc (q + of_nat (4 * i))) c;
         wr (word_loc (p + of_nat (4 * i))) w c }) [0..<unat n div 4] c;
     if n mod 4 = 0 then Some ((), c)
     else do {
       let k = of_nat (4 * (unat n div 4));
       (v, c) \<leftarrow> rd (word_loc (q + k)) c;
       (w, c) \<leftarrow> rd (word_loc (p + k)) c;
       wr (word_loc (p + k)) ((w AND NOT (low_bytes n)) OR (v AND low_bytes n)) c } }"

definition calloc ::
  "'e slice_env_scheme \<Rightarrow> (u32 \<Rightarrow> u32 \<Rightarrow> u32) \<Rightarrow> u32 \<Rightarrow> u32 \<Rightarrow> u32 \<Rightarrow> 'a malloc_state_scheme conc \<Rightarrow>
   (ptr \<times> 'a malloc_state_scheme conc) option" where
  "calloc E mn exec sz num c = do {
     (out, c) \<leftarrow> malloc E mn exec (sz * num) c;
     if out \<noteq> NULL then do { (_, c) \<leftarrow> memset_zero out (sz * num) c; Some (out, c) }
     else Some (out, c) }"

definition realloc ::
  "'e slice_env_scheme \<Rightarrow> (u32 \<Rightarrow> u32 \<Rightarrow> u32) \<Rightarrow> u32 \<Rightarrow> ptr \<Rightarrow> u32 \<Rightarrow> 'a malloc_state_scheme conc \<Rightarrow>
   (ptr \<times> 'a malloc_state_scheme conc) option" where
  "realloc E mn exec p sz c = do {
     (out, c) \<leftarrow> malloc E mn exec sz c;
     if out \<noteq> NULL then do {
       (_, c) \<leftarrow> memcpy out p sz c;
       (_, c) \<leftarrow> c_free E exec p c;
       Some (out, c) }
     else Some (out, c) }"

end
