(* ===== verification/Pool.thy ===== *)
theory Pool
  imports Prelude "HOL-Library.Multiset"
begin

section \<open>The contract of a pool of blocks\<close>

text \<open>
  What an allocator of equal blocks promises while blocks remain: \<open>pool s us xs\<close> says that in
  the state \<open>s\<close> the blocks \<open>us\<close> are in use and \<open>xs\<close> are free, the next one first. The theorem
  of the locale is the refinement to a stack of blocks, and the stack never hands out a block
  that is in use.
\<close>

datatype 'b pool_op = Take | Give 'b

fun run_pool ::
  "('s \<Rightarrow> ('b \<times> 's) option) \<Rightarrow> ('b \<Rightarrow> 's \<Rightarrow> 's option) \<Rightarrow> 'b pool_op list \<Rightarrow> 's \<Rightarrow>
   ('b list \<times> 's) option" where
  "run_pool alloc release [] s = Some ([], s)"
| "run_pool alloc release (Take # ops) s = do {
     (b, s) \<leftarrow> alloc s;
     (bs, s) \<leftarrow> run_pool alloc release ops s;
     Some (b # bs, s) }"
| "run_pool alloc release (Give b # ops) s = do {
     s \<leftarrow> release b s;
     run_pool alloc release ops s }"

text \<open>The stack; \<open>None\<close> when the last free block is asked for or a block not in use returned.\<close>

fun run_stack :: "'b pool_op list \<Rightarrow> 'b list \<Rightarrow> 'b list \<Rightarrow> ('b list \<times> 'b list \<times> 'b list) option" where
  "run_stack [] us xs = Some ([], us, xs)"
| "run_stack (Take # ops) us (x # y # xs) = do {
     (bs, r) \<leftarrow> run_stack ops (x # us) (y # xs);
     Some (x # bs, r) }"
| "run_stack (Take # ops) us xs = None"
| "run_stack (Give b # ops) us xs =
     (if b \<in> set us then run_stack ops (remove1 b us) (b # xs) else None)"

lemma run_stack_blocks:
  "run_stack ops us xs = Some (bs, us', xs') \<Longrightarrow>
   mset us' + mset xs' = mset us + mset xs \<and> set bs \<subseteq> set us \<union> set xs"
  by (induction ops us xs arbitrary: bs us' xs' rule: run_stack.induct)
    (fastforce split: bind_splits if_splits dest: set_remove1_subset [THEN subsetD])+

locale block_pool =
  fixes alloc :: "'s \<Rightarrow> ('b \<times> 's) option"
    and release :: "'b \<Rightarrow> 's \<Rightarrow> 's option"
    and pool :: "'s \<Rightarrow> 'b list \<Rightarrow> 'b list \<Rightarrow> bool"
  assumes alloc_law: "pool s us (x # y # xs) \<Longrightarrow> \<exists>t. alloc s = Some (x, t) \<and> pool t (x # us) (y # xs)"
    and release_law: "pool s us xs \<Longrightarrow> b \<in> set us \<Longrightarrow>
      \<exists>t. release b s = Some t \<and> pool t (remove1 b us) (b # xs)"
    and pool_distinct: "pool s us xs \<Longrightarrow> distinct (us @ xs)"
begin

lemma runs_as_stack:
  "run_stack ops us xs = Some (bs, us', xs') \<Longrightarrow> pool s us xs \<Longrightarrow>
   \<exists>t. run_pool alloc release ops s = Some (bs, t) \<and> pool t us' xs'"
proof (induction ops us xs arbitrary: s bs rule: run_stack.induct)
  case (1 us xs)
  then show ?case by simp
next
  case (2 ops us x y xs)
  obtain cs where cs: "run_stack ops (x # us) (y # xs) = Some (cs, us', xs')" "bs = x # cs"
    using 2(2) by (auto split: bind_splits)
  obtain t where "alloc s = Some (x, t)" "pool t (x # us) (y # xs)"
    using alloc_law [OF 2(3)] by blast
  with 2(1) cs show ?case by fastforce
next
  case (4 b ops us xs)
  then have b: "b \<in> set us" "run_stack ops (remove1 b us) (b # xs) = Some (bs, us', xs')"
    by (auto split: if_splits)
  obtain t where "release b s = Some t" "pool t (remove1 b us) (b # xs)"
    using release_law [OF 4(3) b(1)] by blast
  with 4(1) b show ?case by fastforce
qed auto

end

end
