(* ===== verification/Superblock.thy ===== *)
theory Superblock
  imports Malloc Pool
begin

unbundle bit_operations_syntax

section \<open>The life of an active superblock\<close>

text \<open>
  The invariant of a superblock that is active in a heap, and the proofs that \<open>malloc_lf\<close> and
  \<open>free_lf\<close> keep it: they take a block from and return it to the list of free blocks, and the
  credits in the active word and in the anchor together count that list.
\<close>

subsection \<open>Blocks\<close>

definition block :: "ptr \<Rightarrow> u32 \<Rightarrow> u32 \<Rightarrow> ptr" where
  "block p sz i = p + i * sz"

text \<open>The list of free blocks, each holding the index of the next one.\<close>

fun free_blocks :: "(ptr \<Rightarrow> u32 option) \<Rightarrow> ptr \<Rightarrow> u32 \<Rightarrow> u32 \<Rightarrow> u32 list \<Rightarrow> bool" where
  "free_blocks w p sz a [] = True"
| "free_blocks w p sz a (i # xs) =
     (a = i \<and> (case w (block p sz i) of None \<Rightarrow> False | Some v \<Rightarrow> free_blocks w p sz v xs))"

text \<open>\<open>m\<close> blocks of \<open>sz\<close> bytes at \<open>p\<close>.\<close>

definition layout :: "ptr \<Rightarrow> u32 \<Rightarrow> u32 \<Rightarrow> bool" where
  "layout p sz m \<longleftrightarrow> p \<noteq> NULL \<and> 32 \<le> sz \<and> m \<le> 0x400 \<and> unat p + unat m * unat sz < 2 ^ 32"

lemma block_bounds:
  assumes "layout p sz m" "i < m"
  shows "unat (block p sz i) = unat p + unat i * unat sz"
    and "unat i * unat sz + unat sz \<le> unat m * unat sz"
proof -
  have "(unat i + 1) * unat sz \<le> unat m * unat sz"
    using assms by (intro mult_right_mono) (simp_all add: word_less_nat_alt)
  then show le: "unat i * unat sz + unat sz \<le> unat m * unat sz" by simp
  then show "unat (block p sz i) = unat p + unat i * unat sz"
    using assms by (simp add: block_def unat_word_ariths layout_def)
qed

lemma block_laws:
  assumes "layout p sz m" "i < m"
  shows "block p sz i \<noteq> NULL" "block p sz i + 32 \<noteq> NULL" "(block p sz i - p) div sz = i" "sz \<noteq> 0"
proof -
  note b = block_bounds [OF assms]
  have l: "0 < unat p" "32 \<le> unat sz" "unat p + unat m * unat sz < 2 ^ 32"
    using assms(1) by (auto simp: layout_def word_le_nat_alt unat_gt_0)
  have "0 < unat (block p sz i)" using b(1) l(1) by simp
  then show "block p sz i \<noteq> NULL" by auto
  have "unat (block p sz i + 32) = unat (block p sz i) + 32"
    using b l by (simp add: unat_word_ariths)
  then have "0 < unat (block p sz i + 32)" by simp
  then show "block p sz i + 32 \<noteq> NULL" by auto
  show "sz \<noteq> 0" using l(2) by auto
  have "unat ((block p sz i - p) div sz) = unat i * unat sz div unat sz"
    using b(1) by (simp add: unat_div unat_sub word_le_nat_alt)
  then have "unat ((block p sz i - p) div sz) = unat i" using l(2) by simp
  then show "(block p sz i - p) div sz = i" by (simp add: word_unat_eq_iff)
qed

lemma block_inj:
  assumes "layout p sz m" "i < m" "j < m"
  shows "block p sz i = block p sz j \<longleftrightarrow> i = j"
  using block_laws(3) [OF assms(1,2)] block_laws(3) [OF assms(1,3)] by metis

lemma free_blocks_upd:
  assumes "layout p sz m" "i < m" "i \<notin> set xs" "\<forall>j \<in> set xs. j < m"
  shows "free_blocks (w(block p sz i \<mapsto> v)) p sz a xs = free_blocks w p sz a xs"
  using assms(3,4)
proof (induction xs arbitrary: a)
  case (Cons j xs)
  then have "block p sz j \<noteq> block p sz i" using block_inj [OF assms(1), of j i] assms(2) by auto
  with Cons show ?case by (auto split: option.splits)
qed simp

lemma and_mask10: "i < 0x400 \<Longrightarrow> i AND mask 10 = i" for i :: u32
  by (intro and_mask_small) (simp add: word_less_nat_alt)

lemma free_blocks_mask:
  "free_blocks w p sz a xs \<Longrightarrow> \<forall>j \<in> set xs. j < 0x400 \<Longrightarrow> free_blocks w p sz (a AND mask 10) xs"
  by (cases xs) (auto simp: and_mask10)

subsection \<open>The invariant\<close>

definition active_sb ::
  "'a malloc_state_scheme \<Rightarrow> ptr \<Rightarrow> ptr \<Rightarrow> ptr \<Rightarrow> u32 \<Rightarrow> u32 \<Rightarrow> u32 list \<Rightarrow> u32 list \<Rightarrow> bool" where
  "active_sb s heap desc p sz m us xs \<longleftrightarrow>
     heap \<noteq> NULL \<and> words s heap \<noteq> None \<and> desc \<noteq> NULL \<and> words s desc \<noteq> None \<and> desc AND mask 6 = 0 \<and>
     des_slice (descs s desc) \<noteq> NULL \<and>
     map_option s_ptr (slices s (des_slice (descs s desc))) = Some p \<and>
     des_size (descs s desc) = sz \<and> des_maxcount (descs s desc) = m \<and> layout p sz m \<and>
     anchor_get_state (des_anchor (descs s desc)) = ANC_ACTIVE \<and>
     (\<exists>k < 64. ph_active (procheaps s heap) = ucast (active_create desc k) \<and>
        length xs = unat k + 1 + unat (anchor_get_credits (des_anchor (descs s desc)))) \<and>
     distinct (us @ xs) \<and> (\<forall>i \<in> set (us @ xs). i < m) \<and>
     (\<forall>i \<in> set us. words s (block p sz i) = Some desc) \<and>
     free_blocks (words s) p sz (anchor_get_avail (des_anchor (descs s desc))) xs"

lemma ucast_active: "ucast (ucast a :: u64) = a" for a :: u32
  by (rule bit_word_eqI) (auto simp: bit_simps)

lemma reserve_from_active_quiet:
  assumes "heap \<noteq> NULL" "words s heap \<noteq> None" "ph_active (procheaps s heap) = ucast a"
    "active_get_ptr a \<noteq> NULL"
  shows "reserve_from_active heap (s, []) = Some (a, (store (ph_active_loc heap)
    (ucast (if active_get_credits a = 0 then active_set_ptr a NULL
            else active_set_credits a (active_get_credits a - 1))) s, []))"
  using assms by (simp add: reserve_from_active_def retry.simps try_reserve_from_active_def
      atomic_cas_defs rd_def cas_def Let_def ucast_active)

lemma retry_nonnull_some: "f c = Some (r, d) \<Longrightarrow> r \<noteq> NULL \<Longrightarrow> retry_nonnull f c = Some (r, d)"
  by (simp add: retry_nonnull_def retry.simps [of _ c])

text \<open>The anchor that taking a block installs, and what it does to the fields.\<close>

definition taken_anchor :: "anchor_t \<Rightarrow> u32 \<Rightarrow> anchor_t" where
  "taken_anchor a next = anchor_set_tag (anchor_set_avail a next) (anchor_get_tag a + 1)"

lemma taken_anchor_simps [simp]:
  "anchor_get_avail (taken_anchor a next) = next AND mask 10"
  "anchor_get_credits (taken_anchor a next) = anchor_get_credits a"
  "anchor_get_state (taken_anchor a next) = anchor_get_state a"
  by (simp_all add: taken_anchor_def)

lemma pop_active_reserved:
  assumes "desc \<noteq> NULL" "words s desc \<noteq> None" "active_get_ptr a = desc" "active_get_credits a \<noteq> 0"
    "des_slice (descs s desc) \<noteq> NULL" "slices s (des_slice (descs s desc)) = Some d"
    "words s (block (s_ptr d) (des_size (descs s desc)) i) = Some next"
    "anchor_get_avail (des_anchor (descs s desc)) = i"
    "block (s_ptr d) (des_size (descs s desc)) i \<noteq> NULL"
  shows "pop_from_active E mn heap a exec (s, []) =
    Some (block (s_ptr d) (des_size (descs s desc)) i + 32,
      (store (word_loc (block (s_ptr d) (des_size (descs s desc)) i)) desc
        (store (anchor_loc desc) (taken_anchor (des_anchor (descs s desc)) next) s), []))"
  using assms by (simp add: pop_from_active_def block_addr_def atomic_cas_defs rd_def cas_def wr_def
      Let_def block_def taken_anchor_def)

lemma update_active_free:
  assumes "heap \<noteq> NULL" "words s heap \<noteq> None" "ph_active (procheaps s heap) = 0"
  shows "update_active E heap desc mc exec (s, []) =
    Some ((), (store (ph_active_loc heap) (ucast (active_create desc (mc - 1))) s, []))"
  using assms by (simp add: update_active_def atomic_cas_defs cas_def Let_def del: mem_loc_simps(2))

lemma pop_active_last:
  assumes d: "desc \<noteq> NULL" "words s desc \<noteq> None" "active_get_ptr a = desc" "active_get_credits a = 0"
    "des_slice (descs s desc) \<noteq> NULL" "slices s (des_slice (descs s desc)) = Some d"
    "block (s_ptr d) (des_size (descs s desc)) (anchor_get_avail (des_anchor (descs s desc))) = q"
    "words s q = Some next" "q \<noteq> NULL"
    and h: "heap \<noteq> NULL" "words s heap \<noteq> None" "ph_active (procheaps s heap) = 0"
    and A: "anchor_get_credits (des_anchor (descs s desc)) = k" "k \<noteq> 0"
  shows "pop_from_active E mn heap a exec (s, []) =
    Some (q + 32,
      (store (word_loc q) desc
        (store (ph_active_loc heap) (ucast (active_create desc (mn k MAX_CREDITS - 1)))
          (store (anchor_loc desc) (anchor_set_credits (taken_anchor (des_anchor (descs s desc)) next)
             (k - mn k MAX_CREDITS)) s)), []))"
proof -
  let ?A = "des_anchor (descs s desc)"
  let ?s = "store (anchor_loc desc) (anchor_set_credits (taken_anchor ?A next) (k - mn k MAX_CREDITS)) s"
  have b: "block_addr desc ?A (s, []) = Some (q, (s, []))"
    using d by (simp add: block_addr_def rd_def Let_def block_def)
  have u: "update_active E heap desc x exec (?s, []) =
      Some ((), (store (ph_active_loc heap) (ucast (active_create desc (x - 1))) ?s, []))" for x
    by (rule update_active_free) (use h in simp_all)
  have "0 < k" using A(2) by (simp add: word_neq_0_conv)
  then have "pop_from_active E mn heap a exec (s, []) =
      wr (word_loc q) desc (store (ph_active_loc heap) (ucast (active_create desc (mn k MAX_CREDITS - 1))) ?s, [])
        \<bind> (\<lambda>(_, c). Some (q + 32, c))"
    using d(1-4,8,9) A
    by (auto simp add: pop_from_active_def atomic_cas_defs rd_def cas_def Let_def b
        taken_anchor_def [symmetric] u simp del: mem_loc_simps(2))
  then show ?thesis using d(8,9) by (simp add: wr_def)
qed

lemma unat_pred: "w \<noteq> 0 \<Longrightarrow> unat w = unat (w - 1) + 1" for w :: u32
proof -
  assume "w \<noteq> 0"
  then have "1 \<le> unat w" by (simp add: Suc_le_eq unat_gt_0)
  then show ?thesis by (simp add: unat_sub word_le_nat_alt)
qed

lemma active_sb_avail:
  assumes "active_sb s heap desc p sz m us (i # xs)"
  shows "anchor_get_avail (des_anchor (descs s desc)) = i"
    and "\<exists>v. words s (block p sz i) = Some v \<and> free_blocks (words s) p sz v xs"
    and "\<exists>d. slices s (des_slice (descs s desc)) = Some d \<and> s_ptr d = p"
  using assms by (auto simp: active_sb_def split: option.splits)

lemma mask6_small: "k < 64 \<Longrightarrow> k AND mask 6 = k" for k :: u32
  by (intro and_mask_small) (simp add: word_less_nat_alt)

text \<open>The next free block \<open>i\<close>: what is in it, and what is free once it is taken.\<close>

lemma active_sb_next:
  assumes sb: "active_sb s heap desc p sz m us (i # j # xs)"
  obtains k v dd where "k < 64" "ph_active (procheaps s heap) = ucast (active_create desc k)"
    "length xs + 1 = unat k + unat (anchor_get_credits (des_anchor (descs s desc)))"
    "active_get_ptr (active_create desc k) = desc" "active_get_credits (active_create desc k) = k"
    "words s (block p sz i) = Some v" "slices s (des_slice (descs s desc)) = Some dd" "s_ptr dd = p"
    "block p sz i \<noteq> NULL" "block p sz i + 32 \<noteq> NULL"
    "free_blocks ((words s)(block p sz i \<mapsto> desc)) p sz (v AND mask 10) (j # xs)"
    "\<forall>x \<in> set (i # us). ((words s)(block p sz i \<mapsto> desc)) (block p sz x) = Some desc"
proof -
  have al: "desc AND mask 6 = 0" and lay: "layout p sz m" and dist: "distinct (us @ i # j # xs)"
    and lt: "\<forall>x \<in> set (us @ i # j # xs). x < m" and used: "\<forall>i \<in> set us. words s (block p sz i) = Some desc"
    using sb by (auto simp: active_sb_def)
  have i: "i < m" and q: "block p sz i \<noteq> NULL" "block p sz i + 32 \<noteq> NULL"
    using lt block_laws [OF lay, of i] by auto
  from sb obtain k where k: "k < 64" "ph_active (procheaps s heap) = ucast (active_create desc k)"
    "length xs + 1 = unat k + unat (anchor_get_credits (des_anchor (descs s desc)))"
    by (auto simp: active_sb_def)
  obtain v where v: "words s (block p sz i) = Some v" "free_blocks (words s) p sz v (j # xs)"
    using active_sb_avail(2) [OF sb] by blast
  obtain dd where dd: "slices s (des_slice (descs s desc)) = Some dd" "s_ptr dd = p"
    using active_sb_avail(3) [OF sb] by blast
  have a: "active_get_ptr (active_create desc k) = desc" "active_get_credits (active_create desc k) = k"
    using active_get_create(2) [OF al] by (simp_all add: active_get_create mask6_small [OF k(1)])
  have "m \<le> 0x400" using lay by (simp add: layout_def)
  then have "\<forall>x \<in> set (j # xs). x < 0x400" using lt by (auto intro: order.strict_trans2)
  with free_blocks_mask [OF v(2)] have "free_blocks (words s) p sz (v AND mask 10) (j # xs)" by blast
  moreover have "i \<notin> set (j # xs)" "\<forall>x \<in> set (j # xs). x < m" using dist lt by auto
  ultimately have "free_blocks ((words s)(block p sz i \<mapsto> desc)) p sz (v AND mask 10) (j # xs)"
    using free_blocks_upd [OF lay i] by blast
  moreover have "\<forall>x \<in> set (i # us). ((words s)(block p sz i \<mapsto> desc)) (block p sz x) = Some desc"
    using used by auto
  ultimately show thesis using that [OF k a v(1) dd q] by blast
qed

text \<open>Taking a block while the active word holds credits, and with its last one.\<close>

lemma take_reserved:
  assumes sb: "active_sb s heap desc p sz m us (i # j # xs)"
    and k: "ph_active (procheaps s heap) = ucast (active_create desc k)" "active_get_credits (active_create desc k) \<noteq> 0"
  shows "\<exists>t. malloc_from_active E mn heap exec (s, []) = Some (block p sz i + 32, (t, [])) \<and>
    active_sb t heap desc p sz m (i # us) (j # xs) \<and> malloc_procheaps t = malloc_procheaps s"
proof -
  let ?A = "des_anchor (descs s desc)" and ?q = "block p sz i"
  have h: "heap \<noteq> NULL" "words s heap \<noteq> None" and d: "desc \<noteq> NULL" "words s desc \<noteq> None"
    and sl: "des_slice (descs s desc) \<noteq> NULL" and sz: "des_size (descs s desc) = sz" and dist: "distinct (us @ i # j # xs)"
    using sb by (auto simp: active_sb_def)
  obtain l v dd where n: "l < 64" "ph_active (procheaps s heap) = ucast (active_create desc l)"
    "length xs + 1 = unat l + unat (anchor_get_credits ?A)" "active_get_ptr (active_create desc l) = desc"
    "active_get_credits (active_create desc l) = l" "words s ?q = Some v" "slices s (des_slice (descs s desc)) = Some dd" "s_ptr dd = p"
    "?q \<noteq> NULL" "?q + 32 \<noteq> NULL" "free_blocks ((words s)(?q \<mapsto> desc)) p sz (v AND mask 10) (j # xs)"
    "\<forall>x \<in> set (i # us). ((words s)(?q \<mapsto> desc)) (block p sz x) = Some desc"
    by (rule active_sb_next [OF sb])
  have "active_create desc k = active_create desc l" using k(1) n(2) ucast_active by metis
  then have l: "l \<noteq> 0" using k(2) n(5) by simp
  let ?s1 = "store (ph_active_loc heap) (ucast (active_create desc (l - 1))) s"
  let ?t = "store (word_loc ?q) desc (store (anchor_loc desc) (taken_anchor ?A v) ?s1)"
  have res: "reserve_from_active heap (s, []) = Some (active_create desc l, (?s1, []))"
    using reserve_from_active_quiet [OF h n(2)] n(4,5) d l by (simp add: active_set_create)
  have pop: "pop_from_active E mn heap (active_create desc l) exec (?s1, []) = Some (?q + 32, (?t, []))"
    using pop_active_reserved [of desc ?s1 "active_create desc l" dd i v E mn heap exec]
      d n l sl sz active_sb_avail(1) [OF sb] by simp
  have "unat (l - 1) < 64 \<and> unat l = unat (l - 1) + 1"
    using n(1) unat_pred [OF l] by (simp add: word_less_nat_alt)
  then have l': "l - 1 < 64" "length xs = unat (l - 1) + unat (anchor_get_credits ?A)"
    using n(3) by (auto simp: word_less_nat_alt)
  have "active_sb ?t heap desc p sz m (i # us) (j # xs)"
    using sb n(11,12) l' dist by (auto simp: active_sb_def)
  moreover have "malloc_procheaps ?t = malloc_procheaps s" by simp
  ultimately show ?thesis
    using res retry_nonnull_some [of "pop_from_active E mn heap (active_create desc l) exec", OF pop n(10)] n(4) d
    by (simp add: malloc_from_active_def del: mem_loc_simps word_loc_simps)
qed

lemma take_last:
  assumes sb: "active_sb s heap desc p sz m us (i # j # xs)" and mn: "mn = min"
    and k: "ph_active (procheaps s heap) = ucast (active_create desc k)" "active_get_credits (active_create desc k) = 0"
  shows "\<exists>t. malloc_from_active E mn heap exec (s, []) = Some (block p sz i + 32, (t, [])) \<and>
    active_sb t heap desc p sz m (i # us) (j # xs) \<and> malloc_procheaps t = malloc_procheaps s"
proof -
  let ?A = "des_anchor (descs s desc)" and ?q = "block p sz i"
  have h: "heap \<noteq> NULL" "words s heap \<noteq> None" and d: "desc \<noteq> NULL" "words s desc \<noteq> None"
    and sl: "des_slice (descs s desc) \<noteq> NULL" and sz: "des_size (descs s desc) = sz" and dist: "distinct (us @ i # j # xs)"
    using sb by (auto simp: active_sb_def)
  obtain l v dd where n: "l < 64" "ph_active (procheaps s heap) = ucast (active_create desc l)"
    "length xs + 1 = unat l + unat (anchor_get_credits ?A)" "active_get_ptr (active_create desc l) = desc"
    "active_get_credits (active_create desc l) = l" "words s ?q = Some v" "slices s (des_slice (descs s desc)) = Some dd" "s_ptr dd = p"
    "?q \<noteq> NULL" "?q + 32 \<noteq> NULL" "free_blocks ((words s)(?q \<mapsto> desc)) p sz (v AND mask 10) (j # xs)"
    "\<forall>x \<in> set (i # us). ((words s)(?q \<mapsto> desc)) (block p sz x) = Some desc"
    by (rule active_sb_next [OF sb])
  have "active_create desc k = active_create desc l" using k(1) n(2) ucast_active by metis
  then have l: "l = 0" using k(2) n(5) by simp
  let ?c = "anchor_get_credits ?A"
  let ?b = "mn ?c MAX_CREDITS"
  let ?s1 = "store (ph_active_loc heap) 0 s"
  let ?A' = "anchor_set_credits (taken_anchor ?A v) (?c - ?b)"
  let ?t = "store (word_loc ?q) desc (store (ph_active_loc heap) (ucast (active_create desc (?b - 1)))
    (store (anchor_loc desc) ?A' ?s1))"
  have c: "0 < unat ?c" "?c \<noteq> 0" using n(3) l by (auto simp: unat_gt_0)
  have b: "?b \<le> ?c" "?b - 1 < 64" "0 < unat ?b" "unat (?b - 1) = unat ?b - 1"
    using c by (auto simp: mn min_def MAX_CREDITS_def word_less_nat_alt word_le_nat_alt unat_sub)
  have res: "reserve_from_active heap (s, []) = Some (active_create desc l, (?s1, []))"
    using reserve_from_active_quiet [OF h n(2)] n(4,5) d l by (simp add: active_set_create active_create_null)
  have pop: "pop_from_active E mn heap (active_create desc l) exec (?s1, []) = Some (?q + 32, (?t, []))"
    using pop_active_last [of desc ?s1 "active_create desc l" dd ?q v heap ?c E mn exec]
      d n l sl sz h c active_sb_avail(1) [OF sb] by simp
  have "?c - ?b < 0x400"
    using b(1) anchor_get_less(2) [of ?A] by (simp add: word_less_nat_alt word_le_nat_alt unat_sub)
  then have A': "anchor_get_credits ?A' = ?c - ?b" "anchor_get_avail ?A' = v AND mask 10" "anchor_get_state ?A' = anchor_get_state ?A"
    by (simp_all add: and_mask10)
  have "length xs = unat (?b - 1) + unat (?c - ?b)"
    using n(3) l b by (simp add: unat_sub word_le_nat_alt)
  then have "active_sb ?t heap desc p sz m (i # us) (j # xs)"
    using sb n(11,12) dist b(2) A' by (auto simp: active_sb_def simp del: anchor_laws)
  moreover have "malloc_procheaps ?t = malloc_procheaps s" by simp
  ultimately show ?thesis
    using res retry_nonnull_some [of "pop_from_active E mn heap (active_create desc l) exec", OF pop n(10)] n(4) d
    by (simp add: malloc_from_active_def del: mem_loc_simps word_loc_simps)
qed

lemma active_sb_take:
  assumes sb: "active_sb s heap desc p sz m us (i # j # xs)" and mn: "mn = min"
  shows "\<exists>t. malloc_from_active E mn heap exec (s, []) = Some (block p sz i + 32, (t, [])) \<and>
    active_sb t heap desc p sz m (i # us) (j # xs) \<and> malloc_procheaps t = malloc_procheaps s"
proof -
  obtain k where "ph_active (procheaps s heap) = ucast (active_create desc k)" using sb by (auto simp: active_sb_def)
  then show ?thesis using take_reserved [OF sb] take_last [OF sb mn] by blast
qed

text \<open>A descriptor is no large block, and with a block in use there is room for its credit.\<close>

lemma desc_tag:
  fixes desc :: ptr
  assumes "desc AND mask 6 = 0"
  shows "desc AND 1 = 0" "desc AND NOT 1 = desc"
proof -
  have "\<not> bit desc 0" using aligned_bits [OF assms, of 0] by simp
  then show "desc AND 1 = 0" "desc AND NOT 1 = desc"
    by (auto intro!: bit_word_eqI simp: bit_simps intro: gr0I)
qed

lemma active_sb_credits:
  assumes sb: "active_sb s heap desc p sz m us xs" and i: "i \<in> set us"
  shows "anchor_get_credits (des_anchor (descs s desc)) \<noteq> m - 1 \<and>
    unat (anchor_get_credits (des_anchor (descs s desc)) + 1) = unat (anchor_get_credits (des_anchor (descs s desc))) + 1 \<and>
    anchor_get_credits (des_anchor (descs s desc)) + 1 < 0x400"
proof -
  let ?c = "anchor_get_credits (des_anchor (descs s desc))"
  have lay: "layout p sz m" and dist: "distinct (us @ xs)" and lt: "\<forall>x \<in> set (us @ xs). x < m"
    using sb by (auto simp: active_sb_def)
  obtain k :: u32 where k: "length xs = unat k + 1 + unat ?c" using sb unfolding active_sb_def by blast
  have "unat ` set (us @ xs) \<subseteq> {..<unat m}" using lt by (auto simp: word_less_nat_alt)
  then have "card (unat ` set (us @ xs)) \<le> unat m"
    using card_mono [of "{..<unat m}" "unat ` set (us @ xs)"] by simp
  moreover have "card (unat ` set (us @ xs)) = length (us @ xs)"
    using distinct_card [OF dist] by (simp add: card_image inj_on_def word_unat_eq_iff)
  moreover have "1 \<le> length us" using i by (cases us) auto
  ultimately have "length xs + 1 \<le> unat m" unfolding length_append by linarith
  then have cm: "unat ?c + 2 \<le> unat m" using k by linarith
  have "i < m" using lt i by auto
  then have pm: "unat m = unat (m - 1) + 1" by (intro unat_pred) auto
  have m: "unat m \<le> 0x400" using lay by (simp add: layout_def word_le_nat_alt)
  then have c1: "unat (?c + 1) = unat ?c + 1" using cm by (simp add: unat_word_ariths)
  have "unat ?c \<noteq> unat (m - 1)" using cm pm by linarith
  with c1 cm m show ?thesis by (auto simp: word_less_nat_alt)
qed

lemma active_sb_give:
  assumes sb: "active_sb s heap desc p sz m us xs" and i: "i \<in> set us"
  shows "\<exists>t. free_lf E (block p sz i + 32) exec (s, []) = Some ((), (t, [])) \<and>
    active_sb t heap desc p sz m (remove1 i us) (i # xs) \<and> malloc_procheaps t = malloc_procheaps s"
proof -
  let ?A = "des_anchor (descs s desc)" and ?q = "block p sz i"
  let ?c = "anchor_get_credits ?A" and ?w = "anchor_get_avail ?A"
  have d: "desc \<noteq> NULL" "words s desc \<noteq> None" and al: "desc AND mask 6 = 0"
    and sl: "des_slice (descs s desc) \<noteq> NULL"
    and sz: "des_size (descs s desc) = sz" "des_maxcount (descs s desc) = m" and lay: "layout p sz m"
    and st: "anchor_get_state ?A = ANC_ACTIVE"
    and dist: "distinct (us @ xs)" and lt: "\<forall>x \<in> set (us @ xs). x < m"
    and used: "\<forall>i \<in> set us. words s (block p sz i) = Some desc"
    and free: "free_blocks (words s) p sz ?w xs"
    using sb by (auto simp: active_sb_def)
  have im: "i < m" and q: "?q \<noteq> NULL" "?q + 32 \<noteq> NULL" "(?q - p) div sz = i" "sz \<noteq> 0"
    using lt i block_laws [OF lay, of i] by auto
  obtain k where k: "k < 64" "ph_active (procheaps s heap) = ucast (active_create desc k)"
    "length xs = unat k + 1 + unat ?c"
    using sb by (auto simp: active_sb_def)
  obtain dd where dd: "slices s (des_slice (descs s desc)) = Some dd" "s_ptr dd = p"
    using sb by (auto simp: active_sb_def)
  have tag: "desc AND 1 = 0" "desc AND NOT 1 = desc" by (rule desc_tag [OF al])+
  have full: "?c \<noteq> m - 1" "unat (?c + 1) = unat ?c + 1" "?c + 1 < 0x400" using active_sb_credits [OF sb i] by blast+
  let ?A' = "anchor_set_credits (anchor_set_avail ?A i) (?c + 1)"
  let ?t = "store (anchor_loc desc) ?A' (store (word_loc ?q) ?w s)"
  have cr': "anchor_get_credits ?A' = ?c + 1" using full(3) by (simp add: and_mask10)
  have av': "anchor_get_avail ?A' = i"
    using im lay by (simp add: layout_def and_mask10 order.strict_trans2)
  have st': "anchor_get_state ?A' = ANC_ACTIVE" using st by simp
  obtain y where wd: "words s desc = Some y" using d(2) by blast
  have attempt: "try_free E desc ?q exec (s, []) = Some (True, (?t, []))"
    using wd d sl sz dd q st used i full(1)
    by (auto simp: try_free_def atomic_cas_defs rd_def wr_def cas_def Let_def ANC_ACTIVE_def ANC_FULL_def
        ANC_EMPTY_def)
  have "free_blocks (words ?t) p sz ?w xs"
    using free free_blocks_upd [OF lay im, of xs "words s" ?w ?w] dist lt i by auto
  moreover have "words ?t (block p sz x) = Some desc" if "x \<in> set (remove1 i us)" for x
  proof -
    have "x \<in> set us" "x \<noteq> i" using that dist by auto
    then show ?thesis using used lt im block_inj [OF lay, of x i] by auto
  qed
  ultimately have "active_sb ?t heap desc p sz m (remove1 i us) (i # xs)"
    using sb i k full cr' av' st' dist by (auto simp: active_sb_def simp del: anchor_laws dest: notin_set_remove1)
  moreover have "malloc_procheaps ?t = malloc_procheaps s" by simp
  ultimately show ?thesis
    using used i q tag attempt retry_until.simps [of "try_free E desc ?q exec" "(s, [])"]
    by (simp add: free_lf_def rd_def Let_def del: mem_loc_simps)
qed

subsection \<open>The pool of one size class\<close>

text \<open>\<open>malloc_lf\<close> and \<open>free_lf\<close> as the contract sees them: one executor, nobody interfering.\<close>

definition sb_alloc ::
  "'e slice_env_scheme \<Rightarrow> (u32 \<Rightarrow> u32 \<Rightarrow> u32) \<Rightarrow> u32 \<Rightarrow> u32 \<Rightarrow> 'a malloc_state_scheme \<Rightarrow>
   (ptr \<times> 'a malloc_state_scheme) option" where
  "sb_alloc E mn req exec s = map_option (\<lambda>r. (fst r, fst (snd r))) (malloc_lf E mn req exec (s, []))"

definition sb_free ::
  "'e slice_env_scheme \<Rightarrow> u32 \<Rightarrow> ptr \<Rightarrow> 'a malloc_state_scheme \<Rightarrow> 'a malloc_state_scheme option" where
  "sb_free E exec b s = map_option (\<lambda>r. fst (snd r)) (free_lf E b exec (s, []))"

abbreviation data_ptr :: "ptr \<Rightarrow> u32 \<Rightarrow> u32 \<Rightarrow> ptr" where
  "data_ptr p sz i \<equiv> block p sz i + 32"

text \<open>
  The blocks of size class of \<open>req\<close> that the active superblock of the executor's heap has:
  those in use and those that are free, as the pointers the caller of \<open>malloc_lf\<close> gets.
\<close>

definition sb_pool ::
  "u32 \<Rightarrow> u32 \<Rightarrow> ptr \<Rightarrow> ptr \<Rightarrow> u32 \<Rightarrow> u32 \<Rightarrow> 'a malloc_state_scheme \<Rightarrow> ptr list \<Rightarrow> ptr list \<Rightarrow> bool" where
  "sb_pool req exec desc p sz m s us xs \<longleftrightarrow> req \<noteq> 0 \<and>
     (\<exists>ius ixs. us = map (data_ptr p sz) ius \<and> xs = map (data_ptr p sz) ixs \<and>
        active_sb s (find_heap (req + 32) exec s) desc p sz m ius ixs)"

lemma data_ptr_inj: "active_sb s heap desc p sz m us xs \<Longrightarrow> inj_on (data_ptr p sz) (set (us @ xs))"
  using block_inj [of p sz m] by (fastforce simp: inj_on_def active_sb_def)

lemma remove1_map_inj:
  "inj_on f (insert x (set xs)) \<Longrightarrow> remove1 (f x) (map f xs) = map f (remove1 x xs)"
  by (induction xs) (auto simp: inj_on_def)

lemma sb_pool_distinct:
  assumes "sb_pool req exec desc p sz m s us xs"
  shows "distinct (us @ xs)"
proof -
  from assms obtain ius ixs where i: "us = map (data_ptr p sz) ius" "xs = map (data_ptr p sz) ixs"
    "active_sb s (find_heap (req + 32) exec s) desc p sz m ius ixs"
    by (auto simp: sb_pool_def)
  have "distinct (ius @ ixs)" using i(3) by (simp add: active_sb_def)
  then have "distinct (map (data_ptr p sz) (ius @ ixs))"
    using data_ptr_inj [OF i(3)] by (simp only: distinct_map)
  then show ?thesis using i by simp
qed

lemma sb_pool_take:
  assumes "sb_pool req exec desc p sz m s us (x # y # xs)"
  shows "\<exists>t. sb_alloc E min req exec s = Some (x, t) \<and> sb_pool req exec desc p sz m t (x # us) (y # xs)"
proof -
  let ?heap = "find_heap (req + 32) exec s"
  from assms obtain ius i j ixs where i: "us = map (data_ptr p sz) ius" "x = data_ptr p sz i"
    "y = data_ptr p sz j" "xs = map (data_ptr p sz) ixs" "req \<noteq> 0"
    "active_sb s ?heap desc p sz m ius (i # j # ixs)"
    by (auto simp: sb_pool_def)
  obtain t where t: "malloc_from_active E min ?heap exec (s, []) = Some (x, (t, []))"
    "active_sb t ?heap desc p sz m (i # ius) (j # ixs)" "malloc_procheaps t = malloc_procheaps s"
    using active_sb_take [OF i(6) refl] i(2) by blast
  have "?heap \<noteq> NULL" "x \<noteq> NULL"
    using i(6) block_laws(2) [of p sz m i] by (auto simp: active_sb_def i(2))
  moreover have "try_alloc E min ?heap exec (s, []) = Some (x, (t, []))"
    using t(1) \<open>x \<noteq> NULL\<close> by (simp add: try_alloc_def)
  ultimately have "sb_alloc E min req exec s = Some (x, t)"
    using i(5) by (simp add: sb_alloc_def malloc_lf_def Let_def retry_nonnull_some)
  moreover have "find_heap (req + 32) exec t = ?heap" using t(3) by (simp add: find_heap_def)
  then have "sb_pool req exec desc p sz m t (x # us) (y # xs)"
    unfolding sb_pool_def using i t(2)
    by (intro conjI exI [of _ "i # ius"] exI [of _ "j # ixs"]) simp_all
  ultimately show ?thesis by blast
qed

lemma sb_pool_give:
  assumes "sb_pool req exec desc p sz m s us xs" "b \<in> set us"
  shows "\<exists>t. sb_free E exec b s = Some t \<and> sb_pool req exec desc p sz m t (remove1 b us) (b # xs)"
proof -
  let ?heap = "find_heap (req + 32) exec s"
  from assms obtain ius ixs i where i: "us = map (data_ptr p sz) ius" "xs = map (data_ptr p sz) ixs"
    "i \<in> set ius" "b = data_ptr p sz i" "req \<noteq> 0"
    "active_sb s ?heap desc p sz m ius ixs"
    by (auto simp: sb_pool_def)
  obtain t where t: "free_lf E b exec (s, []) = Some ((), (t, []))"
    "active_sb t ?heap desc p sz m (remove1 i ius) (i # ixs)" "malloc_procheaps t = malloc_procheaps s"
    using active_sb_give [OF i(6,3)] i(4) by blast
  have "inj_on (data_ptr p sz) (insert i (set ius))"
    by (rule inj_on_subset [OF data_ptr_inj [OF i(6)]]) (use i(3) in auto)
  then have "remove1 b us = map (data_ptr p sz) (remove1 i ius)"
    unfolding i(1,4) by (rule remove1_map_inj)
  moreover have "find_heap (req + 32) exec t = ?heap" using t(3) by (simp add: find_heap_def)
  ultimately have "sb_pool req exec desc p sz m t (remove1 b us) (b # xs)"
    unfolding sb_pool_def using i t(2)
    by (intro conjI exI [of _ "remove1 i ius"] exI [of _ "i # ixs"]) simp_all
  then show ?thesis using t(1) by (simp add: sb_free_def)
qed

interpretation sb: block_pool "sb_alloc E min req exec" "sb_free E exec" "sb_pool req exec desc p sz m"
  for E :: "'e slice_env_scheme" and req exec desc p sz m
  by unfold_locales (fact sb_pool_take sb_pool_give sb_pool_distinct)+

lemma pool_runs_as_stack:
  assumes "sb_pool req exec desc p sz m s us xs" "run_stack ops us xs = Some (bs, us', xs')"
  shows "\<exists>t. run_pool (sb_alloc E min req exec) (sb_free E exec) ops s = Some (bs, t) \<and>
    sb_pool req exec desc p sz m t us' xs' \<and> distinct (us' @ xs') \<and> mset us' + mset xs' = mset us + mset xs"
  using sb.runs_as_stack [OF assms(2,1), of E] sb.pool_distinct run_stack_blocks [OF assms(2)] by metis

subsection \<open>Properties\<close>

text \<open>A heap of the class of \<open>0x100\<close>-byte blocks with an active superblock of five blocks.\<close>

definition ex_malloc :: malloc_state where
  "ex_malloc = \<lparr>words = (\<lambda>a. if a = 0x10100 \<or> a = 0x20000 then Some 2
       else if a = 0x20000 + 0x100 then Some 2 else if a = 0x20000 + 0x200 then Some 3
       else if a = 0x20000 + 0x300 then Some 4 else if a = 0x20000 + 0x400 then Some 0
       else Some 0x3000),
     slices = [0x80 \<mapsto> \<lparr>s_size = 0x10000, s_ptr = 0x20000, s_type = SLICE_TYPE_MALLOC,
       s_usage = SLICE_USAGE_BLANK, s_prot = SLICE_PROT_RWX, s_next = NULL\<rparr>],
     slice_free_list = NULL, total_size = 0, malloc_size = 0, gc_size = 0, slice_size = 0,
     total_limit = 0, malloc_limit = 0, gc_limit = 0, os_log = [],
     qnodes = (\<lambda>_. \<lparr>lfn_next = NULL, lfn_data = NULL\<rparr>), queues = (\<lambda>_. \<lparr>lf_head = NULL, lf_tail = NULL, lf_hptrs = []\<rparr>),
     lf_block_queue_hptrs = 1, lf_block_queue_hptr_threshold = 2, lf_block_queue_nodes = NULL,
     descs = (\<lambda>_. \<lparr>des_anchor = anchor_create 1 2 ANC_ACTIVE, des_next = NULL, des_slice = 0x80,
       des_heap = 0x10070, des_size = 0x100, des_maxcount = 5\<rparr>),
     procheaps = (\<lambda>_. \<lparr>ph_partial = NULL, ph_active = ucast (active_create 0x3000 1), ph_sizeclass = 7\<rparr>),
     malloc_sizeclasses = map (\<lambda>(a, b). \<lparr>sc_size = a, sc_block_size = b, sc_partial = NULL\<rparr>) malloc_sizeclass_table,
     malloc_desc_avail = NULL, malloc_procheaps = 0x10000\<rparr>"

lemma ex_malloc_pool:
  "sb_pool 0xc0 0 0x3000 0x20000 0x100 5 ex_malloc [] (map (data_ptr 0x20000 0x100) [1, 2, 3, 4])"
proof -
  have "find_heap (0xc0 + 32) 0 ex_malloc = 0x10070"
    by (simp add: find_heap_def procheap_at_def ex_malloc_def malloc_size_class_def drop_bit_eq_div
        NUM_SIZE_CLASSES_def)
  moreover have "active_sb ex_malloc 0x10070 0x3000 0x20000 0x100 5 [] [1, 2, 3, 4]"
    by (simp add: active_sb_def ex_malloc_def layout_def ANC_ACTIVE_def block_def and_mask10
        exI [of _ 1] mask_eq_exp_minus_1)
  ultimately show ?thesis unfolding sb_pool_def by force
qed

text \<open>
  C1 [malloc_pool]. As long as blocks remain in the active superblock, any sequence of
  \<open>malloc_lf\<close> and \<open>free_lf\<close> of one size class returns, and hands out and takes back exactly
  the blocks a stack of them does: no block that is in use is handed out, and none is lost.
\<close>

theorem malloc_refines_stack:
  assumes "sb_pool req exec desc p sz m s us xs" "run_stack ops us xs = Some (bs, us', xs')"
  shows "\<exists>t. run_pool (sb_alloc E min req exec) (sb_free E exec) ops s = Some (bs, t) \<and>
    sb_pool req exec desc p sz m t us' xs' \<and> distinct (us' @ xs') \<and> mset us' + mset xs' = mset us + mset xs"
  using assms by (rule pool_runs_as_stack)

lemma malloc_refines_stack_witness:
  "\<forall>E. \<exists>t. run_pool (sb_alloc E min 0xc0 0) (sb_free E 0) [Take, Take, Give (data_ptr 0x20000 0x100 1), Take] ex_malloc =
    Some ([data_ptr 0x20000 0x100 1, data_ptr 0x20000 0x100 2, data_ptr 0x20000 0x100 1], t)"
proof
  fix E
  show "\<exists>t. run_pool (sb_alloc E min 0xc0 0) (sb_free E 0) [Take, Take, Give (data_ptr 0x20000 0x100 1), Take] ex_malloc =
      Some ([data_ptr 0x20000 0x100 1, data_ptr 0x20000 0x100 2, data_ptr 0x20000 0x100 1], t)"
    using malloc_refines_stack [OF ex_malloc_pool, of
      "[Take, Take, Give (data_ptr 0x20000 0x100 1), Take]"
      "[data_ptr 0x20000 0x100 1, data_ptr 0x20000 0x100 2, data_ptr 0x20000 0x100 1]" _ _ E]
    by (auto simp: block_def)
qed

subsection \<open>Descriptors\<close>

interpretation desc_stack: lf_stack des_next_loc desc_avail_loc
  by unfold_locales (auto split: if_splits)

text \<open>The fields of an extension are unchanged where \<open>more\<close> is.\<close>

lemma more_malloc:
  fixes s t :: "'a malloc_state_scheme"
  assumes "slice_state.more t = slice_state.more s"
  shows "malloc_desc_avail t = malloc_desc_avail s" "descs t = descs s" "procheaps t = procheaps s"
    "malloc_sizeclasses t = malloc_sizeclasses s" "malloc_procheaps t = malloc_procheaps s"
  using assms by (cases s; cases t; simp)+

text \<open>The \<open>i\<close>-th descriptor of a slice at \<open>p\<close>.\<close>

definition desc_at :: "ptr \<Rightarrow> nat \<Rightarrow> ptr" where "desc_at p i = p + of_nat i * 64"

lemma desc_at_laws:
  assumes "p \<noteq> NULL" "unat p + 0x10000 \<le> 2 ^ 32" "i < 1024"
  shows "unat (desc_at p i) = unat p + 64 * i" "desc_at p i \<noteq> NULL" "desc_at p i - p < 0x10000"
proof -
  have u: "unat (of_nat i * 64 :: u32) = 64 * i"
    using assms(3) by (simp add: unat_word_ariths unat_of_nat)
  then show a: "unat (desc_at p i) = unat p + 64 * i"
    using assms(2,3) by (simp add: unat_word_ariths desc_at_def)
  moreover have "0 < unat p" using assms(1) by (simp add: unat_gt_0)
  ultimately have "0 < unat (desc_at p i)" by simp
  then show "desc_at p i \<noteq> NULL" by auto
  show "desc_at p i - p < 0x10000" using u assms(3) by (simp add: word_less_nat_alt desc_at_def)
qed

lemma desc_at_inj:
  assumes "p \<noteq> NULL" "unat p + 0x10000 \<le> 2 ^ 32"
  shows "inj_on (desc_at p) {..<1024}"
proof (rule inj_onI)
  fix i j assume ij: "i \<in> {..<1024}" "j \<in> {..<1024}" "desc_at p i = desc_at p j"
  then have "unat p + 64 * i = unat p + 64 * j"
    using desc_at_laws(1) [OF assms] by (metis lessThan_iff)
  then show "i = j" by simp
qed

text \<open>The loop that links the descriptors of a new slice: each but the last one points to the next.\<close>

lemma link_descs:
  fixes t :: "'a malloc_state_scheme"
  assumes p: "p \<noteq> NULL" "unat p + 0x10000 \<le> 2 ^ 32" and w: "words t = map_words p 0x10000 ws"
  obtains h where "foreach (\<lambda>i. pwr (des_next_loc (desc_at p i)) (desc_at p (Suc i))) [0..<1023] (t, []) =
      Some ((), (t\<lparr>descs := h\<rparr>, []))"
    "\<forall>i < 1023. load (des_next_loc (desc_at p i)) (t\<lparr>descs := h\<rparr>) = Some (desc_at p (Suc i))"
proof -
  have inj: "inj_on (desc_at p) (set [0..<1023])"
    by (rule inj_on_subset [OF desc_at_inj [OF p]]) auto
  let ?I = "\<lambda>w. \<exists>h. w = t\<lparr>descs := h\<rparr>"
  have ld: "load (des_next_loc (desc_at p i)) (fst (t, [])) \<noteq> None" if "i \<in> set [0..<1023]" for i
    using desc_at_laws(2,3) [OF p, of i] w that by (simp add: map_words_def)
  have I: "?I (fst (t, []))" by (intro exI [of _ "descs t"]) simp
  have keep: "?I w \<Longrightarrow> ?I (store (des_next_loc q) v w)" for q v w by auto
  obtain h where "foreach (\<lambda>i. pwr (des_next_loc (desc_at p i)) (desc_at p (Suc i))) [0..<1023] (t, []) =
      Some ((), (t\<lparr>descs := h\<rparr>, []))"
    "\<forall>i < 1023. load (des_next_loc (desc_at p i)) (t\<lparr>descs := h\<rparr>) = Some (desc_at p (Suc i))"
    using desc_stack.link_loop [where f = "desc_at p" and g = "\<lambda>i. desc_at p (Suc i)" and
        c = "(t, [])" and I = ?I, OF inj distinct_upt ld I keep]
    by (auto simp: returns_ex simp del: mem_loc_simps)
  then show thesis by (rule that)
qed

text \<open>The list of available descriptors that is published: numbers 1 to 1022.\<close>

lemma listed_descs:
  fixes u :: "'a malloc_state_scheme"
  assumes p: "p \<noteq> NULL" "unat p + 0x10000 \<le> 2 ^ 32"
    and nx: "\<And>i. i < 1023 \<Longrightarrow> load (des_next_loc (desc_at p i)) u = Some (desc_at p (Suc i))"
    and t: "t = (store (des_next_loc (desc_at p 1022)) NULL u)\<lparr>malloc_desc_avail := desc_at p 1\<rparr>"
  shows "chain (\<lambda>q. load (des_next_loc q) t) (malloc_desc_avail t) (map (desc_at p) [1..<1023]) NULL"
proof -
  have m: "load (des_next_loc (desc_at p 1022)) u \<noteq> None" using nx [of 1022] by simp
  have ld: "load (des_next_loc q) t = (if q = desc_at p 1022 then Some NULL else load (des_next_loc q) u)" for q
  proof -
    have "load (des_next_loc q) t = load (des_next_loc q) (store (des_next_loc (desc_at p 1022)) NULL u)"
      by (simp add: t)
    then show ?thesis using desc_stack.nx_store [OF m, of q NULL] by (simp only:)
  qed
  have nxt: "load (des_next_loc (desc_at p i)) t = Some (desc_at p (Suc i))" if "i < 1022" for i
  proof -
    have "desc_at p i \<noteq> desc_at p 1022" using inj_onD [OF desc_at_inj [OF p], of i 1022] that by auto
    then show ?thesis using ld [of "desc_at p i"] nx [of i] that by simp
  qed
  have "chain (\<lambda>q. load (des_next_loc q) t) (desc_at p 1) (map (desc_at p) [1..<1022]) (desc_at p 1022)"
    using nxt desc_at_laws(2) [OF p] by (intro chain_array) auto
  moreover have "chain (\<lambda>q. load (des_next_loc q) t) (desc_at p 1022) [desc_at p 1022] NULL"
    using ld [of "desc_at p 1022"] desc_at_laws(2) [OF p, of 1022] by simp
  ultimately have "chain (\<lambda>q. load (des_next_loc q) t) (desc_at p 1) (map (desc_at p) [1..<1022] @ [desc_at p 1022]) NULL"
    unfolding chain_append by blast
  moreover have "[1..<1023] = [1..<1022] @ [1022 :: nat]"
  proof -
    have "Suc 1022 = 1023" by simp
    then show ?thesis using upt_Suc_append [of 1 1022] by (metis one_le_numeral)
  qed
  ultimately have "chain (\<lambda>q. load (des_next_loc q) t) (desc_at p 1) (map (desc_at p) [1..<1023]) NULL"
    by (simp only: map_append list.map)
  then show ?thesis by (simp add: t)
qed

text \<open>Allocating a descriptor when there is none: the state is that of the new slice but for the descriptors.\<close>

lemma desc_alloc_mapped:
  fixes s t :: "'a malloc_state_scheme"
  assumes none: "malloc_desc_avail s = NULL"
    and t: "slice_alloc_in E SLICE_TYPE_MALLOC SLICE_PROT_RWX 0x10000 (s, []) = Some (slc, (t, []))" "slc \<noteq> NULL"
      "load (s_size_loc slc) t = Some 0x10000" "load (s_ptr_loc slc) t = Some p" "slice_state.more t = slice_state.more s"
      "words t = map_words p 0x10000 (words s)"
    and p: "p \<noteq> NULL" "unat p + 0x10000 \<le> 2 ^ 32"
  shows "\<exists>h. try_desc_alloc E (s, []) = Some (desc_at p 1022, (t\<lparr>descs := h, malloc_desc_avail := desc_at p 1\<rparr>, [])) \<and>
    chain (\<lambda>q. load (des_next_loc q) (t\<lparr>descs := h, malloc_desc_avail := desc_at p 1\<rparr>)) (desc_at p 1)
      (map (desc_at p) [1..<1023]) NULL"
proof -
  obtain h where h: "foreach (\<lambda>i. pwr (des_next_loc (desc_at p i)) (desc_at p (Suc i))) [0..<1023] (t, []) =
      Some ((), (t\<lparr>descs := h\<rparr>, []))"
    "\<forall>i < 1023. load (des_next_loc (desc_at p i)) (t\<lparr>descs := h\<rparr>) = Some (desc_at p (Suc i))"
    using link_descs [OF p t(6)] .
  let ?u = "t\<lparr>descs := h\<rparr>" and ?last = "desc_at p 1022"
  let ?t = "(store (des_next_loc ?last) NULL ?u)\<lparr>malloc_desc_avail := desc_at p 1\<rparr>"
  have avail: "malloc_desc_avail t = NULL" using none more_malloc(1) [OF t(5)] by simp
  have last: "desc_at p 1023 - 64 = ?last" by (simp add: desc_at_def)
  have step: "desc_at p i + 64 = desc_at p (Suc i)" "p + 64 = desc_at p (Suc 0)" for i
    by (simp_all add: desc_at_def algebra_simps)
  have av: "malloc_desc_avail (store (des_next_loc q) NULL ?u) = NULL" for q using avail by simp
  have num: "unat (0x10000 div 64 - 1 :: u32) = 1023" by simp
  have run: "try_desc_alloc E (s, []) = Some (?last, (?t, []))"
    using none t(1-4) h(1) spec [OF h(2), of 1022]
    by (simp add: try_desc_alloc_def rd_def prd_def pwr_def cas_def atomic_cas_defs Let_def step
        desc_at_def [symmetric] last num av del: mem_loc_simps field_loc_simps)
  have list: "chain (\<lambda>q. load (des_next_loc q) ?t) (malloc_desc_avail ?t) (map (desc_at p) [1..<1023]) NULL"
    by (rule listed_descs [OF p _ refl]) (use h(2) in blast)
  let ?h = "h(?last := (h ?last)\<lparr>des_next := NULL\<rparr>)"
  have eq: "?t = t\<lparr>descs := ?h, malloc_desc_avail := desc_at p 1\<rparr>" by simp
  have "malloc_desc_avail (t\<lparr>descs := ?h, malloc_desc_avail := desc_at p 1\<rparr>) = desc_at p 1" by simp
  then show ?thesis using run list unfolding eq by (intro exI [of _ ?h]) (simp only:)
qed

text \<open>
  When no descriptor is available, \<open>try_desc_alloc\<close> maps a slice, publishes
  the descriptors 1 to 1022 of its 1024 as the list of available ones, and returns number
  1022, the last of that same list: the next allocations hand it out a second time.
  Descriptors 0 and 1023 are lost.
\<close>

theorem try_desc_alloc_listed:
  assumes none: "malloc_desc_avail s = NULL" and free: "slice_free_is s (slc # ss)"
    and res: "total_limit s \<le> total_size s + 0x10000" "malloc_limit s \<le> malloc_size s + 0x10000"
    and p: "p = mapped_at (env_mmap E) 0x10000 SLICE_PROT_RWX s" "p \<noteq> NULL" "unat p + 0x10000 \<le> 2 ^ 32"
  shows "\<exists>t. try_desc_alloc E (s, []) = Some (desc_at p 1022, (t, [])) \<and>
    chain (\<lambda>q. load (des_next_loc q) t) (malloc_desc_avail t) (map (desc_at p) [1..<1023]) NULL"
proof -
  have "type_limit_ok s SLICE_TYPE_MALLOC 0x10000" using res(2) by (simp add: type_limit_ok_def)
  then obtain t where t: "slice_alloc_in E SLICE_TYPE_MALLOC SLICE_PROT_RWX 0x10000 (s, []) = Some (slc, (t, []))" "slc \<noteq> NULL"
      "load (s_size_loc slc) t = Some 0x10000" "load (s_ptr_loc slc) t = Some p" "slice_state.more t = slice_state.more s"
      "words t = map_words p 0x10000 (words s)"
    by (rule slice_alloc_in_mapped [OF free res(1) _ p(1,2)])
  obtain h where "try_desc_alloc E (s, []) = Some (desc_at p 1022, (t\<lparr>descs := h, malloc_desc_avail := desc_at p 1\<rparr>, []))"
    "chain (\<lambda>q. load (des_next_loc q) (t\<lparr>descs := h, malloc_desc_avail := desc_at p 1\<rparr>)) (desc_at p 1)
      (map (desc_at p) [1..<1023]) NULL"
    using desc_alloc_mapped [OF none t p(2,3)] by blast
  then show ?thesis by (intro exI [of _ "t\<lparr>descs := h, malloc_desc_avail := desc_at p 1\<rparr>"]) simp
qed

lemma try_desc_alloc_listed_witness:
  "\<exists>t. try_desc_alloc \<lparr>env_mmap = (\<lambda>_. 0x40000), env_failures = (\<lambda>_. 0), env_out = (\<lambda>_. 0)\<rparr>
      (ex_malloc\<lparr>slice_free_list := 0x80\<rparr>, []) = Some (desc_at 0x40000 1022, (t, [])) \<and>
    desc_at 0x40000 1022 \<in> set (map (desc_at 0x40000) [1..<1023])"
proof -
  have "slice_free_is (ex_malloc\<lparr>slice_free_list := 0x80\<rparr>) [0x80]"
    by (simp add: stack_is_def ex_malloc_def)
  from try_desc_alloc_listed [OF _ this, of "0x40000"
      "\<lparr>env_mmap = (\<lambda>_. 0x40000), env_failures = (\<lambda>_. 0), env_out = (\<lambda>_. 0)\<rparr>"]
  obtain t where "try_desc_alloc \<lparr>env_mmap = (\<lambda>_. 0x40000), env_failures = (\<lambda>_. 0), env_out = (\<lambda>_. 0)\<rparr>
      (ex_malloc\<lparr>slice_free_list := 0x80\<rparr>, []) = Some (desc_at 0x40000 1022, (t, []))"
    by (auto simp: ex_malloc_def mapped_at_def)
  moreover have "1022 \<in> set [1..<1023::nat]" unfolding set_upt by simp
  then have "desc_at 0x40000 1022 \<in> set (map (desc_at 0x40000) [1..<1023])"
    unfolding set_map by (rule imageI)
  ultimately show ?thesis by blast
qed

subsection \<open>A new superblock\<close>

definition put_words :: "('i \<Rightarrow> ptr) \<Rightarrow> ('i \<Rightarrow> u32) \<Rightarrow> 'i list \<Rightarrow> (ptr \<Rightarrow> u32 option) \<Rightarrow> ptr \<Rightarrow> u32 option" where
  "put_words f g is = fold (\<lambda>i w. w(f i \<mapsto> g i)) is"

lemma put_words_simps [simp]:
  "put_words f g [] w = w" "put_words f g (i # js) w = put_words f g js (w(f i \<mapsto> g i))"
  by (simp_all add: put_words_def)

lemma foreach_words:
  "\<forall>i \<in> set is. f i \<noteq> NULL \<and> words s (f i) \<noteq> None \<Longrightarrow>
   foreach (\<lambda>i. pwr (word_loc (f i)) (g i)) is (s, []) =
     Some ((), (s\<lparr>words := put_words f g is (words s)\<rparr>, []))"
proof (induction "is" arbitrary: s)
  case (Cons i js)
  let ?s = "s\<lparr>words := (words s)(f i \<mapsto> g i)\<rparr>"
  have "\<forall>i \<in> set js. f i \<noteq> NULL \<and> words ?s (f i) \<noteq> None" using Cons.prems by simp
  from Cons.IH [OF this] have "foreach (\<lambda>i. pwr (word_loc (f i)) (g i)) js (s\<lparr>words := (words s)(f i \<mapsto> g i)\<rparr>, []) =
     Some ((), (s\<lparr>words := put_words f g js ((words s)(f i \<mapsto> g i))\<rparr>, []))"
    by (simp del: fun_upd_apply)
  moreover have "pwr (word_loc (f i)) (g i) (s, []) = Some ((), (s\<lparr>words := (words s)(f i \<mapsto> g i)\<rparr>, []))"
    using Cons.prems by (auto simp: pwr_def)
  ultimately show ?case by (simp only: foreach.simps put_words_simps bind.bind_lunit prod.case)
qed simp

lemma put_words_other: "a \<notin> f ` set is \<Longrightarrow> put_words f g is w a = w a"
  by (induction "is" arbitrary: w) auto

lemma put_words_at:
  "inj_on f (set is) \<Longrightarrow> distinct is \<Longrightarrow> i \<in> set is \<Longrightarrow> put_words f g is w (f i) = Some (g i)"
proof (induction "is" arbitrary: w)
  case (Cons j js)
  show ?case
  proof (cases "i = j")
    case True
    then have "f i \<notin> f ` set js" using Cons.prems by (auto simp: inj_on_def)
    with True show ?thesis by (simp add: put_words_other)
  next
    case False
    with Cons show ?thesis by (auto simp: inj_on_def)
  qed
qed simp

lemma free_blocks_array:
  assumes "\<And>i. a \<le> i \<Longrightarrow> Suc i < b \<Longrightarrow> w (block p sz (of_nat i)) = Some (of_nat (Suc i))"
    and "\<And>i. i < b \<Longrightarrow> w (block p sz (of_nat i)) \<noteq> None" and "a \<le> b"
  shows "free_blocks w p sz (of_nat a) (map of_nat [a..<b])"
  using assms
proof (induction "b - a" arbitrary: a)
  case (Suc k)
  then have ab: "a < b" by simp
  show ?case
  proof (cases "Suc a = b")
    case True
    then show ?thesis using Suc.prems(2) [of a] ab by auto
  next
    case False
    have "free_blocks w p sz (of_nat (Suc a)) (map of_nat [Suc a..<b])"
      using Suc by (intro Suc.hyps) auto
    then show ?thesis using Suc.prems(1) [of a] ab False by (simp add: upt_conv_Cons)
  qed
qed simp

text \<open>The number of blocks of a superblock.\<close>

lemma superblock_count:
  fixes sz :: u32
  assumes "0x40 \<le> sz" "sz \<le> 0x4000"
  shows "unat (0x10000 div sz) = 0x10000 div unat sz" "4 \<le> (0x10000 :: nat) div unat sz"
    "(0x10000 :: nat) div unat sz \<le> 0x400" "(0x10000 :: nat) div unat sz * unat sz \<le> 0x10000"
proof -
  have s: "0x40 \<le> unat sz" "unat sz \<le> 0x4000" using assms by (simp_all add: word_le_nat_alt)
  show "unat (0x10000 div sz) = 0x10000 div unat sz" by (simp add: unat_div)
  have "(0x10000 :: nat) div 0x4000 \<le> 0x10000 div unat sz" using s by (intro div_le_mono2) auto
  then show "4 \<le> (0x10000 :: nat) div unat sz" by simp
  have "(0x10000 :: nat) div unat sz \<le> 0x10000 div 0x40" using s by (intro div_le_mono2) auto
  then show "(0x10000 :: nat) div unat sz \<le> 0x400" by simp
  show "(0x10000 :: nat) div unat sz * unat sz \<le> 0x10000" by simp
qed

lemma of_nat_inj_small:
  assumes "i \<le> 0x400" "j \<le> 0x400" "(of_nat i :: u32) = of_nat j"
  shows "i = j"
proof -
  have "unat (of_nat k :: u32) = k" if "k \<le> 0x400" for k
    using that by (simp add: unat_of_nat)
  then show ?thesis using assms by metis
qed

lemma desc_alloc_available:
  assumes "malloc_desc_avail s = desc" "desc \<noteq> NULL" "words s desc \<noteq> None"
  shows "desc_alloc E (s, []) = Some (desc, (s\<lparr>malloc_desc_avail := des_next (descs s desc)\<rparr>, []))"
proof -
  obtain y where "words s desc = Some y" using assms(3) by blast
  then have "try_desc_alloc E (s, []) = Some (desc, (s\<lparr>malloc_desc_avail := des_next (descs s desc)\<rparr>, []))"
    using assms(1,2) by (auto simp: try_desc_alloc_def rd_def cas_def atomic_cas_defs Let_def)
  then show ?thesis using assms(2) unfolding desc_alloc_def by (intro retry_nonnull_some)
qed

text \<open>The blocks of a new superblock of \<open>m\<close> blocks: they lie in its 64 kilobytes and are distinct.\<close>

lemma new_blocks:
  assumes "layout p sz m" "m = 0x10000 div sz" "0x40 \<le> sz" "sz \<le> 0x4000" "i < unat m"
  shows "of_nat i < m" "block p sz (of_nat i) \<noteq> NULL" "block p sz (of_nat i) - p < 0x10000"
proof -
  note cnt = superblock_count [OF assms(3,4), folded assms(2)]
  show lt: "of_nat i < m" using assms(5) cnt by (simp add: word_less_nat_alt unat_of_nat)
  note b = block_bounds [OF assms(1) lt]
  show "block p sz (of_nat i) \<noteq> NULL" by (rule block_laws(1) [OF assms(1) lt])
  have "unat (block p sz (of_nat i) - p) = unat (block p sz (of_nat i)) - unat p"
    using b(1) by (simp add: unat_sub word_le_nat_alt)
  moreover have "0x40 \<le> unat sz" using assms(3) by (simp add: word_le_nat_alt)
  ultimately have "unat (block p sz (of_nat i) - p) < 0x10000" using b(1) b(2) [unfolded cnt(1)] cnt(4)
    by linarith
  then show "block p sz (of_nat i) - p < 0x10000" by (simp add: word_less_nat_alt)
qed

lemma new_blocks_inj:
  assumes "layout p sz m" "m = 0x10000 div sz" "0x40 \<le> sz" "sz \<le> 0x4000"
  shows "inj_on (\<lambda>i. block p sz (of_nat i)) {..<unat m}"
proof (rule inj_onI)
  note cnt = superblock_count [OF assms(3,4), folded assms(2)]
  fix i j assume ij: "i \<in> {..<unat m}" "j \<in> {..<unat m}" "block p sz (of_nat i) = block p sz (of_nat j)"
  then have "(of_nat i :: u32) = of_nat j"
    using block_inj [OF assms(1), of "of_nat i" "of_nat j"] new_blocks(1) [OF assms, of i] new_blocks(1) [OF assms, of j]
    by simp
  then show "i = j" using of_nat_inj_small [of i j] ij cnt(1,3) by auto
qed

text \<open>The loop that links the blocks of a new superblock.\<close>

lemma link_blocks:
  assumes lay: "layout p sz m" "m = 0x10000 div sz" "0x40 \<le> sz" "sz \<le> 0x4000"
    and zero: "\<forall>i < unat m. words s (block p sz (of_nat i)) = Some 0"
  shows "\<exists>w. foreach (\<lambda>i. pwr (word_loc (p + sz * of_nat i)) (of_nat (i + 1))) [1..<unat (m - 1)] (s, []) =
      Some ((), (s\<lparr>words := w\<rparr>, [])) \<and>
    (\<forall>i < unat m. w (block p sz (of_nat i)) = Some (if 1 \<le> i \<and> Suc i < unat m then of_nat (Suc i) else 0)) \<and>
    (\<forall>a. words s a \<noteq> None \<longrightarrow> w a \<noteq> None)"
proof -
  let ?f = "\<lambda>i. p + sz * of_nat i" and ?is = "[1..<unat (m - 1)]"
  have f: "?f i = block p sz (of_nat i)" for i by (simp add: block_def mult.commute)
  have "m \<noteq> 0" using superblock_count [OF lay(3,4), folded lay(2)] by auto
  then have pm: "unat m = unat (m - 1) + 1" by (rule unat_pred)
  then have sub: "set ?is \<subseteq> {..<unat m}" by auto
  have inj: "inj_on ?f {..<unat m}" using new_blocks_inj [OF lay] unfolding f .
  note inj' = inj_on_subset [OF inj sub]
  let ?w = "put_words ?f (\<lambda>i. of_nat (i + 1)) ?is (words s)"
  have "\<forall>i \<in> set ?is. ?f i \<noteq> NULL \<and> words s (?f i) \<noteq> None"
    using new_blocks(2) [OF lay] zero sub unfolding f by auto
  from foreach_words [OF this, of "\<lambda>i. of_nat (i + 1)"]
  have loop: "foreach (\<lambda>i. pwr (word_loc (?f i)) (of_nat (i + 1))) ?is (s, []) = Some ((), (s\<lparr>words := ?w\<rparr>, []))" .
  have w: "?w (?f i) = Some (if i \<in> set ?is then of_nat (Suc i) else 0)" if "i < unat m" for i
  proof (cases "i \<in> set ?is")
    case True
    from put_words_at [OF inj' distinct_upt this] show ?thesis using True by simp
  next
    case False
    then have "?f i \<notin> ?f ` set ?is" using inj_on_image_mem_iff [OF inj, of i "set ?is"] that sub by blast
    from put_words_other [OF this] show ?thesis using False zero that by (auto simp: f)
  qed
  have "?w a \<noteq> None" if "words s a \<noteq> None" for a
  proof (cases "a \<in> ?f ` set ?is")
    case True
    then obtain i where "i \<in> set ?is" "a = ?f i" by auto
    then show ?thesis using put_words_at [OF inj' distinct_upt, of i] by simp
  next
    case False
    from put_words_other [OF this] show ?thesis using that by simp
  qed
  moreover have "i \<in> set ?is \<longleftrightarrow> 1 \<le> i \<and> Suc i < unat m" for i using pm by auto
  ultimately show ?thesis using loop w by (intro exI [of _ ?w]) (auto simp: f)
qed

text \<open>The credits of a new superblock: one block is handed out, the others are in the anchor or in the heap.\<close>

lemma new_credits:
  assumes "m = 0x10000 div sz" "0x40 \<le> sz" "sz \<le> 0x4000"
    and c: "c = min (m - 1) MAX_CREDITS - 1" and A: "A = anchor_create 1 ((m - 1) - (c + 1)) ANC_ACTIVE"
  shows "c < 64" "anchor_get_avail A = 1" "anchor_get_state A = ANC_ACTIVE"
    "unat c + 1 + unat (anchor_get_credits A) = unat m - 1"
proof -
  note cnt = superblock_count [OF assms(2,3), folded assms(1)]
  have "m \<noteq> 0" using cnt by auto
  then have pm: "unat m = unat (m - 1) + 1" by (rule unat_pred)
  have m3: "3 \<le> unat (m - 1)" "unat (m - 1) < 0x400" using pm cnt by auto
  have mn: "unat (min (m - 1) MAX_CREDITS) = min (unat (m - 1)) 64"
    by (simp add: min_def word_le_nat_alt MAX_CREDITS_def)
  then have "min (m - 1) MAX_CREDITS \<noteq> 0" using m3(1) by auto
  from unat_pred [OF this] have c1: "unat c + 1 = min (unat (m - 1)) 64" using mn c by simp
  then show "c < 64" by (simp add: word_less_nat_alt)
  have "c + 1 = min (m - 1) MAX_CREDITS" using c by simp
  then have u: "unat ((m - 1) - (c + 1)) = unat (m - 1) - (unat c + 1)"
    using c1 by (simp add: unat_sub word_le_nat_alt mn)
  then have "(m - 1) - (c + 1) < 0x400" using m3(2) unfolding word_less_nat_alt by simp
  then have g: "anchor_get_credits A = (m - 1) - (c + 1)" by (simp add: A and_mask10)
  show "anchor_get_avail A = 1" by (simp add: A and_mask10)
  show "anchor_get_state A = ANC_ACTIVE" by (simp add: A ANC_ACTIVE_def)
  show "unat c + 1 + unat (anchor_get_credits A) = unat m - 1" using c1 u pm unfolding g by simp
qed

text \<open>Linked blocks, the credits and a descriptor make an active superblock whose block 0 is in use.\<close>

lemma new_active:
  assumes lay: "layout p sz m" "m = 0x10000 div sz" "0x40 \<le> sz" "sz \<le> 0x4000"
    and w: "\<forall>i < unat m. w (block p sz (of_nat i)) = Some (if 1 \<le> i \<and> Suc i < unat m then of_nat (Suc i) else 0)"
    and t: "words t = w(p \<mapsto> desc)" "words t heap \<noteq> None" "words t desc \<noteq> None"
      "heap \<noteq> NULL" "desc \<noteq> NULL" "desc AND mask 6 = 0"
      "des_slice (descs t desc) \<noteq> NULL" "map_option s_ptr (slices t (des_slice (descs t desc))) = Some p"
      "des_size (descs t desc) = sz" "des_maxcount (descs t desc) = m" "des_anchor (descs t desc) = A"
      "ph_active (procheaps t heap) = ucast (active_create desc c)"
    and c: "c = min (m - 1) MAX_CREDITS - 1" and A: "A = anchor_create 1 ((m - 1) - (c + 1)) ANC_ACTIVE"
  shows "active_sb t heap desc p sz m [0] (map of_nat [1..<unat m])"
proof -
  let ?xs = "map of_nat [1..<unat m] :: u32 list"
  note cnt = superblock_count [OF lay(3,4), folded lay(2)] and A = new_credits [OF lay(2-4) c A]
  have small: "unat m \<le> 0x400" "1 \<le> unat m" using cnt by simp_all
  have p0: "p = block p sz 0" by (simp add: block_def)
  have "free_blocks w p sz (of_nat 1) ?xs"
    by (rule free_blocks_array) (use w small in auto)
  moreover have nz: "(0 :: u32) \<notin> set ?xs"
  proof
    assume "(0 :: u32) \<in> set ?xs"
    then obtain i where "(of_nat i :: u32) = of_nat 0" "1 \<le> i" "i < unat m" by auto
    then show False using of_nat_inj_small [of i 0] small(1) by simp
  qed
  moreover have lt: "\<forall>x \<in> set ([0] @ ?xs). x < m"
    using new_blocks(1) [OF lay] new_blocks(1) [OF lay, of 0] small(2) by auto
  ultimately have "free_blocks (w(p \<mapsto> desc)) p sz (of_nat 1) ?xs"
    using free_blocks_upd [OF lay(1), of 0 ?xs w desc "of_nat 1"] p0 by simp
  then have fb: "free_blocks (words t) p sz (anchor_get_avail (des_anchor (descs t desc))) ?xs"
    using A(2) t(1,11) by simp
  have "inj_on (of_nat :: nat \<Rightarrow> u32) (set [1..<unat m])"
    using of_nat_inj_small small(1) by (auto intro!: inj_onI)
  then have dist: "distinct ([0] @ ?xs)" using nz by (simp add: distinct_map)
  have len: "length ?xs = unat c + 1 + unat (anchor_get_credits (des_anchor (descs t desc)))"
    using A(4) t(11) by simp
  have "words t (block p sz 0) = Some desc" using t(1) p0 by simp
  then show ?thesis unfolding active_sb_def
    using t lay(1) A(1,3) fb dist lt len by (intro conjI exI [of _ c]) simp_all
qed

text \<open>
  The step of \<open>malloc_from_new_sb\<close> from a slice and a descriptor, wherever the descriptor comes from, to
  an active superblock.
\<close>

lemma new_superblock_from:
  assumes heap: "heap \<noteq> NULL" "words s heap \<noteq> None" "ph_active (procheaps s heap) = 0"
    and cls: "k = ph_sizeclass (procheaps s heap)" "k < length (malloc_sizeclasses s)"
      "sc_block_size (malloc_sizeclasses s ! k) = 0x10000" "sz = sc_size (malloc_sizeclasses s ! k)"
      "0x40 \<le> sz" "sz \<le> 0x4000"
    and p: "p \<noteq> NULL" "unat p + 0x10000 < 2 ^ 32"
    and slc: "slice_alloc_in E SLICE_TYPE_MALLOC SLICE_PROT_RWX 0x10000 (s, []) = Some (slc, (t1, []))" "slc \<noteq> NULL"
    and da: "desc_alloc E (t1, []) = Some (desc, (t2, []))" "desc \<noteq> NULL" "words t2 desc \<noteq> None" "desc AND mask 6 = 0"
    and t2: "procheaps t2 = procheaps s" "malloc_sizeclasses t2 = malloc_sizeclasses s" "load (s_ptr_loc slc) t2 = Some p"
      "\<forall>a. words s a \<noteq> None \<longrightarrow> words t2 a \<noteq> None" "\<forall>a. a - p < 0x10000 \<longrightarrow> words t2 a = Some 0"
  shows "\<exists>t. malloc_from_new_sb E min heap (s, []) = Some (data_ptr p sz 0, (t, [])) \<and>
    active_sb t heap desc p sz (0x10000 div sz) [0] (map of_nat [1..<0x10000 div unat sz]) \<and>
    malloc_procheaps t = malloc_procheaps t2"
proof -
  let ?m = "0x10000 div sz" and ?n = "(0x10000 :: nat) div unat sz"
  note cnt = superblock_count [OF cls(5,6)]
  have "unat p + ?n * unat sz < 2 ^ 32" using p(2) cnt(4) by linarith
  then have lay: "layout p sz ?m"
    using p(1) cls(5) cnt(1,3) by (auto simp: layout_def word_le_nat_alt)
  note lay' = lay refl cls(5,6)
  have "\<forall>i < unat ?m. words t2 (block p sz (of_nat i)) = Some 0"
    using new_blocks(3) [OF lay'] t2(5) by simp
  from link_blocks [OF lay' this] obtain w where
    w: "foreach (\<lambda>i. pwr (word_loc (p + sz * of_nat i)) (of_nat (i + 1))) [1..<unat (?m - 1)] (t2, []) =
        Some ((), (t2\<lparr>words := w\<rparr>, []))"
      "\<forall>i < unat ?m. w (block p sz (of_nat i)) = Some (if 1 \<le> i \<and> Suc i < unat ?m then of_nat (Suc i) else 0)"
      "\<And>a. words t2 a \<noteq> None \<Longrightarrow> w a \<noteq> None"
    by auto
  let ?c = "min (?m - 1) MAX_CREDITS - 1"
  let ?A = "anchor_create 1 ((?m - 1) - (?c + 1)) ANC_ACTIVE"
  let ?t = "t2\<lparr>descs := (descs t2)(desc := (descs t2 desc)\<lparr>des_slice := slc, des_heap := heap,
      des_size := sz, des_maxcount := ?m, des_anchor := ?A\<rparr>),
    procheaps := (procheaps t2)(heap := (procheaps t2 heap)\<lparr>ph_active := ucast (active_create desc ?c)\<rparr>),
    words := w(p \<mapsto> desc)\<rparr>"
  obtain x y z where xyz: "words s heap = Some y" "w heap = Some x" "w desc = Some z"
    using w(3) t2(4) heap(2) da(3) by blast
  obtain d where d: "slices t2 slc = Some d" "s_ptr d = p" using t2(3) by (auto split: if_splits)
  have "0 < unat ?m" unfolding cnt(1) using cnt(2) by linarith
  then have "w (block p sz (of_nat 0)) = Some 0" using w(2) by auto
  then have w0: "w p = Some 0" by (simp add: block_def)
  have sz: "sz \<noteq> 0" using cls(5) by auto
  have e: "?m - min (?m - 1) MAX_CREDITS - 1 = ?m - 1 - min (?m - 1) MAX_CREDITS"
    by (simp add: algebra_simps)
  have "malloc_from_new_sb E min heap (s, []) =
      (do { (_, c) \<leftarrow> foreach (\<lambda>i. pwr (word_loc (p + sz * of_nat i)) (of_nat (i + 1))) [1..<unat (?m - 1)] (t2, []);
       (_, c) \<leftarrow> pwr (des_slice_loc desc) slc c;
       (_, c) \<leftarrow> pwr (des_heap_loc desc) heap c;
       (_, c) \<leftarrow> pwr (des_size_loc desc) sz c;
       (_, c) \<leftarrow> pwr (des_maxcount_loc desc) ?m c;
       (_, c) \<leftarrow> pwr (anchor_loc desc) ?A c;
       (ok, c) \<leftarrow> atomic_compare_and_set_uint64 0 (ucast (active_create desc ?c)) (ph_active_loc heap) c;
       if ok then do {
         (_, c) \<leftarrow> pwr (word_loc p) desc c;
         Some (p + CACHE_LINE_SIZE, c) }
       else do {
         (_, c) \<leftarrow> slice_free slc c;
         (_, c) \<leftarrow> malloc_desc_retire desc c;
         Some (NULL, c) } })"
    using heap(1) xyz(1) cls(1,4) [symmetric] cls(2,3) slc d da(1) sz t2(1,2)
    by (simp add: malloc_from_new_sb_def prd_def Let_def e)
  also have "\<dots> = Some (data_ptr p sz 0, (?t, []))"
    unfolding w(1) using xyz w0 da(2) heap(1,3) p(1) t2(1)
    by (simp add: pwr_def cas_def atomic_cas_defs block_def)
  finally have run: "malloc_from_new_sb E min heap (s, []) = Some (data_ptr p sz 0, (?t, []))" .
  have "active_sb ?t heap desc p sz ?m [0] (map of_nat [1..<unat ?m])"
    by (rule new_active [OF lay' w(2) _ _ _ heap(1) da(2,4) _ _ _ _ _ _ refl refl]) (use xyz d slc(2) in simp_all)
  with run show ?thesis unfolding cnt(1) by (intro exI [of _ ?t]) simp
qed

text \<open>
  C11 [new_superblock]. On a heap without an active superblock, \<open>malloc_from_new_sb\<close> maps a
  slice of 64 kilobytes, hands out its block 0 and leaves an active superblock whose free list
  is all the other blocks in order, with every credit accounted for.
\<close>

theorem new_superblock:
  assumes heap: "heap \<noteq> NULL" "words s heap \<noteq> None" "ph_active (procheaps s heap) = 0"
    and cls: "k = ph_sizeclass (procheaps s heap)" "k < length (malloc_sizeclasses s)"
      "sc_block_size (malloc_sizeclasses s ! k) = 0x10000" "sz = sc_size (malloc_sizeclasses s ! k)"
      "0x40 \<le> sz" "sz \<le> 0x4000"
    and desc: "malloc_desc_avail s = desc" "desc \<noteq> NULL" "words s desc \<noteq> None" "desc AND mask 6 = 0"
    and free: "slice_free_is s (slc # ss)"
    and res: "total_limit s \<le> total_size s + 0x10000" "malloc_limit s \<le> malloc_size s + 0x10000"
    and p: "p = mapped_at (env_mmap E) 0x10000 SLICE_PROT_RWX s" "p \<noteq> NULL" "unat p + 0x10000 < 2 ^ 32"
  shows "\<exists>t. malloc_from_new_sb E min heap (s, []) = Some (data_ptr p sz 0, (t, [])) \<and>
    active_sb t heap desc p sz (0x10000 div sz) [0] (map of_nat [1..<0x10000 div unat sz])"
proof -
  have "type_limit_ok s SLICE_TYPE_MALLOC 0x10000" using res(2) by (simp add: type_limit_ok_def)
  then obtain t where t: "slice_alloc_in E SLICE_TYPE_MALLOC SLICE_PROT_RWX 0x10000 (s, []) = Some (slc, (t, []))" "slc \<noteq> NULL"
      "load (s_ptr_loc slc) t = Some p" "slice_state.more t = slice_state.more s" "words t = map_words p 0x10000 (words s)"
    by (rule slice_alloc_in_mapped [OF free res(1) _ p(1,2)])
  note same = more_malloc [OF t(4)]
  let ?t = "t\<lparr>malloc_desc_avail := des_next (descs t desc)\<rparr>"
  have w: "words t a \<noteq> None" if "words s a \<noteq> None" for a using that t(5) by (simp add: map_words_def)
  have da: "desc_alloc E (t, []) = Some (desc, (?t, []))"
    by (rule desc_alloc_available) (use same desc w in auto)
  have keep: "procheaps ?t = procheaps s" "malloc_sizeclasses ?t = malloc_sizeclasses s" "load (s_ptr_loc slc) ?t = Some p"
    "words ?t desc \<noteq> None" "\<forall>a. words s a \<noteq> None \<longrightarrow> words ?t a \<noteq> None" "\<forall>a. a - p < 0x10000 \<longrightarrow> words ?t a = Some 0"
    using same t(2,3,5) w desc(3) by (simp_all add: map_words_def)
  show ?thesis
    using new_superblock_from [OF heap cls p(2,3) t(1,2) da desc(2) keep(4) desc(4) keep(1-3,5,6)] by blast
qed

lemma new_superblock_witness:
  "\<exists>t. malloc_from_new_sb \<lparr>env_mmap = (\<lambda>_. 0x40000), env_failures = (\<lambda>_. 0), env_out = (\<lambda>_. 0)\<rparr> min 0x10070
      (ex_malloc\<lparr>slice_free_list := 0x80, malloc_desc_avail := 0x3000,
         procheaps := (\<lambda>_. \<lparr>ph_partial = NULL, ph_active = 0, ph_sizeclass = 7\<rparr>)\<rparr>, []) =
    Some (data_ptr 0x40000 0x100 0, (t, []))"
  (is "\<exists>t. malloc_from_new_sb ?E min 0x10070 (?s, []) = _")
proof -
  have fr: "slice_free_is ?s [0x80]" by (simp add: stack_is_def ex_malloc_def)
  have sc: "sc_size (malloc_sizeclasses ?s ! 7) = 0x100" "sc_block_size (malloc_sizeclasses ?s ! 7) = 0x10000"
    by (simp_all add: ex_malloc_def malloc_sizeclass_table_def)
  have ln: "7 < length (malloc_sizeclasses ?s)"
    by (simp add: ex_malloc_def malloc_sizeclass_table_def)
  have cl: "ph_sizeclass (procheaps ?s 0x10070) = 7" by simp
  have mp: "mapped_at (env_mmap ?E) 0x10000 SLICE_PROT_RWX ?s = 0x40000" by (simp add: mapped_at_def)
  have al: "(0x3000 :: u32) AND mask 6 = 0" by (simp add: mask_eq_exp_minus_1)
  have wd: "words ?s a \<noteq> None" for a by (simp add: ex_malloc_def)
  have lim: "total_limit ?s = 0" "malloc_limit ?s = 0" by (simp_all add: ex_malloc_def)
  have ph: "ph_active (procheaps ?s 0x10070) = 0" "malloc_desc_avail ?s = 0x3000" by simp_all
  have "\<exists>t. malloc_from_new_sb ?E min 0x10070 (?s, []) = Some (data_ptr 0x40000 0x100 0, (t, [])) \<and>
    active_sb t 0x10070 0x3000 0x40000 0x100 (0x10000 div 0x100) [0] (map of_nat [1..<0x10000 div unat (0x100 :: u32)])"
    by (rule new_superblock [where s = ?s and k = 7 and slc = "0x80" and ss = "[]"])
      (use fr sc ln cl mp al wd lim ph in \<open>simp_all del: malloc_state.simps block_queue_state.simps slice_state.simps\<close>)
  then show ?thesis by blast
qed

end
