(* ===== verification/Malloc_Start.thy ===== *)
theory Malloc_Start
  imports Superblock
begin

unbundle bit_operations_syntax

section \<open>The state malloc starts in\<close>

text \<open>
  \<open>mm_malloc_init\<close> leaves every processor heap without superblocks and 32 empty block queues
  whose nodes come from one new slice: what the theorems about superblocks and queues need.
\<close>

subsection \<open>The first slice of queue nodes\<close>

definition node_at :: "ptr \<Rightarrow> nat \<Rightarrow> ptr" where "node_at p i = p + 8 * of_nat i"

lemma node_at_laws:
  assumes "p \<noteq> NULL" "unat p + 0x10000 \<le> 2 ^ 32" "i < 8192"
  shows "unat (node_at p i) = unat p + 8 * i" "node_at p i \<noteq> NULL" "node_at p i - p < 0x10000"
proof -
  have u: "unat (8 * of_nat i :: u32) = 8 * i"
    using assms(3) by (simp add: unat_word_ariths unat_of_nat)
  then show a: "unat (node_at p i) = unat p + 8 * i"
    using assms(2,3) by (simp add: unat_word_ariths node_at_def)
  moreover have "0 < unat p" using assms(1) by (simp add: unat_gt_0)
  ultimately have "0 < unat (node_at p i)" by simp
  then show "node_at p i \<noteq> NULL" by auto
  show "node_at p i - p < 0x10000" using u assms(3) by (simp add: word_less_nat_alt node_at_def)
qed

lemma node_at_inj:
  assumes "p \<noteq> NULL" "unat p + 0x10000 \<le> 2 ^ 32"
  shows "inj_on (node_at p) {..<8192}"
proof (rule inj_onI)
  fix i j assume ij: "i \<in> {..<8192}" "j \<in> {..<8192}" "node_at p i = node_at p j"
  then have "unat p + 8 * i = unat p + 8 * j"
    using node_at_laws(1) [OF assms] by (metis lessThan_iff)
  then show "i = j" by simp
qed

lemma more_queue:
  fixes s t :: "'a block_queue_state_scheme"
  assumes "slice_state.more t = slice_state.more s"
  shows "qnodes t = qnodes s" "queues t = queues s" "lf_block_queue_nodes t = lf_block_queue_nodes s"
    "block_queue_state.more t = block_queue_state.more s"
  using assms by (cases s; cases t; simp)+

text \<open>The system call that maps a readable, writable and executable slice of \<open>n\<close> bytes.\<close>

definition map_call :: "u32 \<Rightarrow> os_call" where
  "map_call n = Mmap n (prot_map ! slice_prot_index SLICE_PROT_RWX)"

text \<open>With no free node, the first allocation maps a slice and frees all its nodes but the first.\<close>

lemma alloc_node_slice:
  fixes s :: "'a block_queue_state_scheme"
  assumes none: "lf_block_queue_nodes s = NULL" and free: "slice_free_is s (slc # ss)"
    and res: "total_limit s \<le> total_size s + 0x10000" "malloc_limit s \<le> malloc_size s + 0x10000"
    and p: "p = mapped_at (env_mmap E) 0x10000 SLICE_PROT_RWX s" "p \<noteq> NULL" "unat p + 0x10000 \<le> 2 ^ 32"
  shows "\<exists>t. lf_block_queue_alloc_node E (s, []) = Some (p, (t, [])) \<and>
    stack_is bq_nodes_loc bn_next_loc t (map (node_at p) [1..<8192]) \<and>
    queues t = queues s \<and> block_queue_state.more t = block_queue_state.more s \<and>
    words t = map_words p 0x10000 (words s) \<and> slice_free_is t ss \<and>
    total_limit t = total_limit s \<and> malloc_limit t = malloc_limit s \<and> os_log t = map_call 0x10000 # os_log s"
proof -
  have "type_limit_ok s SLICE_TYPE_MALLOC 0x10000" using res(2) by (simp add: type_limit_ok_def)
  then obtain t where t: "slice_alloc_in E SLICE_TYPE_MALLOC SLICE_PROT_RWX 0x10000 (s, []) = Some (slc, (t, []))"
      "load (s_size_loc slc) t = Some 0x10000" "load (s_ptr_loc slc) t = Some p"
      "words t = map_words p 0x10000 (words s)" "slice_state.more t = slice_state.more s" "slc \<noteq> NULL"
      "slice_free_is t ss" "total_limit t = total_limit s" "malloc_limit t = malloc_limit s"
      "os_log t = map_call 0x10000 # os_log s"
    unfolding map_call_def by (rule slice_alloc_in_mapped [OF free res(1) _ p(1,2)])
  note same = more_queue [OF t(5)]
  have mapped: "load (bn_next_loc (node_at p i)) t \<noteq> None" if "i < 8192" for i
    using node_at_laws(2,3) [OF p(2,3) that] t(4) by (simp add: map_words_def)
  have inj: "inj_on (node_at p) (set [1..<8192])"
    by (rule inj_on_subset [OF node_at_inj [OF p(2,3)]]) auto
  let ?I = "\<lambda>w. \<exists>h. w = t\<lparr>qnodes := h\<rparr>"
  have I: "?I (fst (t, []))" and keep: "?I w \<Longrightarrow> ?I (store (bn_next_loc q) v w)"
    for q v and w :: "'a block_queue_state_scheme"
    by (auto intro: exI [of _ "qnodes t"])
  have ld: "load (bn_next_loc (node_at p i)) (fst (t, [])) \<noteq> None" if "i \<in> set [1..<8192]" for i
    using mapped [of i] that by simp
  obtain u where u: "foreach (\<lambda>i. pwr (bn_next_loc (node_at p i)) (node_at p (i + 1))) [1..<8192] (t, [])
      = Some ((), (u, []))" "?I u"
    "\<And>i. 1 \<le> i \<Longrightarrow> i < 8192 \<Longrightarrow> load (bn_next_loc (node_at p i)) u = Some (node_at p (i + 1))"
    using bq_stack.link_loop [where f = "node_at p" and g = "\<lambda>i. node_at p (i + 1)" and
        c = "(t, [])" and I = ?I, OF inj distinct_upt ld I keep]
    by (force simp: returns_ex simp del: mem_loc_simps)
  have m: "load (bn_next_loc (node_at p 8191)) u \<noteq> None" using u(3) [of 8191] by simp
  let ?u = "store (bn_next_loc (node_at p 8191)) NULL u"
  let ?t = "?u\<lparr>lf_block_queue_nodes := node_at p 1\<rparr>"
  have nx: "bnext ?t q = (if q = node_at p 8191 then Some NULL else load (bn_next_loc q) u)" for q
  proof -
    have "bnext ?t q = load (bn_next_loc q) ?u" by (simp add: bnext_def)
    then show ?thesis using bq_stack.nx_store [OF m, of q NULL] by (simp only:)
  qed
  have nxt: "bnext ?t (node_at p i) = Some (node_at p (Suc i)) \<and> node_at p i \<noteq> NULL" if "1 \<le> i" "i < 8191" for i
  proof -
    have "node_at p i \<noteq> node_at p 8191"
      using inj_onD [OF node_at_inj [OF p(2,3)], of i 8191] that by auto
    then show ?thesis using nx [of "node_at p i"] u(3) [of i] that node_at_laws(2) [OF p(2,3), of i] by simp
  qed
  have "chain (bnext ?t) (node_at p 1) (map (node_at p) [1..<8191]) (node_at p 8191)"
    using nxt by (intro chain_array) auto
  moreover have "chain (bnext ?t) (node_at p 8191) [node_at p 8191] NULL"
    using nx [of "node_at p 8191"] node_at_laws(2) [OF p(2,3), of 8191] by simp
  ultimately have "chain (bnext ?t) (node_at p 1) (map (node_at p) [1..<8191] @ [node_at p 8191]) NULL"
    unfolding chain_append by blast
  moreover have "[1..<8192] = [1..<8191] @ [8191 :: nat]"
    using upt_Suc_append [of 1 8191] by (simp only: numeral_nat(1) eval_nat_numeral) simp
  ultimately have "chain (bnext ?t) (node_at p 1) (map (node_at p) [1..<8192]) NULL"
    by (simp only: map_append list.map)
  then have st: "stack_is bq_nodes_loc bn_next_loc ?t (map (node_at p) [1..<8192])"
    unfolding free_is_bnext by simp
  have step: "p + (8 + 8 * of_nat i) = node_at p (Suc i)" "p + 65528 = node_at p 8191" for i
    by (simp_all add: node_at_def)
  have num: "unat (0x10000 div 8 :: u32) = 8192" by simp
  obtain y where y: "load (bn_next_loc (node_at p 8191)) u = Some y" using m by blast
  have av: "lf_block_queue_nodes (store (bn_next_loc q) NULL u) = NULL" for q using u(2) none same(3) by auto
  have "lf_block_queue_try_alloc_node E (s, []) = Some (\<lparr>o_value = p, o_valid = True\<rparr>, (?t, []))"
    using none t(1-3,6) u(1) y
    by (simp add: lf_block_queue_try_alloc_node_def rd_def prd_def pwr_def cas_def atomic_cas_defs Let_def
        node_at_def [symmetric] step num av del: mem_loc_simps field_loc_simps)
  then have "lf_block_queue_alloc_node E (s, []) = Some (p, (?t, []))"
    by (simp add: lf_block_queue_alloc_node_def retry_valid_def retry.simps)
  moreover have "queues ?t = queues s" "block_queue_state.more ?t = block_queue_state.more s"
    "words ?t = map_words p 0x10000 (words s)" "total_limit ?t = total_limit s" "malloc_limit ?t = malloc_limit s"
    "os_log ?t = map_call 0x10000 # os_log s"
    using u(2) same(2,4) t(4,8-10) by auto
  moreover have "slice_free_is ?t ss" using t(7) u(2) by (subst slice_free_is_cong [of _ t]) auto
  ultimately show ?thesis using st by blast
qed

subsection \<open>Starting a queue\<close>

text \<open>A queue with the sentinel \<open>f\<close> as \<open>lf_block_queue_init\<close> leaves it.\<close>

definition started :: "ptr \<Rightarrow> ptr \<Rightarrow> u32 \<Rightarrow> 'a block_queue_state_scheme \<Rightarrow> 'a block_queue_state_scheme" where
  "started fifo f execs s = s\<lparr>lf_block_queue_hptrs := execs, lf_block_queue_hptr_threshold := execs * 2,
     qnodes := (qnodes s)(f := \<lparr>lfn_next = NULL, lfn_data = NULL\<rparr>),
     queues := (queues s)(fifo := \<lparr>lf_head = f, lf_tail = f,
       lf_hptrs = replicate (unat execs) \<lparr>bhp_rcount = 0, bhp_rlist = NULL, bhp_ptrs = (\<lambda>_. NULL)\<rparr>\<rparr>)\<rparr>"

definition new_queue :: "ptr \<Rightarrow> ptr \<Rightarrow> u32 \<Rightarrow> 'a block_queue_state_scheme \<Rightarrow> bool" where
  "new_queue fifo f execs s \<longleftrightarrow> fifo \<noteq> NULL \<and> f \<noteq> NULL \<and> words s fifo \<noteq> None \<and> words s f \<noteq> None \<and>
     qnodes s f = \<lparr>lfn_next = NULL, lfn_data = NULL\<rparr> \<and> queues s fifo = \<lparr>lf_head = f, lf_tail = f,
       lf_hptrs = replicate (unat execs) \<lparr>bhp_rcount = 0, bhp_rlist = NULL, bhp_ptrs = (\<lambda>_. NULL)\<rparr>\<rparr>"

lemma queue_init_started:
  assumes "lf_block_queue_alloc_node E (s, []) = Some (f, (t, []))" "f \<noteq> NULL" "words t f \<noteq> None"
    "fifo \<noteq> NULL" "words t fifo \<noteq> None"
  shows "lf_block_queue_init E fifo execs (s, []) = Some ((), (started fifo f execs t, []))"
  using assms by (cases "qnodes t f"; cases "queues t fifo") (auto simp: lf_block_queue_init_def pwr_def started_def)

lemma new_queue_started:
  "words t f \<noteq> None \<Longrightarrow> words t fifo \<noteq> None \<Longrightarrow> f \<noteq> NULL \<Longrightarrow> fifo \<noteq> NULL \<Longrightarrow> new_queue fifo f execs (started fifo f execs t)"
  "new_queue q g execs t \<Longrightarrow> q \<noteq> fifo \<Longrightarrow> g \<noteq> f \<Longrightarrow> new_queue q g execs (started fifo f execs t)"
  by (auto simp: new_queue_def started_def)

text \<open>Such a queue is empty for every executor, and has the free nodes at its disposal.\<close>

lemma new_queue_holds:
  assumes "new_queue fifo f execs s" "stack_is bq_nodes_loc bn_next_loc s free" "f \<notin> set free"
    and "lf_block_queue_hptrs s = execs" "lf_block_queue_hptr_threshold s = execs * 2" "unat execs < 2 ^ 30"
    and "exec < execs"
  shows "bq_holds fifo exec s (length free) []"
proof -
  have "chain (bnext s) (lf_block_queue_nodes s) free NULL" using assms(2) by (simp only: free_is_bnext)
  then have "distinct free" by (rule chain_distinct)
  moreover have "unat exec < unat execs" using assms(7) by (simp add: word_less_nat_alt)
  ultimately have "bq_ok s fifo exec free [] f [] []"
    using assms by (auto simp: bq_ok_def bq_pool_def retired_def bq_live_def new_queue_def ms_queue_def)
  then show ?thesis by (auto simp: bq_holds_def)
qed

subsection \<open>The layout of the static memory\<close>

definition heaps_size :: "u32 \<Rightarrow> u32" where
  "heaps_size execs = cache_align (16 * execs * of_nat NUM_SIZE_CLASSES)"

definition queue_size :: "u32 \<Rightarrow> u32" where "queue_size execs = cache_align (12 + execs * 16)"

definition queue_at :: "ptr \<Rightarrow> u32 \<Rightarrow> nat \<Rightarrow> ptr" where
  "queue_at mem execs i = mem + heaps_size execs + of_nat i * queue_size execs"

lemma cache_align_bounds:
  assumes "sz \<noteq> 0" "unat sz < 2 ^ 31"
  shows "unat sz \<le> unat (cache_align sz)" "unat (cache_align sz) \<le> unat sz + 31"
proof -
  let ?r = "(sz - 1) AND 31"
  have r: "unat ?r \<le> 31" using word_and_le1 [of "sz - 1" 31] by (simp add: word_le_nat_alt)
  have s1: "unat (sz - 1) = unat sz - 1" using assms(1) by (simp add: unat_minus_one)
  have "sz - 1 - ?r = (sz - 1) AND NOT ?r"
    by (rule disjunctive_diff_eq_and_not) (simp add: bit_eq_iff bit_simps)
  also have "\<dots> = (sz - 1) AND NOT 31" by (auto simp: bit_eq_iff bit_simps)
  finally have k: "(sz - 1) AND NOT 31 = (sz - 1) - ?r" by simp
  have "?r \<le> sz - 1" by (rule word_and_le2)
  then have n: "unat ((sz - 1) AND NOT 31) = unat sz - 1 - unat ?r"
    unfolding k by (simp add: unat_sub s1)
  have "0 < unat sz" using assms(1) by (simp add: unat_gt_0)
  have "unat ?r \<le> unat sz - 1" using \<open>?r \<le> sz - 1\<close> s1 by (simp add: word_le_nat_alt)
  have "unat (cache_align sz) = unat sz - 1 - unat ?r + 32"
    using n assms(2) by (simp add: cache_align_def unat_word_ariths)
  then show "unat sz \<le> unat (cache_align sz)" "unat (cache_align sz) \<le> unat sz + 31"
    using r \<open>0 < unat sz\<close> \<open>unat ?r \<le> unat sz - 1\<close> by simp_all
qed

lemma start_sizes:
  assumes "execs \<noteq> 0" "execs \<le> 0x10000"
  shows "512 * unat execs \<le> unat (heaps_size execs)" "0 < unat (queue_size execs)"
    "unat (heaps_size execs) + 32 * unat (queue_size execs) < 2 ^ 32"
    "unat (mm_malloc_request execs) = unat (heaps_size execs) + 32 * unat (queue_size execs)"
proof -
  have e: "0 < unat execs" "unat execs \<le> 0x10000" using assms by (simp_all add: unat_gt_0 word_le_nat_alt)
  have h: "unat (16 * execs * of_nat NUM_SIZE_CLASSES) = 512 * unat execs"
    and q: "unat (12 + execs * 16) = 12 + 16 * unat execs"
    using e by (simp_all add: unat_word_ariths NUM_SIZE_CLASSES_def)
  have nz: "16 * execs * of_nat NUM_SIZE_CLASSES \<noteq> 0" "12 + execs * 16 \<noteq> 0"
    using h q e by (metis mult_is_0 not_less_zero unat_0 zero_neq_numeral, metis add_is_0 unat_0 zero_neq_numeral)
  note H = cache_align_bounds [OF nz(1), folded heaps_size_def, unfolded h]
    and Q = cache_align_bounds [OF nz(2), folded queue_size_def, unfolded q]
  have H': "512 * unat execs \<le> unat (heaps_size execs)" "unat (heaps_size execs) \<le> 512 * unat execs + 31"
    using H e by simp_all
  have Q': "12 + 16 * unat execs \<le> unat (queue_size execs)" "unat (queue_size execs) \<le> 43 + 16 * unat execs"
    using Q e by simp_all
  show "512 * unat execs \<le> unat (heaps_size execs)" by (rule H'(1))
  show "0 < unat (queue_size execs)" using Q'(1) by linarith
  show b: "unat (heaps_size execs) + 32 * unat (queue_size execs) < 2 ^ 32" using H'(2) Q'(2) e(2) by simp
  have "mm_malloc_request execs = heaps_size execs + queue_size execs * 32"
    by (simp add: mm_malloc_request_def heaps_size_def queue_size_def Let_def NUM_SIZE_CLASSES_def)
  then show "unat (mm_malloc_request execs) = unat (heaps_size execs) + 32 * unat (queue_size execs)"
    using b by (simp add: unat_word_ariths mult.commute)
qed

text \<open>The queues and the heaps lie apart from each other in the memory asked for.\<close>

lemma queue_at_laws:
  assumes "execs \<noteq> 0" "execs \<le> 0x10000" "i < 32"
  shows "queue_at mem execs i - mem < mm_malloc_request execs"
    "j < 32 \<Longrightarrow> queue_at mem execs i = queue_at mem execs j \<Longrightarrow> i = j"
proof -
  note b = start_sizes [OF assms(1,2)]
  have off: "unat (heaps_size execs + of_nat k * queue_size execs) = unat (heaps_size execs) + k * unat (queue_size execs)"
    if "k < 32" for k
  proof -
    have "k * unat (queue_size execs) \<le> 32 * unat (queue_size execs)" using that by simp
    then have "unat (heaps_size execs) + k * unat (queue_size execs) < 2 ^ 32" using b(3) by linarith
    then show ?thesis using that by (simp add: unat_word_ariths unat_of_nat)
  qed
  have "i * unat (queue_size execs) < 32 * unat (queue_size execs)" using assms(3) b(2) by simp
  then show "queue_at mem execs i - mem < mm_malloc_request execs"
    using off [OF assms(3)] b(4) by (simp add: queue_at_def word_less_nat_alt add.assoc)
  show "i = j" if "j < 32" "queue_at mem execs i = queue_at mem execs j"
  proof -
    have "heaps_size execs + of_nat i * queue_size execs = heaps_size execs + of_nat j * queue_size execs"
      using that(2) by (simp add: queue_at_def add.assoc)
    then have "unat (heaps_size execs) + i * unat (queue_size execs) = unat (heaps_size execs) + j * unat (queue_size execs)"
      by (simp only: off [OF assms(3), symmetric] off [OF that(1), symmetric])
    then show "i = j" using b(2) by simp
  qed
qed

lemma heap_at_laws:
  assumes "execs \<noteq> 0" "execs \<le> 0x10000" "i < unat execs" "k < 32"
  shows "procheap_at mem (of_nat i) (of_nat k) - mem < mm_malloc_request execs"
    "j < unat execs \<Longrightarrow> l < 32 \<Longrightarrow> procheap_at mem (of_nat i) (of_nat k) = procheap_at mem (of_nat j) (of_nat l) \<Longrightarrow>
      i = j \<and> k = l"
proof -
  note b = start_sizes [OF assms(1,2)]
  have e: "unat execs \<le> 0x10000" using assms(2) by (simp add: word_le_nat_alt)
  have off: "unat ((of_nat a * 32 + of_nat c) * 16 :: u32) = (a * 32 + c) * 16" if "a < unat execs" "c < 32" for a c
    using that e by (simp add: unat_word_ariths unat_of_nat)
  have "(i * 32 + k) * 16 < 512 * unat execs" using assms(3,4) by simp
  then show "procheap_at mem (of_nat i) (of_nat k) - mem < mm_malloc_request execs"
    using off [OF assms(3,4)] b(1,4) by (simp add: procheap_at_def NUM_SIZE_CLASSES_def word_less_nat_alt)
  show "i = j \<and> k = l" if "j < unat execs" "l < 32" "procheap_at mem (of_nat i) (of_nat k) = procheap_at mem (of_nat j) (of_nat l)"
  proof -
    have "(of_nat i * 32 + of_nat k) * 16 = ((of_nat j * 32 + of_nat l) * 16 :: u32)"
      using that(3) by (simp add: procheap_at_def NUM_SIZE_CLASSES_def)
    then have "(i * 32 + k) * 16 = (j * 32 + l) * 16"
      by (simp only: off [OF assms(3,4), symmetric] off [OF that(1,2), symmetric])
    then have eq: "i * 32 + k = j * 32 + l" by simp
    have "i = (i * 32 + k) div 32" "j = (j * 32 + l) div 32" using assms(4) that(2) by simp_all
    then have "i = j" using eq by metis
    then show ?thesis using eq by simp
  qed
qed

subsection \<open>The two loops\<close>

definition empty_heap :: "nat \<Rightarrow> procheap_t" where
  "empty_heap k = \<lparr>ph_partial = NULL, ph_active = 0, ph_sizeclass = k\<rparr>"

lemma empty_heap_written:
  assumes "h \<noteq> NULL" "words s h \<noteq> None"
  shows "do { (_, c) \<leftarrow> pwr (ph_partial_loc h) NULL (s\<lparr>procheaps := ph\<rparr>, []);
      (_, c) \<leftarrow> pwr (ph_active_loc h) 0 c; pwr (ph_sizeclass_loc h) k c } =
    Some ((), (s\<lparr>procheaps := ph(h := empty_heap k)\<rparr>, []))"
  using assms by (cases "ph h") (auto simp: pwr_def empty_heap_def)

lemma heaps_loop:
  fixes s :: "'a malloc_state_scheme"
  assumes e: "execs \<noteq> 0" "execs \<le> 0x10000"
    and mem: "\<forall>a. a - mem < mm_malloc_request execs \<longrightarrow> a \<noteq> NULL \<and> words s a \<noteq> None"
  shows "returns (foreach (\<lambda>i. foreach (\<lambda>j c. do {
        let heap = procheap_at mem (of_nat i) (of_nat j);
        (_, c) \<leftarrow> pwr (ph_partial_loc heap) NULL c;
        (_, c) \<leftarrow> pwr (ph_active_loc heap) 0 c;
        pwr (ph_sizeclass_loc heap) j c }) [0..<NUM_SIZE_CLASSES]) [0..<unat execs] (s, []))
    (\<lambda>_ c. \<exists>ph. c = (s\<lparr>procheaps := ph\<rparr>, []) \<and>
      (\<forall>i < unat execs. \<forall>k < 32. ph (procheap_at mem (of_nat i) (of_nat k)) = empty_heap k))"
proof -
  let ?h = "\<lambda>i k. procheap_at mem (of_nat i) (of_nat k)"
  let ?P = "\<lambda>i (c :: 'a malloc_state_scheme conc). \<exists>ph. c = (s\<lparr>procheaps := ph\<rparr>, []) \<and> (\<forall>a < i. \<forall>l < 32. ph (?h a l) = empty_heap l)"
  show ?thesis
  proof (rule foreach_rule [where P = ?P])
    fix i and c :: "'a malloc_state_scheme conc"
    assume i: "i < unat execs" and P: "?P i c"
    let ?Q = "\<lambda>k (c :: 'a malloc_state_scheme conc). \<exists>ph. c = (s\<lparr>procheaps := ph\<rparr>, []) \<and> (\<forall>a < i. \<forall>l < 32. ph (?h a l) = empty_heap l) \<and>
      (\<forall>l < k. ph (?h i l) = empty_heap l)"
    have "returns (foreach (\<lambda>j c. do {
        let heap = ?h i j;
        (_, c) \<leftarrow> pwr (ph_partial_loc heap) NULL c;
        (_, c) \<leftarrow> pwr (ph_active_loc heap) 0 c;
        pwr (ph_sizeclass_loc heap) j c }) [0..<NUM_SIZE_CLASSES] c) (\<lambda>_ c. ?Q NUM_SIZE_CLASSES c)"
    proof (rule foreach_rule [where P = ?Q])
      fix k and d :: "'a malloc_state_scheme conc"
      assume "k < NUM_SIZE_CLASSES" and Q: "?Q k d"
      then have k: "k < 32" by (simp add: NUM_SIZE_CLASSES_def)
      from Q obtain ph where ph: "d = (s\<lparr>procheaps := ph\<rparr>, [])" "\<forall>a < i. \<forall>l < 32. ph (?h a l) = empty_heap l"
        "\<forall>l < k. ph (?h i l) = empty_heap l" by blast
      have "?h i k \<noteq> NULL" "words s (?h i k) \<noteq> None" using mem heap_at_laws(1) [OF e i k, of mem] by blast+
      note w = empty_heap_written [OF this, of ph k]
      have upd: "(ph(?h i k := empty_heap k)) (?h a l) = empty_heap l" if "a < i \<and> l < 32 \<or> a = i \<and> l < Suc k" for a l
      proof (cases "?h a l = ?h i k")
        case True
        have "a < unat execs" "l < 32" using that i k by auto
        from heap_at_laws(2) [OF e this i k True] show ?thesis by simp
      next
        case False
        then have "\<not> (a = i \<and> l = k)" by auto
        then have "a < i \<and> l < 32 \<or> a = i \<and> l < k" using that by auto
        then show ?thesis using False ph(2,3) by auto
      qed
      show "returns (do { let heap = ?h i k;
          (_, c) \<leftarrow> pwr (ph_partial_loc heap) NULL d;
          (_, c) \<leftarrow> pwr (ph_active_loc heap) 0 c;
          pwr (ph_sizeclass_loc heap) k c }) (\<lambda>_ c. ?Q (Suc k) c)"
        unfolding Let_def ph(1) w returns_Some fst_conv snd_conv 
        by (rule exI [of _ "ph(?h i k := empty_heap k)"]) (use upd in blast)
    qed (use P in auto)
    then show "returns (foreach (\<lambda>j c. do {
        let heap = ?h i j;
        (_, c) \<leftarrow> pwr (ph_partial_loc heap) NULL c;
        (_, c) \<leftarrow> pwr (ph_active_loc heap) 0 c;
        pwr (ph_sizeclass_loc heap) j c }) [0..<NUM_SIZE_CLASSES] c) (\<lambda>_ c. ?P (Suc i) c)"
      by (rule returns_mono) (auto simp: NUM_SIZE_CLASSES_def less_Suc_eq)
  qed (auto intro!: exI [of _ "procheaps s"])
qed

text \<open>Further allocations take the first free node.\<close>

lemma alloc_node_pop:
  assumes "stack_is bq_nodes_loc bn_next_loc s (f # free)"
  shows "\<exists>y. lf_block_queue_alloc_node E (s, []) = Some (f, (s\<lparr>lf_block_queue_nodes := y\<rparr>, [])) \<and>
    f \<noteq> NULL \<and> words s f \<noteq> None \<and> f \<notin> set free \<and>
    stack_is bq_nodes_loc bn_next_loc (s\<lparr>lf_block_queue_nodes := y\<rparr>) free"
proof -
  have c: "chain (bnext s) (lf_block_queue_nodes s) (f # free) NULL" using assms by (simp only: free_is_bnext)
  then obtain y where y: "lf_block_queue_nodes s = f" "f \<noteq> NULL" "bnext s f = Some y" "chain (bnext s) y free NULL"
    by (auto split: option.splits)
  have "bnext (s\<lparr>lf_block_queue_nodes := y\<rparr>) = bnext s" by (simp add: bnext_def fun_eq_iff)
  then have "stack_is bq_nodes_loc bn_next_loc (s\<lparr>lf_block_queue_nodes := y\<rparr>) free"
    using y(4) by (simp add: free_is_bnext)
  moreover have "lf_block_queue_alloc_node E (s, []) = Some (f, (s\<lparr>lf_block_queue_nodes := y\<rparr>, []))"
    using y by (simp add: lf_block_queue_alloc_node_def retry_valid_def retry.simps
        lf_block_queue_try_alloc_node_def rd_def cas_def atomic_cas_defs Let_def bnext_def split: if_splits)
  moreover have "words s f \<noteq> None" using y(2,3) by (auto simp: bnext_def split: if_splits)
  moreover have "f \<notin> set free" using chain_distinct [OF c] by simp
  ultimately show ?thesis using y(2) by blast
qed

lemma stack_started:
  "f \<notin> set free \<Longrightarrow> stack_is bq_nodes_loc bn_next_loc t free \<Longrightarrow>
   stack_is bq_nodes_loc bn_next_loc (started fifo f execs t) free"
proof -
  assume f: "f \<notin> set free" and t: "stack_is bq_nodes_loc bn_next_loc t free"
  have "chain (bnext (started fifo f execs t)) (lf_block_queue_nodes t) free NULL = chain (bnext t) (lf_block_queue_nodes t) free NULL"
    by (rule chain_cong) (use f in \<open>auto simp: bnext_def started_def\<close>)
  moreover have "lf_block_queue_nodes (started fifo f execs t) = lf_block_queue_nodes t" by (simp add: started_def)
  ultimately show ?thesis using t by (simp only: free_is_bnext)
qed

text \<open>
  The state after the queues of the first \<open>j\<close> classes have been started, with the descriptors \<open>ss\<close> of
  slices still free.
\<close>

definition unspent :: "ptr list \<Rightarrow> 'a malloc_state_scheme \<Rightarrow> 'a malloc_state_scheme \<Rightarrow> bool" where
  "unspent ss s t \<longleftrightarrow> slice_free_is t ss \<and> total_limit t = total_limit s \<and> malloc_limit t = malloc_limit s \<and>
     os_log t = map_call 0x10000 # os_log s \<and>
     malloc_desc_avail t = malloc_desc_avail s \<and> map sc_size (malloc_sizeclasses t) = map sc_size (malloc_sizeclasses s) \<and>
     map sc_block_size (malloc_sizeclasses t) = map sc_block_size (malloc_sizeclasses s)"

lemma unspent_started [simp]: "unspent ss s (started fifo f execs t) = unspent ss s t"
  using slice_free_is_cong [of "started fifo f execs t" t ss] by (simp add: unspent_def started_def)

lemma unspent_nodes [simp]: "unspent ss s (t\<lparr>lf_block_queue_nodes := y\<rparr>) = unspent ss s t"
  using slice_free_is_cong [of "t\<lparr>lf_block_queue_nodes := y\<rparr>" t ss] by (simp add: unspent_def)

lemma map_partial [simp]:
  "map sc_size (cs[j := (cs ! j)\<lparr>sc_partial := q\<rparr>]) = map sc_size cs"
  "map sc_block_size (cs[j := (cs ! j)\<lparr>sc_partial := q\<rparr>]) = map sc_block_size cs"
  by (cases "j < length cs"; auto intro!: nth_equalityI simp: nth_list_update)+

lemma unspent_partial [simp]:
  "unspent ss s (t\<lparr>malloc_sizeclasses := (malloc_sizeclasses t)[j := (malloc_sizeclasses t ! j)\<lparr>sc_partial := q\<rparr>]\<rparr>) =
    unspent ss s t" (is "unspent ss s ?t = _")
  using slice_free_is_cong [of ?t t ss] by (simp add: unspent_def)

definition queues_up ::
  "u32 \<Rightarrow> ptr \<Rightarrow> ptr \<Rightarrow> ptr list \<Rightarrow> 'a malloc_state_scheme \<Rightarrow> nat \<Rightarrow> 'a malloc_state_scheme \<Rightarrow> bool" where
  "queues_up execs mem p ss s j t \<longleftrightarrow> unspent ss s t \<and> procheaps t = procheaps s \<and> malloc_procheaps t = malloc_procheaps s \<and>
     length (malloc_sizeclasses t) = length (malloc_sizeclasses s) \<and> (\<forall>a. words s a \<noteq> None \<longrightarrow> words t a \<noteq> None) \<and>
     (\<forall>a. words t a \<noteq> None \<longrightarrow> words s a \<noteq> None \<or> a - p < 0x10000) \<and>
     stack_is bq_nodes_loc bn_next_loc t (map (node_at p) [j..<8192]) \<and>
     lf_block_queue_hptrs t = execs \<and> lf_block_queue_hptr_threshold t = execs * 2 \<and>
     (\<forall>i < j. new_queue (queue_at mem execs i) (node_at p i) execs t \<and>
       sc_partial (malloc_sizeclasses t ! i) = queue_at mem execs i)"

lemma queues_up_heaps:
  "queues_up execs mem p ss s j t \<Longrightarrow> procheaps t = procheaps s \<and> malloc_procheaps t = malloc_procheaps s"
  by (simp add: queues_up_def)

lemma queue_started:
  fixes s t :: "'a malloc_state_scheme"
  assumes e: "execs \<noteq> 0" "execs \<le> 0x10000" and j: "j < 32" and p: "p \<noteq> NULL" "unat p + 0x10000 \<le> 2 ^ 32"
    and q: "queue_at mem execs j \<noteq> NULL" "words t (queue_at mem execs j) \<noteq> None"
    and t: "procheaps t = procheaps s" "malloc_procheaps t = malloc_procheaps s" "\<forall>a. words s a \<noteq> None \<longrightarrow> words t a \<noteq> None"
      "length (malloc_sizeclasses t) = length (malloc_sizeclasses s)"
      "stack_is bq_nodes_loc bn_next_loc t (map (node_at p) [Suc j..<8192])" "words t (node_at p j) \<noteq> None"
      "\<forall>i < Suc j. sc_partial (malloc_sizeclasses t ! i) = queue_at mem execs i"
      "\<forall>i < j. new_queue (queue_at mem execs i) (node_at p i) execs t" "unspent ss s t"
      "\<forall>a. words t a \<noteq> None \<longrightarrow> words s a \<noteq> None \<or> a - p < 0x10000"
  shows "queues_up execs mem p ss s (Suc j) (started (queue_at mem execs j) (node_at p j) execs t)"
proof -
  let ?q = "queue_at mem execs j" and ?f = "node_at p j"
  have f: "?f \<noteq> NULL" by (rule node_at_laws(2) [OF p]) (use j in simp)
  have fresh: "node_at p i \<noteq> ?f" if "i \<noteq> j" "i < 8192" for i
    using inj_onD [OF node_at_inj [OF p], of i j] that j by auto
  have "?f \<notin> set (map (node_at p) [Suc j..<8192])"
  proof
    assume "?f \<in> set (map (node_at p) [Suc j..<8192])"
    then obtain i where "?f = node_at p i" "Suc j \<le> i" "i < 8192" by auto
    then show False using fresh [of i] by simp
  qed
  note st = stack_started [OF this t(5), of ?q execs]
  have "new_queue (queue_at mem execs i) (node_at p i) execs (started ?q ?f execs t)" if "i < Suc j" for i
  proof (cases "i = j")
    case True
    then show ?thesis using new_queue_started(1) t(6) q f by simp
  next
    case False
    then have i: "i < j" "i < 32" using that j by simp_all
    have "queue_at mem execs i \<noteq> ?q" using queue_at_laws(2) [OF e i(2) j] False by blast
    moreover have "new_queue (queue_at mem execs i) (node_at p i) execs t" using t(8) i(1) by blast
    moreover have "node_at p i \<noteq> ?f" using fresh [of i] False i(2) by simp
    ultimately show ?thesis by (intro new_queue_started(2))
  qed
  moreover have "unspent ss s (started ?q ?f execs t)" using t(9) by simp
  ultimately show ?thesis using st t(1-4,7,10) by (simp add: queues_up_def started_def)
qed

lemma sc_partial_set:
  assumes "j < length (malloc_sizeclasses s)"
  shows "pwr (sc_partial_loc j) q (s, fs) = Some ((), (s\<lparr>malloc_sizeclasses :=
    (malloc_sizeclasses s)[j := (malloc_sizeclasses s ! j)\<lparr>sc_partial := q\<rparr>]\<rparr>, fs))"
  using assms by (simp add: pwr_def)

lemma first_queue:
  fixes s :: "'a malloc_state_scheme"
  assumes e: "execs \<noteq> 0" "execs \<le> 0x10000"
    and mem: "\<forall>a. a - mem < mm_malloc_request execs \<longrightarrow> a \<noteq> NULL \<and> words s a \<noteq> None"
    and sc: "length (malloc_sizeclasses s) = 32"
    and none: "lf_block_queue_nodes s = NULL" and free: "slice_free_is s (slc # ss)"
    and res: "total_limit s \<le> total_size s + 0x10000" "malloc_limit s \<le> malloc_size s + 0x10000"
    and p: "p = mapped_at (env_mmap E) 0x10000 SLICE_PROT_RWX s" "p \<noteq> NULL" "unat p + 0x10000 \<le> 2 ^ 32"
  shows "returns (do { (_, c) \<leftarrow> pwr (sc_partial_loc 0) (queue_at mem execs 0) (s, []);
      lf_block_queue_init E (queue_at mem execs 0) execs c })
    (\<lambda>_ c. snd c = [] \<and> queues_up execs mem p ss s 1 (fst c) \<and> malloc_state.more (fst c) = malloc_state.more s)"
proof -
  let ?q = "queue_at mem execs 0"
  let ?s = "s\<lparr>malloc_sizeclasses := (malloc_sizeclasses s)[0 := (malloc_sizeclasses s ! 0)\<lparr>sc_partial := ?q\<rparr>]\<rparr>"
  have q: "?q \<noteq> NULL" "words s ?q \<noteq> None" using mem queue_at_laws(1) [OF e, of 0 mem] by simp_all
  have "slice_free_is ?s (slc # ss)" using free by (simp add: slice_free_is_cong [of ?s s])
  then obtain t where t: "lf_block_queue_alloc_node E (?s, []) = Some (p, (t, []))"
    "stack_is bq_nodes_loc bn_next_loc t (map (node_at p) [1..<8192])"
    "block_queue_state.more t = block_queue_state.more ?s" "words t = map_words p 0x10000 (words s)"
    "slice_free_is t ss" "total_limit t = total_limit s" "malloc_limit t = malloc_limit s"
    "os_log t = map_call 0x10000 # os_log s"
    using alloc_node_slice [of ?s slc ss p E] none res p by (auto simp: mapped_at_def)
  have m: "procheaps t = procheaps s" "malloc_procheaps t = malloc_procheaps s"
    "malloc_sizeclasses t = malloc_sizeclasses ?s" "malloc_desc_avail t = malloc_desc_avail s"
    "malloc_state.more t = malloc_state.more s"
    using t(3) by (cases t; cases s; simp)+
  have "unspent ss s t" using t(5-8) m(3-5) by (simp add: unspent_def)
  have w: "words t a \<noteq> None" if "words s a \<noteq> None" for a using that t(4) by (simp add: map_words_def)
  have old: "\<forall>a. words t a \<noteq> None \<longrightarrow> words s a \<noteq> None \<or> a - p < 0x10000" using t(4) by (simp add: map_words_def)
  have wp: "words t p \<noteq> None" using t(4) p(2) by (simp add: map_words_def)
  have run: "lf_block_queue_init E ?q execs (?s, []) = Some ((), (started ?q p execs t, []))"
    by (rule queue_init_started [OF t(1) p(2) wp q(1) w [OF q(2)]])
  have "queues_up execs mem p ss s (Suc 0) (started ?q (node_at p 0) execs t)"
    by (rule queue_started [OF e _ p(2,3) q(1) w [OF q(2)] m(1,2)]) (use w wp old t(2) m(3) sc \<open>unspent ss s t\<close> in \<open>auto simp: node_at_def\<close>)
  moreover have "malloc_state.more (started ?q (node_at p 0) execs t) = malloc_state.more s"
    using m(5) by (simp add: started_def)
  ultimately show ?thesis using run sc by (simp add: sc_partial_set node_at_def)
qed

lemma next_queue:
  fixes s t :: "'a malloc_state_scheme"
  assumes e: "execs \<noteq> 0" "execs \<le> 0x10000" and j: "1 \<le> j" "j < 32"
    and mem: "\<forall>a. a - mem < mm_malloc_request execs \<longrightarrow> a \<noteq> NULL \<and> words s a \<noteq> None"
    and sc: "length (malloc_sizeclasses s) = 32"
    and p: "p \<noteq> NULL" "unat p + 0x10000 \<le> 2 ^ 32" and up: "queues_up execs mem p ss s j t"
  shows "returns (do { (_, c) \<leftarrow> pwr (sc_partial_loc j) (queue_at mem execs j) (t, []);
      lf_block_queue_init E (queue_at mem execs j) execs c })
    (\<lambda>_ c. snd c = [] \<and> queues_up execs mem p ss s (Suc j) (fst c) \<and> malloc_state.more (fst c) = malloc_state.more t)"
proof -
  let ?q = "queue_at mem execs j" and ?f = "node_at p j"
  let ?t = "t\<lparr>malloc_sizeclasses := (malloc_sizeclasses t)[j := (malloc_sizeclasses t ! j)\<lparr>sc_partial := ?q\<rparr>]\<rparr>"
  note u = up [unfolded queues_up_def]
  have "?q \<noteq> NULL \<and> words s ?q \<noteq> None" using mem queue_at_laws(1) [OF e j(2), of mem] by simp
  then have q: "?q \<noteq> NULL" "words t ?q \<noteq> None" using u by blast+
  have "[j..<8192] = j # [Suc j..<8192]" by (rule upt_conv_Cons) (use j(2) in simp)
  then have "stack_is bq_nodes_loc bn_next_loc t (?f # map (node_at p) [Suc j..<8192])" using u by simp
  moreover have "bnext ?t = bnext t" by (simp add: bnext_def fun_eq_iff)
  ultimately have "stack_is bq_nodes_loc bn_next_loc ?t (?f # map (node_at p) [Suc j..<8192])"
    unfolding free_is_bnext by simp
  from alloc_node_pop [OF this, of E] obtain y where
    y: "lf_block_queue_alloc_node E (?t, []) = Some (?f, (?t\<lparr>lf_block_queue_nodes := y\<rparr>, []))" "?f \<noteq> NULL" "words ?t ?f \<noteq> None"
      "stack_is bq_nodes_loc bn_next_loc (?t\<lparr>lf_block_queue_nodes := y\<rparr>) (map (node_at p) [Suc j..<8192])" by blast
  let ?v = "?t\<lparr>lf_block_queue_nodes := y\<rparr>"
  have run: "lf_block_queue_init E ?q execs (?t, []) = Some ((), (started ?q ?f execs ?v, []))"
    by (rule queue_init_started [OF y(1,2)]) (use y(3) q in simp_all)
  have "queues_up execs mem p ss s (Suc j) (started ?q ?f execs ?v)"
    by (rule queue_started [OF e j(2) p q(1)]) (use u y(3,4) q sc j(2) in \<open>auto simp: nth_list_update less_Suc_eq new_queue_def\<close>)
  moreover have "malloc_state.more (started ?q ?f execs ?v) = malloc_state.more t" by (simp add: started_def)
  ultimately show ?thesis using run sc u j(2) by (simp add: sc_partial_set)
qed

lemma queues_loop:
  fixes s :: "'a malloc_state_scheme"
  assumes e: "execs \<noteq> 0" "execs \<le> 0x10000"
    and mem: "\<forall>a. a - mem < mm_malloc_request execs \<longrightarrow> a \<noteq> NULL \<and> words s a \<noteq> None"
    and sc: "length (malloc_sizeclasses s) = 32"
    and none: "lf_block_queue_nodes s = NULL" and free: "slice_free_is s (slc # ss)"
    and res: "total_limit s \<le> total_size s + 0x10000" "malloc_limit s \<le> malloc_size s + 0x10000"
    and p: "p = mapped_at (env_mmap E) 0x10000 SLICE_PROT_RWX s" "p \<noteq> NULL" "unat p + 0x10000 \<le> 2 ^ 32"
  shows "returns (foreach (\<lambda>i c. do { (_, c) \<leftarrow> pwr (sc_partial_loc i) (queue_at mem execs i) c;
      lf_block_queue_init E (queue_at mem execs i) execs c }) [0..<NUM_SIZE_CLASSES] (s, []))
    (\<lambda>_ c. snd c = [] \<and> queues_up execs mem p ss s 32 (fst c) \<and> malloc_state.more (fst c) = malloc_state.more s)"
proof -
  let ?P = "\<lambda>j c. snd c = [] \<and> (if j = 0 then fst c = s else queues_up execs mem p ss s j (fst c)) \<and>
      malloc_state.more (fst c) = malloc_state.more s"
  have "returns (foreach (\<lambda>i c. do { (_, c) \<leftarrow> pwr (sc_partial_loc i) (queue_at mem execs i) c;
      lf_block_queue_init E (queue_at mem execs i) execs c }) [0..<NUM_SIZE_CLASSES] (s, [])) (\<lambda>_ c. ?P NUM_SIZE_CLASSES c)"
  proof (rule foreach_rule [where P = ?P])
    fix j and c :: "'a malloc_state_scheme conc"
    assume "j < NUM_SIZE_CLASSES" and P: "?P j c"
    then have j: "j < 32" and c: "c = (fst c, [])" by (simp_all add: NUM_SIZE_CLASSES_def prod_eq_iff)
    show "returns (do { (_, c) \<leftarrow> pwr (sc_partial_loc j) (queue_at mem execs j) c;
      lf_block_queue_init E (queue_at mem execs j) execs c }) (\<lambda>_ c. ?P (Suc j) c)"
    proof (cases "j = 0")
      case True
      then have "c = (s, [])" using P c by simp
      then show ?thesis using first_queue [OF e mem sc none free res p] True by simp
    next
      case False
      then have up: "queues_up execs mem p ss s j (fst c)" "1 \<le> j" using P by simp_all
      show ?thesis using next_queue [OF e up(2) j mem sc p(2,3) up(1), of E] c P by simp
    qed
  qed simp_all
  then show ?thesis by (simp add: NUM_SIZE_CLASSES_def)
qed

text \<open>The queues are empty for every executor; the free nodes are what the last one left.\<close>

lemma queues_up_holds:
  assumes "queues_up execs mem p ss s 32 t" "p \<noteq> NULL" "unat p + 0x10000 \<le> 2 ^ 32" "execs \<le> 0x10000"
    and "k < 32" "exec < execs"
  shows "bq_holds (sc_partial (malloc_sizeclasses t ! k)) exec t 8160 []"
proof -
  define free where "free = map (node_at p) [32..<8192]"
  note up = assms(1) [unfolded queues_up_def, folded free_def]
  have len: "length free = 8160" unfolding free_def length_map length_upt by simp
  have "node_at p k \<notin> set free"
  proof
    assume "node_at p k \<in> set free"
    then obtain i where "node_at p k = node_at p i" "32 \<le> i" "i < 8192"
      unfolding free_def set_map set_upt by (elim imageE) (simp only: atLeastLessThan_iff)
    then show False using inj_onD [OF node_at_inj [OF assms(2,3)], of k i] assms(5) by simp
  qed
  moreover have "unat execs < 2 ^ 30" using assms(4) by (simp add: word_le_nat_alt)
  ultimately have "bq_holds (queue_at mem execs k) exec t (length free) []"
    using up assms(5,6) by (intro new_queue_holds) auto
  then show ?thesis using up assms(5) len by simp
qed

text \<open>Both loops together, with all that later theorems need.\<close>

lemma malloc_init_up:
  fixes s :: "'a malloc_state_scheme"
  assumes e: "execs \<noteq> 0" "execs \<le> 0x10000"
    and mem: "\<forall>a. a - mem < mm_malloc_request execs \<longrightarrow> a \<noteq> NULL \<and> words s a \<noteq> None"
    and sc: "length (malloc_sizeclasses s) = 32"
    and none: "lf_block_queue_nodes s = NULL" and free: "slice_free_is s (slc # ss)"
    and res: "total_limit s \<le> total_size s + 0x10000" "malloc_limit s \<le> malloc_size s + 0x10000"
    and p: "p = mapped_at (env_mmap E) 0x10000 SLICE_PROT_RWX s" "p \<noteq> NULL" "unat p + 0x10000 \<le> 2 ^ 32"
  obtains ph t where "mm_malloc_init E execs mem (s, []) = Some (mem + mm_malloc_request execs, (t, []))"
    "\<forall>i < unat execs. \<forall>k < 32. ph (procheap_at mem (of_nat i) (of_nat k)) = empty_heap k"
    "queues_up execs mem p ss (s\<lparr>malloc_procheaps := mem, procheaps := ph\<rparr>) 32 t"
    "malloc_state.more t = malloc_state.more s"
proof -
  let ?s = "s\<lparr>malloc_procheaps := mem\<rparr>"
  have "\<forall>a. a - mem < mm_malloc_request execs \<longrightarrow> a \<noteq> NULL \<and> words ?s a \<noteq> None" using mem by simp
  from heaps_loop [OF e this] obtain ph where ph:
    "foreach (\<lambda>i. foreach (\<lambda>j c. do {
        let heap = procheap_at mem (of_nat i) (of_nat j);
        (_, c) \<leftarrow> pwr (ph_partial_loc heap) NULL c;
        (_, c) \<leftarrow> pwr (ph_active_loc heap) 0 c;
        pwr (ph_sizeclass_loc heap) j c }) [0..<NUM_SIZE_CLASSES]) [0..<unat execs] (?s, []) =
      Some ((), (?s\<lparr>procheaps := ph\<rparr>, []))"
    "\<forall>i < unat execs. \<forall>k < 32. ph (procheap_at mem (of_nat i) (of_nat k)) = empty_heap k"
    by (auto simp: returns_ex)
  let ?t = "?s\<lparr>procheaps := ph\<rparr>"
  have mt: "\<forall>a. a - mem < mm_malloc_request execs \<longrightarrow> a \<noteq> NULL \<and> words ?t a \<noteq> None" using mem by simp
  have ft: "slice_free_is ?t (slc # ss)" using free by (simp add: slice_free_is_cong [of ?t s])
  have pt: "p = mapped_at (env_mmap E) 0x10000 SLICE_PROT_RWX ?t" using p(1) by (simp add: mapped_at_def)
  obtain c where c: "foreach (\<lambda>i c. do { (_, c) \<leftarrow> pwr (sc_partial_loc i) (queue_at mem execs i) c;
      lf_block_queue_init E (queue_at mem execs i) execs c }) [0..<NUM_SIZE_CLASSES] (?t, []) = Some ((), c)"
    "queues_up execs mem p ss ?t 32 (fst c)" "snd c = []" "malloc_state.more (fst c) = malloc_state.more s"
    using queues_loop [OF e mt _ _ ft _ _ pt p(2,3)] sc none res by (auto simp: returns_ex)
  have out: "mem + cache_align (16 * execs * of_nat NUM_SIZE_CLASSES) + cache_align (12 + execs * 16) * of_nat NUM_SIZE_CLASSES =
      mem + mm_malloc_request execs"
    by (simp add: mm_malloc_request_def Let_def add.assoc)
  have qa: "mem + cache_align (16 * execs * of_nat NUM_SIZE_CLASSES) + of_nat i * cache_align (12 + execs * 16) = queue_at mem execs i" for i
    by (simp add: queue_at_def heaps_size_def queue_size_def)
  have "pwr (global_loc malloc_procheaps malloc_procheaps_update) mem (s, []) = Some ((), (?s, []))" by (simp add: pwr_def)
  then have run: "mm_malloc_init E execs mem (s, []) = Some (mem + mm_malloc_request execs, c)"
    using ph(1) c(1) by (simp add: mm_malloc_init_def Let_def out qa)
  then have "mm_malloc_init E execs mem (s, []) = Some (mem + mm_malloc_request execs, (fst c, []))"
    using c(3) by (simp add: prod_eq_iff)
  then show thesis using ph(2) c(2,4) by (rule that)
qed

text \<open>
  C12 [malloc_start]. In memory of the size it has asked for, with a descriptor for a slice and
  64 kilobytes left in the quotas, \<open>mm_malloc_init\<close> returns the end of that memory. Every heap of
  every executor then has its size class, no active and no partial superblock; and the partial
  queue of every size class is an empty queue for every executor, all with the same 8160 free
  nodes.
\<close>

theorem malloc_starts_empty:
  fixes s :: "'a malloc_state_scheme"
  assumes e: "execs \<noteq> 0" "execs \<le> 0x10000"
    and mem: "\<forall>a. a - mem < mm_malloc_request execs \<longrightarrow> a \<noteq> NULL \<and> words s a \<noteq> None"
    and sc: "length (malloc_sizeclasses s) = 32"
    and none: "lf_block_queue_nodes s = NULL" and free: "slice_free_is s (slc # ss)"
    and res: "total_limit s \<le> total_size s + 0x10000" "malloc_limit s \<le> malloc_size s + 0x10000"
    and p: "p = mapped_at (env_mmap E) 0x10000 SLICE_PROT_RWX s" "p \<noteq> NULL" "unat p + 0x10000 \<le> 2 ^ 32"
  shows "returns (mm_malloc_init E execs mem (s, [])) (\<lambda>r c. r = mem + mm_malloc_request execs \<and>
    malloc_procheaps (fst c) = mem \<and>
    (\<forall>i < unat execs. \<forall>k < 32. procheaps (fst c) (procheap_at mem (of_nat i) (of_nat k)) =
      \<lparr>ph_partial = NULL, ph_active = 0, ph_sizeclass = k\<rparr>) \<and>
    (\<forall>k < 32. \<forall>exec < execs. bq_holds (sc_partial (malloc_sizeclasses (fst c) ! k)) exec (fst c) 8160 []))"
proof -
  obtain ph t where t: "mm_malloc_init E execs mem (s, []) = Some (mem + mm_malloc_request execs, (t, []))"
    "\<forall>i < unat execs. \<forall>k < 32. ph (procheap_at mem (of_nat i) (of_nat k)) = empty_heap k"
    "queues_up execs mem p ss (s\<lparr>malloc_procheaps := mem, procheaps := ph\<rparr>) 32 t"
    by (rule malloc_init_up [OF assms])
  have "procheaps t = ph" "malloc_procheaps t = mem" using queues_up_heaps [OF t(3)] by simp_all
  then show ?thesis using t(1,2) queues_up_holds [OF t(3) p(2,3) e(2)] by (simp add: empty_heap_def)
qed

lemma malloc_starts_empty_witness:
  "\<exists>t. mm_malloc_init \<lparr>env_mmap = (\<lambda>_. 0x40000), env_failures = (\<lambda>_. 0), env_out = (\<lambda>_. 0)\<rparr> 1 0x8000000
      (ex_malloc\<lparr>slice_free_list := 0x80\<rparr>, []) = Some (0x8000600, t)"
  (is "\<exists>t. mm_malloc_init ?E 1 ?mem (?s, []) = _")
proof -
  have req: "mm_malloc_request 1 = 0x600"
    by (simp add: mm_malloc_request_def cache_align_def NUM_SIZE_CLASSES_def Let_def)
  have mem: "\<forall>a. a - ?mem < mm_malloc_request 1 \<longrightarrow> a \<noteq> NULL \<and> words ?s a \<noteq> None"
    unfolding req by (auto simp: ex_malloc_def)
  have sc: "length (malloc_sizeclasses ?s) = 32" by (simp add: ex_malloc_def malloc_sizeclass_table_def)
  have none: "lf_block_queue_nodes ?s = NULL" by (simp add: ex_malloc_def)
  have free: "slice_free_is ?s [0x80]" by (simp add: stack_is_def ex_malloc_def)
  have lim: "total_limit ?s \<le> total_size ?s + 0x10000" "malloc_limit ?s \<le> malloc_size ?s + 0x10000"
    by (simp_all add: ex_malloc_def)
  have p: "0x40000 = mapped_at (env_mmap ?E) 0x10000 SLICE_PROT_RWX ?s" by (simp add: mapped_at_def)
  from malloc_starts_empty [OF _ _ mem sc none free lim p] show ?thesis by (auto simp: req returns_ex)
qed

end
