(* ===== verification/GC_Desc.thy ===== *)
theory GC_Desc
  imports Slice
begin

unbundle bit_operations_syntax

section \<open>Object headers (\<open>src/mm/gc/gc_desc.c\<close>)\<close>

text \<open>
  The header of a collected object is four words: the forwarding pointer, the list pointer,
  the type descriptor and a word that packs the current generation, the next one, a count
  and the flags, a byte each. Type descriptors and entries of the write log are read through
  accessors too. The list pointer belongs to one executor, type information is constant, and
  the other words are shared.
\<close>

definition GCH_COPIED :: u32 where "GCH_COPIED = 0x1"
definition GC_TYPEDESC_CLASS :: u32 where "GC_TYPEDESC_CLASS = 0x3"
definition GC_TYPEDESC_CONST :: u32 where "GC_TYPEDESC_CONST = 0x4"

text \<open>The values of \<open>gc_typedesc_class_t\<close>.\<close>

definition GC_TYPEDESC_NORMAL :: u32 where "GC_TYPEDESC_NORMAL = 0"
definition GC_TYPEDESC_ARRAY :: u32 where "GC_TYPEDESC_ARRAY = 1"

subsection \<open>Headers\<close>

definition geninfo :: "u8 \<Rightarrow> u8 \<Rightarrow> u8 \<Rightarrow> u8 \<Rightarrow> u32" where
  "geninfo flags gen next_gen count =
     ucast gen OR push_bit 8 (ucast next_gen) OR push_bit 16 (ucast count) OR push_bit 24 (ucast flags)"

definition gc_header_init_normal ::
  "ptr \<Rightarrow> ptr \<Rightarrow> u8 \<Rightarrow> u8 \<Rightarrow> u8 \<Rightarrow> u8 \<Rightarrow> ptr \<Rightarrow> 'a slice_state_scheme conc \<Rightarrow>
   (unit \<times> 'a slice_state_scheme conc) option" where
  "gc_header_init_normal fwd_ptr type flags gen next_gen count header c = do {
     (_, c) \<leftarrow> wr (word_loc header) fwd_ptr c;
     (_, c) \<leftarrow> pwr (word_loc (header + 4)) NULL c;
     (_, c) \<leftarrow> pwr (word_loc (header + 8)) type c;
     pwr (word_loc (header + 12)) (geninfo flags gen next_gen count) c }"

text \<open>\<open>len_ptr\<close> and \<open>typeinfo_ptr\<close> are the same address.\<close>

definition gc_header_init_array ::
  "ptr \<Rightarrow> ptr \<Rightarrow> u8 \<Rightarrow> u8 \<Rightarrow> u8 \<Rightarrow> u8 \<Rightarrow> u32 \<Rightarrow> ptr \<Rightarrow> 'a slice_state_scheme conc \<Rightarrow>
   (unit \<times> 'a slice_state_scheme conc) option" where
  "gc_header_init_array fwd_ptr type flags gen next_gen count len header c = do {
     (_, c) \<leftarrow> pwr (word_loc (header + 8)) len c;
     (_, c) \<leftarrow> wr (word_loc header) fwd_ptr c;
     (_, c) \<leftarrow> pwr (word_loc (header + 4)) NULL c;
     (_, c) \<leftarrow> pwr (word_loc (header + 8)) type c;
     pwr (word_loc (header + 12)) (geninfo flags gen next_gen count) c }"

definition gc_header_fwd_ptr ::
  "ptr \<Rightarrow> 'a slice_state_scheme conc \<Rightarrow> (ptr \<times> 'a slice_state_scheme conc) option" where
  "gc_header_fwd_ptr header c = rd (word_loc header) c"

definition gc_header_fwd_ptr_set ::
  "ptr \<Rightarrow> ptr \<Rightarrow> 'a slice_state_scheme conc \<Rightarrow> (unit \<times> 'a slice_state_scheme conc) option" where
  "gc_header_fwd_ptr_set p header c = wr (word_loc header) p c"

definition gc_header_compare_and_set_fwd_ptr ::
  "ptr \<Rightarrow> ptr \<Rightarrow> ptr \<Rightarrow> 'a slice_state_scheme conc \<Rightarrow> (bool \<times> 'a slice_state_scheme conc) option" where
  "gc_header_compare_and_set_fwd_ptr expect val header c =
     atomic_compare_and_set_ptr expect val (word_loc header) c"

definition gc_header_list_ptr ::
  "ptr \<Rightarrow> 'a slice_state_scheme conc \<Rightarrow> (ptr \<times> 'a slice_state_scheme conc) option" where
  "gc_header_list_ptr header c = prd (word_loc (header + 4)) c"

definition gc_header_list_ptr_set ::
  "ptr \<Rightarrow> ptr \<Rightarrow> 'a slice_state_scheme conc \<Rightarrow> (unit \<times> 'a slice_state_scheme conc) option" where
  "gc_header_list_ptr_set p header c = pwr (word_loc (header + 4)) p c"

definition gc_header_type ::
  "ptr \<Rightarrow> 'a slice_state_scheme conc \<Rightarrow> (ptr \<times> 'a slice_state_scheme conc) option" where
  "gc_header_type header c = do {
     (typeinfo, c) \<leftarrow> prd (word_loc (header + 8)) c;
     Some (typeinfo AND NOT 0xf, c) }"

definition gc_header_flags ::
  "ptr \<Rightarrow> 'a slice_state_scheme conc \<Rightarrow> (u8 \<times> 'a slice_state_scheme conc) option" where
  "gc_header_flags header c = do {
     (misc_info, c) \<leftarrow> rd (word_loc (header + 12)) c;
     Some (ucast (drop_bit 24 misc_info AND 0xff), c) }"

definition gc_header_flags_set ::
  "ptr \<Rightarrow> u8 \<Rightarrow> 'a slice_state_scheme conc \<Rightarrow> (unit \<times> 'a slice_state_scheme conc) option" where
  "gc_header_flags_set header flags c = do {
     (info, c) \<leftarrow> rd (word_loc (header + 12)) c;
     let misc_info = info AND NOT 0xff000000;
     wr (word_loc (header + 12)) (misc_info OR push_bit 24 (ucast flags)) c }"

definition gc_header_curr_gen ::
  "ptr \<Rightarrow> 'a slice_state_scheme conc \<Rightarrow> (u32 \<times> 'a slice_state_scheme conc) option" where
  "gc_header_curr_gen header c = do {
     (info, c) \<leftarrow> rd (word_loc (header + 12)) c;
     Some (info AND 0xff, c) }"

definition gc_header_next_gen ::
  "ptr \<Rightarrow> 'a slice_state_scheme conc \<Rightarrow> (u32 \<times> 'a slice_state_scheme conc) option" where
  "gc_header_next_gen header c = do {
     (info, c) \<leftarrow> rd (word_loc (header + 12)) c;
     Some (drop_bit 8 (info AND 0xff), c) }"

definition gc_header_count ::
  "ptr \<Rightarrow> 'a slice_state_scheme conc \<Rightarrow> (u32 \<times> 'a slice_state_scheme conc) option" where
  "gc_header_count header c = do {
     (info, c) \<leftarrow> rd (word_loc (header + 12)) c;
     Some (drop_bit 16 (info AND 0xff), c) }"

definition gc_header_array_len ::
  "ptr \<Rightarrow> 'a slice_state_scheme conc \<Rightarrow> (u32 \<times> 'a slice_state_scheme conc) option" where
  "gc_header_array_len header c = prd (word_loc (header - 4)) c"

subsection \<open>Type descriptors and log entries\<close>

definition gc_typedesc_class ::
  "ptr \<Rightarrow> 'a slice_state_scheme conc \<Rightarrow> (u32 \<times> 'a slice_state_scheme conc) option" where
  "gc_typedesc_class desc c = do { (d, c) \<leftarrow> prd (word_loc desc) c; Some (d AND GC_TYPEDESC_CLASS, c) }"

definition gc_typedesc_flags ::
  "ptr \<Rightarrow> 'a slice_state_scheme conc \<Rightarrow> (u32 \<times> 'a slice_state_scheme conc) option" where
  "gc_typedesc_flags desc c = do { (d, c) \<leftarrow> prd (word_loc desc) c; Some (d AND NOT GC_TYPEDESC_CLASS, c) }"

definition gc_typedesc_nonptr_size ::
  "ptr \<Rightarrow> 'a slice_state_scheme conc \<Rightarrow> (u32 \<times> 'a slice_state_scheme conc) option" where
  "gc_typedesc_nonptr_size desc c = prd (word_loc (desc + 4)) c"

definition gc_typedesc_normal_ptrs ::
  "ptr \<Rightarrow> 'a slice_state_scheme conc \<Rightarrow> (u32 \<times> 'a slice_state_scheme conc) option" where
  "gc_typedesc_normal_ptrs desc c = prd (word_loc (desc + 8)) c"

definition gc_typedesc_weak_ptrs ::
  "ptr \<Rightarrow> 'a slice_state_scheme conc \<Rightarrow> (u32 \<times> 'a slice_state_scheme conc) option" where
  "gc_typedesc_weak_ptrs desc c = prd (word_loc (desc + 12)) c"

definition gc_log_entry_objptr ::
  "ptr \<Rightarrow> 'a slice_state_scheme conc \<Rightarrow> (ptr \<times> 'a slice_state_scheme conc) option" where
  "gc_log_entry_objptr entry c = prd (word_loc entry) c"

definition gc_log_entry_offset ::
  "ptr \<Rightarrow> 'a slice_state_scheme conc \<Rightarrow> (u32 \<times> 'a slice_state_scheme conc) option" where
  "gc_log_entry_offset entry c = prd (word_loc (entry + 4)) c"

lemmas gc_desc_defs = gc_header_init_normal_def gc_header_init_array_def gc_header_fwd_ptr_def
  gc_header_fwd_ptr_set_def gc_header_compare_and_set_fwd_ptr_def gc_header_list_ptr_def
  gc_header_list_ptr_set_def gc_header_type_def gc_header_flags_def gc_header_flags_set_def
  gc_header_curr_gen_def gc_header_next_gen_def gc_header_count_def gc_header_array_len_def

subsection \<open>What comes back\<close>

lemma geninfo_bytes:
  "geninfo flags gen next_gen count AND 0xff = ucast gen"
  "ucast (drop_bit 24 (geninfo flags gen next_gen count) AND 0xff) = flags"
  "drop_bit 8 (geninfo flags gen next_gen count AND 0xff) = 0"
  "drop_bit 16 (geninfo flags gen next_gen count AND 0xff) = 0"
proof -
  have ff: "(0xff :: u32) = mask 8" by (simp add: mask_eq_exp_minus_1)
  show g: "geninfo flags gen next_gen count AND 0xff = ucast gen"
    unfolding ff geninfo_def by (rule bit_word_eqI) (auto simp: bit_simps dest: bit_imp_le_length)
  show "ucast (drop_bit 24 (geninfo flags gen next_gen count) AND 0xff) = flags"
    unfolding ff geninfo_def by (rule bit_word_eqI) (auto simp: bit_simps dest: bit_imp_le_length)
  show "drop_bit 8 (geninfo flags gen next_gen count AND 0xff) = 0"
    "drop_bit 16 (geninfo flags gen next_gen count AND 0xff) = 0"
    unfolding g by (rule bit_word_eqI; auto simp: bit_simps dest: bit_imp_le_length)+
qed

text \<open>The words of a header, and the one before it, are in memory.\<close>

definition header_mapped :: "ptr \<Rightarrow> 'a slice_state_scheme \<Rightarrow> bool" where
  "header_mapped header s \<longleftrightarrow>
     (\<forall>k \<in> {- 4, 0, 4, 8, 12}. header + k \<noteq> NULL \<and> words s (header + k) \<noteq> None)"

abbreviation gives :: "('a \<times> 'c) option \<Rightarrow> 'a \<Rightarrow> bool" where
  "gives m v \<equiv> map_option fst m = Some v"

text \<open>
  C39 [header]. A header that \<open>gc_header_init_array\<close> or \<open>gc_header_init_normal\<close> has just
  written gives back its forwarding pointer, type, current generation and flags, and an
  empty list pointer. The next generation and the count always read as 0, because the
  accessors mask the low byte before they shift, and the length of an array is lost: it is
  written where the type goes and read from before the header.
\<close>

theorem header_roundtrip:
  assumes "header_mapped header s" "type AND 0xf = 0"
  shows "returns (if array then gc_header_init_array fwd type flags gen next_gen count len header (s, [])
      else gc_header_init_normal fwd type flags gen next_gen count header (s, []))
    (\<lambda>_ c. gives (gc_header_fwd_ptr header c) fwd \<and> gives (gc_header_list_ptr header c) NULL \<and>
      gives (gc_header_type header c) type \<and> gives (gc_header_curr_gen header c) (ucast gen) \<and>
      gives (gc_header_flags header c) flags \<and> gives (gc_header_next_gen header c) 0 \<and>
      gives (gc_header_count header c) 0 \<and> map_option fst (gc_header_array_len header c) = words s (header - 4))"
proof -
  have "type AND NOT 0xf = type"
  proof -
    have "type = (type AND NOT 0xf) OR (type AND 0xf)" by (simp flip: bit.conj_disj_distrib)
    then show ?thesis using assms(2) by simp
  qed
  then have t: "type AND - 16 = type" by simp
  show ?thesis using assms(1) unfolding header_mapped_def gc_desc_defs
    by (auto simp: wp rd_def prd_def Let_def geninfo_bytes t)
qed

lemma header_roundtrip_witness:
  "\<forall>s :: slice_state. returns (gc_header_init_array 0x80 0x40 1 2 3 4 99 0x100 (s\<lparr>words := (\<lambda>_. Some 7)\<rparr>, []))
    (\<lambda>_ c. gives (gc_header_curr_gen 0x100 c) 2 \<and> gives (gc_header_next_gen 0x100 c) 0 \<and>
      gives (gc_header_array_len 0x100 c) 7)"
proof
  fix s :: slice_state
  have "header_mapped 0x100 (s\<lparr>words := (\<lambda>_. Some 7)\<rparr>)" by (simp add: header_mapped_def)
  from header_roundtrip [OF this, of "0x40" True "0x80" 1 2 3 4 99]
  show "returns (gc_header_init_array 0x80 0x40 1 2 3 4 99 0x100 (s\<lparr>words := (\<lambda>_. Some 7)\<rparr>, []))
    (\<lambda>_ c. gives (gc_header_curr_gen 0x100 c) 2 \<and> gives (gc_header_next_gen 0x100 c) 0 \<and>
      gives (gc_header_array_len 0x100 c) 7)"
    by (auto elim!: returns_mono)
qed

end
