(* ===== verification/GC_Alloc.thy ===== *)
theory GC_Alloc
  imports Malloc GC_Desc Stack
begin

unbundle bit_operations_syntax

section \<open>The allocator of the collector (\<open>src/mm/gc/gc_alloc.c\<close>)\<close>

text \<open>
  Collected memory comes in slices of a power of two. For each power and each generation
  there are three stacks of slices, used, free and new, whose heads are the words of arrays;
  three more arrays count the bytes of each generation. A thread allocates by advancing a
  pointer in an allocator, two words in memory, and refreshes it with another slice.

  The state extends that of \<open>malloc\<close>; the constants of \<open>gc.h\<close> and what \<open>bsr\<close> leaves for a
  zero operand are in the environment. An index beyond a static array is a fault. The two
  ratios are static and nothing assigns them, so they are \<open>0\<close>: a quotient of two numbers
  that are not negative is at least \<open>0\<close> unless it is \<open>0 / 0\<close>, which compares false.
\<close>

subsection \<open>Data\<close>

definition MIN_SLICE_POWER :: u32 where "MIN_SLICE_POWER = 14"
definition MAX_SLICE_POWER :: u32 where "MAX_SLICE_POWER = 32 - 1"
definition SLICE_POWERS :: u32 where "SLICE_POWERS = (MAX_SLICE_POWER - MIN_SLICE_POWER) + 1"

record gc_alloc_state = malloc_state +
  gc_num_generations :: u32
  gc_state :: u32
  gc_used_slices :: "ptr list"
  gc_free_slices :: "ptr list"
  gc_new_slices :: "ptr list"
  gc_used_space :: ptr
  gc_free_space :: ptr
  gc_new_space :: ptr

record gc_env = slice_env +
  GC_STATE_INACTIVE :: u32
  GC_STATE_PHASE :: u32
  GC_STATE_INITIAL :: u32
  env_bsr :: u32

abbreviation "gc_state_loc \<equiv> global_loc gc_state gc_state_update"
abbreviation "gc_used_space_loc \<equiv> global_loc gc_used_space gc_used_space_update"
abbreviation "gc_free_space_loc \<equiv> global_loc gc_free_space gc_free_space_update"
abbreviation "gc_new_space_loc \<equiv> global_loc gc_new_space gc_new_space_update"

text \<open>\<open>bsr\<close> (\<open>src/mm/arch/ia32/bitops.c\<close>); the result is an \<open>unsigned char\<close>.\<close>

definition bitscan_high :: "u32 \<Rightarrow> u32 \<Rightarrow> u8" where
  "bitscan_high junk word =
     (case filter (bit word) (rev [0..<32]) of [] \<Rightarrow> ucast junk | i # _ \<Rightarrow> of_nat i)"

text \<open>The address \<open>gc_..._slices[i] + index\<close>, and the lvalue \<open>gc_..._space[j].value\<close>.\<close>

definition slices_at :: "ptr list \<Rightarrow> u32 \<Rightarrow> u32 \<Rightarrow> ptr option" where
  "slices_at arr i index = (if unat i < length arr then Some (arr ! unat i + 4 * index) else None)"

definition space_at :: "ptr \<Rightarrow> u32 \<Rightarrow> ('a slice_state_scheme, u32) loc" where
  "space_at arr j = word_loc (arr + 4 * j)"

definition ratio_ge :: "u32 \<Rightarrow> u32 \<Rightarrow> bool" where
  "ratio_ge num den \<longleftrightarrow> num \<noteq> 0 \<or> den \<noteq> 0"

subsection \<open>Slices\<close>

definition gc_allocator_alloc_slice ::
  "ptr \<Rightarrow> ptr \<Rightarrow> 'a slice_state_scheme conc \<Rightarrow> (ptr \<times> 'a slice_state_scheme conc) option" where
  "gc_allocator_alloc_slice src dst c = do {
     (out, c) \<leftarrow> retry (pop_attempt (word_loc src) s_next_loc) c;
     if out \<noteq> NULL then do {
       (_, c) \<leftarrow> retry_until (push_attempt (word_loc dst) s_next_loc out) c;
       Some (out, c) }
     else Some (out, c) }"

subsection \<open>Sizes\<close>

text \<open>The values of the words of an array, one after the other.\<close>

fun read_words :: "('s, 'v) loc list \<Rightarrow> 's conc \<Rightarrow> ('v list \<times> 's conc) option" where
  "read_words [] c = Some ([], c)"
| "read_words (l # ls) c = do { (v, c) \<leftarrow> rd l c; (vs, c) \<leftarrow> read_words ls c; Some (v # vs, c) }"

definition gc_allocator_total_space ::
  "ptr \<Rightarrow> u32 \<Rightarrow> 'a slice_state_scheme conc \<Rightarrow> (u32 \<times> 'a slice_state_scheme conc) option" where
  "gc_allocator_total_space arr num c = do {
     let locs = map (\<lambda>j. space_at arr (of_nat j)) [0..<unat num];
     (snapshot, c) \<leftarrow> retry (\<lambda>c. do {
       (snapshot, c) \<leftarrow> read_words locs c;
       (again, c) \<leftarrow> read_words locs c;
       Some (if snapshot = again then Some snapshot else None, c) }) c;
     Some (sum_list snapshot, c) }"

definition gc_allocator_total_used_space ::
  "'a gc_alloc_state_scheme conc \<Rightarrow> (u32 \<times> 'a gc_alloc_state_scheme conc) option" where
  "gc_allocator_total_used_space c = do {
     (arr, c) \<leftarrow> prd gc_used_space_loc c;
     gc_allocator_total_space arr (gc_num_generations (fst c)) c }"

definition gc_allocator_total_new_space ::
  "'a gc_alloc_state_scheme conc \<Rightarrow> (u32 \<times> 'a gc_alloc_state_scheme conc) option" where
  "gc_allocator_total_new_space c = do {
     (arr, c) \<leftarrow> prd gc_new_space_loc c;
     gc_allocator_total_space arr (gc_num_generations (fst c)) c }"

definition gc_allocator_total_free_space ::
  "'a gc_alloc_state_scheme conc \<Rightarrow> (u32 \<times> 'a gc_alloc_state_scheme conc) option" where
  "gc_allocator_total_free_space c = do {
     (arr, c) \<leftarrow> prd gc_free_space_loc c;
     gc_allocator_total_space arr (gc_num_generations (fst c)) c }"

definition gc_allocator_limit_check ::
  "u32 \<Rightarrow> 'a gc_alloc_state_scheme conc \<Rightarrow> (bool \<times> 'a gc_alloc_state_scheme conc) option" where
  "gc_allocator_limit_check req_size c = do {
     (used_size, c) \<leftarrow> gc_allocator_total_used_space c;
     (new_size, c) \<leftarrow> gc_allocator_total_new_space c;
     (free_size, c) \<leftarrow> gc_allocator_total_free_space c;
     let total_size = used_size + new_size + free_size;
     let total_used_size = used_size + req_size;
     Some (ratio_ge total_size total_used_size, c) }"

text \<open>
  \<open>GC_STATE_INACTIVE == gc_state.value & GC_STATE_PHASE\<close> masks the truth value of the
  comparison.
\<close>

definition gc_allocator_check_activate_collector ::
  "'e gc_env_scheme \<Rightarrow> 'a gc_alloc_state_scheme conc \<Rightarrow> (unit \<times> 'a gc_alloc_state_scheme conc) option" where
  "gc_allocator_check_activate_collector E c = do {
     (used_size, c) \<leftarrow> gc_allocator_total_used_space c;
     (new_size, c) \<leftarrow> gc_allocator_total_new_space c;
     (free_size, c) \<leftarrow> gc_allocator_total_free_space c;
     let total_size = used_size + new_size + free_size;
     (state, c) \<leftarrow> rd gc_state_loc c;
     if (if GC_STATE_INACTIVE E = state then 1 else 0) AND GC_STATE_PHASE E \<noteq> 0 \<and> ratio_ge total_size used_size
     then wr gc_state_loc (GC_STATE_INITIAL E) c
     else Some ((), c) }"

text \<open>
  One of the loops of \<open>gc_allocator_update_sizes\<close>: the size is read from the array, and the
  compare-and-set is on the variable that holds the address of the array.
\<close>

definition gc_update_size ::
  "('a gc_alloc_state_scheme, ptr) loc \<Rightarrow> (u32 \<Rightarrow> u32) \<Rightarrow> u32 \<Rightarrow> 'a gc_alloc_state_scheme conc \<Rightarrow>
   (unit \<times> 'a gc_alloc_state_scheme conc) option" where
  "gc_update_size arr_loc upd gen = retry_until (\<lambda>c. do {
     (arr, c) \<leftarrow> prd arr_loc c;
     (sz, c) \<leftarrow> rd (space_at arr (gen - 1)) c;
     atomic_compare_and_set_uint sz (upd sz) arr_loc c })"

definition gc_allocator_update_sizes ::
  "'e gc_env_scheme \<Rightarrow> u32 \<Rightarrow> u32 \<Rightarrow> bool \<Rightarrow> bool \<Rightarrow> 'a gc_alloc_state_scheme conc \<Rightarrow>
   (unit \<times> 'a gc_alloc_state_scheme conc) option" where
  "gc_allocator_update_sizes E req_size gen new for_gc c = do {
     (_, c) \<leftarrow> (if \<not> for_gc then gc_update_size gc_used_space_loc (\<lambda>sz. sz + req_size) gen c
       else gc_update_size gc_new_space_loc (\<lambda>sz. sz + req_size) gen c);
     (_, c) \<leftarrow> (if \<not> new then gc_update_size gc_free_space_loc (\<lambda>sz. sz - req_size) gen c else Some ((), c));
     if \<not> for_gc then gc_allocator_check_activate_collector E c else Some ((), c) }"

subsection \<open>Refreshing an allocator\<close>

text \<open>\<open>0x1 << (i + MIN_SLICE_POWER)\<close>; the shift counts modulo the width on this machine.\<close>

definition slice_bytes :: "u32 \<Rightarrow> u32" where
  "slice_bytes i = push_bit (unat ((i + MIN_SLICE_POWER) AND 31)) 1"

text \<open>The body of the first two loops: take a slice of power \<open>i\<close> from the free ones.\<close>

definition gc_take_free ::
  "'e gc_env_scheme \<Rightarrow> bool \<Rightarrow> u32 \<Rightarrow> u32 \<Rightarrow> 'a gc_alloc_state_scheme conc \<Rightarrow>
   (ptr \<times> 'a gc_alloc_state_scheme conc) option" where
  "gc_take_free E for_gc gen i c = do {
     let index = gen - 1;
     src \<leftarrow> slices_at (gc_free_slices (fst c)) i index;
     dst \<leftarrow> slices_at (if \<not> for_gc then gc_used_slices (fst c) else gc_new_slices (fst c)) i index;
     (slc, c) \<leftarrow> gc_allocator_alloc_slice src dst c;
     if slc \<noteq> NULL then do {
       (_, c) \<leftarrow> gc_allocator_update_sizes E (slice_bytes i) gen False for_gc c;
       Some (slc, c) }
     else Some (slc, c) }"

text \<open>\<open>for(i = target; i >= min && NULL == slice; i--)\<close>, for unsigned \<open>i\<close>.\<close>

partial_function (option) gc_loop_down ::
  "(u32 \<Rightarrow> 'c \<Rightarrow> (ptr \<times> 'c) option) \<Rightarrow> u32 \<Rightarrow> u32 \<Rightarrow> ptr \<Rightarrow> 'c \<Rightarrow> (ptr \<times> 'c) option" where
  "gc_loop_down body lo i slc c =
     (if lo \<le> i \<and> slc = NULL then do {
        (slc, c) \<leftarrow> body i c;
        gc_loop_down body lo (i - 1) slc c }
      else Some (slc, c))"

text \<open>The second loop, upwards from above the minimum.\<close>

partial_function (option) gc_loop_up ::
  "'e gc_env_scheme \<Rightarrow> bool \<Rightarrow> u32 \<Rightarrow> u32 \<Rightarrow> ptr \<Rightarrow> 'a gc_alloc_state_scheme conc \<Rightarrow>
   (ptr \<times> 'a gc_alloc_state_scheme conc) option" where
  "gc_loop_up E for_gc gen i slc c =
     (if i < SLICE_POWERS \<and> slc = NULL then do {
        (ok, c) \<leftarrow> (if for_gc then Some (True, c) else gc_allocator_limit_check (slice_bytes i) c);
        if ok then do {
          (slc, c) \<leftarrow> gc_take_free E for_gc gen i c;
          gc_loop_up E for_gc gen (i + 1) slc c }
        else Some (slc, c) }
      else Some (slc, c))"

text \<open>The body of the third loop: allocate a slice, and push it on the used or new slices.\<close>

definition gc_take_new ::
  "'e gc_env_scheme \<Rightarrow> bool \<Rightarrow> u32 \<Rightarrow> u32 \<Rightarrow> 'a gc_alloc_state_scheme conc \<Rightarrow>
   (ptr \<times> 'a gc_alloc_state_scheme conc) option" where
  "gc_take_new E for_gc gen i c = do {
     let index = gen - 1;
     (slc, c) \<leftarrow> slice_alloc_in E SLICE_TYPE_GC SLICE_PROT_RWX (slice_bytes i) c;
     if slc \<noteq> NULL then do {
       dst \<leftarrow> slices_at (if for_gc then gc_used_slices (fst c) else gc_new_slices (fst c)) i index;
       (_, c) \<leftarrow> retry_until (push_attempt (word_loc dst) s_next_loc slc) c;
       (_, c) \<leftarrow> gc_allocator_update_sizes E (slice_bytes i) gen True for_gc c;
       Some (slc, c) }
     else Some (slc, c) }"

definition gc_allocator_do_refresh ::
  "'e gc_env_scheme \<Rightarrow> ptr \<Rightarrow> u32 \<Rightarrow> u32 \<Rightarrow> u32 \<Rightarrow> bool \<Rightarrow> 'a gc_alloc_state_scheme conc \<Rightarrow>
   (bool \<times> 'a gc_alloc_state_scheme conc) option" where
  "gc_allocator_do_refresh E allocator min_sz target gen for_gc c = do {
     let min_raw_power = (ucast (bitscan_high (env_bsr E) min_sz) :: u32);
     let target_raw_power = (ucast (bitscan_high (env_bsr E) target) :: u32);
     let min_slice_power = (if MIN_SLICE_POWER < min_raw_power then min_raw_power - MIN_SLICE_POWER else 0);
     let target_slice_power =
       (if MIN_SLICE_POWER < target_raw_power then target_raw_power - MIN_SLICE_POWER else 0);
     (slc, c) \<leftarrow> gc_loop_down (\<lambda>i c. do {
       (ok, c) \<leftarrow> (if for_gc then Some (True, c) else gc_allocator_limit_check (slice_bytes i) c);
       if ok then gc_take_free E for_gc gen i c else Some (NULL, c) })
       min_slice_power target_slice_power NULL c;
     (slc, c) \<leftarrow> gc_loop_up E for_gc gen (min_slice_power + 1) slc c;
     (slc, c) \<leftarrow> gc_loop_down (gc_take_new E for_gc gen) min_slice_power target_slice_power slc c;
     if slc \<noteq> NULL then do {
       (p, c) \<leftarrow> prd (s_ptr_loc slc) c;
       (_, c) \<leftarrow> pwr (word_loc allocator) p c;
       (p, c) \<leftarrow> prd (s_ptr_loc slc) c;
       (sz, c) \<leftarrow> prd (s_size_loc slc) c;
       (_, c) \<leftarrow> pwr (word_loc (allocator + 4)) (p + sz) c;
       Some (True, c) }
     else Some (False, c) }"

definition gc_allocator_refresh ::
  "'e gc_env_scheme \<Rightarrow> ptr \<Rightarrow> u32 \<Rightarrow> u32 \<Rightarrow> u32 \<Rightarrow> 'a gc_alloc_state_scheme conc \<Rightarrow>
   (bool \<times> 'a gc_alloc_state_scheme conc) option" where
  "gc_allocator_refresh E allocator min_sz target gen c = gc_allocator_do_refresh E allocator min_sz target gen False c"

subsection \<open>Allocating\<close>

definition get_target_size :: "u32 \<Rightarrow> u32" where
  "get_target_size min_sz =
     (let max_size = push_bit (unat MAX_SLICE_POWER) 1;
          min_size = push_bit (unat MIN_SLICE_POWER) 1;
          default_size = min_sz * 8
      in if min_sz < max_size div 8 then (if min_size < default_size then default_size else min_size) else max_size)"

text \<open>\<open>newptr\<close> is computed before the refresh and used after it.\<close>

definition gc_allocator_alloc ::
  "'e gc_env_scheme \<Rightarrow> ptr \<Rightarrow> u32 \<Rightarrow> u32 \<Rightarrow> 'a gc_alloc_state_scheme conc \<Rightarrow>
   (ptr \<times> 'a gc_alloc_state_scheme conc) option" where
  "gc_allocator_alloc E allocator sz gen c = do {
     let target = get_target_size sz;
     (p, c) \<leftarrow> prd (word_loc allocator) c;
     let newptr = p + sz;
     (limit, c) \<leftarrow> prd (word_loc (allocator + 4)) c;
     if newptr \<le> limit then do {
       (out, c) \<leftarrow> prd (word_loc allocator) c;
       (_, c) \<leftarrow> pwr (word_loc allocator) newptr c;
       Some (out, c) }
     else do {
       (ok, c) \<leftarrow> gc_allocator_refresh E allocator sz target gen c;
       if ok then do {
         (limit, c) \<leftarrow> prd (word_loc (allocator + 4)) c;
         if newptr \<le> limit then do {
           (out, c) \<leftarrow> prd (word_loc allocator) c;
           (_, c) \<leftarrow> pwr (word_loc allocator) newptr c;
           Some (out, c) }
         else None }
       else Some (NULL, c) } }"

text \<open>The address \<open>closure->gth_allocators[gen - 1]\<close>.\<close>

definition gth_allocator :: "ptr \<Rightarrow> u32 \<Rightarrow> ptr" where
  "gth_allocator gth_allocators gen = gth_allocators + 8 * (gen - 1)"

definition gc_allocator_gc_prealloc ::
  "'e gc_env_scheme \<Rightarrow> ptr \<Rightarrow> u32 \<Rightarrow> u32 \<Rightarrow> 'a gc_alloc_state_scheme conc \<Rightarrow>
   (ptr \<times> 'a gc_alloc_state_scheme conc) option" where
  "gc_allocator_gc_prealloc E gth_allocators sz gen c = do {
     let target = get_target_size sz;
     let allocator = gth_allocator gth_allocators gen;
     (p, c) \<leftarrow> prd (word_loc allocator) c;
     let newptr = p + sz;
     (limit, c) \<leftarrow> prd (word_loc (allocator + 4)) c;
     if newptr \<le> limit then prd (word_loc allocator) c
     else do {
       (ok, c) \<leftarrow> gc_allocator_do_refresh E allocator sz target gen True c;
       if ok then do {
         (limit, c) \<leftarrow> prd (word_loc (allocator + 4)) c;
         if newptr \<le> limit then prd (word_loc allocator) c else None }
       else Some (NULL, c) } }"

definition gc_allocator_gc_postalloc ::
  "ptr \<Rightarrow> u32 \<Rightarrow> u32 \<Rightarrow> 'a slice_state_scheme conc \<Rightarrow> (unit \<times> 'a slice_state_scheme conc) option" where
  "gc_allocator_gc_postalloc gth_allocators sz gen c = do {
     let allocator = gth_allocator gth_allocators gen;
     (p, c) \<leftarrow> prd (word_loc allocator) c;
     let newptr = p + sz;
     (limit, c) \<leftarrow> prd (word_loc (allocator + 4)) c;
     if newptr \<le> limit then pwr (word_loc allocator) newptr c else None }"

subsection \<open>Releasing slices\<close>

text \<open>\<open>while(NULL != curr->s_next) curr = curr->s_next;\<close>\<close>

partial_function (option) gc_last_slice ::
  "ptr \<Rightarrow> 'a slice_state_scheme conc \<Rightarrow> (ptr \<times> 'a slice_state_scheme conc) option" where
  "gc_last_slice cur c = do {
     (next, c) \<leftarrow> prd (s_next_loc cur) c;
     if next \<noteq> NULL then gc_last_slice next c else Some (cur, c) }"

definition gc_append_used ::
  "nat \<Rightarrow> nat \<Rightarrow> 'a gc_alloc_state_scheme conc \<Rightarrow> (unit \<times> 'a gc_alloc_state_scheme conc) option" where
  "gc_append_used i j c = do {
     free \<leftarrow> slices_at (gc_free_slices (fst c)) (of_nat i) (of_nat j);
     used \<leftarrow> slices_at (gc_used_slices (fst c)) (of_nat i) (of_nat j);
     (curr, c) \<leftarrow> prd (word_loc free) c;
     if curr = NULL then do {
       (u, c) \<leftarrow> prd (word_loc used) c;
       pwr (word_loc free) u c }
     else do {
       (curr, c) \<leftarrow> gc_last_slice curr c;
       (u, c) \<leftarrow> prd (word_loc used) c;
       pwr (s_next_loc curr) u c } }"

text \<open>The loops over all powers, and over the generations below \<open>gen - 1\<close>.\<close>

definition for_slices ::
  "u32 \<Rightarrow> (nat \<Rightarrow> nat \<Rightarrow> 'c \<Rightarrow> (unit \<times> 'c) option) \<Rightarrow> 'c \<Rightarrow> (unit \<times> 'c) option" where
  "for_slices gen body = foreach (\<lambda>i. foreach (\<lambda>j. body i j) [0..<unat (gen - 1)]) [0..<unat SLICE_POWERS]"

definition gc_allocator_release_slices ::
  "u32 \<Rightarrow> 'a gc_alloc_state_scheme conc \<Rightarrow> (unit \<times> 'a gc_alloc_state_scheme conc) option" where
  "gc_allocator_release_slices gen c = do {
     (_, c) \<leftarrow> for_slices gen gc_append_used c;
     (_, c) \<leftarrow> foreach (\<lambda>i c. do {
       let free = space_at (gc_free_space (fst c)) (of_nat i);
       (u, c) \<leftarrow> prd (space_at (gc_used_space (fst c)) (of_nat i)) c;
       (f, c) \<leftarrow> prd free c;
       pwr free (f + u) c }) [0..<unat (gen - 1)] c;
     (_, c) \<leftarrow> for_slices gen (\<lambda>i j c. do {
       used \<leftarrow> slices_at (gc_used_slices (fst c)) (of_nat i) (of_nat j);
       new \<leftarrow> slices_at (gc_new_slices (fst c)) (of_nat i) (of_nat j);
       (n, c) \<leftarrow> prd (word_loc new) c;
       pwr (word_loc used) n c }) c;
     (_, c) \<leftarrow> foreach (\<lambda>i c. do {
       let new = space_at (gc_new_space (fst c)) (of_nat i);
       (n, c) \<leftarrow> prd new c;
       (_, c) \<leftarrow> pwr (space_at (gc_used_space (fst c)) (of_nat i)) n c;
       pwr new 0 c }) [0..<unat (gen - 1)] c;
     for_slices gen (\<lambda>i j c. do {
       new \<leftarrow> slices_at (gc_new_slices (fst c)) (of_nat i) (of_nat j);
       pwr (word_loc new) NULL c }) c }"

subsection \<open>A memory\<close>

text \<open>A memory in which every word is mapped and \<open>0\<close>, with two slices, for the witnesses.\<close>

definition ex_gc :: gc_alloc_state where
  "ex_gc = \<lparr>words = (\<lambda>_. Some 0),
     slices = [0x80 \<mapsto> \<lparr>s_size = 0x4000, s_ptr = 0x20000, s_type = SLICE_TYPE_GC, s_usage = SLICE_USAGE_BLANK,
       s_prot = SLICE_PROT_RWX, s_next = NULL\<rparr>, 0x90 \<mapsto> \<lparr>s_size = 0x4000, s_ptr = 0x30000, s_type = SLICE_TYPE_GC,
       s_usage = SLICE_USAGE_BLANK, s_prot = SLICE_PROT_RWX, s_next = NULL\<rparr>],
     slice_free_list = NULL, total_size = 0, malloc_size = 0, gc_size = 0, slice_size = 0,
     total_limit = 0, malloc_limit = 0, gc_limit = 0, os_log = [],
     qnodes = (\<lambda>_. \<lparr>lfn_next = NULL, lfn_data = NULL\<rparr>), queues = (\<lambda>_. \<lparr>lf_head = NULL, lf_tail = NULL, lf_hptrs = []\<rparr>),
     lf_block_queue_hptrs = 1, lf_block_queue_hptr_threshold = 2, lf_block_queue_nodes = NULL,
     descs = (\<lambda>_. \<lparr>des_anchor = 0, des_next = NULL, des_slice = NULL, des_heap = NULL, des_size = 0, des_maxcount = 0\<rparr>),
     procheaps = (\<lambda>_. \<lparr>ph_partial = NULL, ph_active = 0, ph_sizeclass = 0\<rparr>),
     malloc_sizeclasses = [], malloc_desc_avail = NULL, malloc_procheaps = NULL,
     gc_num_generations = 2, gc_state = 0,
     gc_used_slices = [], gc_free_slices = [], gc_new_slices = [],
     gc_used_space = NULL, gc_free_space = NULL, gc_new_space = NULL\<rparr>"

end
