(* ===== verification/Thread_Queue.thy ===== *)
theory Thread_Queue
  imports GC_Alloc MS_Rely Hazard Fifo
begin

unbundle bit_operations_syntax

section \<open>The queues in static memory (\<open>src/cc/lf_thread_queue.c\<close>)\<close>

text \<open>
  The run queue of the scheduler: a Michael-Scott queue with hazard pointers whose nodes are
  allocated once, in static memory. Each executor has a private list of free nodes with a
  count, and there is one shared list; allocating and freeing a node balance the private
  list against the shared one. The object queue of the collector
  (\<open>src/mm/gc/lf_object_queue.c\<close>) is the same code with other names.

  The structures the memory holds are maps from addresses; an address they do not map is a
  memory fault. \<open>executor_count()\<close> is the argument \<open>ec\<close>. \<open>cache_line_t\<close> is a line of 32
  bytes. Loops over \<open>unsigned int\<close> indexes run over the naturals below the bound.
\<close>

subsection \<open>Data\<close>

record lf_thread_queue_node_t =
  lfn_next :: ptr
  lfn_data :: ptr

record lf_thread_queue_hazard_ptrs_t =
  thp_rcount :: u32
  thp_rlist :: ptr
  thp_ptrs :: "nat \<Rightarrow> ptr"

record lf_thread_queue_node_list_t =
  nl_list :: ptr
  nl_count :: u32

record lf_thread_queue_node_allocator_t =
  qna_shared_list :: ptr
  qna_count :: u32
  qna_lists :: "lf_thread_queue_node_list_t list"

record lf_thread_queue_t =
  lf_allocator :: ptr
  lf_head :: ptr
  lf_tail :: ptr
  lf_hptrs :: "lf_thread_queue_hazard_ptrs_t list"

record thread_queue_state = gc_alloc_state +
  tq_nodes :: "ptr \<Rightarrow> lf_thread_queue_node_t option"
  tq_queues :: "ptr \<Rightarrow> lf_thread_queue_t option"
  tq_allocs :: "ptr \<Rightarrow> lf_thread_queue_node_allocator_t option"
  lf_thread_queue_hptrs :: u32
  lf_thread_queue_hptr_threshold :: u32

abbreviation "tn_next_loc \<equiv> field_loc tq_nodes tq_nodes_update lfn_next lfn_next_update"
abbreviation "tn_data_loc \<equiv> field_loc tq_nodes tq_nodes_update lfn_data lfn_data_update"
abbreviation "tq_head_loc \<equiv> field_loc tq_queues tq_queues_update lf_head lf_head_update"
abbreviation "tq_tail_loc \<equiv> field_loc tq_queues tq_queues_update lf_tail lf_tail_update"
abbreviation "tq_alloc_loc \<equiv> field_loc tq_queues tq_queues_update lf_allocator lf_allocator_update"
abbreviation "tq_shared_loc \<equiv>
  field_loc tq_allocs tq_allocs_update qna_shared_list qna_shared_list_update"
abbreviation "tq_count_loc \<equiv> field_loc tq_allocs tq_allocs_update qna_count qna_count_update"

text \<open>A field of \<open>fifo->lf_hptrs[exec]\<close> and of \<open>alloc->qna_lists[exec]\<close>.\<close>

definition elem_loc ::
  "('s \<Rightarrow> ptr \<Rightarrow> 'r option) \<Rightarrow> (((ptr \<Rightarrow> 'r option) \<Rightarrow> ptr \<Rightarrow> 'r option) \<Rightarrow> 's \<Rightarrow> 's) \<Rightarrow>
   ('r \<Rightarrow> 'e list) \<Rightarrow> (('e list \<Rightarrow> 'e list) \<Rightarrow> 'r \<Rightarrow> 'r) \<Rightarrow>
   ('e \<Rightarrow> 'v) \<Rightarrow> (('v \<Rightarrow> 'v) \<Rightarrow> 'e \<Rightarrow> 'e) \<Rightarrow> ptr \<Rightarrow> u32 \<Rightarrow> ('s, 'v) loc" where
  "elem_loc heap heap_upd arr arr_upd get upd p i = Loc
     (\<lambda>s. if p = NULL then None else case heap s p of None \<Rightarrow> None
        | Some r \<Rightarrow> if unat i < length (arr r) then Some (get (arr r ! unat i)) else None)
     (\<lambda>v s. heap_upd (\<lambda>_. (heap s)(p := map_option
        (arr_upd (\<lambda>xs. xs[unat i := upd (\<lambda>_. v) (xs ! unat i)])) (heap s p))) s)"

lemma elem_loc_simps:
  "load (elem_loc heap hu arr au get upd p i) s =
     (if p = NULL then None else case heap s p of None \<Rightarrow> None
      | Some r \<Rightarrow> if unat i < length (arr r) then Some (get (arr r ! unat i)) else None)"
  "store (elem_loc heap hu arr au get upd p i) v s =
     hu (\<lambda>_. (heap s)(p := map_option (au (\<lambda>xs. xs[unat i := upd (\<lambda>_. v) (xs ! unat i)])) (heap s p))) s"
  by (simp_all add: elem_loc_def)

abbreviation "thp_loc \<equiv> elem_loc tq_queues tq_queues_update lf_hptrs lf_hptrs_update"
abbreviation "thp_rcount_loc \<equiv> thp_loc thp_rcount thp_rcount_update"
abbreviation "thp_rlist_loc \<equiv> thp_loc thp_rlist thp_rlist_update"
abbreviation "thp_ptrs_loc fifo exec j \<equiv>
  thp_loc (\<lambda>h. thp_ptrs h j) (\<lambda>f. thp_ptrs_update (\<lambda>ps. ps(j := f (ps j)))) fifo exec"
abbreviation "nl_loc \<equiv> elem_loc tq_allocs tq_allocs_update qna_lists qna_lists_update"
abbreviation "nl_list_loc \<equiv> nl_loc nl_list nl_list_update"
abbreviation "nl_count_loc \<equiv> nl_loc nl_count nl_count_update"

subsection \<open>Initialisation\<close>

text \<open>
  A node takes 8 bytes, the queue 12 and 16 for the hazard pointers of each executor, the
  allocator a cache line and one for each executor.
\<close>

definition tq_align :: "u32 \<Rightarrow> u32" where
  "tq_align sz = ((sz - 1) AND NOT (32 - 1)) + 32"

definition lf_thread_queue_request :: "u32 \<Rightarrow> u32 \<Rightarrow> u32" where
  "lf_thread_queue_request num execs =
     (let extra_nodes = execs * execs * 2 + execs * 2 + 1;
          nodes_size = 8 * (extra_nodes + num);
          aligned_nodes_size = tq_align nodes_size;
          queue_size = 12 + (16 + 2 * 4) * execs;
          aligned_queue_size = tq_align queue_size;
          allocator_size = 32 + execs * 32
      in aligned_queue_size + aligned_nodes_size + allocator_size)"

text \<open>\<open>nodes + k\<close>\<close>

definition tq_node_at :: "ptr \<Rightarrow> u32 \<Rightarrow> ptr" where
  "tq_node_at nodes k = nodes + k * 8"

definition lf_thread_queue_init ::
  "ptr \<Rightarrow> u32 \<Rightarrow> u32 \<Rightarrow> 'a thread_queue_state_scheme conc \<Rightarrow> (ptr \<times> 'a thread_queue_state_scheme conc) option" where
  "lf_thread_queue_init mem num execs c = (if execs = 0 then None else do {
     let extra_nodes = execs * execs * 2 + execs * 2 + 1;
     let executor_nodes = (num + extra_nodes - 1) div execs;
     let shared_nodes = (num + extra_nodes - 1) - executor_nodes * execs;
     let queue_size = 12 + (16 + 2 * 4) * execs;
     let aligned_queue_size = tq_align queue_size;
     let allocator_size = 32 + execs * 32;
     let fifo = mem;
     let allocator = fifo + aligned_queue_size;
     let nodes = allocator + allocator_size;
     let sentinel = tq_node_at nodes (num + extra_nodes - 1);
     let out = nodes + tq_align (8 * (extra_nodes + num));
     (_, c) \<leftarrow> foreach (\<lambda>i c. do {
         (_, c) \<leftarrow> pwr (tn_next_loc (tq_node_at nodes (of_nat i * executor_nodes))) NULL c;
         (_, c) \<leftarrow> pwr (nl_count_loc allocator (of_nat i)) executor_nodes c;
         (_, c) \<leftarrow> pwr (nl_list_loc allocator (of_nat i))
           (tq_node_at nodes (of_nat i * executor_nodes + (executor_nodes - 1))) c;
         foreach (\<lambda>j. pwr (tn_next_loc (tq_node_at nodes (of_nat i * executor_nodes + of_nat j)))
             (tq_node_at nodes (of_nat i * executor_nodes + of_nat j - 1)))
           [1..<unat executor_nodes] c }) [0..<unat execs] c;
     (_, c) \<leftarrow> (if shared_nodes = 0 then pwr (tq_shared_loc allocator) NULL c
       else do {
         (_, c) \<leftarrow> pwr (tq_shared_loc allocator) (tq_node_at nodes (num + extra_nodes - 1)) c;
         (_, c) \<leftarrow> pwr (tn_next_loc (tq_node_at nodes (executor_nodes * execs))) NULL c;
         foreach (\<lambda>i. pwr (tn_next_loc (tq_node_at nodes (of_nat i))) (tq_node_at nodes (of_nat i - 1)))
           [unat (executor_nodes * execs + 1)..<unat (num + extra_nodes - 1)] c });
     (_, c) \<leftarrow> pwr (tq_count_loc allocator) (num + extra_nodes) c;
     (_, c) \<leftarrow> pwr (global_loc lf_thread_queue_hptrs lf_thread_queue_hptrs_update) execs c;
     (_, c) \<leftarrow> pwr (global_loc lf_thread_queue_hptr_threshold lf_thread_queue_hptr_threshold_update)
       (execs * 2) c;
     (_, c) \<leftarrow> pwr (tn_next_loc sentinel) NULL c;
     (_, c) \<leftarrow> pwr (tn_data_loc sentinel) NULL c;
     (_, c) \<leftarrow> pwr (tq_head_loc fifo) sentinel c;
     (_, c) \<leftarrow> pwr (tq_tail_loc fifo) sentinel c;
     (_, c) \<leftarrow> pwr (tq_alloc_loc fifo) allocator c;
     (_, c) \<leftarrow> pwr (field_loc tq_queues tq_queues_update lf_hptrs lf_hptrs_update fifo)
       (replicate (unat execs) \<lparr>thp_rcount = 0, thp_rlist = NULL, thp_ptrs = (\<lambda>_. NULL)\<rparr>) c;
     Some (out, c) })"

subsection \<open>The allocator of nodes\<close>

definition lf_thread_queue_allocator_upper_bound ::
  "u32 \<Rightarrow> ptr \<Rightarrow> 'a thread_queue_state_scheme conc \<Rightarrow> (u32 \<times> 'a thread_queue_state_scheme conc) option" where
  "lf_thread_queue_allocator_upper_bound ec alloc c = do {
     (num_threads, c) \<leftarrow> prd (tq_count_loc alloc) c;
     let frac = drop_bit 2 num_threads;
     let numerator = num_threads + frac;
     if ec = 0 then None else do {
     let bound = numerator div ec;
     Some (if bound \<noteq> 0 then bound else 1, c) } }"

definition lf_thread_queue_allocator_lower_bound ::
  "u32 \<Rightarrow> ptr \<Rightarrow> 'a thread_queue_state_scheme conc \<Rightarrow> (u32 \<times> 'a thread_queue_state_scheme conc) option" where
  "lf_thread_queue_allocator_lower_bound ec alloc c = do {
     (num_threads, c) \<leftarrow> prd (tq_count_loc alloc) c;
     let frac = drop_bit 2 num_threads;
     let numerator = (if frac < num_threads then num_threads - frac else 0);
     if ec = 0 then None else do {
     let bound = numerator div ec;
     Some (if bound \<noteq> 0 then bound else 1, c) } }"

definition lf_thread_queue_node_alloc_try_push ::
  "ptr \<Rightarrow> ptr \<Rightarrow> 'a thread_queue_state_scheme conc \<Rightarrow> (bool \<times> 'a thread_queue_state_scheme conc) option" where
  "lf_thread_queue_node_alloc_try_push alloc node c = do {
     (head, c) \<leftarrow> rd (tq_shared_loc alloc) c;
     (_, c) \<leftarrow> pwr (tn_next_loc node) head c;
     atomic_compare_and_set_ptr head node (tq_shared_loc alloc) c }"

definition lf_thread_queue_node_alloc_push ::
  "ptr \<Rightarrow> ptr \<Rightarrow> 'a thread_queue_state_scheme conc \<Rightarrow> (unit \<times> 'a thread_queue_state_scheme conc) option" where
  "lf_thread_queue_node_alloc_push alloc node c =
     retry_until (lf_thread_queue_node_alloc_try_push alloc node) c"

definition lf_thread_queue_node_alloc_try_pull ::
  "ptr \<Rightarrow> 'a thread_queue_state_scheme conc \<Rightarrow> (ptr \<times> 'a thread_queue_state_scheme conc) option" where
  "lf_thread_queue_node_alloc_try_pull alloc c = do {
     (head, c) \<leftarrow> rd (tq_shared_loc alloc) c;
     (next, c) \<leftarrow> rd (tn_next_loc head) c;
     (ok, c) \<leftarrow> atomic_compare_and_set_ptr head next (tq_shared_loc alloc) c;
     Some (if ok then head else NULL, c) }"

definition lf_thread_queue_node_alloc_pull ::
  "ptr \<Rightarrow> 'a thread_queue_state_scheme conc \<Rightarrow> (ptr \<times> 'a thread_queue_state_scheme conc) option" where
  "lf_thread_queue_node_alloc_pull alloc c = retry (\<lambda>c. do {
     (out, c) \<leftarrow> rd (tq_shared_loc alloc) c;
     if out \<noteq> NULL then do {
       (next, c) \<leftarrow> rd (tn_next_loc out) c;
       (ok, c) \<leftarrow> atomic_compare_and_set_ptr out next (tq_shared_loc alloc) c;
       Some (if ok then Some out else None, c) }
     else Some (Some out, c) }) c"

definition lf_thread_queue_node_alloc_balance ::
  "u32 \<Rightarrow> ptr \<Rightarrow> u32 \<Rightarrow> 'a thread_queue_state_scheme conc \<Rightarrow>
   (unit \<times> 'a thread_queue_state_scheme conc) option" where
  "lf_thread_queue_node_alloc_balance ec alloc exec c = do {
     (upper, c) \<leftarrow> lf_thread_queue_allocator_upper_bound ec alloc c;
     (count, c) \<leftarrow> prd (nl_count_loc alloc exec) c;
     if upper < count then do {
       (node, c) \<leftarrow> prd (nl_list_loc alloc exec) c;
       (_, c) \<leftarrow> lf_thread_queue_node_alloc_push alloc node c;
       (next, c) \<leftarrow> rd (tn_next_loc node) c;
       pwr (nl_list_loc alloc exec) next c }
     else do {
       (lower, c) \<leftarrow> lf_thread_queue_allocator_lower_bound ec alloc c;
       if count < lower then do {
         (node, c) \<leftarrow> lf_thread_queue_node_alloc_pull alloc c;
         (list, c) \<leftarrow> prd (nl_list_loc alloc exec) c;
         (_, c) \<leftarrow> pwr (tn_next_loc node) list c;
         pwr (nl_list_loc alloc exec) node c }
       else Some ((), c) } }"

definition lf_thread_queue_node_alloc ::
  "u32 \<Rightarrow> ptr \<Rightarrow> u32 \<Rightarrow> 'a thread_queue_state_scheme conc \<Rightarrow>
   (ptr \<times> 'a thread_queue_state_scheme conc) option" where
  "lf_thread_queue_node_alloc ec fifo exec c = do {
     (alloc, c) \<leftarrow> prd (tq_alloc_loc fifo) c;
     (_, c) \<leftarrow> lf_thread_queue_node_alloc_balance ec alloc exec c;
     (out, c) \<leftarrow> prd (nl_list_loc alloc exec) c;
     if out \<noteq> NULL then do {
       (next, c) \<leftarrow> prd (tn_next_loc out) c;
       (_, c) \<leftarrow> pwr (nl_list_loc alloc exec) next c;
       (count, c) \<leftarrow> prd (nl_count_loc alloc exec) c;
       (_, c) \<leftarrow> pwr (nl_count_loc alloc exec) (count - 1) c;
       Some (out, c) }
     else Some (out, c) }"

definition lf_thread_queue_node_free ::
  "u32 \<Rightarrow> ptr \<Rightarrow> ptr \<Rightarrow> u32 \<Rightarrow> 'a thread_queue_state_scheme conc \<Rightarrow>
   (unit \<times> 'a thread_queue_state_scheme conc) option" where
  "lf_thread_queue_node_free ec fifo node exec c = do {
     (alloc, c) \<leftarrow> prd (tq_alloc_loc fifo) c;
     (lower, c) \<leftarrow> lf_thread_queue_allocator_lower_bound ec alloc c;
     (count, c) \<leftarrow> prd (nl_count_loc alloc exec) c;
     (_, c) \<leftarrow> (if lower < count then do {
         (list, c) \<leftarrow> prd (nl_list_loc alloc exec) c;
         (_, c) \<leftarrow> pwr (tn_next_loc node) list c;
         (_, c) \<leftarrow> pwr (nl_list_loc alloc exec) node c;
         pwr (nl_count_loc alloc exec) (count + 1) c }
       else lf_thread_queue_node_alloc_push alloc node c);
     lf_thread_queue_node_alloc_balance ec alloc exec c }"

subsection \<open>Hazard pointers\<close>

definition lf_thread_queue_ptab_lookup :: "ptab \<Rightarrow> ptr \<Rightarrow> u32 \<Rightarrow> bool option" where
  "lf_thread_queue_ptab_lookup t node sz = ptab_lookup t node sz"

definition lf_thread_queue_ptab_insert :: "ptab \<Rightarrow> nat \<Rightarrow> u32 \<Rightarrow> ptab" where
  "lf_thread_queue_ptab_insert t k sz = ptab_insert t k sz"

fun lf_thread_queue_build_loop ::
  "ptr \<Rightarrow> u32 \<Rightarrow> (nat \<times> nat) list \<Rightarrow> ptab \<Rightarrow> 'a thread_queue_state_scheme conc \<Rightarrow>
   (ptab \<times> 'a thread_queue_state_scheme conc) option" where
  "lf_thread_queue_build_loop fifo sz [] t c = Some (t, c)"
| "lf_thread_queue_build_loop fifo sz ((i, j) # ijs) t c = do {
     (v, c) \<leftarrow> rd (thp_ptrs_loc fifo (of_nat i) j) c;
     lf_thread_queue_build_loop fifo sz ijs (ptab_add t (2 * i + j) v sz) c }"

definition lf_thread_queue_scan_build_ptab ::
  "ptr \<Rightarrow> 'a thread_queue_state_scheme conc \<Rightarrow> (ptab \<times> 'a thread_queue_state_scheme conc) option" where
  "lf_thread_queue_scan_build_ptab fifo c = (
     let hptrs = lf_thread_queue_hptrs (fst c);
         sz = hptrs * 4 - 1
     in lf_thread_queue_build_loop fifo sz
          (concat (map (\<lambda>i. [(i, 0), (i, 1)]) [0..<unat hptrs]))
          (ptab_empty (2 * unat hptrs) sz) c)"

text \<open>The loop over the retired list: what is hazardous stays, the rest is freed.\<close>

partial_function (option) lf_thread_queue_scan_rlist_loop ::
  "u32 \<Rightarrow> ptr \<Rightarrow> ptab \<Rightarrow> u32 \<Rightarrow> u32 \<Rightarrow> ptr \<Rightarrow> 'a thread_queue_state_scheme conc \<Rightarrow>
   (unit \<times> 'a thread_queue_state_scheme conc) option" where
  "lf_thread_queue_scan_rlist_loop ec fifo t sz exec cur c =
     (if cur \<noteq> NULL then do {
        (next, c) \<leftarrow> prd (tn_next_loc cur) c;
        hazard \<leftarrow> lf_thread_queue_ptab_lookup t cur sz;
        if hazard then do {
          (rlist, c) \<leftarrow> prd (thp_rlist_loc fifo exec) c;
          (_, c) \<leftarrow> pwr (tn_next_loc cur) rlist c;
          (_, c) \<leftarrow> pwr (thp_rlist_loc fifo exec) cur c;
          (rcount, c) \<leftarrow> prd (thp_rcount_loc fifo exec) c;
          (_, c) \<leftarrow> pwr (thp_rcount_loc fifo exec) (rcount + 1) c;
          lf_thread_queue_scan_rlist_loop ec fifo t sz exec next c }
        else do {
          (_, c) \<leftarrow> lf_thread_queue_node_free ec fifo cur exec c;
          lf_thread_queue_scan_rlist_loop ec fifo t sz exec next c } }
      else Some ((), c))"

definition lf_thread_queue_scan_free_rlist ::
  "u32 \<Rightarrow> ptr \<Rightarrow> ptab \<Rightarrow> u32 \<Rightarrow> 'a thread_queue_state_scheme conc \<Rightarrow>
   (unit \<times> 'a thread_queue_state_scheme conc) option" where
  "lf_thread_queue_scan_free_rlist ec fifo t exec c = do {
     let sz = lf_thread_queue_hptrs (fst c) * 4 - 1;
     (cur, c) \<leftarrow> prd (thp_rlist_loc fifo exec) c;
     (_, c) \<leftarrow> pwr (thp_rlist_loc fifo exec) NULL c;
     (_, c) \<leftarrow> pwr (thp_rcount_loc fifo exec) 0 c;
     lf_thread_queue_scan_rlist_loop ec fifo t sz exec cur c }"

definition lf_thread_queue_scan ::
  "u32 \<Rightarrow> ptr \<Rightarrow> u32 \<Rightarrow> 'a thread_queue_state_scheme conc \<Rightarrow>
   (unit \<times> 'a thread_queue_state_scheme conc) option" where
  "lf_thread_queue_scan ec fifo exec c = do {
     (t, c) \<leftarrow> lf_thread_queue_scan_build_ptab fifo c;
     lf_thread_queue_scan_free_rlist ec fifo t exec c }"

definition lf_thread_queue_node_retire ::
  "u32 \<Rightarrow> ptr \<Rightarrow> ptr \<Rightarrow> u32 \<Rightarrow> 'a thread_queue_state_scheme conc \<Rightarrow>
   (unit \<times> 'a thread_queue_state_scheme conc) option" where
  "lf_thread_queue_node_retire ec fifo node exec c = do {
     (rlist, c) \<leftarrow> prd (thp_rlist_loc fifo exec) c;
     (_, c) \<leftarrow> wr (tn_next_loc node) rlist c;
     (_, c) \<leftarrow> pwr (thp_rlist_loc fifo exec) node c;
     (rcount, c) \<leftarrow> prd (thp_rcount_loc fifo exec) c;
     (_, c) \<leftarrow> pwr (thp_rcount_loc fifo exec) (rcount + 1) c;
     if lf_thread_queue_hptr_threshold (fst c) \<le> rcount then lf_thread_queue_scan ec fifo exec c
     else Some ((), c) }"

definition lf_thread_queue_destroy ::
  "ptr \<Rightarrow> u32 \<Rightarrow> 'a thread_queue_state_scheme conc \<Rightarrow> (unit \<times> 'a thread_queue_state_scheme conc) option" where
  "lf_thread_queue_destroy fifo exec c = Some ((), c)"

subsection \<open>Enqueueing and dequeueing\<close>

definition lf_thread_queue_try_enqueue ::
  "ptr \<Rightarrow> ptr \<Rightarrow> u32 \<Rightarrow> 'a thread_queue_state_scheme conc \<Rightarrow>
   (ptr \<times> 'a thread_queue_state_scheme conc) option" where
  "lf_thread_queue_try_enqueue fifo node exec c = do {
     (tail, c) \<leftarrow> rd (tq_tail_loc fifo) c;
     (_, c) \<leftarrow> wr (thp_ptrs_loc fifo exec 0) tail c;
     (tail2, c) \<leftarrow> rd (tq_tail_loc fifo) c;
     if tail = tail2 then do {
       (next, c) \<leftarrow> rd (tn_next_loc tail) c;
       (tail3, c) \<leftarrow> rd (tq_tail_loc fifo) c;
       if tail = tail3 then
         (if next \<noteq> NULL then do {
            (_, c) \<leftarrow> atomic_compare_and_set_ptr tail next (tq_tail_loc fifo) c;
            Some (NULL, c) }
          else do {
            (ok, c) \<leftarrow> atomic_compare_and_set_ptr NULL node (tn_next_loc tail) c;
            Some (if ok then tail else NULL, c) })
       else Some (NULL, c) }
     else Some (NULL, c) }"

definition lf_thread_queue_enqueue ::
  "u32 \<Rightarrow> ptr \<Rightarrow> ptr \<Rightarrow> u32 \<Rightarrow> 'a thread_queue_state_scheme conc \<Rightarrow>
   (bool \<times> 'a thread_queue_state_scheme conc) option" where
  "lf_thread_queue_enqueue ec fifo thread exec c = do {
     (node, c) \<leftarrow> lf_thread_queue_node_alloc ec fifo exec c;
     if node \<noteq> NULL then do {
       (_, c) \<leftarrow> pwr (tn_data_loc node) thread c;
       (_, c) \<leftarrow> pwr (tn_next_loc node) NULL c;
       (tail, c) \<leftarrow> retry_nonnull (lf_thread_queue_try_enqueue fifo node exec) c;
       (_, c) \<leftarrow> atomic_compare_and_set_ptr tail node (tq_tail_loc fifo) c;
       (_, c) \<leftarrow> wr (thp_ptrs_loc fifo exec 0) NULL c;
       Some (True, c) }
     else Some (False, c) }"

definition lf_thread_queue_try_dequeue ::
  "u32 \<Rightarrow> ptr \<Rightarrow> u32 \<Rightarrow> 'a thread_queue_state_scheme conc \<Rightarrow>
   (opt_t \<times> 'a thread_queue_state_scheme conc) option" where
  "lf_thread_queue_try_dequeue ec fifo exec c = do {
     (head, c) \<leftarrow> rd (tq_head_loc fifo) c;
     let out = \<lparr>o_value = NULL, o_valid = False\<rparr>;
     (_, c) \<leftarrow> wr (thp_ptrs_loc fifo exec 0) head c;
     (head2, c) \<leftarrow> rd (tq_head_loc fifo) c;
     if head = head2 then do {
       (tail, c) \<leftarrow> rd (tq_tail_loc fifo) c;
       (next, c) \<leftarrow> rd (tn_next_loc head) c;
       (_, c) \<leftarrow> wr (thp_ptrs_loc fifo exec 1) next c;
       (head3, c) \<leftarrow> rd (tq_head_loc fifo) c;
       if head = head3 then
         (if next \<noteq> NULL then
            (if head \<noteq> tail then do {
               (ok, c) \<leftarrow> atomic_compare_and_set_ptr head next (tq_head_loc fifo) c;
               if ok then do {
                 (data, c) \<leftarrow> rd (tn_data_loc next) c;
                 (_, c) \<leftarrow> wr (thp_ptrs_loc fifo exec 1) NULL c;
                 (_, c) \<leftarrow> lf_thread_queue_node_retire ec fifo head exec c;
                 (_, c) \<leftarrow> wr (thp_ptrs_loc fifo exec 0) NULL c;
                 Some (\<lparr>o_value = data, o_valid = True\<rparr>, c) }
               else Some (out, c) }
             else do {
               (_, c) \<leftarrow> atomic_compare_and_set_ptr tail next (tq_tail_loc fifo) c;
               Some (out, c) })
          else do {
            (_, c) \<leftarrow> wr (thp_ptrs_loc fifo exec 0) NULL c;
            (_, c) \<leftarrow> wr (thp_ptrs_loc fifo exec 1) NULL c;
            Some (out\<lparr>o_valid := True\<rparr>, c) })
       else Some (out, c) }
     else Some (out, c) }"

definition lf_thread_queue_dequeue ::
  "u32 \<Rightarrow> ptr \<Rightarrow> u32 \<Rightarrow> 'a thread_queue_state_scheme conc \<Rightarrow>
   (ptr \<times> 'a thread_queue_state_scheme conc) option" where
  "lf_thread_queue_dequeue ec fifo exec c = retry_valid (lf_thread_queue_try_dequeue ec fifo exec) c"

subsection \<open>The interfaces\<close>

text \<open>A queue and its allocator are in memory, with entries for the calling executor.\<close>

abbreviation "tq_al s fifo \<equiv> lf_allocator (the (tq_queues s fifo))"
abbreviation "tq_hp s fifo exec \<equiv> lf_hptrs (the (tq_queues s fifo)) ! unat exec"
abbreviation "tq_nl s fifo exec \<equiv> qna_lists (the (tq_allocs s (tq_al s fifo))) ! unat exec"
abbreviation "tq_total s fifo \<equiv> qna_count (the (tq_allocs s (tq_al s fifo)))"

definition nl_live :: "ptr \<Rightarrow> u32 \<Rightarrow> 'a thread_queue_state_scheme \<Rightarrow> bool" where
  "nl_live p exec s \<longleftrightarrow> p \<noteq> NULL \<and> tq_allocs s p \<noteq> None \<and> unat exec < length (qna_lists (the (tq_allocs s p)))"

definition tq_live :: "ptr \<Rightarrow> u32 \<Rightarrow> 'a thread_queue_state_scheme \<Rightarrow> bool" where
  "tq_live fifo exec s \<longleftrightarrow> fifo \<noteq> NULL \<and> tq_queues s fifo \<noteq> None \<and>
     unat exec < length (lf_hptrs (the (tq_queues s fifo))) \<and>
     nl_live (tq_al s fifo) exec s"

lemma tq_live_nl [simp]: "tq_live fifo exec s \<Longrightarrow> nl_live (tq_al s fifo) exec s"
  by (simp add: tq_live_def)

lemma nl_live_load [simp]:
  assumes "nl_live p exec s"
  shows "load (nl_loc get upd p exec) s = Some (get (qna_lists (the (tq_allocs s p)) ! unat exec))"
    "load (tq_count_loc p) s = Some (qna_count (the (tq_allocs s p)))"
  using assms by (auto simp: nl_live_def elem_loc_simps)

lemma tq_live_load [simp]:
  assumes "tq_live fifo exec s"
  shows "load (thp_loc get upd fifo exec) s = Some (get (tq_hp s fifo exec))"
    "load (tq_alloc_loc fifo) s = Some (tq_al s fifo)"
  using assms by (auto simp: tq_live_def elem_loc_simps)

lemma thp_store [simp]:
  fixes get upd v and fifo :: ptr and exec :: u32
  defines "t s \<equiv> store (thp_loc get upd fifo exec) v s"
  shows "tq_nodes (t s) = tq_nodes s" "tq_allocs (t s) = tq_allocs s"
    "lf_thread_queue_hptrs (t s) = lf_thread_queue_hptrs s"
    "lf_thread_queue_hptr_threshold (t s) = lf_thread_queue_hptr_threshold s"
    "thread_queue_state.more (t s) = thread_queue_state.more s"
    "nl_live p e (t s) = nl_live p e s" "tq_live f e (t s) = tq_live f e s" "tq_al (t s) fifo = tq_al s fifo"
    "length (lf_hptrs (the (tq_queues (t s) fifo))) = length (lf_hptrs (the (tq_queues s fifo)))"
    "load (tq_head_loc f) (t s) = load (tq_head_loc f) s" "load (tq_tail_loc f) (t s) = load (tq_tail_loc f) s"
    "tq_live fifo exec s \<Longrightarrow> tq_hp (t s) fifo exec = upd (\<lambda>_. v) (tq_hp s fifo exec)"
  unfolding t_def
  by (cases "tq_queues s fifo"; auto simp: elem_loc_simps tq_live_def nl_live_def simp del: tq_live_nl)+

lemma nl_store [simp]:
  fixes get upd v and p :: ptr and exec :: u32
  defines "t s \<equiv> store (nl_loc get upd p exec) v s"
  shows "tq_nodes (t s) = tq_nodes s" "tq_queues (t s) = tq_queues s"
    "lf_thread_queue_hptrs (t s) = lf_thread_queue_hptrs s"
    "lf_thread_queue_hptr_threshold (t s) = lf_thread_queue_hptr_threshold s"
    "thread_queue_state.more (t s) = thread_queue_state.more s"
    "nl_live q e (t s) = nl_live q e s" "tq_live f e (t s) = tq_live f e s"
    "qna_count (the (tq_allocs (t s) q)) = qna_count (the (tq_allocs s q))"
    "nl_live p exec s \<Longrightarrow> qna_lists (the (tq_allocs (t s) p)) ! unat exec =
       upd (\<lambda>_. v) (qna_lists (the (tq_allocs s p)) ! unat exec)"
  unfolding t_def
  by (cases "tq_allocs s p"; auto simp: elem_loc_simps tq_live_def nl_live_def)+

interpretation tq_ms: ms_locs tn_next_loc "tq_head_loc fifo" "tq_tail_loc fifo" tn_data_loc
    "\<lambda>j. thp_ptrs_loc fifo exec j" "tq_live fifo exec" for fifo exec
  by unfold_locales (auto simp: tq_live_def nl_live_def elem_loc_simps option.map_comp comp_def split: if_splits)

interpretation tq_hz: ms_hazard tn_next_loc "tq_head_loc fifo" "tq_tail_loc fifo" tn_data_loc
    "\<lambda>j. thp_ptrs_loc fifo exec j" "tq_live fifo exec" for fifo exec
  by unfold_locales (auto simp: tq_live_def elem_loc_simps comp_def split: option.split)

lemma lf_thread_queue_try_enqueue_ms:
  "lf_thread_queue_try_enqueue fifo node exec =
     ms_try_enqueue (tq_tail_loc fifo) tn_next_loc (\<lambda>j. thp_ptrs_loc fifo exec j) node"
  by (intro ext) (unfold lf_thread_queue_try_enqueue_def ms_try_enqueue_def, rule refl)

lemma lf_thread_queue_try_dequeue_ms:
  "lf_thread_queue_try_dequeue ec fifo exec =
     ms_try_dequeue (tq_head_loc fifo) (tq_tail_loc fifo) tn_next_loc tn_data_loc
       (\<lambda>j. thp_ptrs_loc fifo exec j) (\<lambda>node. lf_thread_queue_node_retire ec fifo node exec)"
  by (intro ext) (unfold lf_thread_queue_try_dequeue_def ms_try_dequeue_def, rule refl)

text \<open>The next pointer of a node, and writing it.\<close>

definition tnext :: "'a thread_queue_state_scheme \<Rightarrow> ptr \<Rightarrow> ptr option" where
  "tnext s p = load (tn_next_loc p) s"

definition tset :: "ptr \<Rightarrow> ptr \<Rightarrow> 'a thread_queue_state_scheme \<Rightarrow> 'a thread_queue_state_scheme" where
  "tset p v s = store (tn_next_loc p) v s"

lemma tnext_set [simp]: "tnext s p \<noteq> None \<Longrightarrow> tnext (tset p v s) = (tnext s)(p \<mapsto> v)"
  by (auto simp: tnext_def tset_def fun_eq_iff split: if_splits)

lemma tnext_NULL [simp]: "tnext s NULL = None"
  by (simp add: tnext_def)

lemma tnext_thp [simp]: "tnext (store (thp_loc get upd fifo exec) v s) = tnext s"
  by (simp add: tnext_def fun_eq_iff)

lemma tnext_nl [simp]: "tnext (store (nl_loc get upd p exec) v s) = tnext s"
  by (simp add: tnext_def fun_eq_iff)

lemma tset_frame [simp]:
  "tq_queues (tset p v s) = tq_queues s" "tq_allocs (tset p v s) = tq_allocs s"
  "lf_thread_queue_hptrs (tset p v s) = lf_thread_queue_hptrs s"
  "lf_thread_queue_hptr_threshold (tset p v s) = lf_thread_queue_hptr_threshold s"
  "thread_queue_state.more (tset p v s) = thread_queue_state.more s"
  "nl_live q exec (tset p v s) = nl_live q exec s"
  "tq_live fifo exec (tset p v s) = tq_live fifo exec s"
  by (simp_all add: tset_def tq_live_def nl_live_def)

lemma tnext_access [simp]:
  "prd (tn_next_loc p) (s, fs) = (case tnext s p of None \<Rightarrow> None | Some v \<Rightarrow> Some (v, (s, fs)))"
  "pwr (tn_next_loc p) v (s, fs) = (case tnext s p of None \<Rightarrow> None | Some _ \<Rightarrow> Some ((), (tset p v s, fs)))"
  "wr (tn_next_loc p) v (s, []) = (case tnext s p of None \<Rightarrow> None | Some _ \<Rightarrow> Some ((), (tset p v s, [])))"
  by (auto simp: prd_def pwr_def wr_def tnext_def tset_def Let_def simp del: field_loc_simps split: option.splits)

lemma tq_access [simp]:
  assumes "tq_live fifo exec s"
  shows "prd (thp_loc get upd fifo exec) (s, fs) = Some (get (tq_hp s fifo exec), (s, fs))"
    "pwr (thp_loc get upd fifo exec) v (s, fs) = Some ((), (store (thp_loc get upd fifo exec) v s, fs))"
    "prd (tq_alloc_loc fifo) (s, fs) = Some (tq_al s fifo, (s, fs))"
  using assms by (simp_all add: prd_def pwr_def del: field_loc_simps)

lemma nl_access [simp]:
  assumes "nl_live p exec s"
  shows "prd (nl_loc get upd p exec) (s, fs) = Some (get (qna_lists (the (tq_allocs s p)) ! unat exec), (s, fs))"
    "pwr (nl_loc get upd p exec) v (s, fs) = Some ((), (store (nl_loc get upd p exec) v s, fs))"
    "prd (tq_count_loc p) (s, fs) = Some (qna_count (the (tq_allocs s p)), (s, fs))"
  using assms nl_live_load(2) [OF assms] by (simp_all add: prd_def pwr_def del: field_loc_simps)

subsection \<open>The private list\<close>

text \<open>The bounds as functions of the number of nodes and of executors.\<close>

definition tq_upper :: "u32 \<Rightarrow> u32 \<Rightarrow> u32" where
  "tq_upper ec n = (let b = (n + drop_bit 2 n) div ec in if b \<noteq> 0 then b else 1)"

definition tq_lower :: "u32 \<Rightarrow> u32 \<Rightarrow> u32" where
  "tq_lower ec n = (let b = (if drop_bit 2 n < n then n - drop_bit 2 n else 0) div ec in if b \<noteq> 0 then b else 1)"

lemma bounds_quiet:
  assumes "tq_live fifo exec s" "ec \<noteq> 0"
  shows "lf_thread_queue_allocator_upper_bound ec (tq_al s fifo) (s, fs) = Some (tq_upper ec (tq_total s fifo), (s, fs))"
    "lf_thread_queue_allocator_lower_bound ec (tq_al s fifo) (s, fs) = Some (tq_lower ec (tq_total s fifo), (s, fs))"
  using nl_access(3) [OF tq_live_nl [OF assms(1)]] assms(2)
  by (simp_all add: lf_thread_queue_allocator_upper_bound_def Let_def tq_upper_def
      lf_thread_queue_allocator_lower_bound_def tq_lower_def)

lemma balance_quiet:
  assumes "tq_live fifo exec s" "ec \<noteq> 0"
    "tq_lower ec (tq_total s fifo) \<le> nl_count (tq_nl s fifo exec)"
    "nl_count (tq_nl s fifo exec) \<le> tq_upper ec (tq_total s fifo)"
  shows "lf_thread_queue_node_alloc_balance ec (tq_al s fifo) exec (s, fs) = Some ((), (s, fs))"
  using assms leD [OF assms(3)] leD [OF assms(4)]
  by (simp add: lf_thread_queue_node_alloc_balance_def bounds_quiet)

text \<open>The free nodes of an executor; \<open>tq_room\<close> is the range in which no balancing happens.\<close>

definition tq_private :: "'a thread_queue_state_scheme \<Rightarrow> ptr \<Rightarrow> u32 \<Rightarrow> ptr list \<Rightarrow> bool" where
  "tq_private s fifo exec free \<longleftrightarrow> tq_live fifo exec s \<and> length free < 2 ^ 32 \<and>
     chain (tnext s) (nl_list (tq_nl s fifo exec)) free NULL \<and> nl_count (tq_nl s fifo exec) = of_nat (length free)"

definition tq_room :: "u32 \<Rightarrow> 'a thread_queue_state_scheme \<Rightarrow> ptr \<Rightarrow> nat \<Rightarrow> bool" where
  "tq_room ec s fifo n \<longleftrightarrow> ec \<noteq> 0 \<and> unat (tq_lower ec (tq_total s fifo)) \<le> n \<and>
     n \<le> unat (tq_upper ec (tq_total s fifo))"

lemma tq_room_count:
  assumes "tq_private s fifo exec free" "tq_room ec s fifo (length free)"
  shows "tq_lower ec (tq_total s fifo) \<le> nl_count (tq_nl s fifo exec)"
    "nl_count (tq_nl s fifo exec) \<le> tq_upper ec (tq_total s fifo)"
  using assms by (auto simp: tq_private_def tq_room_def word_le_nat_alt unat_of_nat)

text \<open>A node taken from the private list, and one put on it.\<close>

definition tq_take :: "ptr \<Rightarrow> u32 \<Rightarrow> ptr \<Rightarrow> 'a thread_queue_state_scheme \<Rightarrow> 'a thread_queue_state_scheme" where
  "tq_take fifo exec y s = (let t = store (nl_list_loc (tq_al s fifo) exec) y s in
     store (nl_count_loc (tq_al t fifo) exec) (nl_count (tq_nl s fifo exec) - 1) t)"

definition tq_give :: "ptr \<Rightarrow> u32 \<Rightarrow> ptr \<Rightarrow> 'a thread_queue_state_scheme \<Rightarrow> 'a thread_queue_state_scheme" where
  "tq_give fifo exec x s = (let t = tset x (nl_list (tq_nl s fifo exec)) s;
     u = store (nl_list_loc (tq_al t fifo) exec) x t in
     store (nl_count_loc (tq_al u fifo) exec) (nl_count (tq_nl s fifo exec) + 1) u)"

lemma tq_take_frame [simp]:
  "tq_nodes (tq_take fifo exec y s) = tq_nodes s" "tq_queues (tq_take fifo exec y s) = tq_queues s"
  "tnext (tq_take fifo exec y s) = tnext s"
  "lf_thread_queue_hptrs (tq_take fifo exec y s) = lf_thread_queue_hptrs s"
  "lf_thread_queue_hptr_threshold (tq_take fifo exec y s) = lf_thread_queue_hptr_threshold s"
  "thread_queue_state.more (tq_take fifo exec y s) = thread_queue_state.more s"
  "nl_live q e (tq_take fifo exec y s) = nl_live q e s" "tq_live f e (tq_take fifo exec y s) = tq_live f e s"
  "qna_count (the (tq_allocs (tq_take fifo exec y s) q)) = qna_count (the (tq_allocs s q))"
  unfolding tq_take_def Let_def by simp_all

lemma tq_give_frame [simp]:
  "tq_queues (tq_give fifo exec x s) = tq_queues s"
  "tnext s x \<noteq> None \<Longrightarrow> tnext (tq_give fifo exec x s) = (tnext s)(x \<mapsto> nl_list (tq_nl s fifo exec))"
  "tq_nodes (tq_give fifo exec x s) = tq_nodes (tset x (nl_list (tq_nl s fifo exec)) s)"
  "lf_thread_queue_hptrs (tq_give fifo exec x s) = lf_thread_queue_hptrs s"
  "lf_thread_queue_hptr_threshold (tq_give fifo exec x s) = lf_thread_queue_hptr_threshold s"
  "nl_live q e (tq_give fifo exec x s) = nl_live q e s" "tq_live f e (tq_give fifo exec x s) = tq_live f e s"
  "qna_count (the (tq_allocs (tq_give fifo exec x s) q)) = qna_count (the (tq_allocs s q))"
  unfolding tq_give_def Let_def by simp_all

lemma tq_private_take:
  "tq_private s fifo exec (f # free) \<Longrightarrow> tnext s f = Some y \<Longrightarrow> tq_private (tq_take fifo exec y s) fifo exec free"
  by (auto simp: tq_private_def tq_take_def Let_def)

lemma tq_private_give:
  assumes "tq_private s fifo exec free" "x \<notin> set free" "x \<noteq> NULL" "tnext s x \<noteq> None" "length free + 1 < 2 ^ 32"
  shows "tq_private (tq_give fifo exec x s) fifo exec (x # free)"
  using assms by (auto simp: tq_private_def tq_give_def Let_def)

lemma node_alloc_quiet:
  assumes p: "tq_private s fifo exec (f # free)" and room: "tq_room ec s fifo (length (f # free))"
  shows "\<exists>y. tnext s f = Some y \<and> f \<noteq> NULL \<and>
    lf_thread_queue_node_alloc ec fifo exec (s, fs) = Some (f, (tq_take fifo exec y s, fs))"
proof -
  have lv: "tq_live fifo exec s" using p by (simp add: tq_private_def)
  from p obtain y where y: "tnext s f = Some y" "f \<noteq> NULL" "nl_list (tq_nl s fifo exec) = f"
    by (auto simp: tq_private_def split: option.splits)
  have "lf_thread_queue_node_alloc_balance ec (tq_al s fifo) exec (s, fs) = Some ((), (s, fs))"
    using room by (intro balance_quiet lv tq_room_count [OF p room]) (simp add: tq_room_def)
  then show ?thesis using lv y
    by (simp add: lf_thread_queue_node_alloc_def tq_take_def Let_def)
qed

text \<open>Freeing above the lower bound puts the node on the private list.\<close>

lemma node_free_quiet:
  assumes p: "tq_private s fifo exec free" and x: "x \<notin> set free" "tnext s x \<noteq> None"
    and room: "ec \<noteq> 0" "unat (tq_lower ec (tq_total s fifo)) < length free"
      "length free + 1 \<le> unat (tq_upper ec (tq_total s fifo))"
  shows "lf_thread_queue_node_free ec fifo x exec (s, fs) = Some ((), (tq_give fifo exec x s, fs))"
    "tq_private (tq_give fifo exec x s) fifo exec (x # free)"
proof -
  have lv: "tq_live fifo exec s" using p by (simp add: tq_private_def)
  have x0: "x \<noteq> NULL" using x(2) by auto
  have b: "unat (tq_upper ec (tq_total s fifo)) < 2 ^ 32"
    using unsigned_less [of "tq_upper ec (tq_total s fifo)"] by simp
  then have len: "length free + 1 < 2 ^ 32" using room by linarith
  show g: "tq_private (tq_give fifo exec x s) fifo exec (x # free)"
    by (rule tq_private_give [OF p x(1) x0 x(2) len])
  have "tq_room ec (tq_give fifo exec x s) fifo (length (x # free))"
    using room lv by (simp add: tq_room_def)
  note cnt = tq_room_count [OF g this]
  have bal: "lf_thread_queue_node_alloc_balance ec (tq_al s fifo) exec (tq_give fifo exec x s, fs) =
      Some ((), (tq_give fifo exec x s, fs))"
    using balance_quiet [of fifo exec "tq_give fifo exec x s" ec fs] lv room(1) cnt by simp
  have lt: "tq_lower ec (tq_total s fifo) < nl_count (tq_nl s fifo exec)"
    using p room len by (auto simp: tq_private_def word_less_nat_alt unat_of_nat)
  obtain v where v: "tnext s x = Some v" using x(2) by blast
  show "lf_thread_queue_node_free ec fifo x exec (s, fs) = Some ((), (tq_give fifo exec x s, fs))"
    using bal lt v lv room(1)
    by (simp add: lf_thread_queue_node_free_def bounds_quiet tq_give_def Let_def)
qed

subsection \<open>Retiring and scanning\<close>

text \<open>The retired list of an executor, and one hazardous node put back on it.\<close>

definition tq_retired :: "'a thread_queue_state_scheme \<Rightarrow> ptr \<Rightarrow> u32 \<Rightarrow> ptr list \<Rightarrow> bool" where
  "tq_retired s fifo exec rl \<longleftrightarrow> tq_live fifo exec s \<and>
     chain (tnext s) (thp_rlist (tq_hp s fifo exec)) rl NULL \<and> thp_rcount (tq_hp s fifo exec) = of_nat (length rl)"

definition tq_retire_one :: "ptr \<Rightarrow> u32 \<Rightarrow> ptr \<Rightarrow> 'a thread_queue_state_scheme \<Rightarrow> 'a thread_queue_state_scheme" where
  "tq_retire_one fifo exec x s = (let h = tq_hp s fifo exec in
     store (thp_rcount_loc fifo exec) (thp_rcount h + 1)
       (store (thp_rlist_loc fifo exec) x (tset x (thp_rlist h) s)))"

lemma tq_retire_one_frame [simp]:
  "tnext s x \<noteq> None \<Longrightarrow> tnext (tq_retire_one fifo exec x s) = (tnext s)(x \<mapsto> thp_rlist (tq_hp s fifo exec))"
  "tq_allocs (tq_retire_one fifo exec x s) = tq_allocs s"
  "lf_thread_queue_hptrs (tq_retire_one fifo exec x s) = lf_thread_queue_hptrs s"
  "lf_thread_queue_hptr_threshold (tq_retire_one fifo exec x s) = lf_thread_queue_hptr_threshold s"
  "length (lf_hptrs (the (tq_queues (tq_retire_one fifo exec x s) fifo))) = length (lf_hptrs (the (tq_queues s fifo)))"
  "tq_al (tq_retire_one fifo exec x s) fifo = tq_al s fifo"
  "tq_live f e (tq_retire_one fifo exec x s) = tq_live f e s"
  unfolding tq_retire_one_def Let_def by simp_all

lemma tq_retired_push:
  "tq_retired s fifo exec rl \<Longrightarrow> x \<notin> set rl \<Longrightarrow> x \<noteq> NULL \<Longrightarrow> tnext s x \<noteq> None \<Longrightarrow>
   tq_retired (tq_retire_one fifo exec x s) fifo exec (x # rl)"
  by (simp add: tq_retired_def tq_retire_one_def Let_def)

lemma tq_retired_give [simp]:
  "x \<notin> set rl \<Longrightarrow> tnext s x \<noteq> None \<Longrightarrow> tq_retired (tq_give fifo exec x s) fifo exec rl = tq_retired s fifo exec rl"
  by (simp add: tq_retired_def)

lemma tq_private_retire_one [simp]:
  "x \<notin> set free \<Longrightarrow> tnext s x \<noteq> None \<Longrightarrow>
   tq_private (tq_retire_one fifo exec x s) fifo exec free = tq_private s fifo exec free"
  by (simp add: tq_private_def)

text \<open>What the retiring of a node keeps of everything else.\<close>

definition tq_step :: "ptr \<Rightarrow> u32 \<Rightarrow> ptr set \<Rightarrow> ('a thread_queue_state_scheme \<Rightarrow> bool) \<Rightarrow> bool" where
  "tq_step fifo exec A I \<longleftrightarrow>
     (\<forall>x v s. x \<in> A \<longrightarrow> I s \<longrightarrow> I (tset x v s)) \<and>
     (\<forall>v s. I s \<longrightarrow> I (store (thp_rlist_loc fifo exec) v s)) \<and>
     (\<forall>v s. I s \<longrightarrow> I (store (thp_rcount_loc fifo exec) v s)) \<and>
     (\<forall>p v s. I s \<longrightarrow> I (store (nl_list_loc p exec) v s)) \<and>
     (\<forall>p v s. I s \<longrightarrow> I (store (nl_count_loc p exec) v s))"

lemma tq_stepI:
  assumes "\<And>x v s. x \<in> A \<Longrightarrow> I s \<Longrightarrow> I (tset x v s)"
    and "\<And>v s. I s \<Longrightarrow> I (store (thp_rlist_loc fifo exec) v s)"
    and "\<And>v s. I s \<Longrightarrow> I (store (thp_rcount_loc fifo exec) v s)"
    and "\<And>p v s. I s \<Longrightarrow> I (store (nl_list_loc p exec) v s)"
    and "\<And>p v s. I s \<Longrightarrow> I (store (nl_count_loc p exec) v s)"
  shows "tq_step fifo exec A I"
  using assms unfolding tq_step_def by (intro conjI allI impI)

lemma tq_step_conj:
  assumes "tq_step fifo exec A I" "tq_step fifo exec A J"
  shows "tq_step fifo exec A (\<lambda>s. I s \<and> J s)"
  by (rule tq_stepI) (use assms in \<open>simp_all add: tq_step_def\<close>)

lemma tq_step_one:
  assumes "tq_step fifo exec A I" "x \<in> A" "I s"
  shows "I (tq_retire_one fifo exec x s)" "I (tq_give fifo exec x s)"
  using assms by (simp_all add: tq_step_def tq_retire_one_def tq_give_def Let_def)

text \<open>
  The loop over the retired list: hazardous nodes go back on it, the others on the private
  list. \<open>I\<close> is anything that holds before and that the writes of the loop keep.
\<close>

lemma tq_scan_loop:
  assumes H: "\<And>x. x \<in> set xs \<Longrightarrow> lf_thread_queue_ptab_lookup t x sz = Some (H x)"
    and r: "tq_retired s fifo exec rl" and xs: "chain (tnext s) cur xs NULL"
    and free: "tq_private s fifo exec free" and dist: "distinct (xs @ rl @ free)"
    and room: "ec \<noteq> 0" "unat (tq_lower ec (tq_total s fifo)) < length free"
      "length free + length xs \<le> unat (tq_upper ec (tq_total s fifo))"
    and I: "I s" "tq_step fifo exec (set xs) I"
  shows "returns (lf_thread_queue_scan_rlist_loop ec fifo t sz exec cur (s, [])) (\<lambda>_ c'.
    snd c' = [] \<and> tq_retired (fst c') fifo exec (rev (filter H xs) @ rl) \<and>
    tq_private (fst c') fifo exec (rev (filter (\<lambda>x. \<not> H x) xs) @ free) \<and>
    tq_total (fst c') fifo = tq_total s fifo \<and> I (fst c'))"
  using assms
proof (induction xs arbitrary: s rl cur free)
  case Nil
  then show ?case by (simp add: lf_thread_queue_scan_rlist_loop.simps [of ec fifo t sz exec NULL])
next
  case (Cons x xs)
  then obtain y where x: "cur = x" "x \<noteq> NULL" "tnext s x = Some y" "chain (tnext s) y xs NULL"
    by (auto split: option.splits)
  have look: "lf_thread_queue_ptab_lookup t x sz = Some (H x)" using Cons.prems(1) by simp
  have lv: "tq_live fifo exec s" using Cons.prems(2) by (simp add: tq_retired_def)
  have xx: "x \<notin> set xs" "x \<notin> set rl" "x \<notin> set free" using Cons.prems(5) by auto
  have I1: "I (tq_retire_one fifo exec x s)" "I (tq_give fifo exec x s)"
    using tq_step_one [OF Cons.prems(10)] Cons.prems(9) by auto
  have I2: "tq_step fifo exec (set xs) I"
    using Cons.prems(10) unfolding tq_step_def by auto
  show ?case
  proof (cases "H x")
    case True
    have "returns (lf_thread_queue_scan_rlist_loop ec fifo t sz exec y (tq_retire_one fifo exec x s, []))
      (\<lambda>_ c'. snd c' = [] \<and> tq_retired (fst c') fifo exec (rev (filter H xs) @ (x # rl)) \<and>
        tq_private (fst c') fifo exec (rev (filter (\<lambda>x. \<not> H x) xs) @ free) \<and>
        tq_total (fst c') fifo = tq_total (tq_retire_one fifo exec x s) fifo \<and> I (fst c'))"
      by (rule Cons.IH) (use Cons.prems x xx I1 I2 in \<open>auto intro: tq_retired_push\<close>)
    moreover have "lf_thread_queue_scan_rlist_loop ec fifo t sz exec x (s, []) =
        lf_thread_queue_scan_rlist_loop ec fifo t sz exec y (tq_retire_one fifo exec x s, [])"
      using x look lv True
      by (subst lf_thread_queue_scan_rlist_loop.simps) (simp add: tq_retire_one_def Let_def)
    ultimately show ?thesis using True x(1) by simp
  next
    case False
    have nx: "tnext s x \<noteq> None" using x by simp
    have up: "length free + 1 \<le> unat (tq_upper ec (tq_total s fifo))" using Cons.prems(8) by simp
    note fr = node_free_quiet [OF Cons.prems(4) xx(3) nx Cons.prems(6,7) up]
    have "returns (lf_thread_queue_scan_rlist_loop ec fifo t sz exec y (tq_give fifo exec x s, []))
      (\<lambda>_ c'. snd c' = [] \<and> tq_retired (fst c') fifo exec (rev (filter H xs) @ rl) \<and>
        tq_private (fst c') fifo exec (rev (filter (\<lambda>x. \<not> H x) xs) @ (x # free)) \<and>
        tq_total (fst c') fifo = tq_total (tq_give fifo exec x s) fifo \<and> I (fst c'))"
      by (rule Cons.IH) (use Cons.prems x xx I1 I2 fr in auto)
    moreover have "lf_thread_queue_scan_rlist_loop ec fifo t sz exec x (s, []) =
        lf_thread_queue_scan_rlist_loop ec fifo t sz exec y (tq_give fifo exec x s, [])"
      using x look False fr(1) [of "[]"]
      by (subst lf_thread_queue_scan_rlist_loop.simps) simp
    ultimately show ?thesis using False x(1) by simp
  qed
qed

text \<open>Every hazard pointer of the queue, in the order the scan reads them.\<close>

definition tq_hazards_from :: "'a thread_queue_state_scheme \<Rightarrow> ptr \<Rightarrow> nat list \<Rightarrow> ptr list" where
  "tq_hazards_from s fifo is' = concat (map (\<lambda>i. [thp_ptrs (lf_hptrs (the (tq_queues s fifo)) ! i) 0,
     thp_ptrs (lf_hptrs (the (tq_queues s fifo)) ! i) 1]) is')"

definition tq_hazards :: "'a thread_queue_state_scheme \<Rightarrow> ptr \<Rightarrow> ptr list" where
  "tq_hazards s fifo = tq_hazards_from s fifo [0..<unat (lf_thread_queue_hptrs s)]"

lemma length_tq_hazards [simp]: "length (tq_hazards s fifo) = 2 * unat (lf_thread_queue_hptrs s)"
proof -
  have "length (tq_hazards_from s fifo is') = 2 * length is'" for is'
    by (induction is') (simp_all add: tq_hazards_from_def)
  then show ?thesis by (simp add: tq_hazards_def)
qed

lemma tq_build_loop:
  assumes "\<And>i. i \<in> set [a..<b] \<Longrightarrow>
    load (thp_rlist_loc fifo (of_nat i)) s \<noteq> None \<and> unat (of_nat i :: u32) = i"
  shows "lf_thread_queue_build_loop fifo sz (concat (map (\<lambda>i. [(i, 0), (i, 1)]) [a..<b])) t (s, []) =
    Some (ptab_add_all t (2 * a) (tq_hazards_from s fifo [a..<b]) sz, (s, []))"
  using assms
proof (induction "b - a" arbitrary: a t)
  case 0
  then show ?case by (simp add: tq_hazards_from_def)
next
  case (Suc k)
  then have ab: "a < b" by simp
  have "lf_thread_queue_build_loop fifo sz (concat (map (\<lambda>i. [(i, 0), (i, 1)]) [Suc a..<b])) t (s, []) =
      Some (ptab_add_all t (2 * Suc a) (tq_hazards_from s fifo [Suc a..<b]) sz, (s, []))" for t
    by (rule Suc.hyps) (use Suc in auto)
  moreover have "load (thp_rlist_loc fifo (of_nat a)) s \<noteq> None \<and> unat (of_nat a :: u32) = a"
    using Suc.prems ab by simp
  then have "load (thp_ptrs_loc fifo (of_nat a) j) s =
      Some (thp_ptrs (lf_hptrs (the (tq_queues s fifo)) ! a) j)" for j
    by (auto simp: elem_loc_simps split: if_splits option.splits)
  ultimately show ?case
    using ab by (simp add: upt_conv_Cons [OF ab] rd_def Let_def tq_hazards_from_def)
qed

text \<open>The queue as a scan finds it: an entry of hazard pointers for each executor.\<close>

definition tq_hptrs_ok :: "'a thread_queue_state_scheme \<Rightarrow> ptr \<Rightarrow> bool" where
  "tq_hptrs_ok s fifo \<longleftrightarrow>
     unat (lf_thread_queue_hptrs s) = length (lf_hptrs (the (tq_queues s fifo))) \<and>
     unat (lf_thread_queue_hptrs s) < 2 ^ 30 \<and>
     lf_thread_queue_hptr_threshold s = lf_thread_queue_hptrs s * 2"

lemma ptab_size4: "h * 4 - 1 \<noteq> (0 :: u32)"
proof
  assume "h * 4 - 1 = 0"
  then have "even (1 :: u32)" by (metis dvd_triv_right eq_iff_diff_eq_0 dvd_mult even_numeral)
  then show False by simp
qed

lemma tq_scan_build_quiet:
  assumes lv: "fifo \<noteq> NULL" "tq_queues s fifo \<noteq> None" and ok: "tq_hptrs_ok s fifo"
  shows "\<exists>t. lf_thread_queue_scan_build_ptab fifo (s, []) = Some (t, (s, [])) \<and>
    (\<forall>x. lf_thread_queue_ptab_lookup t x (lf_thread_queue_hptrs s * 4 - 1) = Some (x \<in> set (tq_hazards s fifo)))"
proof -
  let ?n = "unat (lf_thread_queue_hptrs s)" and ?sz = "lf_thread_queue_hptrs s * 4 - 1"
  let ?t = "ptab_add_all (ptab_empty (2 * ?n) ?sz) 0 (tq_hazards s fifo) ?sz"
  have "?n < 2 ^ 32" using unsigned_less [of "lf_thread_queue_hptrs s"] by simp
  then have "lf_thread_queue_scan_build_ptab fifo (s, []) = Some (?t, (s, []))"
    using lv ok tq_build_loop [of 0 ?n fifo s ?sz "ptab_empty (2 * ?n) ?sz"]
    by (auto simp: lf_thread_queue_scan_build_ptab_def Let_def tq_hazards_def tq_hptrs_ok_def
        elem_loc_simps unat_of_nat)
  moreover have "lf_thread_queue_ptab_lookup ?t x ?sz = Some (x \<in> set (tq_hazards s fifo))" for x
    unfolding lf_thread_queue_ptab_lookup_def by (rule ptab_lookup_all [OF ptab_size4]) simp
  ultimately show ?thesis by blast
qed

text \<open>
  The state of a queue and of the calling executor, when nobody else is in an operation: the
  free nodes, the retired nodes and the nodes of the queue are apart and the counters count.
\<close>

definition tq_pool :: "'a thread_queue_state_scheme \<Rightarrow> ptr \<Rightarrow> u32 \<Rightarrow> ptr list \<Rightarrow> ptr list \<Rightarrow> bool" where
  "tq_pool s fifo exec free rl \<longleftrightarrow> tq_private s fifo exec free \<and> tq_retired s fifo exec rl \<and>
     distinct (free @ rl) \<and> tq_hptrs_ok s fifo \<and> length rl \<le> 2 * unat (lf_thread_queue_hptrs s)"

text \<open>Freed nodes stay on the private list: above the lower bound, and never over the upper one.\<close>

definition tq_stays :: "u32 \<Rightarrow> 'a thread_queue_state_scheme \<Rightarrow> ptr \<Rightarrow> nat \<Rightarrow> nat \<Rightarrow> bool" where
  "tq_stays ec s fifo nfree nall \<longleftrightarrow> ec \<noteq> 0 \<and> unat (tq_lower ec (tq_total s fifo)) < nfree \<and>
     nall \<le> unat (tq_upper ec (tq_total s fifo))"

lemma tq_hazards_frame [simp]:
  "tq_hazards (store (thp_rlist_loc fifo exec) v s) fifo = tq_hazards s fifo"
  "tq_hazards (store (thp_rcount_loc fifo exec) w s) fifo = tq_hazards s fifo"
  "tq_hazards (tset x p s) fifo = tq_hazards s fifo"
proof -
  have eq: "thp_ptrs (hs[e := upd (hs ! e)] ! i) = thp_ptrs (hs ! i)"
    if "\<And>h. thp_ptrs (upd h) = thp_ptrs h" for hs e i and upd :: "lf_thread_queue_hazard_ptrs_t \<Rightarrow> lf_thread_queue_hazard_ptrs_t"
    using that by (cases "e < length hs") (auto simp: nth_list_update list_update_beyond not_less)
  show "tq_hazards (store (thp_rlist_loc fifo exec) v s) fifo = tq_hazards s fifo"
    "tq_hazards (store (thp_rcount_loc fifo exec) w s) fifo = tq_hazards s fifo"
    using eq [where upd = "thp_rlist_update (\<lambda>_. v)"] eq [where upd = "thp_rcount_update (\<lambda>_. w)"]
    by (cases "tq_queues s fifo"; simp add: tq_hazards_def tq_hazards_from_def elem_loc_simps)+
  show "tq_hazards (tset x p s) fifo = tq_hazards s fifo"
    by (simp add: tq_hazards_def tq_hazards_from_def)
qed

lemma tq_hazards_retire_one [simp]: "tq_hazards (tq_retire_one fifo exec x s) fifo = tq_hazards s fifo"
  by (simp add: tq_retire_one_def Let_def)

lemma tq_scan_quiet:
  assumes p: "tq_private s fifo exec free" "tq_retired s fifo exec rl" "distinct (free @ rl)" "tq_hptrs_ok s fifo"
    and room: "tq_stays ec s fifo (length free) (length free + length rl)"
    and I: "I s" "tq_step fifo exec (set rl) I"
  shows "returns (lf_thread_queue_scan ec fifo exec (s, [])) (\<lambda>_ c'. snd c' = [] \<and> I (fst c') \<and>
    tq_private (fst c') fifo exec (rev (filter (\<lambda>x. x \<notin> set (tq_hazards s fifo)) rl) @ free) \<and>
    tq_retired (fst c') fifo exec (rev (filter (\<lambda>x. x \<in> set (tq_hazards s fifo)) rl)) \<and>
    tq_total (fst c') fifo = tq_total s fifo)"
proof -
  let ?H = "\<lambda>x. x \<in> set (tq_hazards s fifo)"
  have lv: "tq_live fifo exec s" using p(2) by (simp add: tq_retired_def)
  obtain t where t: "lf_thread_queue_scan_build_ptab fifo (s, []) = Some (t, (s, []))"
    "\<And>x. lf_thread_queue_ptab_lookup t x (lf_thread_queue_hptrs s * 4 - 1) = Some (?H x)"
    using tq_scan_build_quiet [of fifo s] p(4) lv by (auto simp: tq_live_def)
  let ?s = "store (thp_rcount_loc fifo exec) 0 (store (thp_rlist_loc fifo exec) NULL s)"
  have "returns (lf_thread_queue_scan_rlist_loop ec fifo t (lf_thread_queue_hptrs s * 4 - 1) exec
      (thp_rlist (tq_hp s fifo exec)) (?s, [])) (\<lambda>_ c'.
      snd c' = [] \<and> tq_retired (fst c') fifo exec (rev (filter ?H rl) @ []) \<and>
      tq_private (fst c') fifo exec (rev (filter (\<lambda>x. \<not> ?H x) rl) @ free) \<and>
      tq_total (fst c') fifo = tq_total ?s fifo \<and> I (fst c'))"
  proof (rule tq_scan_loop)
    show "tq_retired ?s fifo exec []" using lv by (simp add: tq_retired_def)
    show "chain (tnext ?s) (thp_rlist (tq_hp s fifo exec)) rl NULL" using p(2) by (simp add: tq_retired_def)
    show "tq_private ?s fifo exec free" using p(1) by (simp add: tq_private_def)
    show "I ?s" using I by (simp add: tq_step_def)
    show "tq_step fifo exec (set rl) I" by (rule I(2))
    show "distinct (rl @ [] @ free)" using p(3) by auto
  qed (use t room in \<open>auto simp: tq_stays_def\<close>)
  then show ?thesis using t lv
    by (auto simp: lf_thread_queue_scan_def lf_thread_queue_scan_free_rlist_def Let_def elim: returns_mono)
qed

lemma tq_hptrs_ok_frame [simp]:
  "tq_hptrs_ok (tset x v s) fifo = tq_hptrs_ok s fifo"
  "tq_hptrs_ok (store (thp_loc get upd fifo exec) w s) fifo = tq_hptrs_ok s fifo"
  "tq_hptrs_ok (store (nl_loc get' upd' q exec) z s) fifo = tq_hptrs_ok s fifo"
  "tq_hptrs_ok (tq_retire_one fifo exec x s) fifo = tq_hptrs_ok s fifo"
  by (simp_all add: tq_hptrs_ok_def)

text \<open>Retiring a node returns, frees no node that a hazard pointer names and loses none.\<close>

text \<open>A node is added to the retired list, and a full list is scanned.\<close>

lemma tq_retire_run:
  assumes p: "tq_pool s fifo exec free rl" and x: "tnext s x \<noteq> None"
  shows "lf_thread_queue_node_retire ec fifo x exec (s, []) = (if length rl = 2 * unat (lf_thread_queue_hptrs s)
    then lf_thread_queue_scan ec fifo exec (tq_retire_one fifo exec x s, []) else Some ((), (tq_retire_one fifo exec x s, [])))"
proof -
  let ?e = "lf_thread_queue_hptrs s"
  have r: "tq_retired s fifo exec rl" and lv: "tq_live fifo exec s"
    and ok: "tq_hptrs_ok s fifo" and len: "length rl \<le> 2 * unat ?e"
    using p by (auto simp: tq_pool_def tq_retired_def)
  have "unat (?e * 2) = 2 * unat ?e" "unat (of_nat (length rl) :: u32) = length rl"
    using ok len by (auto simp: tq_hptrs_ok_def unat_word_ariths unat_of_nat)
  then have "lf_thread_queue_hptr_threshold s \<le> thp_rcount (tq_hp s fifo exec) \<longleftrightarrow> length rl = 2 * unat ?e"
    using ok r len by (auto simp: tq_hptrs_ok_def tq_retired_def word_le_nat_alt)
  then show ?thesis using lv x by (auto simp: lf_thread_queue_node_retire_def tq_retire_one_def Let_def)
qed

lemma tq_retire_scan:
  assumes p: "tq_pool s fifo exec free rl" and x: "x \<notin> set (free @ rl)" "tnext s x \<noteq> None"
    and room: "tq_stays ec s fifo (length free) (length free + length rl + 1)"
    and I: "I s" "tq_step fifo exec (insert x (set rl)) I"
  shows "returns (lf_thread_queue_scan ec fifo exec (tq_retire_one fifo exec x s, [])) (\<lambda>_ c'. snd c' = [] \<and> I (fst c') \<and>
    tq_pool (fst c') fifo exec (rev (filter (\<lambda>y. y \<notin> set (tq_hazards s fifo)) (x # rl)) @ free)
      (rev (filter (\<lambda>y. y \<in> set (tq_hazards s fifo)) (x # rl))) \<and> tq_total (fst c') fifo = tq_total s fifo)"
proof -
  let ?s = "tq_retire_one fifo exec x s" and ?e = "lf_thread_queue_hptrs s"
  have r: "tq_retired s fifo exec rl" and fr: "tq_private s fifo exec free"
    and ok: "tq_hptrs_ok s fifo" and d1: "distinct (free @ x # rl)"
    using p x(1) by (auto simp: tq_pool_def)
  have x0: "x \<noteq> NULL" using x(2) by auto
  have r1: "tq_retired ?s fifo exec (x # rl)" using tq_retired_push [OF r _ x0 x(2)] x(1) by simp
  have fr1: "tq_private ?s fifo exec free" using fr x by simp
  let ?J = "\<lambda>u. I u \<and> tq_hptrs_ok u fifo \<and> lf_thread_queue_hptrs u = ?e"
  have I2: "tq_step fifo exec (set (x # rl)) ?J" using I(2) by (auto simp: tq_step_def)
  have st: "tq_stays ec ?s fifo (length free) (length free + length (x # rl))"
    using room by (simp add: tq_stays_def)
  have ok1: "tq_hptrs_ok ?s fifo" and J1: "?J ?s" using ok tq_step_one [OF I(2)] I(1) by simp_all
  have "returns (lf_thread_queue_scan ec fifo exec (?s, [])) (\<lambda>_ c'. snd c' = [] \<and> ?J (fst c') \<and>
    tq_private (fst c') fifo exec (rev (filter (\<lambda>y. y \<notin> set (tq_hazards ?s fifo)) (x # rl)) @ free) \<and>
    tq_retired (fst c') fifo exec (rev (filter (\<lambda>y. y \<in> set (tq_hazards ?s fifo)) (x # rl))) \<and>
    tq_total (fst c') fifo = tq_total ?s fifo)"
    by (rule tq_scan_quiet [where I = ?J, OF fr1 r1 d1 ok1 st J1 I2])
  moreover have "length (filter (\<lambda>y. y \<in> set (tq_hazards s fifo)) (x # rl)) \<le> 2 * unat ?e"
    using filter_set_length [of "x # rl" "tq_hazards s fifo"] d1 by simp
  ultimately show ?thesis using d1 by (auto simp: tq_pool_def tq_retire_one_frame elim!: returns_mono)
qed

lemma tq_retire_quiet:
  assumes p: "tq_pool s fifo exec free rl" and x: "x \<notin> set (free @ rl)" "tnext s x \<noteq> None"
    and room: "tq_stays ec s fifo (length free) (length free + length rl + 1)"
    and I: "I s" "tq_step fifo exec (insert x (set rl)) I"
  shows "returns (lf_thread_queue_node_retire ec fifo x exec (s, [])) (\<lambda>_ c'. snd c' = [] \<and> I (fst c') \<and>
    (\<exists>frees rl'. tq_pool (fst c') fifo exec (frees @ free) rl' \<and>
      set frees \<union> set rl' = insert x (set rl) \<and> length frees + length rl' = length rl + 1 \<and>
      set frees \<inter> set (tq_hazards s fifo) = {} \<and> tq_total (fst c') fifo = tq_total s fifo))"
proof (cases "length rl = 2 * unat (lf_thread_queue_hptrs s)")
  case False
  let ?s = "tq_retire_one fifo exec x s"
  have x0: "x \<noteq> NULL" using x(2) by auto
  have "tq_retired ?s fifo exec (x # rl)"
    using p x(1) tq_retired_push [OF _ _ x0 x(2)] by (simp add: tq_pool_def)
  then have "tq_pool ?s fifo exec ([] @ free) (x # rl)" using p False x by (auto simp: tq_pool_def)
  then have "\<exists>frees rl'. tq_pool ?s fifo exec (frees @ free) rl' \<and> set frees \<union> set rl' = insert x (set rl) \<and>
      length frees + length rl' = length rl + 1 \<and> set frees \<inter> set (tq_hazards s fifo) = {} \<and>
      tq_total ?s fifo = tq_total s fifo"
    by (intro exI [of _ "[]"] exI [of _ "x # rl"]) simp
  moreover have "I ?s" using tq_step_one [OF I(2)] I(1) by simp
  ultimately show ?thesis using tq_retire_run [OF p x(2), of ec] False by simp
next
  case True
  let ?frees = "rev (filter (\<lambda>y. y \<notin> set (tq_hazards s fifo)) (x # rl))"
  let ?rl = "rev (filter (\<lambda>y. y \<in> set (tq_hazards s fifo)) (x # rl))"
  have "length ?frees + length ?rl = length rl + 1"
    using sum_length_filter_compl [of "\<lambda>y. y \<notin> set (tq_hazards s fifo)" "x # rl"] by simp
  moreover have "set ?frees \<union> set ?rl = insert x (set rl)" "set ?frees \<inter> set (tq_hazards s fifo) = {}" by auto
  ultimately show ?thesis unfolding tq_retire_run [OF p x(2)] if_P [OF True]
    by (intro returns_mono [OF tq_retire_scan [OF p x room I]]) blast
qed

subsection \<open>First in, first out\<close>

abbreviation tq_nodes_are :: "'a thread_queue_state_scheme \<Rightarrow> ptr \<Rightarrow> ptr \<Rightarrow> ptr list \<Rightarrow> ptr list \<Rightarrow> bool" where
  "tq_nodes_are s fifo \<equiv> ms_queue (tq_head_loc fifo) (tq_tail_loc fifo) tn_next_loc tn_data_loc s"

definition tq_ok ::
  "'a thread_queue_state_scheme \<Rightarrow> ptr \<Rightarrow> u32 \<Rightarrow> ptr list \<Rightarrow> ptr list \<Rightarrow> ptr \<Rightarrow> ptr list \<Rightarrow> ptr list \<Rightarrow> bool" where
  "tq_ok s fifo exec free rl sent nodes vals \<longleftrightarrow> tq_pool s fifo exec free rl \<and>
     tq_nodes_are s fifo sent nodes vals \<and> distinct (free @ rl @ sent # nodes)"

lemma tq_pool_frame:
  "tq_pool (store (tq_tail_loc fifo) v s) fifo exec free rl = tq_pool s fifo exec free rl"
  "tq_pool (store (tq_head_loc fifo) v s) fifo exec free rl = tq_pool s fifo exec free rl"
  "tq_pool (store (thp_ptrs_loc fifo exec j) v s) fifo exec free rl = tq_pool s fifo exec free rl"
  "x \<notin> set (free @ rl) \<Longrightarrow> tq_pool (store (tn_data_loc x) v s) fifo exec free rl = tq_pool s fifo exec free rl"
  "x \<notin> set (free @ rl) \<Longrightarrow> tq_pool (tset x v s) fifo exec free rl = tq_pool s fifo exec free rl"
proof -
  have n: "tnext (store (tq_tail_loc fifo) v s) = tnext s" "tnext (store (tq_head_loc fifo) v s) = tnext s"
    "tnext (store (tn_data_loc x) v s) = tnext s"
    by (auto simp: tnext_def fun_eq_iff option.map_comp comp_def)
  show "tq_pool (store (tq_tail_loc fifo) v s) fifo exec free rl = tq_pool s fifo exec free rl"
    "tq_pool (store (tq_head_loc fifo) v s) fifo exec free rl = tq_pool s fifo exec free rl"
    using n by (cases "tq_queues s fifo"; auto simp: tq_pool_def tq_private_def tq_retired_def tq_live_def
        nl_live_def tq_hptrs_ok_def simp del: tq_live_nl)+
  show "tq_pool (store (tn_data_loc x) v s) fifo exec free rl = tq_pool s fifo exec free rl"
    if "x \<notin> set (free @ rl)"
    using n by (simp add: tq_pool_def tq_private_def tq_retired_def tq_live_def nl_live_def tq_hptrs_ok_def
        del: tq_live_nl)
  have "tnext (tset x v s) y = tnext s y" if "y \<noteq> x" for y
    using that by (auto simp: tnext_def tset_def)
  then have c: "chain (tnext (tset x v s)) p ys q = chain (tnext s) p ys q" if "x \<notin> set ys" for p ys q
    by (intro chain_cong) (metis that \<open>\<And>y. y \<noteq> x \<Longrightarrow> tnext (tset x v s) y = tnext s y\<close>)
  show "tq_pool (tset x v s) fifo exec free rl = tq_pool s fifo exec free rl"
    if "x \<notin> set (free @ rl)"
    using that c by (auto simp: tq_pool_def tq_private_def tq_retired_def)
  show "tq_pool (store (thp_ptrs_loc fifo exec j) v s) fifo exec free rl = tq_pool s fifo exec free rl"
    by (auto simp: tq_pool_def tq_private_def tq_retired_def)
qed

lemma tq_total_frame [simp]:
  "tq_total (store (tq_tail_loc fifo) v s) fifo = tq_total s fifo"
  "tq_total (store (tq_head_loc fifo) v s) fifo = tq_total s fifo"
  by (cases "tq_queues s fifo"; simp)+

lemma tq_more_frame [simp]:
  "thread_queue_state.more (store (tq_tail_loc fifo) v s) = thread_queue_state.more s"
  "thread_queue_state.more (store (tq_head_loc fifo) v s) = thread_queue_state.more s"
  by simp_all

text \<open>Before the node is linked: it is off the private list and holds the thread.\<close>

lemma tq_enqueue_node:
  assumes ok: "tq_ok s fifo exec (f # free) rl sent nodes vals" and room: "tq_room ec s fifo (length (f # free))"
  obtains t where "lf_thread_queue_enqueue ec fifo thread exec (s, []) = do {
      (tail, c) \<leftarrow> retry_nonnull (lf_thread_queue_try_enqueue fifo f exec) (t, []);
      (_, c) \<leftarrow> atomic_compare_and_set_ptr tail f (tq_tail_loc fifo) c;
      (_, c) \<leftarrow> wr (thp_ptrs_loc fifo exec 0) NULL c;
      Some (True, c) }"
    "f \<noteq> NULL" "load (tn_next_loc f) t = Some NULL" "load (tn_data_loc f) t = Some thread"
    "tq_pool t fifo exec free rl" "tq_live fifo exec t" "tq_nodes_are t fifo sent nodes vals"
    "tq_total t fifo = tq_total s fifo" "thread_queue_state.more t = thread_queue_state.more s"
proof -
  have pr: "tq_private s fifo exec (f # free)" and rt: "tq_retired s fifo exec rl"
    and h: "tq_hptrs_ok s fifo" "length rl \<le> 2 * unat (lf_thread_queue_hptrs s)"
    using ok by (auto simp: tq_ok_def tq_pool_def)
  obtain y where y: "tnext s f = Some y" "f \<noteq> NULL"
    "lf_thread_queue_node_alloc ec fifo exec (s, []) = Some (f, (tq_take fifo exec y s, []))"
    using node_alloc_quiet [OF pr room, of "[]"] by blast
  let ?a = "tq_take fifo exec y s"
  let ?b = "store (tn_data_loc f) thread ?a"
  let ?s = "tset f NULL ?b"
  have dist: "distinct (f # free @ rl @ sent # nodes)" using ok by (simp add: tq_ok_def)
  have p0: "tq_pool ?a fifo exec free rl"
    using tq_private_take [OF pr y(1)] rt h dist by (auto simp: tq_pool_def tq_retired_def tq_hptrs_ok_def)
  have f: "f \<notin> set (free @ rl)" using dist by simp
  have pool: "tq_pool ?s fifo exec free rl"
    unfolding tq_pool_frame(5) [OF f] tq_pool_frame(4) [OF f] by (rule p0)
  have lv: "tq_live fifo exec ?s" using pool by (simp add: tq_pool_def tq_retired_def)
  have "tq_nodes_are ?s fifo sent nodes vals = tq_nodes_are s fifo sent nodes vals"
    by (rule ms_queue_cong) (use dist in \<open>auto simp: tset_def\<close>)
  then have q: "tq_nodes_are ?s fifo sent nodes vals" using ok by (simp add: tq_ok_def)
  have "pwr (tn_data_loc f) thread (?a, []) = Some ((), (?b, []))"
    using y(1) by (auto simp: pwr_def tnext_def split: if_splits)
  moreover have "tnext ?b = tnext s"
    by (auto simp: tnext_def fun_eq_iff option.map_comp comp_def)
  ultimately have step: "lf_thread_queue_enqueue ec fifo thread exec (s, []) = do {
      (tail, c) \<leftarrow> retry_nonnull (lf_thread_queue_try_enqueue fifo f exec) (?s, []);
      (_, c) \<leftarrow> atomic_compare_and_set_ptr tail f (tq_tail_loc fifo) c;
      (_, c) \<leftarrow> wr (thp_ptrs_loc fifo exec 0) NULL c;
      Some (True, c) }"
    using y by (simp add: lf_thread_queue_enqueue_def del: field_loc_simps)
  have ld: "load (tn_next_loc f) ?s = Some NULL" "load (tn_data_loc f) ?s = Some thread"
    using y by (auto simp: tnext_def tset_def split: if_splits)
  show thesis by (rule that [OF step y(2) ld pool lv q]) simp_all
qed

lemma tq_enqueue_quiet:
  assumes ok: "tq_ok s fifo exec (f # free) rl sent nodes vals" and room: "tq_room ec s fifo (length (f # free))"
  shows "returns (lf_thread_queue_enqueue ec fifo thread exec (s, [])) (\<lambda>r c'. r \<and> snd c' = [] \<and>
    tq_ok (fst c') fifo exec free rl sent (nodes @ [f]) (vals @ [thread]) \<and>
    tq_total (fst c') fifo = tq_total s fifo \<and> thread_queue_state.more (fst c') = thread_queue_state.more s)"
proof -
  obtain t where step: "lf_thread_queue_enqueue ec fifo thread exec (s, []) = do {
      (tail, c) \<leftarrow> retry_nonnull (lf_thread_queue_try_enqueue fifo f exec) (t, []);
      (_, c) \<leftarrow> atomic_compare_and_set_ptr tail f (tq_tail_loc fifo) c;
      (_, c) \<leftarrow> wr (thp_ptrs_loc fifo exec 0) NULL c;
      Some (True, c) }"
    and t: "f \<noteq> NULL" "load (tn_next_loc f) t = Some NULL" "load (tn_data_loc f) t = Some thread"
      "tq_pool t fifo exec free rl" "tq_live fifo exec t" "tq_nodes_are t fifo sent nodes vals"
      "tq_total t fifo = tq_total s fifo" "thread_queue_state.more t = thread_queue_state.more s"
    by (rule tq_enqueue_node [OF ok room, of thread])
  have dist: "distinct (f # free @ rl @ sent # nodes)" using ok by (simp add: tq_ok_def)
  let ?I = "\<lambda>u. tq_pool u fifo exec free rl \<and> tq_total u fifo = tq_total s fifo \<and>
    thread_queue_state.more u = thread_queue_state.more s"
  have loop: "returns (retry_nonnull (lf_thread_queue_try_enqueue fifo f exec) (t, [])) (\<lambda>t c'.
      snd c' = [] \<and> load (tq_tail_loc fifo) (fst c') = Some t \<and> tq_live fifo exec (fst c') \<and> ?I (fst c') \<and>
      tq_nodes_are (fst c') fifo sent (nodes @ [f]) (vals @ [thread]))"
    unfolding lf_thread_queue_try_enqueue_ms
  proof (rule tq_ms.enqueue_loop [where I = ?I, OF t(6,5)])
    show "f \<notin> set (sent # nodes)" using dist by auto
    show "?I (store (tn_next_loc p) v u)" if "p \<in> set (sent # nodes)" "?I u" for p v u
    proof -
      have "p \<notin> set (free @ rl)" using dist that(1) by auto
      then show ?thesis using that(2) tq_pool_frame(5) [of p free rl v u fifo exec]
        by (simp add: tset_def)
    qed
  qed (use t in \<open>auto simp: tq_pool_frame simp del: field_loc_simps\<close>)
  have fin: "tq_ok (store (thp_ptrs_loc fifo exec 0) NULL (store (tq_tail_loc fifo) f u)) fifo exec free rl
      sent (nodes @ [f]) (vals @ [thread]) \<and>
      tq_total (store (thp_ptrs_loc fifo exec 0) NULL (store (tq_tail_loc fifo) f u)) fifo = tq_total s fifo \<and>
      thread_queue_state.more (store (thp_ptrs_loc fifo exec 0) NULL (store (tq_tail_loc fifo) f u)) =
        thread_queue_state.more s"
    if "?I u" "tq_live fifo exec u" "tq_nodes_are u fifo sent (nodes @ [f]) (vals @ [thread])" for u
    using that dist tq_ms.is_queue_tl [OF that(3,2), of f]
    by (auto simp: tq_ok_def tq_pool_frame tq_ms.is_queue_hz simp del: field_loc_simps)
  show ?thesis unfolding step returns_bind
  proof (rule returns_mono [OF loop])
    fix t and c' :: "'a thread_queue_state_scheme conc"
    assume c': "snd c' = [] \<and> load (tq_tail_loc fifo) (fst c') = Some t \<and>
      tq_live fifo exec (fst c') \<and> ?I (fst c') \<and>
      tq_nodes_are (fst c') fifo sent (nodes @ [f]) (vals @ [thread])"
    then obtain u where u: "c' = (u, [])" by (cases c') auto
    have "tq_live fifo exec (store (tq_tail_loc fifo) f u)" by (rule tq_ms.live_store(2)) (use c' u in simp)
    then show "returns (case (t, c') of (tail, c) \<Rightarrow>
        atomic_compare_and_set_ptr tail f (tq_tail_loc fifo) c \<bind>
          (\<lambda>(_, c). wr (thp_ptrs_loc fifo exec 0) NULL c \<bind> (\<lambda>(_, c). Some (True, c))))
      (\<lambda>r c'. r \<and> snd c' = [] \<and> tq_ok (fst c') fifo exec free rl sent (nodes @ [f]) (vals @ [thread]) \<and>
        tq_total (fst c') fifo = tq_total s fifo \<and> thread_queue_state.more (fst c') = thread_queue_state.more s)"
      using fin [of u] c' by (simp add: u wp atomic_cas_defs del: field_loc_simps)
  qed
qed

lemma tq_dequeue_empty_quiet:
  assumes ok: "tq_ok s fifo exec free rl sent [] []"
  shows "returns (lf_thread_queue_dequeue ec fifo exec (s, [])) (\<lambda>r c'. r = NULL \<and> snd c' = [] \<and>
    tq_ok (fst c') fifo exec free rl sent [] [] \<and> tq_total (fst c') fifo = tq_total s fifo \<and>
    thread_queue_state.more (fst c') = thread_queue_state.more s)"
proof -
  have lv: "tq_live fifo exec s" and q: "tq_nodes_are s fifo sent [] []"
    using ok by (auto simp: tq_ok_def tq_pool_def tq_retired_def)
  show ?thesis
    unfolding lf_thread_queue_dequeue_def lf_thread_queue_try_dequeue_ms
  proof (rule retry_valid_now)
    show "returns (ms_try_dequeue (tq_head_loc fifo) (tq_tail_loc fifo) tn_next_loc tn_data_loc
        (thp_ptrs_loc fifo exec) (\<lambda>node. lf_thread_queue_node_retire ec fifo node exec) (s, []))
      (\<lambda>r c'. o_valid r \<and> o_value r = NULL \<and> snd c' = [] \<and> tq_ok (fst c') fifo exec free rl sent [] [] \<and>
        tq_total (fst c') fifo = tq_total s fifo \<and>
    thread_queue_state.more (fst c') = thread_queue_state.more s)"
      unfolding tq_ms.attempt_dequeue_empty [OF q lv]
      using ok by (simp add: tq_ok_def tq_pool_frame tq_ms.is_queue_hz)
  qed
qed

text \<open>What a retirement does not write.\<close>

lemma tq_step_queue:
  assumes "A \<inter> set (sent # nodes) = {}"
  shows "tq_step fifo exec A (\<lambda>u. tq_nodes_are u fifo sent nodes vals)"
proof (rule tq_stepI)
  fix s :: "'a thread_queue_state_scheme" and x v p :: ptr and w :: u32
  assume q: "tq_nodes_are s fifo sent nodes vals"
  show "tq_nodes_are (tset x v s) fifo sent nodes vals" if "x \<in> A"
  proof -
    have "tq_nodes_are (tset x v s) fifo sent nodes vals = tq_nodes_are s fifo sent nodes vals"
      by (rule ms_queue_cong) (use that assms in \<open>auto simp: tset_def\<close>)
    then show ?thesis using q by simp
  qed
  have th: "tq_nodes_are (store (thp_loc get upd fifo exec) y s) fifo sent nodes vals" for get y
    and upd :: "(_ \<Rightarrow> 'v) \<Rightarrow> _"
    using q by (subst ms_queue_cong [of _ _ s]) (simp_all del: field_loc_simps, simp_all)
  show "tq_nodes_are (store (thp_rlist_loc fifo exec) v s) fifo sent nodes vals"
    "tq_nodes_are (store (thp_rcount_loc fifo exec) w s) fifo sent nodes vals"
    by (rule th)+
  have nl: "tq_nodes_are (store (nl_loc get upd p exec) y s) fifo sent nodes vals" for get y
    and upd :: "(_ \<Rightarrow> 'v) \<Rightarrow> _"
    using q by (subst ms_queue_cong [of _ _ s]) auto
  show "tq_nodes_are (store (nl_list_loc p exec) v s) fifo sent nodes vals"
    "tq_nodes_are (store (nl_count_loc p exec) w s) fifo sent nodes vals"
    by (rule nl)+
qed

lemma tq_dequeue_quiet:
  assumes ok: "tq_ok s fifo exec free rl sent (n # ns) (v # vs)"
    and room: "tq_stays ec s fifo (length free) (length free + length rl + 1)"
  shows "returns (lf_thread_queue_dequeue ec fifo exec (s, [])) (\<lambda>r c'. r = v \<and> snd c' = [] \<and>
    (\<exists>frees rl'. tq_ok (fst c') fifo exec (frees @ free) rl' n ns vs \<and>
      length frees + length rl' = length rl + 1 \<and> tq_total (fst c') fifo = tq_total s fifo \<and>
      thread_queue_state.more (fst c') = thread_queue_state.more s))"
proof -
  have lv: "tq_live fifo exec s" and q: "tq_nodes_are s fifo sent (n # ns) (v # vs)"
    and dist: "distinct (free @ rl @ sent # n # ns)"
    using ok by (auto simp: tq_ok_def tq_pool_def tq_retired_def)
  let ?I = "\<lambda>u. tq_pool u fifo exec free rl \<and> tnext u sent \<noteq> None \<and> tq_total u fifo = tq_total s fifo \<and>
    thread_queue_state.more u = thread_queue_state.more s"
  let ?Q = "\<lambda>u. \<exists>frees rl'. tq_ok u fifo exec (frees @ free) rl' n ns vs \<and>
      length frees + length rl' = length rl + 1 \<and> tq_total u fifo = tq_total s fifo \<and>
      thread_queue_state.more u = thread_queue_state.more s"
  have sent: "tnext s sent \<noteq> None"
    using q unfolding ms_queue_def tnext_def by (auto split: option.splits simp del: field_loc_simps)
  have keep: "tnext (store (tq_head_loc fifo) w u) = tnext u" "tnext (store (tq_tail_loc fifo) w u) = tnext u"
    for w and u :: "'a thread_queue_state_scheme"
    by (auto simp: tnext_def fun_eq_iff)
  show ?thesis
    unfolding lf_thread_queue_dequeue_def lf_thread_queue_try_dequeue_ms
  proof (rule tq_ms.dequeue_loop [OF q lv, where I = ?I and Q = ?Q])
    fix u assume u: "tq_nodes_are u fifo n ns vs" "tq_live fifo exec u" "?I u"
    let ?J = "\<lambda>w. tq_nodes_are w fifo n ns vs \<and> thread_queue_state.more w = thread_queue_state.more u"
    have J: "tq_step fifo exec (insert sent (set rl)) ?J"
    proof -
      have "tq_step fifo exec (insert sent (set rl)) (\<lambda>w. tq_nodes_are w fifo n ns vs)"
        by (rule tq_step_queue) (use dist in auto)
      moreover have "tq_step fifo exec (insert sent (set rl))
          (\<lambda>w. thread_queue_state.more w = thread_queue_state.more u)"
        by (simp add: tq_step_def)
      ultimately show ?thesis by (rule tq_step_conj)
    qed
    have "returns (lf_thread_queue_node_retire ec fifo sent exec (u, [])) (\<lambda>_ c'. snd c' = [] \<and> ?J (fst c') \<and>
      (\<exists>frees rl'. tq_pool (fst c') fifo exec (frees @ free) rl' \<and>
        set frees \<union> set rl' = insert sent (set rl) \<and> length frees + length rl' = length rl + 1 \<and>
        set frees \<inter> set (tq_hazards u fifo) = {} \<and> tq_total (fst c') fifo = tq_total u fifo))"
      by (rule tq_retire_quiet [where I = ?J]) (use u dist room J in \<open>auto simp: tq_stays_def\<close>)
    then show "returns (lf_thread_queue_node_retire ec fifo sent exec (u, []))
        (\<lambda>_ c'. snd c' = [] \<and> tq_live fifo exec (fst c') \<and> ?Q (store (thp_ptrs_loc fifo exec 0) NULL (fst c')))"
    proof (rule returns_mono)
      fix a c' assume c': "snd c' = [] \<and> ?J (fst c') \<and>
        (\<exists>frees rl'. tq_pool (fst c') fifo exec (frees @ free) rl' \<and>
          set frees \<union> set rl' = insert sent (set rl) \<and> length frees + length rl' = length rl + 1 \<and>
          set frees \<inter> set (tq_hazards u fifo) = {} \<and> tq_total (fst c') fifo = tq_total u fifo)"
      then obtain frees rl' where f: "tq_pool (fst c') fifo exec (frees @ free) rl'"
        "set frees \<union> set rl' = insert sent (set rl)" "length frees + length rl' = length rl + 1"
        "tq_total (fst c') fifo = tq_total u fifo"
        by blast
      have "(set (frees @ free) \<union> set rl') \<inter> set (n # ns) = {}" using f(2) dist by auto
      moreover have "distinct ((frees @ free) @ rl')" "distinct (n # ns)"
        using f(1) dist by (auto simp: tq_pool_def)
      ultimately have "distinct ((frees @ free) @ rl' @ n # ns)" by auto
      then have "tq_ok (store (thp_ptrs_loc fifo exec 0) NULL (fst c')) fifo exec (frees @ free) rl' n ns vs"
        using c' f by (simp add: tq_ok_def tq_pool_frame tq_ms.is_queue_hz)
      then have "?Q (store (thp_ptrs_loc fifo exec 0) NULL (fst c'))"
        using f(3,4) u(3) c' by (intro exI [of _ frees] exI [of _ rl']) simp
      then show "snd c' = [] \<and> tq_live fifo exec (fst c') \<and> ?Q (store (thp_ptrs_loc fifo exec 0) NULL (fst c'))"
        using c' f(1) by (auto simp: tq_pool_def tq_retired_def)
    qed
  qed (use ok sent in \<open>auto simp: tq_ok_def tq_pool_frame keep simp del: field_loc_simps\<close>)
qed

text \<open>The queue as the contract sees it: one executor, nobody interfering.\<close>

definition tq_enq ::
  "u32 \<Rightarrow> ptr \<Rightarrow> u32 \<Rightarrow> ptr \<Rightarrow> 'a thread_queue_state_scheme \<Rightarrow> 'a thread_queue_state_scheme option" where
  "tq_enq ec fifo exec thread s = map_option (\<lambda>r. fst (snd r)) (lf_thread_queue_enqueue ec fifo thread exec (s, []))"

definition tq_deq ::
  "u32 \<Rightarrow> ptr \<Rightarrow> u32 \<Rightarrow> 'a thread_queue_state_scheme \<Rightarrow> (ptr option \<times> 'a thread_queue_state_scheme) option" where
  "tq_deq ec fifo exec s = map_option (\<lambda>r. (if fst r = NULL then None else Some (fst r), fst (snd r)))
     (lf_thread_queue_dequeue ec fifo exec (s, []))"

definition tq_holds :: "u32 \<Rightarrow> ptr \<Rightarrow> u32 \<Rightarrow> 'a thread_queue_state_scheme \<Rightarrow> nat \<Rightarrow> ptr list \<Rightarrow> bool" where
  "tq_holds ec fifo exec s k vals \<longleftrightarrow> NULL \<notin> set vals \<and>
     (\<exists>free rl sent nodes. tq_ok s fifo exec free rl sent nodes vals \<and>
       tq_stays ec s fifo (length free - k) (length free + length rl + 1 + length nodes))"

lemma tq_holds_enqueue:
  assumes "tq_holds ec fifo exec s (Suc k) xs" "x \<noteq> NULL"
  shows "\<exists>t. tq_enq ec fifo exec x s = Some t \<and> tq_holds ec fifo exec t k (xs @ [x])"
proof -
  from assms(1) obtain free rl sent nodes where
    ok: "tq_ok s fifo exec free rl sent nodes xs" "NULL \<notin> set xs" and
    st: "tq_stays ec s fifo (length free - Suc k) (length free + length rl + 1 + length nodes)"
    by (auto simp: tq_holds_def)
  then obtain f fs where free: "free = f # fs" by (cases free) (auto simp: tq_stays_def)
  have "tq_room ec s fifo (length (f # fs))" using st free by (auto simp: tq_stays_def tq_room_def)
  from tq_enqueue_quiet [OF ok(1) [unfolded free] this, of x] assms(2) ok(2) st free show ?thesis
    by (fastforce simp: returns_ex tq_enq_def tq_holds_def tq_stays_def)
qed

lemma tq_holds_empty:
  assumes "tq_holds ec fifo exec s k []"
  shows "\<exists>t. tq_deq ec fifo exec s = Some (None, t) \<and> tq_holds ec fifo exec t k []"
proof -
  from assms obtain free rl sent nodes where
    ok: "tq_ok s fifo exec free rl sent nodes []" and
    st: "tq_stays ec s fifo (length free - k) (length free + length rl + 1 + length nodes)"
    by (auto simp: tq_holds_def)
  then have "nodes = []" by (auto simp: tq_ok_def ms_queue_def)
  with ok st tq_dequeue_empty_quiet [of s fifo exec free rl sent ec] show ?thesis
    by (fastforce simp: returns_ex tq_deq_def tq_holds_def tq_stays_def)
qed

lemma tq_holds_dequeue:
  assumes "tq_holds ec fifo exec s k (x # xs)"
  shows "\<exists>t. tq_deq ec fifo exec s = Some (Some x, t) \<and> tq_holds ec fifo exec t k xs"
proof -
  from assms obtain free rl sent nodes where
    ok: "tq_ok s fifo exec free rl sent nodes (x # xs)" "NULL \<notin> set (x # xs)" and
    st: "tq_stays ec s fifo (length free - k) (length free + length rl + 1 + length nodes)"
    by (auto simp: tq_holds_def)
  then obtain n ns where nodes: "nodes = n # ns" by (cases nodes) (auto simp: tq_ok_def ms_queue_def)
  have "tq_stays ec s fifo (length free) (length free + length rl + 1)"
    using st by (auto simp: tq_stays_def)
  from tq_dequeue_quiet [OF ok(1) [unfolded nodes] this]
  obtain u frees rl' where u: "lf_thread_queue_dequeue ec fifo exec (s, []) = Some (x, (u, []))"
    "tq_ok u fifo exec (frees @ free) rl' n ns xs" "length frees + length rl' = length rl + 1"
    "tq_total u fifo = tq_total s fifo"
    by (auto simp: returns_ex)
  have "tq_stays ec u fifo (length (frees @ free) - k) (length (frees @ free) + length rl' + 1 + length ns)"
    using st u(3,4) nodes by (auto simp: tq_stays_def)
  then have "tq_holds ec fifo exec u k xs" using u(2) ok(2) unfolding tq_holds_def
    by (intro conjI exI [of _ "frees @ free"] exI [of _ rl'] exI [of _ n] exI [of _ ns]) simp_all
  moreover have "tq_deq ec fifo exec s = Some (Some x, u)" using u(1) ok(2) by (auto simp: tq_deq_def)
  ultimately show ?thesis by blast
qed

lemma tq_holds_less: "tq_holds ec fifo exec s k xs \<Longrightarrow> j \<le> k \<Longrightarrow> tq_holds ec fifo exec s j xs"
  unfolding tq_holds_def tq_stays_def by (meson diff_le_mono2 less_le_trans)

interpretation tq: fifo_queue "tq_enq ec fifo exec" "tq_deq ec fifo exec" "tq_holds ec fifo exec" "\<lambda>_ x. x \<noteq> NULL"
  for ec fifo exec
  by unfold_locales (fact tq_holds_enqueue tq_holds_empty tq_holds_dequeue tq_holds_less)+

end
