(* ===== verification/Queue_Init.thy ===== *)
theory Queue_Init
  imports Thread_Queue
begin

unbundle bit_operations_syntax

section \<open>Fresh queues, and what the contract gives\<close>

text \<open>
  \<open>lf_thread_queue_init\<close> lays a queue out in a block of memory. This theory shows that it
  gives each executor a private list of its share of the nodes and establishes the contract
  of a queue, and states the properties of the thread queue.
\<close>

subsection \<open>A fresh queue\<close>

text \<open>
  The numbers of nodes in all and for each executor, the addresses inside the block, and the
  memory \<open>lf_thread_queue_init\<close> needs.
\<close>

definition tq_count :: "u32 \<Rightarrow> u32 \<Rightarrow> nat" where
  "tq_count num execs = unat num + 2 * unat execs * unat execs + 2 * unat execs + 1"

definition tq_share :: "u32 \<Rightarrow> u32 \<Rightarrow> nat" where
  "tq_share num execs = (tq_count num execs - 1) div unat execs"

definition tq_alloc_at :: "ptr \<Rightarrow> u32 \<Rightarrow> ptr" where
  "tq_alloc_at mem execs = mem + tq_align (12 + (16 + 2 * 4) * execs)"

definition tq_node :: "ptr \<Rightarrow> u32 \<Rightarrow> nat \<Rightarrow> ptr" where
  "tq_node mem execs k = tq_node_at (tq_alloc_at mem execs + (32 + execs * 32)) (of_nat k)"

definition tq_memory :: "'a thread_queue_state_scheme \<Rightarrow> ptr \<Rightarrow> u32 \<Rightarrow> u32 \<Rightarrow> bool" where
  "tq_memory s mem num execs \<longleftrightarrow> execs \<noteq> 0 \<and> tq_count num execs < 2 ^ 28 \<and>
     mem \<noteq> NULL \<and> tq_queues s mem \<noteq> None \<and> tq_alloc_at mem execs \<noteq> NULL \<and>
     (case tq_allocs s (tq_alloc_at mem execs) of None \<Rightarrow> False
      | Some a \<Rightarrow> unat execs \<le> length (qna_lists a)) \<and>
     (\<forall>k < tq_count num execs. tq_node mem execs k \<noteq> NULL \<and> tq_nodes s (tq_node mem execs k) \<noteq> None)"

lemma tq_count_words:
  assumes "execs \<noteq> 0" "tq_count num execs < 2 ^ 28"
  shows "num + (execs * execs * 2 + execs * 2 + 1) = of_nat (tq_count num execs)"
    "(num + (execs * execs * 2 + execs * 2 + 1) - 1) div execs = of_nat (tq_share num execs)"
    "unat (of_nat (tq_count num execs) :: u32) = tq_count num execs"
    "unat (of_nat (tq_share num execs) :: u32) = tq_share num execs"
    "tq_share num execs * unat execs < tq_count num execs" "unat execs < 2 ^ 14"
    "0 < tq_share num execs" "0 < unat execs"
proof -
  let ?N = "tq_count num execs" and ?e = "unat execs"
  show e: "0 < ?e" using assms(1) by (simp add: unat_gt_0)
  show n: "num + (execs * execs * 2 + execs * 2 + 1) = of_nat ?N"
    by (simp add: tq_count_def)
  show un: "unat (of_nat ?N :: u32) = ?N" using assms(2) by (simp add: unat_of_nat)
  have sN: "tq_share num execs \<le> ?N" unfolding tq_share_def using div_le_dividend le_trans diff_le_self by blast
  then show us: "unat (of_nat (tq_share num execs) :: u32) = tq_share num execs"
    using assms(2) by (simp add: unat_of_nat)
  have "num + (execs * execs * 2 + execs * 2 + 1) - 1 = of_nat (?N - 1)"
    unfolding n by (simp add: tq_count_def)
  moreover have "unat (of_nat (?N - 1) :: u32) = ?N - 1" using assms(2) by (simp add: unat_of_nat)
  ultimately show "(num + (execs * execs * 2 + execs * 2 + 1) - 1) div execs = of_nat (tq_share num execs)"
    unfolding tq_share_def using us
    by (intro word_unat_eq_iff [THEN iffD2]) (simp add: unat_div tq_share_def)
  have "0 < ?N" by (simp add: tq_count_def)
  then show "tq_share num execs * ?e < ?N"
    unfolding tq_share_def by (metis Suc_pred' div_times_less_eq_dividend le_imp_less_Suc)
  show "?e < 2 ^ 14"
  proof (rule ccontr)
    assume "\<not> ?thesis"
    then have "(2 ^ 14) * (2 ^ 14) \<le> ?e * ?e" by (intro mult_le_mono) auto
    then show False using assms(2) by (simp add: tq_count_def)
  qed
  have "?e \<le> ?N - 1" using e by (simp add: tq_count_def)
  then show "0 < tq_share num execs" unfolding tq_share_def using e by (simp add: div_greater_zero_iff)
qed

lemma tq_node_inj:
  assumes "tq_count num execs < 2 ^ 28"
  shows "inj_on (tq_node mem execs) {..<tq_count num execs}"
proof (rule inj_onI)
  fix i j assume ij: "i \<in> {..<tq_count num execs}" "j \<in> {..<tq_count num execs}"
    and eq: "tq_node mem execs i = tq_node mem execs j"
  have "unat (of_nat (k * 8) :: u32) = k * 8" if "k \<in> {..<tq_count num execs}" for k
    using that assms by (simp add: unat_of_nat del: of_nat_mult)
  moreover have "(of_nat (i * 8) :: u32) = of_nat (j * 8)" using eq by (simp add: tq_node_def tq_node_at_def)
  ultimately have "i * 8 = j * 8" using ij by metis
  then show "i = j" by simp
qed

text \<open>After \<open>i\<close> executors: their lists and counts are set, and the nodes of their lists linked.\<close>

definition tq_lists_done ::
  "ptr \<Rightarrow> u32 \<Rightarrow> nat \<Rightarrow> nat \<Rightarrow> 'a thread_queue_state_scheme \<Rightarrow> bool" where
  "tq_lists_done mem execs en i s \<longleftrightarrow>
     (\<forall>j < i. nl_list (qna_lists (the (tq_allocs s (tq_alloc_at mem execs))) ! j) = tq_node mem execs (j * en + en - 1) \<and>
        nl_count (qna_lists (the (tq_allocs s (tq_alloc_at mem execs))) ! j) = of_nat en) \<and>
     (\<forall>k < i * en. tnext s (tq_node mem execs k) = Some (if k mod en = 0 then NULL else tq_node mem execs (k - 1)))"

lemma tq_lists_done_chain:
  assumes d: "tq_lists_done mem execs en i s" and j: "j < i" and en: "0 < en"
    and nz: "\<And>k. k < i * en \<Longrightarrow> tq_node mem execs k \<noteq> NULL"
  shows "chain (tnext s) (tq_node mem execs (j * en + en - 1))
    (map (\<lambda>m. tq_node mem execs (j * en + en - 1 - m)) [0..<en]) NULL"
proof -
  let ?f = "\<lambda>m. if m = en then NULL else tq_node mem execs (j * en + en - 1 - m)"
  have "chain (tnext s) (?f 0) (map ?f [0..<en]) (?f en)"
  proof (rule chain_array)
    fix m assume "0 \<le> m" "m < en"
    have lt: "j * en + en - 1 - m < i * en"
    proof -
      have "(j + 1) * en \<le> i * en" using j by (intro mult_le_mono1) simp
      then show ?thesis using en \<open>m < en\<close> by (simp add: algebra_simps)
    qed
    have e: "j * en + en - 1 - m = j * en + (en - 1 - m)" using \<open>m < en\<close> by simp
    have md: "(j * en + en - 1 - m) mod en = en - 1 - m" 
    proof -
      have "(j * en + (en - 1 - m)) mod en = (en - 1 - m) mod en" by (rule mod_mult_self3)
      also have "\<dots> = en - 1 - m" using \<open>m < en\<close> by (intro mod_less) simp
      finally show ?thesis unfolding e .
    qed
    have "tnext s (tq_node mem execs (j * en + en - 1 - m)) =
        Some (if en - 1 - m = 0 then NULL else tq_node mem execs (j * en + en - 1 - m - 1))"
      using d lt unfolding tq_lists_done_def md [symmetric] by blast
    then show "tnext s (?f m) = Some (?f (Suc m)) \<and> ?f m \<noteq> NULL"
      using \<open>m < en\<close> nz [OF lt] by auto
  qed simp
  moreover have "map ?f [0..<en] = map (\<lambda>m. tq_node mem execs (j * en + en - 1 - m)) [0..<en]" by simp
  ultimately show ?thesis using en by simp
qed

lemma tq_memory_frame [simp]:
  "tq_memory (store (tn_next_loc p) v s) mem num execs = tq_memory s mem num execs"
  "tq_memory (store (nl_loc get upd p e) w s) mem num execs = tq_memory s mem num execs"
  "tq_memory (tset p v s) mem num execs = tq_memory s mem num execs"
  by (auto simp: tq_memory_def elem_loc_simps tset_def split: option.splits)

lemma tq_memory_live:
  "tq_memory s mem num execs \<Longrightarrow> i < unat execs \<Longrightarrow> nl_live (tq_alloc_at mem execs) (of_nat i) s"
  using unsigned_less [of execs]
  by (auto simp: tq_memory_def nl_live_def unat_of_nat split: option.splits)

lemma nl_store_others:
  "j \<noteq> unat e \<Longrightarrow> qna_lists (the (tq_allocs (store (nl_loc get upd p e) v s) p)) ! j = qna_lists (the (tq_allocs s p)) ! j"
  by (cases "tq_allocs s p") (simp_all add: elem_loc_simps)

text \<open>A loop that links the nodes \<open>f j\<close> to the ones before them changes these links only.\<close>

lemma link_nodes:
  fixes s :: "'a thread_queue_state_scheme"
  assumes m: "tq_memory s mem num execs" and f: "inj_on f (set ks)" "distinct ks" "\<forall>j \<in> set ks. f j < tq_count num execs"
  defines "node \<equiv> tq_node mem execs"
  shows "returns (foreach (\<lambda>j. pwr (tn_next_loc (node (f j))) (node (f j - 1))) ks (s, fs)) (\<lambda>_ c'. snd c' = fs \<and>
    tq_memory (fst c') mem num execs \<and> tq_allocs (fst c') = tq_allocs s \<and> thread_queue_state.more (fst c') = thread_queue_state.more s \<and>
    (\<forall>k < tq_count num execs. tnext (fst c') (node k) = (if k \<in> f ` set ks then Some (node (k - 1)) else tnext s (node k))))"
proof -
  let ?I = "\<lambda>u. tq_memory u mem num execs \<and> tq_allocs u = tq_allocs s \<and> thread_queue_state.more u = thread_queue_state.more s"
  have "tq_count num execs < 2 ^ 28" using m by (simp add: tq_memory_def)
  then have inj: "node k = node l \<longleftrightarrow> k = l" if "k < tq_count num execs" "l < tq_count num execs" for k l
    using tq_node_inj [of num execs mem] that unfolding node_def inj_on_def by auto
  have "returns (foreach (\<lambda>j. pwr (tn_next_loc (node (f j))) (node (f j - 1))) ks (s, fs))
    (\<lambda>_ c'. snd c' = snd (s, fs) \<and> ?I (fst c') \<and>
      (\<forall>j \<in> set ks. load (tn_next_loc (node (f j))) (fst c') = Some (node (f j - 1))) \<and>
      (\<forall>p. p \<notin> (\<lambda>j. node (f j)) ` set ks \<longrightarrow> load (tn_next_loc p) (fst c') = load (tn_next_loc p) (fst (s, fs))))"
  proof (rule tq_ms.link_loop)
    show "inj_on (\<lambda>j. node (f j)) (set ks)" using f inj unfolding inj_on_def by blast
    show "load (tn_next_loc (node (f j))) (fst (s, fs)) \<noteq> None" if "j \<in> set ks" for j
      using m f(3) that by (simp add: tq_memory_def node_def)
    show "?I (store (tn_next_loc p) v u)" if "?I u" for p v u
      using that tq_memory_frame(1) [of p v u mem num execs] by simp
  qed (use f(2) m in simp_all)
  then show ?thesis
  proof (rule returns_mono)
    fix u c'
    assume c': "snd c' = snd (s, fs) \<and> ?I (fst c') \<and>
      (\<forall>j \<in> set ks. load (tn_next_loc (node (f j))) (fst c') = Some (node (f j - 1))) \<and>
      (\<forall>p. p \<notin> (\<lambda>j. node (f j)) ` set ks \<longrightarrow> load (tn_next_loc p) (fst c') = load (tn_next_loc p) (fst (s, fs)))"
    have "tnext (fst c') (node k) = (if k \<in> f ` set ks then Some (node (k - 1)) else tnext s (node k))" if k: "k < tq_count num execs" for k
    proof (cases "k \<in> f ` set ks")
      case True
      then show ?thesis using c' unfolding tnext_def by auto
    next
      case False
      then have "node k \<notin> (\<lambda>j. node (f j)) ` set ks" using inj k f(3) by auto
      then show ?thesis using c' False unfolding tnext_def fst_conv by auto
    qed
    with c' show "snd c' = fs \<and> tq_memory (fst c') mem num execs \<and> tq_allocs (fst c') = tq_allocs s \<and>
      thread_queue_state.more (fst c') = thread_queue_state.more s \<and>
      (\<forall>k < tq_count num execs. tnext (fst c') (node k) = (if k \<in> f ` set ks then Some (node (k - 1)) else tnext s (node k)))" by simp
  qed
qed

text \<open>A state with the list of one more executor.\<close>

lemma lists_done_Suc:
  assumes d: "tq_lists_done mem execs en i s" and en: "0 < en"
    and l: "nl_list (qna_lists (the (tq_allocs t (tq_alloc_at mem execs))) ! i) = tq_node mem execs (i * en + en - 1)"
      "nl_count (qna_lists (the (tq_allocs t (tq_alloc_at mem execs))) ! i) = of_nat en"
      "\<And>j. j < i \<Longrightarrow> qna_lists (the (tq_allocs t (tq_alloc_at mem execs))) ! j = qna_lists (the (tq_allocs s (tq_alloc_at mem execs))) ! j"
    and x: "\<And>k. k < Suc i * en \<Longrightarrow> tnext t (tq_node mem execs k) =
      (if i * en < k then Some (tq_node mem execs (k - 1)) else if k = i * en then Some NULL else tnext s (tq_node mem execs k))"
  shows "tq_lists_done mem execs en (Suc i) t"
proof -
  have "\<not> en dvd k" if k: "k < en + i * en" "i * en < k" for k
  proof -
    obtain j where j: "k = i * en + j" "0 < j" using k(2) less_imp_add_positive by blast
    then show ?thesis using k(1) by (simp add: dvd_add_right_iff nat_dvd_not_less)
  qed
  then show ?thesis using d l x unfolding tq_lists_done_def by (auto simp: less_Suc_eq)
qed

text \<open>One round of the outer loop.\<close>

lemma init_round:
  fixes s :: "'a thread_queue_state_scheme"
  assumes m: "tq_memory s mem num execs" and i: "i < unat execs"
    and d: "tq_lists_done mem execs (tq_share num execs) i s"
  defines "alloc \<equiv> tq_alloc_at mem execs" and "en \<equiv> tq_share num execs" and "node \<equiv> tq_node mem execs"
  shows "returns (do {
      (_, c) \<leftarrow> pwr (tn_next_loc (node (i * en))) NULL (s, fs);
      (_, c) \<leftarrow> pwr (nl_count_loc alloc (of_nat i)) (of_nat en) c;
      (_, c) \<leftarrow> pwr (nl_list_loc alloc (of_nat i)) (node (i * en + en - 1)) c;
      foreach (\<lambda>j. pwr (tn_next_loc (node (i * en + j))) (node (i * en + j - 1))) [1..<en] c })
    (\<lambda>_ c'. snd c' = fs \<and> tq_memory (fst c') mem num execs \<and> tq_lists_done mem execs en (Suc i) (fst c') \<and>
      thread_queue_state.more (fst c') = thread_queue_state.more s)"
proof -
  have e: "execs \<noteq> 0" "tq_count num execs < 2 ^ 28" using m by (auto simp: tq_memory_def)
  note w = tq_count_words [OF e]
  have en: "0 < en" "en * unat execs < tq_count num execs" using w by (auto simp: en_def)
  have bnd: "k < tq_count num execs" if "k < Suc i * en" for k
  proof -
    have "Suc i * en \<le> unat execs * en" using i by (intro mult_le_mono1) simp
    then show ?thesis using that en by (simp add: mult.commute)
  qed
  have first: "i * en < tq_count num execs" using en by (intro bnd) simp
  have nx: "tnext s (node (i * en)) \<noteq> None" using m first by (auto simp: tq_memory_def node_def tnext_def)
  let ?b = "store (nl_list_loc alloc (of_nat i)) (node (i * en + en - 1))
    (store (nl_count_loc alloc (of_nat i)) (of_nat en) (tset (node (i * en)) NULL s))"
  have lv: "nl_live alloc (of_nat i) s" using tq_memory_live [OF m i] by (simp add: alloc_def)
  have iu: "unat (of_nat i :: u32) = i" using i w(6) by (simp add: unat_of_nat)
  have mb: "tq_memory ?b mem num execs" using m by simp
  have img: "k \<in> (\<lambda>j. i * en + j) ` set [1..<en] \<longleftrightarrow> i * en < k \<and> k < Suc i * en" for k
    using image_add_atLeastLessThan [of "i * en" 1 en] by auto
  have inj: "node k = node (i * en) \<longleftrightarrow> k = i * en" if "k < Suc i * en" for k
    using tq_node_inj [OF e(2), of mem] bnd [OF that] first unfolding node_def inj_on_def by auto
  have "returns (foreach (\<lambda>j. pwr (tn_next_loc (node (i * en + j))) (node (i * en + j - 1))) [1..<en] (?b, fs)) (\<lambda>_ c'. snd c' = fs \<and>
    tq_memory (fst c') mem num execs \<and> tq_allocs (fst c') = tq_allocs ?b \<and> thread_queue_state.more (fst c') = thread_queue_state.more ?b \<and>
    (\<forall>k < tq_count num execs. tnext (fst c') (node k) = (if k \<in> (\<lambda>j. i * en + j) ` set [1..<en] then Some (node (k - 1)) else tnext ?b (node k))))"
    unfolding node_def by (rule link_nodes [OF mb [unfolded node_def]]) (use bnd in \<open>auto simp: inj_on_def\<close>)
  then have "returns (foreach (\<lambda>j. pwr (tn_next_loc (node (i * en + j))) (node (i * en + j - 1))) [1..<en] (?b, fs))
    (\<lambda>_ c'. snd c' = fs \<and> tq_memory (fst c') mem num execs \<and> tq_lists_done mem execs en (Suc i) (fst c') \<and>
      thread_queue_state.more (fst c') = thread_queue_state.more s)"
  proof (rule returns_mono)
    fix u c'
    assume c': "snd c' = fs \<and> tq_memory (fst c') mem num execs \<and> tq_allocs (fst c') = tq_allocs ?b \<and>
      thread_queue_state.more (fst c') = thread_queue_state.more ?b \<and>
      (\<forall>k < tq_count num execs. tnext (fst c') (node k) = (if k \<in> (\<lambda>j. i * en + j) ` set [1..<en] then Some (node (k - 1)) else tnext ?b (node k)))"
    have "qna_lists (the (tq_allocs ?b alloc)) ! unat (of_nat i :: u32) =
        nl_list_update (\<lambda>_. node (i * en + en - 1)) (nl_count_update (\<lambda>_. of_nat en) (qna_lists (the (tq_allocs s alloc)) ! unat (of_nat i :: u32)))"
      using lv by simp
    moreover have "qna_lists (the (tq_allocs ?b alloc)) ! j = qna_lists (the (tq_allocs s alloc)) ! j" if "j < i" for j
      using that iu by (simp add: nl_store_others)
    moreover have "tnext (fst c') (node k) = (if i * en < k then Some (node (k - 1)) else if k = i * en then Some NULL else tnext s (node k))"
      if k: "k < Suc i * en" for k
      using c' bnd [OF k] k nx inj [OF k] unfolding img by auto
    ultimately have "tq_lists_done mem execs en (Suc i) (fst c')"
      using c' iu en(1) d by (intro lists_done_Suc [of mem execs en i s]) (simp_all add: alloc_def node_def en_def)
    then show "snd c' = fs \<and> tq_memory (fst c') mem num execs \<and> tq_lists_done mem execs en (Suc i) (fst c') \<and>
      thread_queue_state.more (fst c') = thread_queue_state.more s" using c' by simp
  qed
  then show ?thesis using nx lv by auto
qed

text \<open>What \<open>lf_thread_queue_init\<close> leaves.\<close>

definition tq_ready :: "ptr \<Rightarrow> u32 \<Rightarrow> u32 \<Rightarrow> 'a thread_queue_state_scheme \<Rightarrow> bool" where
  "tq_ready mem num execs s \<longleftrightarrow>
     (let N = tq_count num execs; en = tq_share num execs; sent = tq_node mem execs (N - 1);
          alloc = tq_alloc_at mem execs
      in tq_memory s mem num execs \<and>
         tq_queues s mem = Some \<lparr>lf_allocator = alloc, lf_head = sent, lf_tail = sent,
           lf_hptrs = replicate (unat execs) \<lparr>thp_rcount = 0, thp_rlist = NULL, thp_ptrs = (\<lambda>_. NULL)\<rparr>\<rparr> \<and>
         qna_count (the (tq_allocs s alloc)) = of_nat N \<and>
         qna_shared_list (the (tq_allocs s alloc)) = (if en * unat execs = N - 1 then NULL else sent) \<and>
         tnext s sent = Some NULL \<and> tq_lists_done mem execs en (unat execs) s \<and>
         lf_thread_queue_hptrs s = execs \<and> lf_thread_queue_hptr_threshold s = execs * 2)"

lemma tq_count_pos: "0 < tq_count num execs"
  by (simp add: tq_count_def)

lemma tq_node_zero: "tq_memory s mem num execs \<Longrightarrow> k < tq_count num execs \<Longrightarrow> tq_node mem execs k \<noteq> NULL"
  by (simp add: tq_memory_def)

lemma tq_bounds_nat:
  assumes "unat n < 2 ^ 31" "ec \<noteq> 0"
  shows "unat (tq_upper ec n) = max 1 ((unat n + unat n div 4) div unat ec)"
    "unat (tq_lower ec n) = max 1 ((unat n - unat n div 4) div unat ec)"
proof -
  have d: "unat (drop_bit 2 n) = unat n div 4" by (simp only: unat_drop_bit_eq) (simp add: drop_bit_eq_div)
  have s: "unat (n + drop_bit 2 n) = unat n + unat n div 4"
    using assms(1) d by (subst unat_add_lem [THEN iffD1]) auto
  have l: "unat (if drop_bit 2 n < n then n - drop_bit 2 n else 0) = unat n - unat n div 4"
    using d by (auto simp: word_less_nat_alt unat_sub word_le_nat_alt)
  have mx: "unat (if b \<noteq> 0 then b else 1) = max 1 (unat b)" for b :: u32
    by (simp add: max_def unat_eq_0 [symmetric] Suc_le_eq del: unat_eq_0)
  show "unat (tq_upper ec n) = max 1 ((unat n + unat n div 4) div unat ec)"
    unfolding tq_upper_def Let_def mx unat_div s ..
  show "unat (tq_lower ec n) = max 1 ((unat n - unat n div 4) div unat ec)"
    unfolding tq_lower_def Let_def mx unat_div l ..
qed

lemma tq_upper_share:
  assumes "0 < unat execs"
  shows "tq_share num execs + 1 \<le> (tq_count num execs + tq_count num execs div 4) div unat execs"
proof -
  let ?N = "tq_count num execs" and ?e = "unat execs"
  have "?e - 1 \<le> ?N div 4"
  proof -
    have "2 * ?e \<le> ?e * ?e + 1" by (cases ?e) auto
    then have "4 * (?e - 1) \<le> ?N" by (simp add: tq_count_def)
    then show ?thesis by simp
  qed
  then have "(?N - 1) + ?e \<le> ?N + ?N div 4" using assms tq_count_pos [of num execs] by linarith
  then have "((?N - 1) + ?e) div ?e \<le> (?N + ?N div 4) div ?e" by (rule div_le_mono)
  moreover have "((?N - 1) + ?e) div ?e = (?N - 1) div ?e + 1" using assms by (intro div_add_self2) simp
  ultimately show ?thesis unfolding tq_share_def by linarith
qed

lemma ready_holds:
  assumes r: "tq_ready mem num execs s" and ex: "exec < execs"
    and k: "unat (tq_lower execs (of_nat (tq_count num execs))) + k < tq_share num execs"
  shows "tq_holds execs mem exec s k []"
proof -
  define N en sent alloc node where "N = tq_count num execs" and "en = tq_share num execs"
    and "sent = tq_node mem execs (N - 1)" and "alloc = tq_alloc_at mem execs" and "node = tq_node mem execs"
  note defs = N_def en_def sent_def alloc_def
  define free where "free = map (\<lambda>m. node (unat exec * en + en - 1 - m)) [0..<en]"
  have m: "tq_memory s mem num execs" using r by (simp add: tq_ready_def Let_def)
  have e: "execs \<noteq> 0" "tq_count num execs < 2 ^ 28" using m by (auto simp: tq_memory_def)
  note w = tq_count_words [OF e]
  have en: "0 < en" "en * unat execs < N" using w by (auto simp: defs)
  have "en \<le> en * unat execs" using w(8) by simp
  then have small: "en < 2 ^ 28" using en(2) e(2) unfolding N_def by linarith
  have xe: "unat exec < unat execs" using ex by (simp add: word_less_nat_alt)
  have bnd: "unat exec * en + en \<le> unat execs * en"
  proof -
    have "(unat exec + 1) * en \<le> unat execs * en" using xe by (intro mult_le_mono1) simp
    then show ?thesis by simp
  qed
  have q: "tq_queues s mem = Some \<lparr>lf_allocator = alloc, lf_head = sent, lf_tail = sent,
      lf_hptrs = replicate (unat execs) \<lparr>thp_rcount = 0, thp_rlist = NULL, thp_ptrs = (\<lambda>_. NULL)\<rparr>\<rparr>"
    and cnt: "qna_count (the (tq_allocs s alloc)) = of_nat N" and sn: "tnext s sent = Some NULL"
    and d: "tq_lists_done mem execs en (unat execs) s"
    and h: "lf_thread_queue_hptrs s = execs" "lf_thread_queue_hptr_threshold s = execs * 2"
    using r by (simp_all add: tq_ready_def Let_def defs)
  have al: "nl_live alloc exec s"
    using tq_memory_live [OF m xe] by (simp add: alloc_def)
  have lv: "tq_live mem exec s" using m q al xe by (simp add: tq_live_def tq_memory_def)
  have "chain (tnext s) (node (unat exec * en + en - 1)) free NULL"
    unfolding free_def node_def
    by (rule tq_lists_done_chain [OF d xe en(1)]) (use tq_node_zero [OF m] en in \<open>auto simp: N_def mult.commute\<close>)
  then have pr: "tq_private s mem exec free"
    using lv d xe q small
    by (auto simp: tq_private_def tq_lists_done_def alloc_def [symmetric] node_def free_def N_def)
  have rt: "tq_retired s mem exec []" using lv q xe by (simp add: tq_retired_def)
  have ok: "tq_hptrs_ok s mem" using q h w(6) by (simp add: tq_hptrs_ok_def)
  have sent_free: "sent \<notin> set free"
  proof
    assume "sent \<in> set free"
    then obtain j where j: "j < en" "node (N - 1) = node (unat exec * en + en - 1 - j)"
      by (auto simp: free_def sent_def node_def)
    have lt: "unat exec * en + en - 1 - j < N - 1" using bnd en by (simp add: mult.commute)
    have "unat exec * en + en - 1 - j < N" using lt by linarith
    then have "N - 1 = unat exec * en + en - 1 - j"
      using tq_count_pos [of num execs] inj_onD [OF tq_node_inj [OF e(2), of mem] j(2) [unfolded node_def]]
      by (simp add: N_def)
    then show False using lt by simp
  qed
  have "distinct (free @ [])" using chain_distinct pr unfolding tq_private_def by force
  then have pool: "tq_pool s mem exec free []" using pr rt ok by (simp add: tq_pool_def)
  have "tq_ok s mem exec free [] sent [] []"
    using pool \<open>distinct (free @ [])\<close> sent_free q sn tq_node_zero [OF m, of "N - 1"] m tq_count_pos
    by (auto simp: tq_ok_def ms_queue_def tq_memory_def tnext_def sent_def N_def simp del: field_loc_simps(2))
  moreover have "tq_stays execs s mem (length free - k) (length free + length [] + 1 + length [])"
  proof -
    have "en + 1 \<le> (N + N div 4) div unat execs"
      using tq_upper_share w(8) by (simp add: defs)
    then have "en + 1 \<le> unat (tq_upper execs (of_nat N))"
      using tq_bounds_nat(1) [of "of_nat N" execs] e w(3) by (simp add: N_def)
    then show ?thesis using k e cnt q by (simp add: tq_stays_def free_def defs)
  qed
  ultimately show ?thesis unfolding tq_holds_def by (metis list.size(3) empty_iff list.set(1))
qed

text \<open>The list of the nodes left over is linked below its head, which is the sentinel.\<close>

lemma init_shared:
  fixes s :: "'a thread_queue_state_scheme"
  assumes m: "tq_memory s mem num execs" and d: "tq_lists_done mem execs (tq_share num execs) (unat execs) s"
  defines "alloc \<equiv> tq_alloc_at mem execs" and "en \<equiv> tq_share num execs" and "node \<equiv> tq_node mem execs"
    and "N \<equiv> tq_count num execs"
  shows "returns (if en * unat execs = N - 1 then pwr (tq_shared_loc alloc) NULL (s, fs)
       else do {
         (_, c) \<leftarrow> pwr (tq_shared_loc alloc) (node (N - 1)) (s, fs);
         (_, c) \<leftarrow> pwr (tn_next_loc (node (en * unat execs))) NULL c;
         foreach (\<lambda>i. pwr (tn_next_loc (node i)) (node (i - 1))) [en * unat execs + 1..<N - 1] c })
    (\<lambda>_ c'. snd c' = fs \<and> tq_memory (fst c') mem num execs \<and> tq_lists_done mem execs en (unat execs) (fst c') \<and>
      qna_shared_list (the (tq_allocs (fst c') alloc)) = (if en * unat execs = N - 1 then NULL else node (N - 1)) \<and>
      thread_queue_state.more (fst c') = thread_queue_state.more s)"
proof -
  have e: "execs \<noteq> 0" "tq_count num execs < 2 ^ 28" using m by (auto simp: tq_memory_def)
  have le: "en * unat execs < N" using tq_count_words(5) [OF e] by (simp add: en_def N_def)
  have sh: "tq_allocs s alloc \<noteq> None" "alloc \<noteq> NULL"
    using m by (auto simp: tq_memory_def alloc_def split: option.splits)
  have inj: "node k = node l \<longleftrightarrow> k = l" if "k < N" "l < N" for k l
    using tq_node_inj [OF e(2), of mem] that unfolding node_def inj_on_def N_def by auto
  have mem': "tq_memory (store (tq_shared_loc alloc) v s) mem num execs" for v
    using m by (auto simp: tq_memory_def split: option.splits)
  have done': "tq_lists_done mem execs en (unat execs) t"
    if "tq_allocs t alloc = tq_allocs (store (tq_shared_loc alloc) v s) alloc"
      "\<And>k. k < en * unat execs \<Longrightarrow> tnext t (node k) = tnext s (node k)" for t v
    using d that sh unfolding tq_lists_done_def alloc_def node_def en_def by (auto simp: mult.commute)
  show ?thesis
  proof (cases "en * unat execs = N - 1")
    case True
    have "tq_lists_done mem execs en (unat execs) (store (tq_shared_loc alloc) NULL s)"
      by (rule done') (simp_all add: tnext_def)
    then show ?thesis using True sh mem' [of NULL] by (auto simp: wp)
  next
    case False
    let ?a = "store (tq_shared_loc alloc) (node (N - 1)) s"
    let ?b = "store (tn_next_loc (node (en * unat execs))) NULL ?a"
    have mb: "tq_memory ?b mem num execs" using mem' by (simp only: tq_memory_frame)
    have "returns (foreach (\<lambda>i. pwr (tn_next_loc (node i)) (node (i - 1))) [en * unat execs + 1..<N - 1] (?b, fs)) (\<lambda>_ c'. snd c' = fs \<and>
      tq_memory (fst c') mem num execs \<and> tq_allocs (fst c') = tq_allocs ?b \<and> thread_queue_state.more (fst c') = thread_queue_state.more ?b \<and>
      (\<forall>k < N. tnext (fst c') (node k) = (if k \<in> (\<lambda>i. i) ` set [en * unat execs + 1..<N - 1] then Some (node (k - 1)) else tnext ?b (node k))))"
      unfolding node_def N_def by (rule link_nodes [where f = "\<lambda>i. i", OF mb [unfolded node_def N_def]]) auto
    then have loop: "returns (foreach (\<lambda>i. pwr (tn_next_loc (node i)) (node (i - 1))) [en * unat execs + 1..<N - 1] (?b, fs))
      (\<lambda>_ c'. snd c' = fs \<and> tq_memory (fst c') mem num execs \<and> tq_lists_done mem execs en (unat execs) (fst c') \<and>
        qna_shared_list (the (tq_allocs (fst c') alloc)) = node (N - 1) \<and>
        thread_queue_state.more (fst c') = thread_queue_state.more s)"
    proof (rule returns_mono)
      fix u c'
      assume c': "snd c' = fs \<and> tq_memory (fst c') mem num execs \<and> tq_allocs (fst c') = tq_allocs ?b \<and>
        thread_queue_state.more (fst c') = thread_queue_state.more ?b \<and>
        (\<forall>k < N. tnext (fst c') (node k) = (if k \<in> (\<lambda>i. i) ` set [en * unat execs + 1..<N - 1] then Some (node (k - 1)) else tnext ?b (node k)))"
      have "tnext (fst c') (node k) = tnext s (node k)" if k: "k < en * unat execs" for k
        using c' k le inj [of k "en * unat execs"] by (simp add: tnext_def)
      then have "tq_lists_done mem execs en (unat execs) (fst c')" using done' [of "fst c'" "node (N - 1)"] c' by simp
      then show "snd c' = fs \<and> tq_memory (fst c') mem num execs \<and> tq_lists_done mem execs en (unat execs) (fst c') \<and>
        qna_shared_list (the (tq_allocs (fst c') alloc)) = node (N - 1) \<and>
        thread_queue_state.more (fst c') = thread_queue_state.more s"
        using c' sh by auto
    qed
    have "load (tn_next_loc (node (en * unat execs))) ?a \<noteq> None"
      using mem' [of "node (N - 1)"] le by (simp add: tq_memory_def node_def N_def)
    then show ?thesis unfolding if_not_P [OF False] using loop sh by (auto simp: wp simp del: field_loc_simps(2))
  qed
qed

text \<open>The straight code after the loops.\<close>

lemma init_tail:
  fixes s :: "'a thread_queue_state_scheme"
  assumes m: "tq_memory s mem num execs" and d: "tq_lists_done mem execs (tq_share num execs) (unat execs) s"
    and sh: "qna_shared_list (the (tq_allocs s (tq_alloc_at mem execs))) =
      (if tq_share num execs * unat execs = tq_count num execs - 1 then NULL else tq_node mem execs (tq_count num execs - 1))"
  defines "alloc \<equiv> tq_alloc_at mem execs" and "sent \<equiv> tq_node mem execs (tq_count num execs - 1)"
  shows "returns (do {
     (_, c) \<leftarrow> pwr (tq_count_loc alloc) (of_nat (tq_count num execs)) (s, fs);
     (_, c) \<leftarrow> pwr (global_loc lf_thread_queue_hptrs lf_thread_queue_hptrs_update) execs c;
     (_, c) \<leftarrow> pwr (global_loc lf_thread_queue_hptr_threshold lf_thread_queue_hptr_threshold_update)
       (execs * 2) c;
     (_, c) \<leftarrow> pwr (tn_next_loc sent) NULL c;
     (_, c) \<leftarrow> pwr (tn_data_loc sent) NULL c;
     (_, c) \<leftarrow> pwr (tq_head_loc mem) sent c;
     (_, c) \<leftarrow> pwr (tq_tail_loc mem) sent c;
     (_, c) \<leftarrow> pwr (tq_alloc_loc mem) alloc c;
     (_, c) \<leftarrow> pwr (field_loc tq_queues tq_queues_update lf_hptrs lf_hptrs_update mem)
       (replicate (unat execs) \<lparr>thp_rcount = 0, thp_rlist = NULL, thp_ptrs = (\<lambda>_. NULL)\<rparr>) c;
     Some (r, c) })
    (\<lambda>r' c'. r' = r \<and> snd c' = fs \<and> tq_ready mem num execs (fst c') \<and>
      thread_queue_state.more (fst c') = thread_queue_state.more s)"
proof -
  obtain a where a: "tq_allocs s alloc = Some a" "unat execs \<le> length (qna_lists a)" "alloc \<noteq> NULL"
    using m by (auto simp: tq_memory_def alloc_def split: option.splits)
  obtain n where n: "tq_nodes s sent = Some n" "sent \<noteq> NULL"
  proof -
    have "tq_count num execs - 1 < tq_count num execs" using tq_count_pos by simp
    then have "sent \<noteq> NULL \<and> tq_nodes s sent \<noteq> None" using m unfolding tq_memory_def sent_def by blast
    then show ?thesis using that by blast
  qed
  obtain q where q: "tq_queues s mem = Some q" "mem \<noteq> NULL" using m by (auto simp: tq_memory_def)
  let ?u = "s\<lparr>tq_allocs := (tq_allocs s)(alloc \<mapsto> a\<lparr>qna_count := of_nat (tq_count num execs)\<rparr>),
      lf_thread_queue_hptrs := execs, lf_thread_queue_hptr_threshold := execs * 2,
      tq_nodes := (tq_nodes s)(sent \<mapsto> n\<lparr>lfn_next := NULL, lfn_data := NULL\<rparr>),
      tq_queues := (tq_queues s)(mem \<mapsto> \<lparr>lf_allocator = alloc, lf_head = sent, lf_tail = sent,
        lf_hptrs = replicate (unat execs) \<lparr>thp_rcount = 0, thp_rlist = NULL, thp_ptrs = (\<lambda>_. NULL)\<rparr>\<rparr>)\<rparr>"
  have e: "execs \<noteq> 0" "tq_count num execs < 2 ^ 28" using m by (auto simp: tq_memory_def)
  have other: "tnext ?u (tq_node mem execs k) = tnext s (tq_node mem execs k)"
    if k: "k < unat execs * tq_share num execs" for k
  proof -
    have lt: "k < tq_count num execs - 1"
      using k tq_count_words(5) [OF e] by (simp add: mult.commute)
    then have "k < tq_count num execs" by linarith
    then have "tq_node mem execs k \<noteq> sent" using lt
      using inj_onD [OF tq_node_inj [OF e(2), of mem], of k "tq_count num execs - 1"] unfolding sent_def by auto
    then show ?thesis by (simp add: tnext_def)
  qed
  have "tq_memory ?u mem num execs"
    using m a q n by (auto simp: tq_memory_def alloc_def)
  moreover have "tq_lists_done mem execs (tq_share num execs) (unat execs) ?u"
    using d other a unfolding tq_lists_done_def alloc_def [symmetric] by simp
  ultimately have "tq_ready mem num execs ?u"
    using sh a n by (auto simp: tq_ready_def Let_def alloc_def sent_def tnext_def)
  then show ?thesis using a n q
    by (cases q) (simp add: wp fun_upd_def cong: if_cong)
qed

lemma tq_node_words:
  fixes mem num execs :: u32
  assumes "execs \<noteq> 0" "tq_count num execs < 2 ^ 28"
  defines "nodes \<equiv> mem + tq_align (12 + (16 + 2 * 4) * execs) + (32 + execs * 32)"
    and "en \<equiv> tq_share num execs" and "N \<equiv> tq_count num execs"
  shows "tq_node_at nodes (of_nat k) = tq_node mem execs k"
    "tq_node_at nodes (of_nat N - 1) = tq_node mem execs (N - 1)"
    "tq_node_at nodes (of_nat i * of_nat en) = tq_node mem execs (i * en)"
    "tq_node_at nodes (of_nat i * of_nat en + (of_nat en - 1)) = tq_node mem execs (i * en + en - 1)"
    "tq_node_at nodes (of_nat i * of_nat en + of_nat j) = tq_node mem execs (i * en + j)"
    "0 < j \<Longrightarrow> tq_node_at nodes (of_nat i * of_nat en + of_nat j - 1) = tq_node mem execs (i * en + j - 1)"
    "0 < j \<Longrightarrow> tq_node_at nodes (of_nat j - 1) = tq_node mem execs (j - 1)"
proof -
  show eq: "tq_node_at nodes (of_nat k) = tq_node mem execs k" for k
    by (simp add: tq_node_def nodes_def tq_alloc_at_def)
  have sub: "(of_nat (k - 1) :: u32) = of_nat k - 1" if "0 < k" for k
    using that by (simp add: of_nat_diff)
  have en: "0 < en" using tq_count_words(7) [OF assms(1,2)] by (simp add: en_def)
  show "tq_node_at nodes (of_nat N - 1) = tq_node mem execs (N - 1)"
    using eq [of "N - 1"] sub [of N] tq_count_pos by (simp add: N_def)
  show "tq_node_at nodes (of_nat i * of_nat en) = tq_node mem execs (i * en)"
    using eq [of "i * en"] by simp
  show "tq_node_at nodes (of_nat i * of_nat en + of_nat j) = tq_node mem execs (i * en + j)"
    using eq [of "i * en + j"] by simp
  show "tq_node_at nodes (of_nat i * of_nat en + (of_nat en - 1)) = tq_node mem execs (i * en + en - 1)"
    using eq [of "i * en + en - 1"] sub [of "i * en + en"] en by (simp add: algebra_simps)
  show "tq_node_at nodes (of_nat i * of_nat en + of_nat j - 1) = tq_node mem execs (i * en + j - 1)" if "0 < j"
    using eq [of "i * en + j - 1"] sub [of "i * en + j"] that by simp
  show "tq_node_at nodes (of_nat j - 1) = tq_node mem execs (j - 1)" if "0 < j"
    using eq [of "j - 1"] sub [of j] that by simp
qed

lemma unat_small: "k < 2 ^ 28 \<Longrightarrow> unat (of_nat k :: u32) = k"
  by (simp add: unat_of_nat)

text \<open>The bounds of the last loop, and the loops with the addresses the code computes.\<close>

lemma tq_end_words:
  fixes mem num execs :: u32
  assumes e: "execs \<noteq> 0" "tq_count num execs < 2 ^ 28"
  defines "nodes \<equiv> mem + tq_align (12 + (16 + 2 * 4) * execs) + (32 + execs * 32)"
    and "en \<equiv> tq_share num execs" and "N \<equiv> tq_count num execs"
  shows "(num + (execs * execs * 2 + execs * 2 + 1) - 1 - of_nat en * execs = 0) = (en * unat execs = N - 1)"
    "unat (of_nat en * execs + 1) = en * unat execs + 1" "unat (of_nat N - 1 :: u32) = N - 1"
    "tq_node_at nodes (of_nat en * execs) = tq_node mem execs (en * unat execs)"
proof -
  note w = tq_count_words [OF e, folded en_def N_def]
  have le: "en * unat execs < N" "N < 2 ^ 28" using w(5) e(2) by (simp_all add: N_def)
  have p: "of_nat N - 1 = (of_nat (N - 1) :: u32)" "of_nat en * execs = of_nat (en * unat execs)"
    using tq_count_pos [of num execs] by (simp_all add: N_def of_nat_diff)
  have u: "unat (of_nat (N - 1) :: u32) = N - 1" "unat (of_nat (en * unat execs) :: u32) = en * unat execs"
    "unat (of_nat (en * unat execs + 1) :: u32) = en * unat execs + 1"
    by (rule unat_small, use le in linarith)+
  show "unat (of_nat N - 1 :: u32) = N - 1" using u(1) p(1) by simp
  have "of_nat en * execs + 1 = of_nat (en * unat execs + 1)" using p(2) by simp
  then show "unat (of_nat en * execs + 1) = en * unat execs + 1" using u(3) by metis
  show "tq_node_at nodes (of_nat en * execs) = tq_node mem execs (en * unat execs)"
    unfolding p(2) nodes_def by (rule tq_node_words(1) [OF e])
  have "(of_nat (N - 1) = (of_nat (en * unat execs) :: u32)) = (N - 1 = en * unat execs)" using u(1,2) by metis
  then show "(num + (execs * execs * 2 + execs * 2 + 1) - 1 - of_nat en * execs = 0) = (en * unat execs = N - 1)"
    unfolding w(1) p right_minus_eq by auto
qed

lemma tq_link_words:
  fixes mem num execs :: u32
  assumes e: "execs \<noteq> 0" "tq_count num execs < 2 ^ 28"
  defines "nodes \<equiv> mem + tq_align (12 + (16 + 2 * 4) * execs) + (32 + execs * 32)"
    and "en \<equiv> tq_share num execs" and "node \<equiv> tq_node mem execs"
  shows "foreach (\<lambda>j. pwr (tn_next_loc (tq_node_at nodes (of_nat i * of_nat en + of_nat j)))
      (tq_node_at nodes (of_nat i * of_nat en + of_nat j - 1))) [1..<l] =
    (foreach (\<lambda>j. pwr (tn_next_loc (node (i * en + j))) (node (i * en + j - 1))) [1..<l] :: 'a thread_queue_state_scheme conc \<Rightarrow> _)"
    "foreach (\<lambda>j. pwr (tn_next_loc (tq_node_at nodes (of_nat j))) (tq_node_at nodes (of_nat j - 1))) [k + 1..<l] =
    (foreach (\<lambda>j. pwr (tn_next_loc (node j)) (node (j - 1))) [k + 1..<l] :: 'a thread_queue_state_scheme conc \<Rightarrow> _)"
proof -
  note nw = tq_node_words [OF e, where mem = mem, folded nodes_def en_def node_def]
  have "0 < j" if "j \<in> set [1..<l]" for j using that by simp
  then show "foreach (\<lambda>j. pwr (tn_next_loc (tq_node_at nodes (of_nat i * of_nat en + of_nat j)))
      (tq_node_at nodes (of_nat i * of_nat en + of_nat j - 1))) [1..<l] =
    (foreach (\<lambda>j. pwr (tn_next_loc (node (i * en + j))) (node (i * en + j - 1))) [1..<l] :: 'a thread_queue_state_scheme conc \<Rightarrow> _)"
    by (intro foreach_cong) (simp only: nw)
  have "0 < j" if "j \<in> set [k + 1..<l]" for j using that by simp
  then show "foreach (\<lambda>j. pwr (tn_next_loc (tq_node_at nodes (of_nat j))) (tq_node_at nodes (of_nat j - 1))) [k + 1..<l] =
    (foreach (\<lambda>j. pwr (tn_next_loc (node j)) (node (j - 1))) [k + 1..<l] :: 'a thread_queue_state_scheme conc \<Rightarrow> _)"
    by (intro foreach_cong) (simp only: nw)
qed

lemma init_lists:
  fixes s :: "'a thread_queue_state_scheme"
  assumes m: "tq_memory s mem num execs"
  defines "alloc \<equiv> tq_alloc_at mem execs" and "en \<equiv> tq_share num execs" and "node \<equiv> tq_node mem execs"
  shows "returns (foreach (\<lambda>i c. do {
      (_, c) \<leftarrow> pwr (tn_next_loc (node (i * en))) NULL c;
      (_, c) \<leftarrow> pwr (nl_count_loc alloc (of_nat i)) (of_nat en) c;
      (_, c) \<leftarrow> pwr (nl_list_loc alloc (of_nat i)) (node (i * en + en - 1)) c;
      foreach (\<lambda>j. pwr (tn_next_loc (node (i * en + j))) (node (i * en + j - 1))) [1..<en] c }) [0..<unat execs] (s, fs))
    (\<lambda>_ c'. snd c' = fs \<and> tq_memory (fst c') mem num execs \<and> tq_lists_done mem execs en (unat execs) (fst c') \<and>
      thread_queue_state.more (fst c') = thread_queue_state.more s)"
proof (rule foreach_rule [where P = "\<lambda>i (c :: 'a thread_queue_state_scheme conc). snd c = fs \<and> tq_memory (fst c) mem num execs \<and>
      tq_lists_done mem execs en i (fst c) \<and> thread_queue_state.more (fst c) = thread_queue_state.more s"], goal_cases)
  case (1 i c)
  then obtain u where u: "c = (u, fs)" by (cases c) auto
  show ?case unfolding u alloc_def node_def en_def
    by (rule returns_mono [OF init_round [of u mem num execs i fs]]) (use 1 u in \<open>auto simp: en_def\<close>)
qed (use m in \<open>auto simp: tq_lists_done_def\<close>)

lemma init_ready:
  fixes s :: "'a thread_queue_state_scheme"
  assumes m: "tq_memory s mem num execs"
  shows "returns (lf_thread_queue_init mem num execs (s, fs))
    (\<lambda>_ c'. snd c' = fs \<and> tq_ready mem num execs (fst c') \<and>
      thread_queue_state.more (fst c') = thread_queue_state.more s)"
proof -
  have e: "execs \<noteq> 0" "tq_count num execs < 2 ^ 28" using m by (auto simp: tq_memory_def)
  note w = tq_count_words [OF e] and nw = tq_node_words [OF e] and ends = tq_end_words [OF e] and links = tq_link_words [OF e]
  show ?thesis
    unfolding lf_thread_queue_init_def Let_def if_not_P [OF e(1)] w(2)
    apply (simp only: ends(1))
    unfolding w(1) w(4) ends(2-4) links nw(2-4) returns_bind
    apply (rule returns_mono [OF init_lists [OF m, unfolded tq_alloc_at_def]])
    apply (unfold prod.case, subst returns_bind)
    subgoal premises c for a c
      apply (rule returns_mono)
       apply (rule init_shared [of "fst c" mem num execs "snd c", unfolded prod.collapse tq_alloc_at_def])
      using c apply simp
      using c apply simp
      subgoal premises d for b d
        unfolding prod.case
        apply (rule returns_mono)
         apply (rule init_tail [of "fst d" mem num execs "snd d", unfolded prod.collapse tq_alloc_at_def])
        using c d by (simp_all add: tq_alloc_at_def)
      done
    done
qed

lemma ready_room:
  assumes "tq_ready mem num execs u" "tq_memory s mem num execs" "exec < execs"
    and "max 1 ((tq_count num execs - tq_count num execs div 4) div unat execs) + k < tq_share num execs"
  shows "tq_holds execs mem exec u k []"
proof -
  have e: "execs \<noteq> 0" "tq_count num execs < 2 ^ 28" using assms(2) by (auto simp: tq_memory_def)
  show ?thesis
    using assms(4) tq_bounds_nat(2) [of "of_nat (tq_count num execs)" execs] tq_count_words(3) [OF e] e
    by (intro ready_holds [OF assms(1,3)]) simp
qed

subsection \<open>Properties\<close>

text \<open>Memory in which every address is mapped, with room for four executors.\<close>

definition ex_tq :: thread_queue_state where
  "ex_tq = gc_alloc_state.extend ex_gc \<lparr>tq_nodes = (\<lambda>_. Some \<lparr>lfn_next = NULL, lfn_data = NULL\<rparr>),
     tq_queues = (\<lambda>_. Some \<lparr>lf_allocator = NULL, lf_head = NULL, lf_tail = NULL, lf_hptrs = []\<rparr>),
     tq_allocs = (\<lambda>_. Some \<lparr>qna_shared_list = NULL, qna_count = 0,
       qna_lists = replicate 4 \<lparr>nl_list = NULL, nl_count = 0\<rparr>\<rparr>),
     lf_thread_queue_hptrs = 0, lf_thread_queue_hptr_threshold = 0\<rparr>"

lemma ex_tq_simps [simp]:
  "tq_nodes ex_tq = (\<lambda>_. Some \<lparr>lfn_next = NULL, lfn_data = NULL\<rparr>)"
  "tq_queues ex_tq = (\<lambda>_. Some \<lparr>lf_allocator = NULL, lf_head = NULL, lf_tail = NULL, lf_hptrs = []\<rparr>)"
  "tq_allocs ex_tq = (\<lambda>_. Some \<lparr>qna_shared_list = NULL, qna_count = 0,
       qna_lists = replicate 4 \<lparr>nl_list = NULL, nl_count = 0\<rparr>\<rparr>)"
  "lf_thread_queue_hptrs ex_tq = 0" "lf_thread_queue_hptr_threshold ex_tq = 0"
  by (simp_all add: ex_tq_def gc_alloc_state.extend_def)

lemma ex_tq_node: "k < 2 ^ 20 \<Longrightarrow> tq_node_at 0x10000 (of_nat k) \<noteq> NULL"
proof
  assume k: "k < 2 ^ 20" and "tq_node_at 0x10000 (of_nat k) = NULL"
  then have "unat (of_nat (0x10000 + k * 8) :: u32) = 0" by (simp add: tq_node_at_def)
  then show False using k by (simp add: unat_of_nat del: of_nat_add of_nat_mult)
qed

lemma ex_tq_memory:
  "tq_memory ex_tq (0x10000 - 0x80) 27 1" "tq_memory ex_tq (0x10000 - 0xA0) 8 2"
  "tq_memory ex_tq (0x10000 - 0xA0) 7 2"
  unfolding tq_memory_def
  by (simp_all add: tq_node_def tq_alloc_at_def tq_align_def tq_count_def ex_tq_node)

text \<open>
  C6 [thread_queue_fifo]. A queue that \<open>lf_thread_queue_init\<close> has just laid out in memory is
  a queue: run by one executor on any sequence of operations that leaves its private list
  above the lower bound of the node allocator, it gives what a list gives, in order. No
  operation faults and every loop ends.
\<close>

theorem fresh_thread_queue_is_fifo:
  assumes "tq_memory s mem num execs" "exec < execs" "NULL \<notin> set (enqueued ops)"
    and "max 1 ((tq_count num execs - tq_count num execs div 4) div unat execs) + length (enqueued ops)
      < tq_share num execs"
  shows "\<exists>out u t. lf_thread_queue_init mem num execs (s, []) = Some (out, (u, [])) \<and>
    run_fifo (tq_enq execs mem exec) (tq_deq execs mem exec) ops u = Some (fst (run_list ops []), t)"
proof -
  from init_ready [OF assms(1), of "[]"] obtain out u where
    u: "lf_thread_queue_init mem num execs (s, []) = Some (out, (u, []))" "tq_ready mem num execs u"
    by (auto simp: returns_ex)
  have "tq_holds execs mem exec u (length (enqueued ops)) []"
    by (rule ready_room [OF u(2) assms(1,2,4)])
  then show ?thesis using u(1) tq.runs_as_list [of execs mem exec u ops "[]"] fits_run_all [of ops "\<lambda>x. x \<noteq> NULL"] assms(3) by metis
qed

lemma fresh_thread_queue_is_fifo_witness:
  "\<exists>out u t. lf_thread_queue_init (0x10000 - 0x80) 27 1 (ex_tq, []) = Some (out, (u, [])) \<and>
    run_fifo (tq_enq 1 (0x10000 - 0x80) 0) (tq_deq 1 (0x10000 - 0x80) 0)
      [Deq, Enq 7, Enq 9, Deq, Enq 5, Deq, Deq, Deq] u = Some ([None, Some 7, Some 9, Some 5, None], t)"
  using fresh_thread_queue_is_fifo [OF ex_tq_memory(1), of 0 "[Deq, Enq 7, Enq 9, Deq, Enq 5, Deq, Deq, Deq]"]
  by (simp add: tq_share_def tq_count_def Let_def)

text \<open>
  C10 [thread_retire]. When the private list of free nodes is above its lower bound, and would not
  go over its upper bound even if every retired node and \<open>x\<close> were freed, retiring the
  node \<open>x\<close> of a thread queue returns, frees no node that a hazard pointer names,
  loses none, and keeps the private and the retired lists apart and counted. (Outside of these
  bounds the freeing of nodes also balances the private list with the shared one, which can fault
  or lose nodes; nothing is said of that here.)
\<close>

theorem thread_node_retire_safe:
  assumes "tq_pool s fifo exec free rl" "x \<notin> set (free @ rl)" "x \<noteq> NULL" "tq_nodes s x \<noteq> None"
    and "tq_stays ec s fifo (length free) (length free + length rl + 1)"
  shows "returns (lf_thread_queue_node_retire ec fifo x exec (s, [])) (\<lambda>_ c'.
    \<exists>frees rl'. tq_pool (fst c') fifo exec (frees @ free) rl' \<and> set frees \<union> set rl' = insert x (set rl) \<and>
      length frees + length rl' = length rl + 1 \<and> set frees \<inter> set (tq_hazards s fifo) = {})"
proof -
  have "tnext s x \<noteq> None" using assms by (simp add: tnext_def)
  moreover have "tq_step fifo exec (insert x (set rl)) (\<lambda>_. True)" by (simp add: tq_step_def)
  ultimately show ?thesis
    using tq_retire_quiet [of s fifo exec free rl x ec "\<lambda>_. True"] assms
    by (blast intro: returns_mono)
qed

definition ex_tq3 :: thread_queue_state where
  "ex_tq3 = ex_tq\<lparr>tq_queues := (\<lambda>_. Some \<lparr>lf_allocator = 0x200, lf_head = 0x300, lf_tail = 0x300,
       lf_hptrs = [\<lparr>thp_rcount = 0, thp_rlist = NULL, thp_ptrs = (\<lambda>_. NULL)\<rparr>]\<rparr>),
     tq_nodes := (\<lambda>p. Some \<lparr>lfn_next = (if p = 0x400 then 0x408 else if p = 0x408 then 0x410
       else if p = 0x410 then 0x418 else NULL), lfn_data = NULL\<rparr>),
     tq_allocs := (\<lambda>_. Some \<lparr>qna_shared_list = NULL, qna_count = 4, qna_lists = [\<lparr>nl_list = 0x400, nl_count = 4\<rparr>]\<rparr>),
     lf_thread_queue_hptrs := 1, lf_thread_queue_hptr_threshold := 2\<rparr>"

lemma ex_tq3_pool: "tq_pool ex_tq3 0x100 0 [0x400, 0x408, 0x410, 0x418] []"
  by (simp add: tq_pool_def tq_private_def tq_retired_def tq_live_def nl_live_def tq_hptrs_ok_def tnext_def
      ex_tq3_def)

lemma thread_node_retire_safe_witness:
  "returns (lf_thread_queue_node_retire 1 0x100 0x500 0 (ex_tq3, [])) (\<lambda>_ _. True)"
proof -
  have st: "tq_stays 1 ex_tq3 0x100 (length [0x400, 0x408, 0x410, 0x418 :: ptr])
      (length [0x400, 0x408, 0x410, 0x418 :: ptr] + length ([] :: ptr list) + 1)"
    by (simp add: tq_stays_def tq_bounds_nat ex_tq3_def)
  have "tq_nodes ex_tq3 0x500 \<noteq> None" by (simp add: ex_tq3_def)
  then show ?thesis
    by (intro returns_mono [OF thread_node_retire_safe [OF ex_tq3_pool _ _ _ st]]) simp_all
qed

text \<open>
  C35 [alloc_fault]. When the private list of an executor has fallen below the lower bound and
  nobody has given nodes to the shared list, enqueueing writes through NULL: the shared list
  is pulled without a test. A queue of one executor never has a shared list, so it crashes
  when a quarter of its nodes are in use.
\<close>

theorem enqueue_below_lower_faults:
  assumes "tq_live fifo exec s" "ec \<noteq> 0" "nl_count (tq_nl s fifo exec) < tq_lower ec (tq_total s fifo)"
    and "unat (tq_total s fifo) < 2 ^ 31" "qna_shared_list (the (tq_allocs s (tq_al s fifo))) = NULL"
  shows "lf_thread_queue_enqueue ec fifo thread exec (s, []) = None"
proof -
  have "tq_lower ec n \<le> tq_upper ec n" if "unat n < 2 ^ 31" for n
  proof -
    have "(unat n - unat n div 4) div unat ec \<le> (unat n + unat n div 4) div unat ec" by (rule div_le_mono) simp
    then show ?thesis unfolding word_le_nat_alt tq_bounds_nat [OF that assms(2)] by (rule max.mono [OF order_refl])
  qed
  then have up: "\<not> tq_upper ec (tq_total s fifo) < nl_count (tq_nl s fifo exec)" using assms(3,4) by force
  have "load (tq_shared_loc (tq_al s fifo)) s = Some NULL"
    using assms(1,5) by (auto simp: tq_live_def nl_live_def)
  then have "lf_thread_queue_node_alloc_pull (tq_al s fifo) (s, []) = Some (NULL, (s, []))"
    by (simp add: lf_thread_queue_node_alloc_pull_def retry.simps rd_def Let_def del: field_loc_simps)
  then show ?thesis using assms up
    by (simp add: lf_thread_queue_enqueue_def lf_thread_queue_node_alloc_def
        lf_thread_queue_node_alloc_balance_def bounds_quiet)
qed

definition ex_tq2 :: thread_queue_state where
  "ex_tq2 = ex_tq\<lparr>tq_queues := (\<lambda>_. Some \<lparr>lf_allocator = 0x200, lf_head = 0x300, lf_tail = 0x300,
     lf_hptrs = [\<lparr>thp_rcount = 0, thp_rlist = NULL, thp_ptrs = (\<lambda>_. NULL)\<rparr>]\<rparr>)\<rparr>"

lemma ex_tq2_live: "tq_live 0x100 0 ex_tq2"
  by (simp add: tq_live_def nl_live_def ex_tq2_def)

lemma enqueue_below_lower_faults_witness:
  "\<forall>thread. lf_thread_queue_enqueue 1 0x100 thread 0 (ex_tq2, []) = None"
  by (intro allI enqueue_below_lower_faults [OF ex_tq2_live]) (simp_all add: ex_tq2_def tq_lower_def)

text \<open>
  When a private list has grown over the upper bound, giving a node back
  to the shared list loses the rest of the private list: the node is linked into the shared
  list first and its next pointer is then taken for the rest. Afterwards both lists have the
  same tail, and the count still counts the lost nodes.
\<close>

theorem balance_over_upper_loses:
  assumes "tq_private s fifo exec (f # free)" "ec \<noteq> 0"
    and "tq_upper ec (tq_total s fifo) < nl_count (tq_nl s fifo exec)"
    and "chain (tnext s) (qna_shared_list (the (tq_allocs s (tq_al s fifo)))) shared NULL"
    and "f \<notin> set shared"
  shows "returns (lf_thread_queue_node_alloc_balance ec (tq_al s fifo) exec (s, [])) (\<lambda>_ c'.
    chain (tnext (fst c')) (nl_list (tq_nl (fst c') fifo exec)) shared NULL \<and>
    chain (tnext (fst c')) (qna_shared_list (the (tq_allocs (fst c') (tq_al s fifo)))) (f # shared) NULL \<and>
    nl_count (tq_nl (fst c') fifo exec) = of_nat (length (f # free)))"
proof -
  have lv: "tq_live fifo exec s" using assms(1) by (simp add: tq_private_def)
  obtain y where f: "tnext s f = Some y" "f \<noteq> NULL" "nl_list (tq_nl s fifo exec) = f"
    "nl_count (tq_nl s fifo exec) = of_nat (length (f # free))"
    using assms(1) by (auto simp: tq_private_def split: option.splits)
  obtain a where a: "tq_allocs s (tq_al s fifo) = Some a" "tq_al s fifo \<noteq> NULL" "unat exec < length (qna_lists a)"
    using lv by (auto simp: tq_live_def nl_live_def)
  let ?h = "qna_shared_list a"
  let ?t = "tset f ?h s"
  let ?u = "store (tq_shared_loc (tq_al s fifo)) f ?t"
  have ld: "load (tq_shared_loc (tq_al s fifo)) s = Some ?h" "load (tq_shared_loc (tq_al s fifo)) ?t = Some ?h"
    using a by simp_all
  have push: "lf_thread_queue_node_alloc_push (tq_al s fifo) f (s, []) = Some ((), (?u, []))"
    using ld f by (simp add: lf_thread_queue_node_alloc_push_def retry_until.simps rd_def Let_def
        lf_thread_queue_node_alloc_try_push_def atomic_cas_defs cas_def del: field_loc_simps)
  have nu: "tnext ?u = (tnext s)(f \<mapsto> ?h)" using f by (simp add: tnext_def fun_eq_iff) (auto simp: tset_def)
  have nlu: "nl_live (tq_al s fifo) exec ?u" using a by (simp add: nl_live_def)
  have rdu: "rd (tn_next_loc f) (?u, []) = Some (?h, (?u, []))"
    using nu by (simp add: rd_def Let_def tnext_def fun_eq_iff del: field_loc_simps)
  have "lf_thread_queue_node_alloc_balance ec (tq_al s fifo) exec (s, []) =
      Some ((), (store (nl_list_loc (tq_al s fifo) exec) ?h ?u, []))"
    using lv f assms(2,3) push rdu nlu
    by (simp add: lf_thread_queue_node_alloc_balance_def bounds_quiet del: field_loc_simps)
  moreover have "nl_list (qna_lists (the (tq_allocs (store (nl_list_loc (tq_al s fifo) exec) ?h ?u) (tq_al s fifo))) ! unat exec) = ?h"
    "nl_count (qna_lists (the (tq_allocs (store (nl_list_loc (tq_al s fifo) exec) ?h ?u) (tq_al s fifo))) ! unat exec) =
      nl_count (tq_nl s fifo exec)"
    "qna_shared_list (the (tq_allocs (store (nl_list_loc (tq_al s fifo) exec) ?h ?u) (tq_al s fifo))) = f"
    using a by (simp_all add: elem_loc_simps)
  moreover have "tq_queues (store (nl_list_loc (tq_al s fifo) exec) ?h ?u) = tq_queues s" by simp
  ultimately show ?thesis
    using assms(4,5) a f nu by (simp del: field_loc_simps)
qed

lemma balance_over_upper_loses_witness:
  "returns (lf_thread_queue_node_alloc_balance 2 0x200 0 (ex_tq3, [])) (\<lambda>_ c'.
    nl_list (tq_nl (fst c') 0x100 0) = NULL)"
proof -
  have al: "tq_al ex_tq3 0x100 = 0x200" by (simp add: ex_tq3_def)
  have p: "tq_private ex_tq3 0x100 0 [0x400, 0x408, 0x410, 0x418]"
    using ex_tq3_pool by (simp add: tq_pool_def)
  have c: "chain (tnext ex_tq3) (qna_shared_list (the (tq_allocs ex_tq3 (tq_al ex_tq3 0x100)))) [] NULL"
    by (simp add: ex_tq3_def)
  have "tq_upper 2 (tq_total ex_tq3 0x100) < nl_count (tq_nl ex_tq3 0x100 0)"
    by (simp add: word_less_nat_alt tq_bounds_nat ex_tq3_def)
  from balance_over_upper_loses [OF p _ this c] show ?thesis
    unfolding al by (auto elim!: returns_mono)
qed

text \<open>
  When the nodes do not divide evenly among the executors, the shared
  list of free nodes of a fresh queue starts at the sentinel of the queue: the first node an
  executor pulls is the node the head and the tail of the queue point to.
\<close>

theorem fresh_shared_list_is_sentinel:
  assumes "tq_memory s mem num execs" "\<not> unat execs dvd unat num"
  shows "returns (lf_thread_queue_init mem num execs (s, [])) (\<lambda>_ c.
    returns (lf_thread_queue_node_alloc_pull (tq_al (fst c) mem) c) (\<lambda>node c'.
      node \<noteq> NULL \<and> load (tq_head_loc mem) (fst c') = Some node \<and> load (tq_tail_loc mem) (fst c') = Some node))"
proof (rule returns_mono [OF init_ready [OF assms(1), of "[]"]])
  fix a and c :: "'a thread_queue_state_scheme conc"
  let ?N = "tq_count num execs" and ?alloc = "tq_alloc_at mem execs"
  let ?sent = "tq_node mem execs (?N - 1)"
  assume "snd c = [] \<and> tq_ready mem num execs (fst c) \<and> thread_queue_state.more (fst c) = thread_queue_state.more s"
  then obtain u where u: "c = (u, [])" "tq_ready mem num execs u" by (cases c) auto
  have "tq_share num execs * unat execs \<noteq> ?N - 1"
  proof
    assume "tq_share num execs * unat execs = ?N - 1"
    then have "unat execs dvd ?N - 1" by (metis dvd_triv_right)
    moreover have "?N - 1 = unat num + unat execs * (2 * unat execs + 2)"
      by (simp add: tq_count_def algebra_simps)
    ultimately show False using assms(2) by (metis dvd_add_left_iff dvd_triv_left)
  qed
  then have q: "tq_queues u mem = Some \<lparr>lf_allocator = ?alloc, lf_head = ?sent, lf_tail = ?sent,
           lf_hptrs = replicate (unat execs) \<lparr>thp_rcount = 0, thp_rlist = NULL, thp_ptrs = (\<lambda>_. NULL)\<rparr>\<rparr>"
    and sh: "qna_shared_list (the (tq_allocs u ?alloc)) = ?sent" and nx: "tnext u ?sent = Some NULL"
    and m: "tq_memory u mem num execs"
    using u(2) by (simp_all add: tq_ready_def Let_def)
  have sent: "?sent \<noteq> NULL" using tq_node_zero [OF m, of "?N - 1"] tq_count_pos [of num execs] by simp
  obtain b where b: "tq_allocs u ?alloc = Some b" "?alloc \<noteq> NULL"
    using m by (auto simp: tq_memory_def split: option.splits)
  have "rd (tn_next_loc ?sent) (u, []) = Some (NULL, (u, []))"
    using nx by (simp add: rd_def Let_def tnext_def del: field_loc_simps)
  moreover have "load (tq_shared_loc ?alloc) u = Some ?sent" using b sh by simp
  ultimately have "lf_thread_queue_node_alloc_pull ?alloc (u, []) =
      Some (?sent, (store (tq_shared_loc ?alloc) NULL u, []))"
    using sent by (simp add: lf_thread_queue_node_alloc_pull_def retry.simps rd_def [of "tq_shared_loc _"] Let_def
        atomic_cas_defs cas_def del: field_loc_simps)
  then show "returns (lf_thread_queue_node_alloc_pull (tq_al (fst c) mem) c) (\<lambda>node c'.
      node \<noteq> NULL \<and> load (tq_head_loc mem) (fst c') = Some node \<and> load (tq_tail_loc mem) (fst c') = Some node)"
    using u(1) q sent m by (simp add: tq_memory_def)
qed

lemma fresh_shared_list_is_sentinel_witness:
  "returns (lf_thread_queue_init (0x10000 - 0xA0) 7 2 (ex_tq, [])) (\<lambda>_ c.
    returns (lf_thread_queue_node_alloc_pull (tq_al (fst c) (0x10000 - 0xA0)) c) (\<lambda>node c'.
      node \<noteq> NULL \<and> load (tq_head_loc (0x10000 - 0xA0)) (fst c') = Some node))"
  using fresh_shared_list_is_sentinel [OF ex_tq_memory(3)] by (auto elim!: returns_mono)

end
