(* ===== verification/Thread.thy ===== *)
theory Thread
  imports Queue_Init
begin

unbundle bit_operations_syntax

section \<open>Threads (\<open>src/cc/thread.c\<close>)\<close>

text \<open>
  A user-level thread: its status word, which packs the scheduling status with the flag
  \<open>T_REF\<close> of the scheduler's reference, its mailbox of seven words and the links of the
  scheduler's private queue. The structures are a map from addresses; the state extends
  that of the thread queues.

  The destructor of a thread is a function pointer into the guest program: what calling the
  function at an address does is the argument \<open>call\<close>.
\<close>

subsection \<open>Data\<close>

definition T_STAT_RUNNABLE :: u32 where "T_STAT_RUNNABLE = 0x0"
definition T_STAT_RUNNING :: u32 where "T_STAT_RUNNING = 0x1"
definition T_STAT_SUSPEND :: u32 where "T_STAT_SUSPEND = 0x2"
definition T_STAT_SUSPENDED :: u32 where "T_STAT_SUSPENDED = 0x3"
definition T_STAT_TERM :: u32 where "T_STAT_TERM = 0x4"
definition T_STAT_DEAD :: u32 where "T_STAT_DEAD = 0x5"
definition T_STAT_DESTROY :: u32 where "T_STAT_DESTROY = 0x6"
definition T_STAT_GC_WAIT :: u32 where "T_STAT_GC_WAIT = 0x7"
definition T_STAT_FINALIZER_LIVE :: u32 where "T_STAT_FINALIZER_LIVE = 0x8"
definition T_STAT_FINALIZER_WAIT :: u32 where "T_STAT_FINALIZER_WAIT = 0x9"
definition T_STAT_NONE :: u32 where "T_STAT_NONE = 0xf"
definition T_STAT_MASK :: u32 where "T_STAT_MASK = 0xf"
definition T_REF :: u32 where "T_REF = 0x10"

lemmas t_stat_defs =
  T_STAT_RUNNABLE_def T_STAT_RUNNING_def T_STAT_SUSPEND_def T_STAT_SUSPENDED_def T_STAT_TERM_def
  T_STAT_DEAD_def T_STAT_DESTROY_def T_STAT_GC_WAIT_def T_STAT_FINALIZER_LIVE_def
  T_STAT_FINALIZER_WAIT_def T_STAT_NONE_def T_STAT_MASK_def T_REF_def

record thread_stat_t =
  s_id :: u32
  t_sched_stat :: u32
  t_pri :: u32
  s_destroy :: ptr

text \<open>The mailbox is 28 bytes, read and written by the word.\<close>

type_synonym thread_mbox_t = "nat \<Rightarrow> u32"

record thread_t =
  t_sched_stat_ref :: u32
  t_mbox :: thread_mbox_t
  t_id :: u32
  t_destroy :: ptr
  t_rlist_next :: ptr
  t_queue_next :: ptr

record thread_state = thread_queue_state +
  threads :: "ptr \<Rightarrow> thread_t option"
  thread_num :: u32
  thread_id :: u32

abbreviation "t_stat_loc \<equiv> field_loc threads threads_update t_sched_stat_ref t_sched_stat_ref_update"
abbreviation "t_id_loc \<equiv> field_loc threads threads_update t_id t_id_update"
abbreviation "t_destroy_loc \<equiv> field_loc threads threads_update t_destroy t_destroy_update"
abbreviation "t_rlist_next_loc \<equiv> field_loc threads threads_update t_rlist_next t_rlist_next_update"
abbreviation "t_queue_next_loc \<equiv> field_loc threads threads_update t_queue_next t_queue_next_update"
abbreviation "t_mbox_loc \<equiv> field_loc threads threads_update t_mbox t_mbox_update"
abbreviation "thread_num_loc \<equiv> global_loc thread_num thread_num_update"
abbreviation "thread_id_loc \<equiv> global_loc thread_id thread_id_update"

subsection \<open>The mailbox\<close>

text \<open>Each slot follows the one before it: \<open>(T*)(ptr + 1)\<close> is four bytes on.\<close>

definition thread_mbox_retaddr :: "ptr \<Rightarrow> ptr" where
  "thread_mbox_retaddr mbox = mbox"

definition thread_mbox_stkptr :: "ptr \<Rightarrow> ptr" where
  "thread_mbox_stkptr mbox = thread_mbox_retaddr mbox + 4"

definition thread_mbox_executor :: "ptr \<Rightarrow> ptr" where
  "thread_mbox_executor mbox = thread_mbox_stkptr mbox + 4"

definition thread_mbox_sigptr :: "ptr \<Rightarrow> ptr" where
  "thread_mbox_sigptr mbox = thread_mbox_executor mbox + 4"

definition thread_mbox_write_log_index :: "ptr \<Rightarrow> ptr" where
  "thread_mbox_write_log_index mbox = thread_mbox_sigptr mbox + 4"

definition thread_mbox_write_log :: "ptr \<Rightarrow> ptr" where
  "thread_mbox_write_log mbox = thread_mbox_write_log_index mbox + 4"

definition thread_mbox_allocators :: "ptr \<Rightarrow> ptr" where
  "thread_mbox_allocators mbox = thread_mbox_write_log mbox + 4"

lemmas thread_mbox_defs = thread_mbox_retaddr_def thread_mbox_stkptr_def thread_mbox_executor_def
  thread_mbox_sigptr_def thread_mbox_write_log_index_def thread_mbox_write_log_def thread_mbox_allocators_def

text \<open>The word of a mailbox that an accessor points to, and \<open>*accessor(thread->t_mbox)\<close>.\<close>

definition mbox_slot :: "(ptr \<Rightarrow> ptr) \<Rightarrow> nat" where
  "mbox_slot acc = unat (acc 0) div 4"

abbreviation "mbox_loc acc \<equiv> field_loc threads threads_update (\<lambda>t. t_mbox t (mbox_slot acc))
  (\<lambda>f. t_mbox_update (\<lambda>m. m(mbox_slot acc := f (m (mbox_slot acc)))))"

subsection \<open>Operations\<close>

definition thread_init ::
  "ptr \<Rightarrow> thread_stat_t \<Rightarrow> thread_mbox_t \<Rightarrow> 'a thread_state_scheme conc \<Rightarrow>
   (unit \<times> 'a thread_state_scheme conc) option" where
  "thread_init thread stat mbox c = do {
     (i, c) \<leftarrow> atomic_fetch_inc_uint thread_id_loc c;
     (_, c) \<leftarrow> pwr (t_id_loc thread) i c;
     (_, c) \<leftarrow> atomic_increment_uint thread_num_loc c;
     (_, c) \<leftarrow> wr (t_stat_loc thread)
       (if T_STAT_RUNNABLE = t_sched_stat stat then T_STAT_NONE else t_sched_stat stat) c;
     (old, c) \<leftarrow> prd (t_mbox_loc thread) c;
     pwr (t_mbox_loc thread) (\<lambda>i. if i < 7 then mbox i else old i) c }"

definition thread_destroy ::
  "(ptr \<Rightarrow> ptr \<Rightarrow> 'a thread_state_scheme conc \<Rightarrow> (unit \<times> 'a thread_state_scheme conc) option) \<Rightarrow>
   ptr \<Rightarrow> 'a thread_state_scheme conc \<Rightarrow> (unit \<times> 'a thread_state_scheme conc) option" where
  "thread_destroy call thread c = do {
     (_, c) \<leftarrow> atomic_decrement_uint thread_num_loc c;
     (destroy, c) \<leftarrow> prd (t_destroy_loc thread) c;
     if destroy \<noteq> NULL then call destroy thread c else Some ((), c) }"

definition thread_count :: "'a thread_state_scheme conc \<Rightarrow> (u32 \<times> 'a thread_state_scheme conc) option" where
  "thread_count c = rd thread_num_loc c"

end
