(* ===== verification/Scheduler.thy ===== *)
theory Scheduler
  imports Thread
begin

unbundle bit_operations_syntax

section \<open>The scheduler (\<open>src/cc/noninteract_scheduler.c\<close>)\<close>

text \<open>
  Each executor has a scheduler: a private queue of threads, the current thread, an idle
  thread and a collector thread. Threads that are not in a private queue wait in the shared
  work queue \<open>sched_workshare\<close>, a thread queue. A thread's status word says what the
  scheduler should do with it; the flag \<open>T_REF\<close> in it says that some queue refers to it.

  What the scheduler needs from elsewhere is the record \<open>sched_env\<close>: the number of
  executors, the call of a destructor, the constants of the collector's state, the code for
  no executor. \<open>restart\<close>, \<open>raise\<close> and \<open>cycle\<close> are the functions of the executors
  (\<open>src/cc/thread_executor.c\<close>) that it calls back; \<open>cycle\<close> does not return, and its result
  says how control left. The type \<open>bool\<close> holds a truth value, so assigning \<open>-1\<close> to it
  makes it true.
\<close>

subsection \<open>Data\<close>

record scheduler_t =
  sch_num_threads :: u32
  sch_queue_head :: ptr
  sch_queue_tail :: ptr
  sch_curr_thread :: ptr
  sch_idle_thread :: ptr
  sch_gc_thread :: ptr

record sched_state = thread_state +
  schedulers :: "ptr \<Rightarrow> scheduler_t option"
  sched_workshare :: ptr
  sched_active_threads :: u32

record 's sched_env = gc_env +
  executor_count :: u32
  call_destroy :: "ptr \<Rightarrow> ptr \<Rightarrow> 's conc \<Rightarrow> (unit \<times> 's conc) option"
  thread_mbox_null_executor :: u32

abbreviation "sch_num_loc \<equiv> field_loc schedulers schedulers_update sch_num_threads sch_num_threads_update"
abbreviation "sch_head_loc \<equiv> field_loc schedulers schedulers_update sch_queue_head sch_queue_head_update"
abbreviation "sch_tail_loc \<equiv> field_loc schedulers schedulers_update sch_queue_tail sch_queue_tail_update"
abbreviation "sch_curr_loc \<equiv> field_loc schedulers schedulers_update sch_curr_thread sch_curr_thread_update"
abbreviation "sch_idle_loc \<equiv> field_loc schedulers schedulers_update sch_idle_thread sch_idle_thread_update"
abbreviation "sch_gc_loc \<equiv> field_loc schedulers schedulers_update sch_gc_thread sch_gc_thread_update"
abbreviation "sched_workshare_loc \<equiv> global_loc sched_workshare sched_workshare_update"
abbreviation "sched_active_loc \<equiv> global_loc sched_active_threads sched_active_threads_update"

text \<open>\<open>for(i = 0; !(res = try()); i++) backoff_delay(i);\<close>, and the values of \<open>bool\<close>.\<close>

definition retry_nonzero :: "('c \<Rightarrow> (int \<times> 'c) option) \<Rightarrow> 'c \<Rightarrow> (int \<times> 'c) option" where
  "retry_nonzero try = retry (\<lambda>c. do {
     (res, c) \<leftarrow> try c;
     Some (if res = 0 then None else Some res, c) })"

definition c_bool :: "int \<Rightarrow> bool" where
  "c_bool i \<longleftrightarrow> i \<noteq> 0"

definition c_int :: "bool \<Rightarrow> int" where
  "c_int b = (if b then 1 else 0)"

subsection \<open>Bounds\<close>

definition sched_upper_bound ::
  "'e sched_env \<Rightarrow> 'a sched_state_scheme conc \<Rightarrow> (u32 \<times> 'a sched_state_scheme conc) option" where
  "sched_upper_bound E c = do {
     let num_executors = executor_count E;
     (num_threads, c) \<leftarrow> rd sched_active_loc c;
     let frac = drop_bit 2 num_threads;
     let numerator = num_threads + frac;
     if num_executors = 0 then None else do {
     let bound = numerator div num_executors;
     Some (if bound \<noteq> 0 then bound else 1, c) } }"

definition sched_lower_bound ::
  "'e sched_env \<Rightarrow> 'a sched_state_scheme conc \<Rightarrow> (u32 \<times> 'a sched_state_scheme conc) option" where
  "sched_lower_bound E c = do {
     let num_executors = executor_count E;
     (num_threads, c) \<leftarrow> rd sched_active_loc c;
     let frac = drop_bit 2 num_threads;
     let numerator = (if frac < num_threads then num_threads - frac else 0);
     if num_executors = 0 then None else do {
     let bound = numerator div num_executors;
     Some (if bound \<noteq> 0 then bound else 1, c) } }"

subsection \<open>Starting and stopping\<close>

definition scheduler_request :: "u32 \<Rightarrow> u32" where
  "scheduler_request execs =
     (let queue_cap = execs * (if 16 < execs then execs else 16)
      in lf_thread_queue_request queue_cap execs)"

definition scheduler_start ::
  "u32 \<Rightarrow> ptr \<Rightarrow> 'a sched_state_scheme conc \<Rightarrow> (ptr \<times> 'a sched_state_scheme conc) option" where
  "scheduler_start execs mem c = do {
     let queue_cap = execs * (if 16 < execs then execs else 16);
     (p, c) \<leftarrow> lf_thread_queue_init mem queue_cap execs c;
     (_, c) \<leftarrow> pwr sched_workshare_loc mem c;
     (_, c) \<leftarrow> pwr sched_active_loc 1 c;
     Some (p, c) }"

text \<open>\<open>while(NULL != (curr = dequeue(...))) thread_destroy(curr);\<close>\<close>

partial_function (option) scheduler_drain ::
  "'a sched_state_scheme sched_env \<Rightarrow> u32 \<Rightarrow> 'a sched_state_scheme conc \<Rightarrow> (unit \<times> 'a sched_state_scheme conc) option" where
  "scheduler_drain E exec c = do {
     (ws, c) \<leftarrow> prd sched_workshare_loc c;
     (curr, c) \<leftarrow> lf_thread_queue_dequeue (executor_count E) ws exec c;
     if curr \<noteq> NULL then do {
       (_, c) \<leftarrow> thread_destroy (call_destroy E) curr c;
       scheduler_drain E exec c }
     else Some ((), c) }"

definition scheduler_stop ::
  "'a sched_state_scheme sched_env \<Rightarrow> u32 \<Rightarrow> 'a sched_state_scheme conc \<Rightarrow> (unit \<times> 'a sched_state_scheme conc) option" where
  "scheduler_stop E exec c = do {
     (_, c) \<leftarrow> scheduler_drain E exec c;
     (ws, c) \<leftarrow> prd sched_workshare_loc c;
     (_, c) \<leftarrow> lf_thread_queue_destroy ws exec c;
     pwr sched_workshare_loc NULL c }"

definition scheduler_setup :: "ptr \<Rightarrow> ptr \<Rightarrow> ptr" where
  "scheduler_setup scheduler mem = mem"

definition scheduler_init ::
  "ptr \<Rightarrow> ptr \<Rightarrow> ptr \<Rightarrow> 'a sched_state_scheme conc \<Rightarrow> (unit \<times> 'a sched_state_scheme conc) option" where
  "scheduler_init scheduler idle_thread gc_thread c = do {
     (_, c) \<leftarrow> pwr (sch_head_loc scheduler) NULL c;
     (_, c) \<leftarrow> pwr (sch_tail_loc scheduler) NULL c;
     (_, c) \<leftarrow> pwr (sch_num_loc scheduler) 0 c;
     (_, c) \<leftarrow> pwr (sch_curr_loc scheduler) NULL c;
     (_, c) \<leftarrow> pwr (sch_idle_loc scheduler) idle_thread c;
     pwr (sch_gc_loc scheduler) gc_thread c }"

text \<open>The loop at the end of \<open>scheduler_destroy\<close>, which follows the links from the tail.\<close>

partial_function (option) scheduler_destroy_loop ::
  "'a sched_state_scheme sched_env \<Rightarrow> ptr \<Rightarrow> 'a sched_state_scheme conc \<Rightarrow> (unit \<times> 'a sched_state_scheme conc) option" where
  "scheduler_destroy_loop E scheduler c = do {
     (tail, c) \<leftarrow> prd (sch_tail_loc scheduler) c;
     if tail \<noteq> NULL then do {
       (next, c) \<leftarrow> prd (t_queue_next_loc tail) c;
       (tail, c) \<leftarrow> prd (sch_tail_loc scheduler) c;
       (_, c) \<leftarrow> thread_destroy (call_destroy E) tail c;
       (_, c) \<leftarrow> pwr (sch_tail_loc scheduler) next c;
       scheduler_destroy_loop E scheduler c }
     else Some ((), c) }"

definition scheduler_destroy ::
  "'a sched_state_scheme sched_env \<Rightarrow> ptr \<Rightarrow> 'a sched_state_scheme conc \<Rightarrow> (unit \<times> 'a sched_state_scheme conc) option" where
  "scheduler_destroy E scheduler c = do {
     (idle, c) \<leftarrow> prd (sch_idle_loc scheduler) c;
     (_, c) \<leftarrow> thread_destroy (call_destroy E) idle c;
     (curr, c) \<leftarrow> prd (sch_curr_loc scheduler) c;
     (_, c) \<leftarrow> (if curr \<noteq> NULL then thread_destroy (call_destroy E) curr c else Some ((), c));
     scheduler_destroy_loop E scheduler c }"

subsection \<open>The private queue\<close>

definition sched_queue_empty ::
  "ptr \<Rightarrow> 'a sched_state_scheme conc \<Rightarrow> (bool \<times> 'a sched_state_scheme conc) option" where
  "sched_queue_empty scheduler c = do {
     (tail, c) \<leftarrow> prd (sch_tail_loc scheduler) c;
     Some (tail = NULL, c) }"

definition sched_queue_enqueue ::
  "ptr \<Rightarrow> ptr \<Rightarrow> 'a sched_state_scheme conc \<Rightarrow> (unit \<times> 'a sched_state_scheme conc) option" where
  "sched_queue_enqueue scheduler thread c = do {
     (_, c) \<leftarrow> pwr (t_queue_next_loc thread) NULL c;
     (n, c) \<leftarrow> prd (sch_num_loc scheduler) c;
     (_, c) \<leftarrow> pwr (sch_num_loc scheduler) (n + 1) c;
     (tail, c) \<leftarrow> prd (sch_tail_loc scheduler) c;
     if tail \<noteq> NULL then do {
       (_, c) \<leftarrow> pwr (t_queue_next_loc tail) thread c;
       pwr (sch_tail_loc scheduler) thread c }
     else do {
       (_, c) \<leftarrow> pwr (sch_tail_loc scheduler) thread c;
       pwr (sch_head_loc scheduler) thread c } }"

definition sched_queue_dequeue ::
  "ptr \<Rightarrow> 'a sched_state_scheme conc \<Rightarrow> (ptr \<times> 'a sched_state_scheme conc) option" where
  "sched_queue_dequeue scheduler c = do {
     (out, c) \<leftarrow> prd (sch_head_loc scheduler) c;
     (n, c) \<leftarrow> prd (sch_num_loc scheduler) c;
     (_, c) \<leftarrow> pwr (sch_num_loc scheduler) (n - 1) c;
     (head, c) \<leftarrow> prd (sch_head_loc scheduler) c;
     (tail, c) \<leftarrow> prd (sch_tail_loc scheduler) c;
     if head \<noteq> tail then do {
       (next, c) \<leftarrow> prd (t_queue_next_loc out) c;
       (_, c) \<leftarrow> pwr (sch_head_loc scheduler) next c;
       Some (out, c) }
     else do {
       (_, c) \<leftarrow> pwr (sch_tail_loc scheduler) NULL c;
       (_, c) \<leftarrow> pwr (sch_head_loc scheduler) NULL c;
       Some (out, c) } }"

subsection \<open>Balancing the private queue against the work queue\<close>

definition stat_of :: "u32 \<Rightarrow> u32" where
  "stat_of oldvalue = oldvalue AND T_STAT_MASK"

definition scheduler_try_take_thread ::
  "'a sched_state_scheme sched_env \<Rightarrow> ptr \<Rightarrow> ptr \<Rightarrow> u32 \<Rightarrow> 'a sched_state_scheme conc \<Rightarrow>
   (int \<times> 'a sched_state_scheme conc) option" where
  "scheduler_try_take_thread E scheduler thread exec c = do {
     (oldvalue, c) \<leftarrow> rd (t_stat_loc thread) c;
     let oldstat = stat_of oldvalue;
     (out, c) \<leftarrow>
       (if T_STAT_RUNNABLE = oldstat \<or> T_STAT_RUNNING = oldstat \<or>
           T_STAT_GC_WAIT = oldstat \<or> T_STAT_FINALIZER_LIVE = oldstat then do {
          (_, c) \<leftarrow> sched_queue_enqueue scheduler thread c;
          Some (c_bool 1, c) }
        else if T_STAT_DESTROY = oldstat then do {
          (_, c) \<leftarrow> thread_destroy (call_destroy E) thread c;
          Some (c_bool (- 1), c) }
        else do {
          (ok, c) \<leftarrow> atomic_compare_and_set_uint oldvalue oldstat (t_stat_loc thread) c;
          Some (if ok then c_bool (- 1) else c_bool 0, c) });
     Some (c_int out, c) }"

partial_function (option) scheduler_take_thread ::
  "'a sched_state_scheme sched_env \<Rightarrow> ptr \<Rightarrow> u32 \<Rightarrow> 'a sched_state_scheme conc \<Rightarrow>
   (unit \<times> 'a sched_state_scheme conc) option" where
  "scheduler_take_thread E scheduler exec c = do {
     (ws, c) \<leftarrow> prd sched_workshare_loc c;
     (thread, c) \<leftarrow> lf_thread_queue_dequeue (executor_count E) ws exec c;
     if thread \<noteq> NULL then do {
       (res, c) \<leftarrow> retry_nonzero (scheduler_try_take_thread E scheduler thread exec) c;
       if 0 < res then Some ((), c) else scheduler_take_thread E scheduler exec c }
     else Some ((), c) }"

definition scheduler_try_put_thread ::
  "'a sched_state_scheme sched_env \<Rightarrow> ptr \<Rightarrow> u32 \<Rightarrow> 'a sched_state_scheme conc \<Rightarrow>
   (int \<times> 'a sched_state_scheme conc) option" where
  "scheduler_try_put_thread E thread exec c = do {
     (oldvalue, c) \<leftarrow> rd (t_stat_loc thread) c;
     let oldstat = stat_of oldvalue;
     (out, c) \<leftarrow>
       (if T_STAT_RUNNABLE = oldstat \<or> T_STAT_RUNNING = oldstat \<or>
           T_STAT_GC_WAIT = oldstat \<or> T_STAT_FINALIZER_LIVE = oldstat then do {
          (ws, c) \<leftarrow> prd sched_workshare_loc c;
          (_, c) \<leftarrow> lf_thread_queue_enqueue (executor_count E) ws thread exec c;
          Some (c_bool 1, c) }
        else if T_STAT_DESTROY = oldstat then do {
          (_, c) \<leftarrow> thread_destroy (call_destroy E) thread c;
          Some (c_bool (- 1), c) }
        else do {
          (ok, c) \<leftarrow> atomic_compare_and_set_uint oldvalue oldstat (t_stat_loc thread) c;
          Some (if ok then c_bool (- 1) else c_bool 0, c) });
     Some (c_int out, c) }"

partial_function (option) scheduler_put_thread ::
  "'a sched_state_scheme sched_env \<Rightarrow> ptr \<Rightarrow> u32 \<Rightarrow> 'a sched_state_scheme conc \<Rightarrow>
   (unit \<times> 'a sched_state_scheme conc) option" where
  "scheduler_put_thread E scheduler exec c = do {
     (thread, c) \<leftarrow> sched_queue_dequeue scheduler c;
     if thread \<noteq> NULL then do {
       (res, c) \<leftarrow> retry_nonzero (scheduler_try_put_thread E thread exec) c;
       if 0 < res then Some ((), c) else scheduler_put_thread E scheduler exec c }
     else Some ((), c) }"

definition scheduler_balance_threads ::
  "'a sched_state_scheme sched_env \<Rightarrow> ptr \<Rightarrow> u32 \<Rightarrow> 'a sched_state_scheme conc \<Rightarrow>
   (unit \<times> 'a sched_state_scheme conc) option" where
  "scheduler_balance_threads E scheduler exec c = do {
     let num_executors = executor_count E;
     (num_threads, c) \<leftarrow> rd sched_active_loc c;
     (n, c) \<leftarrow> prd (sch_num_loc scheduler) c;
     if num_executors < num_threads then do {
       (lower, c) \<leftarrow> sched_lower_bound E c;
       if n < lower then scheduler_take_thread E scheduler exec c
       else do {
         (upper, c) \<leftarrow> sched_upper_bound E c;
         if upper < n then scheduler_put_thread E scheduler exec c else Some ((), c) } }
     else if n = 0 then scheduler_take_thread E scheduler exec c
     else Some ((), c) }"

subsection \<open>Choosing a thread\<close>

datatype action_t = EXECUTE | SKIP | DISCARD

text \<open>One round of the loop of \<open>sched_set_running_status\<close>; without a result it is repeated.\<close>

definition sched_try_acknowledge ::
  "'a sched_state_scheme sched_env \<Rightarrow> ptr \<Rightarrow> 'a sched_state_scheme conc \<Rightarrow>
   (action_t option \<times> 'a sched_state_scheme conc) option" where
  "sched_try_acknowledge E thread c = do {
     (oldvalue, c) \<leftarrow> rd (t_stat_loc thread) c;
     let oldstat = stat_of oldvalue;
     if oldstat = T_STAT_RUNNING \<or> oldstat = T_STAT_RUNNABLE \<or> oldstat = T_STAT_FINALIZER_LIVE then do {
       (ok, c) \<leftarrow> atomic_compare_and_set_uint oldvalue (T_STAT_RUNNING OR T_REF) (t_stat_loc thread) c;
       Some (if ok then Some EXECUTE else None, c) }
     else if oldstat = T_STAT_GC_WAIT then do {
       (gc, c) \<leftarrow> rd gc_state_loc c;
       if GC_STATE_INACTIVE E = gc AND GC_STATE_PHASE E then do {
         (ok, c) \<leftarrow> atomic_compare_and_set_uint oldvalue (T_STAT_RUNNING OR T_REF) (t_stat_loc thread) c;
         Some (if ok then Some EXECUTE else None, c) }
       else Some (Some SKIP, c) }
     else if oldstat = T_STAT_SUSPEND then do {
       (ok, c) \<leftarrow> atomic_compare_and_set_uint oldvalue T_STAT_SUSPENDED (t_stat_loc thread) c;
       Some (if ok then Some DISCARD else None, c) }
     else if oldstat = T_STAT_TERM then do {
       (ok, c) \<leftarrow> atomic_compare_and_set_uint oldvalue T_STAT_DEAD (t_stat_loc thread) c;
       Some (if ok then Some DISCARD else None, c) }
     else if oldstat = T_STAT_DESTROY then do {
       (_, c) \<leftarrow> thread_destroy (call_destroy E) thread c;
       Some (Some DISCARD, c) }
     else None }"

definition sched_set_running_status ::
  "'a sched_state_scheme sched_env \<Rightarrow> ptr \<Rightarrow> 'a sched_state_scheme conc \<Rightarrow>
   (action_t \<times> 'a sched_state_scheme conc) option" where
  "sched_set_running_status E thread c = retry (sched_try_acknowledge E thread) c"

partial_function (option) sched_try_workshare ::
  "'a sched_state_scheme sched_env \<Rightarrow> ptr \<Rightarrow> u32 \<Rightarrow> 'a sched_state_scheme conc \<Rightarrow>
   (unit \<times> 'a sched_state_scheme conc) option" where
  "sched_try_workshare E sched exec c = do {
     (curr, c) \<leftarrow> prd (sch_curr_loc sched) c;
     if curr = NULL then do {
       (ws, c) \<leftarrow> prd sched_workshare_loc c;
       (thread, c) \<leftarrow> lf_thread_queue_dequeue (executor_count E) ws exec c;
       if thread \<noteq> NULL then do {
         (act, c) \<leftarrow> sched_set_running_status E thread c;
         (_, c) \<leftarrow> (if act \<noteq> DISCARD then do {
             (_, c) \<leftarrow> pwr (sch_curr_loc sched) thread c;
             (n, c) \<leftarrow> prd (sch_num_loc sched) c;
             (_, c) \<leftarrow> pwr (sch_num_loc sched) (n + 1) c;
             scheduler_balance_threads E sched exec c }
           else Some ((), c));
         sched_try_workshare E sched exec c }
       else Some ((), c) }
     else Some ((), c) }"

text \<open>
  \<open>GC_STATE_INACTIVE == gc_state.value & GC_STATE_PHASE\<close>: the comparison binds tighter
  than the mask, so it is the truth value that is masked.
\<close>

definition scheduler_result ::
  "'e sched_env \<Rightarrow> ptr \<Rightarrow> 'a sched_state_scheme conc \<Rightarrow> (ptr \<times> 'a sched_state_scheme conc) option" where
  "scheduler_result E scheduler c = do {
     (out, c) \<leftarrow> prd (sch_curr_loc scheduler) c;
     if out = NULL then do {
       (gc, c) \<leftarrow> rd gc_state_loc c;
       if (if GC_STATE_INACTIVE E = gc then 1 else 0) AND GC_STATE_PHASE E \<noteq> 0
       then prd (sch_idle_loc scheduler) c
       else prd (sch_gc_loc scheduler) c }
     else Some (out, c) }"

text \<open>The loop over the private queue in \<open>scheduler_replace\<close>.\<close>

partial_function (option) scheduler_replace_loop ::
  "'a sched_state_scheme sched_env \<Rightarrow> ptr \<Rightarrow> u32 \<Rightarrow> 'a sched_state_scheme conc \<Rightarrow>
   (unit \<times> 'a sched_state_scheme conc) option" where
  "scheduler_replace_loop E scheduler exec c = do {
     (empty, c) \<leftarrow> sched_queue_empty scheduler c;
     (curr, c) \<leftarrow> prd (sch_curr_loc scheduler) c;
     if \<not> empty \<and> curr = NULL then do {
       (thread, c) \<leftarrow> sched_queue_dequeue scheduler c;
       (act, c) \<leftarrow> sched_set_running_status E thread c;
       (_, c) \<leftarrow> (if act = EXECUTE then do {
           (_, c) \<leftarrow> pwr (sch_curr_loc scheduler) thread c;
           scheduler_balance_threads E scheduler exec c }
         else Some ((), c));
       scheduler_replace_loop E scheduler exec c }
     else Some ((), c) }"

definition scheduler_replace ::
  "'a sched_state_scheme sched_env \<Rightarrow> ptr \<Rightarrow> u32 \<Rightarrow> 'a sched_state_scheme conc \<Rightarrow>
   (ptr \<times> 'a sched_state_scheme conc) option" where
  "scheduler_replace E scheduler exec c = do {
     (_, c) \<leftarrow> pwr (sch_curr_loc scheduler) NULL c;
     (n, c) \<leftarrow> prd (sch_num_loc scheduler) c;
     (_, c) \<leftarrow> pwr (sch_num_loc scheduler) (n - 1) c;
     (_, c) \<leftarrow> scheduler_replace_loop E scheduler exec c;
     (_, c) \<leftarrow> sched_try_workshare E scheduler exec c;
     scheduler_result E scheduler c }"

text \<open>
  \<open>scheduler_cycle\<close> uses two expressions its scope does not declare, \<open>thread\<close> and
  \<open>exec->ex_scheduler.sch_gc_thread\<close>; their values are the arguments \<open>thread\<close> and \<open>gc\<close>.
\<close>

definition scheduler_cycle ::
  "'a sched_state_scheme sched_env \<Rightarrow> ptr \<Rightarrow> ptr \<Rightarrow> ptr \<Rightarrow> u32 \<Rightarrow> 'a sched_state_scheme conc \<Rightarrow>
   (ptr \<times> 'a sched_state_scheme conc) option" where
  "scheduler_cycle E thread gc scheduler exec c = do {
     (curr, c) \<leftarrow> prd (sch_curr_loc scheduler) c;
     (_, c) \<leftarrow> (if curr \<noteq> NULL then do {
         (state, c) \<leftarrow> rd gc_state_loc c;
         if thread \<noteq> gc then do {
           (act, c) \<leftarrow> sched_set_running_status E curr c;
           if act = EXECUTE then scheduler_balance_threads E scheduler exec c
           else do { (_, c) \<leftarrow> scheduler_replace E scheduler exec c; Some ((), c) } }
         else do {
           (state, c) \<leftarrow> rd gc_state_loc c;
           if GC_STATE_INACTIVE E \<noteq> state then scheduler_balance_threads E scheduler exec c
           else do { (_, c) \<leftarrow> scheduler_replace E scheduler exec c; Some ((), c) } } }
       else Some ((), c));
     (_, c) \<leftarrow> sched_try_workshare E scheduler exec c;
     scheduler_result E scheduler c }"

subsection \<open>Waking and stopping threads\<close>

definition scheduler_try_activate_thread ::
  "'a sched_state_scheme sched_env \<Rightarrow> ('a sched_state_scheme conc \<Rightarrow> (unit \<times> 'a sched_state_scheme conc) option) \<Rightarrow>
   ptr \<Rightarrow> u32 \<Rightarrow> 'a sched_state_scheme conc \<Rightarrow> (int \<times> 'a sched_state_scheme conc) option" where
  "scheduler_try_activate_thread E restart thread exec c = do {
     (oldvalue, c) \<leftarrow> rd (t_stat_loc thread) c;
     let oldstat = stat_of oldvalue;
     let ref = oldvalue AND T_REF;
     if T_STAT_TERM \<noteq> oldstat \<and> T_STAT_DEAD \<noteq> oldstat \<and> T_STAT_DESTROY \<noteq> oldstat then do {
       (if ref = 0 then do {
          (ok, c) \<leftarrow> atomic_compare_and_set_uint oldvalue (T_STAT_RUNNABLE OR T_REF) (t_stat_loc thread) c;
          if ok then do {
            (_, c) \<leftarrow> (if T_STAT_RUNNABLE \<noteq> oldstat \<and> T_STAT_RUNNING \<noteq> oldstat \<and> T_STAT_GC_WAIT \<noteq> oldstat
              then atomic_increment_uint sched_active_loc c else Some ((), c));
            (ws, c) \<leftarrow> prd sched_workshare_loc c;
            (_, c) \<leftarrow> lf_thread_queue_enqueue (executor_count E) ws thread exec c;
            (_, c) \<leftarrow> restart c;
            Some (1, c) }
          else Some (0, c) }
        else do {
          (ok, c) \<leftarrow> atomic_compare_and_set_uint oldvalue (T_STAT_RUNNABLE OR T_REF) (t_stat_loc thread) c;
          if ok then do {
            (_, c) \<leftarrow> (if T_STAT_RUNNABLE \<noteq> oldstat \<and> T_STAT_RUNNING \<noteq> oldstat \<and> T_STAT_GC_WAIT \<noteq> oldstat
              then atomic_increment_uint sched_active_loc c else Some ((), c));
            Some (1, c) }
          else Some (0, c) }) }
     else Some (- 1, c) }"

definition scheduler_activate_thread ::
  "'a sched_state_scheme sched_env \<Rightarrow> ('a sched_state_scheme conc \<Rightarrow> (unit \<times> 'a sched_state_scheme conc) option) \<Rightarrow>
   ptr \<Rightarrow> u32 \<Rightarrow> 'a sched_state_scheme conc \<Rightarrow> (bool \<times> 'a sched_state_scheme conc) option" where
  "scheduler_activate_thread E restart thread exec c = do {
     (res, c) \<leftarrow> retry_nonzero (scheduler_try_activate_thread E restart thread exec) c;
     Some (0 < res, c) }"

text \<open>
  \<open>raise executor c\<close> sends \<open>EX_SIGNAL_SCHEDULE\<close> to an executor; \<open>cycle exec c\<close> runs the
  scheduler of this one and does not return: its result is the left one of the sum.
\<close>

definition scheduler_try_deactivate_thread ::
  "'a sched_state_scheme sched_env \<Rightarrow> (u32 \<Rightarrow> 'a sched_state_scheme conc \<Rightarrow> (unit \<times> 'a sched_state_scheme conc) option) \<Rightarrow>
   (u32 \<Rightarrow> 'a sched_state_scheme conc \<Rightarrow> ('x \<times> 'a sched_state_scheme conc) option) \<Rightarrow>
   ptr \<Rightarrow> u32 \<Rightarrow> u32 \<Rightarrow> 'a sched_state_scheme conc \<Rightarrow> (('x + int) \<times> 'a sched_state_scheme conc) option" where
  "scheduler_try_deactivate_thread E raise cycle thread stat exec c = do {
     (executor, c) \<leftarrow> rd (mbox_loc thread_mbox_executor thread) c;
     (oldvalue, c) \<leftarrow> rd (t_stat_loc thread) c;
     let oldstat = stat_of oldvalue;
     let ref = oldvalue AND T_REF;
     if (T_STAT_DEAD \<noteq> oldstat \<and> T_STAT_TERM \<noteq> oldstat) \<or> T_STAT_DESTROY = stat then do {
       (ok, c) \<leftarrow> atomic_compare_and_set_uint oldvalue (stat OR ref) (t_stat_loc thread) c;
       if ok then do {
         (_, c) \<leftarrow> (if T_STAT_DESTROY = stat \<and> 0 = ref then thread_destroy (call_destroy E) thread c
           else Some ((), c));
         (_, c) \<leftarrow> (if T_STAT_RUNNABLE = oldstat \<or> T_STAT_RUNNING = oldstat
           then atomic_decrement_uint sched_active_loc c else Some ((), c));
         if executor \<noteq> thread_mbox_null_executor E then
           (if executor \<noteq> exec then do {
              (_, c) \<leftarrow> raise executor c;
              Some (Inr 1, c) }
            else do {
              (x, c) \<leftarrow> cycle exec c;
              Some (Inl x, c) })
         else Some (Inr 1, c) }
       else Some (Inr 0, c) }
     else Some (Inr (- 1), c) }"

definition scheduler_deactivate_thread ::
  "'a sched_state_scheme sched_env \<Rightarrow> (u32 \<Rightarrow> 'a sched_state_scheme conc \<Rightarrow> (unit \<times> 'a sched_state_scheme conc) option) \<Rightarrow>
   (u32 \<Rightarrow> 'a sched_state_scheme conc \<Rightarrow> ('x \<times> 'a sched_state_scheme conc) option) \<Rightarrow>
   ptr \<Rightarrow> u32 \<Rightarrow> u32 \<Rightarrow> 'a sched_state_scheme conc \<Rightarrow> (('x + bool) \<times> 'a sched_state_scheme conc) option" where
  "scheduler_deactivate_thread E raise cycle thread stat exec c = retry (\<lambda>c. do {
     (res, c) \<leftarrow> scheduler_try_deactivate_thread E raise cycle thread stat exec c;
     Some (case res of Inl x \<Rightarrow> Some (Inl x) | Inr r \<Rightarrow> if r = 0 then None else Some (Inr (0 < r)), c) }) c"

definition scheduler_try_update_thread ::
  "ptr \<Rightarrow> u32 \<Rightarrow> 'a sched_state_scheme conc \<Rightarrow> (int \<times> 'a sched_state_scheme conc) option" where
  "scheduler_try_update_thread thread stat c = do {
     (oldvalue, c) \<leftarrow> rd (t_stat_loc thread) c;
     let oldstat = stat_of oldvalue;
     let ref = oldvalue AND T_REF;
     if (T_STAT_DEAD \<noteq> oldstat \<and> T_STAT_TERM \<noteq> oldstat \<and> T_STAT_DESTROY \<noteq> oldstat) \<or>
        T_STAT_DESTROY = stat then do {
       let newvalue = ref OR stat;
       (ok, c) \<leftarrow> atomic_compare_and_set_uint oldvalue newvalue (t_stat_loc thread) c;
       Some (c_int ok, c) }
     else Some (- 1, c) }"

definition scheduler_update_thread ::
  "ptr \<Rightarrow> u32 \<Rightarrow> 'a sched_state_scheme conc \<Rightarrow> (bool \<times> 'a sched_state_scheme conc) option" where
  "scheduler_update_thread thread stat c = do {
     (res, c) \<leftarrow> retry_nonzero (scheduler_try_update_thread thread stat) c;
     Some (0 < res, c) }"

definition sched_active_thread_count ::
  "'a sched_state_scheme conc \<Rightarrow> (u32 \<times> 'a sched_state_scheme conc) option" where
  "sched_active_thread_count c = rd sched_active_loc c"

end
