(* ===== verification/OS_Thread.thy ===== *)
theory OS_Thread
  imports Scheduler
begin

unbundle bit_operations_syntax

section \<open>Threads and signals of the operating system (\<open>src/cc/os/posix\<close>)\<close>

text \<open>
  The layer over POSIX threads and signals, and the architecture's part of a context switch
  (\<open>src/arch/context.c\<close>). The state of one operating system thread is added to that of the
  scheduler: its signal mask, its value of the key and the actions other threads can see,
  in order. A set of signals is a set; \<open>SIGKILL\<close> cannot be blocked.

  A function that never returns to its caller has a result of type \<open>leave\<close>: control goes on
  at an address with a stack pointer, or the thread ends. A call of \<open>exit\<close> is \<open>None\<close>.
\<close>

subsection \<open>State\<close>

datatype signal = SIGABRT | SIGINT | SIGILL | SIGHUP | SIGEMT | SIGQUIT | SIGFPE | SIGKILL | SIGBUS
  | SIGSEGV | SIGSYS | SIGPIPE | SIGUSR1 | SIG_other nat

type_synonym os_sigset_t = "signal set"

datatype os_action =
    Thread_create u32 ptr ptr
  | Signal_send u32 signal
  | Thread_join u32
  | Handler ptr signal
  | Suspend os_sigset_t

datatype leave = Context_load ptr ptr | Thread_exit ptr

record os_state = sched_state +
  os_sigmask :: os_sigset_t
  os_key :: ptr
  os_actions :: "os_action list"

abbreviation "os_sigmask_loc \<equiv> global_loc os_sigmask os_sigmask_update"
abbreviation "os_key_loc \<equiv> global_loc os_key os_key_update"
abbreviation "os_actions_loc \<equiv> global_loc os_actions os_actions_update"

definition os_act :: "os_action \<Rightarrow> 'a os_state_scheme conc \<Rightarrow> (unit \<times> 'a os_state_scheme conc) option" where
  "os_act a c = do {
     (as, c) \<leftarrow> prd os_actions_loc c;
     pwr os_actions_loc (as @ [a]) c }"

subsection \<open>Signals (\<open>os_signal.c\<close>)\<close>

definition os_signal_check_mbox :: signal where "os_signal_check_mbox = SIGUSR1"

definition os_sigset_fill :: "os_sigset_t \<Rightarrow> os_sigset_t" where "os_sigset_fill sigs = UNIV"
definition os_sigset_empty :: "os_sigset_t \<Rightarrow> os_sigset_t" where "os_sigset_empty sigs = {}"
definition os_sigset_set :: "os_sigset_t \<Rightarrow> signal \<Rightarrow> os_sigset_t" where "os_sigset_set sigs sig = insert sig sigs"
definition os_sigset_clear :: "os_sigset_t \<Rightarrow> signal \<Rightarrow> os_sigset_t" where "os_sigset_clear sigs sig = sigs - {sig}"

definition os_thread_sigset_set_mandatory :: "os_sigset_t \<Rightarrow> os_sigset_t" where
  "os_thread_sigset_set_mandatory sigs = sigs \<union>
     {SIGABRT, SIGINT, SIGILL, SIGHUP, SIGEMT, SIGQUIT, SIGFPE, SIGKILL, SIGBUS, SIGSEGV, SIGSYS, SIGPIPE}"

definition os_thread_sigset_clear_mandatory :: "os_sigset_t \<Rightarrow> os_sigset_t" where
  "os_thread_sigset_clear_mandatory sigs = sigs -
     {SIGABRT, SIGINT, SIGILL, SIGHUP, SIGEMT, SIGQUIT, SIGFPE, SIGKILL, SIGBUS, SIGSEGV, SIGSYS, SIGPIPE}"

definition os_thread_signal_send ::
  "u32 \<Rightarrow> signal \<Rightarrow> 'a os_state_scheme conc \<Rightarrow> (unit \<times> 'a os_state_scheme conc) option" where
  "os_thread_signal_send thread sig c = os_act (Signal_send thread sig) c"

text \<open>Changes of the mask of the calling thread, which give the old mask.\<close>

definition os_change_mask ::
  "(os_sigset_t \<Rightarrow> os_sigset_t) \<Rightarrow> 'a os_state_scheme conc \<Rightarrow> (os_sigset_t \<times> 'a os_state_scheme conc) option" where
  "os_change_mask f c = do {
     (old, c) \<leftarrow> prd os_sigmask_loc c;
     (_, c) \<leftarrow> pwr os_sigmask_loc (f old - {SIGKILL}) c;
     Some (old, c) }"

definition os_thread_sigmask_block ::
  "os_sigset_t \<Rightarrow> 'a os_state_scheme conc \<Rightarrow> (os_sigset_t \<times> 'a os_state_scheme conc) option" where
  "os_thread_sigmask_block sigs c = os_change_mask (\<lambda>old. old \<union> sigs) c"

definition os_thread_sigmask_unblock ::
  "os_sigset_t \<Rightarrow> 'a os_state_scheme conc \<Rightarrow> (os_sigset_t \<times> 'a os_state_scheme conc) option" where
  "os_thread_sigmask_unblock sigs c = os_change_mask (\<lambda>old. old - sigs) c"

definition os_thread_sigmask_set ::
  "os_sigset_t \<Rightarrow> 'a os_state_scheme conc \<Rightarrow> (os_sigset_t \<times> 'a os_state_scheme conc) option" where
  "os_thread_sigmask_set sigs c = os_change_mask (\<lambda>_. sigs) c"

text \<open>\<open>sigprocmask\<close> changes the mask of the calling thread too.\<close>

definition os_proc_sigmask_block ::
  "os_sigset_t \<Rightarrow> 'a os_state_scheme conc \<Rightarrow> (os_sigset_t \<times> 'a os_state_scheme conc) option" where
  "os_proc_sigmask_block sigs c = os_change_mask (\<lambda>old. old \<union> sigs) c"

definition os_proc_sigmask_unblock ::
  "os_sigset_t \<Rightarrow> 'a os_state_scheme conc \<Rightarrow> (os_sigset_t \<times> 'a os_state_scheme conc) option" where
  "os_proc_sigmask_unblock sigs c = os_change_mask (\<lambda>old. old - sigs) c"

definition os_proc_sigmask_set ::
  "os_sigset_t \<Rightarrow> 'a os_state_scheme conc \<Rightarrow> (os_sigset_t \<times> 'a os_state_scheme conc) option" where
  "os_proc_sigmask_set sigs c = os_change_mask (\<lambda>_. sigs) c"

definition os_sig_handler ::
  "ptr \<Rightarrow> signal \<Rightarrow> 'a os_state_scheme conc \<Rightarrow> (unit \<times> 'a os_state_scheme conc) option" where
  "os_sig_handler handler sig c = os_act (Handler handler sig) c"

text \<open>The thread sleeps until a signal outside the mask has been handled.\<close>

definition os_sigsuspend ::
  "os_sigset_t \<Rightarrow> 'a os_state_scheme conc \<Rightarrow> (unit \<times> 'a os_state_scheme conc) option" where
  "os_sigsuspend sigs c = os_act (Suspend sigs) c"

subsection \<open>Threads (\<open>os_thread.c\<close>)\<close>

text \<open>
  What the operating system answers: the number of processors or failure, the default size
  of a stack, the identifier of the calling thread, and that of a new thread from its
  argument, or failure.
\<close>

record os_env =
  env_ncpu :: "u32 option"
  env_stack_size :: u32
  env_self :: u32
  env_create :: "ptr \<Rightarrow> u32 option"

record cc_stat_t =
  cc_num_executors :: u32
  cc_actual_executors :: u32
  cc_executor_stack_size :: u32
  cc_max_threads :: u32
  cc_num_threads :: u32
  cc_active_threads :: u32

definition os_thread_request :: "'e os_env_scheme \<Rightarrow> cc_stat_t \<Rightarrow> (u32 \<times> cc_stat_t) option" where
  "os_thread_request P stat = do {
     ncpu \<leftarrow> env_ncpu P;
     let stat = (if ncpu < cc_num_executors stat \<or> 0 = cc_num_executors stat
       then stat\<lparr>cc_num_executors := ncpu\<rparr> else stat);
     let stat = (if 0 = cc_executor_stack_size stat
       then stat\<lparr>cc_executor_stack_size := env_stack_size P\<rparr> else stat);
     Some (0, stat\<lparr>cc_max_threads := 0, cc_num_threads := 0\<rparr>) }"

definition os_thread_create ::
  "'e os_env_scheme \<Rightarrow> ptr \<Rightarrow> ptr \<Rightarrow> 'a os_state_scheme conc \<Rightarrow> (u32 \<times> 'a os_state_scheme conc) option" where
  "os_thread_create P start arg c = do {
     out \<leftarrow> env_create P arg;
     (_, c) \<leftarrow> os_act (Thread_create out start arg) c;
     Some (out, c) }"

definition os_thread_self :: "'e os_env_scheme \<Rightarrow> u32" where
  "os_thread_self P = env_self P"

definition os_thread_exit :: "ptr \<Rightarrow> 'c \<Rightarrow> (leave \<times> 'c) option" where
  "os_thread_exit value c = Some (Thread_exit value, c)"

definition os_thread_join ::
  "u32 \<Rightarrow> 'a os_state_scheme conc \<Rightarrow> (unit \<times> 'a os_state_scheme conc) option" where
  "os_thread_join thread c = os_act (Thread_join thread) c"

text \<open>A new key, and a deleted one, has the value NULL.\<close>

definition os_thread_key_create ::
  "'a os_state_scheme conc \<Rightarrow> (unit \<times> 'a os_state_scheme conc) option" where
  "os_thread_key_create c = pwr os_key_loc NULL c"

definition os_thread_key_get ::
  "'a os_state_scheme conc \<Rightarrow> (ptr \<times> 'a os_state_scheme conc) option" where
  "os_thread_key_get c = prd os_key_loc c"

definition os_thread_key_set ::
  "ptr \<Rightarrow> 'a os_state_scheme conc \<Rightarrow> (unit \<times> 'a os_state_scheme conc) option" where
  "os_thread_key_set data c = pwr os_key_loc data c"

definition os_thread_key_destroy ::
  "'a os_state_scheme conc \<Rightarrow> (unit \<times> 'a os_state_scheme conc) option" where
  "os_thread_key_destroy c = pwr os_key_loc NULL c"

subsection \<open>Barriers\<close>

text \<open>
  A barrier is a counter under a mutex and a condition variable; entering and releasing it
  are atomic. A thread that waits is woken by the others: what they do meanwhile is one
  interference. A wakeup without a release is possible, as the specification of
  \<open>pthread_cond_wait\<close> allows.
\<close>

record barrier_t =
  b_max :: u32
  b_count :: u32

definition os_thread_barrier_init ::
  "('s, barrier_t) loc \<Rightarrow> u32 \<Rightarrow> 's conc \<Rightarrow> (unit \<times> 's conc) option" where
  "os_thread_barrier_init barrier limit c = pwr barrier \<lparr>b_max = limit, b_count = 0\<rparr> c"

definition os_thread_barrier_enter :: "('s, barrier_t) loc \<Rightarrow> 's conc \<Rightarrow> (bool \<times> 's conc) option" where
  "os_thread_barrier_enter barrier c = do {
     (b, c) \<leftarrow> rd barrier c;
     let b = b\<lparr>b_count := b_count b + 1\<rparr>;
     (_, c) \<leftarrow> pwr barrier b c;
     if b_max b = b_count b then Some (True, c) else Some (False, interfere c) }"

definition os_thread_barrier_release :: "('s, barrier_t) loc \<Rightarrow> 's conc \<Rightarrow> (unit \<times> 's conc) option" where
  "os_thread_barrier_release barrier c = do {
     (b, c) \<leftarrow> prd barrier c;
     pwr barrier (b\<lparr>b_count := 0\<rparr>) c }"

subsection \<open>Contexts (\<open>src/arch/context.c\<close>)\<close>

definition STACK_ALIGN :: u32 where "STACK_ALIGN = 16"
definition STACK_DIRECTION :: int where "STACK_DIRECTION = - 1"

text \<open>Stacks grow down on this machine; the new stack pointer is four below the frame.\<close>

definition context_align_stkptr :: "ptr \<Rightarrow> u32 \<Rightarrow> ptr" where
  "context_align_stkptr ptr align =
     (if 1 = STACK_DIRECTION then ((ptr - 1) AND NOT (align - 1)) + align else ptr AND NOT (align - 1))"

definition context_load :: "ptr \<Rightarrow> ptr \<Rightarrow> 'c \<Rightarrow> (leave \<times> 'c) option" where
  "context_load retaddr frame c = Some (Context_load retaddr (frame + - 4), c)"

lemmas os_defs = os_act_def os_thread_signal_send_def os_change_mask_def os_thread_sigmask_set_def
  os_proc_sigmask_block_def os_proc_sigmask_set_def os_sig_handler_def os_sigsuspend_def
  os_thread_create_def os_thread_self_def os_thread_exit_def os_thread_join_def os_thread_key_create_def
  os_thread_key_get_def os_thread_key_set_def os_thread_key_destroy_def context_load_def

end
