(* ===== verification/Executor.thy ===== *)
theory Executor
  imports OS_Thread
begin

unbundle bit_operations_syntax

section \<open>Executors (\<open>src/cc/thread_executor.c\<close>)\<close>

text \<open>
  An executor is an operating system thread that runs user threads one after the other: it
  saves nothing itself, but loads the context of the thread its scheduler chooses, after it
  has put its own return context, the address of its signal mailbox and its write log and
  allocators into the mailbox of that thread.

  The scheduler, the idle thread, the collector thread and the closure, log and allocators
  of the collector lie inside the structure; the first three are reached in the heaps of
  their types, the last two as words. Where they lie depends on types this repository does
  not declare, so the layout is an argument, as are the addresses of functions, what the
  guest program's main function does, \<open>gc_closure_init\<close>, which is declared and
  never defined, and the function of the collector thread.
\<close>

subsection \<open>Data\<close>

record executor_t =
  ex_id :: u32
  ex_c_stack :: ptr
  ex_gc_write_log_index :: u32
  ex_thread :: u32
  ex_signal_mbox :: u32

record exec_state = os_state +
  executor_heap :: "ptr \<Rightarrow> executor_t option"
  executor_num :: u32
  executors :: ptr
  executor_signal_thread :: u32
  executor_normal_sigmask :: os_sigset_t
  executor_idle_sigmask :: os_sigset_t
  executor_sigthread_sigmask :: os_sigset_t
  executor_live :: u32

text \<open>Sizes and offsets in bytes, and addresses of functions.\<close>

record exec_layout = os_env +
  sizeof_executor_t :: u32
  sizeof_thread_t :: u32
  ex_idle_off :: u32
  ex_gc_off :: u32
  ex_scheduler_off :: u32
  ex_closure_off :: u32
  ex_mbox_off :: u32
  ex_log_off :: u32
  ex_allocators_off :: u32
  t_mbox_off :: u32
  EX_SIGNAL_SCHEDULE :: u32
  EX_SIGNAL_GC :: u32
  idle_thread_addr :: ptr
  gc_thread_addr :: ptr
  signal_thread_addr :: ptr
  worker_start_addr :: ptr
  acknowledge_addr :: ptr
  free_addr :: ptr

record 's exec_env = exec_layout +
  sched_part :: "'s sched_env"
  gc_closure_init :: "ptr \<Rightarrow> ptr \<Rightarrow> 's conc \<Rightarrow> (unit \<times> 's conc) option"
  gc_thread_run :: "ptr \<Rightarrow> u32 \<Rightarrow> 's conc \<Rightarrow> (unit \<times> 's conc) option"
  guest_main :: "ptr \<Rightarrow> u32 \<Rightarrow> u32 \<Rightarrow> ptr \<Rightarrow> ptr \<Rightarrow> 's conc \<Rightarrow> ((leave + unit) \<times> 's conc) option"
  uint_min :: "u32 \<Rightarrow> u32 \<Rightarrow> u32"
  cycle_thread :: ptr
  cycle_gc :: ptr

abbreviation "ex_id_loc \<equiv> field_loc executor_heap executor_heap_update ex_id ex_id_update"
abbreviation "ex_c_stack_loc \<equiv> field_loc executor_heap executor_heap_update ex_c_stack ex_c_stack_update"
abbreviation "ex_write_log_index_loc \<equiv>
  field_loc executor_heap executor_heap_update ex_gc_write_log_index ex_gc_write_log_index_update"
abbreviation "ex_thread_loc \<equiv> field_loc executor_heap executor_heap_update ex_thread ex_thread_update"
abbreviation "ex_mbox_loc \<equiv> field_loc executor_heap executor_heap_update ex_signal_mbox ex_signal_mbox_update"
abbreviation "executor_num_loc \<equiv> global_loc executor_num executor_num_update"
abbreviation "executors_loc \<equiv> global_loc executors executors_update"
abbreviation "executor_signal_thread_loc \<equiv> global_loc executor_signal_thread executor_signal_thread_update"
abbreviation "executor_normal_loc \<equiv> global_loc executor_normal_sigmask executor_normal_sigmask_update"
abbreviation "executor_idle_loc \<equiv> global_loc executor_idle_sigmask executor_idle_sigmask_update"
abbreviation "executor_sigthread_loc \<equiv> global_loc executor_sigthread_sigmask executor_sigthread_sigmask_update"
abbreviation "executor_live_loc \<equiv> global_loc executor_live executor_live_update"

text \<open>The parts of an executor and of the array of executors.\<close>

definition executor_at :: "'e exec_layout_scheme \<Rightarrow> u32 \<Rightarrow> 'a exec_state_scheme \<Rightarrow> ptr" where
  "executor_at E i s = executors s + i * sizeof_executor_t E"

definition ex_idle_thread :: "'e exec_layout_scheme \<Rightarrow> ptr \<Rightarrow> ptr" where
  "ex_idle_thread E exec = exec + ex_idle_off E"

definition ex_gc_thread :: "'e exec_layout_scheme \<Rightarrow> ptr \<Rightarrow> ptr" where
  "ex_gc_thread E exec = exec + ex_gc_off E"

definition ex_scheduler :: "'e exec_layout_scheme \<Rightarrow> ptr \<Rightarrow> ptr" where
  "ex_scheduler E exec = exec + ex_scheduler_off E"

definition sizeof_gc_allocator_t :: u32 where "sizeof_gc_allocator_t = 8"
definition sizeof_gc_log_entry_t :: u32 where "sizeof_gc_log_entry_t = 8"
definition GC_WRITE_LOG_LENGTH :: u32 where "GC_WRITE_LOG_LENGTH = 64"

subsection \<open>Counting and sizes\<close>

definition executor_count :: "'a exec_state_scheme conc \<Rightarrow> (u32 \<times> 'a exec_state_scheme conc) option" where
  "executor_count c = prd executor_num_loc c"

text \<open>What the scheduler sees: \<open>executor_count()\<close> is the variable.\<close>

definition sched_with :: "'a exec_state_scheme exec_env \<Rightarrow> 'a exec_state_scheme conc \<Rightarrow> 'a exec_state_scheme sched_env" where
  "sched_with E c = (sched_part E)\<lparr>Scheduler.executor_count := executor_num (fst c)\<rparr>"

definition executor_request ::
  "'e exec_layout_scheme \<Rightarrow> cc_stat_t \<Rightarrow> 'a gc_alloc_state_scheme conc \<Rightarrow>
   ((u32 \<times> cc_stat_t) \<times> 'a gc_alloc_state_scheme conc) option" where
  "executor_request E stat c = do {
     (os_thread_size, stat) \<leftarrow> os_thread_request E stat;
     let execs = cc_num_executors stat;
     let scheduler_size = scheduler_request execs;
     let executor_size = execs * (sizeof_executor_t E + gc_num_generations (fst c) * sizeof_gc_allocator_t);
     let aligned_executor_size = ((executor_size - 1) AND NOT (CACHE_LINE_SIZE - 1)) + CACHE_LINE_SIZE;
     Some ((aligned_executor_size + scheduler_size + os_thread_size, stat), c) }"

subsection \<open>Switching threads\<close>

definition executor_retire_old_thread ::
  "'e exec_layout_scheme \<Rightarrow> u32 \<Rightarrow> ptr \<Rightarrow> 'a exec_state_scheme conc \<Rightarrow> (unit \<times> 'a exec_state_scheme conc) option" where
  "executor_retire_old_thread E null_executor exec c = do {
     (thread, c) \<leftarrow> prd (sch_curr_loc (ex_scheduler E exec)) c;
     if thread \<noteq> NULL then do {
       (index, c) \<leftarrow> rd (mbox_loc thread_mbox_write_log_index thread) c;
       (_, c) \<leftarrow> pwr (ex_write_log_index_loc exec) index c;
       wr (mbox_loc thread_mbox_executor thread) null_executor c }
     else Some ((), c) }"

definition executor_get_new_thread ::
  "'a exec_state_scheme exec_env \<Rightarrow> ptr \<Rightarrow> 'a exec_state_scheme conc \<Rightarrow> (leave \<times> 'a exec_state_scheme conc) option" where
  "executor_get_new_thread E exec c = do {
     (i, c) \<leftarrow> prd (ex_id_loc exec) c;
     (thread, c) \<leftarrow> scheduler_cycle (sched_with E c) (cycle_thread E) (cycle_gc E) (ex_scheduler E exec) i c;
     (stkptr, c) \<leftarrow> rd (mbox_loc thread_mbox_stkptr thread) c;
     (retaddr, c) \<leftarrow> rd (mbox_loc thread_mbox_retaddr thread) c;
     (i, c) \<leftarrow> prd (ex_id_loc exec) c;
     (_, c) \<leftarrow> wr (mbox_loc thread_mbox_executor thread) i c;
     (stack, c) \<leftarrow> prd (ex_c_stack_loc exec) c;
     (_, c) \<leftarrow> wr (mbox_loc thread_mbox_stkptr thread) stack c;
     (_, c) \<leftarrow> wr (mbox_loc thread_mbox_sigptr thread) (exec + ex_mbox_off E) c;
     (index, c) \<leftarrow> prd (ex_write_log_index_loc exec) c;
     (_, c) \<leftarrow> wr (mbox_loc thread_mbox_write_log_index thread) index c;
     (_, c) \<leftarrow> wr (mbox_loc thread_mbox_write_log thread) (exec + ex_log_off E) c;
     (_, c) \<leftarrow> wr (mbox_loc thread_mbox_allocators thread) (exec + ex_allocators_off E) c;
     context_load retaddr stkptr c }"

definition do_executor_sched_cycle ::
  "'a exec_state_scheme exec_env \<Rightarrow> ptr \<Rightarrow> 'a exec_state_scheme conc \<Rightarrow> (leave \<times> 'a exec_state_scheme conc) option" where
  "do_executor_sched_cycle E exec c = do {
     (live, c) \<leftarrow> rd executor_live_loc c;
     if live \<noteq> 0 then do {
       (_, c) \<leftarrow> executor_retire_old_thread E (thread_mbox_null_executor (sched_part E)) exec c;
       executor_get_new_thread E exec c }
     else os_thread_exit NULL c }"

definition do_executor_run_gc ::
  "'a exec_state_scheme exec_env \<Rightarrow> ptr \<Rightarrow> 'a exec_state_scheme conc \<Rightarrow> (leave \<times> 'a exec_state_scheme conc) option" where
  "do_executor_run_gc E exec c = do {
     (live, c) \<leftarrow> rd executor_live_loc c;
     if live \<noteq> 0 then do {
       (_, c) \<leftarrow> executor_retire_old_thread E (thread_mbox_null_executor (sched_part E)) exec c;
       executor_get_new_thread E exec c }
     else os_thread_exit NULL c }"

definition executor_sched_cycle ::
  "'a exec_state_scheme exec_env \<Rightarrow> u32 \<Rightarrow> 'a exec_state_scheme conc \<Rightarrow> (leave \<times> 'a exec_state_scheme conc) option" where
  "executor_sched_cycle E exec c = do_executor_sched_cycle E (executor_at E exec (fst c)) c"

subsection \<open>Signals between executors\<close>

definition executor_check_mbox_sigs ::
  "'a exec_state_scheme exec_env \<Rightarrow> ptr \<Rightarrow> u32 \<Rightarrow> 'a exec_state_scheme conc \<Rightarrow>
   ((leave + unit) \<times> 'a exec_state_scheme conc) option" where
  "executor_check_mbox_sigs E exec sigs c = do {
     (mbox, c) \<leftarrow> retry (\<lambda>c. do {
       (mbox, c) \<leftarrow> rd (ex_mbox_loc exec) c;
       (ok, c) \<leftarrow> atomic_compare_and_set_uint mbox 0 (ex_mbox_loc exec) c;
       Some (if ok then Some mbox else None, c) }) c;
     let mbox = mbox OR sigs;
     if mbox AND EX_SIGNAL_SCHEDULE E \<noteq> 0 then do {
       (x, c) \<leftarrow> do_executor_sched_cycle E exec c;
       Some (Inl x, c) }
     else if mbox AND EX_SIGNAL_GC E \<noteq> 0 then do {
       (x, c) \<leftarrow> do_executor_run_gc E exec c;
       Some (Inl x, c) }
     else Some (Inr (), c) }"

definition executor_safepoint ::
  "'a exec_state_scheme exec_env \<Rightarrow> u32 \<Rightarrow> u32 \<Rightarrow> 'a exec_state_scheme conc \<Rightarrow>
   ((leave + unit) \<times> 'a exec_state_scheme conc) option" where
  "executor_safepoint E exec sigs c = executor_check_mbox_sigs E (executor_at E exec (fst c)) sigs c"

definition executor_try_signal ::
  "ptr \<Rightarrow> u32 \<Rightarrow> 'a exec_state_scheme conc \<Rightarrow> (bool \<times> 'a exec_state_scheme conc) option" where
  "executor_try_signal exec sigs c = do {
     (oldsigs, c) \<leftarrow> rd (ex_mbox_loc exec) c;
     atomic_compare_and_set_uint oldsigs (oldsigs OR sigs) (ex_mbox_loc exec) c }"

definition executor_raise ::
  "'e exec_layout_scheme \<Rightarrow> u32 \<Rightarrow> u32 \<Rightarrow> 'a exec_state_scheme conc \<Rightarrow> (unit \<times> 'a exec_state_scheme conc) option" where
  "executor_raise E exec sigs c = do {
     let ex = executor_at E exec (fst c);
     (_, c) \<leftarrow> retry_until (executor_try_signal ex sigs) c;
     (curr, c) \<leftarrow> rd (sch_curr_loc (ex_scheduler E ex)) c;
     (idle, c) \<leftarrow> rd (sch_idle_loc (ex_scheduler E ex)) c;
     if curr = idle then do {
       (thread, c) \<leftarrow> prd (ex_thread_loc (executor_at E exec (fst c))) c;
       os_thread_signal_send thread os_signal_check_mbox c }
     else Some ((), c) }"

definition executor_self :: "'a exec_state_scheme conc \<Rightarrow> (u32 \<times> 'a exec_state_scheme conc) option" where
  "executor_self c = do {
     (exec, c) \<leftarrow> os_thread_key_get c;
     prd (ex_id_loc exec) c }"

definition executor_try_wakeup ::
  "'e exec_layout_scheme \<Rightarrow> ptr \<Rightarrow> 'a exec_state_scheme conc \<Rightarrow> (int \<times> 'a exec_state_scheme conc) option" where
  "executor_try_wakeup E exec c = do {
     (oldsigs, c) \<leftarrow> rd (ex_mbox_loc exec) c;
     (curr, c) \<leftarrow> rd (sch_curr_loc (ex_scheduler E exec)) c;
     if curr = NULL \<and> oldsigs AND EX_SIGNAL_SCHEDULE E = 0 then do {
       (out, c) \<leftarrow> atomic_compare_and_set_uint oldsigs (oldsigs OR EX_SIGNAL_SCHEDULE E) (ex_mbox_loc exec) c;
       (_, c) \<leftarrow> (if out then do {
           (thread, c) \<leftarrow> prd (ex_thread_loc exec) c;
           os_thread_signal_send thread os_signal_check_mbox c }
         else Some ((), c));
       Some (c_int out, c) }
     else Some (- 1, c) }"

text \<open>The loop over the executors, which ends at the first one it has woken.\<close>

fun executor_restart_loop ::
  "'e exec_layout_scheme \<Rightarrow> nat list \<Rightarrow> 'a exec_state_scheme conc \<Rightarrow> (unit \<times> 'a exec_state_scheme conc) option" where
  "executor_restart_loop E [] c = Some ((), c)"
| "executor_restart_loop E (i # is) c = do {
     (res, c) \<leftarrow> retry_nonzero (executor_try_wakeup E (executor_at E (of_nat i) (fst c))) c;
     if res = 1 then Some ((), c) else executor_restart_loop E is c }"

definition executor_restart_idle ::
  "'e exec_layout_scheme \<Rightarrow> 'a exec_state_scheme conc \<Rightarrow> (unit \<times> 'a exec_state_scheme conc) option" where
  "executor_restart_idle E c = executor_restart_loop E [0..<unat (executor_num (fst c))] c"

subsection \<open>The threads of an executor\<close>

partial_function (option) executor_idle_loop ::
  "'a exec_state_scheme exec_env \<Rightarrow> ptr \<Rightarrow> 'a exec_state_scheme conc \<Rightarrow> (leave \<times> 'a exec_state_scheme conc) option" where
  "executor_idle_loop E exec c = do {
     (live, c) \<leftarrow> rd executor_live_loc c;
     if live \<noteq> 0 then do {
       (r, c) \<leftarrow> executor_check_mbox_sigs E exec 0 c;
       case r of
         Inl x \<Rightarrow> Some (x, c)
       | Inr _ \<Rightarrow> do {
           (_, c) \<leftarrow> os_sigsuspend (executor_idle_sigmask (fst c)) c;
           executor_idle_loop E exec c } }
     else os_thread_exit NULL c }"

definition executor_idle_thread ::
  "'a exec_state_scheme exec_env \<Rightarrow> 'a exec_state_scheme conc \<Rightarrow> (leave \<times> 'a exec_state_scheme conc) option" where
  "executor_idle_thread E c = do {
     (exec, c) \<leftarrow> os_thread_key_get c;
     executor_idle_loop E exec c }"

definition executor_gc_thread ::
  "'a exec_state_scheme exec_env \<Rightarrow> 'a exec_state_scheme conc \<Rightarrow> (leave \<times> 'a exec_state_scheme conc) option" where
  "executor_gc_thread E c = do {
     (exec, c) \<leftarrow> os_thread_key_get c;
     (i, c) \<leftarrow> prd (ex_id_loc exec) c;
     (_, c) \<leftarrow> gc_thread_run E (exec + ex_closure_off E) i c;
     os_thread_exit NULL c }"

partial_function (option) executor_signal_thread_start ::
  "'a exec_state_scheme conc \<Rightarrow> (ptr \<times> 'a exec_state_scheme conc) option" where
  "executor_signal_thread_start c = do {
     (live, c) \<leftarrow> rd executor_live_loc c;
     if live \<noteq> 0 then do {
       (_, c) \<leftarrow> os_sigsuspend (executor_sigthread_sigmask (fst c)) c;
       executor_signal_thread_start c }
     else Some (NULL, c) }"

text \<open>One of the two threads that \<open>executor_setup_threads\<close> fills in, the same way.\<close>

definition executor_setup_thread ::
  "'a exec_state_scheme exec_env \<Rightarrow> ptr \<Rightarrow> ptr \<Rightarrow> ptr \<Rightarrow> ptr \<Rightarrow> 'a exec_state_scheme conc \<Rightarrow>
   (unit \<times> 'a exec_state_scheme conc) option" where
  "executor_setup_thread E exec retaddr stkptr thread c = do {
     (_, c) \<leftarrow> pwr (t_id_loc thread) 0 c;
     (_, c) \<leftarrow> wr (t_stat_loc thread) (T_STAT_RUNNING OR T_REF) c;
     (_, c) \<leftarrow> pwr (t_destroy_loc thread) NULL c;
     (_, c) \<leftarrow> pwr (t_rlist_next_loc thread) NULL c;
     (_, c) \<leftarrow> pwr (t_queue_next_loc thread) NULL c;
     (_, c) \<leftarrow> wr (mbox_loc thread_mbox_retaddr thread) retaddr c;
     (_, c) \<leftarrow> wr (mbox_loc thread_mbox_stkptr thread) stkptr c;
     (_, c) \<leftarrow> wr (mbox_loc thread_mbox_executor thread) (thread_mbox_null_executor (sched_part E)) c;
     (_, c) \<leftarrow> wr (mbox_loc thread_mbox_sigptr thread) (exec + ex_mbox_off E) c;
     (_, c) \<leftarrow> wr (mbox_loc thread_mbox_write_log_index thread) 0 c;
     (_, c) \<leftarrow> wr (mbox_loc thread_mbox_write_log thread) (exec + ex_log_off E) c;
     wr (mbox_loc thread_mbox_allocators thread) (exec + ex_allocators_off E) c }"

definition executor_setup_threads ::
  "'a exec_state_scheme exec_env \<Rightarrow> ptr \<Rightarrow> ptr \<Rightarrow> 'a exec_state_scheme conc \<Rightarrow> (unit \<times> 'a exec_state_scheme conc) option" where
  "executor_setup_threads E exec stkptr c = do {
     let aligned_stkptr = context_align_stkptr stkptr STACK_ALIGN;
     (_, c) \<leftarrow> executor_setup_thread E exec (idle_thread_addr E) aligned_stkptr (ex_idle_thread E exec) c;
     executor_setup_thread E exec (gc_thread_addr E) aligned_stkptr (ex_gc_thread E exec) c }"

definition executor_init_state ::
  "'a exec_state_scheme exec_env \<Rightarrow> ptr \<Rightarrow> ptr \<Rightarrow> 'a exec_state_scheme conc \<Rightarrow> (unit \<times> 'a exec_state_scheme conc) option" where
  "executor_init_state E exec stkptr c = do {
     (_, c) \<leftarrow> pwr (ex_c_stack_loc exec) stkptr c;
     (_, c) \<leftarrow> foreach (\<lambda>i. pwr (word_loc (exec + ex_log_off E + 4 * of_nat i)) 0)
       [0..<unat (GC_WRITE_LOG_LENGTH * sizeof_gc_log_entry_t) div 4] c;
     (_, c) \<leftarrow> gc_closure_init E (exec + ex_closure_off E) (exec + ex_log_off E) c;
     (_, c) \<leftarrow> executor_setup_threads E exec stkptr c;
     (_, c) \<leftarrow> scheduler_init (ex_scheduler E exec) (ex_idle_thread E exec) (ex_gc_thread E exec) c;
     (_, c) \<leftarrow> os_thread_sigmask_set (executor_normal_sigmask (fst c)) c;
     os_thread_key_set exec c }"

text \<open>\<open>stkptr\<close> is what \<open>context_curr_stkptr\<close> reads from the stack pointer.\<close>

definition executor_worker_thread ::
  "'a exec_state_scheme exec_env \<Rightarrow> ptr \<Rightarrow> ptr \<Rightarrow> 'a exec_state_scheme conc \<Rightarrow> (leave \<times> 'a exec_state_scheme conc) option" where
  "executor_worker_thread E stkptr exec c = do {
     (_, c) \<leftarrow> executor_init_state E exec stkptr c;
     do_executor_sched_cycle E exec c }"

subsection \<open>Starting the system\<close>

definition executor_setup_masks ::
  "'e exec_layout_scheme \<Rightarrow> 'a exec_state_scheme conc \<Rightarrow> (os_sigset_t \<times> 'a exec_state_scheme conc) option" where
  "executor_setup_masks E c = do {
     (m, c) \<leftarrow> prd executor_idle_loc c;
     (_, c) \<leftarrow> pwr executor_idle_loc
       (os_sigset_clear (os_thread_sigset_clear_mandatory (os_sigset_fill m)) os_signal_check_mbox) c;
     (m, c) \<leftarrow> prd executor_normal_loc c;
     (_, c) \<leftarrow> pwr executor_normal_loc (os_thread_sigset_clear_mandatory (os_sigset_fill m)) c;
     (m, c) \<leftarrow> prd executor_sigthread_loc c;
     (_, c) \<leftarrow> pwr executor_sigthread_loc (os_sigset_empty m) c;
     (old, c) \<leftarrow> os_proc_sigmask_block (os_sigset_fill {}) c;
     (_, c) \<leftarrow> os_sig_handler (acknowledge_addr E) os_signal_check_mbox c;
     (m, c) \<leftarrow> prd executor_normal_loc c;
     (_, c) \<leftarrow> os_thread_sigmask_set m c;
     Some (old, c) }"

definition executor_setup ::
  "'e exec_layout_scheme \<Rightarrow> u32 \<Rightarrow> ptr \<Rightarrow> 'a exec_state_scheme conc \<Rightarrow> (ptr \<times> 'a exec_state_scheme conc) option" where
  "executor_setup E num mem c = do {
     let executor_size = num * sizeof_executor_t E;
     let aligned_executor_size = (if 0 \<noteq> executor_size
       then ((executor_size - 1) AND NOT (CACHE_LINE_SIZE - 1)) + CACHE_LINE_SIZE else 0);
     (old, c) \<leftarrow> executor_setup_masks E c;
     (_, c) \<leftarrow> os_thread_key_create c;
     (sigthread, c) \<leftarrow> os_thread_create E (signal_thread_addr E) NULL c;
     (_, c) \<leftarrow> pwr executor_signal_thread_loc sigthread c;
     (_, c) \<leftarrow> wr executor_live_loc 1 c;
     (_, c) \<leftarrow> pwr executor_num_loc num c;
     (_, c) \<leftarrow> pwr executors_loc mem c;
     let ptr = mem + aligned_executor_size;
     let zero = executor_at E 0 (fst c);
     (_, c) \<leftarrow> pwr (ex_id_loc zero) 0 c;
     let ptr = scheduler_setup (ex_scheduler E zero) ptr;
     (_, c) \<leftarrow> wr (ex_mbox_loc zero) 0 c;
     (_, c) \<leftarrow> pwr (ex_thread_loc zero) (os_thread_self E) c;
     (_, c) \<leftarrow> foreach (\<lambda>i c. do {
       let exec = executor_at E (of_nat i) (fst c);
       (_, c) \<leftarrow> pwr (ex_id_loc exec) (of_nat i) c;
       (_, c) \<leftarrow> wr (ex_mbox_loc exec) 0 c;
       (thread, c) \<leftarrow> os_thread_create E (worker_start_addr E) exec c;
       pwr (ex_thread_loc exec) thread c }) [1..<unat num] c;
     let ptr = fold (\<lambda>i. scheduler_setup (ex_scheduler E (executor_at E (of_nat i) (fst c)))) [1..<unat num] ptr;
     (_, c) \<leftarrow> os_proc_sigmask_set old c;
     Some (ptr, c) }"

subsection \<open>Running the program and stopping\<close>

definition executor_shutdown ::
  "'a exec_state_scheme exec_env \<Rightarrow> u32 \<Rightarrow> 'a exec_state_scheme conc \<Rightarrow> (leave \<times> 'a exec_state_scheme conc) option" where
  "executor_shutdown E exec c = do {
     let sigthread = executor_signal_thread (fst c);
     (_, c) \<leftarrow> os_thread_signal_send sigthread os_signal_check_mbox c;
     (_, c) \<leftarrow> os_thread_join sigthread c;
     (_, c) \<leftarrow> foreach (\<lambda>i c.
       if of_nat i \<noteq> exec then do {
         let ex = executor_at E (of_nat i) (fst c);
         (thread, c) \<leftarrow> prd (ex_thread_loc ex) c;
         (_, c) \<leftarrow> os_thread_signal_send thread os_signal_check_mbox c;
         (_, c) \<leftarrow> os_thread_join thread c;
         scheduler_destroy (sched_with E c) (ex_scheduler E ex) c }
       else Some ((), c)) [0..<unat (executor_num (fst c))] c;
     (_, c) \<leftarrow> scheduler_destroy (sched_with E c) (ex_scheduler E (executor_at E exec (fst c))) c;
     (_, c) \<leftarrow> scheduler_stop (sched_with E c) exec c;
     (_, c) \<leftarrow> os_thread_key_destroy c;
     os_thread_exit NULL c }"

definition executor_stop ::
  "'a exec_state_scheme exec_env \<Rightarrow> u32 \<Rightarrow> 'a exec_state_scheme conc \<Rightarrow> (leave \<times> 'a exec_state_scheme conc) option" where
  "executor_stop E exec c = do {
     (_, c) \<leftarrow> wr executor_live_loc 0 c;
     executor_shutdown E exec c }"

text \<open>
  The mailbox of the first thread: seven words, in the order of the accessors. Two fields
  of its status, which are not read, are not set in the source.
\<close>

definition start_mbox :: "'e exec_layout_scheme \<Rightarrow> ptr \<Rightarrow> ptr \<Rightarrow> thread_mbox_t" where
  "start_mbox E stkptr exec = (\<lambda>_. 0)
     (mbox_slot thread_mbox_retaddr := 0, mbox_slot thread_mbox_stkptr := stkptr,
      mbox_slot thread_mbox_executor := 0, mbox_slot thread_mbox_sigptr := NULL,
      mbox_slot thread_mbox_write_log_index := 0, mbox_slot thread_mbox_write_log := exec + ex_log_off E,
      mbox_slot thread_mbox_allocators := exec + ex_allocators_off E)"

definition executor_start_prog ::
  "'a exec_state_scheme exec_env \<Rightarrow> ptr \<Rightarrow> u32 \<Rightarrow> ptr \<Rightarrow> ptr \<Rightarrow> 'a exec_state_scheme conc \<Rightarrow>
   (leave \<times> 'a exec_state_scheme conc) option" where
  "executor_start_prog E stkptr argc argv envp c = do {
     let aligned_stkptr = context_align_stkptr stkptr STACK_ALIGN;
     let zero = executor_at E 0 (fst c);
     (_, c) \<leftarrow> executor_init_state E zero stkptr c;
     (start_thread, c) \<leftarrow> malloc_lf (sched_part E) (uint_min E) (sizeof_thread_t E) 0 c;
     let mbox = start_mbox E aligned_stkptr (executor_at E 0 (fst c));
     let stat = \<lparr>s_id = 0, t_sched_stat = T_STAT_RUNNABLE, t_pri = 0, s_destroy = free_addr E\<rparr>;
     (_, c) \<leftarrow> thread_init start_thread stat mbox c;
     (_, c) \<leftarrow> wr (t_stat_loc start_thread) (T_STAT_RUNNING OR T_REF) c;
     (_, c) \<leftarrow> pwr (sch_curr_loc (ex_scheduler E (executor_at E 0 (fst c)))) start_thread c;
     (_, c) \<leftarrow> pwr (sch_num_loc (ex_scheduler E (executor_at E 0 (fst c)))) 1 c;
     (r, c) \<leftarrow> guest_main E start_thread 0 argc argv envp c;
     case r of Inl x \<Rightarrow> Some (x, c) | Inr _ \<Rightarrow> executor_stop E 0 c }"

definition executor_start ::
  "'a exec_state_scheme exec_env \<Rightarrow> ptr \<Rightarrow> u32 \<Rightarrow> u32 \<Rightarrow> ptr \<Rightarrow> ptr \<Rightarrow> ptr \<Rightarrow> 'a exec_state_scheme conc \<Rightarrow>
   (leave \<times> 'a exec_state_scheme conc) option" where
  "executor_start E stkptr num argc argv envp mem c = do {
     (ptr, c) \<leftarrow> scheduler_start num mem c;
     (_, c) \<leftarrow> executor_setup E num ptr c;
     executor_start_prog E stkptr argc argv envp c }"

end
