(* ===== verification/CC.thy ===== *)
theory CC
  imports Executor
begin

unbundle bit_operations_syntax

section \<open>The concurrency interface (\<open>src/cc/cc.c\<close>)\<close>

text \<open>
  What the guest program and the launcher call. A result that the C code stores through a
  pointer is returned; a call of \<open>panic\<close> is \<open>None\<close>. Functions from which control may
  leave for another thread return a sum.
\<close>

definition cc_request ::
  "'e exec_layout_scheme \<Rightarrow> cc_stat_t \<Rightarrow> 'a gc_alloc_state_scheme conc \<Rightarrow>
   ((u32 \<times> cc_stat_t) \<times> 'a gc_alloc_state_scheme conc) option" where
  "cc_request E stat c = executor_request E stat c"

definition cc_start ::
  "'a exec_state_scheme exec_env \<Rightarrow> ptr \<Rightarrow> cc_stat_t \<Rightarrow> u32 \<Rightarrow> ptr \<Rightarrow> ptr \<Rightarrow> ptr \<Rightarrow> 'a exec_state_scheme conc \<Rightarrow>
   (leave \<times> 'a exec_state_scheme conc) option" where
  "cc_start E stkptr stat argc argv envp mem c = do {
     let stat = stat\<lparr>cc_num_executors := (if 1 < cc_num_executors stat then cc_num_executors stat else 2)\<rparr>;
     executor_start E stkptr (cc_num_executors stat) argc argv envp mem c }"

definition cc_stop ::
  "'a exec_state_scheme exec_env \<Rightarrow> u32 \<Rightarrow> 'a exec_state_scheme conc \<Rightarrow> (leave \<times> 'a exec_state_scheme conc) option" where
  "cc_stop E exec c = executor_stop E exec c"

definition cc_stat :: "'a exec_state_scheme conc \<Rightarrow> (cc_stat_t \<times> 'a exec_state_scheme conc) option" where
  "cc_stat c = do {
     (n, c) \<leftarrow> executor_count c;
     (threads, c) \<leftarrow> thread_count c;
     (active, c) \<leftarrow> sched_active_thread_count c;
     Some (\<lparr>cc_num_executors = n, cc_actual_executors = n, cc_executor_stack_size = 0, cc_max_threads = 0,
       cc_num_threads = threads, cc_active_threads = active\<rparr>, c) }"

definition cc_sched_cycle ::
  "'a exec_state_scheme exec_env \<Rightarrow> u32 \<Rightarrow> 'a exec_state_scheme conc \<Rightarrow> (leave \<times> 'a exec_state_scheme conc) option" where
  "cc_sched_cycle E exec c = executor_sched_cycle E exec c"

text \<open>The scheduler with the functions of the executors it calls back.\<close>

definition cc_activate ::
  "'a exec_state_scheme exec_env \<Rightarrow> ptr \<Rightarrow> u32 \<Rightarrow> 'a exec_state_scheme conc \<Rightarrow> (bool \<times> 'a exec_state_scheme conc) option" where
  "cc_activate E thread exec c = scheduler_activate_thread (sched_with E c) (executor_restart_idle E) thread exec c"

definition cc_deactivate ::
  "'a exec_state_scheme exec_env \<Rightarrow> ptr \<Rightarrow> u32 \<Rightarrow> u32 \<Rightarrow> 'a exec_state_scheme conc \<Rightarrow>
   ((leave + bool) \<times> 'a exec_state_scheme conc) option" where
  "cc_deactivate E thread stat exec c = scheduler_deactivate_thread (sched_with E c)
     (\<lambda>executor. executor_raise E executor (EX_SIGNAL_SCHEDULE E)) (executor_sched_cycle E) thread stat exec c"

definition cc_thread_create ::
  "'a exec_state_scheme exec_env \<Rightarrow> thread_stat_t \<Rightarrow> thread_mbox_t \<Rightarrow> ptr \<Rightarrow> ptr \<Rightarrow> u32 \<Rightarrow> 'a exec_state_scheme conc \<Rightarrow>
   (unit \<times> 'a exec_state_scheme conc) option" where
  "cc_thread_create E stat mbox mbox_addr_ptr thread exec c =
     (if thread \<noteq> NULL then do {
        (_, c) \<leftarrow> wr (word_loc mbox_addr_ptr) (thread + t_mbox_off E) c;
        (_, c) \<leftarrow> thread_init thread stat mbox c;
        if T_STAT_RUNNABLE = t_sched_stat stat then do {
          (_, c) \<leftarrow> cc_activate E thread exec c;
          Some ((), c) }
        else Some ((), c) }
      else None)"

definition cc_thread_destroy ::
  "'a exec_state_scheme exec_env \<Rightarrow> ptr \<Rightarrow> u32 \<Rightarrow> 'a exec_state_scheme conc \<Rightarrow>
   ((leave + unit) \<times> 'a exec_state_scheme conc) option" where
  "cc_thread_destroy E thread exec c = do {
     (r, c) \<leftarrow> cc_deactivate E thread T_STAT_DESTROY exec c;
     Some (case r of Inl x \<Rightarrow> Inl x | Inr _ \<Rightarrow> Inr (), c) }"

definition cc_thread_update ::
  "ptr \<Rightarrow> thread_stat_t \<Rightarrow> 'a sched_state_scheme conc \<Rightarrow> (bool \<times> 'a sched_state_scheme conc) option" where
  "cc_thread_update thread stat c =
     (if T_STAT_NONE \<noteq> t_sched_stat stat then
        (if T_STAT_RUNNABLE = t_sched_stat stat \<or> T_STAT_SUSPEND = t_sched_stat stat \<or>
            T_STAT_TERM = t_sched_stat stat \<or> T_STAT_GC_WAIT = t_sched_stat stat
         then scheduler_update_thread thread (t_sched_stat stat) c
         else Some (False, c))
      else Some (True, c))"

definition cc_thread_update_immediate ::
  "'a exec_state_scheme exec_env \<Rightarrow> ptr \<Rightarrow> thread_stat_t \<Rightarrow> u32 \<Rightarrow> 'a exec_state_scheme conc \<Rightarrow>
   ((leave + bool) \<times> 'a exec_state_scheme conc) option" where
  "cc_thread_update_immediate E thread stat exec c =
     (if T_STAT_NONE \<noteq> t_sched_stat stat then
        (if t_sched_stat stat = T_STAT_RUNNABLE then do {
           (out, c) \<leftarrow> cc_activate E thread exec c;
           Some (Inr out, c) }
         else if t_sched_stat stat = T_STAT_SUSPEND then cc_deactivate E thread T_STAT_SUSPEND exec c
         else if t_sched_stat stat = T_STAT_TERM then cc_deactivate E thread T_STAT_TERM exec c
         else if t_sched_stat stat = T_STAT_DESTROY then None
         else Some (Inr False, c))
      else Some (Inr True, c))"

definition cc_executor_id :: "'a exec_state_scheme conc \<Rightarrow> (u32 \<times> 'a exec_state_scheme conc) option" where
  "cc_executor_id c = executor_self c"

definition cc_safepoint ::
  "'a exec_state_scheme exec_env \<Rightarrow> u32 \<Rightarrow> u32 \<Rightarrow> 'a exec_state_scheme conc \<Rightarrow>
   ((leave + unit) \<times> 'a exec_state_scheme conc) option" where
  "cc_safepoint E exec sigs c = executor_safepoint E exec sigs c"

end
