(* ===== verification/Object_Queue.thy ===== *)
theory Object_Queue
  imports Queue_Init
begin

unbundle bit_operations_syntax

section \<open>The queues of objects (\<open>src/mm/gc/lf_object_queue.c\<close>)\<close>

text \<open>
  The queue the collector keeps its work in. Its structures have the layout of those of the
  thread queue (the data of a node is an object, and the prefix of the hazard pointers is
  \<open>ohp\<close>), so the model uses the same records, in a memory of its own: the globals
  \<open>lf_object_queue_hptrs\<close> and \<open>lf_object_queue_hptr_threshold\<close> are the ones of that memory.
  The functions are translated one by one; afterwards each is shown to be the function of
  the thread queue, which gives the object queue the contract of a queue.
\<close>

type_synonym 'a object_queue_state = "'a thread_queue_state_scheme"

abbreviation "lf_object_queue_hptrs \<equiv> lf_thread_queue_hptrs"
abbreviation "lf_object_queue_hptrs_update \<equiv> lf_thread_queue_hptrs_update"
abbreviation "lf_object_queue_hptr_threshold \<equiv> lf_thread_queue_hptr_threshold"
abbreviation "lf_object_queue_hptr_threshold_update \<equiv> lf_thread_queue_hptr_threshold_update"
abbreviation "on_next_loc \<equiv> tn_next_loc"
abbreviation "on_data_loc \<equiv> tn_data_loc"
abbreviation "oq_head_loc \<equiv> tq_head_loc"
abbreviation "oq_tail_loc \<equiv> tq_tail_loc"
abbreviation "oq_alloc_loc \<equiv> tq_alloc_loc"
abbreviation "oq_shared_loc \<equiv> tq_shared_loc"
abbreviation "oq_count_loc \<equiv> tq_count_loc"
abbreviation "ohp_rcount_loc \<equiv> thp_rcount_loc"
abbreviation "ohp_rlist_loc \<equiv> thp_rlist_loc"
abbreviation "ohp_ptrs_loc \<equiv> thp_ptrs_loc"

subsection \<open>Initialisation\<close>

text \<open>
  A node takes 8 bytes, the queue 12 and 16 for the hazard pointers of each executor, the
  allocator a cache line and one for each executor.
\<close>

definition oq_align :: "u32 \<Rightarrow> u32" where
  "oq_align sz = ((sz - 1) AND NOT (32 - 1)) + 32"

definition lf_object_queue_request :: "u32 \<Rightarrow> u32 \<Rightarrow> u32" where
  "lf_object_queue_request num execs =
     (let extra_nodes = execs * execs * 2 + execs * 2 + 1;
          nodes_size = 8 * (extra_nodes + num);
          aligned_nodes_size = oq_align nodes_size;
          queue_size = 12 + (16 + 2 * 4) * execs;
          aligned_queue_size = oq_align queue_size;
          allocator_size = 32 + execs * 32
      in aligned_queue_size + aligned_nodes_size + allocator_size)"

text \<open>\<open>nodes + k\<close>\<close>

definition oq_node_at :: "ptr \<Rightarrow> u32 \<Rightarrow> ptr" where
  "oq_node_at nodes k = nodes + k * 8"

definition lf_object_queue_init ::
  "ptr \<Rightarrow> u32 \<Rightarrow> u32 \<Rightarrow> 'a object_queue_state conc \<Rightarrow> (ptr \<times> 'a object_queue_state conc) option" where
  "lf_object_queue_init mem num execs c = (if execs = 0 then None else do {
     let extra_nodes = execs * execs * 2 + execs * 2 + 1;
     let executor_nodes = (num + extra_nodes - 1) div execs;
     let shared_nodes = (num + extra_nodes - 1) - executor_nodes * execs;
     let queue_size = 12 + (16 + 2 * 4) * execs;
     let aligned_queue_size = oq_align queue_size;
     let allocator_size = 32 + execs * 32;
     let fifo = mem;
     let allocator = fifo + aligned_queue_size;
     let nodes = allocator + allocator_size;
     let sentinel = oq_node_at nodes (num + extra_nodes - 1);
     let out = nodes + oq_align (8 * (extra_nodes + num));
     (_, c) \<leftarrow> foreach (\<lambda>i c. do {
         (_, c) \<leftarrow> pwr (on_next_loc (oq_node_at nodes (of_nat i * executor_nodes))) NULL c;
         (_, c) \<leftarrow> pwr (nl_count_loc allocator (of_nat i)) executor_nodes c;
         (_, c) \<leftarrow> pwr (nl_list_loc allocator (of_nat i))
           (oq_node_at nodes (of_nat i * executor_nodes + (executor_nodes - 1))) c;
         foreach (\<lambda>j. pwr (on_next_loc (oq_node_at nodes (of_nat i * executor_nodes + of_nat j)))
             (oq_node_at nodes (of_nat i * executor_nodes + of_nat j - 1)))
           [1..<unat executor_nodes] c }) [0..<unat execs] c;
     (_, c) \<leftarrow> (if shared_nodes = 0 then pwr (oq_shared_loc allocator) NULL c
       else do {
         (_, c) \<leftarrow> pwr (oq_shared_loc allocator) (oq_node_at nodes (num + extra_nodes - 1)) c;
         (_, c) \<leftarrow> pwr (on_next_loc (oq_node_at nodes (executor_nodes * execs))) NULL c;
         foreach (\<lambda>i. pwr (on_next_loc (oq_node_at nodes (of_nat i))) (oq_node_at nodes (of_nat i - 1)))
           [unat (executor_nodes * execs + 1)..<unat (num + extra_nodes - 1)] c });
     (_, c) \<leftarrow> pwr (oq_count_loc allocator) (num + extra_nodes) c;
     (_, c) \<leftarrow> pwr (global_loc lf_object_queue_hptrs lf_object_queue_hptrs_update) execs c;
     (_, c) \<leftarrow> pwr (global_loc lf_object_queue_hptr_threshold lf_object_queue_hptr_threshold_update)
       (execs * 2) c;
     (_, c) \<leftarrow> pwr (on_next_loc sentinel) NULL c;
     (_, c) \<leftarrow> pwr (on_data_loc sentinel) NULL c;
     (_, c) \<leftarrow> pwr (oq_head_loc fifo) sentinel c;
     (_, c) \<leftarrow> pwr (oq_tail_loc fifo) sentinel c;
     (_, c) \<leftarrow> pwr (oq_alloc_loc fifo) allocator c;
     (_, c) \<leftarrow> pwr (field_loc tq_queues tq_queues_update lf_hptrs lf_hptrs_update fifo)
       (replicate (unat execs) \<lparr>thp_rcount = 0, thp_rlist = NULL, thp_ptrs = (\<lambda>_. NULL)\<rparr>) c;
     Some (out, c) })"

subsection \<open>The allocator of nodes\<close>

definition lf_object_queue_allocator_upper_bound ::
  "u32 \<Rightarrow> ptr \<Rightarrow> 'a object_queue_state conc \<Rightarrow> (u32 \<times> 'a object_queue_state conc) option" where
  "lf_object_queue_allocator_upper_bound ec alloc c = do {
     (num_objects, c) \<leftarrow> prd (oq_count_loc alloc) c;
     let frac = drop_bit 2 num_objects;
     let numerator = num_objects + frac;
     if ec = 0 then None else do {
     let bound = numerator div ec;
     Some (if bound \<noteq> 0 then bound else 1, c) } }"

definition lf_object_queue_allocator_lower_bound ::
  "u32 \<Rightarrow> ptr \<Rightarrow> 'a object_queue_state conc \<Rightarrow> (u32 \<times> 'a object_queue_state conc) option" where
  "lf_object_queue_allocator_lower_bound ec alloc c = do {
     (num_objects, c) \<leftarrow> prd (oq_count_loc alloc) c;
     let frac = drop_bit 2 num_objects;
     let numerator = (if frac < num_objects then num_objects - frac else 0);
     if ec = 0 then None else do {
     let bound = numerator div ec;
     Some (if bound \<noteq> 0 then bound else 1, c) } }"

definition lf_object_queue_node_alloc_try_push ::
  "ptr \<Rightarrow> ptr \<Rightarrow> 'a object_queue_state conc \<Rightarrow> (bool \<times> 'a object_queue_state conc) option" where
  "lf_object_queue_node_alloc_try_push alloc node c = do {
     (head, c) \<leftarrow> rd (oq_shared_loc alloc) c;
     (_, c) \<leftarrow> pwr (on_next_loc node) head c;
     atomic_compare_and_set_ptr head node (oq_shared_loc alloc) c }"

definition lf_object_queue_node_alloc_push ::
  "ptr \<Rightarrow> ptr \<Rightarrow> 'a object_queue_state conc \<Rightarrow> (unit \<times> 'a object_queue_state conc) option" where
  "lf_object_queue_node_alloc_push alloc node c =
     retry_until (lf_object_queue_node_alloc_try_push alloc node) c"

definition lf_object_queue_node_alloc_try_pull ::
  "ptr \<Rightarrow> 'a object_queue_state conc \<Rightarrow> (ptr \<times> 'a object_queue_state conc) option" where
  "lf_object_queue_node_alloc_try_pull alloc c = do {
     (head, c) \<leftarrow> rd (oq_shared_loc alloc) c;
     (next, c) \<leftarrow> rd (on_next_loc head) c;
     (ok, c) \<leftarrow> atomic_compare_and_set_ptr head next (oq_shared_loc alloc) c;
     Some (if ok then head else NULL, c) }"

definition lf_object_queue_node_alloc_pull ::
  "ptr \<Rightarrow> 'a object_queue_state conc \<Rightarrow> (ptr \<times> 'a object_queue_state conc) option" where
  "lf_object_queue_node_alloc_pull alloc c = retry (\<lambda>c. do {
     (out, c) \<leftarrow> rd (oq_shared_loc alloc) c;
     if out \<noteq> NULL then do {
       (next, c) \<leftarrow> rd (on_next_loc out) c;
       (ok, c) \<leftarrow> atomic_compare_and_set_ptr out next (oq_shared_loc alloc) c;
       Some (if ok then Some out else None, c) }
     else Some (Some out, c) }) c"

definition lf_object_queue_node_alloc_balance ::
  "u32 \<Rightarrow> ptr \<Rightarrow> u32 \<Rightarrow> 'a object_queue_state conc \<Rightarrow>
   (unit \<times> 'a object_queue_state conc) option" where
  "lf_object_queue_node_alloc_balance ec alloc exec c = do {
     (upper, c) \<leftarrow> lf_object_queue_allocator_upper_bound ec alloc c;
     (count, c) \<leftarrow> prd (nl_count_loc alloc exec) c;
     if upper < count then do {
       (node, c) \<leftarrow> prd (nl_list_loc alloc exec) c;
       (_, c) \<leftarrow> lf_object_queue_node_alloc_push alloc node c;
       (next, c) \<leftarrow> rd (on_next_loc node) c;
       pwr (nl_list_loc alloc exec) next c }
     else do {
       (lower, c) \<leftarrow> lf_object_queue_allocator_lower_bound ec alloc c;
       if count < lower then do {
         (node, c) \<leftarrow> lf_object_queue_node_alloc_pull alloc c;
         (list, c) \<leftarrow> prd (nl_list_loc alloc exec) c;
         (_, c) \<leftarrow> pwr (on_next_loc node) list c;
         pwr (nl_list_loc alloc exec) node c }
       else Some ((), c) } }"

definition lf_object_queue_node_alloc ::
  "u32 \<Rightarrow> ptr \<Rightarrow> u32 \<Rightarrow> 'a object_queue_state conc \<Rightarrow>
   (ptr \<times> 'a object_queue_state conc) option" where
  "lf_object_queue_node_alloc ec fifo exec c = do {
     (alloc, c) \<leftarrow> prd (oq_alloc_loc fifo) c;
     (_, c) \<leftarrow> lf_object_queue_node_alloc_balance ec alloc exec c;
     (out, c) \<leftarrow> prd (nl_list_loc alloc exec) c;
     if out \<noteq> NULL then do {
       (next, c) \<leftarrow> prd (on_next_loc out) c;
       (_, c) \<leftarrow> pwr (nl_list_loc alloc exec) next c;
       (count, c) \<leftarrow> prd (nl_count_loc alloc exec) c;
       (_, c) \<leftarrow> pwr (nl_count_loc alloc exec) (count - 1) c;
       Some (out, c) }
     else Some (out, c) }"

definition lf_object_queue_node_free ::
  "u32 \<Rightarrow> ptr \<Rightarrow> ptr \<Rightarrow> u32 \<Rightarrow> 'a object_queue_state conc \<Rightarrow>
   (unit \<times> 'a object_queue_state conc) option" where
  "lf_object_queue_node_free ec fifo node exec c = do {
     (alloc, c) \<leftarrow> prd (oq_alloc_loc fifo) c;
     (lower, c) \<leftarrow> lf_object_queue_allocator_lower_bound ec alloc c;
     (count, c) \<leftarrow> prd (nl_count_loc alloc exec) c;
     (_, c) \<leftarrow> (if lower < count then do {
         (list, c) \<leftarrow> prd (nl_list_loc alloc exec) c;
         (_, c) \<leftarrow> pwr (on_next_loc node) list c;
         (_, c) \<leftarrow> pwr (nl_list_loc alloc exec) node c;
         pwr (nl_count_loc alloc exec) (count + 1) c }
       else lf_object_queue_node_alloc_push alloc node c);
     lf_object_queue_node_alloc_balance ec alloc exec c }"

subsection \<open>Hazard pointers\<close>

definition lf_object_queue_ptab_lookup :: "ptab \<Rightarrow> ptr \<Rightarrow> u32 \<Rightarrow> bool option" where
  "lf_object_queue_ptab_lookup t node sz = ptab_lookup t node sz"

definition lf_object_queue_ptab_insert :: "ptab \<Rightarrow> nat \<Rightarrow> u32 \<Rightarrow> ptab" where
  "lf_object_queue_ptab_insert t k sz = ptab_insert t k sz"

fun lf_object_queue_build_loop ::
  "ptr \<Rightarrow> u32 \<Rightarrow> (nat \<times> nat) list \<Rightarrow> ptab \<Rightarrow> 'a object_queue_state conc \<Rightarrow>
   (ptab \<times> 'a object_queue_state conc) option" where
  "lf_object_queue_build_loop fifo sz [] t c = Some (t, c)"
| "lf_object_queue_build_loop fifo sz ((i, j) # ijs) t c = do {
     (v, c) \<leftarrow> rd (ohp_ptrs_loc fifo (of_nat i) j) c;
     lf_object_queue_build_loop fifo sz ijs (ptab_add t (2 * i + j) v sz) c }"

definition lf_object_queue_scan_build_ptab ::
  "ptr \<Rightarrow> 'a object_queue_state conc \<Rightarrow> (ptab \<times> 'a object_queue_state conc) option" where
  "lf_object_queue_scan_build_ptab fifo c = (
     let hptrs = lf_object_queue_hptrs (fst c);
         sz = hptrs * 4 - 1
     in lf_object_queue_build_loop fifo sz
          (concat (map (\<lambda>i. [(i, 0), (i, 1)]) [0..<unat hptrs]))
          (ptab_empty (2 * unat hptrs) sz) c)"

text \<open>The loop over the retired list: what is hazardous stays, the rest is freed.\<close>

partial_function (option) lf_object_queue_scan_rlist_loop ::
  "u32 \<Rightarrow> ptr \<Rightarrow> ptab \<Rightarrow> u32 \<Rightarrow> u32 \<Rightarrow> ptr \<Rightarrow> 'a object_queue_state conc \<Rightarrow>
   (unit \<times> 'a object_queue_state conc) option" where
  "lf_object_queue_scan_rlist_loop ec fifo t sz exec cur c =
     (if cur \<noteq> NULL then do {
        (next, c) \<leftarrow> prd (on_next_loc cur) c;
        hazard \<leftarrow> lf_object_queue_ptab_lookup t cur sz;
        if hazard then do {
          (rlist, c) \<leftarrow> prd (ohp_rlist_loc fifo exec) c;
          (_, c) \<leftarrow> pwr (on_next_loc cur) rlist c;
          (_, c) \<leftarrow> pwr (ohp_rlist_loc fifo exec) cur c;
          (rcount, c) \<leftarrow> prd (ohp_rcount_loc fifo exec) c;
          (_, c) \<leftarrow> pwr (ohp_rcount_loc fifo exec) (rcount + 1) c;
          lf_object_queue_scan_rlist_loop ec fifo t sz exec next c }
        else do {
          (_, c) \<leftarrow> lf_object_queue_node_free ec fifo cur exec c;
          lf_object_queue_scan_rlist_loop ec fifo t sz exec next c } }
      else Some ((), c))"

definition lf_object_queue_scan_free_rlist ::
  "u32 \<Rightarrow> ptr \<Rightarrow> ptab \<Rightarrow> u32 \<Rightarrow> 'a object_queue_state conc \<Rightarrow>
   (unit \<times> 'a object_queue_state conc) option" where
  "lf_object_queue_scan_free_rlist ec fifo t exec c = do {
     let sz = lf_object_queue_hptrs (fst c) * 4 - 1;
     (cur, c) \<leftarrow> prd (ohp_rlist_loc fifo exec) c;
     (_, c) \<leftarrow> pwr (ohp_rlist_loc fifo exec) NULL c;
     (_, c) \<leftarrow> pwr (ohp_rcount_loc fifo exec) 0 c;
     lf_object_queue_scan_rlist_loop ec fifo t sz exec cur c }"

definition lf_object_queue_scan ::
  "u32 \<Rightarrow> ptr \<Rightarrow> u32 \<Rightarrow> 'a object_queue_state conc \<Rightarrow>
   (unit \<times> 'a object_queue_state conc) option" where
  "lf_object_queue_scan ec fifo exec c = do {
     (t, c) \<leftarrow> lf_object_queue_scan_build_ptab fifo c;
     lf_object_queue_scan_free_rlist ec fifo t exec c }"

definition lf_object_queue_node_retire ::
  "u32 \<Rightarrow> ptr \<Rightarrow> ptr \<Rightarrow> u32 \<Rightarrow> 'a object_queue_state conc \<Rightarrow>
   (unit \<times> 'a object_queue_state conc) option" where
  "lf_object_queue_node_retire ec fifo node exec c = do {
     (rlist, c) \<leftarrow> prd (ohp_rlist_loc fifo exec) c;
     (_, c) \<leftarrow> wr (on_next_loc node) rlist c;
     (_, c) \<leftarrow> pwr (ohp_rlist_loc fifo exec) node c;
     (rcount, c) \<leftarrow> prd (ohp_rcount_loc fifo exec) c;
     (_, c) \<leftarrow> pwr (ohp_rcount_loc fifo exec) (rcount + 1) c;
     if lf_object_queue_hptr_threshold (fst c) \<le> rcount then lf_object_queue_scan ec fifo exec c
     else Some ((), c) }"

definition lf_object_queue_destroy ::
  "ptr \<Rightarrow> u32 \<Rightarrow> 'a object_queue_state conc \<Rightarrow> (unit \<times> 'a object_queue_state conc) option" where
  "lf_object_queue_destroy fifo exec c = Some ((), c)"

subsection \<open>Enqueueing and dequeueing\<close>

definition lf_object_queue_try_enqueue ::
  "ptr \<Rightarrow> ptr \<Rightarrow> u32 \<Rightarrow> 'a object_queue_state conc \<Rightarrow>
   (ptr \<times> 'a object_queue_state conc) option" where
  "lf_object_queue_try_enqueue fifo node exec c = do {
     (tail, c) \<leftarrow> rd (oq_tail_loc fifo) c;
     (_, c) \<leftarrow> wr (ohp_ptrs_loc fifo exec 0) tail c;
     (tail2, c) \<leftarrow> rd (oq_tail_loc fifo) c;
     if tail = tail2 then do {
       (next, c) \<leftarrow> rd (on_next_loc tail) c;
       (tail3, c) \<leftarrow> rd (oq_tail_loc fifo) c;
       if tail = tail3 then
         (if next \<noteq> NULL then do {
            (_, c) \<leftarrow> atomic_compare_and_set_ptr tail next (oq_tail_loc fifo) c;
            Some (NULL, c) }
          else do {
            (ok, c) \<leftarrow> atomic_compare_and_set_ptr NULL node (on_next_loc tail) c;
            Some (if ok then tail else NULL, c) })
       else Some (NULL, c) }
     else Some (NULL, c) }"

definition lf_object_queue_enqueue ::
  "u32 \<Rightarrow> ptr \<Rightarrow> ptr \<Rightarrow> u32 \<Rightarrow> 'a object_queue_state conc \<Rightarrow>
   (bool \<times> 'a object_queue_state conc) option" where
  "lf_object_queue_enqueue ec fifo object exec c = do {
     (node, c) \<leftarrow> lf_object_queue_node_alloc ec fifo exec c;
     if node \<noteq> NULL then do {
       (_, c) \<leftarrow> pwr (on_data_loc node) object c;
       (_, c) \<leftarrow> pwr (on_next_loc node) NULL c;
       (tail, c) \<leftarrow> retry_nonnull (lf_object_queue_try_enqueue fifo node exec) c;
       (_, c) \<leftarrow> atomic_compare_and_set_ptr tail node (oq_tail_loc fifo) c;
       (_, c) \<leftarrow> wr (ohp_ptrs_loc fifo exec 0) NULL c;
       Some (True, c) }
     else Some (False, c) }"

definition lf_object_queue_try_dequeue ::
  "u32 \<Rightarrow> ptr \<Rightarrow> u32 \<Rightarrow> 'a object_queue_state conc \<Rightarrow>
   (opt_t \<times> 'a object_queue_state conc) option" where
  "lf_object_queue_try_dequeue ec fifo exec c = do {
     (head, c) \<leftarrow> rd (oq_head_loc fifo) c;
     let out = \<lparr>o_value = NULL, o_valid = False\<rparr>;
     (_, c) \<leftarrow> wr (ohp_ptrs_loc fifo exec 0) head c;
     (head2, c) \<leftarrow> rd (oq_head_loc fifo) c;
     if head = head2 then do {
       (tail, c) \<leftarrow> rd (oq_tail_loc fifo) c;
       (next, c) \<leftarrow> rd (on_next_loc head) c;
       (_, c) \<leftarrow> wr (ohp_ptrs_loc fifo exec 1) next c;
       (head3, c) \<leftarrow> rd (oq_head_loc fifo) c;
       if head = head3 then
         (if next \<noteq> NULL then
            (if head \<noteq> tail then do {
               (ok, c) \<leftarrow> atomic_compare_and_set_ptr head next (oq_head_loc fifo) c;
               if ok then do {
                 (data, c) \<leftarrow> rd (on_data_loc next) c;
                 (_, c) \<leftarrow> wr (ohp_ptrs_loc fifo exec 1) NULL c;
                 (_, c) \<leftarrow> lf_object_queue_node_retire ec fifo head exec c;
                 (_, c) \<leftarrow> wr (ohp_ptrs_loc fifo exec 0) NULL c;
                 Some (\<lparr>o_value = data, o_valid = True\<rparr>, c) }
               else Some (out, c) }
             else do {
               (_, c) \<leftarrow> atomic_compare_and_set_ptr tail next (oq_tail_loc fifo) c;
               Some (out, c) })
          else do {
            (_, c) \<leftarrow> wr (ohp_ptrs_loc fifo exec 0) NULL c;
            (_, c) \<leftarrow> wr (ohp_ptrs_loc fifo exec 1) NULL c;
            Some (out\<lparr>o_valid := True\<rparr>, c) })
       else Some (out, c) }
     else Some (out, c) }"

definition lf_object_queue_dequeue ::
  "u32 \<Rightarrow> ptr \<Rightarrow> u32 \<Rightarrow> 'a object_queue_state conc \<Rightarrow>
   (ptr \<times> 'a object_queue_state conc) option" where
  "lf_object_queue_dequeue ec fifo exec c = retry_valid (lf_object_queue_try_dequeue ec fifo exec) c"


subsection \<open>The same queue\<close>

lemma object_queue_sizes:
  "oq_align = tq_align" "oq_node_at = tq_node_at" "lf_object_queue_request = lf_thread_queue_request"
  by (intro ext; simp add: oq_align_def tq_align_def oq_node_at_def tq_node_at_def lf_object_queue_request_def
      lf_thread_queue_request_def Let_def)+

lemma object_queue_init_same: "lf_object_queue_init = lf_thread_queue_init"
  by (intro ext) (simp only: lf_object_queue_init_def lf_thread_queue_init_def object_queue_sizes)

lemma object_queue_bounds_same:
  "lf_object_queue_allocator_upper_bound = lf_thread_queue_allocator_upper_bound"
  "lf_object_queue_allocator_lower_bound = lf_thread_queue_allocator_lower_bound"
  by (intro ext; simp only: lf_object_queue_allocator_upper_bound_def lf_thread_queue_allocator_upper_bound_def
      lf_object_queue_allocator_lower_bound_def lf_thread_queue_allocator_lower_bound_def)+

lemma object_queue_lists_same:
  "lf_object_queue_node_alloc_try_push = lf_thread_queue_node_alloc_try_push"
  "lf_object_queue_node_alloc_try_pull = lf_thread_queue_node_alloc_try_pull"
  "lf_object_queue_node_alloc_pull = lf_thread_queue_node_alloc_pull"
  by (intro ext; simp only: lf_object_queue_node_alloc_try_push_def lf_thread_queue_node_alloc_try_push_def
      lf_object_queue_node_alloc_try_pull_def lf_thread_queue_node_alloc_try_pull_def
      lf_object_queue_node_alloc_pull_def lf_thread_queue_node_alloc_pull_def)+

lemma object_queue_push_same: "lf_object_queue_node_alloc_push = lf_thread_queue_node_alloc_push"
  by (intro ext) (simp only: lf_object_queue_node_alloc_push_def lf_thread_queue_node_alloc_push_def
      object_queue_lists_same)

lemma object_queue_balance_same: "lf_object_queue_node_alloc_balance = lf_thread_queue_node_alloc_balance"
  by (intro ext) (simp only: lf_object_queue_node_alloc_balance_def lf_thread_queue_node_alloc_balance_def
      object_queue_lists_same object_queue_push_same object_queue_bounds_same)

lemma object_queue_nodes_same:
  "lf_object_queue_node_alloc = lf_thread_queue_node_alloc"
  "lf_object_queue_node_free = lf_thread_queue_node_free"
  by (intro ext; simp only: lf_object_queue_node_alloc_def lf_thread_queue_node_alloc_def
      lf_object_queue_node_free_def lf_thread_queue_node_free_def object_queue_balance_same
      object_queue_push_same object_queue_bounds_same)+

lemma object_queue_build_same: "lf_object_queue_build_loop fifo sz ijs t c = lf_thread_queue_build_loop fifo sz ijs t c"
  by (induction fifo sz ijs t c rule: lf_object_queue_build_loop.induct) (simp_all add: rd_def Let_def split: option.splits)

lemma bind_le1: "m \<bind> F = Some r \<Longrightarrow> (\<And>x. F x = Some r \<Longrightarrow> G x = Some r) \<Longrightarrow> m \<bind> G = Some r"
  by (cases m) simp_all

lemma bind_le:
  "m \<bind> F = Some r \<Longrightarrow> (\<And>a b. F (a, b) = Some r \<Longrightarrow> G (a, b) = Some r) \<Longrightarrow> m \<bind> G = Some r"
  by (cases m) auto

lemma object_scan_loop_le:
  assumes "lf_object_queue_scan_rlist_loop ec fifo t sz exec cur c = Some r"
  shows "lf_thread_queue_scan_rlist_loop ec fifo t sz exec cur c = Some r"
proof (rule lf_object_queue_scan_rlist_loop.raw_induct [OF _ assms], goal_cases)
  case (1 f ec fifo t sz exec cur c r)
  show ?case
    using 1(2) unfolding lf_thread_queue_scan_rlist_loop.simps [of ec fifo t sz exec cur c] object_queue_nodes_same
      lf_object_queue_ptab_lookup_def lf_thread_queue_ptab_lookup_def
    by (auto elim!: bind_le bind_le1 simp only: prod.case split: if_split_asm if_split) (erule 1(1))+
qed

lemma thread_scan_loop_le:
  assumes "lf_thread_queue_scan_rlist_loop ec fifo t sz exec cur c = Some r"
  shows "lf_object_queue_scan_rlist_loop ec fifo t sz exec cur c = Some r"
proof (rule lf_thread_queue_scan_rlist_loop.raw_induct [OF _ assms], goal_cases)
  case (1 f ec fifo t sz exec cur c r)
  show ?case
    using 1(2) unfolding lf_object_queue_scan_rlist_loop.simps [of ec fifo t sz exec cur c] object_queue_nodes_same
      lf_object_queue_ptab_lookup_def lf_thread_queue_ptab_lookup_def
    by (auto elim!: bind_le bind_le1 simp only: prod.case split: if_split_asm if_split) (erule 1(1))+
qed

lemma object_queue_scan_loop_same: "lf_object_queue_scan_rlist_loop = lf_thread_queue_scan_rlist_loop"
  by (intro ext) (metis object_scan_loop_le thread_scan_loop_le not_None_eq)

lemma object_queue_scan_same:
  "lf_object_queue_scan_build_ptab = lf_thread_queue_scan_build_ptab"
  "lf_object_queue_scan_free_rlist = lf_thread_queue_scan_free_rlist"
  by (intro ext; simp only: lf_object_queue_scan_build_ptab_def lf_thread_queue_scan_build_ptab_def
      lf_object_queue_scan_free_rlist_def lf_thread_queue_scan_free_rlist_def object_queue_build_same
      object_queue_scan_loop_same)+

lemma object_queue_retire_same: "lf_object_queue_node_retire = lf_thread_queue_node_retire"
  by (intro ext) (simp only: lf_object_queue_node_retire_def lf_thread_queue_node_retire_def
      lf_object_queue_scan_def lf_thread_queue_scan_def object_queue_scan_same)

lemma object_queue_attempts_same:
  "lf_object_queue_try_enqueue = lf_thread_queue_try_enqueue"
  "lf_object_queue_try_dequeue = lf_thread_queue_try_dequeue"
  by (intro ext; simp only: lf_object_queue_try_enqueue_def lf_thread_queue_try_enqueue_def
      lf_object_queue_try_dequeue_def lf_thread_queue_try_dequeue_def object_queue_retire_same)+

lemma object_queue_same:
  "lf_object_queue_enqueue = lf_thread_queue_enqueue"
  "lf_object_queue_dequeue = lf_thread_queue_dequeue"
  by (intro ext; simp only: lf_object_queue_enqueue_def lf_thread_queue_enqueue_def
      lf_object_queue_dequeue_def lf_thread_queue_dequeue_def object_queue_attempts_same object_queue_nodes_same)+

definition oq_enq ::
  "u32 \<Rightarrow> ptr \<Rightarrow> u32 \<Rightarrow> ptr \<Rightarrow> 'a object_queue_state \<Rightarrow> 'a object_queue_state option" where
  "oq_enq ec fifo exec object s = map_option (\<lambda>r. fst (snd r)) (lf_object_queue_enqueue ec fifo object exec (s, []))"

definition oq_deq ::
  "u32 \<Rightarrow> ptr \<Rightarrow> u32 \<Rightarrow> 'a object_queue_state \<Rightarrow> (ptr option \<times> 'a object_queue_state) option" where
  "oq_deq ec fifo exec s = map_option (\<lambda>r. (if fst r = NULL then None else Some (fst r), fst (snd r)))
     (lf_object_queue_dequeue ec fifo exec (s, []))"

lemma oq_is_tq: "oq_enq ec fifo exec = tq_enq ec fifo exec" "oq_deq ec fifo exec = tq_deq ec fifo exec"
  by (intro ext; simp only: oq_enq_def tq_enq_def oq_deq_def tq_deq_def object_queue_same)+

interpretation oq: fifo_queue "oq_enq ec fifo exec" "oq_deq ec fifo exec" "tq_holds ec fifo exec" "\<lambda>_ x. x \<noteq> NULL"
  for ec fifo exec
  unfolding oq_is_tq by (rule tq.fifo_queue_axioms)

text \<open>
  C7 [object_queue_fifo]. A queue that \<open>lf_object_queue_init\<close> has just laid out is first in,
  first out, as long as the private list of the executor stays above the lower bound.
\<close>

theorem fresh_object_queue_is_fifo:
  assumes "tq_memory s mem num execs" "exec < execs" "NULL \<notin> set (enqueued ops)"
    and "max 1 ((tq_count num execs - tq_count num execs div 4) div unat execs) + length (enqueued ops)
      < tq_share num execs"
  shows "\<exists>out u t. lf_object_queue_init mem num execs (s, []) = Some (out, (u, [])) \<and>
    run_fifo (oq_enq execs mem exec) (oq_deq execs mem exec) ops u = Some (fst (run_list ops []), t)"
proof -
  from init_ready [OF assms(1), of "[]"] obtain out u where
    u: "lf_object_queue_init mem num execs (s, []) = Some (out, (u, []))" "tq_ready mem num execs u"
    unfolding object_queue_init_same by (auto simp: returns_ex)
  have "tq_holds execs mem exec u (length (enqueued ops)) []"
    by (rule ready_room [OF u(2) assms(1,2,4)])
  then show ?thesis using u(1) oq.runs_as_list [of execs mem exec u ops "[]"] fits_run_all [of ops "\<lambda>x. x \<noteq> NULL"] assms(3) by metis
qed

lemma fresh_object_queue_is_fifo_witness:
  "\<exists>out u t. lf_object_queue_init (0x10000 - 0x80) 27 1 (ex_tq, []) = Some (out, (u, [])) \<and>
    run_fifo (oq_enq 1 (0x10000 - 0x80) 0) (oq_deq 1 (0x10000 - 0x80) 0) [Enq 7, Enq 9, Deq] u =
      Some ([Some 7], t)"
  using fresh_object_queue_is_fifo [OF ex_tq_memory(1), of 0 "[Enq 7, Enq 9, Deq]"]
  by (simp add: tq_share_def tq_count_def Let_def)

end
