(* ===== verification/GC_Thread.thy ===== *)
theory GC_Thread
  imports CC Object_Queue
begin

unbundle bit_operations_syntax

section \<open>Collector threads: claiming and copying (\<open>src/mm/gc/gc_thread.c\<close>)\<close>

text \<open>
  Each executor has a collector thread with a closure: a local queue of claimed objects,
  linked through their headers, an allocator for each generation, and a hash table for its
  write log. A collector claims an object by installing the address of its copy in the
  forwarding pointer, copies it, claiming what it points to, and shares work through an
  object queue. Objects hold pointers as pairs of words; the parity of the number of
  collections says which of the two is in use.

  Objects, allocators, bitmaps and the hash table are words of memory; a byte is a part of
  its word. The closure is a structure of known layout. The file does not compile as it
  is: \<open>moderator\<close> is not declared, \<open>gc_thread_balance\<close> is called without its second
  argument, and so on; such values are arguments of the model. The constants of \<open>gc.h\<close> and
  the global pointers of the guest program are arguments too.
\<close>

subsection \<open>State\<close>

definition GC_ARRAY_MIN_COUNT :: u32 where "GC_ARRAY_MIN_COUNT = 64"
definition GC_ARRAY_MIN_SIZE :: u32 where "GC_ARRAY_MIN_SIZE = 4096"
definition GC_CLUSTER_SIZE :: u32 where "GC_CLUSTER_SIZE = 16"
definition gc_gen_promote :: u8 where "gc_gen_promote = 2"
definition sizeof_gc_header_t :: u32 where "sizeof_gc_header_t = 32"
definition sizeof_gc_double_ptr_t :: u32 where "sizeof_gc_double_ptr_t = 8"

record gc_write_log_hash_node_t =
  wh_list_next :: ptr
  wh_hash_next :: ptr
  wh_log_entry :: ptr

record gc_closure_t =
  gth_workshare_count :: u32
  gth_queue_size :: u32
  gth_head :: ptr
  gth_tail :: ptr
  gth_unique_list :: ptr

record gc_thread_state = exec_state +
  gc_closures :: "ptr \<Rightarrow> gc_closure_t option"
  gc_hash_nodes :: "ptr \<Rightarrow> gc_write_log_hash_node_t option"
  gc_thread_count :: u32
  gc_global_ptr_bitmap :: ptr
  gc_workshare :: ptr
  gc_thread_data_index :: u32
  gc_thread_array_list :: ptr
  gc_thread_initial_barrier_value :: barrier_t
  gc_thread_middle_barrier_value :: barrier_t
  gc_thread_final_barrier_value :: barrier_t
  gc_thread_last_gen :: u8
  gc_thread_peak_gen :: u8
  gc_thread_next_gen :: u32
  gc_collection_count :: u64

record 's gc_thread_env =
  exec_part :: "'s exec_env"
  GC_STATE_NORMAL :: u32
  GC_STATE_WEAK :: u32
  GC_STATE_GEN :: u32
  gc_global_ptr_count :: u32
  gc_global_ptrs :: ptr
  moderator :: u32
  balance_exec :: u32
  env_bsf :: u32
  env_thread :: ptr

abbreviation gc_part :: "'s gc_thread_env \<Rightarrow> 's sched_env" where "gc_part E \<equiv> sched_part (exec_part E)"

abbreviation "gth_count_loc \<equiv> field_loc gc_closures gc_closures_update gth_workshare_count gth_workshare_count_update"
abbreviation "gth_size_loc \<equiv> field_loc gc_closures gc_closures_update gth_queue_size gth_queue_size_update"
abbreviation "gth_head_loc \<equiv> field_loc gc_closures gc_closures_update gth_head gth_head_update"
abbreviation "gth_tail_loc \<equiv> field_loc gc_closures gc_closures_update gth_tail gth_tail_update"
abbreviation "gth_unique_loc \<equiv> field_loc gc_closures gc_closures_update gth_unique_list gth_unique_list_update"
abbreviation "wh_list_next_loc \<equiv> field_loc gc_hash_nodes gc_hash_nodes_update wh_list_next wh_list_next_update"
abbreviation "wh_hash_next_loc \<equiv> field_loc gc_hash_nodes gc_hash_nodes_update wh_hash_next wh_hash_next_update"
abbreviation "wh_log_entry_loc \<equiv> field_loc gc_hash_nodes gc_hash_nodes_update wh_log_entry wh_log_entry_update"
abbreviation "gc_array_list_loc \<equiv> global_loc gc_thread_array_list gc_thread_array_list_update"
abbreviation "gc_next_gen_loc \<equiv> global_loc gc_thread_next_gen gc_thread_next_gen_update"
abbreviation "gc_peak_gen_loc \<equiv> global_loc gc_thread_peak_gen gc_thread_peak_gen_update"
abbreviation "gc_last_gen_loc \<equiv> global_loc gc_thread_last_gen gc_thread_last_gen_update"
abbreviation "gc_count_loc \<equiv> global_loc gc_collection_count gc_collection_count_update"
abbreviation "gc_initial_loc \<equiv> global_loc gc_thread_initial_barrier_value gc_thread_initial_barrier_value_update"
abbreviation "gc_middle_loc \<equiv> global_loc gc_thread_middle_barrier_value gc_thread_middle_barrier_value_update"
abbreviation "gc_final_loc \<equiv> global_loc gc_thread_final_barrier_value gc_thread_final_barrier_value_update"

text \<open>The arrays of a closure: 64 hash nodes, 1024 words of hash table, the allocators.\<close>

definition gth_hash_nodes :: "ptr \<Rightarrow> u32 \<Rightarrow> ptr" where "gth_hash_nodes closure i = closure + 20 + 12 * i"
definition gth_hash_table :: "ptr \<Rightarrow> u32 \<Rightarrow> ptr" where "gth_hash_table closure i = closure + 788 + 4 * i"
definition gth_allocators :: "ptr \<Rightarrow> ptr" where "gth_allocators closure = closure + 4884"

text \<open>A byte of memory, in the order of this machine.\<close>

definition byte_loc :: "ptr \<Rightarrow> ('a slice_state_scheme, u8) loc" where
  "byte_loc p = (let a = p AND NOT 3; k = 8 * unat (p AND 3) in
     Loc (\<lambda>s. map_option (\<lambda>w. ucast (drop_bit k w)) (load (word_loc a) s))
         (\<lambda>v s. store (word_loc a) ((the (load (word_loc a) s) AND NOT (push_bit k 0xff)) OR push_bit k (ucast v)) s))"

definition gc_memcpy :: "ptr \<Rightarrow> ptr \<Rightarrow> u32 \<Rightarrow> 'a slice_state_scheme conc \<Rightarrow> (unit \<times> 'a slice_state_scheme conc) option" where
  "gc_memcpy dst src n = foreach (\<lambda>i c. do {
     (b, c) \<leftarrow> rd (byte_loc (src + of_nat i)) c;
     wr (byte_loc (dst + of_nat i)) b c }) [0..<unat n]"

definition gc_memset :: "ptr \<Rightarrow> u8 \<Rightarrow> u32 \<Rightarrow> 'a slice_state_scheme conc \<Rightarrow> (unit \<times> 'a slice_state_scheme conc) option" where
  "gc_memset dst v n = foreach (\<lambda>i. pwr (byte_loc (dst + of_nat i)) v) [0..<unat n]"

type_synonym 'a gc_conc = "'a gc_thread_state_scheme conc"

subsection \<open>Initialisation\<close>

text \<open>\<open>((gc_global_ptr_count - 1) & ~(cache_line_bits - 1)) + cache_line_bits\<close>, in bytes.\<close>

definition global_bitmap_size :: "u32 \<Rightarrow> u32" where
  "global_bitmap_size count = (((count - 1) AND NOT (256 - 1)) + 256) div 8"

definition gc_thread_request :: "'s gc_thread_env \<Rightarrow> u32 \<Rightarrow> u32 \<Rightarrow> u32" where
  "gc_thread_request E execs gens =
     (let queue_size = lf_object_queue_request (64 * execs) execs
      in queue_size + global_bitmap_size (gc_global_ptr_count E))"

definition gc_thread_init ::
  "'a gc_thread_state_scheme gc_thread_env \<Rightarrow> u32 \<Rightarrow> u32 \<Rightarrow> ptr \<Rightarrow> 'a gc_conc \<Rightarrow> (ptr \<times> 'a gc_conc) option" where
  "gc_thread_init E execs gens mem c = do {
     let bitmap_size = global_bitmap_size (gc_global_ptr_count E);
     (bitmap, c) \<leftarrow> lf_object_queue_init mem (execs * 64) execs c;
     let out = bitmap + bitmap_size;
     (_, c) \<leftarrow> os_thread_barrier_init gc_initial_loc execs c;
     (_, c) \<leftarrow> os_thread_barrier_init gc_middle_loc execs c;
     (_, c) \<leftarrow> os_thread_barrier_init gc_final_loc execs c;
     (_, c) \<leftarrow> wr (global_loc gc_thread_data_index gc_thread_data_index_update) 0 c;
     (_, c) \<leftarrow> pwr (global_loc gc_thread_count gc_thread_count_update) execs c;
     (_, c) \<leftarrow> pwr (global_loc gc_workshare gc_workshare_update) mem c;
     (_, c) \<leftarrow> pwr (global_loc gc_global_ptr_bitmap gc_global_ptr_bitmap_update) bitmap c;
     (_, c) \<leftarrow> gc_memset bitmap 0 bitmap_size c;
     Some (out, c) }"

definition gc_thread_executor_init :: "ptr \<Rightarrow> ptr \<Rightarrow> 'a gc_conc \<Rightarrow> (unit \<times> 'a gc_conc) option" where
  "gc_thread_executor_init closure log c = do {
     (_, c) \<leftarrow> pwr (gth_count_loc closure) 0 c;
     (_, c) \<leftarrow> pwr (gth_size_loc closure) 0 c;
     (_, c) \<leftarrow> pwr (gth_head_loc closure) NULL c;
     (_, c) \<leftarrow> pwr (gth_tail_loc closure) NULL c;
     (_, c) \<leftarrow> pwr (gth_unique_loc closure) NULL c;
     (_, c) \<leftarrow> foreach (\<lambda>i. pwr (word_loc (gth_hash_table closure (of_nat i))) NULL) [0..<1024] c;
     foreach (\<lambda>i. pwr (wh_log_entry_loc (gth_hash_nodes closure (of_nat i))) (log + 8 * of_nat i)) [0..<64] c }"

subsection \<open>Asking for a collection\<close>

text \<open>Both loops of \<open>gc_thread_activate\<close> go on as long as the attempt succeeds.\<close>

definition gc_thread_try_activate ::
  "'a gc_thread_state_scheme gc_thread_env \<Rightarrow> 'a gc_conc \<Rightarrow> (bool \<times> 'a gc_conc) option" where
  "gc_thread_try_activate E c = do {
     (state, c) \<leftarrow> rd gc_state_loc c;
     let old_phase = (ucast (state AND GC_STATE_PHASE (gc_part E)) :: u8);
     let new_phase = (if GC_STATE_INACTIVE (gc_part E) \<noteq> ucast old_phase then old_phase
       else ucast (GC_STATE_INITIAL (gc_part E)));
     if new_phase \<noteq> old_phase then do {
       let new_state = (state AND NOT (GC_STATE_PHASE (gc_part E))) OR ucast new_phase;
       atomic_compare_and_set_uint state new_state gc_state_loc c }
     else Some (True, c) }"

definition gc_thread_try_set_gen :: "u32 \<Rightarrow> 'a gc_conc \<Rightarrow> (bool \<times> 'a gc_conc) option" where
  "gc_thread_try_set_gen gen c = do {
     (old, c) \<leftarrow> rd gc_next_gen_loc c;
     let old_gen = (ucast old :: u8);
     let new_gen = (ucast (if gen < ucast old_gen then ucast old_gen else gen) :: u8);
     if old_gen = new_gen then Some (True, c)
     else atomic_compare_and_set_uint (ucast old_gen) (ucast new_gen) gc_next_gen_loc c }"

definition not_result :: "('c \<Rightarrow> (bool \<times> 'c) option) \<Rightarrow> 'c \<Rightarrow> (bool \<times> 'c) option" where
  "not_result f c = do { (b, c) \<leftarrow> f c; Some (\<not> b, c) }"

definition gc_thread_activate ::
  "'a gc_thread_state_scheme gc_thread_env \<Rightarrow> u8 \<Rightarrow> 'a gc_conc \<Rightarrow> (unit \<times> 'a gc_conc) option" where
  "gc_thread_activate E gen c = do {
     (_, c) \<leftarrow> retry_until (not_result (gc_thread_try_activate E)) c;
     retry_until (not_result (gc_thread_try_set_gen (ucast gen))) c }"

subsection \<open>The local queue, and the list of shared arrays\<close>

definition gc_thread_enqueue :: "ptr \<Rightarrow> ptr \<Rightarrow> 'a gc_conc \<Rightarrow> (unit \<times> 'a gc_conc) option" where
  "gc_thread_enqueue closure obj c = do {
     (n, c) \<leftarrow> prd (gth_size_loc closure) c;
     (_, c) \<leftarrow> pwr (gth_size_loc closure) (n + 1) c;
     (head, c) \<leftarrow> prd (gth_head_loc closure) c;
     if head = NULL then do {
       (_, c) \<leftarrow> gc_header_list_ptr_set NULL obj c;
       (_, c) \<leftarrow> pwr (gth_head_loc closure) obj c;
       pwr (gth_tail_loc closure) obj c }
     else do {
       (tail, c) \<leftarrow> prd (gth_tail_loc closure) c;
       (_, c) \<leftarrow> gc_header_list_ptr_set obj tail c;
       (_, c) \<leftarrow> gc_header_list_ptr_set NULL obj c;
       pwr (gth_tail_loc closure) obj c } }"

definition gc_thread_dequeue :: "ptr \<Rightarrow> 'a gc_conc \<Rightarrow> (ptr \<times> 'a gc_conc) option" where
  "gc_thread_dequeue closure c = do {
     (out, c) \<leftarrow> prd (gth_head_loc closure) c;
     (n, c) \<leftarrow> prd (gth_size_loc closure) c;
     (_, c) \<leftarrow> pwr (gth_size_loc closure) (n - 1) c;
     (tail, c) \<leftarrow> prd (gth_tail_loc closure) c;
     if tail \<noteq> out then do {
       (next, c) \<leftarrow> gc_header_list_ptr out c;
       (_, c) \<leftarrow> pwr (gth_head_loc closure) next c;
       Some (out, c) }
     else do {
       (_, c) \<leftarrow> pwr (gth_tail_loc closure) NULL c;
       (_, c) \<leftarrow> pwr (gth_head_loc closure) NULL c;
       Some (out, c) } }"

definition gc_thread_array_shared :: "u32 \<Rightarrow> u32 \<Rightarrow> bool" where
  "gc_thread_array_shared num sz \<longleftrightarrow> GC_ARRAY_MIN_SIZE < num * sz \<and> GC_ARRAY_MIN_COUNT < num"

definition gc_thread_try_push_array :: "ptr \<Rightarrow> 'a gc_conc \<Rightarrow> (bool \<times> 'a gc_conc) option" where
  "gc_thread_try_push_array array c = do {
     (top, c) \<leftarrow> rd gc_array_list_loc c;
     (_, c) \<leftarrow> gc_header_list_ptr_set top array c;
     atomic_compare_and_set_ptr top array gc_array_list_loc c }"

definition gc_thread_push_array :: "ptr \<Rightarrow> 'a gc_conc \<Rightarrow> (unit \<times> 'a gc_conc) option" where
  "gc_thread_push_array array c = retry_until (gc_thread_try_push_array array) c"

subsection \<open>Sizes\<close>

definition gc_thread_obj_size :: "u32 \<Rightarrow> u32 \<Rightarrow> u32 \<Rightarrow> u32" where
  "gc_thread_obj_size nonptr_size normptrs weakptrs =
     nonptr_size + ((normptrs + weakptrs) * sizeof_gc_double_ptr_t)"

text \<open>\<open>((size - 1) & ~(CACHE_LINE_SIZE - 1)) + CACHE_LINE_SIZE\<close>\<close>

definition gc_line_align :: "u32 \<Rightarrow> u32" where
  "gc_line_align sz = ((sz - 1) AND NOT (32 - 1)) + 32"

definition gc_thread_aligned_normal_size :: "u32 \<Rightarrow> u32" where
  "gc_thread_aligned_normal_size sz = gc_line_align (sz + 32)"

definition gc_thread_array_bitmap_bits :: "u32 \<Rightarrow> u32" where
  "gc_thread_array_bitmap_bits num = ((num - 1) div GC_CLUSTER_SIZE) + 1"

definition gc_thread_array_bitmap_size :: "u32 \<Rightarrow> u32" where
  "gc_thread_array_bitmap_size num =
     (let bits = 4 * 8 + gc_thread_array_bitmap_bits num;
          out = ((bits - 1) AND NOT (256 - 1)) + 256
      in out div 8)"

definition gc_thread_aligned_array_size :: "u32 \<Rightarrow> u32 \<Rightarrow> u32" where
  "gc_thread_aligned_array_size num sz =
     (let header_size = sz * num + 32;
          bitmap_size = (if gc_thread_array_shared num sz
            then header_size + gc_thread_array_bitmap_size num else header_size + 32)
      in gc_line_align bitmap_size)"

definition gc_thread_array_header :: "ptr \<Rightarrow> u32 \<Rightarrow> u32 \<Rightarrow> ptr" where
  "gc_thread_array_header obj num sz =
     (let bitmap_size = (if gc_thread_array_shared num sz then gc_thread_array_bitmap_size num else 32)
      in obj + gc_line_align bitmap_size)"

record gen_count_t =
  gc_gen :: u8
  gc_count :: u8

text \<open>\<open>num\<close> is \<open>gc_num_generations\<close>; the sums are of integers, converted to bytes.\<close>

definition gc_thread_new_gen_count :: "u32 \<Rightarrow> u8 \<Rightarrow> u8 \<Rightarrow> u8 \<Rightarrow> gen_count_t" where
  "gc_thread_new_gen_count num oldgen gen count =
     (if gen = oldgen \<and> 0xff \<noteq> gen \<or> ucast gen \<noteq> num - 1 then
        (if count < gc_gen_promote then \<lparr>gc_gen = gen, gc_count = count + 1\<rparr>
         else \<lparr>gc_gen = gen + 1, gc_count = 0\<rparr>)
      else \<lparr>gc_gen = gen, gc_count = 0\<rparr>)"

definition gc_thread_add_obj :: "ptr \<Rightarrow> ptr \<Rightarrow> ptr \<Rightarrow> 'a gc_conc \<Rightarrow> (unit \<times> 'a gc_conc) option" where
  "gc_thread_add_obj closure type obj c = do {
     (cls, c) \<leftarrow> gc_typedesc_class type c;
     (nonptr_size, c) \<leftarrow> gc_typedesc_nonptr_size type c;
     (normptrs, c) \<leftarrow> gc_typedesc_normal_ptrs type c;
     (weakptrs, c) \<leftarrow> gc_typedesc_weak_ptrs type c;
     let sz = gc_thread_obj_size nonptr_size normptrs weakptrs;
     if GC_TYPEDESC_NORMAL = cls then gc_thread_enqueue closure obj c
     else do {
       (num, c) \<leftarrow> gc_header_array_len obj c;
       if \<not> gc_thread_array_shared num sz then gc_thread_enqueue closure obj c
       else gc_thread_push_array obj c } }"

subsection \<open>Claiming an object\<close>

text \<open>
  The parity of the number of collections says which pointer of a pair is in use, and
  whether zeros or ones mean claimed.
\<close>

definition gc_flipflop :: "'a gc_conc \<Rightarrow> (bool \<times> 'a gc_conc) option" where
  "gc_flipflop c = do { (n, c) \<leftarrow> rd gc_count_loc c; Some (odd n, c) }"

definition gc_claimed :: "bool \<Rightarrow> ptr" where "gc_claimed flipflop = (if flipflop then NOT 0 else 0)"
definition gc_unclaimed :: "bool \<Rightarrow> ptr" where "gc_unclaimed flipflop = (if flipflop then 0 else NOT 0)"

text \<open>\<open>srcptr[used_ptr]\<close> and \<open>dstptr[unused_ptr]\<close>\<close>

definition used_loc :: "bool \<Rightarrow> ptr \<Rightarrow> ('a slice_state_scheme, u32) loc" where
  "used_loc flipflop p = word_loc (p + 4 * (if flipflop then 0 else 1))"

definition unused_loc :: "bool \<Rightarrow> ptr \<Rightarrow> ('a slice_state_scheme, u32) loc" where
  "unused_loc flipflop p = word_loc (p + 4 * (if flipflop then 1 else 0))"

text \<open>The part of \<open>gc_thread_claim\<close> that initialises the copy.\<close>

definition gc_init_copy ::
  "u32 \<Rightarrow> ptr \<Rightarrow> u8 \<Rightarrow> gen_count_t \<Rightarrow> u8 \<Rightarrow> u32 \<Rightarrow> u32 \<Rightarrow> bool \<Rightarrow> ptr \<Rightarrow> ptr \<Rightarrow> 'a gc_conc \<Rightarrow>
   (unit \<times> 'a gc_conc) option" where
  "gc_init_copy cls type flags gc next_gen len obj_size flipflop alloc newobj c =
     (if GC_TYPEDESC_NORMAL = cls then
        gc_header_init_normal (gc_claimed flipflop) type flags (gc_gen gc) next_gen (gc_count gc) newobj c
      else do {
        (_, c) \<leftarrow> gc_header_init_array (gc_claimed flipflop) type flags (gc_gen gc) next_gen (gc_count gc) len newobj c;
        if gc_thread_array_shared len obj_size then
          gc_memset alloc (if flipflop then 0xff else 0) (gc_thread_array_bitmap_size len - 4) c
        else Some ((), c) })"

text \<open>
  The inner \<open>fwd_ptr\<close> of the first branch is computed and not used; that of the second
  hides the forwarding pointer of the object, and is compared in its place.
\<close>

definition gc_thread_claim ::
  "'a gc_thread_state_scheme gc_thread_env \<Rightarrow> ptr \<Rightarrow> ptr \<Rightarrow> u8 \<Rightarrow> bool \<Rightarrow> 'a gc_conc \<Rightarrow>
   (ptr \<times> 'a gc_conc) option" where
  "gc_thread_claim E closure obj max_gen copy c = do {
     (flipflop, c) \<leftarrow> gc_flipflop c;
     let claimed = gc_claimed flipflop;
     let unclaimed = gc_unclaimed flipflop;
     (fwd_ptr, c) \<leftarrow> gc_header_fwd_ptr obj c;
     (type, c) \<leftarrow> gc_header_type obj c;
     (cls, c) \<leftarrow> gc_typedesc_class type c;
     (nonptr_size, c) \<leftarrow> gc_typedesc_nonptr_size type c;
     (num_normptrs, c) \<leftarrow> gc_typedesc_normal_ptrs type c;
     (num_weakptrs, c) \<leftarrow> gc_typedesc_weak_ptrs type c;
     (len, c) \<leftarrow> (if GC_TYPEDESC_NORMAL = cls then Some (1, c) else gc_header_array_len obj c);
     (flags, c) \<leftarrow> gc_header_flags obj c;
     let obj_size = gc_thread_obj_size nonptr_size num_normptrs num_weakptrs;
     let raw_size = obj_size * len;
     let aligned_size = (if GC_TYPEDESC_NORMAL = cls then gc_thread_aligned_normal_size raw_size
       else gc_thread_aligned_array_size raw_size len);
     (curr, c) \<leftarrow> gc_header_curr_gen obj c;
     (next, c) \<leftarrow> gc_header_next_gen obj c;
     (count, c) \<leftarrow> gc_header_count obj c;
     let curr_gen = (ucast curr :: u8);
     let next_gen = (ucast next :: u8);
     let gc = gc_thread_new_gen_count (gc_num_generations (fst c)) curr_gen next_gen (ucast count);
     if curr_gen \<le> max_gen then
       (if unclaimed = fwd_ptr then do {
          (alloc, c) \<leftarrow> gc_allocator_gc_prealloc (gc_part E) (gth_allocators closure) aligned_size (ucast (gc_gen gc)) c;
          let newobj = (if GC_TYPEDESC_NORMAL = cls then alloc else gc_thread_array_header alloc len obj_size);
          (ok, c) \<leftarrow> gc_header_compare_and_set_fwd_ptr unclaimed newobj obj c;
          if ok then do {
            (_, c) \<leftarrow> gc_allocator_gc_postalloc (gth_allocators closure) aligned_size (ucast (gc_gen gc)) c;
            (_, c) \<leftarrow> gc_init_copy cls type flags gc next_gen len obj_size flipflop alloc newobj c;
            (_, c) \<leftarrow> gc_thread_add_obj closure type obj c;
            Some (newobj, c) }
          else gc_header_fwd_ptr obj c }
        else Some (fwd_ptr, c))
     else do {
       let fwd_ptr = (if \<not> copy then claimed XOR 1 else claimed);
       (_, c) \<leftarrow> (if unclaimed = fwd_ptr then do {
           (ok, c) \<leftarrow> gc_header_compare_and_set_fwd_ptr unclaimed claimed obj c;
           if ok then gc_thread_add_obj closure type obj c else Some ((), c) }
         else Some ((), c));
       Some (obj, c) } }"

subsection \<open>Copying\<close>

definition gc_thread_process_ptr ::
  "'a gc_thread_state_scheme gc_thread_env \<Rightarrow> ptr \<Rightarrow> ptr \<Rightarrow> ptr \<Rightarrow> u8 \<Rightarrow> bool \<Rightarrow> 'a gc_conc \<Rightarrow>
   (unit \<times> 'a gc_conc) option" where
  "gc_thread_process_ptr E closure srcptr dstptr max_gen do_weak c = do {
     (flipflop, c) \<leftarrow> gc_flipflop c;
     (src, c) \<leftarrow> rd (used_loc flipflop srcptr) c;
     (dst, c) \<leftarrow> rd (unused_loc flipflop dstptr) c;
     if src \<noteq> NULL then do {
       (p, c) \<leftarrow> gc_thread_claim E closure src max_gen do_weak c;
       wr (unused_loc flipflop dstptr) p c }
     else if dst \<noteq> NULL then wr (unused_loc flipflop dstptr) NULL c
     else Some ((), c) }"

text \<open>The forwarding pointer is read before the test of the pointer.\<close>

definition gc_thread_process_weak_ptr :: "ptr \<Rightarrow> ptr \<Rightarrow> bool \<Rightarrow> 'a gc_conc \<Rightarrow> (unit \<times> 'a gc_conc) option" where
  "gc_thread_process_weak_ptr srcptr dstptr do_weak c = do {
     (flipflop, c) \<leftarrow> gc_flipflop c;
     if do_weak then do {
       let unclaimed = (if flipflop then 0 else NOT 0);
       (src, c) \<leftarrow> rd (used_loc flipflop srcptr) c;
       (dst, c) \<leftarrow> rd (unused_loc flipflop dstptr) c;
       (fwd_ptr, c) \<leftarrow> gc_header_fwd_ptr src c;
       if src \<noteq> NULL then
         (if unclaimed \<noteq> fwd_ptr then
            (if dst \<noteq> fwd_ptr then wr (unused_loc flipflop dstptr) fwd_ptr c else Some ((), c))
          else if dst \<noteq> NULL then wr (unused_loc flipflop dstptr) NULL c
          else Some ((), c))
       else if dst \<noteq> NULL then wr (unused_loc flipflop dstptr) NULL c
       else Some ((), c) }
     else Some ((), c) }"

text \<open>\<open>dst_normptrs[i]\<close>, and the weak pointers that follow the normal ones.\<close>

definition normptr_at :: "ptr \<Rightarrow> u32 \<Rightarrow> nat \<Rightarrow> ptr" where
  "normptr_at base nonptr_size i = base + nonptr_size + 8 * of_nat i"

definition weakptr_at :: "ptr \<Rightarrow> u32 \<Rightarrow> u32 \<Rightarrow> nat \<Rightarrow> ptr" where
  "weakptr_at base nonptr_size num_normptrs i = base + nonptr_size + 8 * num_normptrs + 8 * of_nat i"

definition gc_thread_copy ::
  "'a gc_thread_state_scheme gc_thread_env \<Rightarrow> ptr \<Rightarrow> ptr \<Rightarrow> ptr \<Rightarrow> u32 \<Rightarrow> u32 \<Rightarrow> u32 \<Rightarrow> u8 \<Rightarrow> bool \<Rightarrow> bool \<Rightarrow> 'a gc_conc \<Rightarrow>
   (unit \<times> 'a gc_conc) option" where
  "gc_thread_copy E closure dst src nonptr_size num_normptrs num_weakptrs max_gen copied do_weak c = do {
     (flipflop, c) \<leftarrow> gc_flipflop c;
     (_, c) \<leftarrow> (if \<not> copied then do {
         (_, c) \<leftarrow> gc_memcpy dst src nonptr_size c;
         foreach (\<lambda>i. gc_thread_process_ptr E closure (normptr_at src nonptr_size i) (normptr_at dst nonptr_size i)
           max_gen do_weak) [0..<unat num_normptrs] c }
       else Some ((), c));
     if do_weak then
       (if copied then foreach (\<lambda>i. gc_thread_process_weak_ptr (weakptr_at src nonptr_size num_normptrs i)
            (weakptr_at dst nonptr_size num_normptrs i) do_weak) [0..<unat num_weakptrs] c
        else foreach (\<lambda>i. gc_thread_process_ptr E closure (weakptr_at src nonptr_size num_normptrs i)
            (weakptr_at dst nonptr_size num_normptrs i) max_gen do_weak) [0..<unat num_weakptrs] c)
     else Some ((), c) }"

definition gc_thread_copy_scalar_array :: "ptr \<Rightarrow> ptr \<Rightarrow> u32 \<Rightarrow> u32 \<Rightarrow> 'a gc_conc \<Rightarrow> (unit \<times> 'a gc_conc) option" where
  "gc_thread_copy_scalar_array dst src num sz c = gc_memcpy dst src (num * sz) c"

definition gc_thread_copy_array ::
  "'a gc_thread_state_scheme gc_thread_env \<Rightarrow> ptr \<Rightarrow> ptr \<Rightarrow> ptr \<Rightarrow> u32 \<Rightarrow> u32 \<Rightarrow> u32 \<Rightarrow> u32 \<Rightarrow> u8 \<Rightarrow> bool \<Rightarrow> bool \<Rightarrow>
   'a gc_conc \<Rightarrow> (unit \<times> 'a gc_conc) option" where
  "gc_thread_copy_array E closure dst src num nonptr_size normptrs weakptrs max_gen copied do_weak c = (
     let sz = gc_thread_obj_size nonptr_size normptrs weakptrs in
     if 0 \<noteq> normptrs \<or> 0 \<noteq> weakptrs then
       foreach (\<lambda>i. gc_thread_copy E closure (dst + sz * of_nat i) (src + sz * of_nat i)
         nonptr_size normptrs weakptrs max_gen copied do_weak) [0..<unat num] c
     else gc_thread_copy_scalar_array dst src num nonptr_size c)"

subsection \<open>Checking: copy again until both sides agree\<close>

text \<open>\<open>while(*dst != *src) *dst = *src;\<close>\<close>

partial_function (option) gc_copy_until ::
  "('s, 'v) loc \<Rightarrow> ('s, 'v) loc \<Rightarrow> 's conc \<Rightarrow> (unit \<times> 's conc) option" where
  "gc_copy_until dst src c = do {
     (d, c) \<leftarrow> rd dst c;
     (v, c) \<leftarrow> rd src c;
     if d \<noteq> v then do {
       (v, c) \<leftarrow> rd src c;
       (_, c) \<leftarrow> wr dst v c;
       gc_copy_until dst src c }
     else Some ((), c) }"

text \<open>The loop of \<open>gc_thread_check_ptr\<close>, which does not end when both pointers are NULL.\<close>

partial_function (option) gc_check_ptr_loop ::
  "'a gc_thread_state_scheme gc_thread_env \<Rightarrow> ptr \<Rightarrow> ('a gc_thread_state_scheme, ptr) loc \<Rightarrow>
   ('a gc_thread_state_scheme, ptr) loc \<Rightarrow> u8 \<Rightarrow> bool \<Rightarrow> 'a gc_conc \<Rightarrow> (unit \<times> 'a gc_conc) option" where
  "gc_check_ptr_loop E closure src_loc dst_loc max_gen do_weak c = do {
     (src, c) \<leftarrow> rd src_loc c;
     (dst, c) \<leftarrow> rd dst_loc c;
     if src \<noteq> NULL then do {
       (fwd_ptr, c) \<leftarrow> gc_header_fwd_ptr src c;
       if dst \<noteq> fwd_ptr then do {
         (p, c) \<leftarrow> gc_thread_claim E closure src max_gen do_weak c;
         (_, c) \<leftarrow> wr dst_loc p c;
         gc_check_ptr_loop E closure src_loc dst_loc max_gen do_weak c }
       else Some ((), c) }
     else if dst \<noteq> NULL then wr dst_loc NULL c
     else gc_check_ptr_loop E closure src_loc dst_loc max_gen do_weak c }"

definition gc_thread_check_ptr ::
  "'a gc_thread_state_scheme gc_thread_env \<Rightarrow> ptr \<Rightarrow> ptr \<Rightarrow> ptr \<Rightarrow> u8 \<Rightarrow> bool \<Rightarrow> 'a gc_conc \<Rightarrow>
   (unit \<times> 'a gc_conc) option" where
  "gc_thread_check_ptr E closure dstptr srcptr max_gen do_weak c = do {
     (flipflop, c) \<leftarrow> gc_flipflop c;
     gc_check_ptr_loop E closure (used_loc flipflop srcptr) (unused_loc flipflop dstptr) max_gen do_weak c }"

partial_function (option) gc_check_weak_loop ::
  "ptr \<Rightarrow> ('a gc_thread_state_scheme, ptr) loc \<Rightarrow> ('a gc_thread_state_scheme, ptr) loc \<Rightarrow> 'a gc_conc \<Rightarrow>
   (unit \<times> 'a gc_conc) option" where
  "gc_check_weak_loop unclaimed src_loc dst_loc c = do {
     (src, c) \<leftarrow> rd src_loc c;
     (dst, c) \<leftarrow> rd dst_loc c;
     (fwd_ptr, c) \<leftarrow> gc_header_fwd_ptr src c;
     if src \<noteq> NULL then
       (if unclaimed \<noteq> fwd_ptr then
          (if dst \<noteq> fwd_ptr then do {
             (_, c) \<leftarrow> wr dst_loc fwd_ptr c;
             gc_check_weak_loop unclaimed src_loc dst_loc c }
           else Some ((), c))
        else if dst \<noteq> NULL then do {
          (_, c) \<leftarrow> wr dst_loc NULL c;
          gc_check_weak_loop unclaimed src_loc dst_loc c }
        else Some ((), c))
     else if dst \<noteq> NULL then wr dst_loc NULL c
     else gc_check_weak_loop unclaimed src_loc dst_loc c }"

definition gc_thread_check_weak_ptr :: "ptr \<Rightarrow> ptr \<Rightarrow> 'a gc_conc \<Rightarrow> (unit \<times> 'a gc_conc) option" where
  "gc_thread_check_weak_ptr srcptr dstptr c = do {
     (flipflop, c) \<leftarrow> gc_flipflop c;
     gc_check_weak_loop (gc_unclaimed flipflop) (used_loc flipflop srcptr) (unused_loc flipflop dstptr) c }"

text \<open>
  The callers give \<open>gc_thread_check_weak_ptr\<close> the destination first, though its first
  parameter is the source.
\<close>

definition gc_thread_check ::
  "'a gc_thread_state_scheme gc_thread_env \<Rightarrow> ptr \<Rightarrow> ptr \<Rightarrow> ptr \<Rightarrow> u32 \<Rightarrow> u32 \<Rightarrow> u32 \<Rightarrow> u8 \<Rightarrow> bool \<Rightarrow> bool \<Rightarrow> 'a gc_conc \<Rightarrow>
   (unit \<times> 'a gc_conc) option" where
  "gc_thread_check E closure dst src nonptr_size num_normptrs num_weakptrs max_gen copied do_weak c = do {
     (_, c) \<leftarrow> (if \<not> copied then do {
         (_, c) \<leftarrow> foreach (\<lambda>i. gc_copy_until (byte_loc (dst + of_nat i)) (byte_loc (src + of_nat i)))
           [0..<unat nonptr_size] c;
         foreach (\<lambda>i. gc_thread_check_ptr E closure (normptr_at dst nonptr_size i) (normptr_at src nonptr_size i)
           max_gen do_weak) [0..<unat num_normptrs] c }
       else Some ((), c));
     if do_weak then
       (if copied then foreach (\<lambda>i. gc_thread_check_weak_ptr (weakptr_at dst nonptr_size num_normptrs i)
            (weakptr_at src nonptr_size num_normptrs i)) [0..<unat num_weakptrs] c
        else foreach (\<lambda>i. gc_thread_check_ptr E closure (weakptr_at dst nonptr_size num_normptrs i)
            (weakptr_at src nonptr_size num_normptrs i) max_gen do_weak) [0..<unat num_weakptrs] c)
     else Some ((), c) }"

definition gc_thread_check_scalar_array :: "ptr \<Rightarrow> ptr \<Rightarrow> u32 \<Rightarrow> u32 \<Rightarrow> 'a gc_conc \<Rightarrow> (unit \<times> 'a gc_conc) option" where
  "gc_thread_check_scalar_array dst src num sz c =
     foreach (\<lambda>i. gc_copy_until (byte_loc (dst + of_nat i)) (byte_loc (src + of_nat i))) [0..<unat (num * sz)] c"

definition gc_thread_check_array ::
  "'a gc_thread_state_scheme gc_thread_env \<Rightarrow> ptr \<Rightarrow> ptr \<Rightarrow> ptr \<Rightarrow> u32 \<Rightarrow> u32 \<Rightarrow> u32 \<Rightarrow> u32 \<Rightarrow> u8 \<Rightarrow> bool \<Rightarrow> bool \<Rightarrow>
   'a gc_conc \<Rightarrow> (unit \<times> 'a gc_conc) option" where
  "gc_thread_check_array E closure dst src num nonptr_size normptrs weakptrs max_gen copied do_weak c = (
     let sz = gc_thread_obj_size nonptr_size normptrs weakptrs in
     if 0 \<noteq> normptrs \<or> 0 \<noteq> weakptrs then
       foreach (\<lambda>i. gc_thread_check E closure (dst + sz * of_nat i) (src + sz * of_nat i)
         nonptr_size normptrs weakptrs max_gen copied do_weak) [0..<unat num] c
     else gc_thread_check_scalar_array dst src num nonptr_size c)"

subsection \<open>Objects that stay where they are\<close>

definition gc_thread_update ::
  "'a gc_thread_state_scheme gc_thread_env \<Rightarrow> ptr \<Rightarrow> ptr \<Rightarrow> u32 \<Rightarrow> u32 \<Rightarrow> u32 \<Rightarrow> u8 \<Rightarrow> bool \<Rightarrow> bool \<Rightarrow> 'a gc_conc \<Rightarrow>
   (unit \<times> 'a gc_conc) option" where
  "gc_thread_update E closure obj nonptr_size num_normptrs num_weakptrs max_gen copied do_weak c = do {
     (flipflop, c) \<leftarrow> gc_flipflop c;
     (_, c) \<leftarrow> (if \<not> copied then
         foreach (\<lambda>i. gc_thread_process_ptr E closure (normptr_at obj nonptr_size i) (normptr_at obj nonptr_size i)
           max_gen do_weak) [0..<unat num_normptrs] c
       else Some ((), c));
     if do_weak then
       (if copied then foreach (\<lambda>i. gc_thread_process_weak_ptr (weakptr_at obj nonptr_size num_normptrs i)
            (weakptr_at obj nonptr_size num_normptrs i) do_weak) [0..<unat num_weakptrs] c
        else foreach (\<lambda>i. gc_thread_process_ptr E closure (weakptr_at obj nonptr_size num_normptrs i)
            (weakptr_at obj nonptr_size num_normptrs i) max_gen do_weak) [0..<unat num_weakptrs] c)
     else Some ((), c) }"

definition gc_thread_update_array ::
  "'a gc_thread_state_scheme gc_thread_env \<Rightarrow> ptr \<Rightarrow> ptr \<Rightarrow> u32 \<Rightarrow> u32 \<Rightarrow> u32 \<Rightarrow> u32 \<Rightarrow> u8 \<Rightarrow> bool \<Rightarrow> bool \<Rightarrow>
   'a gc_conc \<Rightarrow> (unit \<times> 'a gc_conc) option" where
  "gc_thread_update_array E closure obj num nonptr_size normptrs weakptrs max_gen copied do_weak c = (
     let sz = gc_thread_obj_size nonptr_size normptrs weakptrs in
     if 0 \<noteq> normptrs \<or> 0 \<noteq> weakptrs then
       foreach (\<lambda>i. gc_thread_update E closure (obj + sz * of_nat i)
         nonptr_size normptrs weakptrs max_gen copied do_weak) [0..<unat num] c
     else Some ((), c))"

definition gc_thread_update_check ::
  "'a gc_thread_state_scheme gc_thread_env \<Rightarrow> ptr \<Rightarrow> ptr \<Rightarrow> u32 \<Rightarrow> u32 \<Rightarrow> u32 \<Rightarrow> u8 \<Rightarrow> bool \<Rightarrow> bool \<Rightarrow> 'a gc_conc \<Rightarrow>
   (unit \<times> 'a gc_conc) option" where
  "gc_thread_update_check E closure obj nonptr_size num_normptrs num_weakptrs max_gen copied do_weak c = do {
     (_, c) \<leftarrow> (if \<not> copied then
         foreach (\<lambda>i. gc_thread_check_ptr E closure (normptr_at obj nonptr_size i) (normptr_at obj nonptr_size i)
           max_gen do_weak) [0..<unat num_normptrs] c
       else Some ((), c));
     if do_weak then
       (if copied then foreach (\<lambda>i. gc_thread_check_weak_ptr (weakptr_at obj nonptr_size num_normptrs i)
            (weakptr_at obj nonptr_size num_normptrs i)) [0..<unat num_weakptrs] c
        else foreach (\<lambda>i. gc_thread_check_ptr E closure (weakptr_at obj nonptr_size num_normptrs i)
            (weakptr_at obj nonptr_size num_normptrs i) max_gen do_weak) [0..<unat num_weakptrs] c)
     else Some ((), c) }"

text \<open>It updates the elements again, and leaves out arrays of weak pointers only.\<close>

definition gc_thread_update_check_array ::
  "'a gc_thread_state_scheme gc_thread_env \<Rightarrow> ptr \<Rightarrow> ptr \<Rightarrow> u32 \<Rightarrow> u32 \<Rightarrow> u32 \<Rightarrow> u32 \<Rightarrow> u8 \<Rightarrow> bool \<Rightarrow> bool \<Rightarrow>
   'a gc_conc \<Rightarrow> (unit \<times> 'a gc_conc) option" where
  "gc_thread_update_check_array E closure obj num nonptr_size normptrs weakptrs max_gen copied do_weak c = (
     let sz = gc_thread_obj_size nonptr_size normptrs weakptrs in
     if 0 \<noteq> normptrs then
       foreach (\<lambda>i. gc_thread_update E closure (obj + sz * of_nat i)
         nonptr_size normptrs weakptrs max_gen copied do_weak) [0..<unat num] c
     else Some ((), c))"

subsection \<open>Processing an object\<close>

definition gc_thread_try_set_copied :: "ptr \<Rightarrow> 'a gc_conc \<Rightarrow> (bool \<times> 'a gc_conc) option" where
  "gc_thread_try_set_copied obj c = do {
     (old, c) \<leftarrow> gc_header_fwd_ptr obj c;
     let new = old XOR 1;
     gc_header_compare_and_set_fwd_ptr old new obj c }"

definition gc_thread_set_copied :: "ptr \<Rightarrow> 'a gc_conc \<Rightarrow> (unit \<times> 'a gc_conc) option" where
  "gc_thread_set_copied obj c = retry_until (gc_thread_try_set_copied obj) c"

text \<open>
  \<open>masked_claimed\<close> is \<open>claimed ^ 0x3\<close>. The length of an array that stays, and its mark, are
  looked for after the header.
\<close>

definition gc_thread_process ::
  "'a gc_thread_state_scheme gc_thread_env \<Rightarrow> ptr \<Rightarrow> ptr \<Rightarrow> u8 \<Rightarrow> bool \<Rightarrow> 'a gc_conc \<Rightarrow> (unit \<times> 'a gc_conc) option" where
  "gc_thread_process E closure src max_gen do_weak c = do {
     (flipflop, c) \<leftarrow> gc_flipflop c;
     (type, c) \<leftarrow> gc_header_type src c;
     (cls, c) \<leftarrow> gc_typedesc_class type c;
     (nonptr_size, c) \<leftarrow> gc_typedesc_nonptr_size type c;
     (num_normptrs, c) \<leftarrow> gc_typedesc_normal_ptrs type c;
     (num_weakptrs, c) \<leftarrow> gc_typedesc_weak_ptrs type c;
     (typeflags, c) \<leftarrow> gc_typedesc_flags type c;
     let const = typeflags AND GC_TYPEDESC_CONST \<noteq> 0;
     (raw_fwd_ptr, c) \<leftarrow> gc_header_fwd_ptr src c;
     let masked_fwd_ptr = raw_fwd_ptr AND NOT 3;
     let claimed = gc_claimed flipflop;
     let masked_claimed = claimed XOR 3;
     if masked_fwd_ptr \<noteq> masked_claimed then do {
       let copied = (raw_fwd_ptr AND 1 = 0);
       let dst = masked_fwd_ptr;
       let dst_data = dst + sizeof_gc_header_t;
       let src_data = src + sizeof_gc_header_t;
       (_, c) \<leftarrow> (if GC_TYPEDESC_NORMAL = cls then do {
           (_, c) \<leftarrow> gc_thread_copy E closure dst_data src_data nonptr_size num_normptrs num_weakptrs max_gen copied do_weak c;
           if \<not> const then
             gc_thread_check E closure dst_data src_data nonptr_size num_normptrs num_weakptrs max_gen copied do_weak c
           else Some ((), c) }
         else do {
           (len, c) \<leftarrow> gc_header_array_len src c;
           (_, c) \<leftarrow> gc_thread_copy_array E closure dst_data src_data len nonptr_size num_normptrs num_weakptrs
             max_gen copied do_weak c;
           if \<not> const then
             gc_thread_check_array E closure dst_data src_data len nonptr_size num_normptrs num_weakptrs
               max_gen copied do_weak c
           else Some ((), c) });
       if \<not> copied then gc_thread_set_copied src c else Some ((), c) }
     else do {
       let copied = (raw_fwd_ptr AND 1 = claimed AND 1);
       let obj = src + sizeof_gc_header_t;
       (_, c) \<leftarrow> (if GC_TYPEDESC_NORMAL = cls then do {
           (_, c) \<leftarrow> gc_thread_update E closure obj nonptr_size num_normptrs num_weakptrs max_gen copied do_weak c;
           if \<not> const then
             gc_thread_update_check E closure obj nonptr_size num_normptrs num_weakptrs max_gen copied do_weak c
           else Some ((), c) }
         else do {
           (len, c) \<leftarrow> gc_header_array_len obj c;
           (_, c) \<leftarrow> gc_thread_update_array E closure obj len nonptr_size num_normptrs num_weakptrs
             max_gen copied do_weak c;
           if \<not> const then
             gc_thread_update_check_array E closure obj len nonptr_size num_normptrs num_weakptrs
               max_gen copied do_weak c
           else Some ((), c) });
       if \<not> copied then gc_thread_set_copied obj c else Some ((), c) } }"

text \<open>All three counts of a cluster are the number of weak pointers.\<close>

definition gc_thread_process_cluster ::
  "'a gc_thread_state_scheme gc_thread_env \<Rightarrow> ptr \<Rightarrow> ptr \<Rightarrow> u32 \<Rightarrow> u8 \<Rightarrow> bool \<Rightarrow> 'a gc_conc \<Rightarrow>
   (unit \<times> 'a gc_conc) option" where
  "gc_thread_process_cluster E closure src index max_gen do_weak c = do {
     (flipflop, c) \<leftarrow> gc_flipflop c;
     (type, c) \<leftarrow> gc_header_type src c;
     (nonptr_size, c) \<leftarrow> gc_typedesc_weak_ptrs type c;
     (num_normptrs, c) \<leftarrow> gc_typedesc_weak_ptrs type c;
     (num_weakptrs, c) \<leftarrow> gc_typedesc_weak_ptrs type c;
     (typeflags, c) \<leftarrow> gc_typedesc_flags type c;
     let const = typeflags AND GC_TYPEDESC_CONST \<noteq> 0;
     let real_index = index * GC_CLUSTER_SIZE;
     let sz = gc_thread_obj_size nonptr_size num_normptrs num_weakptrs;
     let off = sz * real_index;
     (array_len, c) \<leftarrow> gc_header_array_len src c;
     let available = array_len - real_index;
     let num = (if GC_CLUSTER_SIZE < available then GC_CLUSTER_SIZE else available);
     (raw_fwd_ptr, c) \<leftarrow> gc_header_fwd_ptr src c;
     let masked_fwd_ptr = raw_fwd_ptr AND NOT 3;
     let claimed = gc_claimed flipflop;
     let masked_claimed = claimed XOR 3;
     if masked_fwd_ptr \<noteq> masked_claimed then do {
       let copied = (raw_fwd_ptr AND 1 = 0);
       let dst = masked_fwd_ptr;
       let dst_data = dst + sizeof_gc_header_t + off;
       let src_data = src + sizeof_gc_header_t + off;
       (_, c) \<leftarrow> gc_thread_copy_array E closure dst_data src_data num nonptr_size num_normptrs num_weakptrs
         max_gen copied do_weak c;
       (_, c) \<leftarrow> (if \<not> const then
           gc_thread_check_array E closure dst_data src_data num nonptr_size num_normptrs num_weakptrs
             max_gen copied do_weak c
         else Some ((), c));
       if \<not> copied then gc_thread_set_copied src c else Some ((), c) }
     else do {
       let copied = (raw_fwd_ptr AND 1 = claimed AND 1);
       let obj_data = src + sizeof_gc_header_t + off;
       (_, c) \<leftarrow> gc_thread_update_array E closure obj_data num nonptr_size num_normptrs num_weakptrs
         max_gen copied do_weak c;
       (_, c) \<leftarrow> (if \<not> const then
           gc_thread_update_check_array E closure obj_data array_len nonptr_size num_normptrs num_weakptrs
             max_gen copied do_weak c
         else Some ((), c));
       if \<not> copied then gc_thread_set_copied src c else Some ((), c) } }"

subsection \<open>Clusters of shared arrays, and of the global pointers\<close>

text \<open>
  The loop of \<open>gc_thread_try_claim_cluster\<close>. The allocation in the bitmap answers \<open>-1\<close>
  when it finds no bit and \<open>-2\<close> when it has to try again; the code takes them the other way.
\<close>

partial_function (option) gc_cluster_loop ::
  "'a gc_thread_state_scheme gc_thread_env \<Rightarrow> ptr \<Rightarrow> u8 \<Rightarrow> bool \<Rightarrow> bool \<Rightarrow> int \<Rightarrow> ptr \<Rightarrow> 'a gc_conc \<Rightarrow>
   (int \<times> 'a gc_conc) option" where
  "gc_cluster_loop E closure max_gen do_weak flipflop out array c =
     (if out \<noteq> - 1 \<or> array \<noteq> NULL then do {
        (num, c) \<leftarrow> gc_header_array_len array c;
        let bitmap_size = gc_thread_array_bitmap_size num;
        let bitmap_bits = gc_thread_array_bitmap_bits num;
        let bitmap = array - bitmap_size;
        (bitmap_index, c) \<leftarrow> atomic_bitmap_alloc (env_bsf E) (word_loc bitmap) bitmap_bits flipflop c;
        if 0 \<le> bitmap_index then do {
          (_, c) \<leftarrow> gc_thread_process_cluster E closure array (of_int bitmap_index) max_gen do_weak c;
          gc_cluster_loop E closure max_gen do_weak flipflop 1 array c }
        else if bitmap_index = - 1 then gc_cluster_loop E closure max_gen do_weak flipflop 0 array c
        else do {
          (new_array, c) \<leftarrow> gc_header_list_ptr array c;
          (ok, c) \<leftarrow> atomic_compare_and_set_ptr array new_array gc_array_list_loc c;
          if ok then gc_cluster_loop E closure max_gen do_weak flipflop out new_array c
          else gc_cluster_loop E closure max_gen do_weak flipflop 0 array c } }
      else Some (out, c))"

definition gc_thread_try_claim_cluster ::
  "'a gc_thread_state_scheme gc_thread_env \<Rightarrow> ptr \<Rightarrow> u8 \<Rightarrow> bool \<Rightarrow> 'a gc_conc \<Rightarrow> (int \<times> 'a gc_conc) option" where
  "gc_thread_try_claim_cluster E closure max_gen do_weak c = do {
     (flipflop, c) \<leftarrow> gc_flipflop c;
     (array, c) \<leftarrow> rd gc_array_list_loc c;
     gc_cluster_loop E closure max_gen do_weak flipflop (- 1) array c }"

text \<open>\<open>for(i = 1; res = try(); i++) backoff_delay(i); return 0 < res;\<close>\<close>

definition while_nonzero :: "('c \<Rightarrow> (int \<times> 'c) option) \<Rightarrow> 'c \<Rightarrow> (int \<times> 'c) option" where
  "while_nonzero try = retry (\<lambda>c. do {
     (res, c) \<leftarrow> try c;
     Some (if res = 0 then Some res else None, c) })"

definition gc_thread_claim_cluster ::
  "'a gc_thread_state_scheme gc_thread_env \<Rightarrow> ptr \<Rightarrow> u8 \<Rightarrow> bool \<Rightarrow> 'a gc_conc \<Rightarrow> (bool \<times> 'a gc_conc) option" where
  "gc_thread_claim_cluster E closure max_gen do_weak c = do {
     (res, c) \<leftarrow> while_nonzero (gc_thread_try_claim_cluster E closure max_gen do_weak) c;
     Some (0 < res, c) }"

text \<open>\<open>i < real_index + 16 && i < gc_global_ptr_count\<close>, and \<open>(*gc_global_ptrs)[i]\<close>.\<close>

definition global_ptr_loc :: "'s gc_thread_env \<Rightarrow> ('a slice_state_scheme, ptr) loc" where
  "global_ptr_loc E = word_loc (gc_global_ptrs E)"

definition gc_thread_process_globals ::
  "'a gc_thread_state_scheme gc_thread_env \<Rightarrow> ptr \<Rightarrow> u32 \<Rightarrow> u8 \<Rightarrow> bool \<Rightarrow> 'a gc_conc \<Rightarrow> (unit \<times> 'a gc_conc) option" where
  "gc_thread_process_globals E closure index max_gen do_weak c = do {
     (flipflop, c) \<leftarrow> gc_flipflop c;
     let real_index = index * 16;
     foreach (\<lambda>i c. do {
       (base, c) \<leftarrow> prd (global_ptr_loc E) c;
       let p = base + 8 * i;
       (_, c) \<leftarrow> gc_thread_process_ptr E closure p p max_gen do_weak c;
       gc_thread_check_ptr E closure p p max_gen do_weak c })
       (takeWhile (\<lambda>i. i < real_index + 16 \<and> i < gc_global_ptr_count E) (map (\<lambda>k. real_index + of_nat k) [0..<17])) c }"

definition gc_thread_try_claim_globals ::
  "'a gc_thread_state_scheme gc_thread_env \<Rightarrow> ptr \<Rightarrow> u8 \<Rightarrow> bool \<Rightarrow> 'a gc_conc \<Rightarrow> (int \<times> 'a gc_conc) option" where
  "gc_thread_try_claim_globals E closure max_gen do_weak c =
     (if 0 \<noteq> gc_global_ptr_count E then do {
        (flipflop, c) \<leftarrow> gc_flipflop c;
        let bitmap_bits = gc_thread_array_bitmap_bits (gc_global_ptr_count E);
        (bitmap, c) \<leftarrow> prd (global_loc gc_global_ptr_bitmap gc_global_ptr_bitmap_update) c;
        (bitmap_index, c) \<leftarrow> atomic_bitmap_alloc (env_bsf E) (word_loc bitmap) bitmap_bits flipflop c;
        if 0 \<le> bitmap_index then do {
          (_, c) \<leftarrow> gc_thread_process_globals E closure (of_int bitmap_index) max_gen do_weak c;
          Some (1, c) }
        else if bitmap_index = - 1 then Some (0, c)
        else Some (- 1, c) }
      else Some (- 1, c))"

definition gc_thread_claim_globals ::
  "'a gc_thread_state_scheme gc_thread_env \<Rightarrow> ptr \<Rightarrow> u8 \<Rightarrow> bool \<Rightarrow> 'a gc_conc \<Rightarrow> (bool \<times> 'a gc_conc) option" where
  "gc_thread_claim_globals E closure max_gen do_weak c = do {
     (res, c) \<leftarrow> while_nonzero (gc_thread_try_claim_globals E closure max_gen do_weak) c;
     Some (0 < res, c) }"

end
