(* ===== verification/Memory_Start.thy ===== *)
theory Memory_Start
  imports Malloc GC_Thread
begin

unbundle bit_operations_syntax

section \<open>Starting the memory manager (\<open>src/mm/mm.c\<close>)\<close>

text \<open>
  The parts of the memory manager in the order they start: the slices, a slice for the
  static data of the runtime, then \<open>malloc\<close> and the collector in it. The second half of
  the file is not compiled. A call of \<open>exit\<close> is \<open>None\<close>.
\<close>

record mm_stat_t =
  mm_total_limit :: u32
  mm_gc_limit :: u32
  mm_malloc_limit :: u32
  mm_slice_size :: u32
  mm_num_generations :: u32

definition mm_request :: "'s gc_thread_env \<Rightarrow> mm_stat_t \<Rightarrow> cc_stat_t \<Rightarrow> u32" where
  "mm_request E mm cc =
     (let malloc_request = mm_malloc_request (cc_num_executors cc);
          gc_request = gc_thread_request E (cc_num_executors cc) (mm_num_generations mm)
      in malloc_request + gc_request)"

text \<open>
  The model keeps the records of the object queue in maps of their own beside \<open>words\<close>. A mapping of zeros
  is read as those records too: this step gives every address of it a zero record of each type, with room
  for \<open>execs\<close> lists in an allocator. It stands for no code, only for the change of the type at which the
  mapped bytes are read.
\<close>

definition zero_records :: "u32 \<Rightarrow> ptr \<Rightarrow> u32 \<Rightarrow> 'a thread_queue_state_scheme \<Rightarrow> 'a thread_queue_state_scheme" where
  "zero_records execs p sz s = s\<lparr>
     tq_nodes := (\<lambda>a. if a - p < sz then Some \<lparr>lfn_next = NULL, lfn_data = NULL\<rparr> else tq_nodes s a),
     tq_queues := (\<lambda>a. if a - p < sz then Some \<lparr>lf_allocator = NULL, lf_head = NULL, lf_tail = NULL, lf_hptrs = []\<rparr>
       else tq_queues s a),
     tq_allocs := (\<lambda>a. if a - p < sz then Some \<lparr>qna_shared_list = NULL, qna_count = 0,
         qna_lists = replicate (unat execs) \<lparr>nl_list = NULL, nl_count = 0\<rparr>\<rparr>
       else tq_allocs s a)\<rparr>"

definition mm_start ::
  "'a gc_thread_state_scheme gc_thread_env \<Rightarrow> ptr \<Rightarrow> mm_stat_t \<Rightarrow> cc_stat_t \<Rightarrow> u32 \<Rightarrow> 'a gc_conc \<Rightarrow> (ptr \<times> 'a gc_conc) option" where
  "mm_start E slice_tab mm cc sz c = do {
     let align_request = (if sz < slice_min_size then slice_min_size else sz);
     (_, c) \<leftarrow> slice_init slice_tab (Memory_Start.mm_total_limit mm) (Memory_Start.mm_slice_size mm)
       (Memory_Start.mm_malloc_limit mm) (Memory_Start.mm_gc_limit mm) c;
     (static_data, c) \<leftarrow> slice_alloc_in (gc_part E) SLICE_TYPE_STATIC SLICE_PROT_RWX align_request c;
     if static_data \<noteq> NULL then do {
       (mem, c) \<leftarrow> prd (s_ptr_loc static_data) c;
       let c = (zero_records (cc_num_executors cc) mem align_request (fst c), snd c);
       (p, c) \<leftarrow> mm_malloc_init (gc_part E) (cc_num_executors cc) mem c;
       (out, c) \<leftarrow> gc_thread_init E (cc_num_executors cc) (mm_num_generations mm) p c;
       Some (out, c) }
     else None }"

lemma malloc_init_end: "mm_malloc_init E execs mem c = Some (out, d) \<Longrightarrow> out = mem + mm_malloc_request execs"
  by (auto simp: mm_malloc_init_def mm_malloc_request_def Let_def add.assoc split: bind_splits)

lemma object_queue_end: "lf_object_queue_init mem num execs c = Some (out, d) \<Longrightarrow> out = mem + lf_object_queue_request num execs"
  by (auto simp: lf_object_queue_init_def lf_object_queue_request_def Let_def add.assoc add.left_commute algebra_simps
      simp del: foreach.simps split: bind_splits if_splits)

lemma gc_init_end:
  assumes "gc_thread_init E execs gens mem c = Some (out, d)"
  shows "out = mem + gc_thread_request E execs gens"
  using assms by (auto simp: gc_thread_init_def gc_thread_request_def Let_def mult.commute add.assoc
      dest!: object_queue_end split: bind_splits)

text \<open>
  The static data that \<open>malloc\<close> and the collector lay out end where
  they have asked for: what each initialisation returns is its memory plus its request.
\<close>

theorem static_layout:
  "map_option fst (mm_malloc_init F execs mem c) \<in> {None, Some (mem + mm_malloc_request execs)} \<and>
   map_option fst (gc_thread_init E execs gens mem d) \<in> {None, Some (mem + gc_thread_request E execs gens)}"
  using malloc_init_end [of F execs mem c] gc_init_end [of E execs gens mem d]
  by (cases "mm_malloc_init F execs mem c"; cases "gc_thread_init E execs gens mem d"; auto)

end
