(* ===== verification/Frame.thy ===== *)
theory Frame
  imports Prelude
begin

section \<open>What a routine leaves alone\<close>

text \<open>
  \<open>leaves I m\<close>: if the routine returns, it returns in a state with \<open>I\<close>. Where \<open>I\<close> says that the
  state differs from the first one in certain fields only, this is a frame condition; it is shown
  by following the text of the routine with the rules of this theory, without the addresses and
  the loop invariants that returning depends on.
\<close>

definition leaves :: "('c \<Rightarrow> bool) \<Rightarrow> ('a \<times> 'c) option \<Rightarrow> bool" where
  "leaves I m \<longleftrightarrow> (\<forall>a c. m = Some (a, c) \<longrightarrow> I c)"

lemma leavesD: "leaves I m \<Longrightarrow> m = Some (a, c) \<Longrightarrow> I c"
  by (simp add: leaves_def)

lemma returns_leaves: "returns m Q \<Longrightarrow> leaves I m \<Longrightarrow> returns m (\<lambda>a c. Q a c \<and> I c)"
  by (auto simp: leaves_def returns_ex)

named_theorems leave_rules

lemma leaves_Some [leave_rules]: "I c \<Longrightarrow> leaves I (Some (a, c))"
  by (simp add: leaves_def)

lemma leaves_None [leave_rules]: "leaves I None"
  by (simp add: leaves_def)

lemma leaves_bind [leave_rules]:
  "leaves I m \<Longrightarrow> (\<And>a c. I c \<Longrightarrow> leaves I (f (a, c))) \<Longrightarrow> leaves I (m \<bind> f)"
  by (cases m) (auto simp: leaves_def)

lemma leaves_case [leave_rules]: "leaves I (f a c) \<Longrightarrow> leaves I (case (a, c) of (a, c) \<Rightarrow> f a c)"
  by simp

lemma leaves_if [leave_rules]:
  "(b \<Longrightarrow> leaves I m) \<Longrightarrow> (\<not> b \<Longrightarrow> leaves I n) \<Longrightarrow> leaves I (if b then m else n)"
  by simp

lemma leaves_pwr [leave_rules]: "I (store l v (fst c), snd c) \<Longrightarrow> leaves I (pwr l v c)"
  by (auto simp: leaves_def pwr_def split: option.splits)

lemma leaves_wr [leave_rules]:
  "I (store l v (fst (interfere c)), snd (interfere c)) \<Longrightarrow> leaves I (wr l v c)"
  by (auto simp: leaves_def wr_def Let_def split: option.splits)

lemma leaves_foreach [leave_rules]:
  "(\<And>x c. I c \<Longrightarrow> leaves I (f x c)) \<Longrightarrow> I c \<Longrightarrow> leaves I (foreach f xs c)"
proof (induction xs arbitrary: c)
  case (Cons x xs)
  then show ?case by (auto intro!: leaves_bind)
qed (simp add: leaves_def)

end
