(* ===== verification/Memory_Serve.thy ===== *)
theory Memory_Serve
  imports Malloc_Start Memory_Start Frame
begin

unbundle bit_operations_syntax

section \<open>From the start of the memory manager to blocks\<close>

text \<open>
  The composition of the parts: after \<open>mm_start\<close> has mapped the static data, started \<open>malloc\<close> and
  the collector in it, the first request of any size class maps a superblock and its descriptor, and
  from then on requests and releases of that class act on the stack of its blocks.
\<close>

subsection \<open>The collector leaves \<open>malloc\<close> alone\<close>

text \<open>What \<open>malloc\<close> and the slices depend on; the mapped words may hold other values.\<close>

definition same_malloc :: "'a malloc_state_scheme \<Rightarrow> 'a malloc_state_scheme \<Rightarrow> bool" where
  "same_malloc s t \<longleftrightarrow> (\<forall>a. words t a \<noteq> None \<longleftrightarrow> words s a \<noteq> None) \<and> os_log t = os_log s \<and>
     slices t = slices s \<and> slice_free_list t = slice_free_list s \<and>
     total_limit t = total_limit s \<and> malloc_limit t = malloc_limit s \<and>
     qnodes t = qnodes s \<and> queues t = queues s \<and> lf_block_queue_hptrs t = lf_block_queue_hptrs s \<and>
     lf_block_queue_hptr_threshold t = lf_block_queue_hptr_threshold s \<and> lf_block_queue_nodes t = lf_block_queue_nodes s \<and>
     descs t = descs s \<and> procheaps t = procheaps s \<and> malloc_sizeclasses t = malloc_sizeclasses s \<and>
     malloc_desc_avail t = malloc_desc_avail s \<and> malloc_procheaps t = malloc_procheaps s"

lemma same_malloc_refl: "same_malloc s s"
  by (simp add: same_malloc_def)

lemma queue_writes_frame:
  fixes c :: "'a thread_queue_state_scheme conc"
  assumes "snd c = [] \<and> same_malloc s (fst c)" (is "?I c")
  shows "leaves ?I (pwr (tn_next_loc p) v c)" "leaves ?I (pwr (tn_data_loc p) v c)"
    "leaves ?I (pwr (nl_count_loc p k) w c)" "leaves ?I (pwr (nl_list_loc p k) v c)"
    "leaves ?I (pwr (tq_shared_loc p) v c)" "leaves ?I (pwr (tq_count_loc p) w c)"
    "leaves ?I (pwr (tq_head_loc p) v c)" "leaves ?I (pwr (tq_tail_loc p) v c)"
    "leaves ?I (pwr (tq_alloc_loc p) v c)"
    "leaves ?I (pwr (field_loc tq_queues tq_queues_update lf_hptrs lf_hptrs_update p) hs c)"
    "leaves ?I (pwr (global_loc lf_thread_queue_hptrs lf_thread_queue_hptrs_update) w c)"
    "leaves ?I (pwr (global_loc lf_thread_queue_hptr_threshold lf_thread_queue_hptr_threshold_update) w c)"
  using assms by (intro leaves_pwr; simp add: same_malloc_def elem_loc_def)+

lemma queue_init_frame:
  fixes s :: "'a thread_queue_state_scheme"
  shows "leaves (\<lambda>c. snd c = [] \<and> same_malloc s (fst c)) (lf_object_queue_init mem num execs (s, []))"
  unfolding object_queue_init_same lf_thread_queue_init_def Let_def
  by (intro leaves_if leaves_bind leaves_case leaves_foreach leaves_Some leaves_None queue_writes_frame;
      (assumption | simp add: same_malloc_refl))

lemma same_malloc_trans: "same_malloc s t \<Longrightarrow> same_malloc t u \<Longrightarrow> same_malloc s u"
  by (simp add: same_malloc_def)

lemma memset_frame:
  fixes s :: "'a malloc_state_scheme"
  assumes "\<forall>i < unat n. (dst + of_nat i) AND NOT 3 \<noteq> NULL \<and> words s ((dst + of_nat i) AND NOT 3) \<noteq> None"
  shows "\<exists>w. gc_memset dst v n (s, []) = Some ((), (s\<lparr>words := w\<rparr>, [])) \<and> (\<forall>a. w a \<noteq> None \<longleftrightarrow> words s a \<noteq> None)"
proof -
  let ?P = "\<lambda>i c. \<exists>w. c = (s\<lparr>words := w\<rparr>, []) \<and> (\<forall>a. w a \<noteq> None \<longleftrightarrow> words s a \<noteq> None)"
  have "returns (gc_memset dst v n (s, [])) (\<lambda>_ c. ?P (unat n) c)"
    unfolding gc_memset_def
  proof (rule foreach_rule [where P = ?P])
    fix i and c :: "'a malloc_state_scheme conc"
    assume i: "i < unat n" and "?P i c"
    then obtain w where w: "c = (s\<lparr>words := w\<rparr>, [])" "\<forall>a. w a \<noteq> None \<longleftrightarrow> words s a \<noteq> None" by blast
    let ?a = "(dst + of_nat i) AND NOT 3"
    have "?a \<noteq> NULL" "w ?a \<noteq> None" using assms i w(2) by blast+
    then show "returns (pwr (byte_loc (dst + of_nat i)) v c) (\<lambda>_ c. ?P (Suc i) c)"
      using w by (simp add: wp byte_loc_def Let_def) (rule exI, rule conjI, rule refl, auto)
  qed (auto intro: exI [of _ "words s"])
  then show ?thesis by (auto simp: returns_ex)
qed

text \<open>Starting the collector in memory that is mapped returns the end of what it has asked for.\<close>

lemma gc_init_frame:
  fixes s :: "'a gc_thread_state_scheme"
  assumes q: "tq_memory s mem (execs * 64) execs"
    and bm: "bitmap = mem + lf_object_queue_request (64 * execs) execs"
    and mapped: "\<forall>i < unat (global_bitmap_size (gc_global_ptr_count E)).
      (bitmap + of_nat i) AND NOT 3 \<noteq> NULL \<and> words s ((bitmap + of_nat i) AND NOT 3) \<noteq> None"
  shows "\<exists>t. gc_thread_init E execs gens mem (s, []) = Some (mem + gc_thread_request E execs gens, (t, [])) \<and> same_malloc s t"
proof -
  from returns_leaves [OF init_ready [OF q, of "[]"], folded object_queue_init_same, OF queue_init_frame]
  obtain r u where u: "lf_object_queue_init mem (execs * 64) execs (s, []) = Some (r, (u, []))" "same_malloc s u"
    by (auto simp: returns_ex)
  have r: "r = bitmap" using object_queue_end [OF u(1)] bm by (simp add: mult.commute)
  let ?b = "\<lparr>b_max = execs, b_count = 0\<rparr>"
  let ?u = "u\<lparr>gc_thread_initial_barrier_value := ?b, gc_thread_middle_barrier_value := ?b, gc_thread_final_barrier_value := ?b,
    gc_thread_data_index := 0, gc_thread_count := execs, gc_workshare := mem, gc_global_ptr_bitmap := bitmap\<rparr>"
  have keep: "same_malloc s ?u" using u(2) by (simp add: same_malloc_def)
  then have "\<forall>i < unat (global_bitmap_size (gc_global_ptr_count E)).
      (bitmap + of_nat i) AND NOT 3 \<noteq> NULL \<and> words ?u ((bitmap + of_nat i) AND NOT 3) \<noteq> None"
    using mapped unfolding same_malloc_def by blast
  from memset_frame [OF this] obtain w where
    w: "gc_memset bitmap 0 (global_bitmap_size (gc_global_ptr_count E)) (?u, []) = Some ((), (?u\<lparr>words := w\<rparr>, []))"
      "\<forall>a. w a \<noteq> None \<longleftrightarrow> words ?u a \<noteq> None" by blast
  have "gc_thread_init E execs gens mem (s, []) =
      Some (bitmap + global_bitmap_size (gc_global_ptr_count E), (?u\<lparr>words := w\<rparr>, []))"
    using w(1) by (simp add: gc_thread_init_def u(1) r Let_def os_thread_barrier_init_def pwr_def wr_def)
  moreover have "same_malloc s (?u\<lparr>words := w\<rparr>)"
    using keep w(2) by (simp add: same_malloc_def)
  ultimately show ?thesis by (simp add: bm gc_thread_request_def Let_def add.assoc)
qed

lemma queues_up_same:
  fixes t u :: "'a malloc_state_scheme"
  assumes up: "queues_up execs mem p ss s j t" and k: "same_malloc t u"
  shows "queues_up execs mem p ss s j u"
proof -
  have w: "words u a \<noteq> None" if "words t a \<noteq> None" for a using k that by (simp add: same_malloc_def)
  have "slice_free_is u ss" if "slice_free_is t ss"
    using that k slice_free_is_cong [of u t ss] by (simp add: same_malloc_def)
  then have "unspent ss s t \<longrightarrow> unspent ss s u" using k by (simp add: unspent_def same_malloc_def)
  moreover have "stack_is bq_nodes_loc bn_next_loc u xs" if st: "stack_is bq_nodes_loc bn_next_loc t xs" for xs
  proof -
    have c: "chain (bnext t) (lf_block_queue_nodes t) xs NULL" using st by (simp only: free_is_bnext)
    have "bnext t x = bnext u x" if "x \<in> set xs" for x
      using chain_dom [OF c that] w [of x] k by (auto simp: bnext_def same_malloc_def split: if_splits)
    then have "chain (bnext u) (lf_block_queue_nodes t) xs NULL" using c chain_cong [of xs "bnext t" "bnext u"] by blast
    then show ?thesis using k by (simp add: free_is_bnext same_malloc_def)
  qed
  moreover have "new_queue q f execs u" if "new_queue q f execs t" for q f
    using that w [of q] w [of f] k unfolding new_queue_def same_malloc_def by simp
  ultimately show ?thesis using up k w unfolding queues_up_def same_malloc_def by simp
qed

lemma queues_up_unspent:
  "queues_up execs mem p ss s j t \<Longrightarrow> unspent ss s t \<and> (\<forall>a. words s a \<noteq> None \<longrightarrow> words t a \<noteq> None) \<and>
    (\<forall>a. words t a \<noteq> None \<longrightarrow> words s a \<noteq> None \<or> a - p < 0x10000)"
  by (simp add: queues_up_def)

subsection \<open>The first request\<close>

text \<open>Dequeueing from an empty queue of blocks changes hazard pointers only.\<close>

lemma dequeue_empty_frame:
  assumes "bq_holds fifo exec s k []"
  shows "\<exists>q. lf_block_queue_dequeue fifo exec (s, []) = Some (NULL, (s\<lparr>queues := q\<rparr>, []))"
proof -
  obtain free rl sent nodes where ok: "bq_ok s fifo exec free rl sent nodes []"
    using assms by (auto simp: bq_holds_def)
  then have "nodes = []" by (auto simp: bq_ok_def ms_queue_def)
  then have lv: "bq_live fifo exec s" and q: "bq_nodes_are s fifo sent [] []"
    using ok by (auto simp: bq_ok_def bq_pool_def retired_def)
  show ?thesis
    unfolding lf_block_queue_dequeue_def lf_block_queue_try_dequeue_ms retry_valid_def retry.simps [of _ "(s, [])"]
      bq_ms.attempt_dequeue_empty [OF q lv]
    by (simp add: bhp_loc_def) blast
qed

lemma no_active:
  assumes "heap \<noteq> NULL" "words s heap \<noteq> None" "ph_active (procheaps s heap) = 0"
  shows "malloc_from_active E mn heap exec (s, []) = Some (NULL, (s, []))"
  using assms by (auto simp: malloc_from_active_def reserve_from_active_def retry.simps atomic_cas_defs rd_def Let_def
      active_get_ptr_def)

lemma no_partial:
  assumes "heap \<noteq> NULL" "words s heap \<noteq> None" "procheaps s heap = empty_heap k" "k < length (malloc_sizeclasses s)"
    and "bq_holds (sc_partial (malloc_sizeclasses s ! k)) exec s j []"
  shows "\<exists>q. malloc_from_partial E mn heap exec (s, []) = Some (NULL, (s\<lparr>queues := q\<rparr>, []))"
proof -
  obtain q where q: "lf_block_queue_dequeue (sc_partial (malloc_sizeclasses s ! k)) exec (s, []) = Some (NULL, (s\<lparr>queues := q\<rparr>, []))"
    using dequeue_empty_frame [OF assms(5)] by blast
  have "heap_get_partial heap exec (s, []) = Some (NULL, (s\<lparr>queues := q\<rparr>, []))"
    using assms(1-4) q by (auto simp: heap_get_partial_def retry.simps rd_def prd_def heap_queue_def empty_heap_def Let_def)
  then have "malloc_from_partial E mn heap exec (s, []) = Some (NULL, (s\<lparr>queues := q\<rparr>, []))"
    by (simp add: malloc_from_partial_def claim_partial.simps)
  then show ?thesis by blast
qed

text \<open>
  What is mapped after the calls in a log, the last one first: every mapping that was granted, less what was
  unmapped. A call is granted by the answer \<open>m\<close> that the system gives to it after the earlier ones;
  \<open>- 1\<close> is a refusal, which it may always give. What it grants is a page inside of the address space, not at
  NULL, where nothing is mapped yet: neither by an earlier call, nor by the image \<open>I\<close> that the program started
  with. No more than that is documented of \<open>mmap\<close>, and no more is assumed.
\<close>

fun mapped :: "(os_call list \<Rightarrow> ptr) \<Rightarrow> os_call list \<Rightarrow> ptr \<Rightarrow> bool" where
  "mapped m [] a = False"
| "mapped m (k # L) a = (case k of
     Mmap sz prot \<Rightarrow> m (k # L) \<noteq> - 1 \<and> a - m (k # L) < sz \<or> mapped m L a
   | Munmap p sz \<Rightarrow> mapped m L a \<and> \<not> a - p < sz
   | _ \<Rightarrow> mapped m L a)"

definition mmap_documented :: "(os_call list \<Rightarrow> ptr) \<Rightarrow> (ptr \<Rightarrow> bool) \<Rightarrow> bool" where
  "mmap_documented m I \<longleftrightarrow> (\<forall>sz prot L. let p = m (Mmap sz prot # L) in p \<noteq> - 1 \<longrightarrow>
     p \<noteq> NULL \<and> p AND mask 12 = 0 \<and> unat p + unat sz < 2 ^ 32 \<and> (\<forall>a. a - p < sz \<longrightarrow> \<not> I a \<and> \<not> mapped m L a))"

text \<open>A mapping that is granted, and one that is mapped after it.\<close>

lemma granted_at:
  assumes "mmap_documented m I" "m (map_call sz # os_log s) \<noteq> - 1" "p = mapped_at m sz SLICE_PROT_RWX s"
  shows "p = m (map_call sz # os_log s)" "p \<noteq> NULL" "p AND mask 12 = 0" "unat p + unat sz < 2 ^ 32"
    "a - p < sz \<Longrightarrow> \<not> I a \<and> \<not> mapped m (os_log s) a"
proof -
  show p: "p = m (map_call sz # os_log s)" using assms(2,3) by (simp add: mapped_at_def map_call_def)
  then show "p \<noteq> NULL" "p AND mask 12 = 0" "unat p + unat sz < 2 ^ 32" "a - p < sz \<Longrightarrow> \<not> I a \<and> \<not> mapped m (os_log s) a"
    using assms(1,2) by (auto simp: mmap_documented_def map_call_def Let_def)
qed

text \<open>A memory of which every word is explained by the image and the calls.\<close>

definition explained :: "(os_call list \<Rightarrow> ptr) \<Rightarrow> (ptr \<Rightarrow> bool) \<Rightarrow> 'a slice_state_scheme \<Rightarrow> bool" where
  "explained m I s \<longleftrightarrow> (\<forall>a. words s a \<noteq> None \<longrightarrow> I a \<or> mapped m (os_log s) a)"

lemma explained_map:
  assumes "explained m I s" "os_log t = map_call sz # os_log s" "m (map_call sz # os_log s) \<noteq> - 1"
    and "\<forall>a. words t a \<noteq> None \<longrightarrow> words s a \<noteq> None \<or> a - m (map_call sz # os_log s) < sz"
  shows "explained m I t"
  unfolding explained_def
proof (intro allI impI)
  fix a assume "words t a \<noteq> None"
  then have "words s a \<noteq> None \<or> a - m (map_call sz # os_log s) < sz" using assms(4) by blast
  moreover have "words s a \<noteq> None \<Longrightarrow> I a \<or> mapped m (os_log s) a" using assms(1) by (simp add: explained_def)
  moreover have "mapped m (os_log t) a \<longleftrightarrow> a - m (map_call sz # os_log s) < sz \<or> mapped m (os_log s) a"
    using assms(3) by (simp add: assms(2) map_call_def)
  ultimately show "I a \<or> mapped m (os_log t) a" by blast
qed

lemma unat_mask: "unat (w AND mask n) = unat w mod 2 ^ n" for w :: u32
  by (simp only: take_bit_eq_mask [symmetric] unsigned_take_bit_eq) (simp only: take_bit_eq_mod)

lemma page_desc_aligned:
  assumes "p AND mask 12 = 0"
  shows "desc_at p i AND mask 6 = 0"
proof -
  have "unat p mod 2 ^ 12 = 0" using assms unat_mask [of p 12] by simp
  then have "(64 :: nat) dvd unat p" using dvd_trans [of 64 "2 ^ 12" "unat p"] by (simp add: mod_eq_0_iff_dvd)
  then have "unat (desc_at p i) mod 2 ^ 6 = 0"
    by (simp add: desc_at_def unat_word_ariths unat_of_nat mod_mod_cancel mod_simps)
  then have "unat (desc_at p i AND mask 6) = 0" using unat_mask [of "desc_at p i" 6] by simp
  then show ?thesis by (simp add: word_unat_eq_iff)
qed

text \<open>Without limits every request for a slice is granted.\<close>

lemma no_limits:
  fixes s :: "'a malloc_state_scheme"
  assumes "total_limit s = 0" "malloc_limit s = 0"
  shows "total_limit s \<le> total_size s + n" "type_limit_ok s SLICE_TYPE_MALLOC n"
  using assms by (simp_all add: type_limit_ok_def)

text \<open>The first descriptor comes from a slice of its own.\<close>

lemma desc_alloc_first:
  fixes s :: "'a malloc_state_scheme"
  assumes none: "malloc_desc_avail s = NULL" and free: "slice_free_is s (b # ss)"
    and lim: "total_limit s = 0" "malloc_limit s = 0"
    and E: "mmap_documented (env_mmap E) I" "env_mmap E (map_call 0x10000 # os_log s) \<noteq> - 1"
  shows "\<exists>desc t. desc_alloc E (s, []) = Some (desc, (t, [])) \<and> desc \<noteq> NULL \<and> words t desc \<noteq> None \<and> desc AND mask 6 = 0 \<and>
    procheaps t = procheaps s \<and> malloc_sizeclasses t = malloc_sizeclasses s \<and> malloc_procheaps t = malloc_procheaps s \<and>
    (\<forall>q. q \<noteq> b \<longrightarrow> slices t q = slices s q) \<and> (\<forall>a. words s a \<noteq> None \<longrightarrow> words t a \<noteq> None) \<and>
    (\<forall>a. words s a = Some 0 \<longrightarrow> words t a = Some 0)"
proof -
  define p where "p = mapped_at (env_mmap E) 0x10000 SLICE_PROT_RWX s"
  note p = granted_at(2-4) [OF E p_def]
  obtain t where t: "slice_alloc_in E SLICE_TYPE_MALLOC SLICE_PROT_RWX 0x10000 (s, []) = Some (b, (t, []))" "b \<noteq> NULL"
      "load (s_size_loc b) t = Some 0x10000" "load (s_ptr_loc b) t = Some p" "slice_state.more t = slice_state.more s"
      "words t = map_words p 0x10000 (words s)" "\<forall>q. q \<noteq> b \<longrightarrow> slices t q = slices s q"
    by (rule slice_alloc_in_mapped [OF free no_limits [OF lim] p_def p(1)])
  have l: "unat p + 0x10000 \<le> 2 ^ 32" using p(3) by simp
  from desc_alloc_mapped [OF none t(1-6) p(1) l] obtain h where
    "try_desc_alloc E (s, []) = Some (desc_at p 1022, (t\<lparr>descs := h, malloc_desc_avail := desc_at p 1\<rparr>, []))" by blast
  moreover note d = desc_at_laws(2,3) [OF p(1) l, of 1022]
  ultimately have "desc_alloc E (s, []) =
      Some (desc_at p 1022, (t\<lparr>descs := h, malloc_desc_avail := desc_at p 1\<rparr>, []))" (is "_ = Some (?d, (?t, []))")
    unfolding desc_alloc_def by (intro retry_nonnull_some) simp_all
  then show ?thesis using more_malloc [OF t(5)] t(6,7) d page_desc_aligned [OF p(2)]
    by (intro exI [of _ ?d] exI [of _ ?t]) (simp add: map_words_def)
qed

text \<open>An empty heap and two free slice descriptors are enough for the first block of a class.\<close>

lemma first_block:
  fixes s :: "'a malloc_state_scheme"
  assumes heap: "heap \<noteq> NULL" "words s heap \<noteq> None" "procheaps s heap = empty_heap k"
    and cls: "k < length (malloc_sizeclasses s)" "sc_block_size (malloc_sizeclasses s ! k) = 0x10000"
      "sz = sc_size (malloc_sizeclasses s ! k)" "0x40 \<le> sz" "sz \<le> 0x4000"
    and queue: "bq_holds (sc_partial (malloc_sizeclasses s ! k)) exec s j []"
    and free: "malloc_desc_avail s = NULL" "slice_free_is s (a # b # ss)"
    and lim: "total_limit s = 0" "malloc_limit s = 0"
    and E: "mmap_documented (env_mmap E) I" "env_mmap E (map_call 0x10000 # os_log s) \<noteq> - 1"
      "env_mmap E (map_call 0x10000 # map_call 0x10000 # os_log s) \<noteq> - 1"
    and p_def: "p = env_mmap E (map_call 0x10000 # os_log s)"
  shows "\<exists>desc t. try_alloc E min heap exec (s, []) = Some (data_ptr p sz 0, (t, [])) \<and>
    active_sb t heap desc p sz (0x10000 div sz) [0] (map of_nat [1..<0x10000 div unat sz]) \<and>
    malloc_procheaps t = malloc_procheaps s"
proof -
  obtain q where q: "malloc_from_partial E min heap exec (s, []) = Some (NULL, (s\<lparr>queues := q\<rparr>, []))"
    using no_partial [OF heap cls(1) queue] by blast
  let ?s = "s\<lparr>queues := q\<rparr>"
  have act: "malloc_from_active E min heap exec (s, []) = Some (NULL, (s, []))"
    by (rule no_active [OF heap(1,2)]) (simp add: heap(3) empty_heap_def)
  have at: "p = mapped_at (env_mmap E) 0x10000 SLICE_PROT_RWX ?s" using E(2) p_def by (simp add: mapped_at_def map_call_def)
  have E2: "env_mmap E (map_call 0x10000 # os_log ?s) \<noteq> - 1" using E(2) by simp
  note p = granted_at(2-4) [OF E(1) E2 at]
  have free1: "slice_free_is ?s (a # b # ss)" using free(2) by (simp add: slice_free_is_cong [of ?s s])
  have lim1: "total_limit ?s = 0" "malloc_limit ?s = 0" using lim by simp_all
  obtain t1 where t1: "slice_alloc_in E SLICE_TYPE_MALLOC SLICE_PROT_RWX 0x10000 (?s, []) = Some (a, (t1, []))" "a \<noteq> NULL"
      "slice_free_is t1 (b # ss)" "load (s_ptr_loc a) t1 = Some p" "slice_state.more t1 = slice_state.more ?s"
      "words t1 = map_words p 0x10000 (words ?s)" "total_limit t1 = total_limit ?s" "malloc_limit t1 = malloc_limit ?s"
      "os_log t1 = map_call 0x10000 # os_log ?s"
    unfolding map_call_def by (rule slice_alloc_in_mapped [OF free1 no_limits [OF lim1] at p(1)])
  note same1 = more_malloc [OF t1(5)]
  have "malloc_desc_avail t1 = NULL" "total_limit t1 = 0" "malloc_limit t1 = 0" using same1(1) free(1) t1(7,8) lim1 by simp_all
  moreover have "env_mmap E (map_call 0x10000 # os_log t1) \<noteq> - 1" using E(3) t1(9) by simp
  ultimately obtain desc t2 where
    da: "desc_alloc E (t1, []) = Some (desc, (t2, []))" "desc \<noteq> NULL" "words t2 desc \<noteq> None" "desc AND mask 6 = 0"
    and t2: "procheaps t2 = procheaps t1" "malloc_sizeclasses t2 = malloc_sizeclasses t1" "malloc_procheaps t2 = malloc_procheaps t1"
      "\<forall>q. q \<noteq> b \<longrightarrow> slices t2 q = slices t1 q" "\<forall>a. words t1 a \<noteq> None \<longrightarrow> words t2 a \<noteq> None"
      "\<forall>a. words t1 a = Some 0 \<longrightarrow> words t2 a = Some 0"
    using desc_alloc_first [OF _ t1(3) _ _ E(1)] by blast
  have "a \<noteq> b" using stack_is_distinct [OF free1] by auto
  then have ld: "load (s_ptr_loc a) t2 = Some p" using t1(2,4) t2(4) by auto
  have w: "\<forall>x. words ?s x \<noteq> None \<longrightarrow> words t2 x \<noteq> None" "\<forall>x. x - p < 0x10000 \<longrightarrow> words t2 x = Some 0"
    using t2(5,6) t1(6) by (simp_all add: map_words_def)
  have hs: "words ?s heap \<noteq> None" "ph_active (procheaps ?s heap) = 0" "k = ph_sizeclass (procheaps ?s heap)"
    using heap by (simp_all add: empty_heap_def)
  have cs: "k < length (malloc_sizeclasses ?s)" "sc_block_size (malloc_sizeclasses ?s ! k) = 0x10000"
    "sz = sc_size (malloc_sizeclasses ?s ! k)" using cls by simp_all
  have same: "procheaps t2 = procheaps ?s" "malloc_sizeclasses t2 = malloc_sizeclasses ?s" "malloc_procheaps t2 = malloc_procheaps s"
    using same1 t2(1-3) by simp_all
  have "unat p + 0x10000 < 2 ^ 32" using p(3) by simp
  from new_superblock_from [OF heap(1) hs cs cls(4,5) p(1) this t1(1,2) da same(1,2) ld w]
  show ?thesis using same(3) act q by (auto simp: try_alloc_def)
qed

subsection \<open>A request after the start\<close>

text \<open>The state \<open>mm_start\<close> leaves for \<open>malloc\<close>: all heaps and queues are empty, and nothing has been mapped for them.\<close>

definition malloc_ready :: "u32 \<Rightarrow> 'a malloc_state_scheme \<Rightarrow> bool" where
  "malloc_ready execs t \<longleftrightarrow> malloc_desc_avail t = NULL \<and> total_limit t = 0 \<and> malloc_limit t = 0 \<and>
     (\<exists>a b ss. slice_free_is t (a # b # ss)) \<and>
     map (\<lambda>c. (sc_size c, sc_block_size c)) (malloc_sizeclasses t) = malloc_sizeclass_table \<and>
     (\<forall>exec < execs. \<forall>k < 32. bq_holds (sc_partial (malloc_sizeclasses t ! unat k)) exec t 8160 [] \<and>
       procheap_at (malloc_procheaps t) exec k \<noteq> NULL \<and> words t (procheap_at (malloc_procheaps t) exec k) \<noteq> None \<and>
       procheaps t (procheap_at (malloc_procheaps t) exec k) = empty_heap (unat k))"

text \<open>The classes that a request and its prefix can be in.\<close>

lemma class_of_request:
  assumes "0 < req" "req < 0x3ee0" and k: "k = malloc_size_class (req + 32)"
    and bs: "(bsz, sbsz) = malloc_sizeclass_table ! unat k"
  shows "k < 32" "req + 32 < bsz" "0x40 \<le> bsz" "bsz \<le> 0x4000" "sbsz = 0x10000" "req + 32 \<le> 0x40000"
proof -
  have u: "unat (req + 32) = unat req + 32" using assms(2) by (simp add: unat_word_ariths word_less_nat_alt)
  have r: "req + 32 < 0x3f00" "0x20 < req + 32" using assms(1,2) u by (simp_all add: word_less_nat_alt)
  show k32: "k < 32" using size_class_fits(1) r(1) k by simp
  show lt: "req + 32 < bsz" using size_class_fits(2) [OF r(1)] k bs by (metis fst_conv)
  have "unat k < length malloc_sizeclass_table" using k32 by (simp add: malloc_sizeclass_table_def word_less_nat_alt)
  then have "(bsz, sbsz) \<in> set malloc_sizeclass_table" using bs by simp
  moreover have "\<forall>(x, y) \<in> set malloc_sizeclass_table. (x = 0x20 \<or> 0x40 \<le> x) \<and> x \<le> 0x4000 \<and> y = 0x10000"
    by (simp add: malloc_sizeclass_table_def)
  ultimately have t: "bsz = 0x20 \<or> 0x40 \<le> bsz" "bsz \<le> 0x4000" "sbsz = 0x10000" by blast+
  have "bsz \<noteq> 0x20" using r(2) lt by auto
  then show "0x40 \<le> bsz" using t(1) by blast
  show "bsz \<le> 0x4000" "sbsz = 0x10000" using t(2,3) by blast+
  show "req + 32 \<le> 0x40000" using r(1) by (simp add: word_less_nat_alt word_le_nat_alt)
qed

text \<open>All blocks of a new superblock of \<open>bsz\<close>-byte blocks at \<open>p\<close> but the first one.\<close>

definition later_blocks :: "ptr \<Rightarrow> u32 \<Rightarrow> ptr list" where
  "later_blocks p bsz = map (\<lambda>i. data_ptr p bsz (of_nat i)) [1..<0x10000 div unat bsz]"

lemma ready_serves:
  fixes t :: "'a malloc_state_scheme"
  assumes ready: "malloc_ready execs t" and exec: "exec < execs" and req: "0 < req" "req < 0x3ee0"
    and E: "mmap_documented (env_mmap E) I" "env_mmap E (map_call 0x10000 # os_log t) \<noteq> - 1"
      "env_mmap E (map_call 0x10000 # map_call 0x10000 # os_log t) \<noteq> - 1"
    and p: "p = env_mmap E (map_call 0x10000 # os_log t)"
  shows "\<exists>desc bsz u. req + 32 < bsz \<and> sb_alloc E min req exec t = Some (data_ptr p bsz 0, u) \<and>
    sb_pool req exec desc p bsz (0x10000 div bsz) u [data_ptr p bsz 0] (later_blocks p bsz)"
proof -
  let ?k = "malloc_size_class (req + 32)"
  let ?c = "malloc_sizeclasses t ! unat ?k" and ?heap = "procheap_at (malloc_procheaps t) exec ?k"
  note r = ready [unfolded malloc_ready_def]
  obtain bsz sbsz where bs: "(bsz, sbsz) = malloc_sizeclass_table ! unat ?k" by (metis surj_pair)
  note cls = class_of_request [OF req refl bs]
  have len: "unat ?k < length (malloc_sizeclasses t)"
  proof -
    have "map (\<lambda>c. (sc_size c, sc_block_size c)) (malloc_sizeclasses t) = malloc_sizeclass_table" using r by blast
    from arg_cong [OF this, of length] show ?thesis using cls(1) by (simp add: malloc_sizeclass_table_def word_less_nat_alt)
  qed
  have "map (\<lambda>c. (sc_size c, sc_block_size c)) (malloc_sizeclasses t) ! unat ?k = (bsz, sbsz)"
    using r bs by simp
  then have c: "sc_size ?c = bsz" "sc_block_size ?c = 0x10000" using len cls(5) by simp_all
  have h: "bq_holds (sc_partial ?c) exec t 8160 []" "?heap \<noteq> NULL" "words t ?heap \<noteq> None"
    "procheaps t ?heap = empty_heap (unat ?k)"
    using r exec cls(1) by blast+
  obtain a b ss where free: "slice_free_is t (a # b # ss)" using r by blast
  have none: "malloc_desc_avail t = NULL" "total_limit t = 0" "malloc_limit t = 0" using r by blast+
  obtain desc u where u: "try_alloc E min ?heap exec (t, []) = Some (data_ptr p bsz 0, (u, []))"
    "active_sb u ?heap desc p bsz (0x10000 div bsz) [0] (map of_nat [1..<0x10000 div unat bsz])"
    "malloc_procheaps u = malloc_procheaps t"
    using first_block [OF h(2-4) len c(2) c(1) [symmetric] cls(3,4) h(1) none(1) free none(2,3) E p] by blast
  have heap: "find_heap (req + 32) exec t = ?heap" "find_heap (req + 32) exec u = ?heap"
    using cls(6) u(3) by (simp_all add: find_heap_def)
  have "0 < 0x10000 div bsz" using superblock_count(1,2) [OF cls(3,4)] by (simp add: word_less_nat_alt)
  moreover have "layout p bsz (0x10000 div bsz)" using u(2) by (simp add: active_sb_def)
  ultimately have "data_ptr p bsz 0 \<noteq> NULL" by (intro block_laws(2))
  then have "malloc_lf E min req exec (t, []) = Some (data_ptr p bsz 0, (u, []))"
    using req(1) h(2) heap(1) u(1) by (simp add: malloc_lf_def Let_def retry_nonnull_some)
  then have "sb_alloc E min req exec t = Some (data_ptr p bsz 0, u)" by (simp add: sb_alloc_def)
  moreover have "sb_pool req exec desc p bsz (0x10000 div bsz) u [data_ptr p bsz 0] (later_blocks p bsz)"
    unfolding sb_pool_def using req(1) u(2) heap(2)
    by (intro conjI exI [of _ "[0]"] exI [of _ "map of_nat [1..<0x10000 div unat bsz]"]) (simp_all add: later_blocks_def)
  ultimately show ?thesis using cls(2) by blast
qed

subsection \<open>The static data\<close>

lemma in_mapping:
  fixes a mem n :: u32
  assumes "a - mem < n" "unat mem + unat n < 2 ^ 32" "mem \<noteq> NULL"
  shows "a \<noteq> NULL"
proof
  assume "a = NULL"
  then have "unat (0 - mem) < unat n" using assms(1) by (simp add: word_less_nat_alt)
  moreover have "0 < unat mem" using assms(3) by (simp add: unat_gt_0)
  ultimately show False using assms(2) unfolding unat_sub_if' by simp
qed

lemma byte_word_in_mapping:
  fixes mem n :: u32
  assumes "k < unat n" "unat mem + unat n < 2 ^ 32" "mem AND mask 12 = 0"
  shows "((mem + of_nat k) AND NOT 3) - mem < n"
proof -
  have "unat mem mod 2 ^ 12 = 0" using assms(3) unat_mask [of mem 12] by simp
  then have d: "(4 :: nat) dvd unat mem" using dvd_trans [of 4 "2 ^ 12" "unat mem"] by (simp add: mod_eq_0_iff_dvd)
  have u: "unat (mem + of_nat k) = unat mem + k" using assms(1,2) by (simp add: unat_word_ariths unat_of_nat)
  let ?a = "(mem + of_nat k) AND NOT 3"
  have "mem + of_nat k = ?a + ((mem + of_nat k) AND mask 2)"
  proof -
    have "(3 :: u32) = mask 2" by (simp add: mask_eq_exp_minus_1)
    then have "?a + ((mem + of_nat k) AND mask 2) = ?a OR ((mem + of_nat k) AND mask 2)"
      by (intro disjunctive_add) (auto simp: bit_simps)
    also have "\<dots> = mem + of_nat k" unfolding \<open>3 = mask 2\<close> by (rule bit_word_eqI) (auto simp: bit_simps)
    finally show ?thesis by (rule sym)
  qed
  then have "?a = mem + of_nat k - ((mem + of_nat k) AND mask 2)" by (metis add_diff_cancel_right')
  moreover have "unat ((mem + of_nat k) AND mask 2) = k mod 4" using unat_mask [of "mem + of_nat k" 2] u d by (auto elim!: dvdE)
  ultimately have "unat ?a = unat mem + (k - k mod 4)" using u by (simp add: unat_sub_if')
  moreover have "k mod 4 \<le> k" by simp
  ultimately have "unat (?a - mem) = k - k mod 4" by (subst unat_sub) (simp_all only: word_le_nat_alt)
  then show ?thesis using assms(1) by (simp add: word_less_nat_alt less_imp_diff_less)
qed

text \<open>
  The static data of \<open>n\<close> bytes hold what \<open>malloc\<close> and the collector have asked for.
\<close>

definition static_room :: "u32 \<Rightarrow> u32 \<Rightarrow> u32 \<Rightarrow> bool" where
  "static_room ptrs execs n \<longleftrightarrow> unat (mm_malloc_request execs) + unat (lf_object_queue_request (64 * execs) execs) +
     unat (global_bitmap_size ptrs) \<le> unat n"

text \<open>The queue of objects then lies in the zeros of the mapping, past what \<open>malloc\<close> has asked for.\<close>

lemma queue_sizes:
  assumes "execs \<noteq> 0" "execs \<le> 0x2000"
  shows "tq_count (execs * 64) execs < 2 ^ 28"
    "unat (tq_align (12 + (16 + 2 * 4) * execs)) + 32 + 32 * unat execs + 8 * tq_count (execs * 64) execs \<le>
      unat (lf_object_queue_request (64 * execs) execs)"
    "unat (tq_align (12 + (16 + 2 * 4) * execs)) \<noteq> 0"
proof -
  define e where "e = unat execs"
  have e: "0 < e" "e \<le> 0x2000" using assms by (simp_all add: e_def unat_gt_0 word_le_nat_alt)
  have "e * e \<le> 0x2000 * 0x2000" by (rule mult_le_mono) (rule e)+
  then have sq: "e * e \<le> 0x4000000" by simp
  have num: "unat (execs * 64) = 64 * e" using e by (simp add: unat_word_ariths e_def)
  have c: "tq_count (execs * 64) execs = 64 * e + 2 * (e * e) + 2 * e + 1" by (simp add: tq_count_def num e_def [symmetric])
  then show "tq_count (execs * 64) execs < 2 ^ 28" using e(2) sq by simp
  have al: "tq_align = cache_align" by (simp add: fun_eq_iff tq_align_def cache_align_def)
  have q: "unat (12 + (16 + 2 * 4) * execs) = 12 + 24 * e" using e by (simp add: unat_word_ariths e_def)
  have m: "unat (8 * ((execs * execs * 2 + execs * 2 + 1) + 64 * execs)) = 8 * tq_count (execs * 64) execs"
  proof -
    have "8 * ((execs * execs * 2 + execs * 2 + 1) + 64 * execs) = of_nat (8 * (64 * e + 2 * (e * e) + 2 * e + 1))"
      by (simp add: e_def algebra_simps)
    moreover have "8 * (64 * e + 2 * (e * e) + 2 * e + 1) < 2 ^ 32" using e(2) sq by simp
    ultimately show ?thesis unfolding c by (simp only: unat_of_nat) simp
  qed
  have Q: "12 + 24 * e \<le> unat (tq_align (12 + (16 + 2 * 4) * execs))" "unat (tq_align (12 + (16 + 2 * 4) * execs)) \<le> 43 + 24 * e"
    using cache_align_bounds [of "12 + (16 + 2 * 4) * execs"] q e(2) unfolding al by (auto simp: unat_eq_zero [symmetric])
  have M: "8 * tq_count (execs * 64) execs \<le> unat (tq_align (8 * ((execs * execs * 2 + execs * 2 + 1) + 64 * execs)))"
    "unat (tq_align (8 * ((execs * execs * 2 + execs * 2 + 1) + 64 * execs))) \<le> 8 * tq_count (execs * 64) execs + 31"
    using cache_align_bounds [of "8 * ((execs * execs * 2 + execs * 2 + 1) + 64 * execs)"] m c e(2) sq unfolding al
    by (auto simp: unat_eq_zero [symmetric])
  have a: "unat (32 + execs * 32) = 32 + 32 * e" using e by (simp add: unat_word_ariths e_def)
  have "unat (lf_object_queue_request (64 * execs) execs) = unat (tq_align (12 + (16 + 2 * 4) * execs)) +
      unat (tq_align (8 * ((execs * execs * 2 + execs * 2 + 1) + 64 * execs))) + (32 + 32 * e)"
    unfolding lf_object_queue_request_def Let_def object_queue_sizes(1)
    using Q(2) M(2) c e(2) sq a by (simp add: unat_word_ariths)
  then show "unat (tq_align (12 + (16 + 2 * 4) * execs)) + 32 + 32 * unat execs + 8 * tq_count (execs * 64) execs \<le>
      unat (lf_object_queue_request (64 * execs) execs)"
    using M(1) by (simp add: e_def)
  show "unat (tq_align (12 + (16 + 2 * 4) * execs)) \<noteq> 0" using Q(1) by simp
qed

lemma zero_queue:
  fixes s :: "'a thread_queue_state_scheme"
  assumes e: "execs \<noteq> 0" "execs \<le> 0x2000" and room: "static_room ptrs execs n"
    and fit: "unat mem + unat n < 2 ^ 32" "mem \<noteq> NULL"
    and s: "tq_nodes s = tq_nodes (zero_records execs mem n u)" "tq_queues s = tq_queues (zero_records execs mem n u)"
      "tq_allocs s = tq_allocs (zero_records execs mem n u)"
  shows "tq_memory s (mem + mm_malloc_request execs) (execs * 64) execs"
proof -
  let ?p = "mem + mm_malloc_request execs" and ?al = "tq_align (12 + (16 + 2 * 4) * execs)"
  note q = queue_sizes [OF e]
  have in_n: "a - mem < n" "a \<noteq> NULL" if "a = mem + of_nat k" "k < unat n" for a k
  proof -
    have "k < 2 ^ 32" using that(2) fit(1) by simp
    then have "unat (of_nat k :: u32) = k" by (simp add: unat_of_nat)
    then show n: "a - mem < n" using that by (simp add: word_less_nat_alt)
    show "a \<noteq> NULL" by (rule in_mapping [OF n fit])
  qed
  have r: "unat (mm_malloc_request execs) + (unat ?al + 32 + 32 * unat execs + 8 * tq_count (execs * 64) execs) \<le> unat n"
    using room q(2) unfolding static_room_def by linarith
  have 1: "?p = mem + of_nat (unat (mm_malloc_request execs))" by simp
  have 2: "tq_alloc_at ?p execs = mem + of_nat (unat (mm_malloc_request execs) + unat ?al)"
    by (simp add: tq_alloc_at_def add.assoc)
  have 3: "tq_node ?p execs k = mem + of_nat (unat (mm_malloc_request execs) + unat ?al + 32 + 32 * unat execs + 8 * k)" for k
    by (simp add: tq_node_def tq_node_at_def tq_alloc_at_def algebra_simps)
  have b1: "unat (mm_malloc_request execs) < unat n" and b2: "unat (mm_malloc_request execs) + unat ?al < unat n"
    and b3: "k < tq_count (execs * 64) execs \<Longrightarrow> unat (mm_malloc_request execs) + unat ?al + 32 + 32 * unat execs + 8 * k < unat n" for k
    using r by linarith+
  note i1 = in_n [OF 1 b1] and i2 = in_n [OF 2 b2] and i3 = in_n [OF 3 b3]
  show ?thesis
    unfolding tq_memory_def s using e(1) q(1) i1 i2 i3 by (simp add: zero_records_def)
qed

text \<open>\<open>malloc\<close> started in a mapping of the static data.\<close>

lemma malloc_init_ready:
  fixes s :: "'a malloc_state_scheme"
  assumes e: "execs \<noteq> 0" "execs \<le> 0x10000"
    and mem: "\<forall>a. a - mem < mm_malloc_request execs \<longrightarrow> a \<noteq> NULL \<and> words s a \<noteq> None"
    and none: "lf_block_queue_nodes s = NULL" "malloc_desc_avail s = NULL"
    and sc: "map (\<lambda>c. (sc_size c, sc_block_size c)) (malloc_sizeclasses s) = malloc_sizeclass_table"
    and free: "slice_free_is s (a # b # c # ss)"
    and lim: "total_limit s = 0" "malloc_limit s = 0"
    and E: "mmap_documented (env_mmap E) I" "env_mmap E (map_call 0x10000 # os_log s) \<noteq> - 1"
  obtains t where "mm_malloc_init E execs mem (s, []) = Some (mem + mm_malloc_request execs, (t, []))"
    "\<forall>u. same_malloc t u \<longrightarrow> malloc_ready execs u" "malloc_state.more t = malloc_state.more s"
    "os_log t = map_call 0x10000 # os_log s" "\<forall>a. words s a \<noteq> None \<longrightarrow> words t a \<noteq> None"
    "\<forall>a. words t a \<noteq> None \<longrightarrow> words s a \<noteq> None \<or> a - env_mmap E (map_call 0x10000 # os_log s) < 0x10000"
proof -
  define p where "p = mapped_at (env_mmap E) 0x10000 SLICE_PROT_RWX s"
  have p: "p \<noteq> NULL" "unat p + 0x10000 \<le> 2 ^ 32" using granted_at(2,4) [OF E p_def] by simp_all
  have len: "length (malloc_sizeclasses s) = 32" using arg_cong [OF sc, of length] by (simp add: malloc_sizeclass_table_def)
  have res: "total_limit s \<le> total_size s + 0x10000" "malloc_limit s \<le> malloc_size s + 0x10000" using lim by simp_all
  obtain ph t where t: "mm_malloc_init E execs mem (s, []) = Some (mem + mm_malloc_request execs, (t, []))"
    "\<forall>i < unat execs. \<forall>k < 32. ph (procheap_at mem (of_nat i) (of_nat k)) = empty_heap k"
    "queues_up execs mem p (b # c # ss) (s\<lparr>malloc_procheaps := mem, procheaps := ph\<rparr>) 32 t"
    "malloc_state.more t = malloc_state.more s"
    by (rule malloc_init_up [OF e mem len none(1) free res p_def p])
  have "malloc_ready execs u" if "same_malloc t u" for u :: "'a malloc_state_scheme"
  proof -
    note up = queues_up_same [OF t(3) that]
    have q: "unspent (b # c # ss) (s\<lparr>malloc_procheaps := mem, procheaps := ph\<rparr>) u" "\<forall>a. words s a \<noteq> None \<longrightarrow> words u a \<noteq> None"
      using queues_up_unspent [OF up] by simp_all
    have base: "malloc_procheaps u = mem" "procheaps u = ph" using queues_up_heaps [OF up] by simp_all
    have "bq_holds (sc_partial (malloc_sizeclasses u ! unat k)) exec u 8160 [] \<and> procheap_at mem exec k \<noteq> NULL \<and>
        words u (procheap_at mem exec k) \<noteq> None \<and> ph (procheap_at mem exec k) = empty_heap (unat k)"
      if "exec < execs" "k < 32" for exec k
    proof -
      have i: "unat exec < unat execs" "unat k < 32" using that by (simp_all add: word_less_nat_alt)
      have "procheap_at mem exec k - mem < mm_malloc_request execs" using heap_at_laws(1) [OF e i, of mem] by simp
      then have "procheap_at mem exec k \<noteq> NULL \<and> words u (procheap_at mem exec k) \<noteq> None" using mem q(2) by blast
      moreover have "ph (procheap_at mem exec k) = empty_heap (unat k)" using t(2) i by fastforce
      ultimately show ?thesis using queues_up_holds [OF up p e(2) i(2) that(1)] by blast
    qed
    moreover have "malloc_desc_avail u = NULL \<and> total_limit u = 0 \<and> malloc_limit u = 0 \<and> slice_free_is u (b # c # ss)"
      using q(1) none(2) lim by (simp add: unspent_def)
    moreover have "map (\<lambda>c. (sc_size c, sc_block_size c)) (malloc_sizeclasses u) = malloc_sizeclass_table"
    proof -
      have z: "map (\<lambda>c. (sc_size c, sc_block_size c)) cs = zip (map sc_size cs) (map sc_block_size cs)" for cs
        by (induction cs) simp_all
      show ?thesis using q(1) sc unfolding z unspent_def by simp
    qed
    ultimately show ?thesis unfolding malloc_ready_def base by blast
  qed
  moreover have "os_log t = map_call 0x10000 # os_log s" "\<forall>a. words s a \<noteq> None \<longrightarrow> words t a \<noteq> None"
    "\<forall>a. words t a \<noteq> None \<longrightarrow> words s a \<noteq> None \<or> a - env_mmap E (map_call 0x10000 # os_log s) < 0x10000"
    using queues_up_unspent [OF t(3)] unfolding granted_at(1) [OF E p_def] by (simp_all add: unspent_def)
  ultimately show thesis using that t(1,4) by blast
qed

subsection \<open>Starting\<close>

text \<open>The slices and the mapping of the static data.\<close>

lemma static_data:
  fixes s :: "'a slice_state_scheme"
  assumes table: "\<And>i. i < 0x100 \<Longrightarrow> slice_tab_at tab i \<noteq> NULL \<and> slices s (slice_tab_at tab i) \<noteq> None"
    and E: "mmap_documented (env_mmap E) I" "env_mmap E (map_call n # os_log s) \<noteq> - 1"
  obtains slc u t where "slice_init tab 0 df 0 gm (s, []) = Some ((), (u, []))"
    "slice_alloc_in E SLICE_TYPE_STATIC SLICE_PROT_RWX n (u, []) = Some (slc, (t, []))" "slc \<noteq> NULL"
    "load (s_ptr_loc slc) t = Some (env_mmap E (map_call n # os_log s))"
    "words t = map_words (env_mmap E (map_call n # os_log s)) n (words s)"
    "slice_state.more t = slice_state.more s" "total_limit t = 0" "malloc_limit t = 0"
    "slice_free_is t (map (slice_tab_at tab) [1..<0x100])" "os_log t = map_call n # os_log s"
proof -
  obtain u where u: "slice_init tab 0 df 0 gm (s, []) = Some ((), (u, []))"
    "slice_free_is u (map (slice_tab_at tab) [0..<0x100])" "total_limit u = 0" "malloc_limit u = 0"
    "words u = words s" "os_log u = os_log s" "slice_state.more u = slice_state.more s"
    using slice_init_returns [OF table, of 0 df 0 gm "[]"] by (auto simp: returns_ex)
  define mem where "mem = mapped_at (env_mmap E) n SLICE_PROT_RWX u"
  have E2: "env_mmap E (map_call n # os_log u) \<noteq> - 1" using E(2) u(6) by simp
  note m = granted_at(1,2) [OF E(1) E2 mem_def]
  have "[0..<0x100] = 0 # [1..<0x100 :: nat]" by (simp add: upt_conv_Cons del: upt_Suc)
  then have free: "slice_free_is u (slice_tab_at tab 0 # map (slice_tab_at tab) [1..<0x100])" using u(2) by simp
  have lim: "total_limit u \<le> total_size u + n" "type_limit_ok u SLICE_TYPE_STATIC n"
    using u(3) by (simp_all add: type_limit_ok_def)
  obtain t where t: "slice_alloc_in E SLICE_TYPE_STATIC SLICE_PROT_RWX n (u, []) = Some (slice_tab_at tab 0, (t, []))"
    "slice_tab_at tab 0 \<noteq> NULL" "slice_free_is t (map (slice_tab_at tab) [1..<0x100])"
    "load (s_ptr_loc (slice_tab_at tab 0)) t = Some mem" "slice_state.more t = slice_state.more u"
    "words t = map_words mem n (words u)" "total_limit t = total_limit u" "malloc_limit t = malloc_limit u"
    "os_log t = map_call n # os_log u"
    unfolding map_call_def by (rule slice_alloc_in_mapped [OF free lim mem_def m(2)])
  show thesis
    by (rule that [OF u(1) t(1,2) _ _ _ _ _ t(3)]) (use t(4-9) m(1) u(3-7) in simp_all)
qed

text \<open>The collector started after \<open>malloc\<close> in the static data of \<open>n\<close> bytes at \<open>mem\<close>.\<close>

lemma gc_init_static:
  fixes v :: "'a gc_thread_state_scheme"
  assumes q: "tq_memory v (mem + mm_malloc_request execs) (execs * 64) execs"
    and fit: "unat mem + unat n < 2 ^ 32" "mem AND mask 12 = 0"
    and room: "static_room (gc_global_ptr_count E) execs n"
    and w: "\<forall>a. a - mem < n \<longrightarrow> a \<noteq> NULL \<and> words v a \<noteq> None"
  shows "\<exists>t. gc_thread_init E execs gens (mem + mm_malloc_request execs) (v, []) =
      Some (mem + mm_malloc_request execs + gc_thread_request E execs gens, (t, [])) \<and> same_malloc v t"
proof (rule gc_init_frame [OF q refl], intro allI impI)
  fix i assume i: "i < unat (global_bitmap_size (gc_global_ptr_count E))"
  let ?b = "mem + mm_malloc_request execs + lf_object_queue_request (64 * execs) execs"
  let ?k = "unat (mm_malloc_request execs) + unat (lf_object_queue_request (64 * execs) execs) + i"
  have "?k < unat n" using room [unfolded static_room_def] i by linarith
  moreover have "mem + of_nat ?k = ?b + of_nat i" by (simp add: add.assoc)
  ultimately have "((?b + of_nat i) AND NOT 3) - mem < n" using byte_word_in_mapping [OF _ fit] by metis
  then show "(?b + of_nat i) AND NOT 3 \<noteq> NULL \<and> words v ((?b + of_nat i) AND NOT 3) \<noteq> None" using w by blast
qed

lemma zero_records_malloc [simp]:
  fixes s :: "'a gc_thread_state_scheme"
  shows "words (zero_records execs p n s) = words s" "os_log (zero_records execs p n s) = os_log s"
    "lf_block_queue_nodes (zero_records execs p n s) = lf_block_queue_nodes s"
    "malloc_desc_avail (zero_records execs p n s) = malloc_desc_avail s"
    "malloc_sizeclasses (zero_records execs p n s) = malloc_sizeclasses s"
    "total_limit (zero_records execs p n s) = total_limit s" "malloc_limit (zero_records execs p n s) = malloc_limit s"
  by (simp_all add: zero_records_def)

lemma zero_records_free [simp]:
  fixes s :: "'a gc_thread_state_scheme"
  shows "slice_free_is (zero_records execs p n s) ss = slice_free_is s ss"
  by (rule slice_free_is_cong) (simp_all add: zero_records_def)

text \<open>
  \<open>mm_start\<close> without limits, when the system grants the mappings of the static data and of the queue
  nodes: it returns the end of the static data, \<open>malloc\<close> is ready, and no other word has been mapped.
\<close>

lemma mm_start_ready:
  fixes s :: "'a gc_thread_state_scheme"
  assumes table: "\<And>i. i < 0x100 \<Longrightarrow> slice_tab_at tab i \<noteq> NULL \<and> slices s (slice_tab_at tab i) \<noteq> None"
    and none: "lf_block_queue_nodes s = NULL" "malloc_desc_avail s = NULL"
    and sc: "map (\<lambda>c. (sc_size c, sc_block_size c)) (malloc_sizeclasses s) = malloc_sizeclass_table"
    and lim: "Memory_Start.mm_total_limit mm = 0" "Memory_Start.mm_malloc_limit mm = 0"
    and e: "cc_num_executors cc = execs" "execs \<noteq> 0" "execs \<le> 0x2000"
    and room: "static_room (gc_global_ptr_count E) execs n" "n = max slice_min_size sz"
    and m: "m = env_mmap (gc_part E)" "mmap_documented m (\<lambda>a. words s a \<noteq> None)" "m (map_call n # os_log s) \<noteq> - 1"
      "m (map_call 0x10000 # map_call n # os_log s) \<noteq> - 1"
  shows "\<exists>t. mm_start E tab mm cc sz (s, []) = Some (m (map_call n # os_log s) + mm_request E mm cc, (t, [])) \<and> malloc_ready execs t \<and>
    os_log t = map_call 0x10000 # map_call n # os_log s \<and> explained m (\<lambda>a. words s a \<noteq> None) t \<and>
    (\<forall>a. a - m (map_call n # os_log s) < n \<longrightarrow> words t a \<noteq> None)"
proof -
  let ?E = "gc_part E" and ?mem = "m (map_call n # os_log s)" and ?I = "\<lambda>a. words s a \<noteq> None"
  have doc: "mmap_documented (env_mmap ?E) ?I" "env_mmap ?E (map_call n # os_log s) \<noteq> - 1" using m by simp_all
  obtain slc u t where t: "slice_init tab 0 (Memory_Start.mm_slice_size mm) 0 (Memory_Start.mm_gc_limit mm) (s, []) = Some ((), (u, []))"
    "slice_alloc_in ?E SLICE_TYPE_STATIC SLICE_PROT_RWX n (u, []) = Some (slc, (t, []))" "slc \<noteq> NULL"
    "load (s_ptr_loc slc) t = Some ?mem" "words t = map_words ?mem n (words s)"
    "slice_state.more t = slice_state.more s" "total_limit t = 0" "malloc_limit t = 0"
    "slice_free_is t (map (slice_tab_at tab) [1..<0x100])" "os_log t = map_call n # os_log s"
    unfolding m(1) by (rule static_data [OF table doc])
  have "?mem = mapped_at m n SLICE_PROT_RWX s" using m(3) by (simp add: mapped_at_def map_call_def)
  note mem = granted_at(2-4) [OF m(2,3) this]
  let ?t = "zero_records execs ?mem n t"
  have wt: "a \<noteq> NULL" "words ?t a \<noteq> None" if "a - ?mem < n" for a
    using in_mapping [OF that mem(3,1)] that t(5) by (simp_all add: map_words_def)
  have mreq: "mm_malloc_request execs \<le> n" unfolding word_le_nat_alt using room(1) [unfolded static_room_def] by linarith
  have wm: "\<forall>a. a - ?mem < mm_malloc_request execs \<longrightarrow> a \<noteq> NULL \<and> words ?t a \<noteq> None"
    using wt mreq by (metis order_less_le_trans)
  have "[1..<0x100] = 1 # 2 # 3 # [4..<0x100 :: nat]" by (simp add: upt_conv_Cons del: upt_Suc)
  then have free: "slice_free_is ?t (slice_tab_at tab 1 # slice_tab_at tab 2 # slice_tab_at tab 3 # map (slice_tab_at tab) [4..<0x100])"
    using t(9) by simp
  note more = more_malloc [OF t(6)] more_queue(3) [OF t(6)]
  have nt: "lf_block_queue_nodes ?t = NULL" "malloc_desc_avail ?t = NULL"
    "map (\<lambda>c. (sc_size c, sc_block_size c)) (malloc_sizeclasses ?t) = malloc_sizeclass_table" using more none sc by simp_all
  have lt: "total_limit ?t = 0" "malloc_limit ?t = 0" using t(7,8) by simp_all
  have log: "os_log ?t = map_call n # os_log s" using t(10) by simp
  then have g: "env_mmap ?E (map_call 0x10000 # os_log ?t) \<noteq> - 1" using m(1,4) by simp
  have e': "execs \<le> 0x10000" using e(3) by (simp add: word_le_nat_alt)
  obtain v where v: "mm_malloc_init ?E execs ?mem (?t, []) = Some (?mem + mm_malloc_request execs, (v, []))"
    "\<forall>u. same_malloc v u \<longrightarrow> malloc_ready execs u" "malloc_state.more v = malloc_state.more ?t"
    "os_log v = map_call 0x10000 # os_log ?t" "\<forall>a. words ?t a \<noteq> None \<longrightarrow> words v a \<noteq> None"
    "\<forall>a. words v a \<noteq> None \<longrightarrow> words ?t a \<noteq> None \<or> a - env_mmap ?E (map_call 0x10000 # os_log ?t) < 0x10000"
    by (rule malloc_init_ready [OF e(2) e' wm nt free lt doc(1) g])
  have "explained m ?I t" by (rule explained_map [of m ?I s t n]) (use t(5,10) m(3) in \<open>auto simp: explained_def map_words_def\<close>)
  then have "explained m ?I ?t" by (simp add: explained_def)
  then have ex: "explained m ?I v" by (rule explained_map [where sz = "0x10000"]) (use v(4,6) g m(1) in auto)
  have "tq_nodes v = tq_nodes ?t" "tq_queues v = tq_queues ?t" "tq_allocs v = tq_allocs ?t"
    using v(3) by (cases v; cases ?t; simp)+
  note q = zero_queue [OF e(2,3) room(1) mem(3,1) this]
  have wv: "\<forall>a. a - ?mem < n \<longrightarrow> a \<noteq> NULL \<and> words v a \<noteq> None" using wt v(5) by blast
  obtain w where w: "gc_thread_init E execs (mm_num_generations mm) (?mem + mm_malloc_request execs) (v, []) =
      Some (?mem + mm_malloc_request execs + gc_thread_request E execs (mm_num_generations mm), (w, []))" "same_malloc v w"
    using gc_init_static [OF q mem(3,2) room(1) wv] by blast
  have "(if sz < slice_min_size then slice_min_size else sz) = n" unfolding room(2) by (auto simp: max_def)
  moreover have "prd (s_ptr_loc slc) (t, []) = Some (?mem, (t, []))" using t(4) by (simp add: prd_def del: field_loc_simps)
  ultimately have "mm_start E tab mm cc sz (s, []) = Some (?mem + mm_request E mm cc, (w, []))"
    using t(1-3) v(1) w(1) lim e(1) by (simp add: mm_start_def mm_request_def Let_def add.assoc)
  moreover have "explained m ?I w" "os_log w = map_call 0x10000 # map_call n # os_log s" "\<forall>a. a - ?mem < n \<longrightarrow> words w a \<noteq> None"
    using w(2) ex v(4) log wv by (simp_all add: explained_def same_malloc_def del: mapped.simps)
  ultimately show ?thesis using v(2) w(2) by blast
qed

text \<open>
  One executor, started in a process with an image below \<open>0x40000\<close>, by a system that puts every mapping after
  the earlier ones and refuses what would reach \<open>0x80000000\<close>.
\<close>

fun ex_used :: "os_call list \<Rightarrow> nat" where
  "ex_used [] = 0"
| "ex_used (k # L) = (case k of Mmap sz prot \<Rightarrow> (unat sz + 0xFFF) div 0x1000 * 0x1000 | _ \<Rightarrow> 0) + ex_used L"

fun ex_mmap :: "os_call list \<Rightarrow> ptr" where
  "ex_mmap (Mmap sz prot # L) = (if 0x40000 + ex_used (Mmap sz prot # L) < 0x80000000 then of_nat (0x40000 + ex_used L) else - 1)"
| "ex_mmap _ = - 1"

definition ex_start :: "'a gc_thread_state_scheme \<Rightarrow> 'a gc_thread_state_scheme" where
  "ex_start s = s\<lparr>words := (\<lambda>a. if a < 0x40000 then Some 0 else None), slices := (\<lambda>_. Some (ex_slice NULL)), os_log := [],
     lf_block_queue_nodes := NULL, malloc_desc_avail := NULL,
     malloc_sizeclasses := map (\<lambda>(x, y). \<lparr>sc_size = x, sc_block_size = y, sc_partial = NULL\<rparr>) malloc_sizeclass_table\<rparr>"

definition ex_start_env :: "'s gc_thread_env \<Rightarrow> 's gc_thread_env" where
  "ex_start_env E = E\<lparr>gc_global_ptr_count := 1,
     exec_part := (exec_part E)\<lparr>sched_part := (gc_part E)\<lparr>env_mmap := ex_mmap\<rparr>\<rparr>\<rparr>"

lemma in_range:
  fixes a p n :: u32
  assumes "a - p < n" "unat p + unat n < 2 ^ 32"
  shows "unat p \<le> unat a" "unat a < unat p + unat n"
proof -
  have d: "unat (a - p) < unat n" using assms(1) by (simp add: word_less_nat_alt)
  have "unat a = unat ((a - p) + p)" by simp
  also have "\<dots> = unat (a - p) + unat p" using d assms(2) by (subst unat_word_ariths) simp
  finally show "unat p \<le> unat a" "unat a < unat p + unat n" using d by simp_all
qed

lemma ex_mmap_at:
  assumes "ex_mmap (Mmap sz prot # L) \<noteq> - 1"
  shows "unat (ex_mmap (Mmap sz prot # L)) = 0x40000 + ex_used L" "0x40000 + ex_used L + unat sz < 0x80000000"
    "unat sz + ex_used L \<le> ex_used (Mmap sz prot # L)"
proof -
  have lt: "0x40000 + ex_used (Mmap sz prot # L) < 0x80000000" using assms by (auto split: if_splits)
  have "n \<le> (n + 0xFFF) div 0x1000 * 0x1000" for n :: nat
    using div_mult_mod_eq [of "n + 0xFFF" "0x1000"] mod_less_divisor [of "0x1000" "n + 0xFFF"] by linarith
  then have p: "unat sz \<le> (unat sz + 0xFFF) div 0x1000 * 0x1000" .
  then show le: "unat sz + ex_used L \<le> ex_used (Mmap sz prot # L)" by simp
  then show "0x40000 + ex_used L + unat sz < 0x80000000" using lt by linarith
  then have "unat (of_nat (0x40000 + ex_used L) :: u32) = 0x40000 + ex_used L" by (subst unat_of_nat) simp
  then show "unat (ex_mmap (Mmap sz prot # L)) = 0x40000 + ex_used L" using lt by simp
qed

lemma ex_mapped: "mapped ex_mmap L a \<Longrightarrow> 0x40000 \<le> unat a \<and> unat a < 0x40000 + ex_used L"
proof (induction L)
  case (Cons k L)
  show ?case
  proof (cases "mapped ex_mmap L a")
    case True
    then show ?thesis using Cons.IH by simp
  next
    case False
    then obtain sz prot where k: "k = Mmap sz prot" "ex_mmap (k # L) \<noteq> - 1" "a - ex_mmap (k # L) < sz"
      using Cons.prems by (simp only: mapped.simps) (auto split: os_call.splits)
    note e = ex_mmap_at [OF k(2) [unfolded k(1)], folded k(1)]
    have "unat (ex_mmap (k # L)) + unat sz < 2 ^ 32" using e(1,2) by simp
    from in_range [OF k(3) this] show ?thesis using e by linarith
  qed
qed simp

lemma ex_used_pages: "ex_used L mod 0x1000 = 0"
  by (induction L) (auto split: os_call.splits simp: mod_eq_0_iff_dvd)

lemma ex_mmap_documented: "mmap_documented ex_mmap (\<lambda>a. words (ex_start s) a \<noteq> None)"
  unfolding mmap_documented_def Let_def
proof (intro allI impI)
  fix sz prot L
  let ?p = "ex_mmap (Mmap sz prot # L)"
  assume "?p \<noteq> - 1"
  note e = ex_mmap_at [OF this]
  obtain k where "ex_used L = 0x1000 * k" using ex_used_pages [of L] by (auto simp: mod_eq_0_iff_dvd)
  then have "unat ?p = 2 ^ 12 * (0x40 + k)" unfolding e(1) by simp
  then have "unat ?p mod 2 ^ 12 = 0" by (metis mod_mult_self1_is_0)
  then have "unat (?p AND mask 12) = 0" by (simp only: unat_mask)
  then have al: "?p AND mask 12 = 0" by (simp add: word_unat_eq_iff)
  have nz: "?p \<noteq> NULL" using e(1) by (metis add_is_0 unat_0 zero_neq_numeral)
  have fit: "unat ?p + unat sz < 2 ^ 32" unfolding e(1) using e(2) by simp
  have "\<not> words (ex_start s) a \<noteq> None \<and> \<not> mapped ex_mmap L a" if "a - ?p < sz" for a
  proof -
    have "0x40000 + ex_used L \<le> unat a" using in_range(1) [OF that fit] e(1) by simp
    then show ?thesis using ex_mapped [of L a] by (auto simp: ex_start_def word_less_nat_alt)
  qed
  then show "?p \<noteq> NULL \<and> ?p AND mask 12 = 0 \<and> unat ?p + unat sz < 2 ^ 32 \<and>
      (\<forall>a. a - ?p < sz \<longrightarrow> \<not> words (ex_start s) a \<noteq> None \<and> \<not> mapped ex_mmap L a)"
    using al nz fit by blast
qed

lemma ex_start_room: "static_room 1 1 0x1000"
  by (simp add: static_room_def mm_malloc_request_def Let_def cache_align_def NUM_SIZE_CLASSES_def
      lf_object_queue_request_def oq_align_def global_bitmap_size_def)

text \<open>A request that would end below the total limit is refused, whatever \<open>out\<close> held in \<open>slice_alloc\<close>.\<close>

lemma refused_below_limit:
  assumes "\<not> total_limit s \<le> total_size s + n" "slice_alloc_in E type prot n (s, []) = Some (p, c)"
  shows "p = NULL"
  using assms by (auto simp: slice_alloc_in_def slice_alloc_def slice_reserve_space_def reserve_total_quiet split: bind_splits if_splits)

subsection \<open>Properties\<close>

text \<open>
  C2 [memory_serves]. A process starts with the static zeros of the program, a configuration
  without limits, at most \<open>0x2000\<close> executors, and static data large enough for what
  the parts ask for. The operating system may refuse any mapping but the four that the start and
  one first request make; what it grants is fresh memory inside of the address space, as
  documented. Then \<open>mm_start\<close> returns the end of what the parts have asked for,
  counted from the first mapping, which it leaves mapped. After it, the first request of any
  executor for up to \<open>0x3edf\<close> bytes makes the third mapping a superblock of a class
  that is large enough, none of whose words was mapped before, and returns its block 0. From there
  any requests and releases of that class give what a stack of the blocks gives: no block in use
  is handed out and none is lost.
\<close>

theorem memory_serves_from_start:
  fixes s :: "'a gc_thread_state_scheme"
  assumes "\<And>i. i < 0x100 \<Longrightarrow> slice_tab_at tab i \<noteq> NULL \<and> slices s (slice_tab_at tab i) \<noteq> None"
    and "lf_block_queue_nodes s = NULL" "malloc_desc_avail s = NULL"
    and "map (\<lambda>c. (sc_size c, sc_block_size c)) (malloc_sizeclasses s) = malloc_sizeclass_table"
    and "Memory_Start.mm_total_limit mm = 0" "Memory_Start.mm_malloc_limit mm = 0"
    and "cc_num_executors cc = execs" "execs \<noteq> 0" "execs \<le> 0x2000"
    and "static_room (gc_global_ptr_count E) execs n" "n = max slice_min_size sz"
    and m: "m = env_mmap (gc_part E)" "mmap_documented m (\<lambda>a. words s a \<noteq> None)"
    and granted: "m (map_call n # os_log s) \<noteq> - 1" "m (map_call 0x10000 # map_call n # os_log s) \<noteq> - 1"
      "L = map_call 0x10000 # map_call n # os_log s" "m (map_call 0x10000 # L) \<noteq> - 1"
      "m (map_call 0x10000 # map_call 0x10000 # L) \<noteq> - 1"
    and p: "p = m (map_call 0x10000 # L)"
  shows "\<exists>t. mm_start E tab mm cc sz (s, []) = Some (m (map_call n # os_log s) + mm_request E mm cc, (t, [])) \<and>
    (\<forall>a. a - m (map_call n # os_log s) < n \<longrightarrow> words t a \<noteq> None) \<and>
    (\<forall>exec < execs. \<forall>req. 0 < req \<and> req < 0x3ee0 \<longrightarrow> (\<exists>bsz u. req + 32 < bsz \<and>
      sb_alloc (gc_part E) min req exec t = Some (data_ptr p bsz 0, u) \<and> (\<forall>a. a - p < 0x10000 \<longrightarrow> words t a = None) \<and>
      (\<forall>ops bs us xs. run_stack ops [data_ptr p bsz 0] (later_blocks p bsz) = Some (bs, us, xs) \<longrightarrow>
        distinct (us @ xs) \<and> mset us + mset xs = mset (data_ptr p bsz 0 # later_blocks p bsz) \<and>
        (\<exists>v. run_pool (sb_alloc (gc_part E) min req exec) (sb_free (gc_part E) exec) ops u = Some (bs, v)))))"
proof -
  obtain t where t: "mm_start E tab mm cc sz (s, []) = Some (m (map_call n # os_log s) + mm_request E mm cc, (t, []))"
    "malloc_ready execs t" "os_log t = L" "explained m (\<lambda>a. words s a \<noteq> None) t"
    "\<forall>a. a - m (map_call n # os_log s) < n \<longrightarrow> words t a \<noteq> None"
    using mm_start_ready [OF assms(1-13) granted(1,2)] granted(3) by blast
  have E: "mmap_documented (env_mmap (gc_part E)) (\<lambda>a. words s a \<noteq> None)" "env_mmap (gc_part E) (map_call 0x10000 # os_log t) \<noteq> - 1"
    "env_mmap (gc_part E) (map_call 0x10000 # map_call 0x10000 # os_log t) \<noteq> - 1"
    "p = env_mmap (gc_part E) (map_call 0x10000 # os_log t)"
    using m granted(4,5) p t(3) by simp_all
  have fresh: "words t a = None" if "a - p < 0x10000" for a
  proof -
    have "\<not> words s a \<noteq> None \<and> \<not> mapped m L a"
      using m(2) granted(4) that unfolding p mmap_documented_def map_call_def Let_def by blast
    then show ?thesis using t(3,4) unfolding explained_def by blast
  qed
  have "\<exists>bsz u. req + 32 < bsz \<and> sb_alloc (gc_part E) min req exec t = Some (data_ptr p bsz 0, u) \<and>
      (\<forall>a. a - p < 0x10000 \<longrightarrow> words t a = None) \<and>
      (\<forall>ops bs us xs. run_stack ops [data_ptr p bsz 0] (later_blocks p bsz) = Some (bs, us, xs) \<longrightarrow>
        distinct (us @ xs) \<and> mset us + mset xs = mset (data_ptr p bsz 0 # later_blocks p bsz) \<and>
        (\<exists>v. run_pool (sb_alloc (gc_part E) min req exec) (sb_free (gc_part E) exec) ops u = Some (bs, v)))"
    if r: "exec < execs" "0 < req" "req < 0x3ee0" for exec req
  proof -
    obtain desc bsz u where u: "req + 32 < bsz" "sb_alloc (gc_part E) min req exec t = Some (data_ptr p bsz 0, u)"
      "sb_pool req exec desc p bsz (0x10000 div bsz) u [data_ptr p bsz 0] (later_blocks p bsz)"
      using ready_serves [OF t(2) r E] by blast
    show ?thesis
    proof (intro exI conjI allI impI)
      fix ops bs us xs
      assume "run_stack ops [data_ptr p bsz 0] (later_blocks p bsz) = Some (bs, us, xs)"
      from pool_runs_as_stack [OF u(3) this, of "gc_part E"]
      show "distinct (us @ xs)" "mset us + mset xs = mset (data_ptr p bsz 0 # later_blocks p bsz)"
        "run_pool (sb_alloc (gc_part E) min req exec) (sb_free (gc_part E) exec) ops u =
          Some (bs, SOME v. run_pool (sb_alloc (gc_part E) min req exec) (sb_free (gc_part E) exec) ops u = Some (bs, v))"
        by (auto intro: someI)
    qed (rule u fresh | assumption)+
  qed
  then show ?thesis using t(1,5) by blast
qed

lemma ex_start_log [simp]: "os_log (ex_start s) = []" by (simp add: ex_start_def)

lemma memory_serves_from_start_witness:
  "\<forall>E s mm cc. \<exists>t bsz u v. mm_start (ex_start_env E) 24 (mm\<lparr>mm_total_limit := 0, mm_malloc_limit := 0\<rparr>) (cc\<lparr>cc_num_executors := 1\<rparr>)
      0x1000 (ex_start s, []) = Some (0x40000 + mm_request (ex_start_env E) (mm\<lparr>mm_total_limit := 0, mm_malloc_limit := 0\<rparr>)
        (cc\<lparr>cc_num_executors := 1\<rparr>), (t, [])) \<and> 0x84 < bsz \<and>
    sb_alloc (gc_part (ex_start_env E)) min 0x64 0 t = Some (data_ptr 0x51000 bsz 0, u) \<and>
    (\<forall>a. a - 0x40000 < 0x1000 \<longrightarrow> words t a \<noteq> None) \<and> (\<forall>a. a - 0x51000 < 0x10000 \<longrightarrow> words t a = None) \<and>
    run_pool (sb_alloc (gc_part (ex_start_env E)) min 0x64 0) (sb_free (gc_part (ex_start_env E)) 0) [Give (data_ptr 0x51000 bsz 0)] u =
      Some ([], v)"
proof (intro allI)
  fix E :: "'a gc_thread_state_scheme gc_thread_env" and s :: "'a gc_thread_state_scheme" and mm :: mm_stat_t and cc :: cc_stat_t
  let ?E = "ex_start_env E" and ?mm = "mm\<lparr>mm_total_limit := 0, mm_malloc_limit := 0\<rparr>" and ?cc = "cc\<lparr>cc_num_executors := 1\<rparr>"
  have a: "ex_mmap [map_call 0x1000] = 0x40000" "ex_mmap [map_call 0x10000, map_call 0x1000] = 0x41000"
    "ex_mmap [map_call 0x10000, map_call 0x10000, map_call 0x1000] = 0x51000"
    "ex_mmap [map_call 0x10000, map_call 0x10000, map_call 0x10000, map_call 0x1000] = 0x61000"
    by (simp_all add: map_call_def)
  have env: "env_mmap (gc_part ?E) = ex_mmap" "gc_global_ptr_count ?E = 1" by (simp_all add: ex_start_env_def)
  have tab: "slice_tab_at 24 i \<noteq> NULL \<and> slices (ex_start s) (slice_tab_at 24 i) \<noteq> None" if "i < 0x100" for i
    using that by (simp add: ex_start_def slice_tab_at_ex)
  have "\<exists>t. mm_start ?E 24 ?mm ?cc 0x1000 (ex_start s, []) = Some (ex_mmap (map_call 0x1000 # os_log (ex_start s)) + mm_request ?E ?mm ?cc, (t, [])) \<and>
    (\<forall>a. a - ex_mmap (map_call 0x1000 # os_log (ex_start s)) < 0x1000 \<longrightarrow> words t a \<noteq> None) \<and>
    (\<forall>exec < 1. \<forall>req. 0 < req \<and> req < 0x3ee0 \<longrightarrow> (\<exists>bsz u. req + 32 < bsz \<and>
      sb_alloc (gc_part ?E) min req exec t = Some (data_ptr 0x51000 bsz 0, u) \<and> (\<forall>a. a - 0x51000 < 0x10000 \<longrightarrow> words t a = None) \<and>
      (\<forall>ops bs us xs. run_stack ops [data_ptr 0x51000 bsz 0] (later_blocks 0x51000 bsz) = Some (bs, us, xs) \<longrightarrow>
        distinct (us @ xs) \<and> mset us + mset xs = mset (data_ptr 0x51000 bsz 0 # later_blocks 0x51000 bsz) \<and>
        (\<exists>v. run_pool (sb_alloc (gc_part ?E) min req exec) (sb_free (gc_part ?E) exec) ops u = Some (bs, v)))))"
    by (rule memory_serves_from_start [OF tab, where L = "[map_call 0x10000, map_call 0x1000]"])
      (use ex_mmap_documented [of s] ex_start_room in \<open>simp_all add: env a slice_min_size_def, simp_all add: ex_start_def comp_def case_prod_beta\<close>)
  then obtain t where t: "mm_start ?E 24 ?mm ?cc 0x1000 (ex_start s, []) = Some (0x40000 + mm_request ?E ?mm ?cc, (t, []))"
    "\<forall>a. a - 0x40000 < 0x1000 \<longrightarrow> words t a \<noteq> None"
    "\<forall>exec < 1. \<forall>req. 0 < req \<and> req < 0x3ee0 \<longrightarrow> (\<exists>bsz u. req + 32 < bsz \<and>
      sb_alloc (gc_part ?E) min req exec t = Some (data_ptr 0x51000 bsz 0, u) \<and> (\<forall>a. a - 0x51000 < 0x10000 \<longrightarrow> words t a = None) \<and>
      (\<forall>ops bs us xs. run_stack ops [data_ptr 0x51000 bsz 0] (later_blocks 0x51000 bsz) = Some (bs, us, xs) \<longrightarrow>
        distinct (us @ xs) \<and> mset us + mset xs = mset (data_ptr 0x51000 bsz 0 # later_blocks 0x51000 bsz) \<and>
        (\<exists>v. run_pool (sb_alloc (gc_part ?E) min req exec) (sb_free (gc_part ?E) exec) ops u = Some (bs, v))))"
    unfolding ex_start_log a by blast
  have "(0 :: u32) < 1" "(0 :: u32) < 0x64 \<and> 0x64 < (0x3ee0 :: u32)" by simp_all
  with t(3) obtain bsz u where u: "0x64 + 32 < bsz" "sb_alloc (gc_part ?E) min 0x64 0 t = Some (data_ptr 0x51000 bsz 0, u)"
    "\<forall>a. a - 0x51000 < 0x10000 \<longrightarrow> words t a = None"
    "\<forall>ops bs us xs. run_stack ops [data_ptr 0x51000 bsz 0] (later_blocks 0x51000 bsz) = Some (bs, us, xs) \<longrightarrow>
        distinct (us @ xs) \<and> mset us + mset xs = mset (data_ptr 0x51000 bsz 0 # later_blocks 0x51000 bsz) \<and>
        (\<exists>v. run_pool (sb_alloc (gc_part ?E) min 0x64 0) (sb_free (gc_part ?E) 0) ops u = Some (bs, v))" by blast
  have "run_stack [Give (data_ptr 0x51000 bsz 0)] [data_ptr 0x51000 bsz 0] (later_blocks 0x51000 bsz) =
      Some ([], [], data_ptr 0x51000 bsz 0 # later_blocks 0x51000 bsz)"
    by simp
  with u(4) obtain v where
    "run_pool (sb_alloc (gc_part ?E) min 0x64 0) (sb_free (gc_part ?E) 0) [Give (data_ptr 0x51000 bsz 0)] u = Some ([], v)" by blast
  moreover have "0x84 < bsz" using u(1) by simp
  ultimately show "\<exists>t bsz u v. mm_start ?E 24 ?mm ?cc 0x1000 (ex_start s, []) = Some (0x40000 + mm_request ?E ?mm ?cc, (t, [])) \<and> 0x84 < bsz \<and>
    sb_alloc (gc_part ?E) min 0x64 0 t = Some (data_ptr 0x51000 bsz 0, u) \<and>
    (\<forall>a. a - 0x40000 < 0x1000 \<longrightarrow> words t a \<noteq> None) \<and> (\<forall>a. a - 0x51000 < 0x10000 \<longrightarrow> words t a = None) \<and>
    run_pool (sb_alloc (gc_part ?E) min 0x64 0) (sb_free (gc_part ?E) 0) [Give (data_ptr 0x51000 bsz 0)] u = Some ([], v)"
    using t(1,2) u(2,3) by blast
qed

text \<open>
  C23 [limit_stops_start]. A total limit above the static data keeps the memory manager from starting:
  the test of the limit grants a request only at or above it, so \<open>mm_start\<close> gets no slice and exits.
\<close>

theorem limit_stops_start:
  fixes s :: "'a gc_thread_state_scheme"
  assumes table: "\<And>i. i < 0x100 \<Longrightarrow> slice_tab_at tab i \<noteq> NULL \<and> slices s (slice_tab_at tab i) \<noteq> None"
    and limit: "max slice_min_size n < Memory_Start.mm_total_limit mm"
  shows "mm_start E tab mm cc n (s, []) = None"
proof -
  obtain u where u: "slice_init tab (Memory_Start.mm_total_limit mm) (Memory_Start.mm_slice_size mm)
      (Memory_Start.mm_malloc_limit mm) (Memory_Start.mm_gc_limit mm) (s, []) = Some ((), (u, []))"
    "total_limit u = Memory_Start.mm_total_limit mm" "total_size u = 0"
    using slice_init_returns [OF table] by (force simp: returns_ex)
  have "\<not> total_limit u \<le> total_size u + max slice_min_size n" using limit u(2,3) by (simp add: not_le)
  note refused = refused_below_limit [OF this]
  have "(if n < slice_min_size then slice_min_size else n) = max slice_min_size n" by (auto simp: max_def)
  then show ?thesis using u(1) by (auto simp: mm_start_def Let_def split: bind_splits dest: refused)
qed

lemma limit_stops_start_witness:
  "\<forall>E s mm cc. mm_start E 24 (mm\<lparr>mm_total_limit := 0x4000000\<rparr>) cc 0x1000 (ex_start s, []) = None"
  by (intro allI limit_stops_start) (simp_all add: ex_start_def slice_tab_at_ex slice_min_size_def)

end
