(* ===== verification/Queue_Concurrent.thy ===== *)
theory Queue_Concurrent
  imports Block_Queue
begin

section \<open>The queues under interference\<close>

text \<open>
  First what the enqueue of the queues does when other executors respect its hazard pointer
  (\<open>MS_Rely\<close>), then a run in which the code of the queue itself does not respect it.
\<close>

subsection \<open>Enqueueing under interference\<close>

text \<open>The conditions of \<open>MS_Rely\<close> on the block queue at \<open>fifo\<close>, for the executor \<open>exec\<close>.\<close>

definition bq_enqueue_rely ::
  "ptr \<Rightarrow> u32 \<Rightarrow> ptr \<Rightarrow> ptr \<Rightarrow> 'a block_queue_state_scheme \<Rightarrow> 'a block_queue_state_scheme \<Rightarrow> bool" where
  "bq_enqueue_rely fifo exec = ms_rely (bq_head_loc fifo) (bq_tail_loc fifo) bn_next_loc bn_data_loc
     (\<lambda>j. bhp_ptrs_loc fifo exec j) (bq_live fifo exec)"

definition bq_enqueue_ready :: "ptr \<Rightarrow> u32 \<Rightarrow> ptr \<Rightarrow> ptr \<Rightarrow> 'a block_queue_state_scheme \<Rightarrow> bool" where
  "bq_enqueue_ready fifo exec = ms_ready (bq_head_loc fifo) (bq_tail_loc fifo) bn_next_loc bn_data_loc (bq_live fifo exec)"

definition bq_is_queue :: "ptr \<Rightarrow> 'a block_queue_state_scheme \<Rightarrow> ptr \<Rightarrow> ptr list \<Rightarrow> ptr list \<Rightarrow> bool" where
  "bq_is_queue fifo = ms_queue (bq_head_loc fifo) (bq_tail_loc fifo) bn_next_loc bn_data_loc"

text \<open>
  C4 [enqueue_links]. Whatever the other executors do to the queue between two accesses of an
  enqueue, as long as it stays a queue and a node that the caller's hazard pointer names leaves
  it only with a link other than NULL, the loop of the enqueue returns, and at one moment its
  node was put behind the last node of the queue, and nothing else about the queue was changed.
\<close>

theorem block_enqueue_links:
  assumes "env_rely (bq_enqueue_rely fifo exec node v) c" "bq_enqueue_ready fifo exec node v (fst c)"
  shows "returns (retry_nonnull (lf_block_queue_try_enqueue fifo node exec) c) (\<lambda>t d.
    \<exists>s sent nodes vals. bq_is_queue fifo s sent nodes vals \<and> last (sent # nodes) = t \<and>
      fst d = store (bn_next_loc t) node s \<and> bq_is_queue fifo (fst d) sent (nodes @ [node]) (vals @ [v]))"
  using bq_hz.enqueue_links [of fifo exec node v c] assms
  by (simp add: lf_block_queue_try_enqueue_ms bq_enqueue_rely_def bq_enqueue_ready_def bq_is_queue_def ms_linked_def)

text \<open>
  The witness: the tail of the queue lags behind its only node, and while executor 0 enqueues
  another executor advances the tail, before the compare-and-set with which executor 0 wants to.
\<close>

definition ex_lag :: block_queue_state where
  "ex_lag = ex_bq\<lparr>qnodes := (qnodes ex_bq)(0x200 := \<lparr>lfn_next = 0x210, lfn_data = NULL\<rparr>,
     0x210 := \<lparr>lfn_next = NULL, lfn_data = 5\<rparr>)\<rparr>"

definition help_tail :: "block_queue_state \<Rightarrow> block_queue_state" where
  "help_tail s = (let n = lfn_next (qnodes s (lf_tail (queues s 0x100)))
     in if n = NULL then s else store (bq_tail_loc 0x100) n s)"

lemma help_tail_rely: "bq_enqueue_rely 0x100 0 node v s (help_tail s)"
proof (cases "bq_enqueue_ready 0x100 0 node v s")
  case True
  then obtain sent nodes vals where q: "bq_is_queue 0x100 s sent nodes vals"
    by (auto simp: bq_enqueue_ready_def bq_is_queue_def ms_ready_def)
  let ?t = "lf_tail (queues s 0x100)"
  have t: "?t \<in> set (sent # nodes)" using q unfolding bq_is_queue_def ms_queue_def by (auto split: if_splits)
  obtain n where n: "load (bn_next_loc ?t) s = Some n" "n \<noteq> NULL \<Longrightarrow> n \<in> set (sent # nodes)"
    using bq_hz.in_queue_link [OF q [unfolded bq_is_queue_def] t] by metis
  then have "n = lfn_next (qnodes s ?t)" by (auto split: if_splits)
  with n bq_hz.rely_tail [OF q [unfolded bq_is_queue_def]] show ?thesis
    unfolding help_tail_def Let_def bq_enqueue_rely_def by (auto simp: ms_rely_refl)
qed (simp add: bq_enqueue_rely_def bq_enqueue_ready_def ms_rely_def)

lemma ex_lag_ready: "bq_enqueue_ready 0x100 0 0x300 NULL ex_lag"
proof -
  have q: "ms_queue (bq_head_loc 0x100) (bq_tail_loc 0x100) bn_next_loc bn_data_loc ex_lag 0x200 [0x210] [5]"
    by (simp add: ms_queue_def ex_lag_def ex_bq_def)
  show ?thesis
    unfolding bq_enqueue_ready_def bq_hz.ready_iff [OF q] by (simp add: bq_live_def ex_lag_def ex_bq_def)
qed

lemma block_enqueue_links_witness:
  "returns (retry_nonnull (lf_block_queue_try_enqueue 0x100 0x300 0) (ex_lag, replicate 5 id @ [help_tail]))
     (\<lambda>t d. \<exists>sent nodes vals. bq_is_queue 0x100 (fst d) sent (nodes @ [0x300]) (vals @ [NULL]))"
proof (rule returns_mono [OF block_enqueue_links])
  show "bq_enqueue_ready 0x100 0 0x300 NULL (fst (ex_lag, replicate 5 id @ [help_tail]))"
    using ex_lag_ready by simp
  show "env_rely (bq_enqueue_rely 0x100 0 0x300 NULL) (ex_lag, replicate 5 id @ [help_tail])"
    using help_tail_rely by (auto simp: env_rely_def bq_enqueue_rely_def ms_rely_refl)
qed blast

subsection \<open>A node that is retired too early\<close>

text \<open>
  Two executors on one queue. A retired node is chained to the retired list through the very
  link an enqueuer compares with NULL, so an enqueuer that was delayed can hang its node on a
  node that has left the queue. The two executors run the code of the model; the interleaving
  is the list of interferences the slow one is given.
\<close>

subsection \<open>States of two executors\<close>

text \<open>
  The queue at \<open>0x100\<close> from its nodes, head, tail, the hazard pointers of the two executors
  and the free list; everything else is as in the other examples.
\<close>

definition bq2 ::
  "(ptr \<Rightarrow> lf_block_queue_node_t) \<Rightarrow> ptr \<Rightarrow> ptr \<Rightarrow> lf_block_queue_hazard_ptrs_t \<Rightarrow> lf_block_queue_hazard_ptrs_t \<Rightarrow>
   ptr \<Rightarrow> block_queue_state" where
  "bq2 N h t e0 e1 free = ex_bq\<lparr>qnodes := N,
     queues := (queues ex_bq)(0x100 := \<lparr>lf_head = h, lf_tail = t, lf_hptrs = [e0, e1]\<rparr>),
     lf_block_queue_hptrs := 2, lf_block_queue_hptr_threshold := 4, lf_block_queue_nodes := free\<rparr>"

lemma bq2_load:
  "load bq_nodes_loc (bq2 N h t e0 e1 free) = Some free"
  "load (bq_head_loc 0x100) (bq2 N h t e0 e1 free) = Some h"
  "load (bq_tail_loc 0x100) (bq2 N h t e0 e1 free) = Some t"
  "load (bn_next_loc p) (bq2 N h t e0 e1 free) = (if p = NULL then None else Some (lfn_next (N p)))"
  "load (bn_data_loc p) (bq2 N h t e0 e1 free) = (if p = NULL then None else Some (lfn_data (N p)))"
  "load (bhp_loc get upd 0x100 0) (bq2 N h t e0 e1 free) = Some (get e0)"
  "load (bhp_loc get upd 0x100 1) (bq2 N h t e0 e1 free) = Some (get e1)"
  by (simp_all add: bq2_def ex_bq_def bhp_loc_def)

lemma bq2_store:
  "store bq_nodes_loc v (bq2 N h t e0 e1 free) = bq2 N h t e0 e1 v"
  "store (bq_head_loc 0x100) v (bq2 N h t e0 e1 free) = bq2 N v t e0 e1 free"
  "store (bq_tail_loc 0x100) v (bq2 N h t e0 e1 free) = bq2 N h v e0 e1 free"
  "store (bn_next_loc p) v (bq2 N h t e0 e1 free) = bq2 (N(p := (N p)\<lparr>lfn_next := v\<rparr>)) h t e0 e1 free"
  "store (bn_data_loc p) v (bq2 N h t e0 e1 free) = bq2 (N(p := (N p)\<lparr>lfn_data := v\<rparr>)) h t e0 e1 free"
  "store (bhp_loc get upd 0x100 0) w (bq2 N h t e0 e1 free) = bq2 N h t (upd (\<lambda>_. w) e0) e1 free"
  "store (bhp_loc get upd 0x100 1) w (bq2 N h t e0 e1 free) = bq2 N h t e0 (upd (\<lambda>_. w) e1) free"
  by (simp_all add: bq2_def ex_bq_def bhp_loc_def)

lemma bq2_threshold: "lf_block_queue_hptr_threshold (bq2 N h t e0 e1 free) = 4"
  by (simp add: bq2_def)

lemmas bq2_accesses = bq2_load bq2_store bq2_threshold
  rd_def wr_def prd_def pwr_def cas_def atomic_compare_and_set_ptr_def Let_def

lemma retry_valid_here: "f c = Some (r, d) \<Longrightarrow> o_valid r \<Longrightarrow> retry_valid f c = Some (o_value r, d)"
  by (simp add: retry_valid_def retry.simps [of _ c])

lemma retry_nonnull_here: "f c = Some (r, d) \<Longrightarrow> r \<noteq> NULL \<Longrightarrow> retry_nonnull f c = Some (r, d)"
  by (simp add: retry_nonnull_def retry.simps [of _ c])

subsection \<open>The other executor\<close>

lemma bq2_alloc:
  assumes "a \<noteq> NULL"
  shows "lf_block_queue_alloc_node E (bq2 N h t e0 e1 a, []) = Some (a, (bq2 N h t e0 e1 (lfn_next (N a)), []))"
    and "lf_block_queue_alloc_node E (bq2 N h t e0 e1 a, id # id # id # env) =
      Some (a, (bq2 N h t e0 e1 (lfn_next (N a)), env))"
proof -
  have "env = [] \<and> env' = [] \<or> env = id # id # id # env' \<Longrightarrow>
      lf_block_queue_try_alloc_node E (bq2 N h t e0 e1 a, env) =
      Some (\<lparr>o_value = a, o_valid = True\<rparr>, (bq2 N h t e0 e1 (lfn_next (N a)), env'))" for env env'
    using assms by (auto simp: lf_block_queue_try_alloc_node_def bq2_accesses simp del: mem_loc_simps global_loc_simps)
  note here = retry_valid_here [where f = "lf_block_queue_try_alloc_node E", OF this]
  show "lf_block_queue_alloc_node E (bq2 N h t e0 e1 a, []) = Some (a, (bq2 N h t e0 e1 (lfn_next (N a)), []))"
    "lf_block_queue_alloc_node E (bq2 N h t e0 e1 a, id # id # id # env) =
      Some (a, (bq2 N h t e0 e1 (lfn_next (N a)), env))"
    using here by (simp_all add: lf_block_queue_alloc_node_def)
qed

lemma bq2_enqueue:
  assumes "a \<noteq> NULL" "t \<noteq> NULL" "a \<noteq> t" "lfn_next (N t) = NULL"
  shows "\<exists>e. lf_block_queue_enqueue E 0x100 block 1 (bq2 N h t e0 e1 a, []) =
    Some ((), (bq2 (N(a := \<lparr>lfn_next = NULL, lfn_data = block\<rparr>, t := (N t)\<lparr>lfn_next := a\<rparr>)) h a e0 e (lfn_next (N a)), [])) \<and>
    bhp_rlist e = bhp_rlist e1 \<and> bhp_rcount e = bhp_rcount e1"
proof -
  let ?N = "N(a := \<lparr>lfn_next = NULL, lfn_data = block\<rparr>)"
  have N: "N(a := N a\<lparr>lfn_data := block, lfn_next := NULL\<rparr>) = ?N" by (cases "N a") simp
  have attempt: "lf_block_queue_try_enqueue 0x100 a 1 (bq2 ?N h t e0 e1 b, []) =
      Some (t, (bq2 (?N(t := (N t)\<lparr>lfn_next := a\<rparr>)) h t e0 (bhp_ptrs_update (\<lambda>ps. ps(0 := t)) e1) b, []))" for b
    using assms by (simp add: lf_block_queue_try_enqueue_def bq2_accesses del: mem_loc_simps global_loc_simps)
  show ?thesis
    using assms by (simp add: lf_block_queue_enqueue_def bq2_alloc N
        retry_nonnull_here [where f = "lf_block_queue_try_enqueue 0x100 a 1", OF attempt] bq2_accesses
        del: mem_loc_simps global_loc_simps)
      (intro exI conjI, rule refl, simp_all)
qed

lemma bq2_dequeue:
  assumes "h \<noteq> NULL" "h \<noteq> t" "lfn_next (N h) = n" "n \<noteq> NULL" "n \<noteq> h" "\<not> 4 \<le> bhp_rcount e1"
  shows "\<exists>e. lf_block_queue_dequeue 0x100 1 (bq2 N h t e0 e1 a, []) =
    Some (lfn_data (N n), (bq2 (N(h := (N h)\<lparr>lfn_next := bhp_rlist e1\<rparr>)) n t e0 e a, [])) \<and> bhp_rlist e = h"
proof -
  have "\<exists>e. lf_block_queue_try_dequeue 0x100 1 (bq2 N h t e0 e1 a, []) =
      Some (\<lparr>o_value = lfn_data (N n), o_valid = True\<rparr>, (bq2 (N(h := (N h)\<lparr>lfn_next := bhp_rlist e1\<rparr>)) n t e0 e a, [])) \<and>
      bhp_rlist e = h"
    using assms by (simp add: lf_block_queue_try_dequeue_def lf_block_queue_node_retire_def bq2_accesses
        del: mem_loc_simps global_loc_simps)
      (intro exI conjI, rule refl, simp)
  then show ?thesis
    using retry_valid_here [where f = "lf_block_queue_try_dequeue 0x100 1"]
    unfolding lf_block_queue_dequeue_def by fastforce
qed

lemma bq2_dequeue_empty:
  assumes "h \<noteq> NULL" "lfn_next (N h) = NULL"
  shows "\<exists>u. lf_block_queue_dequeue 0x100 1 (bq2 N h t e0 e1 a, []) = Some (NULL, (u, []))"
proof -
  have "\<exists>u. lf_block_queue_try_dequeue 0x100 1 (bq2 N h t e0 e1 a, []) = Some (\<lparr>o_value = NULL, o_valid = True\<rparr>, (u, []))"
    using assms by (simp add: lf_block_queue_try_dequeue_def bq2_accesses del: mem_loc_simps global_loc_simps)
  then show ?thesis
    using retry_valid_here [where f = "lf_block_queue_try_dequeue 0x100 1"]
    unfolding lf_block_queue_dequeue_def by fastforce
qed

definition enqueue_dequeue ::
  "'e slice_env_scheme \<Rightarrow> ptr \<Rightarrow> ptr \<Rightarrow> u32 \<Rightarrow> 'a block_queue_state_scheme \<Rightarrow> (ptr \<times> 'a block_queue_state_scheme conc) option" where
  "enqueue_dequeue E fifo block exec s = do {
     (_, c) \<leftarrow> lf_block_queue_enqueue E fifo block exec (s, []);
     lf_block_queue_dequeue fifo exec c }"

definition after_enqueue_dequeue ::
  "'e slice_env_scheme \<Rightarrow> ptr \<Rightarrow> ptr \<Rightarrow> u32 \<Rightarrow> 'a block_queue_state_scheme \<Rightarrow> 'a block_queue_state_scheme" where
  "after_enqueue_dequeue E fifo block exec s =
     (case enqueue_dequeue E fifo block exec s of None \<Rightarrow> s | Some (_, c) \<Rightarrow> fst c)"

lemma bq2_other:
  assumes "a \<noteq> NULL" "t \<noteq> NULL" "a \<noteq> t" "lfn_next (N t) = NULL" "bhp_rcount e1 = 0" "bhp_rlist e1 = NULL"
  shows "\<exists>e. enqueue_dequeue E 0x100 block 1 (bq2 N t t e0 e1 a) =
    Some (block, (bq2 (N(a := \<lparr>lfn_next = NULL, lfn_data = block\<rparr>)) a a e0 e (lfn_next (N a)), [])) \<and> bhp_rlist e = t"
proof -
  let ?N = "N(a := \<lparr>lfn_next = NULL, lfn_data = block\<rparr>, t := (N t)\<lparr>lfn_next := a\<rparr>)"
  obtain e where e: "lf_block_queue_enqueue E 0x100 block 1 (bq2 N t t e0 e1 a, []) =
      Some ((), (bq2 ?N t a e0 e (lfn_next (N a)), []))" "bhp_rlist e = NULL" "bhp_rcount e = 0"
    using bq2_enqueue [of a t N E block t e0 e1] assms by auto
  have "?N(t := (?N t)\<lparr>lfn_next := NULL\<rparr>) = N(a := \<lparr>lfn_next = NULL, lfn_data = block\<rparr>)"
    using assms by (cases "N t") (auto simp: fun_eq_iff)
  then show ?thesis
    using bq2_dequeue [of t a ?N a e e0 "lfn_next (N a)"] assms e by (simp add: enqueue_dequeue_def)
qed

subsection \<open>The delayed enqueue\<close>

text \<open>An empty queue of two executors with three free nodes.\<close>

definition ex_hptrs :: lf_block_queue_hazard_ptrs_t where
  "ex_hptrs = \<lparr>bhp_rcount = 0, bhp_rlist = NULL, bhp_ptrs = (\<lambda>_. NULL)\<rparr>"

definition ex_bq2 :: block_queue_state where
  "ex_bq2 = bq2 (qnodes ex_bq) 0x200 0x200 ex_hptrs ex_hptrs 0x210"

lemma ex_bq2_holds: "exec = 0 \<or> exec = 1 \<Longrightarrow> bq_holds 0x100 exec ex_bq2 3 []"
proof -
  assume "exec = 0 \<or> exec = 1"
  then have "bq_ok ex_bq2 0x100 exec [0x210, 0x218, 0x220] [] 0x200 [] []"
    by (auto simp: bq_ok_def bq_pool_def retired_def bq_live_def free_is_bnext bnext_def ms_queue_def
      ex_bq2_def bq2_def ex_bq_def ex_hptrs_def)
  then show ?thesis unfolding bq_holds_def by force
qed

lemma ex_bq2_delayed:
  "\<exists>N e0 e1. lf_block_queue_enqueue E 0x100 9 0 (ex_bq2, replicate 8 id @ [after_enqueue_dequeue E 0x100 7 1]) =
     Some ((), (bq2 N 0x218 0x218 e0 e1 0x220, [])) \<and> bhp_rlist e1 = 0x200 \<and>
     N 0x200 = \<lparr>lfn_next = 0x210, lfn_data = NULL\<rparr> \<and> lfn_data (N 0x210) = 9 \<and> lfn_next (N 0x218) = NULL"
proof -
  let ?e = ex_hptrs and ?hz = "bhp_ptrs_update (\<lambda>ps. ps(0 := 0x200)) ex_hptrs"
  define N where "N = (qnodes ex_bq)(0x210 := \<lparr>lfn_next = NULL, lfn_data = 9\<rparr>)"
  let ?N = "N(0x218 := \<lparr>lfn_next = NULL, lfn_data = 7\<rparr>, 0x200 := (N 0x200)\<lparr>lfn_next := 0x210\<rparr>)"
  have N: "N 0x200 = \<lparr>lfn_next = NULL, lfn_data = NULL\<rparr>" "lfn_next (N 0x218) = 0x220"
    "lfn_next (qnodes ex_bq 0x210) = 0x218" "lfn_data (N 0x210) = 9"
    "(qnodes ex_bq)(0x210 := (qnodes ex_bq 0x210)\<lparr>lfn_data := 9, lfn_next := NULL\<rparr>) = N"
    by (simp_all add: N_def ex_bq_def)
  obtain e1 where other: "enqueue_dequeue E 0x100 7 1 (bq2 N 0x200 0x200 ?hz ?e 0x218) =
      Some (7, (bq2 (N(0x218 := \<lparr>lfn_next = NULL, lfn_data = 7\<rparr>)) 0x218 0x218 ?hz e1 0x220, []))"
    "bhp_rlist e1 = 0x200"
    using bq2_other [of "0x218" "0x200" N ?e E 7 ?hz] N by (auto simp: ex_hptrs_def)
  have attempt: "lf_block_queue_try_enqueue 0x100 0x210 0
      (bq2 N 0x200 0x200 ?e ?e 0x218, [id, id, id, id, id, after_enqueue_dequeue E 0x100 7 1]) =
      Some (0x200, (bq2 ?N 0x218 0x218 ?hz e1 0x220, []))"
    using N by (simp add: lf_block_queue_try_enqueue_def after_enqueue_dequeue_def other bq2_accesses
        del: mem_loc_simps global_loc_simps)
  have eight: "replicate 8 f = [f, f, f, f, f, f, f, f]" for f :: "block_queue_state \<Rightarrow> block_queue_state"
    by (simp add: numeral_eq_Suc)
  have "\<exists>e0. lf_block_queue_enqueue E 0x100 9 0 (ex_bq2, replicate 8 id @ [after_enqueue_dequeue E 0x100 7 1]) =
      Some ((), (bq2 ?N 0x218 0x218 e0 e1 0x220, []))"
    using N by (simp add: ex_bq2_def lf_block_queue_enqueue_def bq2_alloc eight
        retry_nonnull_here [where f = "lf_block_queue_try_enqueue 0x100 0x210 0", OF attempt] bq2_accesses
        del: mem_loc_simps global_loc_simps) blast
  then show ?thesis using other N by (fastforce intro!: exI [of _ ?N])
qed

text \<open>
  C5 [delayed_enqueue]. Executor 0 enqueues on the empty queue and is delayed before its last
  compare-and-set, after it has published its hazard pointer and checked the tail twice.
  Meanwhile executor 1 enqueues one block and dequeues it. The enqueue still returns, but its
  block is not in the queue: the compare-and-set found NULL in the link of a node that executor
  1 has retired, and hung the new node on the retired list.
\<close>

theorem delayed_enqueue_lost:
  "\<forall>E. \<exists>u v w. bq_holds 0x100 0 ex_bq2 3 [] \<and> enqueue_dequeue E 0x100 7 1 ex_bq2 = Some (7, v) \<and>
     lf_block_queue_enqueue E 0x100 9 0 (ex_bq2, replicate 8 id @ [after_enqueue_dequeue E 0x100 7 1]) =
       Some ((), (u, [])) \<and>
     lf_block_queue_dequeue 0x100 1 (u, []) = Some (NULL, (w, [])) \<and>
     bhp_rlist (lf_hptrs (queues u 0x100) ! 1) = 0x200 \<and> lfn_next (qnodes u 0x200) = 0x210 \<and>
     lfn_data (qnodes u 0x210) = 9"
proof
  fix E :: "'e slice_env_scheme"
  obtain N e0 e1 where run: "lf_block_queue_enqueue E 0x100 9 0
      (ex_bq2, replicate 8 id @ [after_enqueue_dequeue E 0x100 7 1]) = Some ((), (bq2 N 0x218 0x218 e0 e1 0x220, []))"
    "bhp_rlist e1 = 0x200" "N 0x200 = \<lparr>lfn_next = 0x210, lfn_data = NULL\<rparr>" "lfn_data (N 0x210) = 9"
    "lfn_next (N 0x218) = NULL"
    using ex_bq2_delayed [of E] by blast
  moreover have "\<exists>v. enqueue_dequeue E 0x100 7 1 ex_bq2 = Some (7, v)"
    using bq2_other [of "0x210" "0x200" "qnodes ex_bq" ex_hptrs E 7 ex_hptrs]
    by (auto simp: ex_bq2_def ex_hptrs_def ex_bq_def)
  moreover have "\<exists>w. lf_block_queue_dequeue 0x100 1 (bq2 N 0x218 0x218 e0 e1 0x220, []) = Some (NULL, (w, []))"
    by (rule bq2_dequeue_empty) (simp_all add: run)
  ultimately show "\<exists>u v w. bq_holds 0x100 0 ex_bq2 3 [] \<and> enqueue_dequeue E 0x100 7 1 ex_bq2 = Some (7, v) \<and>
     lf_block_queue_enqueue E 0x100 9 0 (ex_bq2, replicate 8 id @ [after_enqueue_dequeue E 0x100 7 1]) =
       Some ((), (u, [])) \<and>
     lf_block_queue_dequeue 0x100 1 (u, []) = Some (NULL, (w, [])) \<and>
     bhp_rlist (lf_hptrs (queues u 0x100) ! 1) = 0x200 \<and> lfn_next (qnodes u 0x200) = 0x210 \<and>
     lfn_data (qnodes u 0x210) = 9"
    by (intro exI [of _ "bq2 N 0x218 0x218 e0 e1 0x220"]) (auto simp: bq2_def ex_bq2_holds)
qed

end
