(* ===== verification/Scheduling.thy ===== *)
theory Scheduling
  imports Scheduler
begin

unbundle bit_operations_syntax

section \<open>What the scheduler does\<close>

text \<open>
  The private queue of a scheduler is a queue; waking a thread enters it into the work
  queue exactly once; the status words follow a state machine in which the terminal states
  are dead ends, but for one transition; and the statements about the code's bugs.
\<close>

subsection \<open>The private queue\<close>

definition qnext :: "'a thread_state_scheme \<Rightarrow> ptr \<Rightarrow> ptr option" where
  "qnext s p = load (t_queue_next_loc p) s"

text \<open>
  The scheduler at \<open>sch\<close> holds the threads \<open>xs\<close>, besides \<open>n\<close> that are not in its queue;
  the threads \<open>T\<close> are in memory.
\<close>

definition sq_holds :: "ptr \<Rightarrow> u32 \<Rightarrow> ptr set \<Rightarrow> 'a sched_state_scheme \<Rightarrow> nat \<Rightarrow> ptr list \<Rightarrow> bool" where
  "sq_holds sch n T s k xs \<longleftrightarrow> sch \<noteq> NULL \<and> (\<exists>r. schedulers s sch = Some r \<and>
     chain (qnext s) (sch_queue_head r) xs NULL \<and> sch_queue_tail r = (if xs = [] then NULL else last xs) \<and>
     sch_num_threads r = n + of_nat (length xs)) \<and> (\<forall>x \<in> T. x \<noteq> NULL \<and> threads s x \<noteq> None)"

definition sq_enq :: "ptr \<Rightarrow> ptr \<Rightarrow> 'a sched_state_scheme \<Rightarrow> 'a sched_state_scheme option" where
  "sq_enq sch thread s = map_option (\<lambda>r. fst (snd r)) (sched_queue_enqueue sch thread (s, []))"

text \<open>A client asks \<open>sched_queue_empty\<close> before it dequeues.\<close>

definition sq_deq :: "ptr \<Rightarrow> 'a sched_state_scheme \<Rightarrow> (ptr option \<times> 'a sched_state_scheme) option" where
  "sq_deq sch s = do {
     (empty, c) \<leftarrow> sched_queue_empty sch (s, []);
     if empty then Some (None, fst c)
     else do { (thread, c) \<leftarrow> sched_queue_dequeue sch c; Some (Some thread, fst c) } }"

lemma qnext_frame [simp]:
  "qnext (store (sch_num_loc sch) n s) = qnext s" "qnext (store (sch_head_loc sch) p s) = qnext s"
  "qnext (store (sch_tail_loc sch) p s) = qnext s" "qnext (store (sch_curr_loc sch) p s) = qnext s"
  by (simp_all add: qnext_def fun_eq_iff)

lemma qnext_store:
  "qnext s x \<noteq> None \<Longrightarrow> qnext (store (t_queue_next_loc x) p s) = (qnext s)(x \<mapsto> p)"
  by (auto simp: qnext_def fun_eq_iff split: if_splits)

lemma sq_enqueue_quiet:
  assumes q: "sq_holds sch n T s k xs" and x: "x \<in> T" "x \<notin> set xs"
  shows "returns (sched_queue_enqueue sch x (s, fs)) (\<lambda>_ c'. snd c' = fs \<and> sq_holds sch n T (fst c') k (xs @ [x]))"
proof -
  obtain r where r: "schedulers s sch = Some r" "sch \<noteq> NULL" "chain (qnext s) (sch_queue_head r) xs NULL"
    "sch_queue_tail r = (if xs = [] then NULL else last xs)" "sch_num_threads r = n + of_nat (length xs)"
    "\<forall>y \<in> T. y \<noteq> NULL \<and> threads s y \<noteq> None"
    using q by (auto simp: sq_holds_def)
  obtain t where t: "threads s x = Some t" "x \<noteq> NULL" using r(6) x(1) by auto
  show ?thesis
  proof (cases "xs = []")
    case True
    then show ?thesis using r t x
      by (simp add: sched_queue_enqueue_def wp sq_holds_def qnext_def)
  next
    case False
    let ?l = "last xs"
    have l1: "?l \<in> set xs" using False by simp
    then have l: "?l \<in> set xs" "?l \<noteq> NULL" "qnext s ?l \<noteq> None"
      using chain_not_NULL [OF r(3)] chain_dom [OF r(3)] by metis+
    then obtain u where u: "threads s ?l = Some u" by (auto simp: qnext_def split: if_splits)
    obtain ys where xs: "xs = ys @ [?l]" using False by (metis append_butlast_last_id)
    have "chain (qnext s) (sch_queue_head r) (ys @ [?l]) NULL" using r(3) xs by metis
    then have ys: "chain (qnext s) (sch_queue_head r) ys ?l" by (auto split: option.splits)
    have "distinct (ys @ [?l])" using chain_distinct [OF r(3)] xs by metis
    then have d: "?l \<notin> set ys" by simp
    have "x \<notin> set (ys @ [?l])" using x(2) xs by metis
    then have "x \<noteq> ?l" "x \<notin> set ys" by simp_all
    then have "chain ((qnext s)(x \<mapsto> NULL, ?l \<mapsto> x)) (sch_queue_head r) (ys @ [?l, x]) NULL"
      using ys d l(2) t(2) by simp
    moreover have "xs @ [x] = ys @ [?l, x]" using xs by simp
    ultimately have c: "chain ((qnext s)(x \<mapsto> NULL, ?l \<mapsto> x)) (sch_queue_head r) (xs @ [x]) NULL" by metis
    let ?v = "s\<lparr>schedulers := (schedulers s)(sch \<mapsto> r\<lparr>sch_num_threads := sch_num_threads r + 1, sch_queue_tail := x\<rparr>),
      threads := (threads s)(x \<mapsto> t\<lparr>t_queue_next := NULL\<rparr>, ?l \<mapsto> u\<lparr>t_queue_next := x\<rparr>)\<rparr>"
    have "qnext ?v = (qnext s)(x \<mapsto> NULL, ?l \<mapsto> x)"
      using t l(2) by (auto simp: qnext_def fun_eq_iff)
    then have "sq_holds sch n T ?v k (xs @ [x])"
      using r t u c x by (simp add: sq_holds_def)
    moreover have "sched_queue_enqueue sch x (s, fs) = Some ((), (?v, fs))"
      using r t u l(2) False \<open>x \<noteq> ?l\<close> by (simp add: sched_queue_enqueue_def prd_def pwr_def fun_upd_def cong: if_cong)
    ultimately show ?thesis by simp
  qed
qed

text \<open>Nothing but the queue of the scheduler at \<open>sch\<close> differs.\<close>

definition queue_only :: "ptr \<Rightarrow> 'a sched_state_scheme \<Rightarrow> 'a sched_state_scheme \<Rightarrow> bool" where
  "queue_only sch s u \<longleftrightarrow> (\<exists>r'. u = s\<lparr>schedulers := (schedulers s)(sch \<mapsto> r')\<rparr> \<and>
     sch_curr_thread r' = sch_curr_thread (the (schedulers s sch)) \<and>
     sch_idle_thread r' = sch_idle_thread (the (schedulers s sch)) \<and>
     sch_gc_thread r' = sch_gc_thread (the (schedulers s sch)))"

lemma sq_dequeue_frame:
  assumes q: "sq_holds sch n T s k (x # xs)"
  shows "returns (sched_queue_dequeue sch (s, fs)) (\<lambda>r c'. r = x \<and> snd c' = fs \<and> sq_holds sch n T (fst c') k xs \<and>
    queue_only sch s (fst c'))"
proof -
  obtain r where r: "schedulers s sch = Some r" "sch \<noteq> NULL" "chain (qnext s) (sch_queue_head r) (x # xs) NULL"
    "sch_queue_tail r = last (x # xs)" "sch_num_threads r = n + of_nat (length (x # xs))"
    "\<forall>y \<in> T. y \<noteq> NULL \<and> threads s y \<noteq> None"
    using q by (auto simp: sq_holds_def)
  obtain p where p: "sch_queue_head r = x" "x \<noteq> NULL" "qnext s x = Some p" "chain (qnext s) p xs NULL"
    using r(3) by (auto split: option.splits)
  obtain t where t: "threads s x = Some t" "t_queue_next t = p"
    using p(2,3) by (auto simp: qnext_def split: if_splits)
  have d: "distinct (x # xs)" by (rule chain_distinct [OF r(3)])
  have only: "queue_only sch s (s\<lparr>schedulers := (schedulers s)(sch \<mapsto> r\<lparr>sch_num_threads := m, sch_queue_tail := a, sch_queue_head := b\<rparr>)\<rparr>)"
    "queue_only sch s (s\<lparr>schedulers := (schedulers s)(sch \<mapsto> r\<lparr>sch_num_threads := m, sch_queue_head := b\<rparr>)\<rparr>)"
    for m a b using r(1) by (auto simp: queue_only_def)
  show ?thesis
  proof (cases "xs = []")
    case True
    let ?v = "s\<lparr>schedulers := (schedulers s)(sch \<mapsto> r\<lparr>sch_num_threads := sch_num_threads r - 1,
      sch_queue_tail := NULL, sch_queue_head := NULL\<rparr>)\<rparr>"
    have "sq_holds sch n T ?v k xs" using r True by (simp add: sq_holds_def)
    moreover have "sched_queue_dequeue sch (s, fs) = Some (x, (?v, fs))"
      using r p True by (simp add: sched_queue_dequeue_def prd_def pwr_def fun_upd_def cong: if_cong)
    ultimately show ?thesis using only by simp
  next
    case False
    let ?v = "s\<lparr>schedulers := (schedulers s)(sch \<mapsto> r\<lparr>sch_num_threads := sch_num_threads r - 1,
      sch_queue_head := p\<rparr>)\<rparr>"
    have "qnext ?v = qnext s" by (simp add: qnext_def fun_eq_iff)
    then have "sq_holds sch n T ?v k xs" using r p False by (simp add: sq_holds_def)
    moreover have "last xs \<noteq> x" using d False by (auto dest: last_in_set)
    then have "sched_queue_dequeue sch (s, fs) = Some (x, (?v, fs))"
      using r p t False by (simp add: sched_queue_dequeue_def prd_def pwr_def fun_upd_def cong: if_cong)
    ultimately show ?thesis using only by simp
  qed
qed

lemma sq_dequeue_quiet:
  assumes "sq_holds sch n T s k (x # xs)"
  shows "returns (sched_queue_dequeue sch (s, fs)) (\<lambda>r c'. r = x \<and> snd c' = fs \<and> sq_holds sch n T (fst c') k xs)"
  by (rule returns_mono [OF sq_dequeue_frame [OF assms]]) simp

lemma sq_empty_quiet:
  assumes "sq_holds sch n T s k xs"
  shows "sched_queue_empty sch (s, fs) = Some (xs = [], (s, fs))"
proof -
  obtain r where r: "schedulers s sch = Some r" "sch \<noteq> NULL" "chain (qnext s) (sch_queue_head r) xs NULL"
    "sch_queue_tail r = (if xs = [] then NULL else last xs)"
    using assms by (auto simp: sq_holds_def)
  have "xs \<noteq> [] \<Longrightarrow> last xs \<noteq> NULL" using chain_not_NULL [OF r(3)] last_in_set by metis
  then show ?thesis using r by (auto simp: sched_queue_empty_def prd_def)
qed

interpretation sq: fifo_queue "sq_enq sch" "sq_deq sch" "sq_holds sch n T" "\<lambda>xs x. x \<in> T \<and> x \<notin> set xs"
  for sch n T
proof unfold_locales
  fix s :: "'a sched_state_scheme" and k xs and x :: ptr
  show "\<exists>t. sq_enq sch x s = Some t \<and> sq_holds sch n T t k (xs @ [x])"
    if "sq_holds sch n T s (Suc k) xs" "x \<in> T \<and> x \<notin> set xs"
  proof -
    have "sq_holds sch n T s k xs" using that(1) by (simp add: sq_holds_def)
    from sq_enqueue_quiet [OF this, of x "[]"] that(2) show ?thesis by (auto simp: sq_enq_def returns_ex)
  qed
  show "\<exists>t. sq_deq sch s = Some (None, t) \<and> sq_holds sch n T t k []" if "sq_holds sch n T s k []"
    using sq_empty_quiet [OF that, of "[]"] that by (simp add: sq_deq_def)
  show "\<exists>t. sq_deq sch s = Some (Some x, t) \<and> sq_holds sch n T t k xs" if "sq_holds sch n T s k (x # xs)"
    using sq_empty_quiet [OF that, of "[]"] sq_dequeue_quiet [OF that, of "[]"] by (auto simp: sq_deq_def returns_ex)
  show "sq_holds sch n T s j xs" if "sq_holds sch n T s k xs" "j \<le> k" for j
    using that by (simp add: sq_holds_def)
qed

subsection \<open>The work queue\<close>

text \<open>The work queue holds the threads \<open>xs\<close>, and what is not its memory is as in \<open>s\<close>.\<close>

definition ws_holds :: "u32 \<Rightarrow> u32 \<Rightarrow> 'a sched_state_scheme \<Rightarrow> nat \<Rightarrow> ptr list \<Rightarrow> bool" where
  "ws_holds ec exec s k xs \<longleftrightarrow> tq_holds ec (sched_workshare s) exec s k xs"

lemma more_eq_all:
  fixes s t :: "'a sched_state_scheme"
  assumes "thread_queue_state.more t = thread_queue_state.more s"
  shows "threads t = threads s \<and> schedulers t = schedulers s \<and> sched_workshare t = sched_workshare s \<and>
    sched_active_threads t = sched_active_threads s \<and> thread_num t = thread_num s \<and> thread_id t = thread_id s \<and>
    sched_state.more t = sched_state.more s"
  using assms by (cases s; cases t; simp)

lemmas more_eq = more_eq_all [THEN conjunct1] more_eq_all [THEN conjunct2, THEN conjunct1]
  more_eq_all [THEN conjunct2, THEN conjunct2, THEN conjunct1]
  more_eq_all [THEN conjunct2, THEN conjunct2, THEN conjunct2, THEN conjunct1]

lemma tq_holdsI:
  "NULL \<notin> set xs \<Longrightarrow> tq_ok s fifo exec free rl sent nodes xs \<Longrightarrow>
   tq_stays ec s fifo (length free - k) (length free + length rl + 1 + length nodes) \<Longrightarrow> tq_holds ec fifo exec s k xs"
  unfolding tq_holds_def by blast

lemma ws_enqueue_quiet:
  assumes "ws_holds ec exec s (Suc k) xs" "x \<noteq> NULL"
  shows "returns (lf_thread_queue_enqueue ec (sched_workshare s) x exec (s, [])) (\<lambda>_ c'. snd c' = [] \<and>
    ws_holds ec exec (fst c') k (xs @ [x]) \<and> thread_queue_state.more (fst c') = thread_queue_state.more s)"
proof -
  obtain free rl sent nodes where
    ok: "tq_ok s (sched_workshare s) exec free rl sent nodes xs" "NULL \<notin> set xs" and
    st: "tq_stays ec s (sched_workshare s) (length free - Suc k) (length free + length rl + 1 + length nodes)"
    using assms(1) by (auto simp: ws_holds_def tq_holds_def)
  then obtain f fs where free: "free = f # fs" by (cases free) (auto simp: tq_stays_def)
  have "tq_room ec s (sched_workshare s) (length (f # fs))" using st free by (auto simp: tq_stays_def tq_room_def)
  from tq_enqueue_quiet [OF ok(1) [unfolded free] this, of x] show ?thesis
  proof (rule returns_mono)
    fix r and c' :: "'a sched_state_scheme conc"
    assume c': "r \<and> snd c' = [] \<and> tq_ok (fst c') (sched_workshare s) exec fs rl sent (nodes @ [f]) (xs @ [x]) \<and>
      tq_total (fst c') (sched_workshare s) = tq_total s (sched_workshare s) \<and>
      thread_queue_state.more (fst c') = thread_queue_state.more s"
    have "tq_stays ec (fst c') (sched_workshare s) (length fs - k) (length fs + length rl + 1 + length (nodes @ [f]))"
      using st c' free by (auto simp: tq_stays_def)
    then have "tq_holds ec (sched_workshare s) exec (fst c') k (xs @ [x])"
      using c' ok(2) assms(2) by (intro tq_holdsI) auto
    then show "snd c' = [] \<and> ws_holds ec exec (fst c') k (xs @ [x]) \<and>
      thread_queue_state.more (fst c') = thread_queue_state.more s"
      using c' more_eq(3) [of "fst c'" s] by (simp add: ws_holds_def)
  qed
qed

lemma ws_dequeue_empty_quiet:
  assumes "ws_holds ec exec s k []"
  shows "returns (lf_thread_queue_dequeue ec (sched_workshare s) exec (s, [])) (\<lambda>r c'. r = NULL \<and> snd c' = [] \<and>
    ws_holds ec exec (fst c') k [] \<and> thread_queue_state.more (fst c') = thread_queue_state.more s)"
proof -
  obtain free rl sent nodes where
    ok: "tq_ok s (sched_workshare s) exec free rl sent nodes []" and
    st: "tq_stays ec s (sched_workshare s) (length free - k) (length free + length rl + 1 + length nodes)"
    using assms by (auto simp: ws_holds_def tq_holds_def)
  then have n: "nodes = []" by (auto simp: tq_ok_def ms_queue_def)
  from tq_dequeue_empty_quiet [OF ok(1) [unfolded n], of ec] show ?thesis
  proof (rule returns_mono)
    fix r and c' :: "'a sched_state_scheme conc"
    assume c': "r = NULL \<and> snd c' = [] \<and> tq_ok (fst c') (sched_workshare s) exec free rl sent [] [] \<and>
      tq_total (fst c') (sched_workshare s) = tq_total s (sched_workshare s) \<and>
      thread_queue_state.more (fst c') = thread_queue_state.more s"
    have "tq_stays ec (fst c') (sched_workshare s) (length free - k) (length free + length rl + 1 + length ([] :: ptr list))"
      using st c' n by (auto simp: tq_stays_def)
    then have "tq_holds ec (sched_workshare s) exec (fst c') k []"
      using c' by (intro tq_holdsI) auto
    then show "r = NULL \<and> snd c' = [] \<and> ws_holds ec exec (fst c') k [] \<and>
      thread_queue_state.more (fst c') = thread_queue_state.more s"
      using c' more_eq(3) [of "fst c'" s] by (simp add: ws_holds_def)
  qed
qed

lemma ws_dequeue_quiet:
  assumes "ws_holds ec exec s k (x # xs)"
  shows "returns (lf_thread_queue_dequeue ec (sched_workshare s) exec (s, [])) (\<lambda>r c'. r = x \<and> snd c' = [] \<and>
    ws_holds ec exec (fst c') k xs \<and> thread_queue_state.more (fst c') = thread_queue_state.more s)"
proof -
  obtain free rl sent nodes where
    ok: "tq_ok s (sched_workshare s) exec free rl sent nodes (x # xs)" "NULL \<notin> set (x # xs)" and
    st: "tq_stays ec s (sched_workshare s) (length free - k) (length free + length rl + 1 + length nodes)"
    using assms by (auto simp: ws_holds_def tq_holds_def)
  then obtain n ns where n: "nodes = n # ns" by (cases nodes) (auto simp: tq_ok_def ms_queue_def)
  have "tq_stays ec s (sched_workshare s) (length free) (length free + length rl + 1)"
    using st by (auto simp: tq_stays_def)
  from tq_dequeue_quiet [OF ok(1) [unfolded n] this] show ?thesis
  proof (rule returns_mono)
    fix r and c' :: "'a sched_state_scheme conc"
    assume "r = x \<and> snd c' = [] \<and> (\<exists>frees rl'. tq_ok (fst c') (sched_workshare s) exec (frees @ free) rl' n ns xs \<and>
      length frees + length rl' = length rl + 1 \<and> tq_total (fst c') (sched_workshare s) = tq_total s (sched_workshare s) \<and>
      thread_queue_state.more (fst c') = thread_queue_state.more s)"
    then obtain frees rl' where c': "r = x" "snd c' = []"
      "tq_ok (fst c') (sched_workshare s) exec (frees @ free) rl' n ns xs" "length frees + length rl' = length rl + 1"
      "tq_total (fst c') (sched_workshare s) = tq_total s (sched_workshare s)"
      "thread_queue_state.more (fst c') = thread_queue_state.more s" by blast
    have "tq_stays ec (fst c') (sched_workshare s) (length (frees @ free) - k) (length (frees @ free) + length rl' + 1 + length ns)"
      using st c' n by (auto simp: tq_stays_def)
    then have "tq_holds ec (sched_workshare s) exec (fst c') k xs"
      using c' ok(2) by (intro tq_holdsI) auto
    then show "r = x \<and> snd c' = [] \<and> ws_holds ec exec (fst c') k xs \<and>
      thread_queue_state.more (fst c') = thread_queue_state.more s"
      using c' more_eq(3) [of "fst c'" s] by (simp add: ws_holds_def)
  qed
qed

lemma tq_holds_cong:
  fixes s t :: "'a thread_queue_state_scheme"
  assumes "tq_nodes t = tq_nodes s" "tq_queues t = tq_queues s" "tq_allocs t = tq_allocs s"
    "lf_thread_queue_hptrs t = lf_thread_queue_hptrs s"
    "lf_thread_queue_hptr_threshold t = lf_thread_queue_hptr_threshold s"
  shows "tq_holds ec fifo exec t k xs = tq_holds ec fifo exec s k xs"
proof -
  have n: "tnext t = tnext s" using assms by (simp add: tnext_def fun_eq_iff)
  have l: "tq_live fifo exec t = tq_live fifo exec s" using assms by (simp add: tq_live_def nl_live_def)
  have q: "tq_nodes_are t fifo sent nodes vals = tq_nodes_are s fifo sent nodes vals" for sent nodes vals
    by (intro ms_queue_cong) (simp_all add: assms)
  have p: "tq_pool t fifo exec free rl = tq_pool s fifo exec free rl" for free rl
    unfolding tq_pool_def tq_private_def tq_retired_def tq_hptrs_ok_def n l assms ..
  show ?thesis unfolding tq_holds_def tq_ok_def tq_stays_def p q assms ..
qed

text \<open>The work queue does not live in the threads, the schedulers or the counters.\<close>

lemma ws_holds_frame [simp]:
  "ws_holds ec exec (store (t_stat_loc p) v s) k xs = ws_holds ec exec s k xs"
  "ws_holds ec exec (s\<lparr>threads := th\<rparr>) k xs = ws_holds ec exec s k xs"
  "ws_holds ec exec (s\<lparr>schedulers := sh\<rparr>) k xs = ws_holds ec exec s k xs"
  "ws_holds ec exec (s\<lparr>sched_active_threads := a\<rparr>) k xs = ws_holds ec exec s k xs"
  "ws_holds ec exec (s\<lparr>thread_num := b\<rparr>) k xs = ws_holds ec exec s k xs"
  unfolding ws_holds_def by (simp_all, (intro tq_holds_cong; simp)+)

subsection \<open>Waking a thread\<close>

lemma retry_nonzero_now:
  "returns (try c) (\<lambda>r c'. r \<noteq> 0 \<and> Q r c') \<Longrightarrow> returns (retry_nonzero try c) Q"
  by (auto simp: retry_nonzero_def retry.simps returns_ex)

abbreviation "status s thread \<equiv> t_sched_stat_ref (the (threads s thread))"

definition terminal :: "u32 \<Rightarrow> bool" where
  "terminal w \<longleftrightarrow> stat_of w = T_STAT_TERM \<or> stat_of w = T_STAT_DEAD \<or> stat_of w = T_STAT_DESTROY"

lemma prd_global [simp]: "prd (global_loc g u) c = Some (g (fst c), c)"
  by (simp add: prd_def)

lemma activate_quiet:
  assumes "ws_holds (executor_count E) exec s (Suc k) xs" "thread \<noteq> NULL" "threads s thread \<noteq> None"
    and restart: "\<And>u. status u thread = T_STAT_RUNNABLE OR T_REF \<Longrightarrow> ws_holds (executor_count E) exec u k (xs @ [thread]) \<Longrightarrow>
      threads u = threads (store (t_stat_loc thread) (T_STAT_RUNNABLE OR T_REF) s) \<Longrightarrow> schedulers u = schedulers s \<Longrightarrow>
      thread_num u = thread_num s \<Longrightarrow> sched_state.more u = sched_state.more s \<Longrightarrow>
      returns (restart (u, [])) (\<lambda>_ c'. status (fst c') thread = T_STAT_RUNNABLE OR T_REF \<and>
        ws_holds (executor_count E) exec (fst c') k (xs @ [thread]) \<and> P c')"
  shows "returns (scheduler_activate_thread E restart thread exec (s, [])) (\<lambda>r c'.
    if terminal (status s thread) then \<not> r \<and> c' = (s, [])
    else r \<and> status (fst c') thread = T_STAT_RUNNABLE OR T_REF \<and>
      ws_holds (executor_count E) exec (fst c') k (if status s thread AND T_REF = 0 then xs @ [thread] else xs) \<and>
      (if status s thread AND T_REF = 0 then P c' else snd c' = [] \<and> schedulers (fst c') = schedulers s \<and>
        sched_state.more (fst c') = sched_state.more s \<and> threads (fst c') = threads (store (t_stat_loc thread) (T_STAT_RUNNABLE OR T_REF) s)))"
proof -
  let ?w = "status s thread" and ?ec = "executor_count E"
  obtain t where t: "threads s thread = Some t" using assms(3) by blast
  have rdw: "rd (t_stat_loc thread) (s, []) = Some (?w, (s, []))"
    using t assms(2) by (simp add: rd_def Let_def)
  let ?s = "store (t_stat_loc thread) (T_STAT_RUNNABLE OR T_REF) s"
  have cas: "atomic_compare_and_set_uint ?w (T_STAT_RUNNABLE OR T_REF) (t_stat_loc thread) (s, []) = Some (True, (?s, []))"
    using t assms(2) by (simp add: atomic_cas_defs cas_def Let_def)
  have low: "ws_holds ?ec exec s k xs"
    using assms(1) tq.room_law [of ?ec "sched_workshare s" exec s "Suc k" xs k] by (simp add: ws_holds_def)
  show ?thesis
  proof (cases "terminal ?w")
    case True
    then have "scheduler_try_activate_thread E restart thread exec (s, []) = Some (- 1, (s, []))"
      using rdw by (auto simp: scheduler_try_activate_thread_def terminal_def)
    then show ?thesis using True
      by (simp add: scheduler_activate_thread_def retry_nonzero_def retry.simps)
  next
    case False
    then have nt: "T_STAT_TERM \<noteq> stat_of ?w \<and> T_STAT_DEAD \<noteq> stat_of ?w \<and> T_STAT_DESTROY \<noteq> stat_of ?w"
      by (auto simp: terminal_def)
    let ?inc = "T_STAT_RUNNABLE \<noteq> stat_of ?w \<and> T_STAT_RUNNING \<noteq> stat_of ?w \<and> T_STAT_GC_WAIT \<noteq> stat_of ?w"
    let ?u = "if ?inc then ?s\<lparr>sched_active_threads := sched_active_threads ?s + 1\<rparr> else ?s"
    have inc: "(if ?inc then atomic_increment_uint sched_active_loc (?s, []) else Some ((), (?s, []))) = Some ((), (?u, []))"
      by (simp add: atomic_increment_uint_def Let_def)
    have u: "status ?u thread = T_STAT_RUNNABLE OR T_REF" "sched_workshare ?u = sched_workshare s"
      "\<And>j. ws_holds ?ec exec ?u j xs = ws_holds ?ec exec s j xs" "schedulers ?u = schedulers s" "threads ?u = threads ?s"
      "sched_state.more ?u = sched_state.more s"
      using t by (simp_all del: field_loc_simps(2)) (simp_all)
    show ?thesis
    proof (cases "?w AND T_REF = 0")
      case False
      have "scheduler_try_activate_thread E restart thread exec (s, []) = Some (1, (?u, []))"
        using rdw cas inc nt False by (simp add: scheduler_try_activate_thread_def Let_def del: field_loc_simps)
      then show ?thesis using False nt u low
        by (auto simp: scheduler_activate_thread_def retry_nonzero_def retry.simps terminal_def simp del: field_loc_simps)
    next
      case True
      have "returns (lf_thread_queue_enqueue ?ec (sched_workshare s) thread exec (?u, [])) (\<lambda>_ c'. snd c' = [] \<and>
          ws_holds ?ec exec (fst c') k (xs @ [thread]) \<and> thread_queue_state.more (fst c') = thread_queue_state.more ?u)"
        using ws_enqueue_quiet [of ?ec exec ?u k xs thread] u assms(1,2) by simp
      then obtain b v where v: "lf_thread_queue_enqueue ?ec (sched_workshare s) thread exec (?u, []) = Some (b, (v, []))"
        "ws_holds ?ec exec v k (xs @ [thread])" "thread_queue_state.more v = thread_queue_state.more ?u"
        by (auto simp: returns_ex)
      have "status v thread = T_STAT_RUNNABLE OR T_REF" using more_eq(1) [OF v(3)] u(1) by simp
      moreover have "threads v = threads ?s" "schedulers v = schedulers s" "thread_num v = thread_num s"
        "sched_state.more v = sched_state.more s"
        using more_eq_all [OF v(3)] by (simp_all split: if_splits)
      ultimately obtain c' where c': "restart (v, []) = Some ((), c')" "P c'"
        "status (fst c') thread = T_STAT_RUNNABLE OR T_REF" "ws_holds ?ec exec (fst c') k (xs @ [thread])"
        using restart [of v] v(2) by (auto simp: returns_ex simp del: field_loc_simps)
      have "scheduler_try_activate_thread E restart thread exec (s, []) = Some (1, c')"
        using rdw cas inc nt True v(1) c'(1) u(2)
        by (simp add: scheduler_try_activate_thread_def Let_def del: field_loc_simps)
      then show ?thesis using True nt c'
        by (auto simp: scheduler_activate_thread_def retry_nonzero_def retry.simps terminal_def)
    qed
  qed
qed

text \<open>
  C13 [activate]. Waking a thread that has ended fails and changes nothing. Otherwise the
  thread becomes runnable and referenced, and it is entered at the end of the work queue if
  and only if no queue referred to it before: a thread is never in the queues twice.
\<close>

theorem activate_enters_once:
  assumes "ws_holds (executor_count E) exec s (Suc k) xs" "thread \<noteq> NULL" "threads s thread \<noteq> None"
    and restart: "\<And>u. status u thread = T_STAT_RUNNABLE OR T_REF \<Longrightarrow> ws_holds (executor_count E) exec u k (xs @ [thread]) \<Longrightarrow>
      returns (restart (u, [])) (\<lambda>_ c'. status (fst c') thread = T_STAT_RUNNABLE OR T_REF \<and>
        ws_holds (executor_count E) exec (fst c') k (xs @ [thread]))"
  shows "returns (scheduler_activate_thread E restart thread exec (s, [])) (\<lambda>r c'.
    if terminal (status s thread) then \<not> r \<and> c' = (s, [])
    else r \<and> status (fst c') thread = T_STAT_RUNNABLE OR T_REF \<and>
      ws_holds (executor_count E) exec (fst c') k (if status s thread AND T_REF = 0 then xs @ [thread] else xs))"
proof -
  have "returns (scheduler_activate_thread E restart thread exec (s, [])) (\<lambda>r c'.
    if terminal (status s thread) then \<not> r \<and> c' = (s, [])
    else r \<and> status (fst c') thread = T_STAT_RUNNABLE OR T_REF \<and>
      ws_holds (executor_count E) exec (fst c') k (if status s thread AND T_REF = 0 then xs @ [thread] else xs) \<and>
      (if status s thread AND T_REF = 0 then True else snd c' = [] \<and> schedulers (fst c') = schedulers s \<and>
        sched_state.more (fst c') = sched_state.more s \<and> threads (fst c') = threads (store (t_stat_loc thread) (T_STAT_RUNNABLE OR T_REF) s)))"
    by (rule activate_quiet [OF assms(1-3), where P = "\<lambda>_. True"]) (simp add: restart)
  then show ?thesis by (rule returns_mono) (simp split: if_splits del: field_loc_simps)
qed

text \<open>
  C17 [sched_queue]. The private queue of a scheduler is a queue: any sequence of entering
  threads that are not in it and of taking the next one, asking first whether there is one,
  runs to its end and gives the threads a list gives; the count of threads is kept.
\<close>

theorem private_queue_is_fifo:
  assumes "sq_holds sch n T s 0 xs" "fits_run (\<lambda>ys y. y \<in> T \<and> y \<notin> set ys) ops xs"
  shows "\<exists>t. run_fifo (sq_enq sch) (sq_deq sch) ops s = Some (fst (run_list ops xs), t) \<and>
    sq_holds sch n T t 0 (snd (run_list ops xs))"
proof -
  have "sq_holds sch n T s (length (enqueued ops)) xs" using assms(1) by (simp add: sq_holds_def)
  then show ?thesis using assms(2) by (rule sq.runs_as_list)
qed

subsection \<open>The work queue at the start\<close>

lemma start_share:
  fixes e :: nat
  assumes "e \<noteq> 0" "N = e * share + 1" "share = (if 16 < e then e else 16) + 2 * e + 2"
  shows "max 1 ((N - N div 4) div e) + 3 < share"
proof -
  have "18 + 2 * e \<le> share" using assms(3) by simp
  then have "e * (18 + 2 * e) \<le> e * share" by (rule mult_le_mono2)
  moreover have "e * (18 + 2 * e) = 18 * e + 2 * (e * e)" by (simp add: algebra_simps)
  moreover have "0 < e * e" "0 < e" using assms(1) by simp_all
  ultimately have es: "6 + 12 * e < e * share" by linarith
  have "(N - N div 4) div e < share - 3"
  proof (rule div_less_iff_less_mult [THEN iffD2])
    have "4 * (N - N div 4) \<le> 3 * N + 3" by linarith
    also have "\<dots> = 3 * (e * share) + 6" using assms(2) by simp
    also have "\<dots> < 4 * (e * share) - 12 * e" using es by linarith
    finally have "4 * (N - N div 4) < 4 * (e * share) - 12 * e" .
    moreover have "4 * (e * share) - 12 * e = 4 * ((share - 3) * e)" by (simp add: algebra_simps diff_mult_distrib)
    ultimately show "N - N div 4 < (share - 3) * e" by linarith
  qed (use assms(1) in simp)
  moreover have "18 \<le> share" using assms(3) by simp
  ultimately show ?thesis by linarith
qed

definition ws_cap :: "u32 \<Rightarrow> u32" where
  "ws_cap execs = execs * (if 16 < execs then execs else 16)"

lemma start_ready:
  fixes s :: "'a sched_state_scheme"
  assumes "tq_memory s mem (ws_cap execs) execs" "unat execs < 2 ^ 13"
  shows "returns (scheduler_start execs mem (s, [])) (\<lambda>_ c. snd c = [] \<and>
    (\<forall>exec < execs. ws_holds execs exec (fst c) 3 []) \<and> sched_active_threads (fst c) = 1 \<and>
    sched_workshare (fst c) = mem \<and> threads (fst c) = threads s \<and> schedulers (fst c) = schedulers s)"
proof -
  have e: "execs \<noteq> 0" "tq_count (ws_cap execs) execs < 2 ^ 28" using assms(1) by (auto simp: tq_memory_def)
  let ?m = "if 16 < unat execs then unat execs else 16"
  have "unat execs * ?m < 2 ^ 32"
  proof -
    have "unat execs * ?m \<le> 2 ^ 13 * 2 ^ 13" using assms(2) by (intro mult_le_mono) auto
    then show ?thesis by simp
  qed
  moreover have "unat (if 16 < execs then execs else 16) = ?m" by (simp add: word_less_nat_alt)
  ultimately have cap: "unat (ws_cap execs) = unat execs * ?m"
    using unat_mult_lem [of execs "if 16 < execs then execs else 16"] by (simp add: ws_cap_def)
  have N: "tq_count (ws_cap execs) execs = unat execs * (?m + 2 * unat execs + 2) + 1"
    by (simp add: tq_count_def cap algebra_simps)
  have share: "tq_share (ws_cap execs) execs = ?m + 2 * unat execs + 2"
    unfolding tq_share_def N using e(1) by (simp add: unat_eq_0)
  have room: "max 1 ((tq_count (ws_cap execs) execs - tq_count (ws_cap execs) execs div 4) div unat execs) + 3
      < tq_share (ws_cap execs) execs"
    by (rule start_share) (use e(1) N share in \<open>auto simp: unat_eq_0\<close>)
  show ?thesis unfolding scheduler_start_def Let_def ws_cap_def [symmetric] returns_bind
  proof (rule returns_mono [OF init_ready [OF assms(1), of "[]"]])
    fix a and c :: "'a sched_state_scheme conc"
    assume "snd c = [] \<and> tq_ready mem (ws_cap execs) execs (fst c) \<and>
      thread_queue_state.more (fst c) = thread_queue_state.more s"
    then obtain u where u: "c = (u, [])" "tq_ready mem (ws_cap execs) execs u"
      "thread_queue_state.more u = thread_queue_state.more s" by (cases c) auto
    have h: "tq_holds execs mem exec u 3 []" if "exec < execs" for exec
      by (rule ready_room [OF u(2) assms(1) that room])
    have "ws_holds execs exec (u\<lparr>sched_workshare := mem, sched_active_threads := 1\<rparr>) 3 []" if "exec < execs" for exec
      using h [OF that] tq_holds_cong [of "u\<lparr>sched_workshare := mem, sched_active_threads := 1\<rparr>" u execs mem exec 3 "[]"]
      by (simp add: ws_holds_def)
    then show "returns (case (a, c) of (p, c) \<Rightarrow> pwr sched_workshare_loc mem c \<bind>
        (\<lambda>(_, c). pwr sched_active_loc 1 c \<bind> (\<lambda>(_, c). Some (p, c))))
      (\<lambda>_ c. snd c = [] \<and> (\<forall>exec < execs. ws_holds execs exec (fst c) 3 []) \<and> sched_active_threads (fst c) = 1 \<and>
        sched_workshare (fst c) = mem \<and> threads (fst c) = threads s \<and> schedulers (fst c) = schedulers s)"
      using u(1) more_eq [OF u(3)] by (simp add: wp)
  qed
qed

text \<open>Memory with a thread at \<open>0x10\<close> whose status word is \<open>w\<close>, one at \<open>0x20\<close>, and a scheduler.\<close>

definition ex_thread :: "u32 \<Rightarrow> thread_t" where
  "ex_thread w = \<lparr>t_sched_stat_ref = w, t_mbox = (\<lambda>_. 0), t_id = 0, t_destroy = NULL, t_rlist_next = NULL,
     t_queue_next = NULL\<rparr>"

definition ex_env :: "sched_state sched_env" where
  "ex_env = \<lparr>env_mmap = (\<lambda>_. - 1), env_failures = (\<lambda>_. 0), env_out = (\<lambda>_. 0), GC_STATE_INACTIVE = 0,
     GC_STATE_PHASE = 1, GC_STATE_INITIAL = 2, env_bsr = 0, executor_count = 1,
     call_destroy = (\<lambda>_ _ c. Some ((), c)), thread_mbox_null_executor = 0\<rparr>"

lemma ex_env_simps [simp]:
  "GC_STATE_INACTIVE ex_env = 0" "GC_STATE_PHASE ex_env = 1" "executor_count ex_env = 1"
  "call_destroy ex_env = (\<lambda>_ _ c. Some ((), c))" "thread_mbox_null_executor ex_env = 0"
  by (simp_all add: ex_env_def)

definition ex_sched :: "u32 \<Rightarrow> sched_state" where
  "ex_sched w = thread_queue_state.extend (thread_queue_state.truncate ex_tq)
     \<lparr>threads = [0x10 \<mapsto> ex_thread w, 0x20 \<mapsto> ex_thread T_STAT_RUNNABLE], thread_num = 2, thread_id = 2,
      schedulers = [0x8 \<mapsto> \<lparr>sch_num_threads = 0, sch_queue_head = NULL, sch_queue_tail = NULL,
        sch_curr_thread = NULL, sch_idle_thread = NULL, sch_gc_thread = NULL\<rparr>],
      sched_workshare = NULL, sched_active_threads = 1\<rparr>"

lemma ex_sched_memory: "tq_memory (ex_sched w) (0x10000 - 0x80) (ws_cap 1) 1"
  unfolding tq_memory_def
  by (simp_all add: ws_cap_def tq_node_def tq_alloc_at_def tq_align_def tq_count_def ex_sched_def
      thread_queue_state.extend_def thread_queue_state.truncate_def ex_tq_node)

lemma ex_sched_started:
  obtains u :: sched_state where "ws_holds 1 0 u 3 []" "threads u = threads (ex_sched w)" "schedulers u = schedulers (ex_sched w)"
proof -
  from start_ready [OF ex_sched_memory [of w]] obtain p and c :: "sched_state conc" where
    "ws_holds 1 0 (fst c) 3 []" "threads (fst c) = threads (ex_sched w)" "schedulers (fst c) = schedulers (ex_sched w)"
    by (auto simp: returns_ex)
  then show ?thesis using that by blast
qed

lemma ex_sched_simps [simp]:
  "threads (ex_sched w) = [0x10 \<mapsto> ex_thread w, 0x20 \<mapsto> ex_thread T_STAT_RUNNABLE]"
  "schedulers (ex_sched w) = [0x8 \<mapsto> \<lparr>sch_num_threads = 0, sch_queue_head = NULL, sch_queue_tail = NULL,
        sch_curr_thread = NULL, sch_idle_thread = NULL, sch_gc_thread = NULL\<rparr>]"
  by (simp_all add: ex_sched_def thread_queue_state.extend_def thread_queue_state.truncate_def)

text \<open>
  \<open>scheduler_start\<close> returns with an empty work queue from which
  every executor can take and to which each can add at least three threads without asking
  the others for nodes, counts one active thread, and touches no thread and no scheduler.
\<close>

theorem scheduler_start_work_queue:
  assumes "tq_memory s mem (execs * (if 16 < execs then execs else 16)) execs" "unat execs < 2 ^ 13"
    "exec < execs" "length (enqueued ops) \<le> 3" "NULL \<notin> set (enqueued ops)"
  shows "\<exists>p u t. scheduler_start execs mem (s, []) = Some (p, (u, [])) \<and> sched_active_threads u = 1 \<and>
    threads u = threads s \<and> schedulers u = schedulers s \<and>
    run_fifo (tq_enq execs (sched_workshare u) exec) (tq_deq execs (sched_workshare u) exec) ops u =
      Some (fst (run_list ops []), t)"
proof -
  from start_ready [OF assms(1) [folded ws_cap_def] assms(2)] obtain p u where
    u: "scheduler_start execs mem (s, []) = Some (p, (u, []))" "ws_holds execs exec u 3 []"
    "sched_active_threads u = 1" "threads u = threads s" "schedulers u = schedulers s"
    using assms(3) by (auto simp: returns_ex)
  have "tq_holds execs (sched_workshare u) exec u (length (enqueued ops)) []"
    using tq.room_law [OF u(2) [unfolded ws_holds_def] assms(4)] .
  from tq.runs_as_list [OF this] show ?thesis
    using u fits_run_all [of ops "\<lambda>x. x \<noteq> NULL"] assms(5) by metis
qed

lemma scheduler_start_work_queue_witness:
  "\<exists>p u t. scheduler_start 1 (0x10000 - 0x80) (ex_sched 0, []) = Some (p, (u, [])) \<and>
    run_fifo (tq_enq 1 (sched_workshare u) 0) (tq_deq 1 (sched_workshare u) 0) [Deq, Enq 0x10, Enq 0x20, Deq, Deq] u =
      Some ([None, Some 0x10, Some 0x20], t)"
proof -
  have m: "tq_memory (ex_sched 0) (0x10000 - 0x80) (1 * (if 16 < (1 :: u32) then 1 else 16)) 1"
    by (rule ex_sched_memory [unfolded ws_cap_def])
  from scheduler_start_work_queue [OF m, of 0 "[Deq, Enq 0x10, Enq 0x20, Deq, Deq]"] show ?thesis
    by auto
qed

lemma activate_enters_once_witness:
  "\<exists>s :: sched_state. returns (scheduler_activate_thread ex_env (\<lambda>c. Some ((), c)) 0x10 0 (s, []))
    (\<lambda>r c'. r \<and> ws_holds 1 0 (fst c') 2 [0x10])"
proof -
  obtain u :: sched_state where u: "ws_holds 1 0 u 3 []" "threads u = threads (ex_sched T_STAT_SUSPENDED)"
    by (rule ex_sched_started)
  let ?E = "ex_env"
  have t: "threads u 0x10 = Some (ex_thread T_STAT_SUSPENDED)" using u(2) by simp
  have "ws_holds (executor_count ?E) 0 u (Suc 2) []" using u(1) by simp
  from activate_enters_once [OF this, where thread = "0x10" and restart = "\<lambda>c. Some ((), c)"] show ?thesis
    using t by (intro exI [of _ u]) (auto simp: ex_thread_def terminal_def stat_of_def t_stat_defs elim!: returns_mono)
qed

subsection \<open>Status words under interference\<close>

text \<open>
  One round of every loop on a status word: read it, and compare-and-set it if it may be
  changed. The round either sees the value it read or an interference has happened.
\<close>

definition cas_round :: "('s, 'v) loc \<Rightarrow> 's conc \<Rightarrow> 's conc \<Rightarrow> 'v \<Rightarrow> bool" where
  "cas_round l c d v \<longleftrightarrow> rd l d = Some (v, interfere d) \<and> load l (fst (interfere d)) = Some v \<and> env_to c (interfere d) \<and>
     (\<forall>e new. env_to (interfere d) e \<longrightarrow>
       cas v new l e = Some (True, (store l new (fst (interfere e)), snd (interfere e))) \<and> load l (fst (interfere e)) = Some v \<or>
       cas v new l e = Some (False, interfere e) \<and> length (snd (interfere e)) < length (snd d))"

lemma env_to_shorter: "env_to c d \<Longrightarrow> length (snd d) \<le> length (snd c) \<and> (d = c \<or> length (snd d) < length (snd c))"
  by (cases c; cases d) (auto simp: env_to_def)

lemma cas_round_ex:
  assumes to: "env_to c d" and I: "env_inv I c" "I (fst c)" "\<And>s. I s \<Longrightarrow> load l s \<noteq> None"
  shows "\<exists>v. cas_round l c d v"
proof -
  let ?d1 = "interfere d"
  have d1: "env_to c ?d1" using to env_to_interfere env_to_trans by blast
  have "I (fst ?d1)" using env_to_inv [OF d1 I(1,2)] ..
  then obtain v where v: "load l (fst ?d1) = Some v" using I(3) by blast
  have "cas v new l e = Some (True, (store l new (fst (interfere e)), snd (interfere e))) \<and> load l (fst (interfere e)) = Some v \<or>
      cas v new l e = Some (False, interfere e) \<and> length (snd (interfere e)) < length (snd d)"
    if e: "env_to ?d1 e" for e new
  proof -
    have e2: "env_to ?d1 (interfere e)" using e env_to_interfere env_to_trans by blast
    have ce: "env_to c (interfere e)" by (rule env_to_trans [OF d1 e2])
    have "I (fst (interfere e))" using env_to_inv [OF ce I(1,2)] ..
    then obtain w where w: "load l (fst (interfere e)) = Some w" using I(3) by blast
    have "length (snd (interfere e)) < length (snd d)" if "w \<noteq> v"
    proof -
      have "interfere e \<noteq> ?d1" using v w that by auto
      then show ?thesis using env_to_shorter [OF e2] by (auto simp: length_interfere)
    qed
    then show ?thesis using w by (auto simp: cas_def Let_def)
  qed
  then show ?thesis using v d1 by (auto simp: cas_round_def rd_def Let_def)
qed

text \<open>The two outcomes of the compare-and-set of a round.\<close>

lemma cas_roundE:
  assumes "cas_round l c d v" "env_to (interfere d) e"
  obtains (swap) "cas v new l e = Some (True, (store l new (fst (interfere e)), snd (interfere e)))"
      "env_to c (interfere e)" "load l (fst (interfere e)) = Some v"
    | (again) "cas v new l e = Some (False, interfere e)"
      "env_to c (interfere e)" "length (snd (interfere e)) < length (snd d)"
proof -
  have "env_to c (interfere d)" using assms(1) by (simp add: cas_round_def)
  then have "env_to c (interfere e)"
    by (rule env_to_trans [OF env_to_trans [OF _ assms(2)] env_to_interfere])
  then show ?thesis using assms that unfolding cas_round_def by blast
qed

abbreviation thread_mapped :: "ptr \<Rightarrow> 'a sched_state_scheme \<Rightarrow> bool" where
  "thread_mapped thread s \<equiv> threads s thread \<noteq> None"

text \<open>
  What \<open>scheduler_update_thread\<close> has done when it ends in \<open>c'\<close>: at the moment \<open>d\<close> it has replaced
  the word, or found that it must not.
\<close>

definition updated :: "ptr \<Rightarrow> u32 \<Rightarrow> 'a sched_state_scheme conc \<Rightarrow> bool \<Rightarrow> 'a sched_state_scheme conc \<Rightarrow> bool" where
  "updated thread stat d r c' \<longleftrightarrow>
    (if terminal (status (fst d) thread) \<and> stat \<noteq> T_STAT_DESTROY then \<not> r \<and> c' = d
     else r \<and> c' = (store (t_stat_loc thread) (status (fst d) thread AND T_REF OR stat) (fst d), snd d))"

lemma update_round:
  assumes "thread \<noteq> NULL" "env_inv (thread_mapped thread) c" "thread_mapped thread (fst c)" and d: "env_to c d"
  shows "returns (scheduler_try_update_thread thread stat d) (\<lambda>r c'.
    if r = 0 then env_to c c' \<and> length (snd c') < length (snd d)
    else \<exists>e. env_to c e \<and> updated thread stat e (0 < r) c')"
proof -
  let ?l = "t_stat_loc thread" and ?d1 = "interfere d" and ?d2 = "interfere (interfere d)"
  have ld: "load ?l s \<noteq> None" if "thread_mapped thread s" for s using that assms(1) by simp
  have st: "status s thread = w" if "load ?l s = Some w" for s w
    using that by (auto split: if_splits)
  obtain v where r: "cas_round ?l c d v" using cas_round_ex [OF d assms(2,3) ld] by blast
  then have v: "rd ?l d = Some (v, ?d1)" "load ?l (fst ?d1) = Some v" "env_to c ?d1"
    by (simp_all add: cas_round_def)
  show ?thesis
  proof (cases "terminal v \<and> stat \<noteq> T_STAT_DESTROY")
    case True
    then have run: "scheduler_try_update_thread thread stat d = Some (- 1, ?d1)"
      using v(1) by (auto simp: scheduler_try_update_thread_def terminal_def)
    have "updated thread stat ?d1 False ?d1" using True st [OF v(2)] by (simp add: updated_def)
    then have "\<exists>e. env_to c e \<and> updated thread stat e False ?d1" using v(3) by blast
    then show ?thesis by (simp add: run)
  next
    case False
    then have at: "scheduler_try_update_thread thread stat d =
        cas v (v AND T_REF OR stat) ?l ?d1 \<bind> (\<lambda>(ok, c). Some (c_int ok, c))"
      using v(1) by (auto simp: scheduler_try_update_thread_def terminal_def atomic_cas_defs)
    from r env_to_refl show ?thesis
    proof (cases rule: cas_roundE [where new = "v AND T_REF OR stat"])
      case swap
      then have "updated thread stat ?d2 True (store ?l (v AND T_REF OR stat) (fst ?d2), snd ?d2)"
        using False st [of "fst ?d2" v] unfolding updated_def by auto
      then have "\<exists>e. env_to c e \<and> updated thread stat e True (store ?l (v AND T_REF OR stat) (fst ?d2), snd ?d2)"
        using swap(2) by blast
      then show ?thesis using swap(1) by (simp add: at c_int_def del: field_loc_simps)
    next
      case again
      then show ?thesis by (simp add: at c_int_def)
    qed
  qed
qed

text \<open>
  C16 [update_thread]. Whatever the other executors do, as long as the thread stays in memory,
  \<open>scheduler_update_thread\<close> returns; at one moment it replaces the status and keeps the
  reference flag of the word as it is at that moment, unless the thread has ended then and
  is not being destroyed, when it reports failure and changes nothing.
\<close>

theorem update_thread_atomic:
  assumes "thread \<noteq> NULL" "env_inv (thread_mapped thread) c" "thread_mapped thread (fst c)"
  shows "returns (scheduler_update_thread thread stat c) (\<lambda>r c'. \<exists>d. env_to c d \<and>
    (if terminal (status (fst d) thread) \<and> stat \<noteq> T_STAT_DESTROY then \<not> r \<and> c' = d
     else r \<and> c' = (store (t_stat_loc thread) (status (fst d) thread AND T_REF OR stat) (fst d), snd d)))"
proof -
  have "returns (retry_nonzero (scheduler_try_update_thread thread stat) c)
      (\<lambda>r c'. \<exists>d. env_to c d \<and> updated thread stat d (0 < r) c')"
    unfolding retry_nonzero_def
  proof (rule retry_rule [where P = "env_to c"])
    fix d assume "env_to c d"
    note round = update_round [OF assms this, of stat]
    show "returns (scheduler_try_update_thread thread stat d \<bind> (\<lambda>(res, c). Some (if res = 0 then None else Some res, c)))
      (\<lambda>r c'. case r of Some a \<Rightarrow> \<exists>d. env_to c d \<and> updated thread stat d (0 < a) c'
        | None \<Rightarrow> env_to c c' \<and> length (snd c') < length (snd d))"
      unfolding returns_bind by (rule returns_mono [OF round]) (auto split: if_splits)
  qed simp
  then show ?thesis
    unfolding scheduler_update_thread_def returns_bind updated_def prod.case returns_Some fst_conv snd_conv .
qed

subsection \<open>What an executor finds when it takes a thread up\<close>

text \<open>The status words a queued thread may have; the others stop the program.\<close>

definition queued_stat :: "u32 \<Rightarrow> bool" where
  "queued_stat w \<longleftrightarrow> stat_of w \<in> {T_STAT_RUNNABLE, T_STAT_RUNNING, T_STAT_FINALIZER_LIVE, T_STAT_GC_WAIT,
     T_STAT_SUSPEND, T_STAT_TERM, T_STAT_DESTROY}"

text \<open>
  What \<open>sched_set_running_status\<close> did when the word was last as in \<open>d\<close>: \<open>e\<close> is a moment
  before it, at which it looked at the collector.
\<close>

fun acknowledged ::
  "'a sched_state_scheme sched_env \<Rightarrow> ptr \<Rightarrow> 'a sched_state_scheme conc \<Rightarrow> 'a sched_state_scheme conc \<Rightarrow>
   action_t \<Rightarrow> 'a sched_state_scheme conc \<Rightarrow> bool" where
  "acknowledged E thread e d EXECUTE c' = (
     (stat_of (status (fst d) thread) \<in> {T_STAT_RUNNABLE, T_STAT_RUNNING, T_STAT_FINALIZER_LIVE} \<or>
      stat_of (status (fst d) thread) = T_STAT_GC_WAIT \<and> GC_STATE_INACTIVE E = gc_state (fst e) AND GC_STATE_PHASE E) \<and>
     c' = (store (t_stat_loc thread) (T_STAT_RUNNING OR T_REF) (fst d), snd d))"
| "acknowledged E thread e d SKIP c' = (
     stat_of (status (fst d) thread) = T_STAT_GC_WAIT \<and> env_to d c' \<and>
     GC_STATE_INACTIVE E \<noteq> gc_state (fst c') AND GC_STATE_PHASE E)"
| "acknowledged E thread e d DISCARD c' = (
     stat_of (status (fst d) thread) = T_STAT_SUSPEND \<and>
       c' = (store (t_stat_loc thread) T_STAT_SUSPENDED (fst d), snd d) \<or>
     stat_of (status (fst d) thread) = T_STAT_TERM \<and> c' = (store (t_stat_loc thread) T_STAT_DEAD (fst d), snd d) \<or>
     stat_of (status (fst d) thread) = T_STAT_DESTROY \<and>
       thread_destroy (call_destroy E) thread d = Some ((), c'))"

text \<open>A round of the loop: it acknowledges, or another executor has interfered.\<close>

text \<open>The branches of one round, by the status \<open>v\<close> that was read.\<close>

definition swap_status :: "u32 \<Rightarrow> u32 \<Rightarrow> action_t \<Rightarrow> ptr \<Rightarrow> 'a thread_state_scheme conc \<Rightarrow> (action_t option \<times> 'a thread_state_scheme conc) option" where
  "swap_status v w a thread c = do {
     (ok, c) \<leftarrow> atomic_compare_and_set_uint v w (t_stat_loc thread) c;
     Some (if ok then Some a else None, c) }"

lemma acknowledge_branches:
  assumes "rd (t_stat_loc thread) d = Some (v, d1)"
  shows "stat_of v \<in> {T_STAT_RUNNABLE, T_STAT_RUNNING, T_STAT_FINALIZER_LIVE} \<Longrightarrow>
      sched_try_acknowledge E thread d = swap_status v (T_STAT_RUNNING OR T_REF) EXECUTE thread d1"
    "stat_of v = T_STAT_GC_WAIT \<Longrightarrow> sched_try_acknowledge E thread d = do {
       (gc, c) \<leftarrow> rd gc_state_loc d1;
       if GC_STATE_INACTIVE E = gc AND GC_STATE_PHASE E then swap_status v (T_STAT_RUNNING OR T_REF) EXECUTE thread c
       else Some (Some SKIP, c) }"
    "stat_of v = T_STAT_SUSPEND \<Longrightarrow> sched_try_acknowledge E thread d = swap_status v T_STAT_SUSPENDED DISCARD thread d1"
    "stat_of v = T_STAT_TERM \<Longrightarrow> sched_try_acknowledge E thread d = swap_status v T_STAT_DEAD DISCARD thread d1"
    "stat_of v = T_STAT_DESTROY \<Longrightarrow> sched_try_acknowledge E thread d = do {
       (_, c) \<leftarrow> thread_destroy (call_destroy E) thread d1;
       Some (Some DISCARD, c) }"
proof -
  have n: "T_STAT_RUNNABLE \<noteq> T_STAT_GC_WAIT" "T_STAT_RUNNING \<noteq> T_STAT_GC_WAIT" "T_STAT_FINALIZER_LIVE \<noteq> T_STAT_GC_WAIT"
    "T_STAT_SUSPEND \<notin> {T_STAT_RUNNABLE, T_STAT_RUNNING, T_STAT_FINALIZER_LIVE, T_STAT_GC_WAIT}"
    "T_STAT_TERM \<notin> {T_STAT_RUNNABLE, T_STAT_RUNNING, T_STAT_FINALIZER_LIVE, T_STAT_GC_WAIT, T_STAT_SUSPEND}"
    "T_STAT_DESTROY \<notin> {T_STAT_RUNNABLE, T_STAT_RUNNING, T_STAT_FINALIZER_LIVE, T_STAT_GC_WAIT, T_STAT_SUSPEND, T_STAT_TERM}"
    by (simp_all add: t_stat_defs)
  note unfold = sched_try_acknowledge_def swap_status_def assms
  show "stat_of v \<in> {T_STAT_RUNNABLE, T_STAT_RUNNING, T_STAT_FINALIZER_LIVE} \<Longrightarrow>
      sched_try_acknowledge E thread d = swap_status v (T_STAT_RUNNING OR T_REF) EXECUTE thread d1" by (auto simp: unfold)
  show "stat_of v = T_STAT_GC_WAIT \<Longrightarrow> sched_try_acknowledge E thread d = do {
       (gc, c) \<leftarrow> rd gc_state_loc d1;
       if GC_STATE_INACTIVE E = gc AND GC_STATE_PHASE E then swap_status v (T_STAT_RUNNING OR T_REF) EXECUTE thread c
       else Some (Some SKIP, c) }" using n by (simp add: unfold cong: if_cong)
  show "stat_of v = T_STAT_SUSPEND \<Longrightarrow> sched_try_acknowledge E thread d = swap_status v T_STAT_SUSPENDED DISCARD thread d1"
    "stat_of v = T_STAT_TERM \<Longrightarrow> sched_try_acknowledge E thread d = swap_status v T_STAT_DEAD DISCARD thread d1"
    "stat_of v = T_STAT_DESTROY \<Longrightarrow> sched_try_acknowledge E thread d = do {
       (_, c) \<leftarrow> thread_destroy (call_destroy E) thread d1;
       Some (Some DISCARD, c) }" using n by (simp_all add: unfold)
qed

text \<open>What the round promises, and that a swap keeps the promise.\<close>

definition acknowledge_end where
  "acknowledge_end E thread c d r c' \<longleftrightarrow> (case r of Some a \<Rightarrow> \<exists>e d. env_to c e \<and> env_to e d \<and> acknowledged E thread e d a c'
    | None \<Rightarrow> env_to c c' \<and> length (snd c') < length (snd d))"

lemma acknowledge_swap:
  assumes r: "cas_round (t_stat_loc thread) c d v" and b: "env_to (interfere d) b" and c: "env_to c (interfere d)"
    and a: "\<And>u. load (t_stat_loc thread) (fst u) = Some v \<Longrightarrow> acknowledged E thread b u a (store (t_stat_loc thread) w (fst u), snd u)"
  shows "returns (swap_status v w a thread b) (acknowledge_end E thread c d)"
  using r b
proof (cases rule: cas_roundE [where new = w])
  case swap
  have "env_to c b" using c b env_to_trans by blast
  then have "\<exists>e u. env_to c e \<and> env_to e u \<and> acknowledged E thread e u a (store (t_stat_loc thread) w (fst (interfere b)), snd (interfere b))"
    using env_to_interfere a [OF swap(3)] by blast
  then show ?thesis using swap(1) by (simp add: swap_status_def acknowledge_end_def atomic_cas_defs del: field_loc_simps)
next
  case again
  then show ?thesis by (simp add: swap_status_def acknowledge_end_def atomic_cas_defs)
qed

lemma acknowledge_round:
  assumes t: "thread \<noteq> NULL" and to: "env_to c d" and c: "env_inv I c" "I (fst c)"
    and I: "\<And>s. I s \<Longrightarrow> thread_mapped thread s \<and> queued_stat (status s thread)"
    and call: "\<And>p d. returns (call_destroy E p thread d) (\<lambda>_ _. True)"
  shows "returns (sched_try_acknowledge E thread d) (acknowledge_end E thread c d)"
proof -
  let ?l = "t_stat_loc thread" and ?d1 = "interfere d"
  have ld: "load ?l s \<noteq> None" if "I s" for s using I [OF that] t by simp
  have st: "status s thread = w" if "load ?l s = Some w" for s w using that by (auto split: if_splits)
  obtain v where r: "cas_round ?l c d v" using cas_round_ex [OF to c ld] by blast
  have v: "rd ?l d = Some (v, ?d1)" "load ?l (fst ?d1) = Some v" "env_to c ?d1"
    using r by (simp_all add: cas_round_def)
  note branch = acknowledge_branches [OF v(1)]
  have swap: "returns (swap_status v w a thread b) (acknowledge_end E thread c d)" if "env_to ?d1 b"
    "\<And>u. status (fst u) thread = v \<Longrightarrow> acknowledged E thread b u a (store ?l w (fst u), snd u)" for w a b
    using acknowledge_swap [OF r that(1) v(3)] that(2) st by blast
  have gc: "rd gc_state_loc ?d1 = Some (gc_state (fst (interfere ?d1)), interfere ?d1)" "env_to ?d1 (interfere ?d1)"
    using env_to_interfere by (simp_all add: rd_def Let_def)
  have at: "acknowledge_end E thread c d (Some a) c'" if "acknowledged E thread ?d1 ?d1 a c'" for a c'
    unfolding acknowledge_end_def option.case using that v(3) env_to_refl by blast
  have "queued_stat v" using I env_to_inv [OF v(3) c] st [OF v(2)] by blast
  then consider (run) "stat_of v \<in> {T_STAT_RUNNABLE, T_STAT_RUNNING, T_STAT_FINALIZER_LIVE}" | (waits) "stat_of v = T_STAT_GC_WAIT"
    | (suspend) "stat_of v = T_STAT_SUSPEND" | (ended) "stat_of v = T_STAT_TERM" | (destroy) "stat_of v = T_STAT_DESTROY"
    by (auto simp: queued_stat_def)
  then show ?thesis
  proof cases
    case run
    show ?thesis unfolding branch(1) [OF run] by (rule swap [OF env_to_refl]) (use run in simp)
  next
    case waits
    show ?thesis
    proof (cases "GC_STATE_INACTIVE E = gc_state (fst (interfere ?d1)) AND GC_STATE_PHASE E")
      case True
      have "returns (swap_status v (T_STAT_RUNNING OR T_REF) EXECUTE thread (interfere ?d1)) (acknowledge_end E thread c d)"
        by (rule swap [OF gc(2)]) (use waits True in simp)
      then show ?thesis using True gc(1) by (simp add: branch(2) [OF waits])
    next
      case False
      have "acknowledge_end E thread c d (Some SKIP) (interfere ?d1)" by (rule at) (use False waits st [OF v(2)] gc(2) in simp)
      then show ?thesis using False gc(1) by (simp add: branch(2) [OF waits])
    qed
  next
    case suspend
    show ?thesis unfolding branch(3) [OF suspend] by (rule swap [OF env_to_refl]) (use suspend in simp)
  next
    case ended
    show ?thesis unfolding branch(4) [OF ended] by (rule swap [OF env_to_refl]) (use ended in simp)
  next
    case destroy
    have "threads (fst (interfere ?d1)) thread \<noteq> None"
      using I env_to_inv [OF env_to_trans [OF v(3) gc(2)] c] by blast
    then have "returns (thread_destroy (call_destroy E) thread ?d1) (\<lambda>_ _. True)"
      using t call by (auto simp: thread_destroy_def wp atomic_decrement_uint_def Let_def prd_def)
    then obtain c' where c': "thread_destroy (call_destroy E) thread ?d1 = Some ((), c')" by (auto simp: returns_ex)
    have "acknowledge_end E thread c d (Some DISCARD) c'" by (rule at) (use c' destroy st [OF v(2)] in simp)
    then show ?thesis using c' by (simp add: branch(5) [OF destroy])
  qed
qed

text \<open>
  C14 [acknowledge]. Taking a thread from a queue always ends, whatever the other executors
  do, as long as the thread stays in memory with a status a queued thread may have. It
  decides on the status at one moment and at that moment replaces it: a runnable thread
  becomes running and keeps its reference, one that waits for the collector is kept aside
  while the collector is active, and one that should stop becomes suspended or dead and
  loses its reference, or is destroyed.
\<close>

theorem acknowledge_atomic:
  assumes "thread \<noteq> NULL" "env_inv I c" "I (fst c)"
    and "\<And>s. I s \<Longrightarrow> threads s thread \<noteq> None \<and> queued_stat (status s thread)"
    and "\<And>p d. returns (call_destroy E p thread d) (\<lambda>_ _. True)"
  shows "returns (sched_set_running_status E thread c) (\<lambda>act c'.
    \<exists>e d. env_to c e \<and> env_to e d \<and> acknowledged E thread e d act c')"
  unfolding sched_set_running_status_def
  by (rule retry_rule [where P = "env_to c"])
    (use acknowledge_round [OF assms(1) _ assms(2-5), unfolded acknowledge_end_def] in auto)

lemma update_thread_atomic_witness:
  "returns (scheduler_update_thread 0x10 T_STAT_DESTROY (ex_sched T_STAT_RUNNABLE,
    [store (t_stat_loc 0x10) (T_STAT_RUNNING OR T_REF), store (t_stat_loc 0x10) T_STAT_DEAD])) (\<lambda>r _. r)"
proof -
  let ?c = "(ex_sched T_STAT_RUNNABLE, [store (t_stat_loc 0x10) (T_STAT_RUNNING OR T_REF), store (t_stat_loc 0x10) T_STAT_DEAD])"
  have "env_inv (\<lambda>s. threads s 0x10 \<noteq> None) ?c" by (simp add: env_inv_def)
  from update_thread_atomic [OF _ this, of T_STAT_DESTROY] show ?thesis by (auto elim!: returns_mono)
qed

lemma acknowledge_atomic_witness:
  "returns (sched_set_running_status ex_env 0x10
      (ex_sched T_STAT_SUSPEND, [\<lambda>s. s\<lparr>gc_state := 7\<rparr>, \<lambda>s. s\<lparr>sched_active_threads := 9\<rparr>]))
    (\<lambda>act c'. act = DISCARD \<and> status (fst c') 0x10 = T_STAT_SUSPENDED)"
proof -
  let ?I = "\<lambda>s :: sched_state. threads s 0x10 = Some (ex_thread T_STAT_SUSPEND)"
  let ?c = "(ex_sched T_STAT_SUSPEND, [\<lambda>s. s\<lparr>gc_state := 7\<rparr>, \<lambda>s. s\<lparr>sched_active_threads := 9\<rparr>])"
  let ?E = "ex_env"
  have inv: "env_inv ?I ?c" by (simp add: env_inv_def)
  have I: "?I (fst ?c)" by simp
  have "returns (sched_set_running_status ?E 0x10 ?c) (\<lambda>act c'.
      \<exists>e d. env_to ?c e \<and> env_to e d \<and> acknowledged ?E 0x10 e d act c')"
    by (rule acknowledge_atomic [OF _ inv I]) (simp_all add: ex_thread_def queued_stat_def stat_of_def t_stat_defs)
  then show ?thesis
  proof (rule returns_mono)
    fix act c' assume "\<exists>e d. env_to ?c e \<and> env_to e d \<and> acknowledged ?E 0x10 e d act c'"
    then obtain e d where d: "env_to ?c e" "env_to e d" "acknowledged ?E 0x10 e d act c'" by blast
    have "?I (fst d)" using env_to_inv [OF env_to_trans [OF d(1,2)] inv I] ..
    then show "act = DISCARD \<and> status (fst c') 0x10 = T_STAT_SUSPENDED"
      using d(3) by (cases act) (auto simp: ex_thread_def stat_of_def t_stat_defs)
  qed
qed

subsection \<open>Replacing the current thread\<close>

lemma acknowledge_quiet:
  assumes "threads s x = Some t" "x \<noteq> NULL" "stat_of (t_sched_stat_ref t) = w"
  shows "w \<in> {T_STAT_RUNNABLE, T_STAT_RUNNING, T_STAT_FINALIZER_LIVE} \<Longrightarrow>
      sched_set_running_status E x (s, []) = Some (EXECUTE, (store (t_stat_loc x) (T_STAT_RUNNING OR T_REF) s, []))"
    "w = T_STAT_SUSPEND \<Longrightarrow>
      sched_set_running_status E x (s, []) = Some (DISCARD, (store (t_stat_loc x) T_STAT_SUSPENDED s, []))"
    "w = T_STAT_TERM \<Longrightarrow>
      sched_set_running_status E x (s, []) = Some (DISCARD, (store (t_stat_loc x) T_STAT_DEAD s, []))"
    "w = T_STAT_GC_WAIT \<Longrightarrow> GC_STATE_INACTIVE E \<noteq> gc_state s AND GC_STATE_PHASE E \<Longrightarrow>
      sched_set_running_status E x (s, []) = Some (SKIP, (s, []))"
proof -
  have rd: "rd (t_stat_loc x) (s, []) = Some (t_sched_stat_ref t, (s, []))"
    using assms(1,2) by (simp add: rd_def Let_def)
  have cas: "atomic_compare_and_set_uint (t_sched_stat_ref t) v (t_stat_loc x) (s, []) =
      Some (True, (store (t_stat_loc x) v s, []))" for v
    using assms(1,2) by (simp add: atomic_compare_and_set_uint_def cas_def Let_def)
  note defs = sched_set_running_status_def retry.simps sched_try_acknowledge_def rd cas assms(3) Let_def
  have n: "T_STAT_SUSPEND \<notin> {T_STAT_RUNNABLE, T_STAT_RUNNING, T_STAT_FINALIZER_LIVE, T_STAT_GC_WAIT}"
    "T_STAT_TERM \<notin> {T_STAT_RUNNABLE, T_STAT_RUNNING, T_STAT_FINALIZER_LIVE, T_STAT_GC_WAIT, T_STAT_SUSPEND}"
    "T_STAT_GC_WAIT \<notin> {T_STAT_RUNNABLE, T_STAT_RUNNING, T_STAT_FINALIZER_LIVE}"
    by (simp_all add: t_stat_defs)
  show "sched_set_running_status E x (s, []) = Some (EXECUTE, (store (t_stat_loc x) (T_STAT_RUNNING OR T_REF) s, []))"
    if "w \<in> {T_STAT_RUNNABLE, T_STAT_RUNNING, T_STAT_FINALIZER_LIVE}"
  proof -
    have w: "w = T_STAT_RUNNING \<or> w = T_STAT_RUNNABLE \<or> w = T_STAT_FINALIZER_LIVE" using that by auto
    then show ?thesis by (elim disjE) (simp_all add: defs del: field_loc_simps)
  qed
  show "w = T_STAT_SUSPEND \<Longrightarrow>
      sched_set_running_status E x (s, []) = Some (DISCARD, (store (t_stat_loc x) T_STAT_SUSPENDED s, []))"
    "w = T_STAT_TERM \<Longrightarrow>
      sched_set_running_status E x (s, []) = Some (DISCARD, (store (t_stat_loc x) T_STAT_DEAD s, []))"
    using n by (simp_all add: defs del: field_loc_simps)
  show "sched_set_running_status E x (s, []) = Some (SKIP, (s, []))"
    if "w = T_STAT_GC_WAIT" "GC_STATE_INACTIVE E \<noteq> gc_state s AND GC_STATE_PHASE E"
    using n that by (simp add: sched_set_running_status_def retry.simps sched_try_acknowledge_def rd assms(3)
        Let_def rd_def [of gc_state_loc])
qed

text \<open>A thread that is not run when it comes up, and its status word afterwards.\<close>

definition passed_over :: "'a sched_state_scheme sched_env \<Rightarrow> 'a sched_state_scheme \<Rightarrow> ptr \<Rightarrow> bool" where
  "passed_over E s x \<longleftrightarrow> stat_of (status s x) \<in> {T_STAT_SUSPEND, T_STAT_TERM} \<or>
     stat_of (status s x) = T_STAT_GC_WAIT \<and> GC_STATE_INACTIVE E \<noteq> gc_state s AND GC_STATE_PHASE E"

definition settled :: "u32 \<Rightarrow> u32" where
  "settled w = (if stat_of w = T_STAT_SUSPEND then T_STAT_SUSPENDED
     else if stat_of w = T_STAT_TERM then T_STAT_DEAD else w)"

lemma passed_over_quiet:
  assumes "passed_over E s x" "threads s x \<noteq> None" "x \<noteq> NULL"
  shows "\<exists>act. sched_set_running_status E x (s, []) =
    Some (act, (store (t_stat_loc x) (settled (status s x)) s, [])) \<and> act \<noteq> EXECUTE"
proof -
  obtain t where t: "threads s x = Some t" using assms(2) by blast
  then have "store (t_stat_loc x) (status s x) s = s" by (simp add: fun_upd_idem)
  then show ?thesis
    using assms(1) t acknowledge_quiet [OF t assms(3) refl, of E]
    by (auto simp: passed_over_def settled_def t_stat_defs simp del: field_loc_simps)
qed

lemma sq_holds_frame [simp]:
  "sq_holds sch n T (store (t_stat_loc x) v s) k xs = sq_holds sch n T s k xs"
  "sq_holds sch n T (s\<lparr>schedulers := (schedulers s)(sch \<mapsto> r\<lparr>sch_curr_thread := y\<rparr>)\<rparr>) k xs =
    sq_holds sch n T (s\<lparr>schedulers := (schedulers s)(sch \<mapsto> r)\<rparr>) k xs"
proof -
  have "qnext (store (t_stat_loc x) v s) = qnext s"
    by (simp add: qnext_def fun_eq_iff option.map_comp comp_def)
  moreover have "threads (store (t_stat_loc x) v s) y \<noteq> None \<longleftrightarrow> threads s y \<noteq> None" for y by simp
  moreover have "schedulers (store (t_stat_loc x) v s) = schedulers s" by simp
  ultimately show "sq_holds sch n T (store (t_stat_loc x) v s) k xs = sq_holds sch n T s k xs"
    by (simp add: sq_holds_def del: field_loc_simps)
  have "qnext (s\<lparr>schedulers := f\<rparr>) = qnext s" for f by (simp add: qnext_def fun_eq_iff)
  then show "sq_holds sch n T (s\<lparr>schedulers := (schedulers s)(sch \<mapsto> r\<lparr>sch_curr_thread := y\<rparr>)\<rparr>) k xs =
    sq_holds sch n T (s\<lparr>schedulers := (schedulers s)(sch \<mapsto> r)\<rparr>) k xs"
    by (simp add: sq_holds_def)
qed

lemma sq_head_mapped: "sq_holds sch n T s k (x # xs) \<Longrightarrow> x \<noteq> NULL \<and> threads s x \<noteq> None"
  by (auto simp: sq_holds_def qnext_def split: option.splits if_splits)

text \<open>What the loop passes over leaves the queue, and its status word is settled.\<close>

lemma replace_loop_pass:
  assumes "sq_holds sch n T s k (ds @ ys)" "sch_curr_thread (the (schedulers s sch)) = NULL"
    and "\<forall>d \<in> set ds. passed_over E s d"
  shows "\<exists>u r. scheduler_replace_loop E sch exec (s, []) = scheduler_replace_loop E sch exec (u, []) \<and>
    sq_holds sch n T u k ys \<and>
    u = s\<lparr>threads := (\<lambda>p. if p \<in> set ds then map_option (t_sched_stat_ref_update settled) (threads s p) else threads s p),
      schedulers := (schedulers s)(sch \<mapsto> r)\<rparr> \<and>
    sch_curr_thread r = NULL \<and> sch_idle_thread r = sch_idle_thread (the (schedulers s sch)) \<and>
    sch_gc_thread r = sch_gc_thread (the (schedulers s sch))"
  using assms
proof (induction ds arbitrary: s)
  case Nil
  then obtain r where "schedulers s sch = Some r" by (auto simp: sq_holds_def)
  then show ?case using Nil by (intro exI [of _ s] exI [of _ r]) (simp add: fun_upd_idem)
next
  case (Cons d ds)
  obtain r where r: "schedulers s sch = Some r" "sch \<noteq> NULL" using Cons.prems(1) by (auto simp: sq_holds_def)
  have q: "sq_holds sch n T s k (d # ds @ ys)" using Cons.prems(1) by simp
  have d: "d \<noteq> NULL" "threads s d \<noteq> None" using sq_head_mapped [OF q] by blast+
  obtain v where v: "sched_queue_dequeue sch (s, []) = Some (d, (v, []))" "sq_holds sch n T v k (ds @ ys)" "queue_only sch s v"
    using sq_dequeue_frame [OF q, of "[]"] by (auto simp: returns_ex)
  from v(3) obtain r' where r': "v = s\<lparr>schedulers := (schedulers s)(sch \<mapsto> r')\<rparr>" "sch_curr_thread r' = NULL"
    "sch_idle_thread r' = sch_idle_thread r" "sch_gc_thread r' = sch_gc_thread r"
    using Cons.prems(2) r(1) by (auto simp: queue_only_def)
  have "passed_over E v d" using Cons.prems(3) r'(1) by (simp add: passed_over_def)
  then obtain act where act: "act \<noteq> EXECUTE"
    "sched_set_running_status E d (v, []) = Some (act, (store (t_stat_loc d) (settled (status v d)) v, []))"
    using passed_over_quiet [of E v d] d r'(1) by auto
  let ?w = "store (t_stat_loc d) (settled (status v d)) v"
  have step: "scheduler_replace_loop E sch exec (s, []) = scheduler_replace_loop E sch exec (?w, [])"
    using sq_empty_quiet [OF q, of "[]"] r Cons.prems(2) v(1) act
    by (subst scheduler_replace_loop.simps) (simp add: prd_def del: field_loc_simps(2))
  have dist: "d \<notin> set ds"
    using q chain_distinct by (fastforce simp: sq_holds_def simp del: chain.simps)
  have "\<forall>e \<in> set ds. passed_over E ?w e" using Cons.prems(3) r'(1) dist by (auto simp: passed_over_def)
  moreover have "sq_holds sch n T ?w k (ds @ ys)" using v(2) by (simp only: sq_holds_frame)
  moreover have "sch_curr_thread (the (schedulers ?w sch)) = NULL" using r' by simp
  ultimately obtain u a where u: "scheduler_replace_loop E sch exec (?w, []) = scheduler_replace_loop E sch exec (u, [])"
    "sq_holds sch n T u k ys" "sch_curr_thread a = NULL"
    "sch_idle_thread a = sch_idle_thread (the (schedulers ?w sch))" "sch_gc_thread a = sch_gc_thread (the (schedulers ?w sch))"
    "u = ?w\<lparr>threads := (\<lambda>p. if p \<in> set ds then map_option (t_sched_stat_ref_update settled) (threads ?w p) else threads ?w p),
      schedulers := (schedulers ?w)(sch \<mapsto> a)\<rparr>"
    using Cons.IH [of ?w] by blast
  obtain t where t: "threads s d = Some t" using d(2) by blast
  have w: "?w = s\<lparr>threads := (threads s)(d \<mapsto> t_sched_stat_ref_update settled t), schedulers := (schedulers s)(sch \<mapsto> r')\<rparr>"
    using t r'(1) by (cases s; cases t) simp
  have "(\<lambda>p. if p \<in> set ds then map_option (t_sched_stat_ref_update settled) (threads ?w p) else threads ?w p) =
      (\<lambda>p. if p \<in> set (d # ds) then map_option (t_sched_stat_ref_update settled) (threads s p) else threads s p)"
    unfolding w using dist t by (auto simp: fun_eq_iff)
  moreover have "(schedulers ?w)(sch \<mapsto> a) = (schedulers s)(sch \<mapsto> a)" unfolding w by simp
  ultimately have "u = s\<lparr>threads := (\<lambda>p. if p \<in> set (d # ds) then map_option (t_sched_stat_ref_update settled) (threads s p) else threads s p),
      schedulers := (schedulers s)(sch \<mapsto> a)\<rparr>"
    using u(6) unfolding w by simp
  then have "scheduler_replace_loop E sch exec (s, []) = scheduler_replace_loop E sch exec (u, []) \<and> sq_holds sch n T u k ys \<and>
    u = s\<lparr>threads := (\<lambda>p. if p \<in> set (d # ds) then map_option (t_sched_stat_ref_update settled) (threads s p) else threads s p),
      schedulers := (schedulers s)(sch \<mapsto> a)\<rparr> \<and>
    sch_curr_thread a = NULL \<and> sch_idle_thread a = sch_idle_thread (the (schedulers s sch)) \<and>
    sch_gc_thread a = sch_gc_thread (the (schedulers s sch))"
    using step u(1-5) r'(3,4) r(1) unfolding w by simp
  then show ?case by blast
qed

text \<open>
  Balancing has nothing to do for a scheduler that counts \<open>m\<close> threads: with at most one thread for
  each executor, when \<open>m\<close> is not zero, and with more, when \<open>m\<close> is between the bounds of
  \<open>sched_lower_bound\<close> and \<open>sched_upper_bound\<close>.
\<close>

definition balanced :: "u32 \<Rightarrow> u32 \<Rightarrow> u32 \<Rightarrow> bool" where
  "balanced executors active m \<longleftrightarrow> (if executors < active
     then executors \<noteq> 0 \<and> max 1 ((if drop_bit 2 active < active then active - drop_bit 2 active else 0) div executors) \<le> m \<and>
       m \<le> max 1 ((active + drop_bit 2 active) div executors)
     else m \<noteq> 0)"

lemma max_one: "max 1 b = (if b \<noteq> 0 then b else (1 :: u32))"
  by (simp add: max_def word_le_nat_alt) (metis One_nat_def unat_gt_0 Suc_leI)

lemma balance_enough:
  assumes "schedulers s sch = Some r" "sch \<noteq> NULL" "balanced (executor_count E) (sched_active_threads s) (sch_num_threads r)"
  shows "scheduler_balance_threads E sch exec (s, []) = Some ((), (s, []))"
proof -
  show ?thesis
    using assms unfolding balanced_def max_one
    by (auto simp: scheduler_balance_threads_def sched_lower_bound_def sched_upper_bound_def rd_def prd_def Let_def
        split: if_splits)
qed

lemma replace_loop_take:
  assumes "sq_holds sch n T s k (y # ys)" "sch_curr_thread (the (schedulers s sch)) = NULL"
    and "stat_of (status s y) \<in> {T_STAT_RUNNABLE, T_STAT_RUNNING, T_STAT_FINALIZER_LIVE}"
    and "balanced (executor_count E) (sched_active_threads s) (n + of_nat (length ys))"
  shows "\<exists>r. scheduler_replace_loop E sch exec (s, []) =
    Some ((), (store (t_stat_loc y) (T_STAT_RUNNING OR T_REF) (s\<lparr>schedulers := (schedulers s)(sch \<mapsto> r)\<rparr>), [])) \<and>
    sq_holds sch n T (s\<lparr>schedulers := (schedulers s)(sch \<mapsto> r)\<rparr>) k ys \<and> sch_curr_thread r = y"
proof -
  have y: "y \<noteq> NULL" "threads s y \<noteq> None" using sq_head_mapped [OF assms(1)] by blast+
  obtain r0 where r0: "schedulers s sch = Some r0" "sch \<noteq> NULL" using assms(1) by (auto simp: sq_holds_def)
  obtain v where v: "sched_queue_dequeue sch (s, []) = Some (y, (v, []))" "sq_holds sch n T v k ys" "queue_only sch s v"
    using sq_dequeue_frame [OF assms(1), of "[]"] by (auto simp: returns_ex)
  from v(3) obtain a where a: "v = s\<lparr>schedulers := (schedulers s)(sch \<mapsto> a)\<rparr>" by (auto simp: queue_only_def)
  let ?r = "a\<lparr>sch_curr_thread := y\<rparr>"
  let ?u = "s\<lparr>schedulers := (schedulers s)(sch \<mapsto> ?r)\<rparr>"
  let ?w = "store (t_stat_loc y) (T_STAT_RUNNING OR T_REF) ?u"
  obtain t where t: "threads s y = Some t" using y(2) by blast
  have ack: "sched_set_running_status E y (v, []) = Some (EXECUTE, (store (t_stat_loc y) (T_STAT_RUNNING OR T_REF) v, []))"
    using acknowledge_quiet(1) [of v y t _ E] t y(1) assms(3) a by simp
  have q: "sq_holds sch n T ?u k ys" using v(2) a by simp
  then have num: "sch_num_threads ?r = n + of_nat (length ys)" by (simp add: sq_holds_def)
  have pw: "pwr (sch_curr_loc sch) y (store (t_stat_loc y) (T_STAT_RUNNING OR T_REF) v, []) = Some ((), (?w, []))"
    using r0(2) a by (cases s) (simp add: pwr_def)
  have bal: "scheduler_balance_threads E sch exec (?w, []) = Some ((), (?w, []))"
    by (rule balance_enough [of _ _ ?r]) (use r0 assms(4) num in simp_all)
  have qw: "sq_holds sch n T ?w k ys" using q by (simp only: sq_holds_frame)
  have stop: "scheduler_replace_loop E sch exec (?w, []) = Some ((), (?w, []))"
    using sq_empty_quiet [OF qw, of "[]"] r0(2) y(1)
    by (subst scheduler_replace_loop.simps) (simp add: prd_def)
  have "scheduler_replace_loop E sch exec (s, []) = Some ((), (?w, []))"
    using sq_empty_quiet [OF assms(1), of "[]"] r0 assms(2) v(1) ack pw bal stop
    by (subst scheduler_replace_loop.simps) (simp add: prd_def del: field_loc_simps(2))
  then show ?thesis using q by (intro exI [of _ ?r]) simp
qed

text \<open>The threads after replacing: \<open>y\<close> runs, and those before it in the queue are settled.\<close>

lemma stat_update_id [simp]: "t_sched_stat_ref_update (\<lambda>w. w) = (\<lambda>t. t)"
  by (simp add: fun_eq_iff)

definition replaced_threads :: "'a sched_state_scheme \<Rightarrow> ptr list \<Rightarrow> ptr \<Rightarrow> ptr \<Rightarrow> thread_t option" where
  "replaced_threads s ds y p = map_option (t_sched_stat_ref_update
     (if p = y then \<lambda>_. T_STAT_RUNNING OR T_REF else if p \<in> set ds then settled else (\<lambda>w. w))) (threads s p)"

lemma replace_quiet:
  assumes "sq_holds sch n T s k (ds @ y # ys)" "\<forall>d \<in> set ds. passed_over E s d"
    and "stat_of (status s y) \<in> {T_STAT_RUNNABLE, T_STAT_RUNNING, T_STAT_FINALIZER_LIVE}"
    and "balanced (executor_count E) (sched_active_threads s) (n - 1 + of_nat (length ys))"
  shows "\<exists>w b. scheduler_replace E sch exec (s, []) = Some (y, (w, [])) \<and>
    w = s\<lparr>threads := replaced_threads s ds y, schedulers := (schedulers s)(sch \<mapsto> b)\<rparr> \<and>
    sch_curr_thread b = y \<and> sq_holds sch (n - 1) T w k ys"
proof -
  obtain r where r: "schedulers s sch = Some r" "sch \<noteq> NULL" "chain (qnext s) (sch_queue_head r) (ds @ y # ys) NULL"
    using assms(1) by (auto simp: sq_holds_def)
  then have dist: "distinct (ds @ y # ys)" by (simp only: chain_distinct)
  let ?s = "s\<lparr>schedulers := (schedulers s)(sch \<mapsto> r\<lparr>sch_curr_thread := NULL, sch_num_threads := sch_num_threads r - 1\<rparr>)\<rparr>"
  have qn: "qnext ?s = qnext s" by (simp add: qnext_def fun_eq_iff)
  then have q: "sq_holds sch (n - 1) T ?s k (ds @ y # ys)" using assms(1) r by (auto simp: sq_holds_def)
  have "\<forall>d \<in> set ds. passed_over E ?s d" using assms(2) by (simp add: passed_over_def)
  from replace_loop_pass [OF q _ this, of exec] obtain u a where
    u: "scheduler_replace_loop E sch exec (?s, []) = scheduler_replace_loop E sch exec (u, [])"
    "sq_holds sch (n - 1) T u k (y # ys)"
    "u = ?s\<lparr>threads := (\<lambda>p. if p \<in> set ds then map_option (t_sched_stat_ref_update settled) (threads ?s p) else threads ?s p),
      schedulers := (schedulers ?s)(sch \<mapsto> a)\<rparr>" "sch_curr_thread a = NULL"
    by auto
  have "status u y = status s y" using u(3) dist by simp
  from replace_loop_take [OF u(2), of E exec] u(3,4) assms(3,4) this obtain b where
    b: "scheduler_replace_loop E sch exec (u, []) =
      Some ((), (store (t_stat_loc y) (T_STAT_RUNNING OR T_REF) (u\<lparr>schedulers := (schedulers u)(sch \<mapsto> b)\<rparr>), []))"
    "sq_holds sch (n - 1) T (u\<lparr>schedulers := (schedulers u)(sch \<mapsto> b)\<rparr>) k ys" "sch_curr_thread b = y"
    by auto
  let ?w = "store (t_stat_loc y) (T_STAT_RUNNING OR T_REF) (u\<lparr>schedulers := (schedulers u)(sch \<mapsto> b)\<rparr>)"
  have y: "y \<noteq> NULL" using sq_head_mapped [OF u(2)] by blast
  have curr: "prd (sch_curr_loc sch) (?w, []) = Some (y, (?w, []))"
    using r(2) b(3) by (simp add: prd_def)
  let ?s1 = "s\<lparr>schedulers := (schedulers s)(sch \<mapsto> r\<lparr>sch_curr_thread := NULL\<rparr>)\<rparr>"
  have pre: "pwr (sch_curr_loc sch) NULL (s, []) = Some ((), (?s1, []))"
    "prd (sch_num_loc sch) (?s1, []) = Some (sch_num_threads r, (?s1, []))"
    "pwr (sch_num_loc sch) (sch_num_threads r - 1) (?s1, []) = Some ((), (?s, []))"
    using r by (simp_all add: pwr_def prd_def)
  have "scheduler_replace E sch exec (s, []) = Some (y, (?w, []))"
    using pre u(1) b(1) curr y
    by (simp add: scheduler_replace_def sched_try_workshare.simps scheduler_result_def del: field_loc_simps)
  moreover have "threads ?w = replaced_threads s ds y"
    using u(3) dist by (auto simp: replaced_threads_def fun_eq_iff option.map_ident option.map_comp comp_def)
  then have "?w = s\<lparr>threads := replaced_threads s ds y, schedulers := (schedulers s)(sch \<mapsto> b)\<rparr>"
    using u(3) by (cases s) simp
  moreover have "sq_holds sch (n - 1) T ?w k ys" using b(2) by (simp only: sq_holds_frame)
  ultimately show ?thesis using b(3) by metis
qed

text \<open>
  C15 [replace]. When balancing has nothing to fetch or to give for the threads that are left
  (some other thread is still counted and there are no more active threads than executors; or
  there are more, and the count is between the two bounds), replacing the current thread gives
  the executor the first thread of its private queue that may run. (Otherwise a thread is
  fetched from or given to the work queue as well, which \<open>Thread_Lists\<close> treats.) The threads before it leave the queue: those that should stop
  are suspended or dead now and have lost their reference, but one that waits for the
  collector keeps its reference although no queue holds it any more, so that waking it will
  not enter it again. The new current thread is not counted: \<open>n\<close> threads were counted
  outside of the queue before and \<open>n - 1\<close> are afterwards.
\<close>

theorem replace_serves_first:
  assumes "sq_holds sch n T s k (ds @ y # ys)" "\<forall>d \<in> set ds. passed_over E s d"
    and "stat_of (status s y) \<in> {T_STAT_RUNNABLE, T_STAT_RUNNING, T_STAT_FINALIZER_LIVE}"
    and "balanced (executor_count E) (sched_active_threads s) (n - 1 + of_nat (length ys))"
  shows "returns (scheduler_replace E sch exec (s, [])) (\<lambda>r c'. r = y \<and>
    sq_holds sch (n - 1) T (fst c') k ys \<and> sch_curr_thread (the (schedulers (fst c') sch)) = y \<and>
    status (fst c') y = T_STAT_RUNNING OR T_REF \<and> (\<forall>d \<in> set ds. status (fst c') d = settled (status s d)))"
proof -
  from replace_quiet [OF assms, of exec] obtain w b where
    w: "scheduler_replace E sch exec (s, []) = Some (y, (w, []))" "sch_curr_thread b = y" "sq_holds sch (n - 1) T w k ys"
    "w = s\<lparr>threads := replaced_threads s ds y, schedulers := (schedulers s)(sch \<mapsto> b)\<rparr>" by blast
  obtain h where r: "chain (qnext s) h (ds @ y # ys) NULL"
    using assms(1) unfolding sq_holds_def by blast
  then have d: "distinct (ds @ y # ys)" by (rule chain_distinct)
  have "threads s x \<noteq> None" if "x \<in> set (ds @ y # ys)" for x
    using chain_dom [OF r that] by (auto simp: qnext_def split: if_splits)
  then have st: "t_sched_stat_ref (the (map_option (t_sched_stat_ref_update f) (threads s x))) = f (status s x)"
    if "x \<in> set (ds @ y # ys)" for f x using that by fastforce
  show ?thesis using w d st [of y] st [of _ settled] by (auto simp: replaced_threads_def)
qed

definition ex_sched2 :: sched_state where
  "ex_sched2 = (ex_sched 0)\<lparr>threads := [0x10 \<mapsto> (ex_thread (T_STAT_SUSPEND OR T_REF))\<lparr>t_queue_next := 0x18\<rparr>,
       0x18 \<mapsto> (ex_thread (T_STAT_GC_WAIT OR T_REF))\<lparr>t_queue_next := 0x20\<rparr>,
       0x20 \<mapsto> (ex_thread (T_STAT_RUNNABLE OR T_REF))\<lparr>t_queue_next := 0x30\<rparr>,
       0x30 \<mapsto> ex_thread (T_STAT_RUNNABLE OR T_REF)],
     schedulers := [0x8 \<mapsto> \<lparr>sch_num_threads = 5, sch_queue_head = 0x10, sch_queue_tail = 0x30,
        sch_curr_thread = 0x40, sch_idle_thread = 0x50, sch_gc_thread = 0x60\<rparr>],
     sched_active_threads := 1, gc_state := 1\<rparr>"

lemma ex_sched2_holds: "sq_holds 0x8 1 {} ex_sched2 0 [0x10, 0x18, 0x20, 0x30]"
  by (simp add: sq_holds_def ex_sched2_def qnext_def ex_thread_def)

lemma replace_serves_first_witness:
  "returns (scheduler_replace ex_env 0x8 0 (ex_sched2, []))
    (\<lambda>r c'. r = 0x20 \<and> sq_holds 0x8 0 {} (fst c') 0 [0x30] \<and> status (fst c') 0x10 = T_STAT_SUSPENDED \<and>
      status (fst c') 0x18 = T_STAT_GC_WAIT OR T_REF)"
proof -
  let ?E = "ex_env"
  have h: "sq_holds 0x8 1 {} ex_sched2 0 ([0x10, 0x18] @ 0x20 # [0x30])" using ex_sched2_holds by simp
  have p: "\<forall>d \<in> set [0x10, 0x18]. passed_over ?E ex_sched2 d"
    by (simp add: passed_over_def ex_sched2_def ex_thread_def stat_of_def t_stat_defs)
  have "returns (scheduler_replace ?E 0x8 0 (ex_sched2, [])) (\<lambda>r c'. r = 0x20 \<and>
    sq_holds 0x8 (1 - 1) {} (fst c') 0 [0x30] \<and> sch_curr_thread (the (schedulers (fst c') 0x8)) = 0x20 \<and>
    status (fst c') 0x20 = T_STAT_RUNNING OR T_REF \<and>
    (\<forall>d \<in> set [0x10, 0x18]. status (fst c') d = settled (status ex_sched2 d)))"
    by (rule replace_serves_first [OF h p]) (simp_all add: balanced_def ex_sched2_def ex_thread_def stat_of_def t_stat_defs)
  then show ?thesis
    by (rule returns_mono) (simp add: ex_sched2_def ex_thread_def settled_def stat_of_def t_stat_defs)
qed

subsection \<open>Where threads are lost\<close>

text \<open>
  Fetching a thread from the work queue gives up at the first thread it
  takes out, even when that thread is to stop: the assignment of \<open>-1\<close> to a variable of
  type \<open>bool\<close> makes the caller believe that it has found one. The scheduler gets nothing,
  whatever else waits in the work queue.
\<close>

theorem take_thread_gives_up:
  assumes "ws_holds (executor_count E) exec s k (x # xs)" "threads s x \<noteq> None"
    and "stat_of (status s x) \<in> {T_STAT_SUSPEND, T_STAT_SUSPENDED, T_STAT_TERM, T_STAT_DEAD, T_STAT_NONE}"
  shows "returns (scheduler_take_thread E sch exec (s, [])) (\<lambda>_ c'.
    ws_holds (executor_count E) exec (fst c') k xs \<and> schedulers (fst c') = schedulers s \<and>
    status (fst c') x = stat_of (status s x))"
proof -
  have x: "x \<noteq> NULL" using assms(1) by (auto simp: ws_holds_def tq_holds_def)
  obtain v where v: "lf_thread_queue_dequeue (executor_count E) (sched_workshare s) exec (s, []) = Some (x, (v, []))"
    "ws_holds (executor_count E) exec v k xs" "thread_queue_state.more v = thread_queue_state.more s"
    using ws_dequeue_quiet [OF assms(1)] by (auto simp: returns_ex)
  obtain t where t: "threads v x = Some t" using assms(2) more_eq [OF v(3)] by auto
  have w: "status s x = t_sched_stat_ref t" using t more_eq [OF v(3)] by simp
  let ?u = "store (t_stat_loc x) (stat_of (status s x)) v"
  have "scheduler_try_take_thread E sch x exec (v, []) = Some (1, (?u, []))"
    using t x assms(3) w
    by (auto simp: scheduler_try_take_thread_def rd_def Let_def atomic_compare_and_set_uint_def cas_def t_stat_defs
        c_bool_def c_int_def)
  then have "retry_nonzero (scheduler_try_take_thread E sch x exec) (v, []) = Some (1, (?u, []))"
    by (simp add: retry_nonzero_def retry.simps)
  then have "scheduler_take_thread E sch exec (s, []) = Some ((), (?u, []))"
    using v(1) x by (subst scheduler_take_thread.simps) simp
  moreover have "status ?u x = stat_of (status s x)" using t by simp
  moreover have "schedulers ?u = schedulers s" using more_eq [OF v(3)] by simp
  moreover have "ws_holds (executor_count E) exec ?u k xs" using v(2) by (simp only: ws_holds_frame)
  ultimately show ?thesis by simp
qed

text \<open>
  Destroying a scheduler destroys its idle thread, its current thread
  and the last thread of its private queue: it follows the links from the tail, so all the
  other threads of the queue are never destroyed, however many there are.
\<close>

theorem scheduler_destroy_leaks:
  assumes "sq_holds sch n T s k xs" "schedulers s sch = Some r"
    and "sch_idle_thread r \<noteq> NULL" "\<forall>p t. threads s p = Some t \<longrightarrow> t_destroy t = NULL"
    and "threads s (sch_idle_thread r) \<noteq> None" "sch_curr_thread r = NULL \<or> threads s (sch_curr_thread r) \<noteq> None"
  shows "returns (scheduler_destroy E sch (s, [])) (\<lambda>_ c'. thread_num (fst c') = thread_num s - 1 -
    (if sch_curr_thread r = NULL then 0 else 1) - (if xs = [] then 0 else 1))"
proof -
  have r: "sch \<noteq> NULL" "chain (qnext s) (sch_queue_head r) xs NULL" "sch_queue_tail r = (if xs = [] then NULL else last xs)"
    using assms(1,2) by (auto simp: sq_holds_def)
  have destroy: "thread_destroy (call_destroy E) p (s\<lparr>thread_num := m\<rparr>, []) = Some ((), (s\<lparr>thread_num := m - 1\<rparr>, []))"
    if "p \<noteq> NULL" "threads s p \<noteq> None" for p m
    using that assms(4) by (auto simp: thread_destroy_def atomic_decrement_uint_def Let_def prd_def)
  have loop: "returns (scheduler_destroy_loop E sch (s\<lparr>thread_num := m\<rparr>, []))
      (\<lambda>_ c'. thread_num (fst c') = m - (if xs = [] then 0 else 1))" for m
  proof (cases "xs = []")
    case True
    then show ?thesis using r assms(2) by (simp add: scheduler_destroy_loop.simps prd_def)
  next
    case False
    let ?l = "last xs"
    obtain ys where ys: "xs = ys @ [?l]" using False by (metis append_butlast_last_id)
    have "chain (qnext s) (sch_queue_head r) (ys @ [?l]) NULL" using r(2) ys by metis
    then have l: "?l \<noteq> NULL" "qnext s ?l = Some NULL" by (auto split: option.splits)
    then obtain t where t: "threads s ?l = Some t" "t_queue_next t = NULL" by (auto simp: qnext_def split: if_splits)
    then show ?thesis using r False l assms(2) destroy [of ?l]
      by (simp add: scheduler_destroy_loop.simps prd_def pwr_def)
  qed
  have "s = s\<lparr>thread_num := thread_num s\<rparr>" by simp
  then have idle: "thread_destroy (call_destroy E) (sch_idle_thread r) (s, []) =
      Some ((), (s\<lparr>thread_num := thread_num s - 1\<rparr>, []))"
    using destroy [OF assms(3,5), of "thread_num s"] by simp
  show ?thesis
  proof (cases "sch_curr_thread r = NULL")
    case True
    then show ?thesis using r assms(2) idle loop
      by (simp add: scheduler_destroy_def prd_def)
  next
    case False
    then show ?thesis using r assms(2,6) idle loop destroy [OF False]
      by (simp add: scheduler_destroy_def prd_def)
  qed
qed

lemma take_thread_gives_up_witness:
  "\<exists>s :: sched_state. ws_holds 1 0 s 1 [0x10, 0x20] \<and>
    returns (scheduler_take_thread ex_env 0x8 0 (s, []))
    (\<lambda>_ c'. ws_holds 1 0 (fst c') 1 [0x20] \<and> sch_queue_head (the (schedulers (fst c') 0x8)) = NULL)"
proof -
  let ?E = "ex_env"
  obtain u :: sched_state where u: "ws_holds 1 0 u 3 []" "threads u = threads (ex_sched T_STAT_SUSPEND)"
    "schedulers u = schedulers (ex_sched T_STAT_SUSPEND)" by (rule ex_sched_started)
  have "ws_holds 1 0 u (Suc 2) []" using u(1) by simp
  from ws_enqueue_quiet [OF this, of "0x10"] obtain v where
    v: "ws_holds 1 0 v 2 [0x10]" "thread_queue_state.more v = thread_queue_state.more u"
    by (auto simp: returns_ex)
  have "ws_holds 1 0 v (Suc 1) [0x10]" using v(1) by (simp add: numeral_2_eq_2)
  from ws_enqueue_quiet [OF this, of "0x20"] obtain w where
    w: "ws_holds 1 0 w 1 [0x10, 0x20]" "thread_queue_state.more w = thread_queue_state.more v"
    by (auto simp: returns_ex)
  have t: "threads w 0x10 = Some (ex_thread T_STAT_SUSPEND)" and s: "schedulers w = schedulers (ex_sched T_STAT_SUSPEND)"
    using more_eq [OF w(2)] more_eq [OF v(2)] u by simp_all
  have "ws_holds (executor_count ?E) 0 w 1 (0x10 # [0x20])" using w(1) by simp
  from take_thread_gives_up [OF this, where sch = "0x8"] have
    "returns (scheduler_take_thread ?E 0x8 0 (w, [])) (\<lambda>_ c'. ws_holds (executor_count ?E) 0 (fst c') 1 [0x20] \<and>
      schedulers (fst c') = schedulers w \<and> status (fst c') 0x10 = stat_of (status w 0x10))"
    using t by (simp add: ex_thread_def stat_of_def t_stat_defs)
  then show ?thesis using w(1) s by (intro exI [of _ w]) (auto elim!: returns_mono)
qed

lemma scheduler_destroy_leaks_witness:
  "\<forall>E. returns (scheduler_destroy E 0x8 (ex_sched2\<lparr>threads := (threads ex_sched2)(0x40 \<mapsto> ex_thread 0, 0x50 \<mapsto> ex_thread 0),
      thread_num := 6\<rparr>, [])) (\<lambda>_ c'. thread_num (fst c') = 3)"
proof
  fix E
  let ?s = "ex_sched2\<lparr>threads := (threads ex_sched2)(0x40 \<mapsto> ex_thread 0, 0x50 \<mapsto> ex_thread 0), thread_num := 6\<rparr>"
  have q: "sq_holds 0x8 1 {} ?s 0 [0x10, 0x18, 0x20, 0x30]"
    by (simp add: sq_holds_def ex_sched2_def qnext_def ex_thread_def)
  have r: "schedulers ?s 0x8 = Some \<lparr>sch_num_threads = 5, sch_queue_head = 0x10, sch_queue_tail = 0x30,
        sch_curr_thread = 0x40, sch_idle_thread = 0x50, sch_gc_thread = 0x60\<rparr>"
    by (simp add: ex_sched2_def)
  have "returns (scheduler_destroy E 0x8 (?s, [])) (\<lambda>_ c'. thread_num (fst c') = thread_num ?s - 1 -
    (if (0x40 :: ptr) = NULL then 0 else 1) - (if [0x10, 0x18, 0x20, 0x30 :: ptr] = [] then 0 else 1))"
    using scheduler_destroy_leaks [OF q r, of E] by (simp add: ex_sched2_def ex_thread_def)
  then show "returns (scheduler_destroy E 0x8 (?s, [])) (\<lambda>_ c'. thread_num (fst c') = 3)" by simp
qed

text \<open>
  A thread that has been destroyed can come back: setting it to suspended
  succeeds, although its status is documented to be a dead end, and after that it can be
  woken and enters the work queue.
\<close>

theorem destroyed_thread_revives:
  assumes "ws_holds (executor_count E) exec s (Suc k) xs" "threads s thread \<noteq> None" "thread \<noteq> NULL"
    and "status s thread = T_STAT_DESTROY"
    and "t_mbox (the (threads s thread)) (mbox_slot thread_mbox_executor) = thread_mbox_null_executor E"
  shows "returns (scheduler_deactivate_thread E raise cycle thread T_STAT_SUSPEND exec (s, [])) (\<lambda>r c.
    r = Inr True \<and> returns (scheduler_activate_thread E (\<lambda>c. Some ((), c)) thread exec c) (\<lambda>r c'.
      r \<and> ws_holds (executor_count E) exec (fst c') k (xs @ [thread])))"
proof -
  obtain t where t: "threads s thread = Some t" using assms(2) by blast
  let ?u = "store (t_stat_loc thread) T_STAT_SUSPEND s"
  have "scheduler_try_deactivate_thread E raise cycle thread T_STAT_SUSPEND exec (s, []) = Some (Inr 1, (?u, []))"
    using t assms(3-5) by (simp add: scheduler_try_deactivate_thread_def rd_def Let_def atomic_compare_and_set_uint_def
        cas_def stat_of_def t_stat_defs)
  then have d: "scheduler_deactivate_thread E raise cycle thread T_STAT_SUSPEND exec (s, []) = Some (Inr True, (?u, []))"
    by (simp add: scheduler_deactivate_thread_def retry.simps)
  have "ws_holds (executor_count E) exec ?u (Suc k) xs" using assms(1) by (simp only: ws_holds_frame)
  moreover have "threads ?u thread \<noteq> None" "status ?u thread = T_STAT_SUSPEND" using t by simp_all
  ultimately have "returns (scheduler_activate_thread E (\<lambda>c. Some ((), c)) thread exec (?u, []))
      (\<lambda>r c'. r \<and> ws_holds (executor_count E) exec (fst c') k (xs @ [thread]))"
    using activate_quiet [of E exec ?u k xs thread "\<lambda>c. Some ((), c)" "\<lambda>_. True"] assms(3)
    by (auto simp: terminal_def stat_of_def t_stat_defs elim!: returns_mono)
  then show ?thesis unfolding d by simp
qed

lemma destroyed_thread_revives_witness:
  "\<exists>s :: sched_state. status s 0x10 = T_STAT_DESTROY \<and>
    returns (scheduler_deactivate_thread ex_env (\<lambda>_ c. Some ((), c))
      (\<lambda>_ c. Some ((), c)) 0x10 T_STAT_SUSPEND 0 (s, [])) (\<lambda>r c. r = Inr True)"
proof -
  let ?E = "ex_env"
  obtain u :: sched_state where u: "ws_holds 1 0 u 3 []" "threads u = threads (ex_sched T_STAT_DESTROY)"
    by (rule ex_sched_started)
  have "ws_holds (executor_count ?E) 0 u (Suc 2) []" using u(1) by simp
  from destroyed_thread_revives [OF this, of "0x10" "\<lambda>_ c. Some ((), c)" "\<lambda>_ c. Some ((), c)"] show ?thesis
    using u(2) by (intro exI [of _ u]) (auto simp: ex_thread_def elim!: returns_mono)
qed

subsection \<open>Starting a thread\<close>

text \<open>
  \<open>thread_init\<close> gives the thread the next number, counts it, copies the
  seven words of the mailbox and sets the status, a runnable one to the code that changes
  nothing; it leaves the destructor whatever the memory held, so destroying the thread calls
  that address, and never the destructor of the parameters.
\<close>

theorem thread_init_destroy:
  assumes "thread \<noteq> NULL" "threads s thread = Some t"
  shows "returns (thread_init thread stat mbox (s, [])) (\<lambda>_ c. \<exists>t'. threads (fst c) thread = Some t' \<and>
    t_id t' = thread_id s + 1 \<and> thread_id (fst c) = thread_id s + 1 \<and> thread_num (fst c) = thread_num s + 1 \<and>
    t_sched_stat_ref t' = (if t_sched_stat stat = T_STAT_RUNNABLE then T_STAT_NONE else t_sched_stat stat) \<and>
    (\<forall>acc \<in> {thread_mbox_retaddr, thread_mbox_stkptr, thread_mbox_executor, thread_mbox_sigptr,
      thread_mbox_write_log_index, thread_mbox_write_log, thread_mbox_allocators}.
      t_mbox t' (mbox_slot acc) = mbox (mbox_slot acc)) \<and>
    thread_destroy call thread c =
      (let d = ((fst c)\<lparr>thread_num := thread_num s\<rparr>, [])
       in if t_destroy t = NULL then Some ((), d) else call (t_destroy t) thread d))"
  using assms
  by (simp add: thread_init_def thread_destroy_def wp atomic_fetch_inc_uint_def atomic_increment_uint_def
      atomic_decrement_uint_def Let_def mbox_slot_def thread_mbox_defs prd_def)

lemma thread_init_destroy_witness:
  "returns (thread_init 0x10 \<lparr>s_id = 0, t_sched_stat = T_STAT_SUSPENDED, t_pri = 0, s_destroy = 0x77\<rparr> (\<lambda>_. 5) (ex_sched 0, []))
    (\<lambda>_ c. thread_destroy (\<lambda>_ _ _. None) 0x10 c \<noteq> None)"
  using thread_init_destroy [of "0x10" "ex_sched 0" "ex_thread 0"
      "\<lparr>s_id = 0, t_sched_stat = T_STAT_SUSPENDED, t_pri = 0, s_destroy = 0x77\<rparr>" "\<lambda>_. 5" "\<lambda>_ _ _. None"]
  by (auto simp: ex_thread_def Let_def elim!: returns_mono)

lemma private_queue_is_fifo_witness:
  "\<exists>t. run_fifo (sq_enq 0x8) (sq_deq 0x8) [Enq 0x10, Enq 0x20, Deq, Enq 0x10, Deq, Deq, Deq] (ex_sched 0) =
    Some ([Some 0x10, Some 0x20, Some 0x10, None], t)"
proof -
  have "sq_holds 0x8 0 {0x10, 0x20} (ex_sched 0) 0 []" by (simp add: sq_holds_def)
  from private_queue_is_fifo [OF this, of "[Enq 0x10, Enq 0x20, Deq, Enq 0x10, Deq, Deq, Deq]"] show ?thesis by auto
qed

end
