(* ===== verification/Switching.thy ===== *)
theory Switching
  imports Scheduling CC
begin

unbundle bit_operations_syntax

section \<open>What the executors do\<close>

text \<open>
  A switch from one thread to the next through the scheduler and the mailboxes; what an idle
  executor does and which signals wake it; how the structures are laid out; and what the
  calls of the interface do with the status of a thread.
\<close>

subsection \<open>Switching threads\<close>

abbreviation mail :: "'a thread_state_scheme \<Rightarrow> ptr \<Rightarrow> (ptr \<Rightarrow> ptr) \<Rightarrow> u32" where
  "mail s t acc \<equiv> t_mbox (the (threads s t)) (mbox_slot acc)"

lemma mbox_slots [simp]:
  "mbox_slot thread_mbox_retaddr = 0" "mbox_slot thread_mbox_stkptr = 1" "mbox_slot thread_mbox_executor = 2"
  "mbox_slot thread_mbox_sigptr = 3" "mbox_slot thread_mbox_write_log_index = 4"
  "mbox_slot thread_mbox_write_log = 5" "mbox_slot thread_mbox_allocators = 6"
  by (simp_all add: mbox_slot_def thread_mbox_defs)

text \<open>Changes of mailboxes and executors are not seen by the private queue.\<close>

lemma sq_holds_cong:
  fixes s u :: "'a sched_state_scheme"
  assumes "schedulers u sch = schedulers s sch" "\<And>p. map_option t_queue_next (threads u p) = map_option t_queue_next (threads s p)"
  shows "sq_holds sch n T u k xs = sq_holds sch n T s k xs"
proof -
  have "qnext u = qnext s" using assms(2) by (simp add: qnext_def fun_eq_iff)
  moreover have "threads u p \<noteq> None \<longleftrightarrow> threads s p \<noteq> None" for p
    using assms(2) [of p] by (cases "threads u p"; cases "threads s p") auto
  ultimately show ?thesis using assms(1) by (simp add: sq_holds_def)
qed

lemma cycle_replaces:
  assumes "schedulers s sch = Some r" "sch_curr_thread r = t" "t \<noteq> NULL" "threads s t \<noteq> None" "passed_over E s t"
    and q: "sq_holds sch n T s k (ds @ y # ys)" "t \<notin> set (ds @ y # ys)" "\<forall>d \<in> set ds. passed_over E s d"
    and y: "stat_of (status s y) \<in> {T_STAT_RUNNABLE, T_STAT_RUNNING, T_STAT_FINALIZER_LIVE}"
    and n: "balanced (sched_env.executor_count E) (sched_active_threads s) (n - 1 + of_nat (length ys))" "thread \<noteq> gc"
  shows "\<exists>w b. scheduler_cycle E thread gc sch exec (s, []) = Some (y, (w, [])) \<and>
    w = s\<lparr>threads := replaced_threads s (t # ds) y, schedulers := (schedulers s)(sch \<mapsto> b)\<rparr> \<and>
    sch_curr_thread b = y \<and> sq_holds sch (n - 1) T w k ys"
proof -
  have sch: "sch \<noteq> NULL" using q(1) by (simp add: sq_holds_def)
  obtain act where act: "act \<noteq> EXECUTE"
    "sched_set_running_status E t (s, []) = Some (act, (store (t_stat_loc t) (settled (status s t)) s, []))"
    using passed_over_quiet [OF assms(5,4,3)] by blast
  let ?s = "store (t_stat_loc t) (settled (status s t)) s"
  have stat: "status ?s d = status s d" if "d \<in> set (ds @ y # ys)" for d using that q(2) by auto
  have q2: "sq_holds sch n T ?s k (ds @ y # ys)" using q(1) by (simp only: sq_holds_frame)
  have "\<forall>d \<in> set ds. passed_over E ?s d" using q(3) stat by (auto simp: passed_over_def)
  from replace_quiet [OF q2 this, of exec] stat [of y] y n(1) obtain w b where
    w: "scheduler_replace E sch exec (?s, []) = Some (y, (w, []))" "sch_curr_thread b = y" "sq_holds sch (n - 1) T w k ys"
    "w = ?s\<lparr>threads := replaced_threads ?s ds y, schedulers := (schedulers ?s)(sch \<mapsto> b)\<rparr>"
    by auto
  have yn: "y \<noteq> NULL" using q(1) chain_not_NULL by (fastforce simp: sq_holds_def simp del: chain.simps chain_append)
  have curr: "prd (sch_curr_loc sch) (w, []) = Some (y, (w, []))" using w(2,4) sch by (simp add: prd_def)
  have "scheduler_cycle E thread gc sch exec (s, []) = Some (y, (w, []))"
    using assms(1-3) sch act w(1) n(2) curr yn
    by (simp add: scheduler_cycle_def prd_def [of _ "(s, [])"] rd_def Let_def sched_try_workshare.simps scheduler_result_def
        del: field_loc_simps(2))
  moreover have "replaced_threads ?s ds y = replaced_threads s (t # ds) y"
    using q(2) assms(4) by (auto simp: replaced_threads_def fun_eq_iff)
  ultimately show ?thesis using w by (intro exI [of _ w] exI [of _ b]) simp
qed

lemma retire_switch_quiet:
  assumes "ex \<noteq> NULL" "executor_heap s ex = Some x" "ex_scheduler E ex \<noteq> NULL" "schedulers s (ex_scheduler E ex) = Some r"
    and "sch_curr_thread r = t" "t \<noteq> NULL" "threads s t = Some tt"
  shows "executor_retire_old_thread E nobody ex (s, []) = Some ((), (s\<lparr>
    threads := (threads s)(t \<mapsto> tt\<lparr>t_mbox := (t_mbox tt)(2 := nobody)\<rparr>),
    executor_heap := (executor_heap s)(ex \<mapsto> x\<lparr>ex_gc_write_log_index := t_mbox tt 4\<rparr>)\<rparr>, []))"
  using assms by (cases s; cases tt) (simp add: executor_retire_old_thread_def prd_def pwr_def rd_def wr_def Let_def)

text \<open>What an executor writes into the mailbox of the thread it enters.\<close>

definition entered_mbox :: "'e exec_layout_scheme \<Rightarrow> ptr \<Rightarrow> executor_t \<Rightarrow> thread_mbox_t \<Rightarrow> thread_mbox_t" where
  "entered_mbox E ex x m = m(2 := ex_id x, 1 := ex_c_stack x, 3 := ex + ex_mbox_off E, 4 := ex_gc_write_log_index x,
     5 := ex + ex_log_off E, 6 := ex + ex_allocators_off E)"

lemma get_new_quiet:
  assumes "ex \<noteq> NULL" "executor_heap s ex = Some x" "executor_heap w ex = Some x"
    and "scheduler_cycle (sched_with E (s, [])) (cycle_thread E) (cycle_gc E) (ex_scheduler E ex) (ex_id x) (s, []) =
      Some (y, (w, []))"
    and "y \<noteq> NULL" "threads w y = Some ty"
  shows "executor_get_new_thread E ex (s, []) = Some (Context_load (t_mbox ty 0) (t_mbox ty 1 - 4),
    (w\<lparr>threads := (threads w)(y \<mapsto> ty\<lparr>t_mbox := entered_mbox E ex x (t_mbox ty)\<rparr>)\<rparr>, []))"
  using assms by (cases ty) (simp add: executor_get_new_thread_def prd_def pwr_def rd_def wr_def Let_def context_load_def
    entered_mbox_def)

lemma sched_with_simps [simp]:
  "passed_over (sched_with E c) s = passed_over (sched_part E) s"
  "sched_env.executor_count (sched_with E c) = executor_num (fst c)"
  "GC_STATE_INACTIVE (sched_with E c) = GC_STATE_INACTIVE (sched_part E)"
  "GC_STATE_PHASE (sched_with E c) = GC_STATE_PHASE (sched_part E)"
  by (simp_all add: sched_with_def passed_over_def fun_eq_iff)

text \<open>What the private queue of a scheduler holds are threads, each once.\<close>

lemma queued_thread:
  assumes "sq_holds sch n T s k (ds @ y # ys)"
  shows "y \<noteq> NULL" "threads s y \<noteq> None" "distinct (ds @ y # ys)"
proof -
  obtain h where h: "chain (qnext s) h (ds @ y # ys) NULL" using assms unfolding sq_holds_def by blast
  show "distinct (ds @ y # ys)" using h by (rule chain_distinct)
  show "y \<noteq> NULL" "threads s y \<noteq> None"
    using chain_not_NULL [OF h] chain_dom [OF h, of y] by (auto simp: qnext_def split: if_splits)
qed

text \<open>Entering the thread a cycle has chosen after the old thread was replaced.\<close>

lemma enter_replaced:
  assumes ex: "ex \<noteq> NULL" "executor_heap s ex = Some x"
    and w: "scheduler_cycle (sched_with E (s, [])) (cycle_thread E) (cycle_gc E) (ex_scheduler E ex) (ex_id x) (s, []) = Some (y, (w, []))"
      "w = s\<lparr>threads := replaced_threads s (t # ds) y, schedulers := (schedulers s)(ex_scheduler E ex \<mapsto> b)\<rparr>"
      "sq_holds (ex_scheduler E ex) n T w k ys"
    and y: "y \<noteq> NULL" "threads s y = Some ty"
  shows "\<exists>u. executor_get_new_thread E ex (s, []) = Some (Context_load (t_mbox ty 0) (t_mbox ty 1 - 4), (u, [])) \<and>
    threads u = (threads w)(y \<mapsto> ty\<lparr>t_sched_stat_ref := T_STAT_RUNNING OR T_REF, t_mbox := entered_mbox E ex x (t_mbox ty)\<rparr>) \<and>
    schedulers u = schedulers w \<and> sq_holds (ex_scheduler E ex) n T u k ys"
proof -
  let ?ty = "ty\<lparr>t_sched_stat_ref := T_STAT_RUNNING OR T_REF\<rparr>"
  let ?w = "w\<lparr>threads := (threads w)(y \<mapsto> ?ty\<lparr>t_mbox := entered_mbox E ex x (t_mbox ?ty)\<rparr>)\<rparr>"
  have wy: "threads w y = Some ?ty" "executor_heap w ex = Some x" using w(2) y(2) ex(2) by (simp_all add: replaced_threads_def)
  have "executor_get_new_thread E ex (s, []) = Some (Context_load (t_mbox ?ty 0) (t_mbox ?ty 1 - 4), (?w, []))"
    by (rule get_new_quiet [OF ex wy(2) w(1) y(1) wy(1)])
  moreover have "sq_holds (ex_scheduler E ex) n T ?w k ys"
    using w(3) by (subst sq_holds_cong) (use wy(1) in auto)
  ultimately show ?thesis by simp
qed

text \<open>
  C18 [switch]. When the current thread of an executor may not go on, its private queue
  holds one that may, and balancing has nothing to fetch or to give for the threads that are left
  (at least one other counted thread, or a count between the bounds when there are more threads
  than executors), \<open>do_executor_sched_cycle\<close> enters the first such thread \<open>y\<close> at the
  address and on the stack its mailbox gives. The mailbox of \<open>y\<close> then holds the executor, its
  own stack, its signal mailbox, write log and allocators, and the index in the write log
  that the old thread had; the old thread belongs to no executor any more, and its status is
  settled.
\<close>

theorem switch_to_next:
  assumes ex: "executor_live s \<noteq> 0" "ex \<noteq> NULL" "executor_heap s ex = Some x"
    and curr: "sch_curr_thread (the (schedulers s (ex_scheduler E ex))) = t" "t \<noteq> NULL" "threads s t \<noteq> None"
      "passed_over (sched_part E) s t" "cycle_thread E \<noteq> cycle_gc E"
    and q: "sq_holds (ex_scheduler E ex) n T s k (ds @ y # ys)" "t \<notin> set (ds @ y # ys)"
      "\<forall>d \<in> set ds. passed_over (sched_part E) s d"
      "stat_of (status s y) \<in> {T_STAT_RUNNABLE, T_STAT_RUNNING, T_STAT_FINALIZER_LIVE}"
      "balanced (executor_num s) (sched_active_threads s) (n - 1 + of_nat (length ys))"
  shows "returns (do_executor_sched_cycle E ex (s, [])) (\<lambda>r c'.
    r = Context_load (mail s y thread_mbox_retaddr) (mail s y thread_mbox_stkptr - 4) \<and>
    mail (fst c') y thread_mbox_executor = ex_id x \<and> mail (fst c') y thread_mbox_stkptr = ex_c_stack x \<and>
    mail (fst c') y thread_mbox_sigptr = ex + ex_mbox_off E \<and>
    mail (fst c') y thread_mbox_write_log_index = mail s t thread_mbox_write_log_index \<and>
    mail (fst c') y thread_mbox_write_log = ex + ex_log_off E \<and>
    mail (fst c') y thread_mbox_allocators = ex + ex_allocators_off E \<and>
    mail (fst c') t thread_mbox_executor = thread_mbox_null_executor (sched_part E) \<and>
    status (fst c') t = settled (status s t) \<and> status (fst c') y = T_STAT_RUNNING OR T_REF \<and>
    sch_curr_thread (the (schedulers (fst c') (ex_scheduler E ex))) = y \<and>
    sq_holds (ex_scheduler E ex) (n - 1) T (fst c') k ys)"
proof -
  let ?sch = "ex_scheduler E ex" and ?nobody = "thread_mbox_null_executor (sched_part E)"
  obtain tt where t: "threads s t = Some tt" using curr(3) by blast
  obtain r where r: "schedulers s ?sch = Some r" "?sch \<noteq> NULL" using q(1) by (auto simp: sq_holds_def)
  note y = queued_thread [OF q(1)]
  have yt: "y \<noteq> t" using q(2) by auto
  obtain ty where ty: "threads s y = Some ty" using y(2) by blast
  let ?x = "x\<lparr>ex_gc_write_log_index := t_mbox tt 4\<rparr>"
  let ?s = "s\<lparr>threads := (threads s)(t \<mapsto> tt\<lparr>t_mbox := (t_mbox tt)(2 := ?nobody)\<rparr>), executor_heap := (executor_heap s)(ex \<mapsto> ?x)\<rparr>"
  have retire: "executor_retire_old_thread E ?nobody ex (s, []) = Some ((), (?s, []))"
    using retire_switch_quiet [OF ex(2,3) r(2,1) _ curr(2) t] curr(1) r(1) by simp
  have stat: "status ?s p = status s p" for p using t by simp
  have over: "passed_over (sched_part E) ?s p = passed_over (sched_part E) s p" for p
    using stat by (simp add: passed_over_def)
  have q2: "sq_holds ?sch n T ?s k (ds @ y # ys)"
    using q(1) by (subst sq_holds_cong) (use t in auto)
  have "\<exists>w b. scheduler_cycle (sched_with E (?s, [])) (cycle_thread E) (cycle_gc E) ?sch (ex_id ?x) (?s, []) = Some (y, (w, [])) \<and>
      w = ?s\<lparr>threads := replaced_threads ?s (t # ds) y, schedulers := (schedulers ?s)(?sch \<mapsto> b)\<rparr> \<and>
      sch_curr_thread b = y \<and> sq_holds ?sch (n - 1) T w k ys"
    by (rule cycle_replaces [OF _ _ curr(2) _ _ q2 q(2)]) (use r curr q over stat in auto)
  then obtain w b where w: "scheduler_cycle (sched_with E (?s, [])) (cycle_thread E) (cycle_gc E) ?sch (ex_id ?x) (?s, []) = Some (y, (w, []))"
    "w = ?s\<lparr>threads := replaced_threads ?s (t # ds) y, schedulers := (schedulers ?s)(?sch \<mapsto> b)\<rparr>"
    "sch_curr_thread b = y" "sq_holds ?sch (n - 1) T w k ys" by blast
  have sy: "threads ?s y = Some ty" "executor_heap ?s ex = Some ?x" using ty yt by simp_all
  obtain u where u: "executor_get_new_thread E ex (?s, []) = Some (Context_load (t_mbox ty 0) (t_mbox ty 1 - 4), (u, []))"
    "threads u = (threads w)(y \<mapsto> ty\<lparr>t_sched_stat_ref := T_STAT_RUNNING OR T_REF, t_mbox := entered_mbox E ex ?x (t_mbox ty)\<rparr>)"
    "schedulers u = schedulers w" "sq_holds ?sch (n - 1) T u k ys"
    using enter_replaced [OF ex(2) sy(2) w(1,2,4) y(1) sy(1)] by blast
  have "do_executor_sched_cycle E ex (s, []) = Some (Context_load (t_mbox ty 0) (t_mbox ty 1 - 4), (u, []))"
    using ex(1) retire u(1) by (simp add: do_executor_sched_cycle_def rd_def Let_def)
  moreover have "threads w t = Some (tt\<lparr>t_mbox := (t_mbox tt)(2 := ?nobody), t_sched_stat_ref := settled (t_sched_stat_ref tt)\<rparr>)"
    "schedulers w ?sch = Some b"
    using w(2) t yt by (cases tt; simp add: replaced_threads_def)+
  ultimately show ?thesis using u(2-4) w(3) ty t yt by (simp add: entered_mbox_def)
qed

subsection \<open>Idle executors and signals\<close>

text \<open>What the work queue does not hold is in the rest of the state.\<close>

lemma more_exec:
  fixes s t :: "'a exec_state_scheme"
  assumes "thread_queue_state.more t = thread_queue_state.more s"
  shows "threads t = threads s" "schedulers t = schedulers s" "executor_heap t = executor_heap s" "executors t = executors s"
    "os_actions t = os_actions s" "executor_live t = executor_live s" "executor_num t = executor_num s"
proof -
  note m = more_eq_all [OF assms]
  then show "threads t = threads s" "schedulers t = schedulers s" by simp_all
  have "sched_state.more t = sched_state.more s" using m by simp
  then show "executor_heap t = executor_heap s" "executors t = executors s" "os_actions t = os_actions s"
    "executor_live t = executor_live s" "executor_num t = executor_num s"
    by (cases s; cases t; simp)+
qed

text \<open>The thread an executor enters when its scheduler has none, by the state of the collector.\<close>

definition spare_thread :: "'e gc_env_scheme \<Rightarrow> scheduler_t \<Rightarrow> u32 \<Rightarrow> ptr" where
  "spare_thread G r gc = (if (if GC_STATE_INACTIVE G = gc then 1 else 0) AND GC_STATE_PHASE G \<noteq> 0
     then sch_idle_thread r else sch_gc_thread r)"

lemma cycle_spare:
  assumes "schedulers s sch = Some r" "sch \<noteq> NULL" "sch_curr_thread r = NULL"
    and "ws_holds (sched_env.executor_count E) exec s k []"
  shows "\<exists>v. scheduler_cycle E thread gc sch exec (s, []) = Some (spare_thread E r (gc_state v), (v, [])) \<and>
    thread_queue_state.more v = thread_queue_state.more s"
proof -
  from ws_dequeue_empty_quiet [OF assms(4)] obtain v where
    v: "lf_thread_queue_dequeue (sched_env.executor_count E) (sched_workshare s) exec (s, []) = Some (NULL, (v, []))"
    "thread_queue_state.more v = thread_queue_state.more s"
    by (auto simp: returns_ex)
  have r: "schedulers v sch = Some r" using more_eq(2) [OF v(2)] assms(1) by simp
  have "sched_try_workshare E sch exec (s, []) = Some ((), (v, []))"
    using assms v(1) by (subst sched_try_workshare.simps) (simp add: prd_def)
  then show ?thesis using assms(1-3) r v(2)
    by (intro exI [of _ v]) (simp add: scheduler_cycle_def scheduler_result_def prd_def rd_def Let_def spare_thread_def)
qed

lemma raise_quiet:
  assumes "ex = executor_at E i s" "ex \<noteq> NULL" "executor_heap s ex = Some x" "ex_scheduler E ex \<noteq> NULL"
    and "schedulers s (ex_scheduler E ex) = Some r" "sch_curr_thread r \<noteq> sch_idle_thread r"
  shows "executor_raise E i sigs (s, []) =
    Some ((), (s\<lparr>executor_heap := (executor_heap s)(ex \<mapsto> x\<lparr>ex_signal_mbox := ex_signal_mbox x OR sigs\<rparr>)\<rparr>, []))"
proof -
  let ?u = "s\<lparr>executor_heap := (executor_heap s)(ex \<mapsto> x\<lparr>ex_signal_mbox := ex_signal_mbox x OR sigs\<rparr>)\<rparr>"
  have "executor_try_signal ex sigs (s, []) = Some (True, (?u, []))"
    using assms(2,3) by (cases x) (simp add: executor_try_signal_def rd_def cas_def Let_def atomic_cas_defs)
  then have "retry_until (executor_try_signal ex sigs) (s, []) = Some ((), (?u, []))"
    by (simp add: retry_until.simps)
  then show ?thesis using assms by (simp add: executor_raise_def rd_def Let_def)
qed

text \<open>
  C22 [idle]. An executor with no thread at all enters its idle thread, or its collector
  thread, and its current thread stays NULL. \<open>executor_raise\<close> takes an executor for idle when
  its current thread is the idle thread, which it never is: raising a signal leaves the bits
  in the mailbox of the sleeping executor and sends it nothing.
\<close>

theorem idle_executor_not_signalled:
  assumes "executor_live s \<noteq> 0" "ex = executor_at E i s" "ex \<noteq> NULL" "executor_heap s ex = Some x"
    and "ex_scheduler E ex \<noteq> NULL" "schedulers s (ex_scheduler E ex) = Some r" "sch_curr_thread r = NULL"
    and "ws_holds (executor_num s) (ex_id x) s k []"
    and "sch_idle_thread r \<noteq> NULL" "threads s (sch_idle_thread r) \<noteq> None"
    and "sch_gc_thread r \<noteq> NULL" "threads s (sch_gc_thread r) \<noteq> None"
  shows "returns (do_executor_sched_cycle E ex (s, [])) (\<lambda>y c'. \<exists>t. t = spare_thread (sched_part E) r (gc_state (fst c')) \<and>
    y = Context_load (mail s t thread_mbox_retaddr) (mail s t thread_mbox_stkptr - 4) \<and>
    mail (fst c') t thread_mbox_executor = ex_id x \<and>
    schedulers (fst c') = schedulers s \<and> returns (executor_raise E i sigs c') (\<lambda>_ d.
      ex_signal_mbox (the (executor_heap (fst d) ex)) = ex_signal_mbox x OR sigs \<and> os_actions (fst d) = os_actions s))"
proof -
  have "executor_retire_old_thread E nobody ex (s, []) = Some ((), (s, []))" for nobody
    using assms(5-7) by (simp add: executor_retire_old_thread_def prd_def)
  then have cyc: "do_executor_sched_cycle E ex (s, []) = executor_get_new_thread E ex (s, [])"
    using assms(1) by (simp add: do_executor_sched_cycle_def rd_def Let_def)
  obtain v where v: "scheduler_cycle (sched_with E (s, [])) (cycle_thread E) (cycle_gc E) (ex_scheduler E ex) (ex_id x) (s, []) =
      Some (spare_thread (sched_with E (s, [])) r (gc_state v), (v, []))" "thread_queue_state.more v = thread_queue_state.more s"
    using cycle_spare [OF assms(6,5,7), of "sched_with E (s, [])" "ex_id x" k] assms(8) by auto
  note m = more_exec [OF v(2)]
  define t where "t = spare_thread (sched_with E (s, [])) r (gc_state v)"
  then have t: "t = spare_thread (sched_part E) r (gc_state v)" by (simp add: spare_thread_def)
  have "t \<noteq> NULL \<and> threads s t \<noteq> None" using assms(9-12) by (simp add: t spare_thread_def)
  then obtain ty where ty: "t \<noteq> NULL" "threads v t = Some ty" using m(1) by auto
  let ?w = "v\<lparr>threads := (threads v)(t \<mapsto> ty\<lparr>t_mbox := entered_mbox E ex x (t_mbox ty)\<rparr>)\<rparr>"
  have run: "executor_get_new_thread E ex (s, []) = Some (Context_load (t_mbox ty 0) (t_mbox ty 1 - 4), (?w, []))"
    by (rule get_new_quiet [OF assms(3,4) _ v(1) [folded t_def] ty]) (simp add: m assms(4))
  have "executor_raise E i sigs (?w, []) = Some ((), (?w\<lparr>executor_heap := (executor_heap ?w)
      (ex \<mapsto> x\<lparr>ex_signal_mbox := ex_signal_mbox x OR sigs\<rparr>)\<rparr>, []))"
    by (rule raise_quiet [of _ _ _ _ _ r]) (use assms m in \<open>simp_all add: executor_at_def\<close>)
  then show ?thesis unfolding cyc run using t ty m by (simp add: entered_mbox_def)
qed

text \<open>The executors are in memory; executor \<open>i\<close> sleeps and has not been told to run the scheduler.\<close>

definition executors_ok :: "'e exec_layout_scheme \<Rightarrow> 'a exec_state_scheme \<Rightarrow> nat \<Rightarrow> bool" where
  "executors_ok E s n \<longleftrightarrow> (\<forall>i < n. let ex = executor_at E (of_nat i) s in
     ex \<noteq> NULL \<and> executor_heap s ex \<noteq> None \<and> ex_scheduler E ex \<noteq> NULL \<and> schedulers s (ex_scheduler E ex) \<noteq> None)"

definition asleep :: "'e exec_layout_scheme \<Rightarrow> 'a exec_state_scheme \<Rightarrow> nat \<Rightarrow> bool" where
  "asleep E s i \<longleftrightarrow> (let ex = executor_at E (of_nat i) s in
     sch_curr_thread (the (schedulers s (ex_scheduler E ex))) = NULL \<and>
     ex_signal_mbox (the (executor_heap s ex)) AND EX_SIGNAL_SCHEDULE E = 0)"

text \<open>The state after waking executor \<open>i\<close>.\<close>

definition woken :: "'e exec_layout_scheme \<Rightarrow> nat \<Rightarrow> 'a exec_state_scheme \<Rightarrow> 'a exec_state_scheme" where
  "woken E i s = (let ex = executor_at E (of_nat i) s; x = the (executor_heap s ex) in
     s\<lparr>os_actions := os_actions s @ [Signal_send (ex_thread x) os_signal_check_mbox],
       executor_heap := (executor_heap s)(ex \<mapsto> x\<lparr>ex_signal_mbox := ex_signal_mbox x OR EX_SIGNAL_SCHEDULE E\<rparr>)\<rparr>)"

lemma try_wakeup_quiet:
  assumes "executors_ok E s n" "i < n"
  shows "executor_try_wakeup E (executor_at E (of_nat i) s) (s, []) =
    (if asleep E s i then Some (1, (woken E i s, [])) else Some (- 1, (s, [])))"
proof -
  let ?ex = "executor_at E (of_nat i) s"
  obtain x r where "?ex \<noteq> NULL" "executor_heap s ?ex = Some x" "ex_scheduler E ?ex \<noteq> NULL"
    "schedulers s (ex_scheduler E ?ex) = Some r"
    using assms by (auto simp: executors_ok_def Let_def)
  then show ?thesis
    by (cases x) (simp add: executor_try_wakeup_def rd_def prd_def pwr_def cas_def Let_def atomic_cas_defs asleep_def woken_def os_defs
        c_int_def)
qed

lemma restart_loop_quiet:
  assumes "executors_ok E s n" "set is \<subseteq> {..<n}"
  shows "executor_restart_loop E is (s, []) =
    Some ((), (case find (asleep E s) is of None \<Rightarrow> s | Some i \<Rightarrow> woken E i s, []))"
  using assms(2)
proof (induction "is")
  case Nil
  then show ?case by simp
next
  case (Cons i "is")
  then show ?case using try_wakeup_quiet [OF assms(1), of i]
    by (simp add: retry_nonzero_def retry.simps)
qed

lemma restart_quiet:
  assumes "executors_ok E s (unat (executor_num s))"
  shows "executor_restart_idle E (s, []) =
    Some ((), (case find (asleep E s) [0..<unat (executor_num s)] of None \<Rightarrow> s | Some i \<Rightarrow> woken E i s, []))"
  unfolding executor_restart_idle_def fst_conv by (rule restart_loop_quiet [OF assms]) auto

text \<open>
  C21 [restart]. \<open>executor_restart_idle\<close> wakes at most one executor: it gives the first one
  that has no thread and no pending request the request to run its scheduler, and sends its
  operating system thread, and no other, the signal that ends its sleep. When every
  executor is busy or already called, it changes nothing.
\<close>

theorem restart_wakes_first:
  assumes "executors_ok E s (unat (executor_num s))"
  shows "executor_restart_idle E (s, []) =
    Some ((), (case find (asleep E s) [0..<unat (executor_num s)] of None \<Rightarrow> s | Some i \<Rightarrow> woken E i s, []))"
  by (rule restart_quiet [OF assms])

subsection \<open>Creating and changing threads\<close>

lemma ws_holds_cong:
  fixes s u :: "'a sched_state_scheme"
  assumes "tq_nodes u = tq_nodes s" "tq_queues u = tq_queues s" "tq_allocs u = tq_allocs s"
    "lf_thread_queue_hptrs u = lf_thread_queue_hptrs s"
    "lf_thread_queue_hptr_threshold u = lf_thread_queue_hptr_threshold s" "sched_workshare u = sched_workshare s"
  shows "ws_holds ec exec u k xs = ws_holds ec exec s k xs"
  unfolding ws_holds_def assms(6) by (rule tq_holds_cong) (use assms in simp_all)

text \<open>Waking an executor leaves threads and queues alone.\<close>

lemma woken_frame [simp]:
  "threads (woken E i s) = threads s" "schedulers (woken E i s) = schedulers s" "thread_num (woken E i s) = thread_num s"
  "ws_holds ec exec (woken E i s) k xs = ws_holds ec exec s k xs"
  "os_actions (woken E i s) = os_actions s @
     [Signal_send (ex_thread (the (executor_heap s (executor_at E (of_nat i) s)))) os_signal_check_mbox]"
  by (simp_all add: woken_def Let_def) (intro ws_holds_cong; simp)

lemma asleep_cong:
  fixes s u :: "'a exec_state_scheme"
  assumes "schedulers u = schedulers s" "executor_heap u = executor_heap s" "executors u = executors s"
  shows "asleep E u = asleep E s" "executors_ok E u n = executors_ok E s n" "executor_at E i u = executor_at E i s"
  using assms by (simp_all add: asleep_def executors_ok_def executor_at_def fun_eq_iff)

text \<open>The actions of waking the first sleeping executor.\<close>

definition wake_actions :: "'e exec_layout_scheme \<Rightarrow> 'a exec_state_scheme \<Rightarrow> os_action list" where
  "wake_actions E s = (case find (asleep E s) [0..<unat (executor_num s)] of None \<Rightarrow> []
     | Some i \<Rightarrow> [Signal_send (ex_thread (the (executor_heap s (executor_at E (of_nat i) s)))) os_signal_check_mbox])"

lemma wake_cong:
  fixes s u :: "'a exec_state_scheme"
  shows "schedulers u = schedulers s \<Longrightarrow> executor_heap u = executor_heap s \<Longrightarrow> executors u = executors s \<Longrightarrow>
    executor_num u = executor_num s \<Longrightarrow> wake_actions E u = wake_actions E s"
  using asleep_cong [of u s E] by (simp add: wake_actions_def split: option.split)

lemma restart_keeps:
  fixes s u :: "'a exec_state_scheme"
  assumes ok: "executors_ok E s (unat (executor_num s))" and u: "schedulers u = schedulers s"
    "sched_state.more u = sched_state.more s"
  shows "returns (executor_restart_idle E (u, [])) (\<lambda>_ c'. threads (fst c') = threads u \<and> thread_num (fst c') = thread_num u \<and>
    ws_holds ec exec (fst c') k xs = ws_holds ec exec u k xs \<and> os_actions (fst c') = os_actions s @ wake_actions E s)"
proof -
  have m: "executor_heap u = executor_heap s" "executors u = executors s" "executor_num u = executor_num s"
    "os_actions u = os_actions s"
    using u(2) by (cases u; cases s; simp)+
  note c = asleep_cong [OF u(1) m(1,2)]
  show ?thesis using restart_quiet [of E u] ok
    by (auto simp: c m wake_actions_def split: option.splits)
qed

text \<open>Activating a thread that is new: it is entered, and the first sleeping executor is woken.\<close>

lemma activate_new:
  fixes s :: "'a exec_state_scheme"
  assumes "thread \<noteq> NULL" "threads s thread \<noteq> None" "status s thread = T_STAT_NONE"
    and ws: "ws_holds (executor_num s) exec s (Suc k) xs" and ok: "executors_ok E s (unat (executor_num s))"
  shows "returns (cc_activate E thread exec (s, [])) (\<lambda>_ c'. status (fst c') thread = T_STAT_RUNNABLE OR T_REF \<and>
    t_mbox (the (threads (fst c') thread)) = t_mbox (the (threads s thread)) \<and> thread_num (fst c') = thread_num s \<and>
    ws_holds (executor_num s) exec (fst c') k (xs @ [thread]) \<and> os_actions (fst c') = os_actions s @ wake_actions E s)"
proof -
  let ?ec = "sched_env.executor_count (sched_with E (s, []))"
  define P where "P u \<longleftrightarrow> t_mbox (the (threads u thread)) = t_mbox (the (threads s thread)) \<and> thread_num u = thread_num s \<and>
    os_actions u = os_actions s @ wake_actions E s" for u :: "'a exec_state_scheme"
  have "returns (cc_activate E thread exec (s, [])) (\<lambda>r c'.
    if terminal (status s thread) then \<not> r \<and> c' = (s, [])
    else r \<and> status (fst c') thread = T_STAT_RUNNABLE OR T_REF \<and>
      ws_holds ?ec exec (fst c') k (if status s thread AND T_REF = 0 then xs @ [thread] else xs) \<and>
      (if status s thread AND T_REF = 0 then P (fst c') else snd c' = [] \<and> schedulers (fst c') = schedulers s \<and>
        sched_state.more (fst c') = sched_state.more s \<and> threads (fst c') = threads (store (t_stat_loc thread) (T_STAT_RUNNABLE OR T_REF) s)))"
    unfolding cc_activate_def
  proof (rule activate_quiet [where P = "\<lambda>c. P (fst c)"])
    show "ws_holds ?ec exec s (Suc k) xs" using ws by simp
    fix u :: "'a exec_state_scheme"
    assume u: "status u thread = T_STAT_RUNNABLE OR T_REF" "ws_holds ?ec exec u k (xs @ [thread])"
      "threads u = threads (store (t_stat_loc thread) (T_STAT_RUNNABLE OR T_REF) s)" "schedulers u = schedulers s"
      "thread_num u = thread_num s" "sched_state.more u = sched_state.more s"
    from restart_keeps [OF ok u(4,6), where ec = "executor_num s" and exec = exec and k = k and xs = "xs @ [thread]"] u assms(2)
    show "returns (executor_restart_idle E (u, [])) (\<lambda>_ c'. status (fst c') thread = T_STAT_RUNNABLE OR T_REF \<and>
        ws_holds ?ec exec (fst c') k (xs @ [thread]) \<and> P (fst c'))"
      by (auto simp: P_def elim!: returns_mono)
  qed (rule assms(1,2))+
  then show ?thesis by (rule returns_mono) (simp add: assms(3) P_def terminal_def stat_of_def t_stat_defs)
qed

text \<open>
  Creating a runnable thread copies the mailbox, counts the thread, makes
  it runnable and referenced, enters it at the end of the work queue, and wakes the first
  sleeping executor, if there is one.
\<close>

theorem create_enters_work_queue:
  fixes s :: "'a exec_state_scheme"
  assumes "t_sched_stat stat = T_STAT_RUNNABLE" "thread \<noteq> NULL" "threads s thread \<noteq> None"
    and "addr \<noteq> NULL" "words s addr \<noteq> None"
    and "ws_holds (executor_num s) exec s (Suc k) xs" "executors_ok E s (unat (executor_num s))"
  shows "returns (cc_thread_create E stat mbox addr thread exec (s, [])) (\<lambda>_ c'.
    status (fst c') thread = T_STAT_RUNNABLE OR T_REF \<and> (\<forall>i < 7. t_mbox (the (threads (fst c') thread)) i = mbox i) \<and>
    thread_num (fst c') = thread_num s + 1 \<and> ws_holds (executor_num s) exec (fst c') k (xs @ [thread]) \<and>
    os_actions (fst c') = os_actions s @ wake_actions E s)"
proof -
  obtain t where t: "threads s thread = Some t" using assms(3) by blast
  let ?t = "t\<lparr>t_id := thread_id s + 1, t_sched_stat_ref := T_STAT_NONE, t_mbox := (\<lambda>i. if i < 7 then mbox i else t_mbox t i)\<rparr>"
  let ?w = "s\<lparr>words := (words s)(addr \<mapsto> thread + t_mbox_off E)\<rparr>"
  let ?s = "?w\<lparr>thread_id := thread_id s + 1, thread_num := thread_num s + 1, threads := (threads s)(thread \<mapsto> ?t)\<rparr>"
  have "wr (word_loc addr) (thread + t_mbox_off E) (s, []) = Some ((), (?w, []))"
    using assms(4,5) by (auto simp: wr_def word_loc_def Let_def)
  moreover have "thread_init thread stat mbox (?w, []) = Some ((), (?s, []))"
    using t assms(1,2) by (cases t) (simp add: thread_init_def atomic_fetch_inc_uint_def atomic_increment_uint_def
        prd_def pwr_def wr_def Let_def cong: if_cong)
  ultimately have run: "cc_thread_create E stat mbox addr thread exec (s, []) = cc_activate E thread exec (?s, []) \<bind> (\<lambda>(_, c). Some ((), c))"
    using assms(1,2) by (simp add: cc_thread_create_def)
  have "ws_holds (executor_num ?s) exec ?s (Suc k) xs" using assms(6) by (subst ws_holds_cong [of _ s]) simp_all
  moreover have "executors_ok E ?s (unat (executor_num ?s))" "wake_actions E ?s = wake_actions E s"
    using assms(7) asleep_cong(2) [of ?s s E] wake_cong [of ?s s E] by simp_all
  ultimately have "returns (cc_activate E thread exec (?s, [])) (\<lambda>_ c'. status (fst c') thread = T_STAT_RUNNABLE OR T_REF \<and>
    t_mbox (the (threads (fst c') thread)) = t_mbox ?t \<and> thread_num (fst c') = thread_num s + 1 \<and>
    ws_holds (executor_num s) exec (fst c') k (xs @ [thread]) \<and> os_actions (fst c') = os_actions s @ wake_actions E s)"
    using activate_new [of thread ?s exec k xs E] assms(2) by simp
  then show ?thesis unfolding run by (auto simp: returns_bind elim!: returns_mono)
qed

text \<open>The loop that empties the mailbox takes all signals at one moment.\<close>

lemma mbox_taken:
  assumes "ex \<noteq> NULL" "env_inv (\<lambda>s. executor_heap s ex \<noteq> None) c" "executor_heap (fst c) ex \<noteq> None"
  shows "returns (retry (\<lambda>c. do {
       (mbox, c) \<leftarrow> rd (ex_mbox_loc ex) c;
       (ok, c) \<leftarrow> atomic_compare_and_set_uint mbox 0 (ex_mbox_loc ex) c;
       Some (if ok then Some mbox else None, c) }) c)
    (\<lambda>m c'. \<exists>d. env_to c d \<and> m = ex_signal_mbox (the (executor_heap (fst d) ex)) \<and>
      c' = (store (ex_mbox_loc ex) 0 (fst d), snd d))"
proof (rule retry_rule [where P = "env_to c"])
  fix d assume d: "env_to c d"
  have ld: "load (ex_mbox_loc ex) s \<noteq> None" if "executor_heap s ex \<noteq> None" for s using that assms(1) by simp
  obtain v where r: "cas_round (ex_mbox_loc ex) c d v" using cas_round_ex [OF d assms(2,3) ld] by blast
  then have v: "rd (ex_mbox_loc ex) d = Some (v, interfere d)" by (simp add: cas_round_def)
  from r env_to_refl show "returns (do {
       (mbox, c) \<leftarrow> rd (ex_mbox_loc ex) d;
       (ok, c) \<leftarrow> atomic_compare_and_set_uint mbox 0 (ex_mbox_loc ex) c;
       Some (if ok then Some mbox else None, c) }) (\<lambda>r c'. case r of
     Some m \<Rightarrow> \<exists>d. env_to c d \<and> m = ex_signal_mbox (the (executor_heap (fst d) ex)) \<and>
       c' = (store (ex_mbox_loc ex) 0 (fst d), snd d)
   | None \<Rightarrow> env_to c c' \<and> length (snd c') < length (snd d))"
  proof (cases rule: cas_roundE [where new = 0])
    case swap
    then have "v = ex_signal_mbox (the (executor_heap (fst (interfere (interfere d))) ex))"
      by (auto split: if_splits)
    then have "\<exists>e. env_to c e \<and> v = ex_signal_mbox (the (executor_heap (fst e) ex)) \<and>
        (store (ex_mbox_loc ex) 0 (fst (interfere (interfere d))), snd (interfere (interfere d))) = (store (ex_mbox_loc ex) 0 (fst e), snd e)"
      using swap(2) by blast
    then show ?thesis using swap v by (simp add: atomic_cas_defs del: field_loc_simps)
  next
    case again
    then show ?thesis using v by (simp add: atomic_cas_defs)
  qed
qed simp

text \<open>
  C19 [safepoint]. Whatever the other executors do, a safepoint takes all signals out of the
  mailbox at one moment, so none is lost. It then runs the scheduler when one of them, or one
  of those the caller passes, is the scheduler's or the collector's, and returns otherwise:
  a request for the collector does just what one for the scheduler does.
\<close>

theorem safepoint_takes_signals:
  assumes "ex = executor_at E exec (fst c)" "ex \<noteq> NULL"
    and "env_inv (\<lambda>s. executor_heap s ex \<noteq> None) c" "executor_heap (fst c) ex \<noteq> None"
  shows "\<exists>d m. env_to c d \<and> m = ex_signal_mbox (the (executor_heap (fst d) ex)) OR sigs \<and>
    executor_safepoint E exec sigs c = (let c' = (store (ex_mbox_loc ex) 0 (fst d), snd d) in
      if m AND EX_SIGNAL_SCHEDULE E \<noteq> 0 \<or> m AND EX_SIGNAL_GC E \<noteq> 0
      then do { (x, c) \<leftarrow> do_executor_sched_cycle E ex c'; Some (Inl x, c) }
      else Some (Inr (), c'))"
proof -
  have gc: "do_executor_run_gc E = do_executor_sched_cycle E"
    by (simp add: fun_eq_iff do_executor_run_gc_def do_executor_sched_cycle_def)
  from mbox_taken [OF assms(2-4)] obtain d where d: "env_to c d"
    "retry (\<lambda>c. do {
       (mbox, c) \<leftarrow> rd (ex_mbox_loc ex) c;
       (ok, c) \<leftarrow> atomic_compare_and_set_uint mbox 0 (ex_mbox_loc ex) c;
       Some (if ok then Some mbox else None, c) }) c =
     Some (ex_signal_mbox (the (executor_heap (fst d) ex)), (store (ex_mbox_loc ex) 0 (fst d), snd d))"
    unfolding returns_ex by blast
  then show ?thesis
    by (intro exI [of _ d] exI [of _ "ex_signal_mbox (the (executor_heap (fst d) ex)) OR sigs"])
      (simp add: executor_safepoint_def executor_check_mbox_sigs_def assms(1) [symmetric] gc Let_def del: field_loc_simps)
qed

subsection \<open>Starting the executors\<close>

text \<open>The state while \<open>executor_setup\<close> fills the array \<open>mem\<close>: the first \<open>i\<close> of \<open>n\<close> are done.\<close>

definition set_up ::
  "'e exec_layout_scheme \<Rightarrow> (ptr \<Rightarrow> u32) \<Rightarrow> os_action list \<Rightarrow> os_sigset_t \<Rightarrow> ptr \<Rightarrow> nat \<Rightarrow> nat \<Rightarrow> 'a exec_state_scheme \<Rightarrow> bool" where
  "set_up E tid as sm mem n i u \<longleftrightarrow> executors u = mem \<and> executor_live u = 1 \<and> executor_num u = of_nat n \<and>
     os_sigmask u = sm \<and> executor_signal_thread u = tid NULL \<and>
     executor_normal_sigmask u = os_thread_sigset_clear_mandatory UNIV \<and>
     executor_idle_sigmask u = executor_normal_sigmask u - {os_signal_check_mbox} \<and> executor_sigthread_sigmask u = {} \<and>
     os_actions u = as @ map (\<lambda>j. Thread_create (tid (executor_at E (of_nat j) u)) (worker_start_addr E)
       (executor_at E (of_nat j) u)) [1..<i] \<and>
     (\<forall>j < n. executor_heap u (executor_at E (of_nat j) u) \<noteq> None) \<and>
     (\<forall>j < i. \<exists>x. executor_heap u (executor_at E (of_nat j) u) = Some x \<and> ex_id x = of_nat j \<and> ex_signal_mbox x = 0 \<and>
       ex_thread x = (if j = 0 then env_self E else tid (executor_at E (of_nat j) u)))"

lemma set_up_step:
  assumes P: "set_up E tid as sm mem n i u" and i: "1 \<le> i" "i < n"
    and tid: "env_create E (mem + of_nat i * sizeof_executor_t E) = Some (tid (mem + of_nat i * sizeof_executor_t E))"
    and ex: "inj_on (\<lambda>j. mem + of_nat j * sizeof_executor_t E) {..<n}" "\<forall>j < n. mem + of_nat j * sizeof_executor_t E \<noteq> NULL"
  shows "returns (do {
       let exec = executor_at E (of_nat i) u;
       (_, c) \<leftarrow> pwr (ex_id_loc exec) (of_nat i) (u, []);
       (_, c) \<leftarrow> wr (ex_mbox_loc exec) 0 c;
       (thread, c) \<leftarrow> os_thread_create E (worker_start_addr E) exec c;
       pwr (ex_thread_loc exec) thread c }) (\<lambda>_ c'. snd c' = [] \<and> set_up E tid as sm mem n (Suc i) (fst c'))"
proof -
  let ?ex = "executor_at E (of_nat i) u"
  have e: "?ex \<noteq> NULL" "executor_heap u ?ex \<noteq> None" using P i ex(2) by (auto simp: set_up_def executor_at_def)
  then obtain x where x: "executor_heap u ?ex = Some x" by blast
  have tid: "env_create E ?ex = Some (tid ?ex)" using tid P by (simp add: set_up_def executor_at_def)
  let ?v = "u\<lparr>executor_heap := (executor_heap u)(?ex \<mapsto> x\<lparr>ex_id := of_nat i, ex_signal_mbox := 0, ex_thread := tid ?ex\<rparr>),
    os_actions := os_actions u @ [Thread_create (tid ?ex) (worker_start_addr E) ?ex]\<rparr>"
  have run: "do {
       let exec = executor_at E (of_nat i) u;
       (_, c) \<leftarrow> pwr (ex_id_loc exec) (of_nat i) (u, []);
       (_, c) \<leftarrow> wr (ex_mbox_loc exec) 0 c;
       (thread, c) \<leftarrow> os_thread_create E (worker_start_addr E) exec c;
       pwr (ex_thread_loc exec) thread c } = Some ((), (?v, []))"
    using e x tid by (cases x) (simp add: Let_def pwr_def wr_def prd_def os_defs)
  have ne: "executor_at E (of_nat j) u \<noteq> ?ex" if "j < i" for j
    using inj_onD [OF ex(1), of j i] that i(2) P by (auto simp: executor_at_def set_up_def)
  have at: "executor_at E j ?v = executor_at E j u" for j by (simp add: executor_at_def)
  have "set_up E tid as sm mem n (Suc i) ?v"
    using P i(1) x ne unfolding set_up_def at by (auto simp: less_Suc_eq)
  then show ?thesis unfolding run by simp
qed

text \<open>The loop over the executors after the first one.\<close>

definition set_up_body ::
  "'e exec_layout_scheme \<Rightarrow> nat \<Rightarrow> 'a exec_state_scheme conc \<Rightarrow> (unit \<times> 'a exec_state_scheme conc) option" where
  "set_up_body E = (\<lambda>i c. do {
     let exec = executor_at E (of_nat i) (fst c);
     (_, c) \<leftarrow> pwr (ex_id_loc exec) (of_nat i) c;
     (_, c) \<leftarrow> wr (ex_mbox_loc exec) 0 c;
     (thread, c) \<leftarrow> os_thread_create E (worker_start_addr E) exec c;
     pwr (ex_thread_loc exec) thread c })"

lemma set_up_loop:
  fixes t :: "'a exec_state_scheme" and E :: "'e exec_layout_scheme"
  assumes P: "set_up E tid as sm mem n 1 t" and m: "1 \<le> m" "m \<le> n"
    and tid: "\<forall>j \<in> {1..<m}. env_create E (mem + of_nat j * sizeof_executor_t E) = Some (tid (mem + of_nat j * sizeof_executor_t E))"
    and ex: "inj_on (\<lambda>j. mem + of_nat j * sizeof_executor_t E) {..<n}" "\<forall>j < n. mem + of_nat j * sizeof_executor_t E \<noteq> NULL"
  shows "\<exists>u. foreach (set_up_body E) [1..<m] (t, []) = Some ((), (u, [])) \<and> set_up E tid as sm mem n m u"
proof -
  let ?P = "\<lambda>i c'. snd c' = [] \<and> set_up E tid as sm mem n i (fst c')"
  have "returns (foreach (set_up_body E) [1..<m] (t, [])) (\<lambda>_ c'. ?P m c')"
  proof (rule foreach_rule [where P = ?P])
    fix i and c :: "'a exec_state_scheme conc"
    assume i: "1 \<le> i" "i < m" "?P i c"
    then obtain u where u: "c = (u, [])" "set_up E tid as sm mem n i u" by (cases c) auto
    have "i < n" using i(2) m(2) by simp
    from set_up_step [OF u(2) i(1) this _ ex] tid i(1,2) show "returns (set_up_body E i c) (\<lambda>_ c'. ?P (Suc i) c')"
      unfolding u(1) fst_conv set_up_body_def by simp
  qed (use P m in auto)
  then show ?thesis unfolding returns_ex by force
qed

lemma foreach_append: "foreach f (xs @ ys) c = foreach f xs c \<bind> (\<lambda>(_, c). foreach f ys c)"
  by (induction xs arbitrary: c) (auto split: Option.bind_splits)

text \<open>The first thread that is refused ends the loop, and the program with it.\<close>

lemma set_up_refused:
  fixes t :: "'a exec_state_scheme" and E :: "'e exec_layout_scheme"
  assumes P: "set_up E (\<lambda>a. the (env_create E a)) as sm mem n 1 t"
    and k: "1 \<le> k" "k < n" "env_create E (mem + of_nat k * sizeof_executor_t E) = None"
    and ex: "inj_on (\<lambda>j. mem + of_nat j * sizeof_executor_t E) {..<n}" "\<forall>j < n. mem + of_nat j * sizeof_executor_t E \<noteq> NULL"
  shows "foreach (set_up_body E) [1..<n] (t, []) = None"
proof -
  let ?bad = "\<lambda>j. 1 \<le> j \<and> env_create E (mem + of_nat j * sizeof_executor_t E) = None"
  define m where "m = (LEAST j. ?bad j)"
  have m: "?bad m" "m \<le> k" unfolding m_def using LeastI [of ?bad k] Least_le [of ?bad k] k by simp_all
  have good: "env_create E (mem + of_nat j * sizeof_executor_t E) = Some (the (env_create E (mem + of_nat j * sizeof_executor_t E)))"
    if "j \<in> {1..<m}" for j using not_less_Least [of j ?bad] that unfolding m_def by auto
  obtain u where u: "foreach (set_up_body E) [1..<m] (t, []) = Some ((), (u, []))" "set_up E (\<lambda>a. the (env_create E a)) as sm mem n m u"
    using set_up_loop [OF P _ _ _ ex, of m] good m k by auto
  have "mem + of_nat m * sizeof_executor_t E \<noteq> NULL" using ex(2) m(2) k(2) by simp
  then have "set_up_body E m (u, []) = None"
    using m u(2) by (auto simp: set_up_body_def set_up_def executor_at_def Let_def pwr_def wr_def os_thread_create_def split: Option.bind_splits)
  moreover have "[1..<n] = [1..<m] @ m # [Suc m..<n]"
    using upt_add_eq_append [of 1 m "n - m"] upt_conv_Cons [of m n] m k(2) by simp
  ultimately show ?thesis using u(1) by (simp only: foreach_append) simp
qed

text \<open>
  C20 [executor_setup]. \<open>executor_setup\<close> of two executors or more, in an array of that many, creates
  the signal thread and one worker for every executor but the first. When the operating system grants all of
  these threads, it returns with the system live: every executor of the array has its number, an empty signal
  mailbox and its operating system thread, the signal handler was installed before the first thread was
  created, the threads were created in order, and the mask of the calling thread is the one it had before, not
  the one of an executor. When one of them is refused, the program ends.
\<close>

theorem setup_starts_executors:
  fixes s :: "'a exec_state_scheme"
  assumes "1 < n" "n < 2 ^ 32"
    and ex: "inj_on (\<lambda>j. mem + of_nat j * sizeof_executor_t E) {..<n}"
      "\<forall>j < n. mem + of_nat j * sizeof_executor_t E \<noteq> NULL \<and> executor_heap s (mem + of_nat j * sizeof_executor_t E) \<noteq> None"
  shows "if \<forall>a \<in> insert NULL ((\<lambda>j. mem + of_nat j * sizeof_executor_t E) ` {1..<n}). env_create E a \<noteq> None
    then returns (executor_setup E (of_nat n) mem (s, [])) (\<lambda>p c'. snd c' = [] \<and>
      set_up E (\<lambda>a. the (env_create E a)) (os_actions s @ [Handler (acknowledge_addr E) os_signal_check_mbox,
        Thread_create (the (env_create E NULL)) (signal_thread_addr E) NULL]) (os_sigmask s - {SIGKILL}) mem n n (fst c'))
    else executor_setup E (of_nat n) mem (s, []) = None"
proof -
  have n: "unat (of_nat n :: u32) = n" using assms(2) by (simp add: unat_of_nat)
  let ?tid = "\<lambda>a. the (env_create E a)"
  let ?as = "os_actions s @ [Handler (acknowledge_addr E) os_signal_check_mbox, Thread_create (?tid NULL) (signal_thread_addr E) NULL]"
  let ?normal = "os_thread_sigset_clear_mandatory UNIV"
  obtain x where x: "mem \<noteq> NULL" "executor_heap s mem = Some x" using ex(2) assms(1) by (force dest: spec [of _ 0])
  let ?m = "s\<lparr>executor_idle_sigmask := ?normal - {os_signal_check_mbox}, executor_normal_sigmask := ?normal,
    executor_sigthread_sigmask := {}, os_sigmask := ?normal - {SIGKILL},
    os_actions := os_actions s @ [Handler (acknowledge_addr E) os_signal_check_mbox]\<rparr>"
  let ?t = "?m\<lparr>os_key := NULL, os_actions := ?as, executor_signal_thread := ?tid NULL, executor_live := 1, executor_num := of_nat n,
    executors := mem, executor_heap := (executor_heap s)(mem \<mapsto> x\<lparr>ex_id := 0, ex_signal_mbox := 0, ex_thread := env_self E\<rparr>)\<rparr>"
  have masks: "executor_setup_masks E (s, []) = Some (os_sigmask s, (?m, []))"
    by (simp add: executor_setup_masks_def prd_def pwr_def os_defs os_sigset_fill_def os_sigset_empty_def os_sigset_clear_def)
  have zero: "executor_at E 0 u = mem" if "executors u = mem" for u :: "'a exec_state_scheme"
    using that by (simp add: executor_at_def)
  have first: "set_up E ?tid ?as (?normal - {SIGKILL}) mem n 1 ?t"
    using ex(2) assms(1) by (auto simp: set_up_def executor_at_def)
  have nn: "\<forall>j < n. mem + of_nat j * sizeof_executor_t E \<noteq> NULL" using ex(2) by blast
  have run: "executor_setup E (of_nat n) mem (s, []) = (case env_create E NULL of None \<Rightarrow> None | Some _ \<Rightarrow>
      foreach (set_up_body E) [1..<n] (?t, []) \<bind> (\<lambda>(_, c). Some (fold (\<lambda>i. scheduler_setup (ex_scheduler E (executor_at E (of_nat i) (fst c)))) [1..<n]
        (scheduler_setup (ex_scheduler E mem) (mem + (let z = of_nat n * sizeof_executor_t E in
          if z \<noteq> 0 then ((z - 1) AND NOT (CACHE_LINE_SIZE - 1)) + CACHE_LINE_SIZE else 0))), (fst c)\<lparr>os_sigmask := os_sigmask s - {SIGKILL}\<rparr>, snd c)))"
    using masks x unfolding executor_setup_def set_up_body_def [symmetric]
    by (cases x; cases "env_create E NULL") (simp_all add: Let_def n zero prd_def pwr_def wr_def os_defs split: Option.bind_splits)
  show ?thesis
  proof (cases "\<forall>a \<in> insert NULL ((\<lambda>j. mem + of_nat j * sizeof_executor_t E) ` {1..<n}). env_create E a \<noteq> None")
    case True
    then obtain u where u: "foreach (set_up_body E) [1..<n] (?t, []) = Some ((), (u, []))"
        "set_up E ?tid ?as (?normal - {SIGKILL}) mem n n u"
      using set_up_loop [OF first _ _ _ ex(1) nn, of n] assms(1) by auto
    have "executor_at E j (u\<lparr>os_sigmask := os_sigmask s - {SIGKILL}\<rparr>) = executor_at E j u" for j by (simp add: executor_at_def)
    then have "set_up E ?tid ?as (os_sigmask s - {SIGKILL}) mem n n (u\<lparr>os_sigmask := os_sigmask s - {SIGKILL}\<rparr>)"
      using u(2) by (auto simp: set_up_def)
    then show ?thesis using True run u(1) by auto
  next
    case False
    then have "executor_setup E (of_nat n) mem (s, []) = None"
      using run set_up_refused [OF first _ _ _ ex(1) nn] by (auto split: option.splits)
    then show ?thesis using False by simp
  qed
qed

subsection \<open>Examples\<close>

text \<open>One executor of \<open>0x1000\<close> bytes at address \<open>0x1000\<close>.\<close>

definition ex_exec_env :: "exec_state exec_env" where
  "ex_exec_env = \<lparr>env_ncpu = Some 2, env_stack_size = 0x10000, env_self = 7, env_create = (\<lambda>a. Some (a + 1)),
     sizeof_executor_t = 0x1000, sizeof_thread_t = 0x40, ex_idle_off = 0x100, ex_gc_off = 0x180, ex_scheduler_off = 0x200,
     ex_closure_off = 0x300, ex_mbox_off = 0x20, ex_log_off = 0x400, ex_allocators_off = 0x1000, t_mbox_off = 4,
     EX_SIGNAL_SCHEDULE = 1, EX_SIGNAL_GC = 2, idle_thread_addr = 0x900000, gc_thread_addr = 0x900010,
     signal_thread_addr = 0x900020, worker_start_addr = 0x900030, acknowledge_addr = 0x900040, free_addr = 0x900050,
     sched_part = \<lparr>env_mmap = (\<lambda>_. - 1), env_failures = (\<lambda>_. 0), env_out = (\<lambda>_. 0), GC_STATE_INACTIVE = 0,
       GC_STATE_PHASE = 1, GC_STATE_INITIAL = 2, env_bsr = 0, sched_env.executor_count = 1,
       call_destroy = (\<lambda>_ _ c. Some ((), c)), thread_mbox_null_executor = 99\<rparr>,
     gc_closure_init = (\<lambda>_ _ c. Some ((), c)), gc_thread_run = (\<lambda>_ _ c. Some ((), c)),
     guest_main = (\<lambda>_ _ _ _ _ c. Some (Inr (), c)), uint_min = (\<lambda>a b. if a < b then a else b),
     cycle_thread = 1, cycle_gc = 0\<rparr>"

definition ex_mail :: "u32 \<Rightarrow> u32 \<Rightarrow> thread_t" where
  "ex_mail w k = (Scheduling.ex_thread w)\<lparr>t_mbox := (\<lambda>i. k + of_nat i)\<rparr>"

definition ex_executor :: executor_t where
  "ex_executor = \<lparr>ex_id = 0, ex_c_stack = 0x5000, ex_gc_write_log_index = 0, ex_thread = 7, ex_signal_mbox = 0\<rparr>"

text \<open>A state whose work queue is empty, with the current thread \<open>now\<close> and the private queue of \<open>0x20\<close>, \<open>0x30\<close>.\<close>

definition ex_exec :: "ptr \<Rightarrow> exec_state \<Rightarrow> exec_state" where
  "ex_exec now u = u\<lparr>words := (\<lambda>_. Some 0), gc_state := 0,
     threads := [0x10 \<mapsto> ex_mail (T_STAT_SUSPEND OR T_REF) 0x100,
       0x20 \<mapsto> (ex_mail (T_STAT_RUNNABLE OR T_REF) 0x200)\<lparr>t_queue_next := 0x30\<rparr>,
       0x30 \<mapsto> ex_mail (T_STAT_RUNNABLE OR T_REF) 0x300, 0x50 \<mapsto> ex_mail (T_STAT_RUNNING OR T_REF) 0x500,
       0x60 \<mapsto> ex_mail (T_STAT_RUNNING OR T_REF) 0x600],
     thread_num := 3,
     schedulers := [0x1200 \<mapsto> \<lparr>sch_num_threads = 3, sch_queue_head = 0x20, sch_queue_tail = 0x30, sch_curr_thread = now,
       sch_idle_thread = 0x50, sch_gc_thread = 0x60\<rparr>],
     sched_active_threads := 1, os_actions := [], executor_heap := [0x1000 \<mapsto> ex_executor], executor_num := 1,
     executors := 0x1000, executor_live := 1\<rparr>"

lemma ex_exec_env_simps [simp]:
  "ex_scheduler ex_exec_env ex = ex + 0x200" "executor_at ex_exec_env i s = executors s + i * 0x1000"
  "cycle_thread ex_exec_env = 1" "cycle_gc ex_exec_env = 0" "ex_mbox_off ex_exec_env = 0x20"
  "EX_SIGNAL_SCHEDULE ex_exec_env = 1" "GC_STATE_PHASE (sched_part ex_exec_env) = 1" "sizeof_executor_t ex_exec_env = 0x1000"
  "GC_STATE_INACTIVE (sched_part ex_exec_env) = 0" "thread_mbox_null_executor (sched_part ex_exec_env) = 99"
  "EX_SIGNAL_GC ex_exec_env = 2" "env_create ex_exec_env = (\<lambda>a. Some (a + 1))"
  "env_self ex_exec_env = 7"
  by (simp_all add: ex_exec_env_def ex_scheduler_def executor_at_def)

lemma ex_exec_started:
  obtains u :: exec_state where "ws_holds 1 0 u 3 []"
proof -
  fix s :: exec_state
  let ?s = "s\<lparr>tq_nodes := tq_nodes ex_tq, tq_queues := tq_queues ex_tq, tq_allocs := tq_allocs ex_tq\<rparr>"
  have "tq_memory ?s (0x10000 - 0x80) (ws_cap 1) 1"
    unfolding tq_memory_def
    by (simp_all add: ws_cap_def tq_node_def tq_alloc_at_def tq_align_def tq_count_def ex_tq_node)
  from start_ready [OF this] show ?thesis using that by (auto simp: returns_ex)
qed

lemma ex_exec_holds: "sq_holds 0x1200 1 {} (ex_exec now u) 0 [0x20, 0x30]"
  by (simp add: sq_holds_def ex_exec_def qnext_def ex_mail_def Scheduling.ex_thread_def)

lemma switch_to_next_witness:
  "\<forall>u. returns (do_executor_sched_cycle ex_exec_env 0x1000 (ex_exec 0x10 u, []))
    (\<lambda>r c'. r = Context_load 0x200 0x1FD \<and> mail (fst c') 0x20 thread_mbox_stkptr = 0x5000 \<and>
      mail (fst c') 0x10 thread_mbox_executor = 99 \<and> status (fst c') 0x10 = T_STAT_SUSPENDED)"
proof
  fix u
  let ?s = "ex_exec 0x10 u"
  have "returns (do_executor_sched_cycle ex_exec_env 0x1000 (?s, [])) (\<lambda>r c'.
    r = Context_load (mail ?s 0x20 thread_mbox_retaddr) (mail ?s 0x20 thread_mbox_stkptr - 4) \<and>
    mail (fst c') 0x20 thread_mbox_executor = ex_id ex_executor \<and> mail (fst c') 0x20 thread_mbox_stkptr = ex_c_stack ex_executor \<and>
    mail (fst c') 0x20 thread_mbox_sigptr = 0x1000 + ex_mbox_off ex_exec_env \<and>
    mail (fst c') 0x20 thread_mbox_write_log_index = mail ?s 0x10 thread_mbox_write_log_index \<and>
    mail (fst c') 0x20 thread_mbox_write_log = 0x1000 + ex_log_off ex_exec_env \<and>
    mail (fst c') 0x20 thread_mbox_allocators = 0x1000 + ex_allocators_off ex_exec_env \<and>
    mail (fst c') 0x10 thread_mbox_executor = thread_mbox_null_executor (sched_part ex_exec_env) \<and>
    status (fst c') 0x10 = settled (status ?s 0x10) \<and> status (fst c') 0x20 = T_STAT_RUNNING OR T_REF \<and>
    sch_curr_thread (the (schedulers (fst c') (ex_scheduler ex_exec_env 0x1000))) = 0x20 \<and>
    sq_holds (ex_scheduler ex_exec_env 0x1000) (1 - 1) {} (fst c') 0 [0x30])"
    by (rule switch_to_next [where ds = "[]"])
      (use ex_exec_holds [of "0x10" u] in \<open>simp_all add: balanced_def ex_exec_def ex_mail_def Scheduling.ex_thread_def passed_over_def stat_of_def t_stat_defs\<close>)
  then show "returns (do_executor_sched_cycle ex_exec_env 0x1000 (?s, []))
    (\<lambda>r c'. r = Context_load 0x200 0x1FD \<and> mail (fst c') 0x20 thread_mbox_stkptr = 0x5000 \<and>
      mail (fst c') 0x10 thread_mbox_executor = 99 \<and> status (fst c') 0x10 = T_STAT_SUSPENDED)"
    by (rule returns_mono) (simp add: ex_exec_def ex_mail_def Scheduling.ex_thread_def ex_executor_def settled_def stat_of_def t_stat_defs)
qed

lemma ex_exec_ws: "ws_holds 1 0 u 3 [] \<Longrightarrow> ws_holds 1 0 (ex_exec now u) 3 []"
  by (subst ws_holds_cong [of _ u]) (simp_all add: ex_exec_def)

lemma ex_exec_ok: "executors_ok ex_exec_env (ex_exec now u) 1"
  by (simp add: executors_ok_def ex_exec_def Let_def)

lemma idle_executor_not_signalled_witness:
  "\<exists>s :: exec_state. returns (do_executor_sched_cycle ex_exec_env 0x1000 (s, []))
    (\<lambda>y c'. (y = Context_load 0x500 0x4FD \<or> y = Context_load 0x600 0x5FD) \<and>
      returns (executor_raise ex_exec_env 0 1 c') (\<lambda>_ d. ex_signal_mbox (the (executor_heap (fst d) 0x1000)) = 1 \<and> os_actions (fst d) = []))"
proof -
  obtain u :: exec_state where u: "ws_holds 1 0 u 3 []" by (rule ex_exec_started)
  let ?s = "ex_exec NULL u" and ?r = "\<lparr>sch_num_threads = 3, sch_queue_head = 0x20, sch_queue_tail = 0x30, sch_curr_thread = NULL,
       sch_idle_thread = 0x50, sch_gc_thread = 0x60\<rparr>"
  have "returns (do_executor_sched_cycle ex_exec_env 0x1000 (?s, [])) (\<lambda>y c'. \<exists>t. t = spare_thread (sched_part ex_exec_env) ?r (gc_state (fst c')) \<and>
    y = Context_load (mail ?s t thread_mbox_retaddr) (mail ?s t thread_mbox_stkptr - 4) \<and>
    mail (fst c') t thread_mbox_executor = ex_id ex_executor \<and>
    schedulers (fst c') = schedulers ?s \<and> returns (executor_raise ex_exec_env 0 1 c') (\<lambda>_ d.
      ex_signal_mbox (the (executor_heap (fst d) 0x1000)) = ex_signal_mbox ex_executor OR 1 \<and> os_actions (fst d) = os_actions ?s))"
    by (rule idle_executor_not_signalled [where k = 3])
      (use ex_exec_ws [OF u, of NULL] in \<open>simp_all add: ex_exec_def ex_executor_def\<close>)
  then show ?thesis
    by (intro exI [of _ ?s], elim returns_mono)
      (auto simp: spare_thread_def ex_exec_def ex_mail_def ex_executor_def elim!: returns_mono split: if_splits)
qed

lemma restart_wakes_first_witness:
  "\<forall>u. executor_restart_idle ex_exec_env (ex_exec NULL u, []) = Some ((), (woken ex_exec_env 0 (ex_exec NULL u), []))"
proof
  fix u
  have "executor_num (ex_exec NULL u) = 1" by (simp add: ex_exec_def)
  moreover have "asleep ex_exec_env (ex_exec NULL u) 0" by (simp add: asleep_def ex_exec_def ex_executor_def Let_def)
  ultimately show "executor_restart_idle ex_exec_env (ex_exec NULL u, []) = Some ((), (woken ex_exec_env 0 (ex_exec NULL u), []))"
    using restart_wakes_first [of ex_exec_env "ex_exec NULL u"] ex_exec_ok [of NULL u] by simp
qed

lemma create_enters_work_queue_witness:
  "\<exists>s :: exec_state. returns (cc_thread_create ex_exec_env \<lparr>s_id = 0, t_sched_stat = T_STAT_RUNNABLE, t_pri = 0, s_destroy = 0\<rparr>
      (\<lambda>_. 5) 0x70 0x10 0 (s, []))
    (\<lambda>_ c'. t_mbox (the (threads (fst c') 0x10)) 3 = 5 \<and> ws_holds 1 0 (fst c') 2 [0x10] \<and>
      os_actions (fst c') = [Signal_send 7 SIGUSR1])"
proof -
  obtain u :: exec_state where u: "ws_holds 1 0 u 3 []" by (rule ex_exec_started)
  let ?s = "ex_exec NULL u" and ?st = "\<lparr>s_id = 0, t_sched_stat = T_STAT_RUNNABLE, t_pri = 0, s_destroy = 0\<rparr>"
  have n: "executor_num ?s = 1" "os_actions ?s = []" by (simp_all add: ex_exec_def)
  have "asleep ex_exec_env ?s 0" by (simp add: asleep_def ex_exec_def ex_executor_def Let_def)
  then have w: "wake_actions ex_exec_env ?s = [Signal_send 7 SIGUSR1]"
    using n by (simp add: wake_actions_def ex_exec_def ex_executor_def os_signal_check_mbox_def)
  have "returns (cc_thread_create ex_exec_env ?st (\<lambda>_. 5) 0x70 0x10 0 (?s, [])) (\<lambda>_ c'.
    status (fst c') 0x10 = T_STAT_RUNNABLE OR T_REF \<and> (\<forall>i < 7. t_mbox (the (threads (fst c') 0x10)) i = 5) \<and>
    thread_num (fst c') = thread_num ?s + 1 \<and> ws_holds (executor_num ?s) 0 (fst c') 2 ([] @ [0x10]) \<and>
    os_actions (fst c') = os_actions ?s @ wake_actions ex_exec_env ?s)"
    by (rule create_enters_work_queue) (use ex_exec_ws [OF u, of NULL] ex_exec_ok [of NULL u] n in \<open>simp_all add: ex_exec_def\<close>)
  then show ?thesis using n w by (intro exI [of _ ?s]) (auto elim!: returns_mono)
qed

lemma safepoint_takes_signals_witness:
  "\<forall>u. \<exists>c'. executor_safepoint ex_exec_env 0 0 (ex_exec NULL u,
      [\<lambda>s. s\<lparr>executor_heap := [0x1000 \<mapsto> ex_executor\<lparr>ex_signal_mbox := 4\<rparr>]\<rparr>]) = Some (Inr (), c') \<and>
    ex_signal_mbox (the (executor_heap (fst c') 0x1000)) = 0"
proof
  fix u
  let ?f = "\<lambda>s. s\<lparr>executor_heap := [0x1000 \<mapsto> ex_executor\<lparr>ex_signal_mbox := 4\<rparr>]\<rparr> :: exec_state"
  let ?c = "(ex_exec NULL u, [?f])"
  have "\<exists>d m. env_to ?c d \<and> m = ex_signal_mbox (the (executor_heap (fst d) 0x1000)) OR 0 \<and>
    executor_safepoint ex_exec_env 0 0 ?c = (let c' = (store (ex_mbox_loc 0x1000) 0 (fst d), snd d) in
      if m AND EX_SIGNAL_SCHEDULE ex_exec_env \<noteq> 0 \<or> m AND EX_SIGNAL_GC ex_exec_env \<noteq> 0
      then do { (x, c) \<leftarrow> do_executor_sched_cycle ex_exec_env 0x1000 c'; Some (Inl x, c) }
      else Some (Inr (), c'))"
    by (rule safepoint_takes_signals) (simp_all add: ex_exec_def env_inv_def)
  then obtain d m where d: "env_to ?c d" "m = ex_signal_mbox (the (executor_heap (fst d) 0x1000))"
    "executor_safepoint ex_exec_env 0 0 ?c = (let c' = (store (ex_mbox_loc 0x1000) 0 (fst d), snd d) in
      if m AND EX_SIGNAL_SCHEDULE ex_exec_env \<noteq> 0 \<or> m AND EX_SIGNAL_GC ex_exec_env \<noteq> 0
      then do { (x, c) \<leftarrow> do_executor_sched_cycle ex_exec_env 0x1000 c'; Some (Inl x, c) }
      else Some (Inr (), c'))" by auto
  have "m = 0 \<or> m = 4" "executor_heap (fst d) 0x1000 \<noteq> None"
    using d(1,2) by (auto simp: env_to_def Cons_eq_append_conv ex_exec_def ex_executor_def)
  then show "\<exists>c'. executor_safepoint ex_exec_env 0 0 ?c = Some (Inr (), c') \<and>
    ex_signal_mbox (the (executor_heap (fst c') 0x1000)) = 0"
    using d(3) by (auto simp: Let_def)
qed

text \<open>Two executors; and the same where the system refuses the worker.\<close>

lemma setup_starts_executors_witness:
  "\<forall>u. \<exists>r. returns (executor_setup ex_exec_env 2 0x1000 ((ex_exec NULL u)\<lparr>executor_heap := [0x1000 \<mapsto> ex_executor, 0x2000 \<mapsto> ex_executor]\<rparr>, []))
      (\<lambda>p c'. executor_live (fst c') = 1 \<and> os_actions (fst c') = r @ [Thread_create 1 0x900020 NULL, Thread_create 0x2001 0x900030 0x2000] \<and>
        ex_thread (the (executor_heap (fst c') 0x1000)) = 7 \<and> ex_thread (the (executor_heap (fst c') 0x2000)) = 0x2001) \<and>
    executor_setup (ex_exec_env\<lparr>env_create := [NULL \<mapsto> 1]\<rparr>) 2 0x1000
      ((ex_exec NULL u)\<lparr>executor_heap := [0x1000 \<mapsto> ex_executor, 0x2000 \<mapsto> ex_executor]\<rparr>, []) = None"
proof
  fix u
  let ?s = "(ex_exec NULL u)\<lparr>executor_heap := [0x1000 \<mapsto> ex_executor, 0x2000 \<mapsto> ex_executor]\<rparr>"
  let ?F = "ex_exec_env\<lparr>env_create := [NULL \<mapsto> 1]\<rparr>"
  let ?as = "os_actions ?s @ [Handler (acknowledge_addr ex_exec_env) os_signal_check_mbox, Thread_create 1 (signal_thread_addr ex_exec_env) NULL]"
  have l: "j = 0 \<or> j = 1" if "j < 2" for j :: nat using that by auto
  have i: "inj_on (\<lambda>j. 0x1000 + of_nat j * 0x1000 :: u32) {..<2}" by (auto simp: inj_on_def dest!: l)
  have m: "\<forall>j < 2. 0x1000 + of_nat j * 0x1000 \<noteq> (NULL :: u32) \<and> executor_heap ?s (0x1000 + of_nat j * 0x1000) \<noteq> None"
    by (auto dest!: l)
  have e: "sizeof_executor_t ?F = 0x1000" "env_create ?F = [NULL \<mapsto> 1]" by (simp_all add: ex_exec_env_def)
  have one: "{1..<2} = {1 :: nat}" by auto
  from setup_starts_executors [where n = 2 and mem = "0x1000" and E = ?F and s = ?s] i m have "executor_setup ?F 2 0x1000 (?s, []) = None"
    unfolding e one by simp
  moreover from setup_starts_executors [where n = 2 and mem = "0x1000" and E = ex_exec_env and s = ?s] i m
  have "returns (executor_setup ex_exec_env 2 0x1000 (?s, [])) (\<lambda>p c'. snd c' = [] \<and>
      set_up ex_exec_env (\<lambda>a. a + 1) ?as (os_sigmask ?s - {SIGKILL}) 0x1000 2 2 (fst c'))"
    unfolding ex_exec_env_simps one by simp
  then have "returns (executor_setup ex_exec_env 2 0x1000 (?s, []))
      (\<lambda>p c'. executor_live (fst c') = 1 \<and> os_actions (fst c') = [Handler (acknowledge_addr ex_exec_env) os_signal_check_mbox] @
          [Thread_create 1 0x900020 NULL, Thread_create 0x2001 0x900030 0x2000] \<and>
        ex_thread (the (executor_heap (fst c') 0x1000)) = 7 \<and> ex_thread (the (executor_heap (fst c') 0x2000)) = 0x2001)"
    by (rule returns_mono) (auto simp: set_up_def ex_exec_def ex_exec_env_def executor_at_def less_Suc_eq numeral_2_eq_2 upt_rec)
  ultimately show "\<exists>r. returns (executor_setup ex_exec_env 2 0x1000 (?s, []))
      (\<lambda>p c'. executor_live (fst c') = 1 \<and> os_actions (fst c') = r @ [Thread_create 1 0x900020 NULL, Thread_create 0x2001 0x900030 0x2000] \<and>
        ex_thread (the (executor_heap (fst c') 0x1000)) = 7 \<and> ex_thread (the (executor_heap (fst c') 0x2000)) = 0x2001) \<and>
    executor_setup ?F 2 0x1000 (?s, []) = None" by blast
qed

end
