(* ===== verification/Thread_Lists.thy ===== *)
theory Thread_Lists
  imports Switching
begin

unbundle bit_operations_syntax

section \<open>Where a scheduler lists its threads\<close>

text \<open>
  A thread is listed in the work queue, in the private queue of a scheduler or as its current
  thread, and the flag \<open>T_REF\<close> of its status word says that it is. Here an executor runs any
  sequence of wakings, status changes, balancings and cycles of its scheduler: a step relation
  over the memory of the program. In every state it reaches within the room of the work queue no thread is
  listed twice, every listed thread has the flag, and the next operation comes to its end.
\<close>

subsection \<open>The invariant\<close>

definition current :: "ptr \<Rightarrow> 'a sched_state_scheme \<Rightarrow> ptr" where
  "current sch s = sch_curr_thread (the (schedulers s sch))"

text \<open>The status of a listed thread: its flag is set, and it is not destroyed, dead or suspended.\<close>

definition listed_stat :: "u32 set" where
  "listed_stat = {T_STAT_RUNNABLE, T_STAT_RUNNING, T_STAT_SUSPEND, T_STAT_TERM, T_STAT_GC_WAIT, T_STAT_FINALIZER_LIVE}"

definition live :: "u32 \<Rightarrow> bool" where
  "live w \<longleftrightarrow> w AND T_REF \<noteq> 0 \<and> stat_of w \<in> listed_stat"

text \<open>
  The work queue holds \<open>xs\<close> and has room for \<open>k\<close> more, the private queue holds \<open>ys\<close>, and the
  threads \<open>zs\<close> are in the executor's hands; all of them are different and live. \<open>J\<close> is what
  waking an idle executor relies on.
\<close>

definition lists ::
  "('a sched_state_scheme \<Rightarrow> bool) \<Rightarrow> 'a sched_state_scheme sched_env \<Rightarrow> ptr \<Rightarrow> u32 \<Rightarrow> ptr set \<Rightarrow> nat \<Rightarrow> 'a sched_state_scheme \<Rightarrow>
   ptr list \<Rightarrow> ptr list \<Rightarrow> ptr list \<Rightarrow> bool" where
  "lists J E sch exec T k s xs ys zs \<longleftrightarrow> J s \<and> ws_holds (sched_env.executor_count E) exec s k xs \<and> (\<exists>n. sq_holds sch n T s 0 ys) \<and>
     distinct (xs @ ys @ zs) \<and> set (xs @ ys @ zs) \<subseteq> T \<and> (\<forall>z \<in> set (xs @ ys @ zs). live (status s z))"

text \<open>Between two operations the executor has its current thread in hand.\<close>

definition listed_once ::
  "('a sched_state_scheme \<Rightarrow> bool) \<Rightarrow> 'a sched_state_scheme sched_env \<Rightarrow> ptr \<Rightarrow> u32 \<Rightarrow> ptr set \<Rightarrow> nat \<Rightarrow> 'a sched_state_scheme \<Rightarrow> bool" where
  "listed_once J E sch exec T k s \<longleftrightarrow>
     (\<exists>xs ys. lists J E sch exec T k s xs ys (if current sch s = NULL then [] else [current sch s]))"

lemma live_words [simp]:
  "live (T_STAT_RUNNABLE OR T_REF)" "live (T_STAT_RUNNING OR T_REF)"
  by (simp_all add: live_def listed_stat_def stat_of_def t_stat_defs)

lemma listed_stat_cases: "w \<in> listed_stat \<longleftrightarrow> w \<in> {0, 1, 2, 4, 7, 8}"
  by (simp add: listed_stat_def t_stat_defs)

lemma live_update:
  assumes "live w" "stat \<in> listed_stat"
  shows "live (w AND T_REF OR stat)"
proof -
  have "(w AND T_REF OR stat) AND T_REF = w AND T_REF" "stat_of (w AND T_REF OR stat) = stat"
    using assms(2) unfolding listed_stat_cases
    by (auto simp: stat_of_def t_stat_defs bit.conj_disj_distrib2 and.assoc)
  then show ?thesis using assms by (simp add: live_def)
qed

text \<open>The operations on the private queue change neither a status word nor the current thread.\<close>

definition words_kept :: "ptr \<Rightarrow> 'a sched_state_scheme \<Rightarrow> 'a sched_state_scheme \<Rightarrow> bool" where
  "words_kept sch s u \<longleftrightarrow> u = s\<lparr>threads := threads u, schedulers := schedulers u\<rparr> \<and> current sch u = current sch s \<and>
     dom (schedulers u) = dom (schedulers s) \<and>
     (\<forall>p. map_option t_sched_stat_ref (threads u p) = map_option t_sched_stat_ref (threads s p))"

lemma words_kept_refl: "words_kept sch s s"
  by (simp add: words_kept_def)

lemma words_kept_trans: "words_kept sch s t \<Longrightarrow> words_kept sch t u \<Longrightarrow> words_kept sch s u"
  unfolding words_kept_def
proof (elim conjE, intro conjI)
  assume t: "t = s\<lparr>threads := threads t, schedulers := schedulers t\<rparr>"
    and u: "u = t\<lparr>threads := threads u, schedulers := schedulers u\<rparr>"
  show "u = s\<lparr>threads := threads u, schedulers := schedulers u\<rparr>" by (subst u, subst t) simp
qed simp_all

lemma words_kept_pwr:
  "pwr (t_queue_next_loc p) v (s, fs) = Some (r, d) \<Longrightarrow> snd d = fs \<and> words_kept sch s (fst d)"
  "pwr (sch_num_loc q) n (s, fs) = Some (r, d) \<Longrightarrow> snd d = fs \<and> words_kept sch s (fst d)"
  "pwr (sch_head_loc q) v (s, fs) = Some (r, d) \<Longrightarrow> snd d = fs \<and> words_kept sch s (fst d)"
  "pwr (sch_tail_loc q) v (s, fs) = Some (r, d) \<Longrightarrow> snd d = fs \<and> words_kept sch s (fst d)"
  by (auto simp: pwr_def words_kept_def current_def dom_def split: if_splits option.splits)

lemma prd_same: "prd l c = Some (v, d) \<Longrightarrow> d = c"
  by (auto simp: prd_def split: option.splits)

lemma words_kept_enqueue:
  assumes "sched_queue_enqueue q x (s, fs) = Some (r, (u, gs))"
  shows "words_kept sch s u"
  using assms
  by (auto simp: sched_queue_enqueue_def split: bind_splits if_splits
      dest!: prd_same words_kept_pwr [where sch = sch]) (meson words_kept_trans)+

lemma words_kept_dequeue:
  assumes "sched_queue_dequeue q (s, fs) = Some (r, (u, gs))"
  shows "words_kept sch s u"
  using assms
  by (auto simp: sched_queue_dequeue_def split: bind_splits if_splits
      dest!: prd_same words_kept_pwr [where sch = sch]) (meson words_kept_trans)+

lemma words_kept_same:
  assumes "words_kept sch s u"
  shows "ws_holds ec exec u k xs = ws_holds ec exec s k xs" "current sch u = current sch s"
    "threads s p \<noteq> None \<Longrightarrow> status u p = status s p"
    "threads u p \<noteq> None \<longleftrightarrow> threads s p \<noteq> None"
proof -
  have u: "u = s\<lparr>threads := threads u, schedulers := schedulers u\<rparr>" using assms by (simp add: words_kept_def)
  show "ws_holds ec exec u k xs = ws_holds ec exec s k xs" by (subst u) simp
  have m: "map_option t_sched_stat_ref (threads u p) = map_option t_sched_stat_ref (threads s p)"
    using assms by (simp add: words_kept_def)
  then show "status u p = status s p" if "threads s p \<noteq> None" using that by (cases "threads u p") auto
  show "threads u p \<noteq> None \<longleftrightarrow> threads s p \<noteq> None" using m by (metis option.map_disc_iff)
qed (use assms in \<open>simp add: words_kept_def\<close>)

lemma words_kept_rest:
  assumes "words_kept sch s u"
  shows "sched_state.more u = sched_state.more s \<and> dom (schedulers u) = dom (schedulers s)"
proof -
  have u: "u = s\<lparr>threads := threads u, schedulers := schedulers u\<rparr>" "dom (schedulers u) = dom (schedulers s)"
    using assms by (simp_all add: words_kept_def)
  have "sched_state.more u = sched_state.more s" by (subst u(1)) simp
  then show ?thesis using u(2) by simp
qed

text \<open>Only the operations that follow change the lists; each keeps the current thread.\<close>

definition to_lists ::
  "('a sched_state_scheme \<Rightarrow> bool) \<Rightarrow> 'a sched_state_scheme sched_env \<Rightarrow> ptr \<Rightarrow> u32 \<Rightarrow> ptr set \<Rightarrow> nat \<Rightarrow> 'a sched_state_scheme \<Rightarrow>
   ptr list \<Rightarrow> ptr list \<Rightarrow> ptr list \<Rightarrow> 'a sched_state_scheme conc \<Rightarrow> bool" where
  "to_lists J E sch exec T k s xs ys zs c \<longleftrightarrow> snd c = [] \<and> current sch (fst c) = current sch s \<and>
     lists J E sch exec T k (fst c) xs ys zs"

text \<open>Some lists with the same threads in hand; \<open>k\<close> is the room the operation leaves.\<close>

definition some_lists ::
  "('a sched_state_scheme \<Rightarrow> bool) \<Rightarrow> 'a sched_state_scheme sched_env \<Rightarrow> ptr \<Rightarrow> u32 \<Rightarrow> ptr set \<Rightarrow> nat \<Rightarrow> 'a sched_state_scheme \<Rightarrow> ptr list \<Rightarrow> 'a sched_state_scheme conc \<Rightarrow> bool" where
  "some_lists J E sch exec T k s zs c \<longleftrightarrow> (\<exists>xs ys. to_lists J E sch exec T k s xs ys zs c)"

text \<open>
  A cycle uses the room for one more thread in the work queue only when it has found a
  thread to run.
\<close>

definition chosen ::
  "('a sched_state_scheme \<Rightarrow> bool) \<Rightarrow> 'a sched_state_scheme sched_env \<Rightarrow> ptr \<Rightarrow> u32 \<Rightarrow> ptr set \<Rightarrow> nat \<Rightarrow> 'a sched_state_scheme conc \<Rightarrow> bool" where
  "chosen J E sch exec T k c \<longleftrightarrow> snd c = [] \<and>
     listed_once J E sch exec T (if current sch (fst c) = NULL then Suc k else k) (fst c)"

text \<open>
  What waking an idle executor promises: it returns and leaves the threads, the schedulers and
  the queues alone; and what it relies on depends on nothing the scheduler changes.
\<close>

locale waker =
  fixes restart :: "'a sched_state_scheme conc \<Rightarrow> (unit \<times> 'a sched_state_scheme conc) option"
    and J :: "'a sched_state_scheme \<Rightarrow> bool"
  assumes restart_law: "J s \<Longrightarrow> \<exists>t. restart (s, []) = Some ((), (t, [])) \<and> threads t = threads s \<and>
      schedulers t = schedulers s \<and> (\<forall>ec exec k xs. ws_holds ec exec t k xs = ws_holds ec exec s k xs) \<and> J t"
    and frame_law: "J s \<Longrightarrow> sched_state.more u = sched_state.more s \<Longrightarrow> dom (schedulers u) = dom (schedulers s) \<Longrightarrow> J u"
begin

subsection \<open>Threads in hand\<close>

lemma lists_mapped: "lists J E sch exec T k s xs ys zs \<Longrightarrow> x \<in> T \<Longrightarrow> x \<noteq> NULL \<and> threads s x \<noteq> None"
  by (auto simp: lists_def sq_holds_def)

lemma lists_scheduler:
  assumes "lists J E sch exec T k s xs ys zs"
  obtains r where "sch \<noteq> NULL" "schedulers s sch = Some r"
  using assms by (auto simp: lists_def sq_holds_def)

lemma lists_less: "lists J E sch exec T k s xs ys zs \<Longrightarrow> j \<le> k \<Longrightarrow> lists J E sch exec T j s xs ys zs"
  unfolding lists_def ws_holds_def using tq.room_law by blast

lemma lists_drop: "lists J E sch exec T k s xs ys (z # zs) \<Longrightarrow> lists J E sch exec T k s xs ys zs"
  by (auto simp: lists_def)

lemma sq_holds_any: "sq_holds sch n T s k ys = sq_holds sch n T s 0 ys"
  by (simp add: sq_holds_def)

lemma to_listsI:
  assumes "current sch u = current sch s \<and> J u" "lists J E sch exec T k s xs ys zs"
    and "ws_holds (sched_env.executor_count E) exec u j xs'" "\<exists>n. sq_holds sch n T u 0 ys'"
    and "distinct (xs' @ ys' @ zs')" "set (xs' @ ys' @ zs') = set (xs @ ys @ zs)"
    and "\<And>z. threads s z \<noteq> None \<Longrightarrow> status u z = status s z"
  shows "to_lists J E sch exec T j s xs' ys' zs' (u, [])"
proof -
  have old: "set (xs @ ys @ zs) \<subseteq> T" "\<forall>z \<in> set (xs @ ys @ zs). live (status s z)"
    using assms(2) unfolding lists_def by blast+
  have "live (status u z)" if "z \<in> set (xs @ ys @ zs)" for z
  proof -
    have "threads s z \<noteq> None" using lists_mapped [OF assms(2) subsetD [OF old(1) that]] ..
    then show ?thesis using assms(7) old(2) that by simp
  qed
  then have "\<forall>z \<in> set (xs' @ ys' @ zs'). live (status u z)" "set (xs' @ ys' @ zs') \<subseteq> T"
    using old(1) unfolding assms(6) by blast+
  then show ?thesis using assms(1,3,4,5) by (simp only: to_lists_def lists_def fst_conv snd_conv simp_thms)
qed

lemma more_lists:
  assumes "thread_queue_state.more u = thread_queue_state.more s" "lists J E sch exec T k s xs ys zs"
    "ws_holds (sched_env.executor_count E) exec u j xs'" "distinct (xs' @ ys @ zs')" "set (xs' @ zs') = set (xs @ zs)"
  shows "to_lists J E sch exec T j s xs' ys zs' (u, [])"
proof (rule to_listsI [OF _ assms(2,3) _ assms(4)])
  have t: "threads u = threads s" and sc: "schedulers u = schedulers s" using more_eq_all [OF assms(1)] by blast+
  have q: "qnext u = qnext s" unfolding qnext_def by (simp add: t fun_eq_iff)
  have "J s" using assms(2) by (simp add: lists_def)
  then have "J u" by (rule frame_law) (use more_eq_all [OF assms(1)] in auto)
  then show "current sch u = current sch s \<and> J u" unfolding current_def sc by simp
  show "\<exists>n. sq_holds sch n T u 0 ys" using assms(2) unfolding lists_def sq_holds_def q t sc by blast
  show "status u z = status s z" for z unfolding t ..
  show "set (xs' @ ys @ zs') = set (xs @ ys @ zs)" using assms(5) by auto
qed

lemma take_first:
  assumes "lists J E sch exec T k s (x # xs) ys zs"
  shows "returns (lf_thread_queue_dequeue (sched_env.executor_count E) (sched_workshare s) exec (s, []))
    (\<lambda>r c. r = x \<and> to_lists J E sch exec T k s xs ys (x # zs) c)"
proof -
  have "ws_holds (sched_env.executor_count E) exec s k (x # xs)" using assms by (simp add: lists_def)
  from ws_dequeue_quiet [OF this] obtain u where u: "lf_thread_queue_dequeue (sched_env.executor_count E) (sched_workshare s) exec (s, []) = Some (x, (u, []))"
    "ws_holds (sched_env.executor_count E) exec u k xs" "thread_queue_state.more u = thread_queue_state.more s"
    by (auto simp: returns_ex)
  have "distinct (xs @ ys @ x # zs)" using assms by (auto simp: lists_def)
  from more_lists [OF u(3) assms u(2) this] show ?thesis using u(1) by simp
qed

lemma take_none:
  assumes "lists J E sch exec T k s [] ys zs"
  shows "returns (lf_thread_queue_dequeue (sched_env.executor_count E) (sched_workshare s) exec (s, []))
    (\<lambda>r c. r = NULL \<and> to_lists J E sch exec T k s [] ys zs c)"
proof -
  have "ws_holds (sched_env.executor_count E) exec s k []" using assms by (simp add: lists_def)
  from ws_dequeue_empty_quiet [OF this] obtain u where u: "lf_thread_queue_dequeue (sched_env.executor_count E) (sched_workshare s) exec (s, []) = Some (NULL, (u, []))"
    "ws_holds (sched_env.executor_count E) exec u k []" "thread_queue_state.more u = thread_queue_state.more s"
    by (auto simp: returns_ex)
  have "distinct ([] @ ys @ zs)" using assms by (auto simp: lists_def)
  from more_lists [OF u(3) assms u(2) this] show ?thesis using u(1) by simp
qed

lemma give_last:
  assumes "lists J E sch exec T (Suc k) s xs ys (x # zs)"
  shows "returns (lf_thread_queue_enqueue (sched_env.executor_count E) (sched_workshare s) x exec (s, []))
    (\<lambda>_ c. to_lists J E sch exec T k s (xs @ [x]) ys zs c)"
proof -
  have "x \<in> T" using assms by (simp add: lists_def)
  then have "ws_holds (sched_env.executor_count E) exec s (Suc k) xs" "x \<noteq> NULL"
    using assms lists_mapped [OF assms, of x] by (simp_all add: lists_def)
  from ws_enqueue_quiet [OF this] obtain r u where u: "lf_thread_queue_enqueue (sched_env.executor_count E) (sched_workshare s) x exec (s, []) = Some (r, (u, []))"
    "ws_holds (sched_env.executor_count E) exec u k (xs @ [x])" "thread_queue_state.more u = thread_queue_state.more s"
    by (auto simp: returns_ex)
  have "distinct ((xs @ [x]) @ ys @ zs)" using assms by (auto simp: lists_def)
  from more_lists [OF u(3) assms u(2) this] show ?thesis using u(1) by simp
qed

text \<open>The same for the private queue.\<close>

lemma words_kept_lists:
  assumes "words_kept sch s u" "lists J E sch exec T k s xs ys zs" "\<exists>n. sq_holds sch n T u 0 ys'"
    "distinct (xs @ ys' @ zs')" "set (ys' @ zs') = set (ys @ zs)"
  shows "to_lists J E sch exec T k s xs ys' zs' (u, [])"
proof (rule to_listsI [OF _ assms(2) _ assms(3,4)])
  have "ws_holds (sched_env.executor_count E) exec s k xs" using assms(2) by (simp add: lists_def)
  then show "ws_holds (sched_env.executor_count E) exec u k xs" by (simp only: words_kept_same(1) [OF assms(1)])
  show "set (xs @ ys' @ zs') = set (xs @ ys @ zs)" unfolding set_append [of xs] assms(5) ..
  have "J s" using assms(2) by (simp add: lists_def)
  then have "J u" by (rule frame_law) (use words_kept_rest [OF assms(1)] in auto)
  then show "current sch u = current sch s \<and> J u" using words_kept_same(2) [OF assms(1)] by simp
  show "status u z = status s z" if "threads s z \<noteq> None" for z by (rule words_kept_same(3) [OF assms(1) that])
qed

lemma enqueue_own:
  assumes "lists J E sch exec T k s xs ys (x # zs)"
  shows "returns (sched_queue_enqueue sch x (s, [])) (\<lambda>_ c. to_lists J E sch exec T k s xs (ys @ [x]) zs c)"
proof -
  obtain n where "sq_holds sch n T s 0 ys" "x \<in> T" "x \<notin> set ys" using assms by (auto simp: lists_def)
  then obtain r u where u: "sched_queue_enqueue sch x (s, []) = Some (r, (u, []))" "sq_holds sch n T u 0 (ys @ [x])"
    using sq_enqueue_quiet [of sch n T s 0 ys x "[]"] by (auto simp: returns_ex)
  have "to_lists J E sch exec T k s xs (ys @ [x]) zs (u, [])"
    by (rule words_kept_lists [OF words_kept_enqueue [OF u(1)] assms]) (use u(2) assms in \<open>auto simp: lists_def\<close>)
  then show ?thesis using u(1) by simp
qed

lemma dequeue_own:
  assumes "lists J E sch exec T k s xs (y # ys) zs"
  shows "returns (sched_queue_dequeue sch (s, [])) (\<lambda>r c. r = y \<and> to_lists J E sch exec T k s xs ys (y # zs) c)"
proof -
  obtain n where "sq_holds sch n T s 0 (y # ys)" using assms by (auto simp: lists_def)
  then obtain u where u: "sched_queue_dequeue sch (s, []) = Some (y, (u, []))" "sq_holds sch n T u 0 ys"
    using sq_dequeue_quiet [of sch n T s 0 y ys "[]"] by (auto simp: returns_ex)
  have "to_lists J E sch exec T k s xs ys (y # zs) (u, [])"
    by (rule words_kept_lists [OF words_kept_dequeue [OF u(1)] assms]) (use u(2) assms in \<open>auto simp: lists_def\<close>)
  then show ?thesis using u(1) by simp
qed

text \<open>Dequeueing from the empty private queue gives NULL, although it spoils the count.\<close>

lemma dequeue_none:
  assumes "lists J E sch exec T k s xs [] zs"
  shows "returns (sched_queue_dequeue sch (s, [])) (\<lambda>r c. r = NULL \<and> to_lists J E sch exec T k s xs [] zs c)"
proof -
  obtain n r where r: "sq_holds sch n T s 0 []" "sch \<noteq> NULL" "schedulers s sch = Some r" "sch_queue_head r = NULL"
    "sch_queue_tail r = NULL" "sch_num_threads r = n"
    using assms by (auto simp: lists_def sq_holds_def)
  let ?u = "s\<lparr>schedulers := (schedulers s)(sch \<mapsto> r\<lparr>sch_num_threads := n - 1\<rparr>)\<rparr>"
  have u: "sched_queue_dequeue sch (s, []) = Some (NULL, (?u, []))"
    using r by (cases r) (simp add: sched_queue_dequeue_def prd_def pwr_def fun_upd_def cong: if_cong)
  have "sq_holds sch (n - 1) T ?u 0 []" using r by (simp add: sq_holds_def)
  then have "to_lists J E sch exec T k s xs [] zs (?u, [])"
    by (intro words_kept_lists [OF words_kept_dequeue [OF u] assms]) (use assms in \<open>auto simp: lists_def\<close>)
  then show ?thesis using u by simp
qed

subsection \<open>Taking a thread up\<close>

lemma waiting_runs:
  assumes "threads s x = Some t" "x \<noteq> NULL" "stat_of (t_sched_stat_ref t) = T_STAT_GC_WAIT"
    and "GC_STATE_INACTIVE E = gc_state s AND GC_STATE_PHASE E"
  shows "sched_set_running_status E x (s, []) = Some (EXECUTE, (store (t_stat_loc x) (T_STAT_RUNNING OR T_REF) s, []))"
proof -
  have "T_STAT_GC_WAIT \<notin> {T_STAT_RUNNABLE, T_STAT_RUNNING, T_STAT_FINALIZER_LIVE}" by (simp add: t_stat_defs)
  then show ?thesis using assms
    by (simp add: sched_set_running_status_def retry.simps sched_try_acknowledge_def rd_def
        atomic_compare_and_set_uint_def cas_def Let_def)
qed

lemma live_taken_up:
  assumes "threads s x = Some t" "x \<noteq> NULL" "live (t_sched_stat_ref t)"
  obtains act w where "sched_set_running_status E x (s, []) = Some (act, (store (t_stat_loc x) w s, []))"
    "act \<noteq> DISCARD \<Longrightarrow> live w"
proof -
  let ?w = "stat_of (t_sched_stat_ref t)"
  note q = acknowledge_quiet [OF assms(1,2) refl, of E]
  have keep: "store (t_stat_loc x) (t_sched_stat_ref t) s = s"
    using assms(1) by (simp add: fun_upd_idem)
  consider "?w \<in> {T_STAT_RUNNABLE, T_STAT_RUNNING, T_STAT_FINALIZER_LIVE}" | "?w = T_STAT_SUSPEND" | "?w = T_STAT_TERM"
    | "?w = T_STAT_GC_WAIT" using assms(3) by (auto simp: live_def listed_stat_def)
  then show ?thesis
  proof cases
    case 1 then show ?thesis using that [OF q(1)] by simp
  next
    case 2 then show ?thesis using that [OF q(2)] by simp
  next
    case 3 then show ?thesis using that [OF q(3)] by simp
  next
    case 4
    show ?thesis
    proof (cases "GC_STATE_INACTIVE E = gc_state s AND GC_STATE_PHASE E")
      case True
      then show ?thesis using that [OF waiting_runs [OF assms(1,2) 4]] by simp
    next
      case False
      from q(4) [OF 4 this] have "sched_set_running_status E x (s, []) =
          Some (SKIP, (store (t_stat_loc x) (t_sched_stat_ref t) s, []))" by (simp only: keep)
      then show ?thesis using that assms(3) by blast
    qed
  qed
qed

lemma lists_store:
  assumes "lists J E sch exec T k s xs ys (x # zs)"
  shows "to_lists J E sch exec T k s xs ys zs (store (t_stat_loc x) w s, [])"
    "live w \<Longrightarrow> to_lists J E sch exec T k s xs ys (x # zs) (store (t_stat_loc x) w s, [])"
proof -
  let ?u = "store (t_stat_loc x) w s"
  have x: "x \<in> T" "x \<notin> set (xs @ ys @ zs)" using assms by (auto simp: lists_def)
  obtain t where t: "threads s x = Some t" using lists_mapped [OF assms x(1)] by blast
  have st: "status ?u z = (if z = x then w else status s z)" for z using t by simp
  have same: "current sch ?u = current sch s" by (simp add: current_def)
  have "J s" using assms by (simp add: lists_def)
  then have J: "J ?u" by (rule frame_law) simp_all
  have "ws_holds (sched_env.executor_count E) exec ?u k xs = ws_holds (sched_env.executor_count E) exec s k xs"
    "sq_holds sch n T ?u 0 ys = sq_holds sch n T s 0 ys" for n
    by (simp_all only: ws_holds_frame sq_holds_frame)
  note eq = this same st
  show "to_lists J E sch exec T k s xs ys zs (?u, [])"
    using assms x(2) J unfolding to_lists_def lists_def fst_conv snd_conv eq by auto
  show "to_lists J E sch exec T k s xs ys (x # zs) (?u, [])" if "live w"
    using assms that J unfolding to_lists_def lists_def fst_conv snd_conv eq by auto
qed

lemma take_up:
  assumes "lists J E sch exec T k s xs ys (x # zs)"
  shows "returns (sched_set_running_status E x (s, [])) (\<lambda>act c.
    to_lists J E sch exec T k s xs ys (if act = DISCARD then zs else x # zs) c)"
proof -
  have x: "x \<in> T" "live (status s x)" using assms by (simp_all add: lists_def)
  obtain t where t: "threads s x = Some t" "x \<noteq> NULL" using lists_mapped [OF assms x(1)] by blast
  then have "live (t_sched_stat_ref t)" using x(2) by simp
  from live_taken_up [OF t this, of E] obtain act w where
    "sched_set_running_status E x (s, []) = Some (act, (store (t_stat_loc x) w s, []))" "act \<noteq> DISCARD \<Longrightarrow> live w"
    by blast
  then show ?thesis using lists_store [OF assms, of w] by (simp del: field_loc_simps)
qed

text \<open>The executor makes the thread in its hands the current one.\<close>

lemma make_current:
  assumes "lists J E sch exec T k s xs ys zs"
  shows "returns (pwr (sch_curr_loc sch) y (s, [])) (\<lambda>_ c. snd c = [] \<and> current sch (fst c) = y \<and>
    lists J E sch exec T k (fst c) xs ys zs)"
proof -
  obtain r where r: "sch \<noteq> NULL" "schedulers s sch = Some r" by (rule lists_scheduler [OF assms])
  let ?u = "s\<lparr>schedulers := (schedulers s)(sch \<mapsto> r\<lparr>sch_curr_thread := y\<rparr>)\<rparr>"
  have u: "pwr (sch_curr_loc sch) y (s, []) = Some ((), (?u, []))"
    using r by (simp add: pwr_def)
  have "(schedulers s)(sch \<mapsto> r) = schedulers s" using r(2) by (simp add: fun_upd_idem)
  then have "sq_holds sch n T ?u 0 ys = sq_holds sch n T s 0 ys" for n
    using sq_holds_frame(2) [where s = s and r = r and y = y and sch = sch and n = n and T = T and k = 0 and xs = ys] by simp
  moreover have "J s" using assms by (simp add: lists_def)
  then have "J ?u" by (rule frame_law) (use r(2) in auto)
  ultimately have "lists J E sch exec T k ?u xs ys zs" using assms by (simp add: lists_def del: sq_holds_frame)
  then show ?thesis using u by (simp add: current_def)
qed

subsection \<open>Balancing\<close>

lemma some_listsI: "to_lists J E sch exec T k s xs ys zs c \<Longrightarrow> some_lists J E sch exec T k s zs c"
  by (auto simp: some_lists_def)

lemma some_lists_keep:
  "lists J E sch exec T (Suc k) s xs ys zs \<Longrightarrow> some_lists J E sch exec T k s zs (s, [])"
  unfolding some_lists_def to_lists_def using lists_less [of E sch exec T "Suc k" s xs ys zs k] by auto

lemma to_lists_trans:
  "to_lists J E sch exec T k s xs ys zs c \<Longrightarrow> to_lists J E sch exec T j (fst c) xs' ys' zs' d \<Longrightarrow> to_lists J E sch exec T j s xs' ys' zs' d"
  by (simp add: to_lists_def)

lemma some_lists_trans:
  "to_lists J E sch exec T k s xs ys zs c \<Longrightarrow> some_lists J E sch exec T j (fst c) zs' d \<Longrightarrow> some_lists J E sch exec T j s zs' d"
  unfolding some_lists_def using to_lists_trans by blast

lemma to_lists_lists: "to_lists J E sch exec T k s xs ys zs c \<Longrightarrow> lists J E sch exec T k (fst c) xs ys zs \<and> c = (fst c, [])"
  by (simp add: to_lists_def prod_eq_iff)

text \<open>What the attempts to take or put a live thread do with its status word.\<close>

lemma moved_stat:
  assumes "live w"
  shows "(T_STAT_RUNNABLE = stat_of w \<or> T_STAT_RUNNING = stat_of w \<or> T_STAT_GC_WAIT = stat_of w \<or>
      T_STAT_FINALIZER_LIVE = stat_of w) \<or>
    \<not> (T_STAT_RUNNABLE = stat_of w \<or> T_STAT_RUNNING = stat_of w \<or> T_STAT_GC_WAIT = stat_of w \<or>
      T_STAT_FINALIZER_LIVE = stat_of w) \<and> T_STAT_DESTROY \<noteq> stat_of w"
  using assms by (auto simp: live_def listed_stat_def t_stat_defs)

lemma status_cas:
  assumes "lists J E sch exec T k s xs ys zs" "x \<in> T"
  shows "rd (t_stat_loc x) (s, []) = Some (status s x, (s, []))"
    "atomic_compare_and_set_uint (status s x) v (t_stat_loc x) (s, []) = Some (True, (store (t_stat_loc x) v s, []))"
  using lists_mapped [OF assms] by (auto simp: rd_def atomic_compare_and_set_uint_def cas_def Let_def)

lemma try_take_lists:
  assumes "lists J E sch exec T k s xs ys (x # zs)"
  shows "returns (scheduler_try_take_thread E sch x exec (s, [])) (\<lambda>r c. r = 1 \<and> some_lists J E sch exec T k s zs c)"
proof -
  have x: "x \<in> T" "live (status s x)" using assms by (simp_all add: lists_def)
  note w = status_cas [OF assms x(1)]
  show ?thesis using moved_stat [OF x(2)]
  proof
    assume run: "T_STAT_RUNNABLE = stat_of (status s x) \<or> T_STAT_RUNNING = stat_of (status s x) \<or>
      T_STAT_GC_WAIT = stat_of (status s x) \<or> T_STAT_FINALIZER_LIVE = stat_of (status s x)"
    then show ?thesis using w(1) enqueue_own [OF assms]
      by (auto simp: scheduler_try_take_thread_def c_bool_def c_int_def returns_ex intro: some_listsI)
  next
    assume "\<not> (T_STAT_RUNNABLE = stat_of (status s x) \<or> T_STAT_RUNNING = stat_of (status s x) \<or>
      T_STAT_GC_WAIT = stat_of (status s x) \<or> T_STAT_FINALIZER_LIVE = stat_of (status s x)) \<and> T_STAT_DESTROY \<noteq> stat_of (status s x)"
    then have "scheduler_try_take_thread E sch x exec (s, []) = Some (1, (store (t_stat_loc x) (stat_of (status s x)) s, []))"
      using w by (simp add: scheduler_try_take_thread_def c_bool_def c_int_def del: field_loc_simps)
    then show ?thesis using some_listsI [OF lists_store(1) [OF assms]] by simp
  qed
qed

lemma try_put_lists:
  assumes "lists J E sch exec T (Suc k) s xs ys (x # zs)"
  shows "returns (scheduler_try_put_thread E x exec (s, [])) (\<lambda>r c. r = 1 \<and> some_lists J E sch exec T k s zs c)"
proof -
  have x: "x \<in> T" "live (status s x)" using assms by (simp_all add: lists_def)
  note w = status_cas [OF assms x(1)]
  show ?thesis using moved_stat [OF x(2)]
  proof
    assume run: "T_STAT_RUNNABLE = stat_of (status s x) \<or> T_STAT_RUNNING = stat_of (status s x) \<or>
      T_STAT_GC_WAIT = stat_of (status s x) \<or> T_STAT_FINALIZER_LIVE = stat_of (status s x)"
    then show ?thesis using w(1) give_last [OF assms]
      by (auto simp: scheduler_try_put_thread_def c_bool_def c_int_def returns_ex intro: some_listsI)
  next
    assume "\<not> (T_STAT_RUNNABLE = stat_of (status s x) \<or> T_STAT_RUNNING = stat_of (status s x) \<or>
      T_STAT_GC_WAIT = stat_of (status s x) \<or> T_STAT_FINALIZER_LIVE = stat_of (status s x)) \<and> T_STAT_DESTROY \<noteq> stat_of (status s x)"
    then have "scheduler_try_put_thread E x exec (s, []) = Some (1, (store (t_stat_loc x) (stat_of (status s x)) s, []))"
      using w by (simp add: scheduler_try_put_thread_def c_bool_def c_int_def del: field_loc_simps)
    then show ?thesis
      using some_listsI [OF lists_store(1) [OF lists_less [OF assms, of k]], of "stat_of (status s x)"] by simp
  qed
qed

lemma take_thread_lists:
  assumes "lists J E sch exec T k s xs ys zs"
  shows "returns (scheduler_take_thread E sch exec (s, [])) (\<lambda>_. some_lists J E sch exec T k s zs)"
proof (cases xs)
  case Nil
  then have "returns (lf_thread_queue_dequeue (sched_env.executor_count E) (sched_workshare s) exec (s, []))
      (\<lambda>r c. r = NULL \<and> to_lists J E sch exec T k s [] ys zs c)"
    using assms by (intro take_none) simp
  then show ?thesis by (subst scheduler_take_thread.simps) (auto simp: returns_ex intro: some_listsI)
next
  case (Cons x xs')
  then obtain c where c: "lf_thread_queue_dequeue (sched_env.executor_count E) (sched_workshare s) exec (s, []) = Some (x, c)"
    "to_lists J E sch exec T k s xs' ys (x # zs) c"
    using take_first [of E sch exec T k s x xs' ys zs] assms by (auto simp: returns_ex)
  note l = to_lists_lists [OF c(2)]
  obtain d where d: "scheduler_try_take_thread E sch x exec c = Some (1, d)" "some_lists J E sch exec T k (fst c) zs d"
    using try_take_lists [OF conjunct1 [OF l]] conjunct2 [OF l] by (auto simp: returns_ex)
  have "x \<noteq> NULL" using lists_mapped [OF assms, of x] assms Cons by (simp add: lists_def)
  then have "scheduler_take_thread E sch exec (s, []) = Some ((), d)"
    by (subst scheduler_take_thread.simps) (simp add: c(1) d(1) retry_nonzero_def retry.simps)
  then show ?thesis using some_lists_trans [OF c(2) d(2)] by simp
qed

lemma put_thread_lists:
  assumes "lists J E sch exec T (Suc k) s xs ys zs"
  shows "returns (scheduler_put_thread E sch exec (s, [])) (\<lambda>_. some_lists J E sch exec T k s zs)"
proof (cases ys)
  case Nil
  then have "returns (sched_queue_dequeue sch (s, [])) (\<lambda>r c. r = NULL \<and> to_lists J E sch exec T k s xs [] zs c)"
    using lists_less [OF assms, of k] by (intro dequeue_none) simp
  then show ?thesis by (subst scheduler_put_thread.simps) (auto simp: returns_ex intro: some_listsI)
next
  case (Cons y ys')
  then obtain c where c: "sched_queue_dequeue sch (s, []) = Some (y, c)" "to_lists J E sch exec T (Suc k) s xs ys' (y # zs) c"
    using dequeue_own [of E sch exec T "Suc k" s xs y ys' zs] assms by (auto simp: returns_ex)
  note l = to_lists_lists [OF c(2)]
  obtain d where d: "scheduler_try_put_thread E y exec c = Some (1, d)" "some_lists J E sch exec T k (fst c) zs d"
    using try_put_lists [OF conjunct1 [OF l]] conjunct2 [OF l] by (auto simp: returns_ex)
  have "y \<noteq> NULL" using lists_mapped [OF assms, of y] assms Cons by (simp add: lists_def)
  then have "scheduler_put_thread E sch exec (s, []) = Some ((), d)"
    by (subst scheduler_put_thread.simps) (simp add: c(1) d(1) retry_nonzero_def retry.simps)
  then show ?thesis using some_lists_trans [OF c(2) d(2)] by simp
qed

lemma balance_lists:
  assumes "lists J E sch exec T (Suc k) s xs ys zs" "sched_env.executor_count E \<noteq> 0"
  shows "returns (scheduler_balance_threads E sch exec (s, [])) (\<lambda>_. some_lists J E sch exec T k s zs)"
proof -
  obtain r where "sch \<noteq> NULL" "schedulers s sch = Some r" by (rule lists_scheduler [OF assms(1)])
  then show ?thesis
    using take_thread_lists [OF lists_less [OF assms(1), of k]] put_thread_lists [OF assms(1)] assms(2)
      some_lists_keep [OF assms(1)]
    by (simp add: scheduler_balance_threads_def rd_def prd_def sched_lower_bound_def sched_upper_bound_def Let_def)
qed

subsection \<open>Choosing a thread\<close>

lemma chosen_listed: "chosen J E sch exec T k c \<Longrightarrow> snd c = [] \<and> listed_once J E sch exec T k (fst c)"
  using lists_less [of E sch exec T "Suc k" "fst c" _ _ _ k] by (fastforce simp: chosen_def listed_once_def split: if_splits)

lemma chosen_none:
  "to_lists J E sch exec T (Suc k) s xs ys [] c \<Longrightarrow> current sch s = NULL \<Longrightarrow> chosen J E sch exec T k c"
  by (auto simp: chosen_def listed_once_def to_lists_def)

lemma chosen_one:
  "some_lists J E sch exec T k s [current sch s] c \<Longrightarrow> current sch s \<noteq> NULL \<Longrightarrow> chosen J E sch exec T k c"
  by (auto simp: chosen_def listed_once_def to_lists_def some_lists_def)

lemma current_read:
  "lists J E sch exec T k s xs ys zs \<Longrightarrow> prd (sch_curr_loc sch) (s, []) = Some (current sch s, (s, []))"
  by (erule lists_scheduler) (simp add: prd_def current_def)

lemma count_lists:
  assumes "lists J E sch exec T k s xs ys zs"
  shows "\<exists>n. prd (sch_num_loc sch) (s, []) = Some (n, (s, []))"
    "returns (pwr (sch_num_loc sch) m (s, [])) (\<lambda>_. to_lists J E sch exec T k s xs ys zs)"
proof -
  obtain r where r: "sch \<noteq> NULL" "schedulers s sch = Some r" by (rule lists_scheduler [OF assms])
  then show "\<exists>n. prd (sch_num_loc sch) (s, []) = Some (n, (s, []))" by (simp add: prd_def)
  let ?u = "s\<lparr>schedulers := (schedulers s)(sch \<mapsto> r\<lparr>sch_num_threads := m\<rparr>)\<rparr>"
  have u: "pwr (sch_num_loc sch) m (s, []) = Some ((), (?u, []))" using r by (simp add: pwr_def)
  have qn: "qnext ?u = qnext s" by (simp add: qnext_def fun_eq_iff)
  have "sq_holds sch (m - of_nat (length ys)) T ?u 0 ys"
    using assms r qn by (auto simp: lists_def sq_holds_def)
  then have "to_lists J E sch exec T k s xs ys zs (?u, [])"
    using words_kept_pwr(2) [OF u] assms by (intro words_kept_lists [OF _ assms]) (auto simp: lists_def)
  then show "returns (pwr (sch_num_loc sch) m (s, [])) (\<lambda>_. to_lists J E sch exec T k s xs ys zs)" using u by simp
qed

text \<open>Running the thread \<open>y\<close> in hand: the loops make it the current one, balance and end.\<close>

lemma run_lists:
  assumes "lists J E sch exec T (Suc k) s xs ys [y]" "sched_env.executor_count E \<noteq> 0"
  shows "returns (do { (_, c) \<leftarrow> pwr (sch_curr_loc sch) y (s, []); scheduler_balance_threads E sch exec c })
    (\<lambda>_ c. current sch (fst c) = y \<and> chosen J E sch exec T k c)"
    "returns (do { (_, c) \<leftarrow> pwr (sch_curr_loc sch) y (s, []); (n, c) \<leftarrow> prd (sch_num_loc sch) c;
        (_, c) \<leftarrow> pwr (sch_num_loc sch) (n + 1) c; scheduler_balance_threads E sch exec c })
    (\<lambda>_ c. current sch (fst c) = y \<and> chosen J E sch exec T k c)"
proof -
  have "y \<in> T" using assms(1) by (simp add: lists_def)
  then have y: "y \<noteq> NULL" using lists_mapped [OF assms(1)] by blast
  obtain u where u: "pwr (sch_curr_loc sch) y (s, []) = Some ((), (u, []))" "current sch u = y"
    "lists J E sch exec T (Suc k) u xs ys [y]"
    using make_current [OF assms(1), of y] by (auto simp: returns_ex)
  have balanced: "returns (scheduler_balance_threads E sch exec (v, [])) (\<lambda>_ c. current sch (fst c) = y \<and> chosen J E sch exec T k c)"
    if "lists J E sch exec T (Suc k) v xs ys [y]" "current sch v = y" for v
  proof (rule returns_mono [OF balance_lists [OF that(1) assms(2)]])
    fix c assume c: "some_lists J E sch exec T k v [y] c"
    then have "current sch (fst c) = y" using that(2) by (auto simp: some_lists_def to_lists_def)
    then show "current sch (fst c) = y \<and> chosen J E sch exec T k c"
      using chosen_one [of E sch exec T k v c] c that(2) y by simp
  qed
  show "returns (do { (_, c) \<leftarrow> pwr (sch_curr_loc sch) y (s, []); scheduler_balance_threads E sch exec c })
    (\<lambda>_ c. current sch (fst c) = y \<and> chosen J E sch exec T k c)"
    using balanced [OF u(3,2)] u(1) by simp
  obtain n where n: "prd (sch_num_loc sch) (u, []) = Some (n, (u, []))" using count_lists(1) [OF u(3)] by blast
  obtain v where v: "pwr (sch_num_loc sch) (n + 1) (u, []) = Some ((), (v, []))" "lists J E sch exec T (Suc k) v xs ys [y]"
    "current sch v = y"
    using count_lists(2) [OF u(3), of "n + 1"] u(2) by (auto simp: returns_ex to_lists_def)
  show "returns (do { (_, c) \<leftarrow> pwr (sch_curr_loc sch) y (s, []); (n, c) \<leftarrow> prd (sch_num_loc sch) c;
      (_, c) \<leftarrow> pwr (sch_num_loc sch) (n + 1) c; scheduler_balance_threads E sch exec c })
    (\<lambda>_ c. current sch (fst c) = y \<and> chosen J E sch exec T k c)"
    using balanced [OF v(2,3)] u(1) n v(1) by simp
qed

lemma chosen_lists:
  assumes "chosen J E sch exec T k c"
  obtains xs ys where "c = (fst c, [])"
    "lists J E sch exec T (if current sch (fst c) = NULL then Suc k else k) (fst c) xs ys
       (if current sch (fst c) = NULL then [] else [current sch (fst c)])"
  using assms by (auto simp: chosen_def listed_once_def prod_eq_iff)

text \<open>With a current thread both loops end at once.\<close>

lemma loops_end:
  assumes "chosen J E sch exec T k c" "current sch (fst c) \<noteq> NULL"
  shows "scheduler_replace_loop E sch exec c = Some ((), c)" "sched_try_workshare E sch exec c = Some ((), c)"
proof -
  obtain xs ys where l: "c = (fst c, [])" "lists J E sch exec T k (fst c) xs ys [current sch (fst c)]"
    using chosen_lists [OF assms(1)] assms(2) by auto
  note r = current_read [OF l(2), folded l(1)]
  obtain n where "sq_holds sch n T (fst c) 0 ys" using l(2) by (auto simp: lists_def)
  from sq_empty_quiet [OF this, of "[]", folded l(1)]
  show "scheduler_replace_loop E sch exec c = Some ((), c)"
    by (subst scheduler_replace_loop.simps) (simp add: r assms(2))
  show "sched_try_workshare E sch exec c = Some ((), c)"
    by (subst sched_try_workshare.simps) (simp add: r assms(2))
qed

lemma replace_loop_lists:
  assumes "lists J E sch exec T (Suc k) s xs ys []" "current sch s = NULL" "sched_env.executor_count E \<noteq> 0"
  shows "returns (scheduler_replace_loop E sch exec (s, [])) (\<lambda>_. chosen J E sch exec T k)"
  using assms(1,2)
proof (induction ys arbitrary: s)
  case Nil
  obtain n where "sq_holds sch n T s 0 []" using Nil by (auto simp: lists_def)
  from sq_empty_quiet [OF this, of "[]"] Nil show ?case
    by (subst scheduler_replace_loop.simps)
      (auto simp: current_read [OF Nil(1)] to_lists_def intro!: chosen_none)
next
  case (Cons y ys)
  obtain n where "sq_holds sch n T s 0 (y # ys)" using Cons.prems by (auto simp: lists_def)
  note e = sq_empty_quiet [OF this, of "[]"]
  obtain u where u: "sched_queue_dequeue sch (s, []) = Some (y, (u, []))" "lists J E sch exec T (Suc k) u xs ys [y]"
    "current sch u = NULL"
    using dequeue_own [OF Cons.prems(1)] Cons.prems(2) by (auto simp: returns_ex to_lists_def)
  obtain act v where v: "sched_set_running_status E y (u, []) = Some (act, (v, []))" "current sch v = NULL"
    "lists J E sch exec T (Suc k) v xs ys (if act = DISCARD then [] else [y])"
    using take_up [OF u(2)] u(3) by (auto simp: returns_ex to_lists_def)
  have first: "scheduler_replace_loop E sch exec (s, []) = do {
      (_, c) \<leftarrow> (if act = EXECUTE then do {
          (_, c) \<leftarrow> pwr (sch_curr_loc sch) y (v, []);
          scheduler_balance_threads E sch exec c }
        else Some ((), (v, [])));
      scheduler_replace_loop E sch exec c }"
    using e current_read [OF Cons.prems(1)] u(1) v(1) Cons.prems(2) by (subst scheduler_replace_loop.simps) simp
  show ?case
  proof (cases "act = EXECUTE")
    case True
    then have l: "lists J E sch exec T (Suc k) v xs ys [y]" using v(3) by simp
    have "y \<in> T" using l by (simp add: lists_def)
    then have "y \<noteq> NULL" using lists_mapped [OF l] by blast
    from run_lists(1) [OF l assms(3)] obtain c where
      c: "do { (_, c) \<leftarrow> pwr (sch_curr_loc sch) y (v, []); scheduler_balance_threads E sch exec c } = Some ((), c)"
      "current sch (fst c) = y" "chosen J E sch exec T k c" by (auto simp: returns_ex)
    then show ?thesis using True first loops_end(1) [OF c(3)] \<open>y \<noteq> NULL\<close> by simp
  next
    case False
    have "lists J E sch exec T (Suc k) v xs ys []" using v(3) lists_drop by (auto split: if_splits)
    from Cons.IH [OF this v(2)] show ?thesis using False first by simp
  qed
qed

lemma workshare_loop_lists:
  assumes "lists J E sch exec T (Suc k) s xs ys []" "current sch s = NULL" "sched_env.executor_count E \<noteq> 0"
  shows "returns (sched_try_workshare E sch exec (s, [])) (\<lambda>_. chosen J E sch exec T k)"
  using assms(1,2)
proof (induction xs arbitrary: s)
  case Nil
  obtain u where u: "lf_thread_queue_dequeue (sched_env.executor_count E) (sched_workshare s) exec (s, []) = Some (NULL, (u, []))"
    "to_lists J E sch exec T (Suc k) s [] ys [] (u, [])"
    using take_none [OF Nil(1)] by (auto simp: returns_ex to_lists_def)
  have "sched_try_workshare E sch exec (s, []) = Some ((), (u, []))"
    by (subst sched_try_workshare.simps) (simp add: current_read [OF Nil(1)] Nil(2) u(1))
  then show ?case using chosen_none [OF u(2) Nil(2)] by simp
next
  case (Cons x xs)
  obtain u where u: "lf_thread_queue_dequeue (sched_env.executor_count E) (sched_workshare s) exec (s, []) = Some (x, (u, []))"
    "lists J E sch exec T (Suc k) u xs ys [x]" "current sch u = NULL"
    using take_first [OF Cons.prems(1)] Cons.prems(2) by (auto simp: returns_ex to_lists_def)
  have "x \<in> T" using u(2) by (simp add: lists_def)
  then have x: "x \<noteq> NULL" using lists_mapped [OF u(2)] by blast
  obtain act v where v: "sched_set_running_status E x (u, []) = Some (act, (v, []))" "current sch v = NULL"
    "lists J E sch exec T (Suc k) v xs ys (if act = DISCARD then [] else [x])"
    using take_up [OF u(2)] u(3) by (auto simp: returns_ex to_lists_def)
  have first: "sched_try_workshare E sch exec (s, []) = do {
      (_, c) \<leftarrow> (if act \<noteq> DISCARD then do {
          (_, c) \<leftarrow> pwr (sch_curr_loc sch) x (v, []);
          (n, c) \<leftarrow> prd (sch_num_loc sch) c;
          (_, c) \<leftarrow> pwr (sch_num_loc sch) (n + 1) c;
          scheduler_balance_threads E sch exec c }
        else Some ((), (v, [])));
      sched_try_workshare E sch exec c }"
    using u(1) v(1) x Cons.prems(2) by (subst sched_try_workshare.simps) (simp add: current_read [OF Cons.prems(1)])
  show ?case
  proof (cases "act = DISCARD")
    case True
    then have "lists J E sch exec T (Suc k) v xs ys []" using v(3) by simp
    from Cons.IH [OF this v(2)] show ?thesis using True first by simp
  next
    case False
    then have "lists J E sch exec T (Suc k) v xs ys [x]" using v(3) by simp
    from run_lists(2) [OF this assms(3)] obtain c where
      c: "do { (_, c) \<leftarrow> pwr (sch_curr_loc sch) x (v, []); (n, c) \<leftarrow> prd (sch_num_loc sch) c;
          (_, c) \<leftarrow> pwr (sch_num_loc sch) (n + 1) c; scheduler_balance_threads E sch exec c } = Some ((), c)"
      "current sch (fst c) = x" "chosen J E sch exec T k c" by (auto simp: returns_ex)
    then show ?thesis using False first loops_end(2) [OF c(3)] x by simp
  qed
qed

lemma workshare_chosen:
  assumes "chosen J E sch exec T k c" "sched_env.executor_count E \<noteq> 0"
  shows "returns (sched_try_workshare E sch exec c) (\<lambda>_. chosen J E sch exec T k)"
proof (cases "current sch (fst c) = NULL")
  case True
  obtain xs ys where l: "c = (fst c, [])" "lists J E sch exec T (Suc k) (fst c) xs ys []"
    using chosen_lists [OF assms(1)] True by auto
  show ?thesis using workshare_loop_lists [OF l(2) True assms(2)] l(1) by metis
next
  case False
  then show ?thesis using loops_end(2) [OF assms(1)] assms(1) by simp
qed

text \<open>Asking which thread to run changes nothing.\<close>

lemma result_reads:
  assumes "chosen J E sch exec T k c"
  shows "\<exists>y. scheduler_result E sch c = Some (y, c)"
proof -
  obtain xs ys where l: "c = (fst c, [])" "lists J E sch exec T (if current sch (fst c) = NULL then Suc k else k) (fst c) xs ys
      (if current sch (fst c) = NULL then [] else [current sch (fst c)])"
    using chosen_lists [OF assms] by blast
  obtain r where r: "sch \<noteq> NULL" "schedulers (fst c) sch = Some r" by (rule lists_scheduler [OF l(2)])
  have "\<exists>y. scheduler_result E sch (fst c, []) = Some (y, (fst c, []))"
    using r by (simp add: scheduler_result_def current_read [OF l(2)] prd_def rd_def [of gc_state_loc])
  then show ?thesis using l(1) by simp
qed

lemma replace_lists:
  assumes "lists J E sch exec T (Suc k) s xs ys zs" "sched_env.executor_count E \<noteq> 0"
  shows "returns (scheduler_replace E sch exec (s, [])) (\<lambda>_. chosen J E sch exec T k)"
proof -
  have own: "lists J E sch exec T (Suc k) s xs ys []" using assms(1) by (auto simp: lists_def)
  obtain u where u: "pwr (sch_curr_loc sch) NULL (s, []) = Some ((), (u, []))" "current sch u = NULL"
    "lists J E sch exec T (Suc k) u xs ys []"
    using make_current [OF own, of NULL] by (auto simp: returns_ex)
  obtain n where n: "prd (sch_num_loc sch) (u, []) = Some (n, (u, []))" using count_lists(1) [OF u(3)] by blast
  obtain v where v: "pwr (sch_num_loc sch) (n - 1) (u, []) = Some ((), (v, []))" "lists J E sch exec T (Suc k) v xs ys []"
    "current sch v = NULL"
    using count_lists(2) [OF u(3), of "n - 1"] u(2) by (auto simp: returns_ex to_lists_def)
  obtain c where c: "scheduler_replace_loop E sch exec (v, []) = Some ((), c)" "chosen J E sch exec T k c"
    using replace_loop_lists [OF v(2,3) assms(2)] by (auto simp: returns_ex)
  obtain d where d: "sched_try_workshare E sch exec c = Some ((), d)" "chosen J E sch exec T k d"
    using workshare_chosen [OF c(2) assms(2)] by (auto simp: returns_ex)
  obtain y where "scheduler_result E sch d = Some (y, d)" using result_reads [OF d(2)] by blast
  then show ?thesis using u(1) n v(1) c(1) d by (simp add: scheduler_replace_def)
qed

lemma cycle_lists:
  assumes "lists J E sch exec T (Suc k) s xs ys (if current sch s = NULL then [] else [current sch s])" "sched_env.executor_count E \<noteq> 0"
  shows "returns (scheduler_cycle E thread gc sch exec (s, [])) (\<lambda>_. chosen J E sch exec T k)"
proof -
  let ?curr = "current sch s"
  note r = current_read [OF assms(1)]
  define first where "first = (if ?curr \<noteq> NULL then do {
      (state, c) \<leftarrow> rd gc_state_loc (s, []);
      if thread \<noteq> gc then do {
        (act, c) \<leftarrow> sched_set_running_status E ?curr c;
        if act = EXECUTE then scheduler_balance_threads E sch exec c
        else do { (_, c) \<leftarrow> scheduler_replace E sch exec c; Some ((), c) } }
      else do {
        (state, c) \<leftarrow> rd gc_state_loc c;
        if GC_STATE_INACTIVE E \<noteq> state then scheduler_balance_threads E sch exec c
        else do { (_, c) \<leftarrow> scheduler_replace E sch exec c; Some ((), c) } } }
    else Some ((), (s, [])))"
  have "returns first (\<lambda>_. chosen J E sch exec T k)"
  proof (cases "?curr = NULL")
    case True
    then have "chosen J E sch exec T k (s, [])"
      using assms(1) by (intro chosen_none [of _ _ _ _ _ s xs ys]) (auto simp: to_lists_def)
    then show ?thesis using True by (simp add: first_def)
  next
    case False
    then have l: "lists J E sch exec T (Suc k) s xs ys [?curr]" using assms(1) by simp
    have gc: "rd gc_state_loc (s, []) = Some (gc_state s, (s, []))" by (simp add: rd_def)
    have go: "returns (scheduler_balance_threads E sch exec (u, [])) (\<lambda>_. chosen J E sch exec T k)"
      if "lists J E sch exec T (Suc k) u xs ys [?curr]" "current sch u = ?curr" for u
      by (rule returns_mono [OF balance_lists [OF that(1) assms(2)]])
        (use that(2) False in \<open>auto intro!: chosen_one [of _ _ _ _ _ u]\<close>)
    have other: "returns (do { (_, c) \<leftarrow> scheduler_replace E sch exec (u, []); Some ((), c) }) (\<lambda>_. chosen J E sch exec T k)"
      if "lists J E sch exec T (Suc k) u xs ys zs" for u zs
      using replace_lists [OF that assms(2)] by (auto simp: returns_ex)
    obtain act u where u: "sched_set_running_status E ?curr (s, []) = Some (act, (u, []))" "current sch u = ?curr"
      "lists J E sch exec T (Suc k) u xs ys (if act = DISCARD then [] else [?curr])"
      using take_up [OF l] by (auto simp: returns_ex to_lists_def)
    have "act = EXECUTE \<Longrightarrow> lists J E sch exec T (Suc k) u xs ys [?curr]" using u(3) by simp
    then show ?thesis
      unfolding first_def using False gc u(1) go [OF l refl] go [OF _ u(2)] other [OF l] other [OF u(3)] by simp
  qed
  then obtain c where c: "first = Some ((), c)" "chosen J E sch exec T k c" by (auto simp: returns_ex)
  obtain d where d: "sched_try_workshare E sch exec c = Some ((), d)" "chosen J E sch exec T k d"
    using workshare_chosen [OF c(2) assms(2)] by (auto simp: returns_ex)
  obtain y where y: "scheduler_result E sch d = Some (y, d)" using result_reads [OF d(2)] by blast
  have "scheduler_cycle E thread gc sch exec (s, []) =
      first \<bind> (\<lambda>(_, c). sched_try_workshare E sch exec c \<bind> (\<lambda>(_, c). scheduler_result E sch c))"
    by (simp add: scheduler_cycle_def r first_def)
  then show ?thesis using c(1) d y by simp
qed

subsection \<open>Waking a thread and changing its status\<close>

lemma woken_lists:
  assumes "lists J E sch exec T k s xs ys zs" "x \<in> T" "x \<in> set (xs' @ ys @ zs) \<Longrightarrow> live w" "J u"
    and u: "threads u = threads (store (t_stat_loc x) w s)" "schedulers u = schedulers s"
    and "ws_holds (sched_env.executor_count E) exec u j xs'"
    and "xs' = xs \<or> xs' = xs @ [x] \<and> x \<notin> set (xs @ ys @ zs)"
  shows "to_lists J E sch exec T j s xs' ys zs (u, [])"
proof -
  obtain t where t: "threads s x = Some t" using lists_mapped [OF assms(1,2)] by blast
  have st: "status u z = (if z = x then w else status s z)" for z unfolding u(1) using t by simp
  have "sq_holds sch n T u 0 ys = sq_holds sch n T (store (t_stat_loc x) w s) 0 ys" for n
    by (rule sq_holds_cong) (simp_all add: u)
  then have sq: "sq_holds sch n T u 0 ys = sq_holds sch n T s 0 ys" for n by (simp only: sq_holds_frame)
  have "current sch u = current sch s" by (simp add: current_def u(2))
  moreover have "distinct (xs' @ ys @ zs)" "set (xs' @ ys @ zs) \<subseteq> T" "\<forall>z \<in> set (xs' @ ys @ zs). live (status u z)"
    using assms(1,2,3,8) by (auto simp: lists_def st)
  ultimately show ?thesis using assms(1,4,7) by (simp add: to_lists_def lists_def sq)
qed

lemma activate_lists:
  assumes "lists J E sch exec T (Suc k) s xs ys zs" "x \<in> T"
  shows "returns (scheduler_activate_thread E restart x exec (s, [])) (\<lambda>_. some_lists J E sch exec T k s zs)"
proof -
  let ?w = "T_STAT_RUNNABLE OR T_REF" and ?ec = "sched_env.executor_count E"
  have ws: "ws_holds ?ec exec s (Suc k) xs" and Js: "J s" using assms(1) by (simp_all add: lists_def)
  have x: "x \<noteq> NULL" "threads s x \<noteq> None" using lists_mapped [OF assms] by blast+
  define P where "P c \<longleftrightarrow> snd c = [] \<and> threads (fst c) = threads (store (t_stat_loc x) ?w s) \<and>
    schedulers (fst c) = schedulers s \<and> J (fst c)" for c :: "'a sched_state_scheme conc"
  have "returns (restart (u, [])) (\<lambda>_ c. status (fst c) x = ?w \<and> ws_holds ?ec exec (fst c) k (xs @ [x]) \<and> P c)"
    if "status u x = ?w" "ws_holds ?ec exec u k (xs @ [x])" "threads u = threads (store (t_stat_loc x) ?w s)"
      "schedulers u = schedulers s" "thread_num u = thread_num s" "sched_state.more u = sched_state.more s" for u
  proof -
    have "J u" by (rule frame_law [OF Js]) (use that in simp_all)
    from restart_law [OF this] that show ?thesis by (auto simp: P_def)
  qed
  then have act: "returns (scheduler_activate_thread E restart x exec (s, [])) (\<lambda>r c.
      if terminal (status s x) then \<not> r \<and> c = (s, [])
      else r \<and> status (fst c) x = ?w \<and> ws_holds ?ec exec (fst c) k (if status s x AND T_REF = 0 then xs @ [x] else xs) \<and>
        (if status s x AND T_REF = 0 then P c else snd c = [] \<and> schedulers (fst c) = schedulers s \<and>
          sched_state.more (fst c) = sched_state.more s \<and> threads (fst c) = threads (store (t_stat_loc x) ?w s)))"
    by (rule activate_quiet [OF ws x])
  show ?thesis
  proof (rule returns_mono [OF act])
    fix r and c :: "'a sched_state_scheme conc"
    assume c: "if terminal (status s x) then \<not> r \<and> c = (s, [])
      else r \<and> status (fst c) x = ?w \<and> ws_holds ?ec exec (fst c) k (if status s x AND T_REF = 0 then xs @ [x] else xs) \<and>
        (if status s x AND T_REF = 0 then P c else snd c = [] \<and> schedulers (fst c) = schedulers s \<and>
          sched_state.more (fst c) = sched_state.more s \<and> threads (fst c) = threads (store (t_stat_loc x) ?w s))"
    show "some_lists J E sch exec T k s zs c"
    proof (cases "terminal (status s x)")
      case True
      then show ?thesis using c some_lists_keep [OF assms(1)] by simp
    next
      case False
      let ?xs = "if status s x AND T_REF = 0 then xs @ [x] else xs"
      have "J (fst c)" using c False Js by (auto simp: P_def split: if_splits intro: frame_law)
      moreover have "?xs = xs \<or> ?xs = xs @ [x] \<and> x \<notin> set (xs @ ys @ zs)"
        using assms(1) by (auto simp: lists_def live_def)
      moreover have "snd c = []" "schedulers (fst c) = schedulers s" "threads (fst c) = threads (store (t_stat_loc x) ?w s)"
        "ws_holds ?ec exec (fst c) k ?xs"
        using c False unfolding P_def by (simp_all split: if_splits del: field_loc_simps)
      ultimately have "to_lists J E sch exec T k s ?xs ys zs (fst c, [])"
        using woken_lists [OF assms, of ?xs ?w "fst c"] live_words(1) by blast
      then show ?thesis using \<open>snd c = []\<close> some_listsI by (metis prod.collapse)
    qed
  qed
qed

lemma update_lists:
  assumes "lists J E sch exec T k s xs ys zs" "x \<in> T" "stat \<in> listed_stat"
  shows "returns (scheduler_update_thread x stat (s, [])) (\<lambda>_. some_lists J E sch exec T k s zs)"
proof (cases "terminal (status s x)")
  have stat: "stat \<noteq> T_STAT_DESTROY" using assms(3) by (auto simp: listed_stat_def t_stat_defs)
  note w = status_cas [OF assms(1,2)]
  case True
  then have "scheduler_try_update_thread x stat (s, []) = Some (- 1, (s, []))"
    using w(1) stat by (auto simp: scheduler_try_update_thread_def terminal_def)
  then show ?thesis using some_listsI [of E sch exec T k s xs ys zs "(s, [])"] assms(1)
    by (simp add: to_lists_def scheduler_update_thread_def retry_nonzero_def retry.simps)
next
  note w = status_cas [OF assms(1,2)]
  let ?w = "status s x AND T_REF OR stat"
  case False
  then have "T_STAT_DEAD \<noteq> stat_of (status s x) \<and> T_STAT_TERM \<noteq> stat_of (status s x) \<and> T_STAT_DESTROY \<noteq> stat_of (status s x)"
    by (auto simp: terminal_def)
  then have "scheduler_try_update_thread x stat (s, []) = Some (1, (store (t_stat_loc x) ?w s, []))"
    using w by (simp add: scheduler_try_update_thread_def c_int_def Let_def del: field_loc_simps)
  then have run: "scheduler_update_thread x stat (s, []) = Some (True, (store (t_stat_loc x) ?w s, []))"
    by (simp add: scheduler_update_thread_def retry_nonzero_def retry.simps)
  have "live (status s x)" if "x \<in> set (xs @ ys @ zs)" using assms(1) that unfolding lists_def by blast
  then have "x \<in> set (xs @ ys @ zs) \<Longrightarrow> live ?w" by (intro live_update assms(3))
  moreover have "J s" using assms(1) by (simp add: lists_def)
  then have "J (store (t_stat_loc x) ?w s)" by (rule frame_law) simp_all
  moreover have "ws_holds (sched_env.executor_count E) exec s k xs" using assms(1) by (simp add: lists_def)
  then have "ws_holds (sched_env.executor_count E) exec (store (t_stat_loc x) ?w s) k xs"
    by (simp only: ws_holds_frame)
  ultimately have "to_lists J E sch exec T k s xs ys zs (store (t_stat_loc x) ?w s, [])"
    by (intro woken_lists [OF assms(1,2)]) simp_all
  then show ?thesis using run some_listsI by (simp del: field_loc_simps)
qed

end

subsection \<open>The wakers of the program\<close>

text \<open>The executors are in memory and there are \<open>m\<close> of them.\<close>

definition executors_fit :: "'e exec_layout_scheme \<Rightarrow> u32 \<Rightarrow> 'a exec_state_scheme \<Rightarrow> bool" where
  "executors_fit E m s \<longleftrightarrow> executor_num s = m \<and> executors_ok E s (unat m)"

lemma executors_fit_cong:
  fixes s u :: "'a exec_state_scheme"
  assumes "executors_fit E m s" "sched_state.more u = sched_state.more s" "dom (schedulers u) = dom (schedulers s)"
  shows "executors_fit E m u"
proof -
  have m: "executor_heap u = executor_heap s" "executors u = executors s" "executor_num u = executor_num s"
    using assms(2) by (cases u; cases s; simp)+
  have "schedulers u p \<noteq> None \<longleftrightarrow> schedulers s p \<noteq> None" for p using assms(3) by blast
  then show ?thesis using assms(1) by (simp add: executors_fit_def executors_ok_def executor_at_def m Let_def)
qed

lemma executors_fit_woken: "executors_fit E m s \<Longrightarrow> executors_fit E m (woken E i s)"
  by (auto simp: executors_fit_def executors_ok_def executor_at_def woken_def Let_def)

interpretation wk: waker "executor_restart_idle E" "executors_fit E m :: 'a exec_state_scheme \<Rightarrow> bool"
  for E :: "'a exec_state_scheme exec_env" and m
proof
  fix s :: "'a exec_state_scheme"
  assume J: "executors_fit E m s"
  then have "executors_ok E s (unat (executor_num s))" by (simp add: executors_fit_def)
  from restart_quiet [OF this] J
  show "\<exists>t. executor_restart_idle E (s, []) = Some ((), (t, [])) \<and> threads t = threads s \<and> schedulers t = schedulers s \<and>
      (\<forall>ec exec k xs. ws_holds ec exec t k xs = ws_holds ec exec s k xs) \<and> executors_fit E m t"
    by (cases "find (asleep E s) [0..<unat (executor_num s)]") (auto simp: executors_fit_woken)
next
  fix s u :: "'a exec_state_scheme"
  assume "executors_fit E m s" "sched_state.more u = sched_state.more s" "dom (schedulers u) = dom (schedulers s)"
  then show "executors_fit E m u" by (rule executors_fit_cong)
qed

subsection \<open>A run of one executor\<close>

text \<open>The operations: waking, changing the status of a thread, balancing, and a cycle of the scheduler.\<close>

datatype sched_op = Wake ptr | Change ptr u32 | Balance | Cycle

fun sched_run ::
  "'a exec_state_scheme exec_env \<Rightarrow> ptr \<Rightarrow> u32 \<Rightarrow> sched_op \<Rightarrow> 'a exec_state_scheme conc \<Rightarrow> 'a exec_state_scheme conc option" where
  "sched_run E sch exec (Wake x) c = map_option snd (cc_activate E x exec c)"
| "sched_run E sch exec (Change x stat) c = map_option snd (scheduler_update_thread x stat c)"
| "sched_run E sch exec Balance c = map_option snd (scheduler_balance_threads (sched_with E c) sch exec c)"
| "sched_run E sch exec Cycle c =
     map_option snd (scheduler_cycle (sched_with E c) (cycle_thread E) (cycle_gc E) sch exec c)"

fun op_ok :: "ptr set \<Rightarrow> sched_op \<Rightarrow> bool" where
  "op_ok T (Wake x) \<longleftrightarrow> x \<in> T"
| "op_ok T (Change x stat) \<longleftrightarrow> x \<in> T \<and> stat \<in> listed_stat"
| "op_ok T _ \<longleftrightarrow> True"

text \<open>
  What an operation may take of the room of the work queue. A node of it comes back only after a retirement,
  which is not counted on here.
\<close>

fun takes :: "sched_op \<Rightarrow> nat" where
  "takes (Change x stat) = 0"
| "takes _ = 1"

text \<open>
  The states an executor reaches from \<open>s\<close> by operations on the threads \<open>T\<close>, \<open>n\<close> of which may have taken room.
\<close>

inductive reaches ::
  "'a exec_state_scheme exec_env \<Rightarrow> ptr \<Rightarrow> u32 \<Rightarrow> ptr set \<Rightarrow> 'a exec_state_scheme \<Rightarrow> nat \<Rightarrow> 'a exec_state_scheme \<Rightarrow> bool"
  for E sch exec T s where
  start: "reaches E sch exec T s 0 s"
| step: "reaches E sch exec T s n t \<Longrightarrow> op_ok T op \<Longrightarrow> sched_run E sch exec op (t, []) = Some (u, []) \<Longrightarrow>
    reaches E sch exec T s (n + takes op) u"

definition scheduled ::
  "'a exec_state_scheme exec_env \<Rightarrow> u32 \<Rightarrow> ptr \<Rightarrow> u32 \<Rightarrow> ptr set \<Rightarrow> nat \<Rightarrow> 'a exec_state_scheme \<Rightarrow> bool" where
  "scheduled E m sch exec T k s \<longleftrightarrow> listed_once (executors_fit E m) (sched_with E (s, [])) sch exec T k s"

text \<open>The number of executors does not change, so the scheduler's environment stays the same.\<close>

lemma lists_env:
  "executor_num u = executor_num s \<Longrightarrow> lists J (sched_with E (u, [])) sch exec T k = lists J (sched_with E (s, [])) sch exec T k"
  by (simp add: fun_eq_iff lists_def sched_with_def)

lemma lists_num: "lists (executors_fit E m) E' sch exec T k s xs ys zs \<Longrightarrow> executor_num s = m"
  by (simp add: lists_def executors_fit_def)

lemma scheduledI:
  assumes "listed_once (executors_fit E m) (sched_with E (s, [])) sch exec T k u" "executor_num s = m"
  shows "scheduled E m sch exec T k u"
proof -
  obtain xs ys where l: "lists (executors_fit E m) (sched_with E (s, [])) sch exec T k u xs ys
      (if current sch u = NULL then [] else [current sch u])"
    using assms(1) unfolding listed_once_def by blast
  have "executor_num u = executor_num s" using lists_num [OF l] assms(2) by simp
  from l [folded lists_env [OF this]] show ?thesis unfolding scheduled_def listed_once_def by blast
qed

lemma some_lists_listed:
  assumes "some_lists J E sch exec T k s (if current sch s = NULL then [] else [current sch s]) c"
  shows "snd c = [] \<and> listed_once J E sch exec T k (fst c)"
proof -
  obtain xs ys where "to_lists J E sch exec T k s xs ys (if current sch s = NULL then [] else [current sch s]) c"
    using assms unfolding some_lists_def by blast
  then have "snd c = []" "lists J E sch exec T k (fst c) xs ys (if current sch (fst c) = NULL then [] else [current sch (fst c)])"
    by (auto simp: to_lists_def)
  then show ?thesis unfolding listed_once_def by blast
qed

lemma scheduled_step:
  fixes s :: "'a exec_state_scheme"
  assumes "scheduled E m sch exec T (k + takes op) s" "op_ok T op" "m \<noteq> 0"
  shows "\<exists>u. sched_run E sch exec op (s, []) = Some (u, []) \<and> scheduled E m sch exec T k u"
proof -
  let ?E = "sched_with E (s, [])" and ?J = "executors_fit E m"
  obtain xs ys where l: "lists ?J ?E sch exec T (k + takes op) s xs ys (if current sch s = NULL then [] else [current sch s])"
    using assms(1) unfolding scheduled_def listed_once_def by blast
  have num: "executor_num s = m" by (rule lists_num [OF l])
  have ec: "sched_env.executor_count ?E \<noteq> 0" using num assms(3) by (simp add: sched_with_def)
  have one: "lists ?J ?E sch exec T (Suc k) s xs ys (if current sch s = NULL then [] else [current sch s])" if "takes op = 1"
    using l that by simp
  let ?ok = "\<lambda>c. snd c = [] \<and> listed_once ?J ?E sch exec T k (fst c)"
  have "\<exists>c. sched_run E sch exec op (s, []) = Some c \<and> ?ok c"
  proof (cases op)
    case (Wake x)
    have "returns (cc_activate E x exec (s, [])) (\<lambda>_. ?ok)"
      unfolding cc_activate_def by (rule returns_mono [OF wk.activate_lists [OF one] some_lists_listed]) (use Wake assms(2) in auto)
    then show ?thesis using Wake by (auto simp: returns_ex)
  next
    case (Change x stat)
    have "returns (scheduler_update_thread x stat (s, [])) (\<lambda>_. ?ok)"
      by (rule returns_mono [OF wk.update_lists some_lists_listed]) (use l Change assms(2) in auto)
    then show ?thesis using Change by (auto simp: returns_ex)
  next
    case Balance
    have "returns (scheduler_balance_threads ?E sch exec (s, [])) (\<lambda>_. ?ok)"
      by (rule returns_mono [OF wk.balance_lists [OF one ec] some_lists_listed]) (use Balance in simp)
    then show ?thesis using Balance by (auto simp: returns_ex)
  next
    case Cycle
    have "returns (scheduler_cycle ?E (cycle_thread E) (cycle_gc E) sch exec (s, [])) (\<lambda>_. ?ok)"
      by (rule returns_mono [OF wk.cycle_lists [OF one ec] wk.chosen_listed]) (use Cycle in simp)
    then show ?thesis using Cycle by (auto simp: returns_ex)
  qed
  then show ?thesis using scheduledI [OF _ num] by (metis prod.collapse)
qed

lemma scheduled_reached:
  assumes "reaches E sch exec T s n t" "n \<le> k" "scheduled E m sch exec T k s" "m \<noteq> 0"
  shows "scheduled E m sch exec T (k - n) t"
  using assms(1,2)
proof induction
  case start
  then show ?case using assms(3) by simp
next
  case (step n t op u)
  then have "scheduled E m sch exec T (k - (n + takes op) + takes op) t" by simp
  from scheduled_step [OF this step.hyps(2) assms(4)] step.hyps(3) show ?case by auto
qed

text \<open>
  C8 [never_listed_twice]. From a state in which the work queue, the private queue and the current
  thread are all different threads with their reference flags set, and the work queue has room for
  \<open>k\<close> more, an executor that nobody disturbs may change the status of threads to any
  that a listed thread may have (so not to suspended, dead or destroyed), any number of times, and
  in between wake threads, balance its queues and run its scheduler in any order, up to
  \<open>k\<close> times altogether. In each state it reaches the same is true: no thread is
  listed twice, and each one that is listed has its flag. And the next operation within this bound
  comes to its end: it does not fault, stop the program because of a status it does not expect, or
  loop. (Each of the bounded operations may enter one thread; past the bound the allocator of the
  work queue may fault, so nothing is said of longer runs. One executor starts with room for
  three.)
\<close>

theorem never_listed_twice:
  fixes s :: "'a exec_state_scheme"
  assumes "reaches E sch exec T s n t" "n + takes op \<le> k"
    and "executor_num s \<noteq> 0" "executors_ok E s (unat (executor_num s))"
    and "ws_holds (executor_num s) exec s k xs" "sq_holds sch c T s 0 ys"
    and "zs = (if current sch s = NULL then [] else [current sch s])"
    and "distinct (xs @ ys @ zs)" "set (xs @ ys @ zs) \<subseteq> T" "\<forall>z \<in> set (xs @ ys @ zs). live (status s z)"
    and "op_ok T op"
  shows "\<exists>xs ys zs c u. ws_holds (executor_num s) exec t (k - n) xs \<and> sq_holds sch c T t 0 ys \<and>
    zs = (if current sch t = NULL then [] else [current sch t]) \<and> distinct (xs @ ys @ zs) \<and>
    (\<forall>z \<in> set (xs @ ys @ zs). status t z AND T_REF \<noteq> 0) \<and> sched_run E sch exec op (t, []) = Some (u, [])"
proof -
  have "executors_fit E (executor_num s) s" using assms(4) by (simp add: executors_fit_def)
  moreover have "sched_env.executor_count (sched_with E (s, [])) = executor_num s" by (simp add: sched_with_def)
  ultimately have "lists (executors_fit E (executor_num s)) (sched_with E (s, [])) sch exec T k s xs ys zs"
    using assms(5,6,8-10) unfolding lists_def by metis
  then have s: "scheduled E (executor_num s) sch exec T k s"
    unfolding scheduled_def listed_once_def assms(7) by blast
  have t: "scheduled E (executor_num s) sch exec T (k - n) t"
    using scheduled_reached [OF assms(1) _ s assms(3)] assms(2) by simp
  then obtain as bs where l: "lists (executors_fit E (executor_num s)) (sched_with E (t, [])) sch exec T (k - n) t as bs
      (if current sch t = NULL then [] else [current sch t])"
    unfolding scheduled_def listed_once_def by blast
  have ec: "sched_env.executor_count (sched_with E (t, [])) = executor_num s"
    using lists_num [OF l] by (simp add: sched_with_def)
  have "scheduled E (executor_num s) sch exec T (k - n - takes op + takes op) t" using t assms(2) by simp
  from scheduled_step [OF this assms(11,3)] obtain u where "sched_run E sch exec op (t, []) = Some (u, [])" by blast
  then show ?thesis using l unfolding lists_def live_def ec by blast
qed

lemma never_listed_twice_witness:
  "\<exists>s t u :: exec_state. reaches ex_exec_env 0x1200 0 {0x10, 0x20, 0x30} s 1 t \<and>
    sched_run ex_exec_env 0x1200 0 Cycle (t, []) = Some (u, [])"
proof -
  obtain v :: exec_state where v: "ws_holds 1 0 v 3 []" by (rule ex_exec_started)
  let ?s = "ex_exec 0x10 v" and ?T = "{0x10, 0x20, 0x30} :: ptr set"
  have q: "sq_holds 0x1200 1 ?T ?s 0 [0x20, 0x30]"
    by (simp add: sq_holds_def ex_exec_def qnext_def ex_mail_def Scheduling.ex_thread_def)
  have num: "executor_num ?s = 1" and cur: "current 0x1200 ?s = 0x10" by (simp_all add: ex_exec_def current_def)
  have live: "\<forall>z \<in> set ([] @ [0x20, 0x30] @ [0x10]). live (status ?s z)"
    by (simp add: ex_exec_def ex_mail_def Scheduling.ex_thread_def live_def listed_stat_def stat_of_def t_stat_defs)
  have go: "\<exists>u. sched_run ex_exec_env 0x1200 0 op (t, []) = Some (u, [])"
    if "reaches ex_exec_env 0x1200 0 ?T ?s n t" "n + takes op \<le> 3" "op_ok ?T op" for n t op
    using never_listed_twice [OF that(1,2), where xs = "[]" and c = 1 and ys = "[0x20, 0x30]" and zs = "[0x10]"] q num cur live that(3)
      ex_exec_ok [of "0x10" v] ex_exec_ws [OF v, of "0x10"] by auto
  obtain t where t: "sched_run ex_exec_env 0x1200 0 (Wake 0x30) (?s, []) = Some (t, [])"
    using go [OF reaches.start, of "Wake 0x30"] by auto
  have r: "reaches ex_exec_env 0x1200 0 ?T ?s 1 t" using reaches.step [OF reaches.start _ t, of ?T] by simp
  from go [OF this, of Cycle] obtain u where "sched_run ex_exec_env 0x1200 0 Cycle (t, []) = Some (u, [])" by auto
  with r show ?thesis by blast
qed

end
