(* ===== verification/GC_Cycle.thy ===== *)
theory GC_Cycle
  imports GC_Thread
begin

unbundle bit_operations_syntax

section \<open>A collection (\<open>src/mm/gc/gc_thread.c\<close>)\<close>

text \<open>
  The write log, the sawtooth of generations, the three barriers, the exchange of work and
  the main function of a collector. A safepoint may leave the collector for another thread.
\<close>

subsection \<open>The write log\<close>

definition gc_thread_process_write_entry ::
  "'a gc_thread_state_scheme gc_thread_env \<Rightarrow> ptr \<Rightarrow> ptr \<Rightarrow> u8 \<Rightarrow> bool \<Rightarrow> 'a gc_conc \<Rightarrow> (unit \<times> 'a gc_conc) option" where
  "gc_thread_process_write_entry E closure ent max_gen do_weak c = do {
     (src, c) \<leftarrow> gc_log_entry_objptr ent c;
     (flipflop, c) \<leftarrow> gc_flipflop c;
     let unclaimed = gc_unclaimed flipflop;
     (dst, c) \<leftarrow> gc_header_fwd_ptr src c;
     if unclaimed \<noteq> dst then do {
       (curr, c) \<leftarrow> gc_header_curr_gen src c;
       let curr_gen = (ucast curr :: u8);
       (off, c) \<leftarrow> gc_log_entry_offset ent c;
       let real_offset = sizeof_gc_header_t + off;
       (type, c) \<leftarrow> gc_header_type src c;
       (nonptr_size, c) \<leftarrow> gc_typedesc_nonptr_size type c;
       (num_normptrs, c) \<leftarrow> gc_typedesc_normal_ptrs type c;
       (num_weakptrs, c) \<leftarrow> gc_typedesc_weak_ptrs type c;
       let normptr_end = nonptr_size + num_normptrs * sizeof_gc_double_ptr_t;
       let srcptr = src + real_offset;
       let dstptr = dst + real_offset;
       if curr_gen \<le> max_gen then
         (if off < nonptr_size then gc_copy_until (word_loc dstptr) (word_loc srcptr) c
          else if off < normptr_end \<or> do_weak then gc_thread_check_ptr E closure srcptr dstptr max_gen do_weak c
          else Some ((), c))
       else if nonptr_size < off then
         (if off < normptr_end \<or> do_weak then gc_thread_check_ptr E closure srcptr dstptr max_gen do_weak c
          else Some ((), c))
       else Some ((), c) }
     else Some ((), c) }"

definition gc_thread_hash_table_index :: "ptr \<Rightarrow> 'a gc_conc \<Rightarrow> (u32 \<times> 'a gc_conc) option" where
  "gc_thread_hash_table_index node c = do {
     (entry, c) \<leftarrow> prd (wh_log_entry_loc node) c;
     (hash, c) \<leftarrow> gc_log_entry_objptr entry c;
     Some (hash mod 4091, c) }"

text \<open>\<open>while(NULL != curr) if(addr == ...) { present = true; break; } else curr = ...\<close>\<close>

partial_function (option) gc_hash_find :: "ptr \<Rightarrow> ptr \<Rightarrow> 'a gc_conc \<Rightarrow> ((bool \<times> ptr) \<times> 'a gc_conc) option" where
  "gc_hash_find addr cur c =
     (if cur \<noteq> NULL then do {
        (entry, c) \<leftarrow> prd (wh_log_entry_loc cur) c;
        (p, c) \<leftarrow> gc_log_entry_objptr entry c;
        if addr = p then Some ((True, cur), c)
        else do {
          (next, c) \<leftarrow> prd (wh_hash_next_loc cur) c;
          gc_hash_find addr next c } }
      else Some ((False, cur), c))"

text \<open>The table is looked up in \<open>thread\<close>, which is not declared, and changed in the closure.\<close>

definition gc_thread_hash_table_insert ::
  "'s gc_thread_env \<Rightarrow> ptr \<Rightarrow> ptr \<Rightarrow> 'a gc_conc \<Rightarrow> (unit \<times> 'a gc_conc) option" where
  "gc_thread_hash_table_insert E closure node c = do {
     (entry, c) \<leftarrow> prd (wh_log_entry_loc node) c;
     (addr, c) \<leftarrow> gc_log_entry_objptr entry c;
     (index, c) \<leftarrow> gc_thread_hash_table_index node c;
     (cur, c) \<leftarrow> prd (word_loc (gth_hash_table (env_thread E) index)) c;
     ((present, cur), c) \<leftarrow> gc_hash_find addr cur c;
     if \<not> present then do {
       (_, c) \<leftarrow> pwr (wh_hash_next_loc node) cur c;
       (_, c) \<leftarrow> pwr (word_loc (gth_hash_table closure index)) node c;
       (u, c) \<leftarrow> prd (gth_unique_loc closure) c;
       (_, c) \<leftarrow> pwr (wh_list_next_loc node) u c;
       pwr (gth_unique_loc closure) node c }
     else Some ((), c) }"

partial_function (option) gc_clear_loop ::
  "'a gc_thread_state_scheme gc_thread_env \<Rightarrow> ptr \<Rightarrow> u8 \<Rightarrow> bool \<Rightarrow> ptr \<Rightarrow> 'a gc_conc \<Rightarrow> (unit \<times> 'a gc_conc) option" where
  "gc_clear_loop E closure max_gen do_weak cur c =
     (if cur \<noteq> NULL then do {
        (index, c) \<leftarrow> gc_thread_hash_table_index cur c;
        (_, c) \<leftarrow> pwr (word_loc (gth_hash_table closure index)) NULL c;
        (entry, c) \<leftarrow> prd (wh_log_entry_loc cur) c;
        (_, c) \<leftarrow> gc_thread_process_write_entry E closure entry max_gen do_weak c;
        (next, c) \<leftarrow> prd (wh_list_next_loc cur) c;
        gc_clear_loop E closure max_gen do_weak next c }
      else Some ((), c))"

definition gc_thread_clear_write_log ::
  "'a gc_thread_state_scheme gc_thread_env \<Rightarrow> ptr \<Rightarrow> u32 \<Rightarrow> u8 \<Rightarrow> bool \<Rightarrow> 'a gc_conc \<Rightarrow> (unit \<times> 'a gc_conc) option" where
  "gc_thread_clear_write_log E closure index max_gen do_weak c = do {
     (_, c) \<leftarrow> foreach (\<lambda>i. gc_thread_hash_table_insert E closure (gth_hash_nodes closure (of_nat i))) [0..<unat index] c;
     (cur, c) \<leftarrow> prd (gth_unique_loc closure) c;
     (_, c) \<leftarrow> gc_clear_loop E closure max_gen do_weak cur c;
     pwr (gth_unique_loc closure) NULL c }"

subsection \<open>Generations\<close>

definition gc_thread_get_gen :: "'a gc_conc \<Rightarrow> (u32 \<times> 'a gc_conc) option" where
  "gc_thread_get_gen c = do {
     (current_gen, c) \<leftarrow> rd gc_next_gen_loc c;
     (peak, c) \<leftarrow> rd gc_peak_gen_loc c;
     if current_gen < ucast peak then do {
       (n, c) \<leftarrow> rd gc_next_gen_loc c;
       (_, c) \<leftarrow> wr gc_next_gen_loc (n + 1) c;
       Some (current_gen, c) }
     else do {
       (peak, c) \<leftarrow> rd gc_peak_gen_loc c;
       if current_gen = ucast peak then do {
         (new, c) \<leftarrow> (if current_gen < gc_num_generations (fst c) then do {
             (p, c) \<leftarrow> rd gc_peak_gen_loc c;
             Some (p + 1, c) }
           else Some (1, c));
         (_, c) \<leftarrow> wr gc_peak_gen_loc new c;
         (_, c) \<leftarrow> wr gc_next_gen_loc 1 c;
         Some (current_gen, c) }
       else do {
         (_, c) \<leftarrow> wr gc_peak_gen_loc
           (ucast (if current_gen < gc_num_generations (fst c) then current_gen + 1 else 1)) c;
         Some (current_gen, c) } } }"

subsection \<open>Barriers\<close>

definition gc_thread_initial_barrier ::
  "'a gc_thread_state_scheme gc_thread_env \<Rightarrow> 'a gc_conc \<Rightarrow> (unit \<times> 'a gc_conc) option" where
  "gc_thread_initial_barrier E c = do {
     (last, c) \<leftarrow> os_thread_barrier_enter gc_initial_loc c;
     if last then do {
       (old_state, c) \<leftarrow> rd gc_state_loc c;
       (gen, c) \<leftarrow> gc_thread_get_gen c;
       let new_state = (old_state AND NOT (GC_STATE_PHASE (gc_part E) OR GC_STATE_GEN E)) OR GC_STATE_NORMAL E OR gen;
       (_, c) \<leftarrow> wr gc_state_loc new_state c;
       os_thread_barrier_release gc_initial_loc c }
     else Some ((), c) }"

definition gc_thread_middle_barrier ::
  "'a gc_thread_state_scheme gc_thread_env \<Rightarrow> 'a gc_conc \<Rightarrow> (unit \<times> 'a gc_conc) option" where
  "gc_thread_middle_barrier E c = do {
     (last, c) \<leftarrow> os_thread_barrier_enter gc_middle_loc c;
     if last then do {
       (old_state, c) \<leftarrow> rd gc_state_loc c;
       let new_state = (old_state AND NOT (GC_STATE_PHASE (gc_part E))) OR GC_STATE_WEAK E;
       (_, c) \<leftarrow> wr gc_state_loc new_state c;
       os_thread_barrier_release gc_middle_loc c }
     else Some ((), c) }"

definition gc_thread_final_barrier ::
  "'a gc_thread_state_scheme gc_thread_env \<Rightarrow> ptr \<Rightarrow> ptr \<Rightarrow> 'a gc_conc \<Rightarrow> (unit \<times> 'a gc_conc) option" where
  "gc_thread_final_barrier E closure allocators c = do {
     (last, c) \<leftarrow> os_thread_barrier_enter gc_final_loc c;
     (_, c) \<leftarrow> (if last then do {
         (old_state, c) \<leftarrow> rd gc_state_loc c;
         let gen = old_state AND GC_STATE_GEN E;
         let new_state = (old_state AND NOT (GC_STATE_PHASE (gc_part E) OR GC_STATE_GEN E)) OR
           GC_STATE_INACTIVE (gc_part E);
         (_, c) \<leftarrow> wr gc_peak_gen_loc (ucast gen) c;
         (n, c) \<leftarrow> rd gc_count_loc c;
         (_, c) \<leftarrow> wr gc_count_loc (n + 1) c;
         (_, c) \<leftarrow> wr gc_state_loc new_state c;
         (_, c) \<leftarrow> gc_allocator_release_slices gen c;
         os_thread_barrier_release gc_final_loc c }
       else Some ((), c));
     gc_memcpy (allocators + 8) (gth_allocators closure + 8) (gc_num_generations (fst c) * 8) c }"

subsection \<open>Safepoints and the exchange of work\<close>

definition gc_thread_yield ::
  "'a gc_thread_state_scheme gc_thread_env \<Rightarrow> ptr \<Rightarrow> ptr \<Rightarrow> u32 \<Rightarrow> 'a gc_conc \<Rightarrow> ((leave + unit) \<times> 'a gc_conc) option" where
  "gc_thread_yield E closure allocators exec c = do {
     (_, c) \<leftarrow> gc_memcpy allocators (gth_allocators closure) 8 c;
     cc_safepoint (exec_part E) exec (EX_SIGNAL_SCHEDULE (exec_part E)) c }"

definition gc_safepoint ::
  "'a gc_thread_state_scheme gc_thread_env \<Rightarrow> ptr \<Rightarrow> ptr \<Rightarrow> u32 \<Rightarrow> 'a gc_conc \<Rightarrow> ((leave + unit) \<times> 'a gc_conc) option" where
  "gc_safepoint E closure allocators exec c = do {
     (_, c) \<leftarrow> gc_memcpy allocators (gth_allocators closure) 8 c;
     cc_safepoint (exec_part E) exec 0 c }"

definition gc_thread_push ::
  "'a gc_thread_state_scheme gc_thread_env \<Rightarrow> ptr \<Rightarrow> u32 \<Rightarrow> 'a gc_conc \<Rightarrow> (bool \<times> 'a gc_conc) option" where
  "gc_thread_push E closure exec c = do {
     (obj, c) \<leftarrow> gc_thread_dequeue closure c;
     (queue, c) \<leftarrow> prd (global_loc gc_workshare gc_workshare_update) c;
     (out, c) \<leftarrow> lf_object_queue_enqueue (sched_env.executor_count (gc_part E)) queue obj exec c;
     if out then Some (out, c)
     else do {
       (_, c) \<leftarrow> gc_thread_enqueue closure obj c;
       Some (out, c) } }"

text \<open>\<open>if(bool = (NULL != obj))\<close> leaves \<open>out\<close> as it was.\<close>

definition gc_thread_pull ::
  "'a gc_thread_state_scheme gc_thread_env \<Rightarrow> bool \<Rightarrow> ptr \<Rightarrow> u32 \<Rightarrow> 'a gc_conc \<Rightarrow> (bool \<times> 'a gc_conc) option" where
  "gc_thread_pull E junk closure exec c = do {
     (queue, c) \<leftarrow> prd (global_loc gc_workshare gc_workshare_update) c;
     (obj, c) \<leftarrow> lf_object_queue_dequeue (sched_env.executor_count (gc_part E)) queue exec c;
     (_, c) \<leftarrow> (if obj \<noteq> NULL then gc_thread_enqueue closure obj c else Some ((), c));
     Some (junk, c) }"

text \<open>A thread that intends to pull calls \<open>gc_thread_push\<close>.\<close>

definition gc_thread_balance ::
  "'a gc_thread_state_scheme gc_thread_env \<Rightarrow> ptr \<Rightarrow> u32 \<Rightarrow> 'a gc_conc \<Rightarrow> (unit \<times> 'a gc_conc) option" where
  "gc_thread_balance E closure exec c = do {
     (local, c) \<leftarrow> prd (gth_size_loc closure) c;
     (count, c) \<leftarrow> prd (gth_count_loc closure) c;
     let intent = count + (moderator E - local);
     if 0 <s intent then
       (if 0 <s count then do {
          (ok, c) \<leftarrow> gc_thread_push E closure exec c;
          if ok then do {
            (n, c) \<leftarrow> prd (gth_count_loc closure) c;
            pwr (gth_count_loc closure) (n - 1) c }
          else pwr (gth_count_loc closure) (- moderator E) c }
        else do {
          (n, c) \<leftarrow> prd (gth_count_loc closure) c;
          pwr (gth_count_loc closure) (n - 1) c })
     else
       (if count <s 0 then do {
          (ok, c) \<leftarrow> gc_thread_push E closure exec c;
          if ok then do {
            (n, c) \<leftarrow> prd (gth_count_loc closure) c;
            pwr (gth_count_loc closure) (n + 1) c }
          else pwr (gth_count_loc closure) (moderator E) c }
        else do {
          (n, c) \<leftarrow> prd (gth_count_loc closure) c;
          pwr (gth_count_loc closure) (n + 1) c }) }"

subsection \<open>The main function\<close>

text \<open>
  \<open>X == state & GC_STATE_PHASE\<close> masks the truth value of the comparison.
\<close>

definition phase_is :: "'a gc_thread_state_scheme gc_thread_env \<Rightarrow> bool \<Rightarrow> bool" where
  "phase_is E b \<longleftrightarrow> (if b then 1 else 0) AND GC_STATE_PHASE (gc_part E) \<noteq> 0"

text \<open>The loop over the local queue; \<open>i\<close> counts objects between two safepoints.\<close>

partial_function (option) gc_drain ::
  "'a gc_thread_state_scheme gc_thread_env \<Rightarrow> ptr \<Rightarrow> ptr \<Rightarrow> u32 \<Rightarrow> bool \<Rightarrow> u32 \<Rightarrow> 'a gc_conc \<Rightarrow>
   ((leave + u32) \<times> 'a gc_conc) option" where
  "gc_drain E closure allocators exec do_weak i c = do {
     (head, c) \<leftarrow> prd (gth_head_loc closure) c;
     if head \<noteq> NULL then do {
       (obj, c) \<leftarrow> gc_thread_dequeue closure c;
       (gen, c) \<leftarrow> rd gc_last_gen_loc c;
       (_, c) \<leftarrow> gc_thread_process E closure obj gen do_weak c;
       let i = (i + 1) mod 16;
       if 0 = i then do {
         (_, c) \<leftarrow> gc_thread_balance E closure (balance_exec E) c;
         (r, c) \<leftarrow> gc_safepoint E closure allocators exec c;
         case r of Inl l \<Rightarrow> Some (Inl l, c)
         | Inr _ \<Rightarrow> gc_drain E closure allocators exec do_weak i c }
       else gc_drain E closure allocators exec do_weak i c }
     else Some (Inr i, c) }"

text \<open>\<open>for(i = 1; claim_cluster(...) || claim_globals(...);) while(...) ...\<close>\<close>

partial_function (option) gc_work_loop ::
  "'a gc_thread_state_scheme gc_thread_env \<Rightarrow> ptr \<Rightarrow> ptr \<Rightarrow> u32 \<Rightarrow> bool \<Rightarrow> u32 \<Rightarrow> 'a gc_conc \<Rightarrow>
   ((leave + unit) \<times> 'a gc_conc) option" where
  "gc_work_loop E closure allocators exec do_weak i c = do {
     (gen, c) \<leftarrow> rd gc_last_gen_loc c;
     (more, c) \<leftarrow> gc_thread_claim_cluster E closure gen do_weak c;
     (more, c) \<leftarrow> (if more then Some (more, c) else do {
       (gen, c) \<leftarrow> rd gc_last_gen_loc c;
       gc_thread_claim_globals E closure gen do_weak c });
     if more then do {
       (r, c) \<leftarrow> gc_drain E closure allocators exec do_weak i c;
       case r of Inl l \<Rightarrow> Some (Inl l, c)
       | Inr i \<Rightarrow> gc_work_loop E closure allocators exec do_weak i c }
     else Some (Inr (), c) }"

partial_function (option) gc_cycles ::
  "'a gc_thread_state_scheme gc_thread_env \<Rightarrow> ptr \<Rightarrow> ptr \<Rightarrow> u32 \<Rightarrow> 'a gc_conc \<Rightarrow> (leave \<times> 'a gc_conc) option" where
  "gc_cycles E closure allocators exec c = do {
     (state, c) \<leftarrow> rd gc_state_loc c;
     (_, c) \<leftarrow> (if phase_is E (GC_STATE_INITIAL (gc_part E) = state) then gc_thread_initial_barrier E c
       else Some ((), c));
     (state, c) \<leftarrow> rd gc_state_loc c;
     (r, c) \<leftarrow> (if phase_is E (GC_STATE_NORMAL E = state) then do {
         (r, c) \<leftarrow> gc_work_loop E closure allocators exec False 1 c;
         case r of Inl l \<Rightarrow> Some (Inl l, c)
         | Inr _ \<Rightarrow> do {
             (_, c) \<leftarrow> gc_thread_middle_barrier E c;
             Some (Inr (), c) } }
       else Some (Inr (), c));
     case r of Inl l \<Rightarrow> Some (l, c)
     | Inr _ \<Rightarrow> do {
         (r, c) \<leftarrow> gc_work_loop E closure allocators exec True 1 c;
         case r of Inl l \<Rightarrow> Some (l, c)
         | Inr _ \<Rightarrow> do {
             (_, c) \<leftarrow> gc_thread_final_barrier E closure allocators c;
             (state, c) \<leftarrow> rd gc_state_loc c;
             if GC_STATE_INACTIVE (gc_part E) = state then do {
               (r, c) \<leftarrow> gc_thread_yield E closure allocators exec c;
               case r of Inl l \<Rightarrow> Some (l, c) | Inr _ \<Rightarrow> None }
             else gc_cycles E closure allocators exec c } } }"

text \<open>
  The mailbox is that of \<open>thread\<close>. The index of the log and the generation of the call of \<open>gc_thread_clear_write_log\<close> are
  in the other order than its parameters.
\<close>

definition gc_thread ::
  "'a gc_thread_state_scheme gc_thread_env \<Rightarrow> ptr \<Rightarrow> ptr \<Rightarrow> ptr \<Rightarrow> u32 \<Rightarrow> 'a gc_conc \<Rightarrow> (leave \<times> 'a gc_conc) option" where
  "gc_thread E closure write_log thread exec c = do {
     (allocators, c) \<leftarrow> rd (mbox_loc thread_mbox_allocators thread) c;
     (state, c) \<leftarrow> rd gc_state_loc c;
     (_, c) \<leftarrow> gc_memcpy (gth_allocators closure) allocators 8 c;
     (state, c) \<leftarrow> rd gc_state_loc c;
     (_, c) \<leftarrow> (if phase_is E (GC_STATE_INITIAL (gc_part E) \<noteq> state) then do {
         (index, c) \<leftarrow> rd (mbox_loc thread_mbox_write_log_index thread) c;
         (gen, c) \<leftarrow> rd gc_last_gen_loc c;
         (_, c) \<leftarrow> gc_thread_clear_write_log E closure (ucast gen) (ucast index) (GC_STATE_WEAK E = state) c;
         wr (mbox_loc thread_mbox_write_log_index thread) 0 c }
       else Some ((), c));
     gc_cycles E closure allocators exec c }"

end
