(* ===== verification/GC_Collect.thy ===== *)
theory GC_Collect
  imports GC_Cycle Fifo
begin

unbundle bit_operations_syntax

section \<open>Collecting\<close>

text \<open>
  What the collector does: its local queue is a queue, an object moves once, checking ends,
  and which of its loops do not.
\<close>

subsection \<open>The local queue\<close>

definition onext :: "'a slice_state_scheme \<Rightarrow> ptr \<Rightarrow> ptr option" where
  "onext s x = load (word_loc (x + 4)) s"

text \<open>The closure holds the objects \<open>xs\<close>; the headers of the objects \<open>T\<close> are in memory.\<close>

definition gq_holds :: "ptr \<Rightarrow> ptr set \<Rightarrow> 'a gc_thread_state_scheme \<Rightarrow> nat \<Rightarrow> ptr list \<Rightarrow> bool" where
  "gq_holds closure T s k xs \<longleftrightarrow> closure \<noteq> NULL \<and> (\<exists>r. gc_closures s closure = Some r \<and>
     chain (onext s) (gth_head r) xs NULL \<and> gth_tail r = (if xs = [] then NULL else last xs) \<and>
     gth_queue_size r = of_nat (length xs)) \<and> (\<forall>x \<in> T. x \<noteq> NULL \<and> onext s x \<noteq> None)"

definition gq_enq :: "ptr \<Rightarrow> ptr \<Rightarrow> 'a gc_thread_state_scheme \<Rightarrow> 'a gc_thread_state_scheme option" where
  "gq_enq closure obj s = map_option (\<lambda>r. fst (snd r)) (gc_thread_enqueue closure obj (s, []))"

text \<open>A client looks whether the head is NULL before it dequeues.\<close>

definition gq_deq :: "ptr \<Rightarrow> 'a gc_thread_state_scheme \<Rightarrow> (ptr option \<times> 'a gc_thread_state_scheme) option" where
  "gq_deq closure s = do {
     (head, c) \<leftarrow> prd (gth_head_loc closure) (s, []);
     if head = NULL then Some (None, fst c)
     else do { (obj, c) \<leftarrow> gc_thread_dequeue closure c; Some (Some obj, fst c) } }"

lemma onext_frame [simp]:
  "onext (gc_closures_update f s) = onext s"
  by (simp add: onext_def fun_eq_iff)

lemma onext_store:
  "onext s x \<noteq> None \<Longrightarrow> onext (s\<lparr>words := (words s)(x + 4 \<mapsto> p)\<rparr>) = (onext s)(x \<mapsto> p)"
  by (auto simp: onext_def fun_eq_iff)

lemma list_ptr_set:
  "gc_header_list_ptr_set p x (s, fs) =
    (if onext s x = None then None else Some ((), (s\<lparr>words := (words s)(x + 4 \<mapsto> p)\<rparr>, fs)))"
  by (auto simp: gc_header_list_ptr_set_def onext_def pwr_def)

lemma list_ptr: "gc_header_list_ptr x (s, fs) = map_option (\<lambda>p. (p, (s, fs))) (onext s x)"
  by (auto simp: gc_header_list_ptr_def onext_def prd_def split: option.splits)

text \<open>From \<open>s\<close> to \<open>t\<close> only closures and the links of the objects \<open>X\<close> have changed.\<close>

definition links_only :: "ptr set \<Rightarrow> 'a gc_thread_state_scheme \<Rightarrow> 'a gc_thread_state_scheme \<Rightarrow> bool" where
  "links_only X s t \<longleftrightarrow> (\<exists>w cl. t = s\<lparr>words := w, gc_closures := cl\<rparr> \<and> (\<forall>a. a \<notin> (\<lambda>y. y + 4) ` X \<longrightarrow> w a = words s a))"

lemma gq_enqueue_quiet:
  assumes q: "gq_holds closure T s k xs" and x: "x \<in> T" "x \<notin> set xs"
  shows "returns (gc_thread_enqueue closure x (s, fs)) (\<lambda>_ c'. snd c' = fs \<and> gq_holds closure T (fst c') k (xs @ [x]) \<and>
    links_only (insert x (set xs)) s (fst c'))"
proof -
  obtain r where r: "gc_closures s closure = Some r" "closure \<noteq> NULL" "chain (onext s) (gth_head r) xs NULL"
    "gth_tail r = (if xs = [] then NULL else last xs)" "gth_queue_size r = of_nat (length xs)"
    "\<forall>y \<in> T. y \<noteq> NULL \<and> onext s y \<noteq> None"
    using q by (auto simp: gq_holds_def)
  have t: "onext s x \<noteq> None" "x \<noteq> NULL" using r(6) x(1) by auto
  show ?thesis
  proof (cases "xs = []")
    case True
    let ?v = "s\<lparr>words := (words s)(x + 4 \<mapsto> NULL), gc_closures := (gc_closures s)(closure \<mapsto>
      r\<lparr>gth_queue_size := 1, gth_head := x, gth_tail := x\<rparr>)\<rparr>"
    have "onext ?v = (onext s)(x \<mapsto> NULL)" using onext_store [OF t(1), of NULL] by simp
    then have "gq_holds closure T ?v k (xs @ [x])" using r(2,6) t x True by (simp add: gq_holds_def)
    moreover have "gc_thread_enqueue closure x (s, fs) = Some ((), (?v, fs))"
      using r(1-3,5) t(1) True by (simp add: gc_thread_enqueue_def prd_def pwr_def list_ptr_set)
    moreover have "links_only (insert x (set xs)) s ?v"
      unfolding links_only_def by (intro exI conjI) (rule refl, simp)
    ultimately show ?thesis by simp
  next
    case False
    let ?l = "last xs"
    have l: "?l \<in> set xs" using False by simp
    then have l': "?l \<noteq> NULL" "onext s ?l \<noteq> None"
      using chain_not_NULL [OF r(3)] chain_dom [OF r(3)] by metis+
    obtain ys where xs: "xs = ys @ [?l]" using False by (metis append_butlast_last_id)
    have "chain (onext s) (gth_head r) (ys @ [?l]) NULL" using r(3) xs by metis
    then have ys: "chain (onext s) (gth_head r) ys ?l" by (auto split: option.splits)
    have "distinct (ys @ [?l])" using chain_distinct [OF r(3)] xs by metis
    then have d: "?l \<notin> set ys" by simp
    have "x \<notin> set (ys @ [?l])" using x(2) xs by metis
    then have nx: "x \<noteq> ?l" "x \<notin> set ys" by simp_all
    then have "chain ((onext s)(?l \<mapsto> x, x \<mapsto> NULL)) (gth_head r) (ys @ [?l, x]) NULL"
      using ys d l' t(2) by simp
    moreover have "xs @ [x] = ys @ [?l, x]" using xs by simp
    ultimately have c: "chain ((onext s)(?l \<mapsto> x, x \<mapsto> NULL)) (gth_head r) (xs @ [x]) NULL" by metis
    have h: "gth_head r \<noteq> NULL" using r(3) False by (metis chain_NULL)
    let ?u = "s\<lparr>words := (words s)(?l + 4 \<mapsto> x)\<rparr>"
    let ?v = "?u\<lparr>words := (words ?u)(x + 4 \<mapsto> NULL), gc_closures := (gc_closures s)(closure \<mapsto>
      r\<lparr>gth_queue_size := gth_queue_size r + 1, gth_tail := x\<rparr>)\<rparr>"
    have u: "onext ?u = (onext s)(?l \<mapsto> x)" by (rule onext_store [OF l'(2)])
    have u': "onext (s\<lparr>gc_closures := f, words := w\<rparr>) = onext (s\<lparr>words := w\<rparr>)" for f w
      by (simp add: onext_def fun_eq_iff)
    have "onext ?u x \<noteq> None" using t u by simp
    note v = onext_store [OF this, of NULL] u
    then have "gq_holds closure T ?v k (xs @ [x])" using r(1,2,5,6) c by (simp add: gq_holds_def)
    moreover have "gc_thread_enqueue closure x (s, fs) = Some ((), (?v, fs))"
      using r(1,2,4) False h l' t(1) nx(1)
      by (simp add: gc_thread_enqueue_def prd_def pwr_def list_ptr_set u u' cong: if_cong)
    moreover have "links_only (insert x (set xs)) s ?v" unfolding links_only_def
    proof (rule exI [of _ "(words ?u)(x + 4 \<mapsto> NULL)"], rule exI [of _ "gc_closures ?v"], intro conjI allI impI)
      fix a assume "a \<notin> (\<lambda>y. y + 4) ` insert x (set xs)"
      then have "a \<noteq> ?l + 4" "a \<noteq> x + 4" using l by auto
      then show "((words ?u)(x + 4 \<mapsto> NULL)) a = words s a" by simp
    qed simp
    ultimately show ?thesis by simp
  qed
qed

lemma gq_dequeue_quiet:
  assumes q: "gq_holds closure T s k (x # xs)"
  shows "returns (gc_thread_dequeue closure (s, fs)) (\<lambda>r c'. r = x \<and> snd c' = fs \<and> gq_holds closure T (fst c') k xs)"
proof -
  obtain r where r: "gc_closures s closure = Some r" "closure \<noteq> NULL" "chain (onext s) (gth_head r) (x # xs) NULL"
    "gth_tail r = last (x # xs)" "gth_queue_size r = of_nat (length (x # xs))"
    "\<forall>y \<in> T. y \<noteq> NULL \<and> onext s y \<noteq> None"
    using q by (auto simp: gq_holds_def)
  obtain p where p: "gth_head r = x" "x \<noteq> NULL" "onext s x = Some p" "chain (onext s) p xs NULL"
    using r(3) by (auto split: option.splits)
  have d: "distinct (x # xs)" by (rule chain_distinct [OF r(3)])
  then have l: "last (x # xs) = x \<longleftrightarrow> xs = []" by (metis distinct.simps(2) last.simps last_in_set)
  show ?thesis
    using r p l by (simp add: gc_thread_dequeue_def wp list_ptr gq_holds_def split: if_splits)
qed

interpretation gq: fifo_queue "gq_enq closure" "gq_deq closure" "gq_holds closure T" "\<lambda>xs x. x \<in> T \<and> x \<notin> set xs" for closure T
proof
  fix s k xs x
  assume "gq_holds closure T s (Suc k) xs" and x: "x \<in> T \<and> x \<notin> set xs"
  then have "gq_holds closure T s k xs" by (simp add: gq_holds_def)
  from gq_enqueue_quiet [OF this, of x "[]"] x show "\<exists>t. gq_enq closure x s = Some t \<and> gq_holds closure T t k (xs @ [x])"
    by (auto simp: gq_enq_def returns_ex)
next
  fix s k
  assume "gq_holds closure T s k []"
  then show "\<exists>t. gq_deq closure s = Some (None, t) \<and> gq_holds closure T t k []"
    by (auto simp: gq_deq_def prd_def gq_holds_def)
next
  fix s k x xs
  assume q: "gq_holds closure T s k (x # xs)"
  then have "prd (gth_head_loc closure) (s, []) = Some (x, (s, []))" "x \<noteq> NULL"
    by (auto simp: prd_def gq_holds_def)
  then show "\<exists>t. gq_deq closure s = Some (Some x, t) \<and> gq_holds closure T t k xs"
    using gq_dequeue_quiet [OF q, of "[]"] by (auto simp: gq_deq_def returns_ex)
next
  fix s k xs j
  show "gq_holds closure T s k xs \<Longrightarrow> j \<le> k \<Longrightarrow> gq_holds closure T s j xs" by (simp add: gq_holds_def)
qed

text \<open>
  C29 [local_queue]. The local queue of a collector is a queue: any sequence of adding
  objects that are not in it and of taking the next one, looking first whether there is
  one, runs to its end and gives the objects that a list gives.
\<close>

theorem local_queue_is_fifo:
  assumes "gq_holds closure T s 0 xs" "fits_run (\<lambda>ys y. y \<in> T \<and> y \<notin> set ys) ops xs"
  shows "\<exists>t. run_fifo (gq_enq closure) (gq_deq closure) ops s = Some (fst (run_list ops xs), t) \<and>
    gq_holds closure T t 0 (snd (run_list ops xs))"
proof -
  have "gq_holds closure T s (length (enqueued ops)) xs" using assms(1) by (simp add: gq_holds_def)
  then show ?thesis using assms(2) by (rule gq.runs_as_list)
qed

text \<open>A memory with one closure, all words of which are \<open>0\<close>.\<close>

definition ex_closure :: "gc_thread_state \<Rightarrow> gc_thread_state" where
  "ex_closure s = s\<lparr>words := (\<lambda>_. Some 0), gc_closures := [0x1000 \<mapsto> \<lparr>gth_workshare_count = 0, gth_queue_size = 0,
     gth_head = NULL, gth_tail = NULL, gth_unique_list = NULL\<rparr>]\<rparr>"

lemma local_queue_is_fifo_witness:
  "\<forall>s. \<exists>t. run_fifo (gq_enq 0x1000) (gq_deq 0x1000) [Enq 0x100, Enq 0x200, Deq, Enq 0x100, Deq, Deq, Deq] (ex_closure s) =
    Some ([Some 0x100, Some 0x200, Some 0x100, None], t)"
proof
  fix s
  have "gq_holds 0x1000 {0x100, 0x200} (ex_closure s) 0 []" by (simp add: gq_holds_def ex_closure_def onext_def)
  from local_queue_is_fifo [OF this, of "[Enq 0x100, Enq 0x200, Deq, Enq 0x100, Deq, Deq, Deq]"]
  show "\<exists>t. run_fifo (gq_enq 0x1000) (gq_deq 0x1000) [Enq 0x100, Enq 0x200, Deq, Enq 0x100, Deq, Deq, Deq] (ex_closure s) =
    Some ([Some 0x100, Some 0x200, Some 0x100, None], t)" by auto
qed

subsection \<open>Loops that do not end\<close>

lemma retry_result:
  assumes "retry body c = Some y"
  shows "\<exists>c a d. body c = Some (Some a, d)"
proof (rule retry.raw_induct [where P = "\<lambda>body _ _. \<exists>c a d. body c = Some (Some a, d)", OF _ assms], goal_cases)
  case (1 loop body c y)
  from 1(2) show ?case by (auto split: option.splits bind_splits) (erule 1(1), blast)
qed

lemma retry_stuck: "(\<And>c a d. body c \<noteq> Some (Some a, d)) \<Longrightarrow> retry body c = None"
  using retry_result [of body c] by (cases "retry body c") auto

lemma retry_until_result:
  assumes "retry_until body c = Some y"
  shows "P c \<longrightarrow> (\<exists>c. P c \<and> (\<forall>d. body c = Some (False, d) \<longrightarrow> \<not> P d))"
proof (rule retry_until.raw_induct [where P = "\<lambda>body c _. P c \<longrightarrow> (\<exists>c. P c \<and> (\<forall>d. body c = Some (False, d) \<longrightarrow> \<not> P d))",
      OF _ assms], goal_cases)
  case (1 loop body c y)
  show ?case
  proof (cases "\<exists>d. body c = Some (False, d) \<and> P d")
    case True
    then obtain d where "body c = Some (False, d)" "P d" by blast
    with 1(2) 1(1) [of body d y] show ?thesis by simp
  qed blast
qed

lemma retry_until_stuck:
  assumes "P c" "\<And>c. P c \<Longrightarrow> \<exists>d. body c = Some (False, d) \<and> P d"
  shows "retry_until body c = None"
  using retry_until_result [of body c _ P] assms by (cases "retry_until body c") blast+

lemma cluster_loop_result:
  assumes "gc_cluster_loop E closure max_gen do_weak flipflop out array c = Some y"
  shows "fst y = - 1"
proof (rule gc_cluster_loop.raw_induct [where P = "\<lambda>_ _ _ _ _ _ _ _ y. fst y = - 1", OF _ assms], goal_cases)
  case (1 loop E closure max_gen do_weak flipflop out array c y)
  from 1(2) show ?case by (auto simp: Let_def split: bind_splits if_splits) (erule 1(1))+
qed

lemma cluster_loop_answer:
  "gc_cluster_loop E closure max_gen do_weak flipflop out array c = Some (r, d) \<Longrightarrow> r = - 1"
  by (drule cluster_loop_result) simp

lemma claim_cluster_stuck: "gc_thread_claim_cluster E closure max_gen do_weak c = None"
proof -
  have "gc_thread_try_claim_cluster E closure max_gen do_weak c \<noteq> Some (0, d)" for c d
    by (auto simp: gc_thread_try_claim_cluster_def dest: cluster_loop_answer split: bind_splits)
  then have "while_nonzero (gc_thread_try_claim_cluster E closure max_gen do_weak) c = None"
    unfolding while_nonzero_def by (intro retry_stuck) (auto split: bind_splits if_splits)
  then show ?thesis by (simp add: gc_thread_claim_cluster_def)
qed

lemma work_loop_stuck: "gc_work_loop E closure allocators exec do_weak i c = None"
  by (subst gc_work_loop.simps) (auto simp: claim_cluster_stuck split: bind_splits)

lemma cycles_stuck: "gc_cycles E closure allocators exec c = None"
  by (subst gc_cycles.simps) (auto simp: work_loop_stuck split: sum.splits bind_splits if_splits)

text \<open>
  C30 [collector_stuck]. No collector thread finishes. One attempt to claim a cluster of a
  shared array has no other result than \<open>-1\<close>, the answer for no work, which
  \<open>gc_thread_claim_cluster\<close> takes for a reason to try again: with no shared arrays at all
  the attempt succeeds and the loop goes on. Therefore \<open>gc_thread\<close> neither reaches a
  barrier at the end of a phase nor yields, whatever the others do.
\<close>

theorem collector_never_finishes:
  "gc_thread_try_claim_cluster E closure gen do_weak c \<in> insert None (range (\<lambda>d. Some (- 1, d))) \<and>
   gc_thread_try_claim_cluster E closure gen do_weak (s\<lparr>gc_thread_array_list := NULL\<rparr>, []) =
     Some (- 1, (s\<lparr>gc_thread_array_list := NULL\<rparr>, [])) \<and>
   gc_thread_claim_cluster E closure gen do_weak c = None \<and>
   gc_thread E closure write_log thread exec c = None"
proof (intro conjI)
  have "r = - 1" if "gc_thread_try_claim_cluster E closure gen do_weak c = Some (r, d)" for r d
    using that by (auto simp: gc_thread_try_claim_cluster_def dest: cluster_loop_answer split: bind_splits)
  then show "gc_thread_try_claim_cluster E closure gen do_weak c \<in> insert None (range (\<lambda>d. Some (- 1, d)))"
    by (cases "gc_thread_try_claim_cluster E closure gen do_weak c") auto
  show "gc_thread_try_claim_cluster E closure gen do_weak (s\<lparr>gc_thread_array_list := NULL\<rparr>, []) =
    Some (- 1, (s\<lparr>gc_thread_array_list := NULL\<rparr>, []))"
    by (simp add: gc_thread_try_claim_cluster_def gc_flipflop_def rd_def gc_cluster_loop.simps)
  show "gc_thread_claim_cluster E closure gen do_weak c = None" by (rule claim_cluster_stuck)
  show "gc_thread E closure write_log thread exec c = None"
    by (auto simp: gc_thread_def cycles_stuck split: bind_splits)
qed

lemma try_activate_stuck:
  "\<exists>t. gc_thread_try_activate E (s, []) = Some (True, (t, []))"
  by (auto simp: gc_thread_try_activate_def rd_def atomic_compare_and_set_uint_def cas_def Let_def)

text \<open>
  \<open>gc_thread_activate\<close> does not return when nobody disturbs it: its
  loops repeat as long as the attempt succeeds, and alone each attempt succeeds.
\<close>

theorem activate_never_returns:
  "gc_thread_activate E gen (s, []) = None \<and>
   (\<exists>t. gc_thread_try_activate E (s, []) = Some (True, (t, [])))"
proof
  have "retry_until (not_result (gc_thread_try_activate E)) (s, []) = None"
  proof (rule retry_until_stuck [where P = "\<lambda>c. snd c = []"])
    show "\<exists>d. not_result (gc_thread_try_activate E) c = Some (False, d) \<and> snd d = []" if "snd c = []" for c
      using that try_activate_stuck [of E "fst c"] by (cases c) (auto simp: not_result_def)
  qed simp
  then show "gc_thread_activate E gen (s, []) = None" by (simp add: gc_thread_activate_def)
qed (rule try_activate_stuck)

subsection \<open>Claiming\<close>

text \<open>
  The words of an object that a claim reads: forwarding pointer, type and information in
  the header, flags and sizes in the descriptor; the object is not an array.
\<close>

definition object_at ::
  "ptr \<Rightarrow> u32 \<Rightarrow> u32 \<Rightarrow> u32 \<Rightarrow> u32 \<Rightarrow> u32 \<Rightarrow> u32 \<Rightarrow> 'a slice_state_scheme \<Rightarrow> bool" where
  "object_at obj fwd type info nonptrs ptrs weaks s \<longleftrightarrow>
     (\<forall>a \<in> {obj, obj + 8, obj + 12, type, type + 4, type + 8, type + 12}. a \<noteq> NULL) \<and>
     words s obj = Some fwd \<and> map_option (\<lambda>w. w AND NOT 0xf) (words s (obj + 8)) = Some type \<and> words s (obj + 12) = Some info \<and>
     map_option (\<lambda>w. w AND GC_TYPEDESC_CLASS) (words s type) = Some GC_TYPEDESC_NORMAL \<and>
     words s (type + 4) = Some nonptrs \<and> words s (type + 8) = Some ptrs \<and> words s (type + 12) = Some weaks"

definition old_object :: "u8 \<Rightarrow> u32 \<Rightarrow> bool" where
  "old_object max_gen info \<longleftrightarrow> max_gen < ucast (info AND 0xff)"

lemmas claim_reads = gc_flipflop_def gc_header_fwd_ptr_def gc_header_type_def gc_typedesc_class_def
  gc_typedesc_nonptr_size_def gc_typedesc_normal_ptrs_def gc_typedesc_weak_ptrs_def gc_header_flags_def
  gc_header_curr_gen_def gc_header_next_gen_def gc_header_count_def

lemma claim_quiet_stays:
  assumes "object_at obj fwd type info nonptrs ptrs weaks s"
    and "old_object max_gen info \<or> fwd \<noteq> gc_unclaimed (odd (gc_collection_count s))"
  shows "gc_thread_claim E closure obj max_gen copy (s, []) =
    Some (if old_object max_gen info then obj else fwd, (s, []))"
proof -
  have never: "gc_unclaimed b \<noteq> (if \<not> copy then gc_claimed b XOR 1 else gc_claimed b)" for b
    by (simp add: gc_unclaimed_def gc_claimed_def)
  show ?thesis using assms never unfolding object_at_def
    by (auto simp: gc_thread_claim_def claim_reads rd_def prd_def Let_def old_object_def not_less)
qed

text \<open>
  C26 [claim_stays]. An object of a generation that is not collected is never marked or
  queued: its claim gives the object and changes nothing, whatever its forwarding pointer,
  although the code means to claim it, too. The claim of an object that was claimed before
  gives the forwarding pointer and changes nothing.
\<close>

theorem claim_without_moving:
  assumes "object_at obj fwd type info nonptrs ptrs weaks s"
    and "old_object max_gen info \<or> fwd \<noteq> gc_unclaimed (odd (gc_collection_count s))"
  shows "gc_thread_claim E closure obj max_gen copy (s, []) =
    Some (if old_object max_gen info then obj else fwd, (s, []))"
  using assms by (rule claim_quiet_stays)

lemma young_generation:
  assumes "num \<noteq> 1"
  shows "gc_thread_new_gen_count num gen (ucast (drop_bit 8 (info AND 0xff) :: u32)) (ucast (drop_bit 16 (info AND 0xff) :: u32)) =
    \<lparr>gc_gen = 0, gc_count = 1\<rparr>"
proof -
  have ff: "(0xff :: u32) = mask 8" by (simp add: mask_eq_exp_minus_1)
  have "drop_bit 8 (info AND 0xff) = 0" "drop_bit 16 (info AND 0xff) = 0" for info :: u32
    unfolding ff by (rule bit_word_eqI; auto simp: bit_simps)+
  then show ?thesis using assms by (simp add: gc_thread_new_gen_count_def gc_gen_promote_def)
qed

text \<open>The words that a claim writes, besides the links of the queue.\<close>

definition claim_writes :: "ptr \<Rightarrow> ptr \<Rightarrow> ptr \<Rightarrow> ptr set" where
  "claim_writes obj al p = {obj, al, p, p + 4, p + 8, p + 12}"

lemma gq_holds_writes:
  assumes "gq_holds closure T s k xs" "set xs \<subseteq> T" "\<forall>x \<in> T. words t (x + 4) = words s (x + 4)"
    "gc_closures t = gc_closures s"
  shows "gq_holds closure T t k xs"
proof -
  have e: "onext t x = onext s x" if "x \<in> T" for x using that assms(3) by (simp add: onext_def)
  then have "chain (onext t) a xs NULL = chain (onext s) a xs NULL" for a
    using assms(2) by (intro chain_cong) auto
  then show ?thesis using assms(1,4) e by (simp add: gq_holds_def)
qed

lemma header_mapped_upd: "header_mapped p s \<Longrightarrow> header_mapped p (s\<lparr>words := (words s)(a \<mapsto> v)\<rparr>)"
proof -
  have "words s x \<noteq> None \<Longrightarrow> words (s\<lparr>words := (words s)(a \<mapsto> v)\<rparr>) x \<noteq> None" for x by simp
  then show "header_mapped p s \<Longrightarrow> ?thesis" unfolding header_mapped_def by blast
qed

lemma init_normal_quiet:
  assumes "header_mapped p s"
  shows "gc_header_init_normal fwd type flags gen next_gen count p (s, []) = Some ((), (s\<lparr>words := (words s)
    (p \<mapsto> fwd, p + 4 \<mapsto> NULL, p + 8 \<mapsto> type, p + 12 \<mapsto> geninfo flags gen next_gen count)\<rparr>, []))"
  using assms by (auto simp: gc_header_init_normal_def wr_def pwr_def header_mapped_def)

text \<open>
  An unclaimed object that is collected, and no array, can move: the allocator before the
  first has room for a copy at \<open>p\<close>, and what the claim writes and reads is apart.
\<close>

definition copy_size :: "u32 \<Rightarrow> u32 \<Rightarrow> u32 \<Rightarrow> u32" where
  "copy_size nonptrs ptrs weaks = gc_thread_aligned_normal_size (gc_thread_obj_size nonptrs ptrs weaks)"

definition copy_alloc :: "ptr \<Rightarrow> ptr" where "copy_alloc closure = gth_allocators closure - 8"

definition claim_room :: "ptr \<Rightarrow> u32 \<Rightarrow> ptr \<Rightarrow> 'a gc_thread_state_scheme \<Rightarrow> bool" where
  "claim_room closure sz p s \<longleftrightarrow> (let al = copy_alloc closure in al \<noteq> NULL \<and> al + 4 \<noteq> NULL \<and> words s al = Some p \<and>
     (\<exists>limit. words s (al + 4) = Some limit \<and> p + sz \<le> limit) \<and> header_mapped p s \<and>
     p \<noteq> gc_unclaimed (odd (gc_collection_count s)))"

definition claim_apart :: "ptr \<Rightarrow> ptr set \<Rightarrow> ptr \<Rightarrow> ptr \<Rightarrow> ptr \<Rightarrow> bool" where
  "claim_apart closure T obj type p \<longleftrightarrow> (let al = copy_alloc closure; links = (\<lambda>x. x + 4) ` T;
       reads = {obj + 8, obj + 12, type, type + 4, type + 8, type + 12}
     in distinct [obj, al, p, p + 4, p + 8, p + 12] \<and>
       claim_writes obj al p \<inter> (insert (al + 4) reads \<union> links) = {} \<and> reads \<inter> links = {})"

definition claim_ready ::
  "ptr \<Rightarrow> ptr set \<Rightarrow> nat \<Rightarrow> ptr list \<Rightarrow> ptr \<Rightarrow> u8 \<Rightarrow> u32 \<Rightarrow> u32 \<Rightarrow> u32 \<Rightarrow> u32 \<Rightarrow> u32 \<Rightarrow> ptr \<Rightarrow> 'a gc_thread_state_scheme \<Rightarrow> bool" where
  "claim_ready closure T k xs obj max_gen type info nonptrs ptrs weaks p s \<longleftrightarrow>
     object_at obj (gc_unclaimed (odd (gc_collection_count s))) type info nonptrs ptrs weaks s \<and>
     \<not> old_object max_gen info \<and> gc_num_generations s \<noteq> 1 \<and>
     gq_holds closure T s k xs \<and> set xs \<subseteq> T \<and> obj \<in> T \<and> obj \<notin> set xs \<and>
     claim_room closure (copy_size nonptrs ptrs weaks) p s \<and> claim_apart closure T obj type p"

text \<open>The memory when the copy is taken and its header written.\<close>

definition after_copy :: "ptr \<Rightarrow> ptr \<Rightarrow> u32 \<Rightarrow> u32 \<Rightarrow> u32 \<Rightarrow> ptr \<Rightarrow> 'a gc_thread_state_scheme \<Rightarrow> 'a gc_thread_state_scheme" where
  "after_copy closure obj type info sz p s = (
     let u = s\<lparr>words := (words s)(obj \<mapsto> p)\<rparr>;
         v = u\<lparr>words := (words u)(copy_alloc closure \<mapsto> p + sz)\<rparr>
     in v\<lparr>words := (words v)(p \<mapsto> gc_claimed (odd (gc_collection_count s)), p + 4 \<mapsto> NULL, p + 8 \<mapsto> type,
          p + 12 \<mapsto> geninfo (ucast (drop_bit 24 info AND 0xff)) 0 0 1)\<rparr>)"

lemma after_copy_words:
  "a \<notin> claim_writes obj (copy_alloc closure) p \<Longrightarrow> words (after_copy closure obj type info sz p s) a = words s a"
  "distinct [obj, copy_alloc closure, p, p + 4, p + 8, p + 12] \<Longrightarrow>
    words (after_copy closure obj type info sz p s) obj = Some p \<and>
    words (after_copy closure obj type info sz p s) (copy_alloc closure) = Some (p + sz) \<and>
    words (after_copy closure obj type info sz p s) (p + 8) = Some type \<and>
    words (after_copy closure obj type info sz p s) (p + 12) = Some (geninfo (ucast (drop_bit 24 info AND 0xff)) 0 0 1)"
  by (simp_all add: claim_writes_def after_copy_def Let_def)

lemma after_copy_fields [simp]:
  "gc_closures (after_copy closure obj type info sz p s) = gc_closures s"
  "gc_collection_count (after_copy closure obj type info sz p s) = gc_collection_count s"
  by (simp_all add: after_copy_def Let_def)

lemma claim_copies:
  assumes obj: "object_at obj (gc_unclaimed (odd (gc_collection_count s))) type info nonptrs ptrs weaks s"
      "\<not> old_object max_gen info" "gc_num_generations s \<noteq> 1"
    and room: "claim_room closure (copy_size nonptrs ptrs weaks) p s" and apart: "claim_apart closure T obj type p"
  shows "gc_thread_claim E closure obj max_gen copy (s, []) = do {
    (_, c) \<leftarrow> gc_thread_add_obj closure type obj
      (after_copy closure obj type info (copy_size nonptrs ptrs weaks) p s, []);
    Some (p, c) }"
proof -
  define sz where "sz = copy_size nonptrs ptrs weaks"
  define al where "al = copy_alloc closure"
  define u where "u = s\<lparr>words := (words s)(obj \<mapsto> p)\<rparr>"
  define v where "v = u\<lparr>words := (words u)(al \<mapsto> p + sz)\<rparr>"
  obtain limit where room: "al \<noteq> NULL" "al + 4 \<noteq> NULL" "words s al = Some p" "words s (al + 4) = Some limit"
    "p + sz \<le> limit" "header_mapped p s"
    using room by (auto simp: claim_room_def Let_def al_def sz_def)
  have new: "gc_thread_new_gen_count (gc_num_generations s) g 0 0 = \<lparr>gc_gen = 0, gc_count = 1\<rparr>" for g
    using young_generation [OF obj(3), of g 0] by simp
  have al: "gth_allocator (gth_allocators closure) 0 = al" by (simp add: gth_allocator_def al_def copy_alloc_def)
  have pre: "gc_allocator_gc_prealloc (gc_part E) (gth_allocators closure) sz 0 (s, []) = Some (p, (s, []))"
    using room by (simp add: gc_allocator_gc_prealloc_def al prd_def)
  have "distinct [obj, al, p, p + 4, p + 8, p + 12]" "obj \<notin> {al + 4}"
    using apart unfolding claim_apart_def Let_def claim_writes_def al_def by (simp, blast)
  then have "obj \<noteq> al" "obj \<noteq> al + 4" unfolding distinct.simps by simp_all
  then have post: "gc_allocator_gc_postalloc (gth_allocators closure) sz 0 (u, []) = Some ((), (v, []))"
    using room by (simp add: gc_allocator_gc_postalloc_def al prd_def pwr_def u_def v_def)
  have init: "gc_header_init_normal (gc_claimed (odd (gc_collection_count s))) type
    (ucast (drop_bit 24 info AND 0xff)) 0 0 1 p (v, []) = Some ((), (after_copy closure obj type info sz p s, []))"
  proof -
    have "header_mapped p v" unfolding v_def u_def by (intro header_mapped_upd room(6))
    from init_normal_quiet [OF this, of _ type _ 0 0 1] show ?thesis
      unfolding after_copy_def Let_def v_def u_def al_def .
  qed
  have reads: "gc_flipflop (s, []) = Some (odd (gc_collection_count s), (s, []))"
    "gc_header_fwd_ptr obj (s, []) = Some (gc_unclaimed (odd (gc_collection_count s)), (s, []))"
    "gc_header_type obj (s, []) = Some (type, (s, []))" "gc_typedesc_class type (s, []) = Some (GC_TYPEDESC_NORMAL, (s, []))"
    "gc_typedesc_nonptr_size type (s, []) = Some (nonptrs, (s, []))"
    "gc_typedesc_normal_ptrs type (s, []) = Some (ptrs, (s, []))"
    "gc_typedesc_weak_ptrs type (s, []) = Some (weaks, (s, []))"
    "gc_header_flags obj (s, []) = Some (ucast (drop_bit 24 info AND 0xff), (s, []))"
    "gc_header_curr_gen obj (s, []) = Some (info AND 0xff, (s, []))"
    "gc_header_next_gen obj (s, []) = Some (drop_bit 8 (info AND 0xff), (s, []))"
    "gc_header_count obj (s, []) = Some (drop_bit 16 (info AND 0xff), (s, []))"
    using obj(1) unfolding object_at_def by (auto simp: claim_reads rd_def prd_def)
  have cas: "gc_header_compare_and_set_fwd_ptr (gc_unclaimed (odd (gc_collection_count s))) p obj (s, []) = Some (True, (u, []))"
    using obj(1) unfolding object_at_def
    by (simp add: gc_header_compare_and_set_fwd_ptr_def atomic_compare_and_set_ptr_def cas_def u_def)
  have young: "ucast (info AND 0xff) \<le> max_gen" using obj(2) by (simp add: old_object_def not_less)
  show ?thesis
    by (simp add: gc_thread_claim_def Let_def reads pre post init new cas young gc_init_copy_def cong: if_cong
        flip: sz_def copy_size_def)
qed

text \<open>An object that is no array goes to the local queue.\<close>

lemma add_normal:
  assumes "object_at obj fwd type info nonptrs ptrs weaks s"
    and "\<forall>a \<in> {type, type + 4, type + 8, type + 12}. words t a = words s a"
  shows "gc_thread_add_obj closure type obj (t, []) = gc_thread_enqueue closure obj (t, [])"
proof -
  have "gc_typedesc_class type (t, []) = Some (GC_TYPEDESC_NORMAL, (t, []))"
    "gc_typedesc_nonptr_size type (t, []) = Some (nonptrs, (t, []))"
    "gc_typedesc_normal_ptrs type (t, []) = Some (ptrs, (t, []))"
    "gc_typedesc_weak_ptrs type (t, []) = Some (weaks, (t, []))"
    using assms unfolding object_at_def
    by (auto simp: gc_typedesc_class_def gc_typedesc_nonptr_size_def gc_typedesc_normal_ptrs_def
      gc_typedesc_weak_ptrs_def prd_def)
  then show ?thesis by (simp add: gc_thread_add_obj_def)
qed

lemma claim_ready_moves:
  assumes ready: "claim_ready closure T k xs obj max_gen type info nonptrs ptrs weaks p s"
  shows "returns (gc_thread_claim E closure obj max_gen copy (s, []))
    (\<lambda>r c. r = p \<and> snd c = [] \<and> gq_holds closure T (fst c) k (xs @ [obj]) \<and>
      (\<forall>a \<in> claim_writes obj (copy_alloc closure) p \<union> {obj + 8, obj + 12, type, type + 4, type + 8, type + 12}.
        a \<notin> (\<lambda>x. x + 4) ` T \<and>
        words (fst c) a = words (after_copy closure obj type info (copy_size nonptrs ptrs weaks) p s) a) \<and>
      gc_collection_count (fst c) = gc_collection_count s)"
proof -
  let ?t = "after_copy closure obj type info (copy_size nonptrs ptrs weaks) p s"
  let ?W = "claim_writes obj (copy_alloc closure) p" and ?R = "{obj + 8, obj + 12, type, type + 4, type + 8, type + 12}"
  have obj: "object_at obj (gc_unclaimed (odd (gc_collection_count s))) type info nonptrs ptrs weaks s"
      "\<not> old_object max_gen info" "gc_num_generations s \<noteq> 1"
    and q: "gq_holds closure T s k xs" "set xs \<subseteq> T" "obj \<in> T" "obj \<notin> set xs"
    and room: "claim_room closure (copy_size nonptrs ptrs weaks) p s" and apart: "claim_apart closure T obj type p"
    using ready by (simp_all add: claim_ready_def)
  have d: "?W \<inter> (\<lambda>x. x + 4) ` T = {}" "?W \<inter> ?R = {}" "?R \<inter> (\<lambda>x. x + 4) ` T = {}"
    using apart unfolding claim_apart_def Let_def by blast+
  have "gq_holds closure T ?t k xs"
  proof (rule gq_holds_writes [OF q(1,2)])
    show "\<forall>x \<in> T. words ?t (x + 4) = words s (x + 4)" using d(1) by (intro ballI after_copy_words(1)) blast
  qed simp
  from gq_enqueue_quiet [OF this q(3,4), of "[]"]
  have e: "returns (gc_thread_enqueue closure obj (?t, [])) (\<lambda>_ c. snd c = [] \<and> gq_holds closure T (fst c) k (xs @ [obj]) \<and>
    links_only (insert obj (set xs)) ?t (fst c))" .
  have "gc_thread_add_obj closure type obj (?t, []) = gc_thread_enqueue closure obj (?t, [])"
    by (rule add_normal [OF obj(1)]) (use d(2) in \<open>intro ballI after_copy_words(1), blast\<close>)
  then show ?thesis unfolding claim_copies [OF obj room apart]
  proof (simp add: wp, intro returns_mono [OF e], goal_cases)
    case (1 a c)
    then obtain w cl where c: "fst c = ?t\<lparr>words := w, gc_closures := cl\<rparr>"
      and w: "\<forall>a. a \<notin> (\<lambda>y. y + 4) ` insert obj (set xs) \<longrightarrow> w a = words ?t a"
      by (auto simp: links_only_def)
    have "w a = words ?t a" "a \<notin> (\<lambda>x. x + 4) ` T" if "a \<in> ?W \<union> ?R" for a
    proof -
      show "a \<notin> (\<lambda>x. x + 4) ` T" using that d(1,3) by blast
      then show "w a = words ?t a" using w q(2,3) by blast
    qed
    then show ?case using 1 unfolding c by simp
  qed
qed

text \<open>
  C25 [claim_moves]. Alone and with room in the allocator, the claim of an object that is
  collected, unclaimed and no array takes the copy from the allocator, puts the object at
  the end of the local queue and gives the copy; another claim gives the same copy and
  changes nothing. The allocator is the one before the first, of generation \<open>0\<close>: the next
  generation and the count of a header always read as \<open>0\<close>.
\<close>

theorem claim_moves_once:
  assumes "claim_ready closure T k xs obj max_gen type info nonptrs ptrs weaks p s"
  shows "returns (gc_thread_claim E closure obj max_gen copy (s, []))
    (\<lambda>r c. r = p \<and> gq_holds closure T (fst c) k (xs @ [obj]) \<and>
      words (fst c) (gth_allocators closure - 8) = Some (p + copy_size nonptrs ptrs weaks) \<and>
      gc_thread_claim E closure obj max_gen copy' c = Some (p, c))"
proof (rule returns_mono [OF claim_ready_moves [OF assms]], goal_cases)
  case (1 r c)
  have obj: "object_at obj (gc_unclaimed (odd (gc_collection_count s))) type info nonptrs ptrs weaks s"
      "\<not> old_object max_gen info" "p \<noteq> gc_unclaimed (odd (gc_collection_count s))"
    and apart: "claim_apart closure T obj type p"
    using assms by (simp_all add: claim_ready_def claim_room_def Let_def)
  have d: "claim_writes obj (copy_alloc closure) p \<inter> {obj + 8, obj + 12, type, type + 4, type + 8, type + 12} = {}"
    "distinct [obj, copy_alloc closure, p, p + 4, p + 8, p + 12]"
    using apart unfolding claim_apart_def Let_def by (blast, simp)
  note w = after_copy_words(2) [OF d(2), of type info "copy_size nonptrs ptrs weaks" s]
  have m: "obj \<in> claim_writes obj (copy_alloc closure) p" "copy_alloc closure \<in> claim_writes obj (copy_alloc closure) p"
    by (simp_all add: claim_writes_def)
  have same: "words (fst c) a = words s a" if "a \<in> {obj + 8, obj + 12, type, type + 4, type + 8, type + 12}" for a
  proof -
    have out: "a \<notin> claim_writes obj (copy_alloc closure) p" using that d(1) by blast
    have "words (fst c) a = words (after_copy closure obj type info (copy_size nonptrs ptrs weaks) p s) a"
      using 1 that by blast
    also have "\<dots> = words s a" by (rule after_copy_words(1) [OF out])
    finally show ?thesis .
  qed
  have "object_at obj p type info nonptrs ptrs weaks (fst c)"
    using obj(1) same 1 m w unfolding object_at_def by simp
  from claim_quiet_stays [OF this, of max_gen] obj(2,3) 1
  have "gc_thread_claim E closure obj max_gen copy' (fst c, []) = Some (p, (fst c, []))" by simp
  then show ?case using 1 m w by (cases c) (simp add: copy_alloc_def)
qed

text \<open>
  C27 [copy_type]. The header that a claim gives the copy is that of an object of the same
  type: it has the descriptor and the flags of the object, no link, and the mark of a
  claimed object; its generation is \<open>0\<close>.
\<close>

theorem copy_has_type:
  assumes "claim_ready closure T k xs obj max_gen type info nonptrs ptrs weaks p s"
  shows "returns (gc_thread_claim E closure obj max_gen copy (s, []))
    (\<lambda>r c. gives (gc_header_type r c) type \<and> gives (gc_header_flags r c) (ucast (drop_bit 24 info AND 0xff)) \<and>
      gives (gc_header_fwd_ptr r c) (gc_claimed (odd (gc_collection_count s))) \<and> gives (gc_header_curr_gen r c) 0)"
proof (rule returns_mono [OF claim_ready_moves [OF assms]], goal_cases)
  case (1 r c)
  obtain ti where ti: "type = ti AND NOT 0xf" using assms by (auto simp: claim_ready_def object_at_def)
  then have t: "type AND NOT 0xf = type" by (simp add: and.assoc)
  have m: "header_mapped p s" and d: "distinct [obj, copy_alloc closure, p, p + 4, p + 8, p + 12]"
    using assms by (simp_all add: claim_ready_def claim_room_def claim_apart_def Let_def)
  have n: "p \<noteq> NULL" "p + 8 \<noteq> NULL" "p + 12 \<noteq> NULL" using m by (simp_all add: header_mapped_def)
  have "p \<in> claim_writes obj (copy_alloc closure) p" "p + 8 \<in> claim_writes obj (copy_alloc closure) p"
    "p + 12 \<in> claim_writes obj (copy_alloc closure) p" by (simp_all add: claim_writes_def)
  with 1 have "words (fst c) p = Some (gc_claimed (odd (gc_collection_count s)))" "words (fst c) (p + 8) = Some type"
    "words (fst c) (p + 12) = Some (geninfo (ucast (drop_bit 24 info AND 0xff)) 0 0 1)"
    by (simp_all add: after_copy_def Let_def)
  with 1 n t show ?case by (cases c)
    (simp add: gc_header_type_def gc_header_flags_def gc_header_fwd_ptr_def gc_header_curr_gen_def prd_def rd_def geninfo_bytes)
qed

text \<open>A memory with an unclaimed object, its descriptor, a closure and space in the allocator.\<close>

definition ex_claim :: "gc_thread_state \<Rightarrow> gc_thread_state" where
  "ex_claim s = (ex_closure s)\<lparr>words := (\<lambda>_. Some 0)(0x100 \<mapsto> NOT 0, 0x108 \<mapsto> 0x300, 0x230c \<mapsto> 0x4000, 0x2310 \<mapsto> 0x5000),
     gc_num_generations := 2, gc_collection_count := 0\<rparr>"

lemma ex_claim_object: "object_at 0x100 (gc_unclaimed False) 0x300 0 0 0 0 (ex_claim s)"
  by (simp add: object_at_def ex_claim_def gc_unclaimed_def GC_TYPEDESC_NORMAL_def)

lemma ex_claim_ready: "claim_ready 0x1000 {0x100} 0 [] 0x100 3 0x300 0 0 0 0 0x4000 (ex_claim s)"
proof -
  have n: "copy_alloc 0x1000 = 0x230c" by (simp add: copy_alloc_def gth_allocators_def)
  have z: "copy_size 0 0 0 = 32"
    by (simp add: copy_size_def gc_thread_aligned_normal_size_def gc_thread_obj_size_def gc_line_align_def)
  have "gq_holds 0x1000 {0x100} (ex_claim s) 0 []"
    by (simp add: gq_holds_def ex_claim_def ex_closure_def onext_def)
  moreover have "claim_room 0x1000 (copy_size 0 0 0) 0x4000 (ex_claim s)"
    by (simp add: claim_room_def z n Let_def header_mapped_def ex_claim_def gc_unclaimed_def)
  moreover have "claim_apart 0x1000 {0x100} 0x100 0x300 0x4000"
    by (simp add: claim_apart_def n Let_def claim_writes_def)
  moreover have "gc_collection_count (ex_claim s) = 0" "gc_num_generations (ex_claim s) = 2" by (simp_all add: ex_claim_def)
  ultimately show ?thesis using ex_claim_object [of s] by (simp add: claim_ready_def old_object_def)
qed

lemma claim_moves_once_witness:
  "\<forall>(E :: gc_thread_state gc_thread_env) s. returns (gc_thread_claim E 0x1000 0x100 3 True (ex_claim s, []))
    (\<lambda>r c. r = 0x4000 \<and> gth_head (the (gc_closures (fst c) 0x1000)) = 0x100)"
proof (intro allI)
  fix E :: "gc_thread_state gc_thread_env" and s
  show "returns (gc_thread_claim E 0x1000 0x100 3 True (ex_claim s, []))
    (\<lambda>r c. r = 0x4000 \<and> gth_head (the (gc_closures (fst c) 0x1000)) = 0x100)"
    by (rule returns_mono [OF claim_moves_once [OF ex_claim_ready]]) (auto simp: gq_holds_def split: option.splits)
qed

lemma copy_has_type_witness:
  "\<forall>(E :: gc_thread_state gc_thread_env) s. returns (gc_thread_claim E 0x1000 0x100 3 True (ex_claim s, []))
    (\<lambda>r c. gives (gc_header_type r c) 0x300)"
proof (intro allI)
  fix E :: "gc_thread_state gc_thread_env" and s
  show "returns (gc_thread_claim E 0x1000 0x100 3 True (ex_claim s, [])) (\<lambda>r c. gives (gc_header_type r c) 0x300)"
    by (rule returns_mono [OF copy_has_type [OF ex_claim_ready]]) simp
qed

lemma claim_without_moving_witness:
  "\<forall>(E :: gc_thread_state gc_thread_env) s. gc_thread_claim E 0x1000 0x100 3 False ((ex_claim s)\<lparr>gc_collection_count := 1\<rparr>, []) =
    Some (NOT 0, ((ex_claim s)\<lparr>gc_collection_count := 1\<rparr>, []))"
proof (intro allI)
  fix E :: "gc_thread_state gc_thread_env" and s
  have "object_at 0x100 (NOT 0) 0x300 0 0 0 0 ((ex_claim s)\<lparr>gc_collection_count := 1\<rparr>)"
    using ex_claim_object [of s] by (simp add: object_at_def gc_unclaimed_def)
  from claim_without_moving [OF this, of 3]
  show "gc_thread_claim E 0x1000 0x100 3 False ((ex_claim s)\<lparr>gc_collection_count := 1\<rparr>, []) =
    Some (NOT 0, ((ex_claim s)\<lparr>gc_collection_count := 1\<rparr>, []))"
    by (simp add: gc_unclaimed_def old_object_def)
qed

end
