(* ===== verification/GC_Copy.thy ===== *)
theory GC_Copy
  imports GC_Thread
begin

unbundle bit_operations_syntax

section \<open>Copying bytes\<close>

text \<open>
  A byte is a part of a word: storing one leaves the others. With this the copy of a region
  has the bytes of its source, and checking it ends, whatever finite interference there is.
\<close>

subsection \<open>Checking ends\<close>

lemma byte_in_word:
  assumes "k \<le> (24 :: nat)"
  shows "ucast (drop_bit k ((w AND NOT (push_bit k 0xff)) OR push_bit k (ucast (v :: u8)) :: u32)) = v"
proof -
  have ff: "(0xff :: u32) = mask 8" by (simp add: mask_eq_exp_minus_1)
  show ?thesis unfolding ff
    by (rule bit_word_eqI) (use assms in \<open>auto simp: bit_simps\<close>)
qed

lemma byte_beside:
  assumes "k + 8 \<le> j \<or> j + 8 \<le> (k :: nat)" "j \<le> 24"
  shows "(ucast (drop_bit j ((w AND NOT (push_bit k 0xff)) OR push_bit k (ucast (v :: u8)) :: u32)) :: u8) = ucast (drop_bit j w)"
proof -
  have ff: "(0xff :: u32) = mask 8" by (simp add: mask_eq_exp_minus_1)
  show ?thesis unfolding ff
    by (rule bit_word_eqI) (use assms in \<open>auto simp: bit_simps dest: bit_imp_le_length\<close>)
qed

text \<open>The word of a byte, and where in the word it is.\<close>

definition word_of :: "ptr \<Rightarrow> ptr" where "word_of p = p AND NOT 3"
definition place_of :: "ptr \<Rightarrow> nat" where "place_of p = 8 * unat (p AND 3)"

lemma place_of_le: "place_of p \<le> 24"
proof -
  have "p AND 3 \<le> 3" by (rule word_and_le1)
  then have "unat (p AND 3) \<le> 3" by (simp add: word_le_nat_alt)
  then show ?thesis by (simp add: place_of_def)
qed

lemma places_apart:
  assumes "word_of p = word_of q" "p \<noteq> q"
  shows "place_of p + 8 \<le> place_of q \<or> place_of q + 8 \<le> place_of p"
proof -
  have "p = (p AND NOT 3) OR (p AND 3)" "q = (q AND NOT 3) OR (q AND 3)"
    by (simp_all flip: bit.conj_disj_distrib)
  then have "p AND 3 \<noteq> q AND 3" using assms by (metis word_of_def)
  then have "unat (p AND 3) \<noteq> unat (q AND 3)" by (metis word_unat_eq_iff)
  then show ?thesis by (auto simp: place_of_def)
qed

lemma byte_load:
  "load (byte_loc p) s = map_option (\<lambda>w. ucast (drop_bit (place_of p) w)) (load (word_loc (word_of p)) s)"
  by (simp add: byte_loc_def place_of_def word_of_def Let_def)

lemma byte_store:
  "store (byte_loc p) v s = store (word_loc (word_of p))
     ((the (load (word_loc (word_of p)) s) AND NOT (push_bit (place_of p) 0xff)) OR push_bit (place_of p) (ucast v)) s"
  by (simp add: byte_loc_def place_of_def word_of_def Let_def)

lemma byte_load_store:
  assumes "load (byte_loc p) s \<noteq> None"
  shows "load (byte_loc q) (store (byte_loc p) v s) = (if q = p then Some v else load (byte_loc q) s)"
proof (cases "word_of q = word_of p")
  case True
  obtain w where w: "load (word_loc (word_of p)) s = Some w" using assms by (auto simp: byte_load)
  then have n: "word_of p \<noteq> NULL" "words s (word_of p) = Some w" by (simp_all split: if_splits)
  show ?thesis
  proof (cases "q = p")
    case True
    then show ?thesis using n byte_in_word [OF place_of_le] by (simp add: byte_load byte_store)
  next
    case False
    with True have "place_of p + 8 \<le> place_of q \<or> place_of q + 8 \<le> place_of p"
      by (metis places_apart)
    from byte_beside [OF this place_of_le] n True False show ?thesis by (simp add: byte_load byte_store)
  qed
next
  case False
  then have "q \<noteq> p" by auto
  with False show ?thesis using assms by (auto simp: byte_load byte_store)
qed

lemma copy_until_ends:
  assumes "snd c = [] \<or> env_inv I c" "I (fst c)"
    and safe: "\<And>s. I s \<Longrightarrow> load dst s \<noteq> None \<and> load src s \<noteq> None"
    and keep: "\<And>s v. I s \<Longrightarrow> I (store dst v s)"
    and upd: "\<And>s v. I s \<Longrightarrow> load dst (store dst v s) = Some v"
    and upd': "\<And>s v. I s \<Longrightarrow> load src (store dst v s) = (if dst = src then Some v else load src s)"
  shows "returns (gc_copy_until dst src c) (\<lambda>_ c'. I (fst c') \<and> env_inv I c' \<and>
    (snd c = [] \<longrightarrow> snd c' = [] \<and> (load dst (fst c) = load src (fst c) \<and> fst c' = fst c \<or>
      fst c' = store dst (the (load src (fst c))) (fst c))))"
  using assms(1,2)
proof (induction "length (snd c)" arbitrary: c rule: less_induct)
  case less
  note one = gc_copy_until.simps [of dst src c]
  show ?case
  proof (cases "snd c = []")
    case True
    then obtain s where c: "c = (s, [])" by (cases c) auto
    obtain d v where dv: "load dst s = Some d" "load src s = Some v" using safe less.prems c by fastforce
    show ?thesis
    proof (cases "d = v")
      case True
      then show ?thesis using less.prems dv unfolding c one [unfolded c] by (simp add: rd_def)
    next
      case False
      then have "dst \<noteq> src" using dv by auto
      then have "load src (store dst v s) = Some v" "load dst (store dst v s) = Some v" "I (store dst v s)"
        using upd' upd keep less.prems(2) dv c by auto
      then show ?thesis using dv False unfolding c one [unfolded c]
        by (simp add: rd_def wr_def gc_copy_until.simps [of dst src "(store dst v s, [])"])
    qed
  next
    case False
    define c1 where "c1 = interfere c"
    define c2 where "c2 = interfere c1"
    define c3 where "c3 = interfere c2"
    define c4 where "c4 = interfere c3"
    have inv: "env_inv I c" using False less.prems(1) by simp
    have step: "I (fst (interfere e)) \<and> env_inv I (interfere e)" if "I (fst e)" "env_inv I e" for e
      using env_to_inv [OF env_to_interfere that(2,1)] .
    have i1: "I (fst c1)" "env_inv I c1" using step [OF less.prems(2) inv] by (simp_all add: c1_def)
    have i2: "I (fst c2)" "env_inv I c2" using step [OF i1] by (simp_all add: c2_def)
    have i3: "I (fst c3)" "env_inv I c3" using step [OF i2] by (simp_all add: c3_def)
    have i4: "I (fst c4)" "env_inv I c4" using step [OF i3] by (simp_all add: c4_def)
    have "length (snd c4) < length (snd c)"
      using False by (simp add: c4_def c3_def c2_def c1_def length_interfere)
    moreover have "env_inv I (store dst v (fst c4), snd c4)" for v using i4(2) by (simp add: env_inv_def)
    ultimately have again: "returns (gc_copy_until dst src (store dst v (fst c4), snd c4)) (\<lambda>_ c'. I (fst c') \<and> env_inv I c')" for v
      using less.hyps [of "(store dst v (fst c4), snd c4)"] keep [OF i4(1)] by (auto elim: returns_mono)
    obtain d where "load dst (fst c1) = Some d" using safe [OF i1(1)] by auto
    moreover obtain v where "load src (fst c2) = Some v" using safe [OF i2(1)] by auto
    moreover obtain v' where "load src (fst c3) = Some v'" using safe [OF i3(1)] by auto
    moreover obtain d' where "load dst (fst c4) = Some d'" using safe [OF i4(1)] by auto
    ultimately show ?thesis using False i2 again unfolding one
      by (simp add: wp flip: c1_def c2_def c3_def c4_def)
  qed
qed

text \<open>The bytes of both regions are in memory; the first \<open>n\<close> bytes of \<open>dst\<close> in \<open>t\<close> are those of \<open>src\<close> in \<open>s\<close>.\<close>

definition regions_mapped :: "ptr \<Rightarrow> ptr \<Rightarrow> nat \<Rightarrow> 'a slice_state_scheme \<Rightarrow> bool" where
  "regions_mapped dst src n s \<longleftrightarrow>
     (\<forall>i<n. load (byte_loc (dst + of_nat i)) s \<noteq> None \<and> load (byte_loc (src + of_nat i)) s \<noteq> None)"

definition regions_apart :: "ptr \<Rightarrow> ptr \<Rightarrow> nat \<Rightarrow> bool" where
  "regions_apart dst src n \<longleftrightarrow> (\<forall>i<n. \<forall>j<n. dst + of_nat i \<noteq> src + of_nat j)"

definition region_copied :: "ptr \<Rightarrow> ptr \<Rightarrow> nat \<Rightarrow> 'a slice_state_scheme \<Rightarrow> 'a slice_state_scheme \<Rightarrow> bool" where
  "region_copied dst src n s t \<longleftrightarrow>
     (\<forall>i<n. load (byte_loc (dst + of_nat i)) t = load (byte_loc (src + of_nat i)) s) \<and>
     (\<forall>q. (\<forall>i<n. q \<noteq> dst + of_nat i) \<longrightarrow> load (byte_loc q) t = load (byte_loc q) s)"

lemma mapped_store:
  assumes "regions_mapped dst src n s" "i < n"
  shows "regions_mapped dst src n (store (byte_loc (dst + of_nat i)) v s)"
proof -
  have "load (byte_loc (dst + of_nat i)) s \<noteq> None" using assms by (simp add: regions_mapped_def)
  from byte_load_store [OF this] show ?thesis using assms(1) by (simp add: regions_mapped_def)
qed

lemma copied_step:
  assumes c: "region_copied dst src j s t" and j: "j < n" "n < 2 ^ 32"
    and m: "regions_mapped dst src n t" and a: "regions_apart dst src n"
    and u: "u = t \<and> load (byte_loc (dst + of_nat j)) t = load (byte_loc (src + of_nat j)) t \<or>
      u = store (byte_loc (dst + of_nat j)) (the (load (byte_loc (src + of_nat j)) t)) t"
  shows "region_copied dst src (Suc j) s u"
proof -
  let ?d = "dst + of_nat j" and ?s = "src + of_nat j"
  have md: "load (byte_loc ?d) t \<noteq> None" "load (byte_loc ?s) t \<noteq> None"
    using m j by (simp_all add: regions_mapped_def)
  have s: "load (byte_loc ?s) t = load (byte_loc ?s) s"
  proof -
    have "\<forall>i<j. src + of_nat j \<noteq> dst + of_nat i" using a j unfolding regions_apart_def by (metis less_trans)
    then show ?thesis using c unfolding region_copied_def by blast
  qed
  have new: "load (byte_loc q) u = (if q = ?d then load (byte_loc ?s) t else load (byte_loc q) t)" for q
    using u
  proof
    assume "u = store (byte_loc ?d) (the (load (byte_loc ?s) t)) t"
    with byte_load_store [OF md(1)] md(2) show ?thesis by force
  qed simp
  have other: "dst + of_nat i \<noteq> ?d" if "i < j" for i
  proof -
    have "(of_nat i :: u32) \<noteq> of_nat j" using that j by (simp add: word_of_nat_eq_iff take_bit_nat_eq_self)
    then show ?thesis by simp
  qed
  show ?thesis unfolding region_copied_def
  proof (intro conjI allI impI)
    fix i assume "i < Suc j"
    then consider "i < j" | "i = j" by linarith
    then show "load (byte_loc (dst + of_nat i)) u = load (byte_loc (src + of_nat i)) s"
      by cases (use c s new other in \<open>simp_all add: region_copied_def\<close>)
  next
    fix q assume "\<forall>i<Suc j. q \<noteq> dst + of_nat i"
    then have "\<forall>i<j. q \<noteq> dst + of_nat i" "q \<noteq> ?d" by simp_all
    then show "load (byte_loc q) u = load (byte_loc q) s" using c new unfolding region_copied_def by simp
  qed
qed

text \<open>One byte of the loop, where \<open>fs\<close> is what the others do from the first byte on.\<close>

lemma copied_byte:
  fixes s :: "'a gc_thread_state_scheme"
  assumes I: "I = (regions_mapped dst src n :: 'a gc_thread_state_scheme \<Rightarrow> bool)" and j: "j < n" "n < 2 ^ 32"
    and apart: "regions_apart dst src n"
    and P: "I (fst c) \<and> env_inv I c \<and> (fs = [] \<longrightarrow> snd c = [] \<and> region_copied dst src j s (fst c))"
  shows "returns (gc_copy_until (byte_loc (dst + of_nat j)) (byte_loc (src + of_nat j)) c) (\<lambda>_ c'.
    I (fst c') \<and> env_inv I c' \<and> (fs = [] \<longrightarrow> snd c' = [] \<and> region_copied dst src (Suc j) s (fst c')))"
proof -
  let ?d = "byte_loc (dst + of_nat j) :: ('a gc_thread_state_scheme, u8) loc"
  let ?s = "byte_loc (src + of_nat j) :: ('a gc_thread_state_scheme, u8) loc"
  have m: "load ?d t \<noteq> None \<and> load ?s t \<noteq> None" if "I t" for t using that j I by (simp add: regions_mapped_def)
  have keep: "I (store ?d v t)" if "I t" for v t using mapped_store [OF _ j(1)] that I by blast
  have "returns (gc_copy_until ?d ?s c) (\<lambda>_ c'. I (fst c') \<and> env_inv I c' \<and>
    (snd c = [] \<longrightarrow> snd c' = [] \<and> (load ?d (fst c) = load ?s (fst c) \<and> fst c' = fst c \<or>
      fst c' = store ?d (the (load ?s (fst c))) (fst c))))"
  proof (rule copy_until_ends)
    fix t v
    assume It: "I t"
    show "load ?d t \<noteq> None \<and> load ?s t \<noteq> None" by (rule m [OF It])
    show "I (store ?d v t)" by (rule keep [OF It])
    have d: "load ?d t \<noteq> None" using m [OF It] by simp
    show "load ?d (store ?d v t) = Some v" using byte_load_store [OF d] by simp
    show "load ?s (store ?d v t) = (if ?d = ?s then Some v else load ?s t)"
      using byte_load_store [OF d, of "src + of_nat j" v] \<open>load ?d (store ?d v t) = Some v\<close> by auto
  qed (use P in auto)
  moreover have "region_copied dst src (Suc j) s u" if "fs = []"
    "load ?d (fst c) = load ?s (fst c) \<and> u = fst c \<or> u = store ?d (the (load ?s (fst c))) (fst c)" for u
    by (rule copied_step [OF _ j _ apart]) (use P that I in auto)
  ultimately show ?thesis using P by (auto elim!: returns_mono)
qed

text \<open>
  C28 [check_scalar]. Checking an array of scalars ends whatever finite interference there
  is, as long as both arrays stay in memory and are apart, as \<open>restrict\<close> promises; without
  interference the destination holds the source afterwards and no other byte has changed.
\<close>

theorem check_scalar_array_ends:
  fixes s :: "'a gc_thread_state_scheme" and num sz :: u32
  defines "n \<equiv> unat (num * sz)"
  assumes "regions_mapped dst src n s" "regions_apart dst src n" "env_inv (regions_mapped dst src n) (s, fs)"
  shows "returns (gc_thread_check_scalar_array dst src num sz (s, fs))
    (\<lambda>_ c. regions_mapped dst src n (fst c) \<and> (fs = [] \<longrightarrow> region_copied dst src n s (fst c)))"
proof -
  let ?I = "regions_mapped dst src n :: 'a gc_thread_state_scheme \<Rightarrow> bool"
  let ?P = "\<lambda>j c. ?I (fst c) \<and> env_inv ?I c \<and> (fs = [] \<longrightarrow> snd c = [] \<and> region_copied dst src j s (fst c))"
  have n: "n < 2 ^ 32" using unsigned_less [of "num * sz", where 'a = nat] by (simp add: n_def)
  have "?P 0 (s, fs)" using assms(2,4) by (simp add: region_copied_def)
  then have "returns (gc_thread_check_scalar_array dst src num sz (s, fs)) (\<lambda>_ c'. ?P n c')"
    unfolding gc_thread_check_scalar_array_def n_def [symmetric]
    by (intro foreach_rule [of 0 n ?P] copied_byte [OF refl _ n assms(3)]) auto
  then show ?thesis by (rule returns_mono) simp
qed

lemma check_scalar_array_ends_witness:
  "\<forall>s :: gc_thread_state. returns (gc_thread_check_scalar_array 0x100 0x200 2 2 (s\<lparr>words := (\<lambda>p. Some p)\<rparr>, []))
    (\<lambda>_ c. load (byte_loc 0x101) (fst c) = Some 2 \<and> load (byte_loc 0x102) (fst c) = Some 0)"
proof
  fix s :: gc_thread_state
  let ?s = "s\<lparr>words := (\<lambda>p. Some p)\<rparr>"
  have bytes: "(\<forall>i<unat ((2 :: u32) * 2). P i) \<longleftrightarrow> P 0 \<and> P 1 \<and> P 2 \<and> P 3" for P :: "nat \<Rightarrow> bool"
  proof -
    have "unat ((2 :: u32) * 2) = Suc (Suc (Suc (Suc 0)))" by simp
    then show ?thesis unfolding One_nat_def numeral_2_eq_2 numeral_3_eq_3 by (auto simp only: less_Suc_eq less_nat_zero_code)
  qed
  have "regions_mapped 0x100 0x200 (unat ((2 :: u32) * 2)) ?s"
    unfolding regions_mapped_def bytes by (simp add: byte_load word_of_def)
  moreover have "regions_apart 0x100 0x200 (unat ((2 :: u32) * 2))"
    unfolding regions_apart_def bytes by simp
  ultimately show "returns (gc_thread_check_scalar_array 0x100 0x200 2 2 (?s, []))
    (\<lambda>_ c. load (byte_loc 0x101) (fst c) = Some 2 \<and> load (byte_loc 0x102) (fst c) = Some 0)"
    using check_scalar_array_ends [of "0x100" "0x200" 2 2 ?s "[]"] unfolding region_copied_def bytes
    by (auto simp: byte_load word_of_def place_of_def elim!: returns_mono)
qed

subsection \<open>Copying\<close>

lemma byte_store_words: "\<exists>w. store (byte_loc p) v s = s\<lparr>words := w\<rparr>"
  by (simp add: byte_store) blast

lemma memcpy_quiet:
  fixes s :: "'a slice_state_scheme"
  assumes "regions_mapped dst src (unat n) s" "regions_apart dst src (unat n)"
  shows "returns (gc_memcpy dst src n (s, []))
    (\<lambda>_ c. snd c = [] \<and> region_copied dst src (unat n) s (fst c) \<and> (\<exists>w. fst c = s\<lparr>words := w\<rparr>))"
proof -
  let ?P = "\<lambda>j (c :: 'a slice_state_scheme conc). snd c = [] \<and> regions_mapped dst src (unat n) (fst c) \<and> region_copied dst src j s (fst c) \<and>
    (\<exists>w. fst c = s\<lparr>words := w\<rparr>)"
  have n: "unat n < 2 ^ 32" using unsigned_less [of n, where 'a = nat] by simp
  have step: "returns (do { (b, c) \<leftarrow> rd (byte_loc (src + of_nat j)) c; wr (byte_loc (dst + of_nat j)) b c }) (\<lambda>_ c. ?P (Suc j) c)"
    if j: "j < unat n" and P: "?P j c" for j c
  proof -
    obtain t where c: "c = (t, [])" using P by (cases c) auto
    have m: "regions_mapped dst src (unat n) t" using P c by simp
    then obtain b d where b: "load (byte_loc (src + of_nat j)) t = Some b" "load (byte_loc (dst + of_nat j)) t = Some d"
      using j by (auto simp: regions_mapped_def)
    let ?u = "store (byte_loc (dst + of_nat j)) b t"
    have "regions_mapped dst src (unat n) ?u" by (rule mapped_store [OF m j])
    moreover have "region_copied dst src (Suc j) s ?u"
      using P c b by (intro copied_step [OF _ j n m assms(2)]) auto
    moreover have "\<exists>w. ?u = s\<lparr>words := w\<rparr>" using P c byte_store_words [of "dst + of_nat j" b t] by auto
    ultimately show ?thesis using b by (simp add: c wp)
  qed
  have "?P 0 (s, [])" using assms by (auto simp: region_copied_def intro: exI [of _ "words s"])
  then have "returns (gc_memcpy dst src n (s, [])) (\<lambda>_ c. ?P (unat n) c)"
    unfolding gc_memcpy_def by (intro foreach_rule [of 0 "unat n" ?P]) (use step in auto)
  then show ?thesis by (rule returns_mono) simp
qed

end
