(* ===== verification/Generations.thy ===== *)
theory Generations
  imports GC_Cycle GC_Copy
begin

unbundle bit_operations_syntax

section \<open>Generations and barriers\<close>

text \<open>
  The sawtooth of generations, as \<open>gc_thread_get_gen\<close> gives it, and what the final barrier of a
  collection leaves of it.
\<close>

subsection \<open>Generations\<close>

text \<open>The generations of \<open>k\<close> collections one after the other, as \<open>gc_thread_get_gen\<close> gives them.\<close>

fun generations :: "nat \<Rightarrow> 'a gc_conc \<Rightarrow> (u32 list \<times> 'a gc_conc) option" where
  "generations 0 c = Some ([], c)"
| "generations (Suc k) c = do { (g, c) \<leftarrow> gc_thread_get_gen c; (gs, c) \<leftarrow> generations k c; Some (g # gs, c) }"

lemma get_gen_below:
  assumes "gc_thread_next_gen s < ucast (gc_thread_peak_gen s)"
  shows "gc_thread_get_gen (s, []) =
    Some (gc_thread_next_gen s, (s\<lparr>gc_thread_next_gen := gc_thread_next_gen s + 1\<rparr>, []))"
  using assms by (simp add: gc_thread_get_gen_def rd_def wr_def)

lemma get_gen_peak:
  assumes "gc_thread_next_gen s = ucast (gc_thread_peak_gen s)"
  shows "gc_thread_get_gen (s, []) = Some (gc_thread_next_gen s, (s\<lparr>gc_thread_peak_gen :=
    (if gc_thread_next_gen s < gc_num_generations s then gc_thread_peak_gen s + 1 else 1), gc_thread_next_gen := 1\<rparr>, []))"
  using assms by (simp add: gc_thread_get_gen_def rd_def wr_def)

lemma generations_tooth:
  assumes "gc_thread_peak_gen s = peak" "gc_num_generations s = num" "k < unat peak"
    "gc_thread_next_gen s = of_nat (unat peak - k)"
  shows "generations (Suc k) (s, []) = Some (map of_nat [unat peak - k..<Suc (unat peak)],
    (s\<lparr>gc_thread_peak_gen := (if ucast peak < num then peak + 1 else 1), gc_thread_next_gen := 1\<rparr>, []))"
  using assms
proof (induction k arbitrary: s)
  case 0
  have "(of_nat (unat peak) :: u32) = ucast peak" by (simp add: unsigned_ucast_eq of_nat_unat)
  then show ?case using 0 by (simp add: get_gen_peak)
next
  case (Suc k)
  let ?t = "s\<lparr>gc_thread_next_gen := gc_thread_next_gen s + 1\<rparr>"
  have p: "unat peak < 256" using unsigned_less [of peak, where 'a = nat] by simp
  then have "unat peak - Suc k < 2 ^ 32" by simp
  then have "unat (of_nat (unat peak - Suc k) :: u32) = unat peak - Suc k"
    by (simp only: unsigned_of_nat of_nat_id) (rule take_bit_nat_eq_self, simp)
  moreover have "unat (ucast peak :: u32) = unat peak" using p by (simp add: unsigned_ucast_eq take_bit_nat_eq_self)
  ultimately have lt: "gc_thread_next_gen s < ucast (gc_thread_peak_gen s)"
    using Suc.prems(3) unfolding word_less_nat_alt Suc.prems(1,4) by linarith
  have "Suc (unat peak - Suc k) = unat peak - k" using Suc.prems(3) by simp
  then have "gc_thread_next_gen s + 1 = of_nat (unat peak - k)" unfolding Suc.prems(4) by (metis of_nat_Suc add.commute)
  then have "generations (Suc k) (?t, []) = Some (map of_nat [unat peak - k..<Suc (unat peak)],
    (?t\<lparr>gc_thread_peak_gen := (if ucast peak < num then peak + 1 else 1), gc_thread_next_gen := 1\<rparr>, []))"
    using Suc.prems by (intro Suc.IH) simp_all
  moreover have "[unat peak - Suc k..<Suc (unat peak)] = (unat peak - Suc k) # [unat peak - k..<Suc (unat peak)]"
    using Suc.prems(3) by (subst upt_conv_Cons) (simp_all add: Suc_diff_Suc)
  moreover have "generations (Suc (Suc k)) (s, []) =
    do { (gs, c) \<leftarrow> generations (Suc k) (?t, []); Some (gc_thread_next_gen s # gs, c) }"
    by (subst generations.simps(2)) (simp add: get_gen_below [OF lt] del: generations.simps)
  ultimately show ?case using Suc.prems(4) by (simp del: generations.simps upt_Suc)
qed

text \<open>
  Left alone, \<open>gc_thread_get_gen\<close> gives a tooth of generations: from the
  first up to the peak, one for each collection, and then starts again with a peak one
  higher, or with a peak of one when the peak was the number of generations.
\<close>

theorem sawtooth:
  assumes "gc_thread_next_gen s = 1" "gc_thread_peak_gen s = peak" "peak \<noteq> 0"
  shows "generations (unat peak) (s, []) = Some (map of_nat [1..<Suc (unat peak)],
    (s\<lparr>gc_thread_peak_gen := (if ucast peak < gc_num_generations s then peak + 1 else 1), gc_thread_next_gen := 1\<rparr>, []))"
proof -
  have "unat peak \<noteq> 0" using assms(3) by (metis unat_eq_zero)
  then show ?thesis using generations_tooth [of s peak _ "unat peak - 1"] assms by simp
qed

lemma sawtooth_witness:
  "\<forall>s :: gc_thread_state. map_option fst (generations 3 (s\<lparr>gc_thread_next_gen := 1, gc_thread_peak_gen := 3\<rparr>, [])) = Some [1, 2, 3]"
proof
  fix s :: gc_thread_state
  have "[1..<4] = [1, 2, 3 :: nat]" by (simp add: upt_conv_Cons)
  then show "map_option fst (generations 3 (s\<lparr>gc_thread_next_gen := 1, gc_thread_peak_gen := 3\<rparr>, [])) = Some [1, 2, 3]"
    using sawtooth [of "s\<lparr>gc_thread_next_gen := 1, gc_thread_peak_gen := 3\<rparr>" 3] by simp
qed

subsection \<open>The final barrier\<close>

lemma no_slices [simp]: "for_slices 1 f c = Some ((), c)"
proof -
  have "foreach (\<lambda>i. foreach (f i) [0..<unat ((1 :: u32) - 1)]) xs c = Some ((), c)" for xs
    by (induction xs) simp_all
  then show ?thesis by (simp add: for_slices_def)
qed









end
