(* ===== verification/OS_DL.thy ===== *)
theory OS_DL
  imports Prelude
begin

section \<open>Dynamic loading (\<open>src/os/posix/os_dl.c\<close>, \<open>src/os/freebsd/os_dl.c\<close>)\<close>

text \<open>
  The wrappers of the dynamic loader, for POSIX and for FreeBSD, where a library is looked for in two
  directories only. The state is the list of the calls that have been made of the loader and of
  \<open>stat\<close>, the last one first; their answers are arguments that may depend on all of it. A string is
  \<open>None\<close> where the pointer is NULL. \<open>os_dl.h\<close>, which declares \<open>dl_result_t\<close>, is not in the repository;
  the fields are those the files use. The FreeBSD file does not compile (two statements lack a
  semicolon, two constants are misspelt); it is modelled as it is meant.
\<close>

datatype dl_mode = RTLD_LAZY | RTLD_LOCAL | RTLD_GLOBAL

datatype dl_call = Dlopen string "dl_mode set" | Dlsym ptr string | Dlclose ptr | Dlerror | Stat string

record dl_env =
  env_dlopen :: "dl_call list \<Rightarrow> ptr"
  env_dlsym :: "dl_call list \<Rightarrow> ptr"
  env_dlerror :: "dl_call list \<Rightarrow> string option"
  env_stat :: "dl_call list \<Rightarrow> 32 word"

record dl_result_t =
  dl_addr :: ptr
  dl_error :: "string option"

subsection \<open>POSIX\<close>

definition os_dlopen :: "dl_env \<Rightarrow> string \<Rightarrow> dl_call list \<Rightarrow> dl_result_t \<times> dl_call list" where
  "os_dlopen E name l =
     (let l = Dlopen name {RTLD_LAZY, RTLD_LOCAL} # l;
          addr = env_dlopen E l;
          l = Dlerror # l
      in (\<lparr>dl_addr = addr, dl_error = env_dlerror E l\<rparr>, l))"

definition os_dlsym :: "dl_env \<Rightarrow> ptr \<Rightarrow> string \<Rightarrow> dl_call list \<Rightarrow> dl_result_t \<times> dl_call list" where
  "os_dlsym E dlib name l =
     (let l = Dlsym dlib name # l;
          addr = env_dlsym E l;
          l = Dlerror # l
      in (\<lparr>dl_addr = addr, dl_error = env_dlerror E l\<rparr>, l))"

definition os_dlclose :: "dl_env \<Rightarrow> ptr \<Rightarrow> dl_call list \<Rightarrow> string option \<times> dl_call list" where
  "os_dlclose E dlib l = (let l = Dlerror # Dlclose dlib # l in (env_dlerror E l, l))"

subsection \<open>FreeBSD\<close>

definition dl_paths :: "string list" where
  "dl_paths = [''/lib/'', ''/usr/lib/'']"

definition dl_file :: "string \<Rightarrow> string \<Rightarrow> string" where
  "dl_file path name = path @ name @ ''.so''"

text \<open>The size of \<open>strbuf\<close>.\<close>

definition dl_buffer :: "string \<Rightarrow> nat" where
  "dl_buffer name = (length ''/usr/lib/'' + length ''.so'' + 1) + length name"

fun os_dlopen_paths ::
  "dl_env \<Rightarrow> string \<Rightarrow> string list \<Rightarrow> dl_result_t \<Rightarrow> dl_call list \<Rightarrow> dl_result_t \<times> dl_call list" where
  "os_dlopen_paths E name [] out l = (out, l)"
| "os_dlopen_paths E name (path # paths) out l =
     (let strbuf = dl_file path name;
          l = Stat strbuf # l
      in if env_stat E l = 0 then
           let l = Dlopen strbuf {RTLD_LAZY, RTLD_GLOBAL} # l;
               addr = env_dlopen E l;
               l = Dlerror # l;
               out = \<lparr>dl_addr = addr, dl_error = env_dlerror E l\<rparr>
           in if dl_error out = None then (out, l) else os_dlopen_paths E name paths out l
         else os_dlopen_paths E name paths out l)"

definition os_dlopen_freebsd :: "dl_env \<Rightarrow> string \<Rightarrow> dl_call list \<Rightarrow> dl_result_t \<times> dl_call list" where
  "os_dlopen_freebsd E name l =
     os_dlopen_paths E name dl_paths \<lparr>dl_addr = NULL, dl_error = Some ''No library found on acceptable search paths''\<rparr> l"

definition os_dlsym_freebsd :: "dl_env \<Rightarrow> ptr \<Rightarrow> string \<Rightarrow> dl_call list \<Rightarrow> dl_result_t \<times> dl_call list" where
  "os_dlsym_freebsd E dlib name l =
     (let l = Dlsym dlib name # l;
          addr = env_dlsym E l;
          l = Dlerror # l
      in (\<lparr>dl_addr = addr, dl_error = env_dlerror E l\<rparr>, l))"

definition os_dlclose_freebsd :: "dl_env \<Rightarrow> ptr \<Rightarrow> dl_call list \<Rightarrow> string option \<times> dl_call list" where
  "os_dlclose_freebsd E dlib l = (let l = Dlerror # Dlclose dlib # l in (env_dlerror E l, l))"

subsection \<open>Errors\<close>

text \<open>
  What POSIX says of \<open>dlerror\<close>: it tells of the last failure since it was asked before, and NULL if
  there was none. A call of \<open>dlopen\<close> fails exactly when it returns NULL. \<open>pending E l\<close> is what it would say now.
\<close>

abbreviation pending :: "dl_env \<Rightarrow> dl_call list \<Rightarrow> string option" where
  "pending E l \<equiv> env_dlerror E (Dlerror # l)"

definition dlerror_documented :: "dl_env \<Rightarrow> bool" where
  "dlerror_documented E \<longleftrightarrow> pending E [] = None \<and> (\<forall>l. pending E (Dlerror # l) = None) \<and>
     (\<forall>file l. pending E (Stat file # l) = pending E l) \<and>
     (\<forall>file mode l. let l' = Dlopen file mode # l in
        if env_dlopen E l' = NULL then pending E l' \<noteq> None else pending E l' = pending E l)"

text \<open>Every routine fetches the error it may cause, so none is pending between them.\<close>

lemma nothing_pending:
  assumes "dlerror_documented E"
  shows "pending E (snd (os_dlopen E name l)) = None" "pending E (snd (os_dlsym E dlib name l)) = None"
    "pending E (snd (os_dlclose E dlib l)) = None"
  using assms by (simp_all add: dlerror_documented_def os_dlopen_def os_dlsym_def os_dlclose_def Let_def)

lemma dlopen_reports:
  assumes "dlerror_documented E" "pending E l = None"
  shows "dl_error (fst (os_dlopen E name l)) = None \<longleftrightarrow> dl_addr (fst (os_dlopen E name l)) \<noteq> NULL"
  using assms by (auto simp: dlerror_documented_def os_dlopen_def Let_def)

lemma dlopen_paths_report:
  assumes E: "dlerror_documented E"
  shows "pending E l = None \<Longrightarrow> (dl_error out = None \<longleftrightarrow> dl_addr out \<noteq> NULL) \<Longrightarrow>
    (case os_dlopen_paths E name paths out l of (r, l') \<Rightarrow>
      (dl_error r = None \<longleftrightarrow> dl_addr r \<noteq> NULL) \<and> pending E l' = None)"
proof (induction paths arbitrary: out l)
  case (Cons path paths)
  let ?f = "dl_file path name"
  let ?l = "Dlopen ?f {RTLD_LAZY, RTLD_GLOBAL} # Stat ?f # l"
  let ?r = "\<lparr>dl_addr = env_dlopen E ?l, dl_error = pending E ?l\<rparr>"
  have s: "pending E (Stat ?f # l) = None" "pending E (Dlerror # ?l) = None"
    using E Cons.prems(1) unfolding dlerror_documented_def by auto
  have "dl_error ?r = None \<longleftrightarrow> dl_addr ?r \<noteq> NULL"
    using E s(1) unfolding dlerror_documented_def Let_def by (metis dl_result_t.select_convs)
  with Cons.IH [OF s(2), of ?r] Cons.IH [OF s(1) Cons.prems(2)] s(2) show ?case
    by (auto simp: Let_def)
qed simp

text \<open>
  Where the loader behaves as documented, both versions of \<open>os_dlopen\<close> return NULL for the error exactly
  when they return an address, and what \<open>sprintf\<close> writes for any of the paths fits \<open>strbuf\<close>.
\<close>

theorem dlopen_error_or_address:
  assumes "dlerror_documented E" "pending E l = None"
  shows "(dl_error (fst (os_dlopen E name l)) = None \<longleftrightarrow> dl_addr (fst (os_dlopen E name l)) \<noteq> NULL) \<and>
    (dl_error (fst (os_dlopen_freebsd E name l)) = None \<longleftrightarrow> dl_addr (fst (os_dlopen_freebsd E name l)) \<noteq> NULL) \<and>
    (\<forall>path \<in> set dl_paths. length (dl_file path name) + 1 \<le> dl_buffer name)"
proof (intro conjI)
  show "dl_error (fst (os_dlopen_freebsd E name l)) = None \<longleftrightarrow> dl_addr (fst (os_dlopen_freebsd E name l)) \<noteq> NULL"
    using dlopen_paths_report [OF assms, of "\<lparr>dl_addr = NULL, dl_error = Some ''No library found on acceptable search paths''\<rparr>" name dl_paths]
    by (simp add: os_dlopen_freebsd_def case_prod_beta)
  show "\<forall>path \<in> set dl_paths. length (dl_file path name) + 1 \<le> dl_buffer name"
    by (simp add: dl_paths_def dl_file_def dl_buffer_def)
qed (rule dlopen_reports [OF assms])

text \<open>A loader that finds one library, in the second directory.\<close>

definition ex_dl :: dl_env where
  "ex_dl = \<lparr>env_dlopen = (\<lambda>l. case l of Dlopen f _ # _ \<Rightarrow> if f = ''/usr/lib/a.so'' then 8 else NULL | _ \<Rightarrow> NULL),
     env_dlsym = (\<lambda>_. NULL),
     env_dlerror = (\<lambda>l. case dropWhile (\<lambda>x. case x of Stat _ \<Rightarrow> True | Dlopen f _ \<Rightarrow> f = ''/usr/lib/a.so'' | _ \<Rightarrow> False) (tl l) of
       Dlopen f _ # _ \<Rightarrow> Some ''not found'' | _ \<Rightarrow> None),
     env_stat = (\<lambda>l. 0)\<rparr>"

lemma ex_dl_documented: "dlerror_documented ex_dl"
  by (simp add: dlerror_documented_def ex_dl_def Let_def)

lemma dlopen_error_or_address_witness:
  "dl_addr (fst (os_dlopen_freebsd ex_dl ''a'' [])) = 8 \<and> dl_error (fst (os_dlopen_freebsd ex_dl ''a'' [])) = None"
  using dlopen_error_or_address [of ex_dl "[]" "''a''"] ex_dl_documented
  by (simp add: ex_dl_def os_dlopen_freebsd_def dl_paths_def dl_file_def Let_def)

end
