(* ===== verification/Launcher.thy ===== *)
theory Launcher
  imports Memory_Start CC
begin

unbundle bit_operations_syntax

section \<open>The launcher (\<open>src/launcher.c\<close>)\<close>

text \<open>
  The launcher takes the configuration of the runtime from environment variables and from
  arguments of the form \<open>@runtime <variable> <value>\<close>, gives the other arguments to the
  guest program and starts the parts. The end of the process with a message is \<open>Inl\<close>; a
  string function that is given NULL is \<open>None\<close>. The arguments from \<open>argv[i]\<close> on are a list,
  whose end is the NULL at \<open>argv[argc]\<close>.

  \<open>strtoul\<close> is that of the C library of this system: without a digit it sets \<open>errno\<close> to
  \<open>EINVAL\<close>, and it never clears \<open>errno\<close>.
\<close>

subsection \<open>Numbers\<close>

datatype errno_t = EINVAL | ERANGE

definition is_digit :: "char \<Rightarrow> bool" where "is_digit ch \<longleftrightarrow> 48 \<le> (of_char ch :: nat) \<and> (of_char ch :: nat) \<le> 57"
definition is_space :: "char \<Rightarrow> bool" where "is_space ch \<longleftrightarrow> (of_char ch :: nat) \<in> {9, 10, 11, 12, 13, 32}"

definition number :: "string \<Rightarrow> nat" where
  "number = foldl (\<lambda>n ch. 10 * n + ((of_char ch :: nat) - 48)) 0"

definition strtoul :: "string \<Rightarrow> u32 \<times> errno_t option" where
  "strtoul str =
     (let s = dropWhile is_space str;
          neg = (s \<noteq> [] \<and> hd s = CHR ''-'');
          ds = takeWhile is_digit (if s \<noteq> [] \<and> hd s \<in> {CHR ''+'', CHR ''-''} then tl s else s)
      in if ds = [] then (0, Some EINVAL)
         else if 2 ^ 32 \<le> number ds then (- 1, Some ERANGE)
         else (if neg then - of_nat (number ds) else of_nat (number ds), None))"

subsection \<open>The configuration\<close>

record config =
  cc_stats :: cc_stat_t
  mm_stats :: mm_stat_t
  concurrency_system :: "string option"
  memory_manager :: "string option"
  errno :: "errno_t option"

record launch_env =
  getenv :: "string \<Rightarrow> string option"
  default_cc_num_executors :: u32
  default_cc_executor_stack_size :: u32
  default_cc_max_threads :: u32
  default_mm_total_limit :: u32
  default_mm_malloc_limit :: u32
  default_mm_gc_limit :: u32
  default_mm_slice_size :: u32

text \<open>The \<open>else\<close> of both kinds of test belongs to the test of the value.\<close>

definition number_option :: "string \<Rightarrow> (u32 \<Rightarrow> config \<Rightarrow> config) \<Rightarrow> string \<Rightarrow> config \<Rightarrow> string + config" where
  "number_option msg upd str cfg =
     (let (val, e) = strtoul str;
          cfg = cfg\<lparr>errno := (if e = None then errno cfg else e)\<rparr>
      in if Some EINVAL \<noteq> errno cfg then
           (if 0 \<noteq> val then Inr (upd val cfg) else Inl msg)
         else Inr cfg)"

definition set_mm :: "(mm_stat_t \<Rightarrow> mm_stat_t) \<Rightarrow> config \<Rightarrow> config" where
  "set_mm f cfg = cfg\<lparr>mm_stats := f (mm_stats cfg)\<rparr>"

definition set_cc :: "(cc_stat_t \<Rightarrow> cc_stat_t) \<Rightarrow> config \<Rightarrow> config" where
  "set_cc f cfg = cfg\<lparr>cc_stats := f (cc_stats cfg)\<rparr>"

definition env_options :: "(string \<times> (u32 \<Rightarrow> config \<Rightarrow> config)) list" where
  "env_options = [
     (''MM_TOTAL_LIMIT'', \<lambda>v. set_mm (mm_stat_t.mm_total_limit_update (\<lambda>_. v))),
     (''MM_GC_LIMIT'', \<lambda>v. set_mm (mm_stat_t.mm_gc_limit_update (\<lambda>_. v))),
     (''MM_MALLOC_LIMIT'', \<lambda>v. set_mm (mm_stat_t.mm_malloc_limit_update (\<lambda>_. v))),
     (''MM_SLICE_SIZE'', \<lambda>v. set_mm (mm_stat_t.mm_slice_size_update (\<lambda>_. v))),
     (''MM_NUM_GENERATIONS'', \<lambda>v. set_mm (mm_num_generations_update (\<lambda>_. v))),
     (''CC_NUM_EXECUTORS'', \<lambda>v. set_cc (cc_num_executors_update (\<lambda>_. v))),
     (''CC_EXECUTOR_STACK_SIZE'', \<lambda>v. set_cc (cc_executor_stack_size_update (\<lambda>_. v))),
     (''CC_MAX_THREADS'', \<lambda>v. set_cc (cc_max_threads_update (\<lambda>_. v)))]"

definition arg_options :: "(string \<times> (u32 \<Rightarrow> config \<Rightarrow> config)) list" where
  "arg_options = [
     (''cc_num_executors'', \<lambda>v. set_cc (cc_num_executors_update (\<lambda>_. v))),
     (''cc_executor_stack_size'', \<lambda>v. set_cc (cc_executor_stack_size_update (\<lambda>_. v))),
     (''cc_max_threads'', \<lambda>v. set_cc (cc_max_threads_update (\<lambda>_. v))),
     (''mm_total_limit'', \<lambda>v. set_mm (mm_stat_t.mm_total_limit_update (\<lambda>_. v))),
     (''mm_malloc_limit'', \<lambda>v. set_mm (mm_stat_t.mm_malloc_limit_update (\<lambda>_. v))),
     (''mm_gc_limit'', \<lambda>v. set_mm (mm_stat_t.mm_gc_limit_update (\<lambda>_. v))),
     (''mm_slice_size'', \<lambda>v. set_mm (mm_stat_t.mm_slice_size_update (\<lambda>_. v))),
     (''mm_num_generations'', \<lambda>v. set_mm (mm_num_generations_update (\<lambda>_. v)))]"

fun read_env :: "(string \<Rightarrow> string option) \<Rightarrow> (string \<times> (u32 \<Rightarrow> config \<Rightarrow> config)) list \<Rightarrow> config \<Rightarrow> string + config" where
  "read_env env [] cfg = Inr cfg"
| "read_env env ((name, upd) # opts) cfg =
     (case env name of
        None \<Rightarrow> read_env env opts cfg
      | Some str \<Rightarrow>
          if str \<noteq> '''' then
            (case number_option (name @ '' environment variable must be an integer.'') upd str cfg of
               Inl msg \<Rightarrow> Inl msg | Inr cfg \<Rightarrow> read_env env opts cfg)
          else read_env env opts cfg)"

text \<open>
  \<open>if(!strcmp(argv[i], name) && argc > ++i) ... else if ...\<close>: a name without a value still
  advances \<open>i\<close>, and the next test is given \<open>argv[argc]\<close>.
\<close>

fun arg_option ::
  "(string \<times> (u32 \<Rightarrow> config \<Rightarrow> config)) list \<Rightarrow> string list \<Rightarrow> config \<Rightarrow> (string + config \<times> string list) option" where
  "arg_option [] args cfg = Some (Inl ''Invalid argument.'')"
| "arg_option ((name, upd) # opts) [] cfg = None"
| "arg_option ((name, upd) # opts) (a # args) cfg =
     (if a = name then
        (case args of
           [] \<Rightarrow> arg_option opts [] cfg
         | v # args \<Rightarrow>
             (case number_option (name @ '' argument must be an integer.'') upd v cfg of
                Inl msg \<Rightarrow> Some (Inl msg) | Inr cfg \<Rightarrow> Some (Inr (cfg, args))))
      else arg_option opts (a # args) cfg)"

lemma arg_option_shorter: "arg_option opts args cfg = Some (Inr (cfg', rest)) \<Longrightarrow> length rest < length args"
  by (induction opts args cfg rule: arg_option.induct) (auto split: if_splits list.splits sum.splits)

function (sequential) parse_args :: "string list \<Rightarrow> config \<Rightarrow> (string + config \<times> string list) option" where
  "parse_args [] cfg = Some (Inr (cfg, []))"
| "parse_args (a # args) cfg =
     (if a \<noteq> ''@runtime'' then
        (case parse_args args cfg of
           Some (Inr (cfg, newargv)) \<Rightarrow> Some (Inr (cfg, a # newargv)) | r \<Rightarrow> r)
      else if args \<noteq> [] then
        (case arg_option arg_options args cfg of
           None \<Rightarrow> None | Some (Inl msg) \<Rightarrow> Some (Inl msg)
         | Some (Inr (cfg, rest)) \<Rightarrow> parse_args rest cfg)
      else Some (Inl ''Bad argument format.''))"
  by pat_completeness auto
termination
  by (relation "measure (\<lambda>(args, _). length args)") (auto dest: arg_option_shorter)

definition set_runtime_stats ::
  "launch_env \<Rightarrow> string list \<Rightarrow> config \<Rightarrow> (string + config \<times> string list) option" where
  "set_runtime_stats L argv cfg =
     (let cfg = set_cc (\<lambda>c. c\<lparr>cc_num_executors := default_cc_num_executors L,
            cc_executor_stack_size := default_cc_executor_stack_size L, cc_max_threads := default_cc_max_threads L\<rparr>) cfg;
          cfg = set_mm (\<lambda>m. m\<lparr>mm_stat_t.mm_total_limit := default_mm_total_limit L,
            mm_stat_t.mm_malloc_limit := default_mm_malloc_limit L, mm_stat_t.mm_gc_limit := default_mm_gc_limit L,
            mm_stat_t.mm_slice_size := default_mm_slice_size L\<rparr>) cfg
      in case read_env (getenv L) env_options cfg of
           Inl msg \<Rightarrow> Some (Inl msg)
         | Inr cfg \<Rightarrow>
             (let name = (\<lambda>var old. case getenv L var of Some str \<Rightarrow> if str \<noteq> '''' then Some str else old | None \<Rightarrow> old);
                  cfg = cfg\<lparr>concurrency_system := name ''CC_SYSTEM'' (concurrency_system cfg),
                    memory_manager := name ''MEMORY_MANAGER'' (memory_manager cfg)\<rparr>
              in case argv of [] \<Rightarrow> None
                 | a # args \<Rightarrow>
                     (case parse_args args cfg of
                        Some (Inr (cfg, newargv)) \<Rightarrow> Some (Inr (cfg, a # newargv)) | r \<Rightarrow> r)))"

text \<open>The configuration before \<open>main\<close>.\<close>

definition initial_config :: config where
  "initial_config = \<lparr>
     cc_stats = \<lparr>cc_num_executors = 0, cc_actual_executors = 0, cc_executor_stack_size = 0, cc_max_threads = 0,
       cc_num_threads = 0, cc_active_threads = 0\<rparr>,
     mm_stats = \<lparr>mm_total_limit = 0, mm_gc_limit = 0, mm_malloc_limit = 0, mm_slice_size = 0, mm_num_generations = 0\<rparr>,
     concurrency_system = None, memory_manager = None, errno = None\<rparr>"

text \<open>
  \<open>main\<close>: the result is the message with which the process ends, or how control leaves it.
  \<open>argv_at\<close> gives the address of the arguments that are passed on.
\<close>

definition main ::
  "'a gc_thread_state_scheme gc_thread_env \<Rightarrow> launch_env \<Rightarrow> ptr \<Rightarrow> ptr \<Rightarrow> (string list \<Rightarrow> ptr) \<Rightarrow> string list \<Rightarrow> ptr \<Rightarrow>
   'a gc_conc \<Rightarrow> ((string + leave) \<times> 'a gc_conc) option" where
  "main E L slice_tab stkptr argv_at argv envp c = do {
     r \<leftarrow> set_runtime_stats L argv initial_config;
     case r of Inl msg \<Rightarrow> Some (Inl msg, c)
     | Inr (cfg, newargv) \<Rightarrow> do {
         ((cc_size, cc), c) \<leftarrow> cc_request (exec_part E) (cc_stats cfg) c;
         let mm_size = mm_request E (mm_stats cfg) cc;
         (mem, c) \<leftarrow> mm_start E slice_tab (mm_stats cfg) cc (cc_size + mm_size) c;
         (l, c) \<leftarrow> cc_start (exec_part E) stkptr cc (of_nat (length newargv)) (argv_at newargv) envp mem c;
         Some (Inr l, c) } }"

subsection \<open>Printing and reading options\<close>

fun decimal :: "nat \<Rightarrow> string" where
  "decimal n = (if n < 10 then [char_of (48 + n)] else decimal (n div 10) @ [char_of (48 + n mod 10)])"

declare decimal.simps [simp del]

datatype runtime_arg = Plain string | Setting string nat

fun print_arg :: "runtime_arg \<Rightarrow> string list" where
  "print_arg (Plain a) = [a]"
| "print_arg (Setting name n) = [''@runtime'', name, decimal n]"

fun apply_arg :: "runtime_arg \<Rightarrow> config \<Rightarrow> config" where
  "apply_arg (Plain a) cfg = cfg"
| "apply_arg (Setting name n) cfg = (case map_of arg_options name of None \<Rightarrow> cfg | Some upd \<Rightarrow> upd (of_nat n) cfg)"

fun plain_args :: "runtime_arg list \<Rightarrow> string list" where
  "plain_args [] = []"
| "plain_args (Plain a # rs) = a # plain_args rs"
| "plain_args (Setting _ _ # rs) = plain_args rs"

text \<open>
  What can be printed: an argument that does not start a setting, and any name with a number of 32 bits.
\<close>

fun arg_ok :: "runtime_arg \<Rightarrow> bool" where
  "arg_ok (Plain a) \<longleftrightarrow> a \<noteq> ''@runtime''"
| "arg_ok (Setting name n) \<longleftrightarrow> n < 2 ^ 32"

text \<open>
  The settings that end the program, and with which message: those of an unknown name, and those of zero unless
  an earlier malformed number (\<open>stuck\<close>) has left \<open>EINVAL\<close> in \<open>errno\<close>.
\<close>

fun refused :: "bool \<Rightarrow> runtime_arg \<Rightarrow> bool" where
  "refused stuck (Plain a) = False"
| "refused stuck (Setting name n) \<longleftrightarrow> name \<notin> fst ` set arg_options \<or> n = 0 \<and> \<not> stuck"

fun refusal :: "runtime_arg \<Rightarrow> string" where
  "refusal (Plain a) = []"
| "refusal (Setting name n) =
     (if name \<in> fst ` set arg_options then name @ '' argument must be an integer.'' else ''Invalid argument.'')"

lemma digit_char: "d < 10 \<Longrightarrow> is_digit (char_of (48 + d)) \<and> (of_char (char_of (48 + d) :: char) :: nat) = 48 + d"
  by (simp add: is_digit_def)

lemma decimal_digits: "decimal n \<noteq> [] \<and> (\<forall>ch \<in> set (decimal n). is_digit ch)"
proof (induction n rule: decimal.induct)
  case (1 n)
  then show ?case by (subst (1 2) decimal.simps) (auto simp: digit_char)
qed

lemma number_decimal: "number (decimal n) = n"
proof (induction n rule: decimal.induct)
  case (1 n)
  show ?case
  proof (cases "n < 10")
    case True
    then show ?thesis using digit_char [of n] by (subst decimal.simps) (simp add: number_def)
  next
    case False
    have "number (decimal (n div 10) @ [char_of (48 + n mod 10)]) = 10 * number (decimal (n div 10)) + n mod 10"
      using digit_char [of "n mod 10"] by (simp add: number_def)
    then show ?thesis using False 1 by (subst decimal.simps) simp
  qed
qed

lemma strtoul_decimal:
  assumes "n < 2 ^ 32"
  shows "strtoul (decimal n) = (of_nat n, None)"
proof -
  obtain ch s where d: "decimal n = ch # s" "is_digit ch" "\<forall>x \<in> set s. is_digit x"
    using decimal_digits [of n] by (cases "decimal n") auto
  have c: "\<not> is_space ch" "ch \<noteq> CHR ''+''" "ch \<noteq> CHR ''-''"
    using d(2) by (auto simp: is_digit_def is_space_def)
  have t: "takeWhile is_digit s = s" using d(3) by (simp add: takeWhile_eq_all_conv)
  show ?thesis using d(1,2) c number_decimal [of n] assms by (simp add: strtoul_def Let_def t)
qed

lemma option_keeps_errno:
  assumes "(name, upd) \<in> set arg_options \<union> set env_options"
  shows "errno (upd v cfg) = errno cfg"
  using assms by (auto simp: arg_options_def env_options_def set_mm_def set_cc_def)

lemma arg_option_found:
  assumes "map_of opts name = Some upd"
  shows "arg_option opts (name # v # args) cfg =
    (case number_option (name @ '' argument must be an integer.'') upd v cfg of
       Inl msg \<Rightarrow> Some (Inl msg) | Inr cfg \<Rightarrow> Some (Inr (cfg, args)))"
  using assms by (induction opts) (auto split: if_splits)

lemma arg_option_unknown:
  "map_of opts name = None \<Longrightarrow> arg_option opts (name # args) cfg = Some (Inl ''Invalid argument.'')"
  by (induction opts) (auto split: if_splits)

lemma number_option_decimal:
  assumes "n < 2 ^ 32"
  shows "number_option msg upd (decimal n) cfg =
    (if errno cfg = Some EINVAL then Inr cfg else if n = 0 then Inl msg else Inr (upd (of_nat n) cfg))"
proof -
  have "(of_nat n :: u32) \<noteq> 0" if "n \<noteq> 0" using that assms by (simp add: word_of_nat_eq_0_iff dvd_imp_le nat_dvd_not_less)
  then show ?thesis using assms by (auto simp: number_option_def strtoul_decimal)
qed

text \<open>
  C38 [options]. Plain arguments and settings of any names to numbers of 32 bits are printed to
  the command line and read back. The first setting of a name that the launcher does not know (so
  also \<open>concurrency_system\<close> and \<open>memory_manager\<close>, which its usage text
  lists) ends the program with a message, and so does the first setting of a known name to zero.
  Otherwise each setting is applied, in order, and the guest program is given the plain arguments,
  in order. That is so unless a malformed environment variable has left \<open>EINVAL\<close> in
  \<open>errno\<close>: then the known settings are all ignored, zeros too.
\<close>

theorem options_roundtrip:
  assumes "list_all arg_ok rs"
  shows "parse_args (concat (map print_arg rs)) cfg = Some (case find (refused (errno cfg = Some EINVAL)) rs of
    Some r \<Rightarrow> Inl (refusal r)
  | None \<Rightarrow> Inr (if errno cfg = Some EINVAL then cfg else fold apply_arg rs cfg, plain_args rs))"
  using assms
proof (induction rs arbitrary: cfg)
  case (Cons r rs)
  show ?case
  proof (cases r)
    case (Plain a)
    then show ?thesis using Cons by (simp split: option.split)
  next
    case (Setting name n)
    then have n: "n < 2 ^ 32" using Cons.prems by simp
    show ?thesis
    proof (cases "map_of arg_options name")
      case None
      then have "name \<notin> fst ` set arg_options" by (simp add: map_of_eq_None_iff)
      then show ?thesis using Setting arg_option_unknown [OF None] by simp
    next
      case (Some upd)
      have m: "(name, upd) \<in> set arg_options" by (rule map_of_SomeD [OF Some])
      then have e: "errno (upd v cfg) = errno cfg" for v by (intro option_keeps_errno [of name]) simp
      have "name \<in> fst ` set arg_options" using m by (rule rev_image_eqI) simp
      then show ?thesis using Cons Setting Some n by (simp add: arg_option_found number_option_decimal e split: option.split)
    qed
  qed
qed simp

lemma options_roundtrip_witness:
  "parse_args [''in.txt'', ''@runtime'', ''cc_max_threads'', ''12'', ''-v''] initial_config =
      Some (Inr (set_cc (\<lambda>c. c\<lparr>cc_max_threads := 12\<rparr>) initial_config, [''in.txt'', ''-v''])) \<and>
    parse_args [''@runtime'', ''cc_max_threads'', ''12''] (initial_config\<lparr>errno := Some EINVAL\<rparr>) =
      Some (Inr (initial_config\<lparr>errno := Some EINVAL\<rparr>, [])) \<and>
    parse_args [''@runtime'', ''memory_manager'', ''12''] initial_config = Some (Inl ''Invalid argument.'')"
proof -
  have d: "decimal 12 = ''12''" by code_simp
  have "parse_args (concat (map print_arg [Plain ''in.txt'', Setting ''cc_max_threads'' 12, Plain ''-v''])) initial_config =
      Some (Inr (set_cc (\<lambda>c. c\<lparr>cc_max_threads := 12\<rparr>) initial_config, [''in.txt'', ''-v'']))"
    by (subst options_roundtrip) (simp_all add: initial_config_def arg_options_def)
  moreover have "parse_args (concat (map print_arg [Setting ''cc_max_threads'' 12])) (initial_config\<lparr>errno := Some EINVAL\<rparr>) =
      Some (Inr (initial_config\<lparr>errno := Some EINVAL\<rparr>, []))"
    by (subst options_roundtrip) (simp_all add: arg_options_def)
  moreover have "parse_args (concat (map print_arg [Setting ''memory_manager'' 12])) initial_config = Some (Inl ''Invalid argument.'')"
    by (subst options_roundtrip) (simp_all add: initial_config_def arg_options_def)
  ultimately show ?thesis by (simp add: d)
qed

subsection \<open>Malformed numbers\<close>

definition same_numbers :: "config \<Rightarrow> config \<Rightarrow> bool" where
  "same_numbers a b \<longleftrightarrow> cc_stats a = cc_stats b \<and> mm_stats a = mm_stats b"

lemma number_option_stuck:
  assumes "errno cfg = Some EINVAL" "snd (strtoul str) \<noteq> Some ERANGE"
  shows "number_option msg upd str cfg = Inr cfg"
proof -
  have "snd (strtoul str) = None \<or> snd (strtoul str) = Some EINVAL"
    using assms(2) by (cases "snd (strtoul str)"; cases "the (snd (strtoul str))") auto
  then show ?thesis using assms(1) by (auto simp: number_option_def split_def Let_def)
qed

lemma arg_option_stuck:
  assumes "arg_option opts args cfg = Some (Inr (cfg', rest))" "errno cfg = Some EINVAL"
    "\<forall>a \<in> set args. snd (strtoul a) \<noteq> Some ERANGE"
  shows "cfg' = cfg \<and> set rest \<subseteq> set args"
  using assms
  by (induction opts args cfg rule: arg_option.induct)
    (auto simp: number_option_stuck split: if_splits list.splits)

lemma parse_args_stuck:
  assumes "parse_args args cfg = Some (Inr (cfg', rest))" "errno cfg = Some EINVAL"
    "\<forall>a \<in> set args. snd (strtoul a) \<noteq> Some ERANGE"
  shows "cfg' = cfg"
  using assms
proof (induction args cfg arbitrary: rest rule: parse_args.induct)
  case (2 a args cfg)
  show ?case
  proof (cases "a = ''@runtime''")
    case True
    then obtain cfg'' rest'' where o: "arg_option arg_options args cfg = Some (Inr (cfg'', rest''))"
      "parse_args rest'' cfg'' = Some (Inr (cfg', rest))" "args \<noteq> []"
      using 2(3) by (auto split: if_splits option.splits sum.splits)
    have "cfg'' = cfg" "set rest'' \<subseteq> set args" using arg_option_stuck [OF o(1)] 2(4,5) by auto
    moreover from this have "\<forall>a \<in> set rest''. snd (strtoul a) \<noteq> Some ERANGE" using 2(5) by auto
    ultimately have "cfg' = cfg''" using o True 2(4) by (intro 2(2) [of "Inr (cfg'', rest'')" "(cfg'', rest'')" cfg'' rest'' rest]) simp_all
    with \<open>cfg'' = cfg\<close> show ?thesis by simp
  next
    case False
    then show ?thesis using 2 by (auto split: option.splits sum.splits)
  qed
qed simp

text \<open>
  A value that is no number is neither refused nor the end of it:
  it is ignored, and as nothing clears \<open>errno\<close> so is every later number that is in range,
  although the code has a message for values that are not integers.
\<close>

theorem malformed_number_silences:
  assumes "name \<in> fst ` set arg_options" "snd (strtoul v) = Some EINVAL" "\<forall>a \<in> set args. snd (strtoul a) \<noteq> Some ERANGE"
    and "parse_args (''@runtime'' # name # v # args) cfg = Some (Inr (cfg', rest))"
  shows "same_numbers cfg' cfg"
proof -
  obtain upd where u: "map_of arg_options name = Some upd"
    using assms(1) by (metis map_of_eq_None_iff not_None_eq)
  let ?c = "cfg\<lparr>errno := Some EINVAL\<rparr>"
  have "number_option msg upd v cfg = Inr ?c" for msg
    using assms(2) by (simp add: number_option_def split_def Let_def)
  then have "parse_args args ?c = Some (Inr (cfg', rest))"
    using assms(4) arg_option_found [OF u, of v args cfg] by simp
  from parse_args_stuck [OF this] assms(3) show ?thesis by (simp add: same_numbers_def)
qed

lemma malformed_number_silences_witness:
  "\<exists>cfg rest. parse_args (''@runtime'' # ''cc_max_threads'' # ''x'' # [''@runtime'', ''mm_gc_limit'', ''7'']) initial_config =
      Some (Inr (cfg, rest)) \<and> same_numbers cfg initial_config"
proof -
  let ?c = "initial_config\<lparr>errno := Some EINVAL\<rparr>"
  have e: "snd (strtoul ''x'') = Some EINVAL" "snd (strtoul ''7'') = None" "snd (strtoul ''@runtime'') = Some EINVAL"
    "snd (strtoul ''mm_gc_limit'') = Some EINVAL"
    by (simp_all add: strtoul_def is_space_def is_digit_def number_def Let_def)
  have p: "parse_args (''@runtime'' # ''cc_max_threads'' # ''x'' # [''@runtime'', ''mm_gc_limit'', ''7'']) initial_config =
    Some (Inr (?c, []))"
    by (simp add: arg_options_def number_option_def split_def Let_def e initial_config_def)
  have "''cc_max_threads'' \<in> fst ` set arg_options" by (simp add: arg_options_def)
  from malformed_number_silences [OF this e(1) _ p] e p show ?thesis by simp
qed

text \<open>
  A known name at the end of the arguments, without its value, makes
  the launcher compare with NULL, except for the last name of the list.
\<close>

theorem missing_value_faults:
  "parse_args (''@runtime'' # [name]) cfg =
    (if name \<in> fst ` set (butlast arg_options) then None else Some (Inl ''Invalid argument.''))"
proof -
  have e: "arg_option opts [] cfg = (if opts = [] then Some (Inl ''Invalid argument.'') else None)" for opts
    by (cases opts) auto
  have "arg_option opts [name] cfg = (if name \<in> fst ` set (butlast opts) then None else Some (Inl ''Invalid argument.''))" for opts
  proof (induction opts)
    case (Cons p opts)
    then show ?case by (cases p; cases "opts = []") (simp_all add: e split: if_splits)
  qed simp
  then show ?thesis by (simp split: option.splits)
qed

end
