(* ===== verification/Spec2Isabelle.thy ===== *)
theory Spec2Isabelle
  imports Memory_Serve Queue_Concurrent Object_Queue Thread_Lists GC_Collect Generations OS_DL Launcher
begin

text \<open>
  A model of the runtime under \<open>src/\<close>: a user-level thread system and a memory manager with
  a concurrent collector for the ia32 architecture, built from lock-free structures. Paths
  below are relative to \<open>src/src/\<close>; each C file comes with its header in \<open>src/include/\<close>.

  \<^bold>\<open>The program.\<close> The launcher (\<open>launcher.c\<close>) reads the configuration, starts the memory
  manager (\<open>mm/mm.c\<close>) and then the concurrency system (\<open>cc/cc.c\<close>). The memory manager rests
  on slices (\<open>mm/slice.c\<close>), large pieces obtained from the operating system under quotas.
  \<open>malloc\<close> (\<open>mm/malloc/\<close>) cuts slices into blocks and keeps partially used superblocks in
  block queues; the collector's allocator (\<open>mm/gc/gc_alloc.c\<close>) hands slices to threads for
  collected objects. An executor (\<open>cc/thread_executor.c\<close>) is an operating system thread that
  runs user threads (\<open>cc/thread.c\<close>); its scheduler (\<open>cc/noninteract_scheduler.c\<close>) has a
  private queue and takes from and gives to one work queue of all executors, a thread queue
  (\<open>cc/lf_thread_queue.c\<close>). Executors wake each other by signals. Each executor also has a
  collector thread (\<open>mm/gc/gc_thread.c\<close>); collectors meet at barriers, claim and copy the
  objects of the generations they collect, and share work through an object queue
  (\<open>mm/gc/lf_object_queue.c\<close>).

  \<^bold>\<open>How C is modelled.\<close> A routine is a function from a memory, together with a list of what
  the other executors are still going to do to it, to an optional result and memory
  (\<open>Prelude\<close>). Before every access to a shared location the next of these interferences, an
  arbitrary change of the memory, happens; private locations are accessed without. An lvalue
  is a \<open>loc\<close>, a pair of a partial load and a store; NULL is never mapped. \<open>None\<close> says that the
  function does not return: a fault, a call of \<open>panic\<close> or \<open>exit\<close>, a division by zero, or a
  loop that does not end. Loops over a range are \<open>foreach\<close>; the compare-and-set loops with a
  backoff are \<open>retry\<close> and its relatives, \<open>partial_function\<close>s in the option monad, as is every
  loop that may not end. So there is no fuel and no bound on the number of rounds: that a
  routine returns is part of what is proved, as an equation with \<open>Some\<close> or as \<open>returns\<close>.
  A theorem over \<open>(s, es)\<close> holds under the interference \<open>es\<close>, usually restricted by a rely
  condition; one over \<open>(s, [])\<close> is about an executor that nobody disturbs.

  Control may leave a routine without returning from it, by a switch to another thread. Such
  a routine has a result \<open>leave\<close>, which says where control goes and with which registers, or a
  sum of \<open>leave\<close> and a result. Integers are words of their width; structures are records in
  a heap of their type, found by address, beside the untyped words of memory. The structures
  of later components extend the state of earlier ones, so that each routine works on every
  larger state, in the order slices, block queue, \<open>malloc\<close>, collector's allocator, thread
  queue, threads, schedulers, operating system threads, executors, collector.

  Answers of the operating system (\<open>mmap\<close>, \<open>strtoul\<close>'s environment, thread creation, signal
  masks), the content of uninitialised locals, and the names from headers that are not in the
  repository (\<open>definitions.h\<close>, \<open>gc.h\<close>, \<open>cc.h\<close>, \<open>cc_stat.h\<close>, \<open>os_thread.h\<close>, \<open>os_signal.h\<close>,
  \<open>program.h\<close>, \<open>mm.h\<close>: constants of the collector, sizes of types, macros such as \<open>min\<close>) are
  arguments, gathered in records \<open>slice_env\<close>, \<open>gc_env\<close>, \<open>gc_thread_env\<close>, \<open>sched_env\<close>,
  \<open>exec_env\<close>. Assertions, debugging output and fences have no effect in the model. Where a
  file does not compile as it is, its theory says so and what is modelled instead.

  \<^bold>\<open>Shared interfaces.\<close> Each is a locale, proved once and interpreted on every provider:
  \<open>shared_cell\<close> (\<open>Atomic\<close>), a word changed by compare-and-set; \<open>lf_stack\<close> (\<open>Stack\<close>), Treiber's
  stack, behind all free lists; \<open>ms_locs\<close> (\<open>MS_Queue\<close>), the attempts of Michael and Scott's
  queue, behind the three lock-free queues, and \<open>ms_hazard\<close> (\<open>MS_Rely\<close>), which extends it by
  what a hazard pointer is worth to an enqueue under interference; all over \<open>linked_nodes\<close> (\<open>Prelude\<close>); \<open>quota\<close>
  (\<open>Slice\<close>), a counter of reserved space; \<open>fifo_queue\<close> (\<open>Fifo\<close>), first
  in, first out over any sequence of operations, kept by the lock-free queues, the private
  queues of schedulers and the local queues of collectors; \<open>block_pool\<close> (\<open>Pool\<close>), what an
  allocator of equal blocks promises; \<open>waker\<close> (\<open>Thread_Lists\<close>), what the scheduler relies on
  when it wakes an idle executor. \<open>Hazard\<close> is the hash table a scan of hazard pointers
  builds, the same in three files.

  \<^bold>\<open>Theories and components.\<close>

  \<^item> \<open>Atomic\<close> (\<open>arch/ia32/atomic.c\<close>): atomic instructions, bitmaps, backoff. A fetch-and-add
    loop is one step at one moment; the bitmap allocation takes a set bit.
  \<^item> \<open>Slice\<close> (\<open>mm/slice.c\<close>, \<open>os/posix/os_mem.c\<close>): the table of 256 descriptors, quotas,
    allocation. Reservations are atomic and always return; the free list under interference,
    and the ABA problem; what allocation and freeing do on every branch.
  \<^item> \<open>Malloc_Data\<close>, \<open>Size_Class\<close>, \<open>Malloc\<close>, \<open>Superblock\<close>, \<open>Malloc_Start\<close> (\<open>mm/arch/ia32/lf_malloc_data.c\<close>,
    \<open>mm/malloc/lf_malloc.c\<close>): packed words and their round trips; the size classes; the
    allocator; the invariant of an active superblock, which a new superblock establishes and
    under which allocation and freeing are a stack of blocks; the heaps and queues after
    initialisation, which are what the theorems on superblocks and queues start from.
  \<^item> \<open>Block_Queue\<close> (\<open>mm/malloc/lf_block_queue.c\<close>), \<open>Thread_Queue\<close> and \<open>Queue_Init\<close>
    (\<open>cc/lf_thread_queue.c\<close>), \<open>Object_Queue\<close> (\<open>mm/gc/lf_object_queue.c\<close>): the queues are lists,
    from the state their initialisation leaves; retiring frees no node a hazard pointer names
    and always returns. The object queue's routines equal those of the thread queue.
    \<open>Queue_Concurrent\<close>: an enqueue under interference that respects its hazard pointer returns and
    links its node by one step. The steps with which other operations change the queue are such
    interferences, except the retiring of a node onto an empty retired list: by it an enqueue can
    be lost.
  \<^item> \<open>Thread\<close>, \<open>Scheduler\<close>, \<open>Scheduling\<close>, \<open>Thread_Lists\<close> (\<open>cc/thread.c\<close>, \<open>cc/noninteract_scheduler.c\<close>): the
    status words, the choice of the next thread, waking and stopping. The status is changed at
    one moment under any interference; a woken thread enters the work queue once; and a step
    relation of wakings, changes, balancing and cycles: in the states reached within the room of the work queue no
    thread is listed twice and the next step comes to its end.
  \<^item> \<open>OS_Thread\<close>, \<open>Executor\<close>, \<open>CC\<close>, \<open>Switching\<close> (\<open>cc/os/posix/\<close>, \<open>arch/context.c\<close>,
    \<open>cc/thread_executor.c\<close>, \<open>cc/cc.c\<close>): threads, barriers and signals of the operating system,
    context switches, executors, the interface. A switch enters the thread the scheduler
    chooses; a safepoint takes all pending signals; starting (or ending when the system refuses a
    thread), creating, waking.
  \<^item> \<open>GC_Desc\<close>, \<open>GC_Alloc\<close>, \<open>GC_Thread\<close>, \<open>GC_Cycle\<close>, \<open>GC_Collect\<close>, \<open>GC_Copy\<close>, \<open>Generations\<close>
    (\<open>mm/gc/\<close>): headers of objects; the slices of generations; claiming, copying, checking and
    updating objects; the phases of a collection. An object moves once and its copy has its
    type; checking an array ends; which loops do not end; the order of generations, and what the
    final barrier makes of it.
  \<^item> \<open>Memory_Start\<close>, \<open>Memory_Serve\<close> (\<open>mm/mm.c\<close>): layout of the static data; and the composition of
    slices, \<open>malloc\<close> and collector: after \<open>mm_start\<close> the first request of a size class maps a
    superblock in fresh memory, and from there \<open>malloc\<close> is a stack of its blocks. What the system
    answers is restricted to what is documented of \<open>mmap\<close>, which may refuse; the mappings made up to there
    are assumed to be granted. That the collector's start leaves
    \<open>malloc\<close> alone is shown with the frame rules of \<open>Frame\<close>. A total limit stops the start.
  \<^item> \<open>Launcher\<close> (\<open>launcher.c\<close>): options and environment.
  \<^item> \<open>OS_DL\<close> (\<open>os/posix/os_dl.c\<close>, \<open>os/freebsd/os_dl.c\<close>): the dynamic loader; an error or an address.

  \<^bold>\<open>Not modelled.\<close> \<open>os/freebsd/executor.c\<close> is an unfinished executor for an interface of old FreeBSD that no
  build includes. The second half of \<open>mm/mm.c\<close> is compiled out. \<open>runtime.c\<close> and the files that
  choose an architecture or operating system only include others. The tests are programs over
  the runtime. What a guest program does between two calls of the runtime is an argument.
\<close>

end
